(* ===== verification/Prelude.thy ===== *)
theory Prelude
  imports Main "HOL-Library.Word" "HOL-Library.Monad_Syntax"
begin

unbundle bit_operations_syntax

text \<open>
  What the component theories share: the machine integer types of the 32-bit big-endian MIPS
  target, byte buffers with their big-endian 16- and 32-bit accessors, writes into a buffer, and
  the notion of a run of a component over a list of inputs together with the locale that lifts a
  one-step invariant to every run.

  A step that the C program does not survive (a failed \<open>assert\<close>, a call of \<open>die\<close>, a read outside
  a buffer) is the value \<^term>\<open>None\<close> of an option.
\<close>

section \<open>Machine integers and bytes\<close>

type_synonym u8 = "8 word"
type_synonym u16 = "16 word"
type_synonym u32 = "32 word"

named_theorems bufs \<open>rewrite rules on byte buffers\<close>

definition hi8 :: "u16 \<Rightarrow> u8" where
  "hi8 w = ucast (drop_bit 8 w)"

definition lo8 :: "u16 \<Rightarrow> u8" where
  "lo8 w = ucast w"

definition mk16 :: "u8 \<Rightarrow> u8 \<Rightarrow> u16" where
  "mk16 h l = push_bit 8 (ucast h) OR ucast l"

definition bytes16 :: "u16 \<Rightarrow> u8 list" where
  "bytes16 w = [hi8 w, lo8 w]"

definition mk32 :: "u8 \<Rightarrow> u8 \<Rightarrow> u8 \<Rightarrow> u8 \<Rightarrow> u32" where
  "mk32 a b c d =
     push_bit 24 (ucast a) OR push_bit 16 (ucast b) OR push_bit 8 (ucast c) OR ucast d"

definition bytes32 :: "u32 \<Rightarrow> u8 list" where
  "bytes32 w = [ucast (drop_bit 24 w), ucast (drop_bit 16 w), ucast (drop_bit 8 w), ucast w]"

text \<open>Checked reads: \<^term>\<open>None\<close> is a read outside the buffer.\<close>

definition rd8 :: "u8 list \<Rightarrow> nat \<Rightarrow> u8 option" where
  "rd8 b i = (if i < length b then Some (b ! i) else None)"

definition rd16 :: "u8 list \<Rightarrow> nat \<Rightarrow> u16 option" where
  "rd16 b i = (if i + 1 < length b then Some (mk16 (b ! i) (b ! (i + 1))) else None)"

definition rd32 :: "u8 list \<Rightarrow> nat \<Rightarrow> u32 option" where
  "rd32 b i = (if i + 3 < length b
     then Some (mk32 (b ! i) (b ! (i + 1)) (b ! (i + 2)) (b ! (i + 3))) else None)"

text \<open>\<open>memcpy(b + off, bs, length bs)\<close> into the buffer \<open>b\<close>, and \<open>n\<close> bytes read at \<open>off\<close>.\<close>

definition buf_write :: "'a list \<Rightarrow> nat \<Rightarrow> 'a list \<Rightarrow> 'a list" where
  "buf_write b off bs = take off b @ bs @ drop (off + length bs) b"

definition sub_buf :: "'a list \<Rightarrow> nat \<Rightarrow> nat \<Rightarrow> 'a list" where
  "sub_buf b off n = take n (drop off b)"

lemma mk16_hi_lo [simp]: "mk16 (hi8 w) (lo8 w) = w"
  unfolding mk16_def hi8_def lo8_def
  by (rule bit_word_eqI) (auto simp: bit_simps)

lemma hi8_mk16 [simp]: "hi8 (mk16 h l) = h"
  unfolding mk16_def hi8_def
  by (rule bit_word_eqI) (auto simp: bit_simps dest: bit_imp_le_length)

lemma lo8_mk16 [simp]: "lo8 (mk16 h l) = l"
  unfolding mk16_def lo8_def
  by (rule bit_word_eqI) (auto simp: bit_simps dest: bit_imp_le_length)

lemma length_bytes16 [simp]: "length (bytes16 w) = 2"
  by (simp add: bytes16_def)

lemma length_bytes32 [simp]: "length (bytes32 w) = 4"
  by (simp add: bytes32_def)

lemma mk32_bytes32 [simp]:
  "mk32 (ucast (drop_bit 24 w)) (ucast (drop_bit 16 w)) (ucast (drop_bit 8 w)) (ucast w) = w"
  unfolding mk32_def
proof (rule bit_word_eqI)
  fix n assume n: "n < LENGTH(32)"
  then consider "n < 8" | "8 \<le> n" "n < 16" | "16 \<le> n" "n < 24" | "24 \<le> n" "n < 32"
    by fastforce
  then show "bit (push_bit 24 (ucast (ucast (drop_bit 24 w) :: u8) :: u32) OR
      push_bit 16 (ucast (ucast (drop_bit 16 w) :: u8)) OR
      push_bit 8 (ucast (ucast (drop_bit 8 w) :: u8)) OR ucast (ucast w :: u8)) n = bit w n"
    by cases (auto simp: bit_simps)
qed

lemma bytes32_mk32 [simp]: "bytes32 (mk32 a b c d) = [a, b, c, d]"
proof -
  have "ucast (drop_bit 24 (mk32 a b c d)) = a"
    unfolding mk32_def by (rule bit_word_eqI) (auto simp: bit_simps dest: bit_imp_le_length)
  moreover have "ucast (drop_bit 16 (mk32 a b c d)) = b"
    unfolding mk32_def by (rule bit_word_eqI) (auto simp: bit_simps dest: bit_imp_le_length)
  moreover have "ucast (drop_bit 8 (mk32 a b c d)) = c"
    unfolding mk32_def by (rule bit_word_eqI) (auto simp: bit_simps dest: bit_imp_le_length)
  moreover have "ucast (mk32 a b c d) = d"
    unfolding mk32_def by (rule bit_word_eqI) (auto simp: bit_simps dest: bit_imp_le_length)
  ultimately show ?thesis by (simp add: bytes32_def)
qed

lemma unat_less_256 [simp]: "unat (b :: u8) < 256"
proof -
  have "unat b < 2 ^ LENGTH(8)" by (rule unsigned_less)
  then show ?thesis by simp
qed

lemma unat_less_65536 [simp]: "unat (b :: u16) < 65536"
proof -
  have "unat b < 2 ^ LENGTH(16)" by (rule unsigned_less)
  then show ?thesis by simp
qed

lemma unat_mk16: "unat (mk16 h l) = 256 * unat h + unat l"
proof -
  have "mk16 h l = push_bit 8 (ucast h) + ucast l"
    unfolding mk16_def
    by (rule disjunctive_add [symmetric]) (auto simp: bit_simps dest: bit_imp_le_length)
  then have eq: "unat (mk16 h l) =
      (unat h mod 65536 * 256 mod 65536 + unat l mod 65536) mod 65536"
    by (simp add: unat_word_ariths push_bit_eq_mult unsigned_ucast_eq take_bit_eq_mod)
  have "unat h * 256 + unat l < 65536" "unat h < 65536" "unat l < 65536" "unat h * 256 < 65536"
    using unat_less_256 [of h] unat_less_256 [of l] by linarith+
  with eq show ?thesis by simp
qed

lemma length_buf_write [bufs]:
  "off + length bs \<le> length b \<Longrightarrow> length (buf_write b off bs) = length b"
  by (simp add: buf_write_def)

lemma nth_buf_write:
  "off + length bs \<le> length b \<Longrightarrow> i < length b \<Longrightarrow>
   buf_write b off bs ! i = (if off \<le> i \<and> i < off + length bs then bs ! (i - off) else b ! i)"
  by (auto simp: buf_write_def nth_append)

lemma sub_buf_write_same [bufs]:
  "off + length bs \<le> length b \<Longrightarrow> n = length bs \<Longrightarrow> sub_buf (buf_write b off bs) off n = bs"
  by (simp add: buf_write_def sub_buf_def)

lemma take_buf_write [bufs]:
  "n \<le> off \<Longrightarrow> off \<le> length b \<Longrightarrow> take n (buf_write b off bs) = take n b"
  by (simp add: buf_write_def)

lemma length_sub_buf: "length (sub_buf b off n) = min n (length b - off)"
  by (simp add: sub_buf_def)

lemma sub_buf_write_other [bufs]:
  assumes "i + n \<le> off \<or> off + length bs \<le> i" and "off + length bs \<le> length b"
  shows "sub_buf (buf_write b off bs) i n = sub_buf b i n"
proof (rule nth_equalityI)
  show "length (sub_buf (buf_write b off bs) i n) = length (sub_buf b i n)"
    using assms by (simp add: length_sub_buf length_buf_write)
next
  fix k assume "k < length (sub_buf (buf_write b off bs) i n)"
  then have k: "k < n" "i + k < length b"
    using assms by (auto simp: length_sub_buf length_buf_write)
  then show "sub_buf (buf_write b off bs) i n ! k = sub_buf b i n ! k"
    using assms by (auto simp: sub_buf_def nth_buf_write length_buf_write)
qed

lemma nth_upd: "j < length xs \<Longrightarrow> xs[i := x] ! j = (if i = j then x else xs ! j)"
  by (auto simp: nth_list_update)

section \<open>Runs of a component\<close>

text \<open>
  A component is a partial step function on its state; a run feeds it a list of inputs and stops
  with \<^term>\<open>None\<close> when a step does not return.
\<close>

fun run :: "('e \<Rightarrow> 's \<Rightarrow> 's option) \<Rightarrow> 'e list \<Rightarrow> 's \<Rightarrow> 's option" where
  "run step [] s = Some s"
| "run step (e # es) s = (case step e s of None \<Rightarrow> None | Some s' \<Rightarrow> run step es s')"

lemma run_append:
  "run step (xs @ ys) s = (case run step xs s of None \<Rightarrow> None | Some s' \<Rightarrow> run step ys s')"
  by (induction xs arbitrary: s) (auto split: option.splits)

text \<open>
  The contract of a component with an invariant: every step that starts in a state of the invariant
  on an admissible input returns, and ends in a state of the invariant.
\<close>

locale total_component =
  fixes step :: "'e \<Rightarrow> 's \<Rightarrow> 's option"
    and ok :: "'e \<Rightarrow> bool"
    and inv :: "'s \<Rightarrow> bool"
  assumes step_total: "inv s \<Longrightarrow> ok e \<Longrightarrow> \<exists>s'. step e s = Some s'"
    and step_inv: "inv s \<Longrightarrow> ok e \<Longrightarrow> step e s = Some s' \<Longrightarrow> inv s'"
begin

lemma run_returns:
  "inv s \<Longrightarrow> list_all ok es \<Longrightarrow> \<exists>s'. run step es s = Some s' \<and> inv s'"
proof (induction es arbitrary: s)
  case Nil
  then show ?case by simp
next
  case (Cons e es)
  from Cons.prems have ok: "ok e" and rest: "list_all ok es" by simp_all
  obtain s1 where s1: "step e s = Some s1" using step_total [OF Cons.prems(1) ok] by blast
  have "inv s1" by (rule step_inv [OF Cons.prems(1) ok s1])
  from Cons.IH [OF this rest] s1 show ?case by simp
qed

lemma run_invariant: "inv s \<Longrightarrow> list_all ok es \<Longrightarrow> run step es s = Some s' \<Longrightarrow> inv s'"
  using run_returns [of s es] by auto

end

end
