(* ===== verification/Lltd_Event.thy ===== *)
theory Lltd_Event
  imports Prelude
begin

text \<open>
  The timer and I/O dispatcher of the link-layer topology responder: \<open>ms-lltd/event.c\<close> and the
  time macros of \<open>ms-lltd/util.h\<close>. The pending events are the list \<open>Events\<close>, kept sorted by firing
  time. A pointer to an \<open>event_t\<close> is the event's identifier, fresh for every \<open>event_add\<close>; the
  function and its cookie are one callback value.

  The locale \<open>timer_service\<close> states what the state machines rely on; it is interpreted on the list
  implementation at the end.
\<close>

section \<open>Times\<close>

type_synonym timeval = "int \<times> int"

definition timerle :: "timeval \<Rightarrow> timeval \<Rightarrow> bool" where
  "timerle a b = (if fst a = fst b then snd a \<le> snd b else fst a \<le> fst b)"

function timeval_carry :: "timeval \<Rightarrow> timeval" where
  "timeval_carry (s, us) =
     (if us > 1000000 then timeval_carry (s + 1, us - 1000000) else (s, us))"
  by pat_completeness auto
termination
  by (relation "measure (\<lambda>(s, us). nat us)") auto

declare timeval_carry.simps [simp del]

definition timeval_add_ms :: "timeval \<Rightarrow> int \<Rightarrow> timeval" where
  "timeval_add_ms tv ms = timeval_carry (fst tv, snd tv + ms * 1000)"

definition bsd_timersub :: "timeval \<Rightarrow> timeval \<Rightarrow> timeval" where
  "bsd_timersub a b =
     (let s = fst a - fst b; us = snd a - snd b
      in if us < 0 then (s - 1, us + 1000000) else (s, us))"

section \<open>The list of pending events\<close>

record 'c tev =
  ev_id :: nat
  ev_firetime :: timeval
  ev_function :: 'c

record 'c evq =
  Events :: "'c tev list"
  ev_fresh :: nat

definition evq_empty :: "'c evq" where
  "evq_empty = \<lparr>Events = [], ev_fresh = 0\<rparr>"

fun event_insert :: "'c tev \<Rightarrow> 'c tev list \<Rightarrow> 'c tev list" where
  "event_insert ne [] = [ne]"
| "event_insert ne (here # es) =
     (if timerle (ev_firetime here) (ev_firetime ne)
      then here # event_insert ne es else ne # here # es)"

definition event_add :: "timeval \<Rightarrow> 'c \<Rightarrow> 'c evq \<Rightarrow> nat \<times> 'c evq" where
  "event_add firetime f q =
     (let ne = \<lparr>ev_id = ev_fresh q, ev_firetime = firetime, ev_function = f\<rparr>
      in (ev_fresh q, q\<lparr>Events := event_insert ne (Events q), ev_fresh := Suc (ev_fresh q)\<rparr>))"

fun event_remove :: "nat \<Rightarrow> 'c tev list \<Rightarrow> bool \<times> 'c tev list" where
  "event_remove i [] = (False, [])"
| "event_remove i (here # es) =
     (if ev_id here = i then (True, es)
      else let (found, es') = event_remove i es in (found, here # es'))"

definition event_cancel :: "nat \<Rightarrow> 'c evq \<Rightarrow> bool \<times> 'c evq" where
  "event_cancel i q = (let (found, es) = event_remove i (Events q) in (found, q\<lparr>Events := es\<rparr>))"

text \<open>One turn of the loop that runs the expired events: the head leaves the list, then its
  function is called.\<close>

definition event_pop_due :: "timeval \<Rightarrow> 'c evq \<Rightarrow> ('c tev \<times> 'c evq) option" where
  "event_pop_due now q =
     (case Events q of
        [] \<Rightarrow> None
      | e # es \<Rightarrow> if timerle (ev_firetime e) now then Some (e, q\<lparr>Events := es\<rparr>) else None)"

text \<open>The time \<open>select\<close> may block: \<^term>\<open>None\<close> is \<open>NULL\<close>, that is for ever.\<close>

definition select_timeout :: "timeval \<Rightarrow> 'c evq \<Rightarrow> timeval option" where
  "select_timeout now q =
     (case Events q of
        [] \<Rightarrow> None
      | e # _ \<Rightarrow> Some (if timerle (ev_firetime e) now then (0, 0)
                     else bsd_timersub (ev_firetime e) now))"

section \<open>The I/O slots\<close>

definition NIOS :: nat where "NIOS = 2"

record 'h io_slot =
  eio_fd :: int
  eio_function :: "'h option"

definition event_init :: "'h io_slot list" where
  "event_init = replicate NIOS \<lparr>eio_fd = -1, eio_function = None\<rparr>"

fun find_slot :: "int \<Rightarrow> nat \<Rightarrow> 'h io_slot list \<Rightarrow> nat" where
  "find_slot fd i [] = i"
| "find_slot fd i (s # ss) = (if eio_fd s \<noteq> fd then find_slot fd (Suc i) ss else i)"

definition event_add_io :: "int \<Rightarrow> 'h \<Rightarrow> 'h io_slot list \<Rightarrow> 'h io_slot list option" where
  "event_add_io fd f Ios =
     (let i = find_slot (-1) 0 Ios
      in if i = length Ios then None
         else Some (Ios[i := \<lparr>eio_fd = fd, eio_function = Some f\<rparr>]))"

definition event_remove_io :: "int \<Rightarrow> 'h io_slot list \<Rightarrow> 'h io_slot list" where
  "event_remove_io fd Ios =
     (let i = find_slot fd 0 Ios
      in if i = length Ios then Ios
         else Ios[i := \<lparr>eio_fd = -1, eio_function = None\<rparr>])"

section \<open>The order of times\<close>

lemma timerle_refl [simp]: "timerle a a"
  by (simp add: timerle_def)

lemma timerle_trans: "timerle a b \<Longrightarrow> timerle b c \<Longrightarrow> timerle a c"
  by (auto simp: timerle_def split: if_splits)

lemma timerle_total: "timerle a b \<or> timerle b a"
  by (auto simp: timerle_def)

lemma not_timerle: "\<not> timerle a b \<Longrightarrow> timerle b a"
  using timerle_total by blast

definition tv_us :: "timeval \<Rightarrow> int" where
  "tv_us tv = fst tv * 1000000 + snd tv"

lemma tv_us_carry: "tv_us (timeval_carry tv) = tv_us tv"
proof (induction tv rule: timeval_carry.induct)
  case (1 s us)
  then show ?case
    by (subst timeval_carry.simps) (auto simp: tv_us_def)
qed

lemma timeval_carry_range:
  "0 \<le> snd tv \<Longrightarrow> 0 \<le> snd (timeval_carry tv) \<and> snd (timeval_carry tv) \<le> 1000000"
proof (induction tv rule: timeval_carry.induct)
  case (1 s us)
  then show ?case
    by (subst (1 2) timeval_carry.simps) auto
qed

lemma tv_us_add_ms: "tv_us (timeval_add_ms tv ms) = tv_us tv + ms * 1000"
  by (simp add: timeval_add_ms_def tv_us_carry) (simp add: tv_us_def)

section \<open>The list implementation\<close>

abbreviation "fires_before a b \<equiv> timerle (ev_firetime a) (ev_firetime b)"

definition evq_ok :: "'c evq \<Rightarrow> bool" where
  "evq_ok q \<longleftrightarrow> sorted_wrt fires_before (Events q)
     \<and> distinct (map ev_id (Events q)) \<and> (\<forall>e \<in> set (Events q). ev_id e < ev_fresh q)"

definition pending :: "'c evq \<Rightarrow> nat \<Rightarrow> (timeval \<times> 'c) option" where
  "pending q = map_of (map (\<lambda>e. (ev_id e, ev_firetime e, ev_function e)) (Events q))"

lemma set_event_insert [simp]: "set (event_insert ne es) = insert ne (set es)"
  by (induction es) auto

lemma sorted_event_insert:
  "sorted_wrt fires_before es \<Longrightarrow> sorted_wrt fires_before (event_insert ne es)"
  by (induction es) (auto dest: not_timerle intro: timerle_trans)

lemma distinct_event_insert:
  "distinct (map ev_id (event_insert ne es)) \<longleftrightarrow>
   ev_id ne \<notin> ev_id ` set es \<and> distinct (map ev_id es)"
  by (induction es) auto

lemma event_remove_eq:
  "distinct (map ev_id es) \<Longrightarrow>
   event_remove i es = (i \<in> ev_id ` set es, filter (\<lambda>e. ev_id e \<noteq> i) es)"
proof (induction es)
  case Nil
  then show ?case by simp
next
  case (Cons e es)
  show ?case
  proof (cases "ev_id e = i")
    case True
    with Cons.prems have "filter (\<lambda>x. ev_id x \<noteq> i) es = es"
      by (intro filter_True) (auto simp: image_iff)
    with True show ?thesis by simp
  next
    case False
    with Cons show ?thesis by auto
  qed
qed

lemma pending_Some_iff:
  assumes "evq_ok q"
  shows "pending q i = Some (t, f) \<longleftrightarrow>
    (\<exists>e \<in> set (Events q). ev_id e = i \<and> ev_firetime e = t \<and> ev_function e = f)"
proof -
  let ?xs = "map (\<lambda>e. (ev_id e, ev_firetime e, ev_function e)) (Events q)"
  have "map fst ?xs = map ev_id (Events q)" by simp
  then have "distinct (map fst ?xs)" using assms unfolding evq_ok_def by metis
  then have "map_of ?xs i = Some (t, f) \<longleftrightarrow> (i, t, f) \<in> set ?xs"
    by (rule map_of_eq_Some_iff)
  then show ?thesis unfolding pending_def by auto
qed

lemma pending_None_iff: "pending q i = None \<longleftrightarrow> i \<notin> ev_id ` set (Events q)"
  by (auto simp: pending_def map_of_eq_None_iff image_image)

lemma pending_eqI:
  assumes "evq_ok q" "evq_ok q'"
    and "\<And>e. e \<in> set (Events q') \<Longrightarrow> m (ev_id e) = Some (ev_firetime e, ev_function e)"
    and "\<And>i. i \<notin> ev_id ` set (Events q') \<Longrightarrow> m i = None"
  shows "pending q' = m"
proof
  fix i
  show "pending q' i = m i"
  proof (cases "i \<in> ev_id ` set (Events q')")
    case True
    then obtain e where e: "e \<in> set (Events q')" "ev_id e = i" by auto
    then have "pending q' i = Some (ev_firetime e, ev_function e)"
      using pending_Some_iff [OF assms(2)] by blast
    with e assms(3) show ?thesis by auto
  next
    case False
    with assms(4) show ?thesis by (simp add: pending_None_iff)
  qed
qed

lemma evq_ok_empty [simp]: "evq_ok evq_empty"
  by (simp add: evq_ok_def evq_empty_def)

lemma evq_ok_add: "evq_ok q \<Longrightarrow> evq_ok (snd (event_add t f q))"
  by (auto simp: evq_ok_def event_add_def Let_def sorted_event_insert distinct_event_insert
      less_Suc_eq)

lemma event_cancel_eq:
  "evq_ok q \<Longrightarrow> event_cancel i q =
     (i \<in> ev_id ` set (Events q), q\<lparr>Events := filter (\<lambda>e. ev_id e \<noteq> i) (Events q)\<rparr>)"
  by (simp add: event_cancel_def evq_ok_def event_remove_eq)

lemma evq_ok_cancel: "evq_ok q \<Longrightarrow> evq_ok (snd (event_cancel i q))"
  by (auto simp: event_cancel_eq) (auto simp: evq_ok_def sorted_wrt_filter distinct_map_filter)

lemma evq_ok_pop: "evq_ok q \<Longrightarrow> event_pop_due now q = Some (e, q') \<Longrightarrow> evq_ok q'"
  by (auto simp: evq_ok_def event_pop_due_def split: list.splits if_splits)

lemma event_pop_dueD:
  "event_pop_due now q = Some (e, q') \<Longrightarrow>
   Events q = e # Events q' \<and> timerle (ev_firetime e) now \<and> ev_fresh q' = ev_fresh q"
  by (auto simp: event_pop_due_def split: list.splits if_splits)

lemma pending_add:
  assumes "evq_ok q"
  shows "pending (snd (event_add t f q)) = (pending q)(fst (event_add t f q) \<mapsto> (t, f))"
proof (rule pending_eqI [OF assms evq_ok_add [OF assms]])
  fix e assume "e \<in> set (Events (snd (event_add t f q)))"
  then consider "e = \<lparr>ev_id = ev_fresh q, ev_firetime = t, ev_function = f\<rparr>"
    | "e \<in> set (Events q)" by (auto simp: event_add_def Let_def)
  then show "((pending q)(fst (event_add t f q) \<mapsto> (t, f))) (ev_id e) =
      Some (ev_firetime e, ev_function e)"
  proof cases
    case 1
    then show ?thesis by (simp add: event_add_def Let_def)
  next
    case 2
    then have "ev_id e \<noteq> ev_fresh q" using assms by (auto simp: evq_ok_def)
    moreover have "pending q (ev_id e) = Some (ev_firetime e, ev_function e)"
      using 2 pending_Some_iff [OF assms] by blast
    ultimately show ?thesis by (simp add: event_add_def Let_def)
  qed
next
  fix i assume "i \<notin> ev_id ` set (Events (snd (event_add t f q)))"
  then show "((pending q)(fst (event_add t f q) \<mapsto> (t, f))) i = None"
    by (auto simp: event_add_def Let_def pending_None_iff)
qed

lemma pending_cancel:
  assumes "evq_ok q"
  shows "pending (snd (event_cancel i q)) = (pending q)(i := None)"
proof (rule pending_eqI [OF assms evq_ok_cancel [OF assms]])
  fix e assume "e \<in> set (Events (snd (event_cancel i q)))"
  then have "e \<in> set (Events q)" "ev_id e \<noteq> i" by (auto simp: event_cancel_eq [OF assms])
  then show "((pending q)(i := None)) (ev_id e) = Some (ev_firetime e, ev_function e)"
    using pending_Some_iff [OF assms] by auto
next
  fix j assume "j \<notin> ev_id ` set (Events (snd (event_cancel i q)))"
  then show "((pending q)(i := None)) j = None"
    by (auto simp: event_cancel_eq [OF assms] pending_None_iff)
qed

lemma event_pop_earliest:
  assumes "evq_ok q" "event_pop_due now q = Some (e, q')" "pending q' i = Some (t, f)"
  shows "timerle (ev_firetime e) t"
proof -
  have ev: "Events q = e # Events q'" using event_pop_dueD [OF assms(2)] by simp
  have ok': "evq_ok q'" by (rule evq_ok_pop [OF assms(1,2)])
  obtain x where x: "x \<in> set (Events q')" "ev_firetime x = t"
    using assms(3) unfolding pending_Some_iff [OF ok'] by blast
  have "sorted_wrt fires_before (Events q)" using assms(1) unfolding evq_ok_def by blast
  then have "sorted_wrt fires_before (e # Events q')" unfolding ev .
  with x show ?thesis by auto
qed

lemma pending_pop:
  assumes "evq_ok q" "event_pop_due now q = Some (e, q')"
  shows "pending q (ev_id e) = Some (ev_firetime e, ev_function e)"
    and "pending q' = (pending q)(ev_id e := None)"
proof -
  have ev: "Events q = e # Events q'" using event_pop_dueD [OF assms(2)] by simp
  then show "pending q (ev_id e) = Some (ev_firetime e, ev_function e)"
    using pending_Some_iff [OF assms(1)] by auto
  have "distinct (map ev_id (Events q))" using assms(1) unfolding evq_ok_def by blast
  then have "ev_id e \<notin> ev_id ` set (Events q')" unfolding ev by simp
  then have "pending q' (ev_id e) = None" by (simp add: pending_None_iff)
  moreover have "pending q = (pending q')(ev_id e \<mapsto> (ev_firetime e, ev_function e))"
    by (simp add: pending_def ev)
  ultimately show "pending q' = (pending q)(ev_id e := None)"
    by (metis fun_upd_triv fun_upd_upd)
qed

text \<open>
  C27: The list of pending events stays sorted by firing time with distinct pointers under
  \<open>event_add\<close>, \<open>event_cancel\<close> and the removal of an expired head, and the event the main loop runs
  next is one that fires no later than any event left in the list.
\<close>

theorem event_queue_sorted:
  assumes "evq_ok q"
  shows "evq_ok (snd (event_add t f q)) \<and> evq_ok (snd (event_cancel i q)) \<and>
    (\<forall>e q'. event_pop_due now q = Some (e, q') \<longrightarrow>
       evq_ok q' \<and> timerle (ev_firetime e) now \<and>
       (\<forall>j t' f'. pending q' j = Some (t', f') \<longrightarrow> timerle (ev_firetime e) t'))"
  using assms evq_ok_add evq_ok_cancel evq_ok_pop event_pop_dueD event_pop_earliest by metis

theorem event_queue_sorted_witness:
  "evq_ok (snd (event_add (3, 0) (7 :: nat) evq_empty))"
  using event_queue_sorted [of "evq_empty :: nat evq" "(3, 0)" 7 0 "(0, 0)"] by simp

section \<open>The interface of the timer service\<close>

text \<open>
  What a client of the dispatcher relies on, whatever the data structure: \<open>look\<close> is the partial
  function of the pending events.
\<close>

locale timer_service =
  fixes good :: "'q \<Rightarrow> bool"
    and add :: "timeval \<Rightarrow> 'c \<Rightarrow> 'q \<Rightarrow> nat \<times> 'q"
    and cancel :: "nat \<Rightarrow> 'q \<Rightarrow> 'q"
    and look :: "'q \<Rightarrow> nat \<Rightarrow> (timeval \<times> 'c) option"
  assumes good_add: "good q \<Longrightarrow> good (snd (add t f q))"
    and good_cancel: "good q \<Longrightarrow> good (cancel i q)"
    and add_fresh: "good q \<Longrightarrow> look q (fst (add t f q)) = None"
    and look_add: "good q \<Longrightarrow> look (snd (add t f q)) = (look q)(fst (add t f q) \<mapsto> (t, f))"
    and look_cancel: "good q \<Longrightarrow> look (cancel i q) = (look q)(i := None)"
begin

lemma cancel_add: "good q \<Longrightarrow> look (cancel (fst (add t f q)) (snd (add t f q))) = look q"
  using add_fresh [of q t f] by (auto simp: good_add look_add look_cancel)

lemma restart:
  "good q \<Longrightarrow> look (snd (add t f (cancel i q))) =
     (look q)(i := None, fst (add t f (cancel i q)) \<mapsto> (t, f))"
  by (simp add: good_cancel look_add look_cancel)

end

interpretation evq: timer_service evq_ok event_add "\<lambda>i q. snd (event_cancel i q)" pending
proof unfold_locales
  fix q :: "'c evq" and t f
  assume "evq_ok q"
  then show "pending q (fst (event_add t f q)) = None"
    by (auto simp: pending_None_iff event_add_def Let_def evq_ok_def)
qed (simp_all add: evq_ok_add evq_ok_cancel pending_add pending_cancel)

text \<open>
  A timer that is added and then cancelled leaves the pending events as they were, and
  restarting a timer replaces the old event by the new one and touches no other.
\<close>

theorem event_add_cancel_restart:
  assumes "evq_ok q"
  shows "pending (snd (event_cancel (fst (event_add t f q)) (snd (event_add t f q)))) = pending q
    \<and> pending (snd (event_add t f (snd (event_cancel i q)))) =
        (pending q)(i := None, fst (event_add t f (snd (event_cancel i q))) \<mapsto> (t, f))"
  using evq.cancel_add [OF assms] evq.restart [OF assms] by simp

theorem event_add_cancel_restart_witness:
  "pending (snd (event_cancel 0 (snd (event_add (3, 0) (7 :: nat) evq_empty)))) = pending evq_empty"
proof -
  have "fst (event_add (3, 0) (7 :: nat) evq_empty) = 0"
    by (simp add: event_add_def evq_empty_def Let_def)
  then show ?thesis
    using event_add_cancel_restart [of "evq_empty :: nat evq" "(3, 0)" 7 0] by simp
qed

end
