(* ===== verification/Lltd_Seeslist.thy ===== *)
theory Lltd_Seeslist
  imports Prelude
begin

text \<open>
  The circular buffer of the probes seen by the responder, \<open>ms-lltd/seeslist.c\<close>. The buffer
  \<open>g_sees\<close> holds \<open>count\<close> descriptors between the read index \<open>rd\<close> and the write index \<open>wr\<close>; one slot
  stays free, so that \<open>wr = rd\<close> means empty. It refines a FIFO queue of at most \<open>count - 1\<close>
  descriptors, stated as the locale \<open>bounded_fifo\<close>.
\<close>

record 'd seeslist =
  sl_data :: "'d list"
  sl_count :: nat
  sl_wr :: nat
  sl_rd :: nat

text \<open>\<open>xmalloc\<close> leaves the descriptors uninitialised: \<open>junk\<close> is what they hold.\<close>

definition seeslist_new :: "(nat \<Rightarrow> 'd) \<Rightarrow> nat \<Rightarrow> 'd seeslist" where
  "seeslist_new junk count =
     \<lparr>sl_data = map junk [0..<count], sl_count = count, sl_wr = 0, sl_rd = 0\<rparr>"

definition seeslist_enqueue :: "'d \<Rightarrow> 'd seeslist \<Rightarrow> bool \<times> 'd seeslist" where
  "seeslist_enqueue desc sl =
     (if (sl_wr sl + 1) mod sl_count sl = sl_rd sl then (False, sl)
      else (True, sl\<lparr>sl_data := (sl_data sl)[sl_wr sl := desc],
                     sl_wr := (sl_wr sl + 1) mod sl_count sl\<rparr>))"

definition seeslist_dequeue :: "'d seeslist \<Rightarrow> ('d \<times> 'd seeslist) option" where
  "seeslist_dequeue sl =
     (if sl_rd sl = sl_wr sl then None
      else Some (sl_data sl ! sl_rd sl, sl\<lparr>sl_rd := (sl_rd sl + 1) mod sl_count sl\<rparr>))"

definition seeslist_clear :: "'d seeslist \<Rightarrow> 'd seeslist" where
  "seeslist_clear sl = sl\<lparr>sl_rd := 0, sl_wr := 0\<rparr>"

definition seeslist_is_empty :: "'d seeslist \<Rightarrow> bool" where
  "seeslist_is_empty sl = (sl_rd sl = sl_wr sl)"

section \<open>The queue the buffer holds\<close>

definition sl_ok :: "'d seeslist \<Rightarrow> bool" where
  "sl_ok sl \<longleftrightarrow> length (sl_data sl) = sl_count sl \<and> sl_wr sl < sl_count sl \<and> sl_rd sl < sl_count sl"

definition sl_used :: "'d seeslist \<Rightarrow> nat" where
  "sl_used sl = (if sl_rd sl \<le> sl_wr sl then sl_wr sl - sl_rd sl
                 else sl_wr sl + sl_count sl - sl_rd sl)"

definition sl_contents :: "'d seeslist \<Rightarrow> 'd list" where
  "sl_contents sl = map (\<lambda>k. sl_data sl ! ((sl_rd sl + k) mod sl_count sl)) [0..<sl_used sl]"

lemma length_sl_contents [simp]: "length (sl_contents sl) = sl_used sl"
  by (simp add: sl_contents_def)

lemma mod_Suc_index: "i < n \<Longrightarrow> Suc i mod n = (if Suc i = n then 0 else Suc i)" for i n :: nat
  by simp

lemma mod_sum_index: "i < n \<Longrightarrow> k < n \<Longrightarrow> (i + k) mod n = (if i + k < n then i + k else i + k - n)"
  for i k n :: nat
  by (simp add: le_mod_geq)

lemma sl_used_bound: "sl_ok sl \<Longrightarrow> sl_used sl < sl_count sl"
  by (auto simp: sl_ok_def sl_used_def)

lemma sl_full_iff:
  "sl_ok sl \<Longrightarrow> Suc (sl_wr sl) mod sl_count sl = sl_rd sl \<longleftrightarrow> Suc (sl_used sl) = sl_count sl"
  by (auto simp: sl_ok_def sl_used_def mod_Suc_index)

lemma sl_ok_enqueue: "sl_ok sl \<Longrightarrow> sl_ok (snd (seeslist_enqueue d sl))"
  by (auto simp: sl_ok_def seeslist_enqueue_def)

lemma sl_used_enqueue:
  assumes "sl_ok sl" "sl_used sl + 1 < sl_count sl"
  shows "sl_used (snd (seeslist_enqueue d sl)) = Suc (sl_used sl)"
proof -
  have "(sl_wr sl + 1) mod sl_count sl \<noteq> sl_rd sl" using assms by (simp add: sl_full_iff)
  then show ?thesis
    using assms by (auto simp: seeslist_enqueue_def sl_used_def sl_ok_def mod_Suc_index)
qed

lemma sl_contents_enqueue:
  assumes ok: "sl_ok sl" and room: "sl_used sl + 1 < sl_count sl"
  shows "sl_contents (snd (seeslist_enqueue d sl)) = sl_contents sl @ [d]"
proof (rule nth_equalityI)
  let ?sl = "snd (seeslist_enqueue d sl)"
  have nf: "(sl_wr sl + 1) mod sl_count sl \<noteq> sl_rd sl" using assms by (simp add: sl_full_iff)
  then have fields: "sl_data ?sl = (sl_data sl)[sl_wr sl := d]" "sl_rd ?sl = sl_rd sl"
    "sl_count ?sl = sl_count sl" by (simp_all add: seeslist_enqueue_def)
  show "length (sl_contents ?sl) = length (sl_contents sl @ [d])"
    by (simp add: sl_used_enqueue [OF ok room])
  fix k assume "k < length (sl_contents ?sl)"
  then have k: "k < Suc (sl_used sl)" by (simp add: sl_used_enqueue [OF ok room])
  have wr: "(sl_rd sl + sl_used sl) mod sl_count sl = sl_wr sl"
    using ok by (auto simp: sl_ok_def sl_used_def mod_sum_index)
  have pos: "(sl_rd sl + k) mod sl_count sl < sl_count sl" using ok by (simp add: sl_ok_def)
  show "sl_contents ?sl ! k = (sl_contents sl @ [d]) ! k"
  proof (cases "k = sl_used sl")
    case True
    then show ?thesis using wr ok k
      by (simp add: sl_contents_def fields sl_used_enqueue [OF ok room] nth_append sl_ok_def
          del: upt_Suc)
  next
    case False
    with k have lt: "k < sl_used sl" by simp
    then have "(sl_rd sl + k) mod sl_count sl \<noteq> sl_wr sl"
      using ok by (auto simp: sl_ok_def sl_used_def mod_sum_index split: if_splits)
    then show ?thesis using lt
      by (simp add: sl_contents_def fields sl_used_enqueue [OF ok room] nth_append del: upt_Suc)
  qed
qed

lemma sl_enqueue_full:
  "sl_ok sl \<Longrightarrow> sl_used sl + 1 = sl_count sl \<Longrightarrow> seeslist_enqueue d sl = (False, sl)"
  by (simp add: seeslist_enqueue_def sl_full_iff)

lemma sl_ok_dequeue: "sl_ok sl \<Longrightarrow> seeslist_dequeue sl = Some (d, sl') \<Longrightarrow> sl_ok sl'"
  by (auto simp: sl_ok_def seeslist_dequeue_def split: if_splits)

lemma sl_used_0: "sl_ok sl \<Longrightarrow> sl_used sl = 0 \<longleftrightarrow> sl_rd sl = sl_wr sl"
  by (auto simp: sl_ok_def sl_used_def split: if_splits)

lemma sl_contents_dequeue:
  assumes ok: "sl_ok sl" and deq: "seeslist_dequeue sl = Some (d, sl')"
  shows "sl_contents sl = d # sl_contents sl'"
proof -
  from deq have ne: "sl_rd sl \<noteq> sl_wr sl" and d: "d = sl_data sl ! sl_rd sl"
    and sl': "sl' = sl\<lparr>sl_rd := (sl_rd sl + 1) mod sl_count sl\<rparr>"
    by (auto simp: seeslist_dequeue_def split: if_splits)
  have used: "sl_used sl = Suc (sl_used sl')"
    using ok ne by (auto simp: sl' sl_used_def sl_ok_def mod_Suc_index)
  have rd: "sl_rd sl mod sl_count sl = sl_rd sl" using ok by (simp add: sl_ok_def)
  have "sl_contents sl = map (\<lambda>k. sl_data sl ! ((sl_rd sl + k) mod sl_count sl))
      (0 # map Suc [0..<sl_used sl'])"
    unfolding sl_contents_def used by (simp add: map_Suc_upt upt_conv_Cons del: upt_Suc)
  also have "\<dots> = d # sl_contents sl'"
    by (simp add: sl_contents_def d rd sl' o_def mod_simps)
  finally show ?thesis .
qed

lemma sl_dequeue_None:
  "sl_ok sl \<Longrightarrow> seeslist_dequeue sl = None \<longleftrightarrow> sl_contents sl = []"
  by (auto simp: seeslist_dequeue_def sl_contents_def sl_used_0)

lemma sl_is_empty: "sl_ok sl \<Longrightarrow> seeslist_is_empty sl \<longleftrightarrow> sl_contents sl = []"
  by (auto simp: seeslist_is_empty_def sl_contents_def sl_used_0)

lemma sl_ok_clear: "sl_ok sl \<Longrightarrow> sl_ok (seeslist_clear sl)"
  by (auto simp: sl_ok_def seeslist_clear_def)

lemma sl_contents_clear: "sl_ok sl \<Longrightarrow> sl_contents (seeslist_clear sl) = []"
  by (auto simp: sl_ok_def seeslist_clear_def sl_contents_def sl_used_def)

lemma sl_new:
  "0 < n \<Longrightarrow> sl_ok (seeslist_new junk n) \<and> sl_contents (seeslist_new junk n) = []"
  by (simp add: seeslist_new_def sl_ok_def sl_contents_def sl_used_def)

section \<open>The bounded queue\<close>

locale bounded_fifo =
  fixes good :: "'q \<Rightarrow> bool"
    and cap :: "'q \<Rightarrow> nat"
    and enq :: "'d \<Rightarrow> 'q \<Rightarrow> bool \<times> 'q"
    and deq :: "'q \<Rightarrow> ('d \<times> 'q) option"
    and abs :: "'q \<Rightarrow> 'd list"
  assumes good_enq: "good q \<Longrightarrow> good (snd (enq d q))"
    and cap_enq: "good q \<Longrightarrow> cap (snd (enq d q)) = cap q"
    and good_deq: "good q \<Longrightarrow> deq q = Some (d, q') \<Longrightarrow> good q'"
    and enq_room: "good q \<Longrightarrow> length (abs q) < cap q \<Longrightarrow>
      fst (enq d q) \<and> abs (snd (enq d q)) = abs q @ [d]"
    and enq_full: "good q \<Longrightarrow> length (abs q) = cap q \<Longrightarrow> enq d q = (False, q)"
    and abs_bound: "good q \<Longrightarrow> length (abs q) \<le> cap q"
    and deq_Some: "good q \<Longrightarrow> deq q = Some (d, q') \<Longrightarrow> abs q = d # abs q'"
    and deq_None: "good q \<Longrightarrow> deq q = None \<longleftrightarrow> abs q = []"
begin

fun enqs :: "'d list \<Rightarrow> 'q \<Rightarrow> 'q" where
  "enqs [] q = q"
| "enqs (d # ds) q = enqs ds (snd (enq d q))"

fun deqs :: "nat \<Rightarrow> 'q \<Rightarrow> 'd list \<times> 'q" where
  "deqs 0 q = ([], q)"
| "deqs (Suc n) q =
     (case deq q of None \<Rightarrow> ([], q)
      | Some (d, q') \<Rightarrow> let (ds, q'') = deqs n q' in (d # ds, q''))"

lemma enqs_abs: "good q \<Longrightarrow> good (enqs ds q) \<and> abs (enqs ds q) = take (cap q) (abs q @ ds)"
proof (induction ds arbitrary: q)
  case Nil
  then show ?case using abs_bound by simp
next
  case (Cons d ds)
  have g: "good (snd (enq d q))" by (rule good_enq [OF Cons.prems])
  show ?case
  proof (cases "length (abs q) < cap q")
    case True
    with Cons.IH [OF g] enq_room [OF Cons.prems True] cap_enq [OF Cons.prems] show ?thesis by simp
  next
    case False
    then have full: "length (abs q) = cap q" using abs_bound [OF Cons.prems] by simp
    with Cons.IH [OF g] enq_full [OF Cons.prems full] show ?thesis by simp
  qed
qed

lemma deqs_abs: "good q \<Longrightarrow> fst (deqs n q) = take n (abs q) \<and> good (snd (deqs n q))
    \<and> abs (snd (deqs n q)) = drop n (abs q)"
proof (induction n arbitrary: q)
  case 0
  then show ?case by simp
next
  case (Suc n)
  show ?case
  proof (cases "deq q")
    case None
    with Suc.prems deq_None have "abs q = []" by blast
    with None Suc.prems show ?thesis by simp
  next
    case (Some p)
    obtain d q' where p: "p = (d, q')" by (cases p)
    with Some have deq: "deq q = Some (d, q')" by simp
    from Suc.IH [OF good_deq [OF Suc.prems deq]] deq_Some [OF Suc.prems deq] deq show ?thesis
      by (simp add: case_prod_unfold Let_def)
  qed
qed

end

interpretation sees: bounded_fifo sl_ok "\<lambda>sl. sl_count sl - 1" seeslist_enqueue seeslist_dequeue
  sl_contents
proof unfold_locales
  fix q :: "'d seeslist" and d
  assume ok: "sl_ok q"
  show "sl_count (snd (seeslist_enqueue d q)) - 1 = sl_count q - 1"
    by (simp add: seeslist_enqueue_def)
  show "length (sl_contents q) \<le> sl_count q - 1" using sl_used_bound [OF ok] by simp
  assume "length (sl_contents q) < sl_count q - 1"
  then have room: "sl_used q + 1 < sl_count q" by simp
  moreover have "fst (seeslist_enqueue d q)"
    using room by (simp add: seeslist_enqueue_def sl_full_iff [OF ok])
  ultimately show "fst (seeslist_enqueue d q) \<and>
      sl_contents (snd (seeslist_enqueue d q)) = sl_contents q @ [d]"
    using sl_contents_enqueue [OF ok] by blast
next
  fix q :: "'d seeslist" and d
  assume ok: "sl_ok q" and "length (sl_contents q) = sl_count q - 1"
  then have "sl_used q + 1 = sl_count q" using sl_used_bound [OF ok] by simp
  then show "seeslist_enqueue d q = (False, q)" by (rule sl_enqueue_full [OF ok])
qed (simp_all add: sl_ok_enqueue sl_ok_dequeue sl_contents_dequeue sl_dequeue_None)



end
