(* ===== verification/Lltd_Tlv.thy ===== *)
theory Lltd_Tlv
  imports Prelude "HOL-Library.Sublist"
begin

text \<open>
  The attribute (TLV) writers of the topology responder: \<open>ms-lltd/tlv.c\<close> with the table of
  \<open>ms-lltd/tlvdef.h\<close>. A writer returns the bytes it puts at the start of its buffer, so that the
  number the C function returns is their length, together with the value it leaves in \<open>g_info\<close>;
  \<^term>\<open>None\<close> is a read past the end of the value. The functions \<open>get_*\<close> that collect a value from
  the operating system are the parameter \<open>get\<close>; an open icon file is its contents and what
  \<open>lseek\<close> and \<open>read\<close> answer on it.
\<close>

section \<open>Values\<close>

record assn_entry =
  as_MACaddr :: "u8 list"
  as_MOR :: u16
  as_PHYtype :: u8

record icon_file =
  sz_iconfile :: nat
  fd_open :: bool
  ic_bytes :: "u8 list"
  ic_seek_ok :: bool
  ic_read_ok :: bool

record radio =
  rb_MOR :: u16
  rb_PHYtype :: u8
  rb_mode :: u8
  rb_BSSID :: "u8 list"

record comptbl =
  ct_version :: u8
  ct_bridge_behavior :: u8
  ct_link_speed :: u32
  ct_radios :: "radio list"

datatype tlv_data =
    DEtheraddr "u8 list"
  | DUint8 u8
  | DUint16 u16
  | DUint32 u32
  | DUint64 "64 word"
  | DIpv4addr u32
  | DIpv6addr "u8 list"
  | DUcs2char "u16 list"
  | DIconFile icon_file
  | DLgIcon icon_file
  | DAssns "assn_entry list option" nat
  | DComptbl comptbl

datatype tlv_access = Access_invalid | Access_unset | Access_static | Access_dynamic

record tlv_desc =
  tlv_number :: nat
  tlv_access :: tlv_access
  tlv_inHello :: bool

text \<open>Every entry of the table has a \<open>get\<close> and a \<open>write\<close> function; the value at an entry's offset in
  \<open>g_info\<close> is found by its number.\<close>

definition Tlvs :: "tlv_desc list" where
  "Tlvs = map (\<lambda>(n, a, h). \<lparr>tlv_number = n, tlv_access = a, tlv_inHello = h\<rparr>)
    [(1, Access_unset, True), (2, Access_unset, True), (3, Access_unset, True),
     (4, Access_unset, True), (5, Access_unset, True), (7, Access_unset, True),
     (8, Access_unset, True), (9, Access_unset, True), (12, Access_unset, True),
     (10, Access_unset, True), (14, Access_dynamic, True), (15, Access_unset, True),
     (16, Access_unset, False), (17, Access_unset, True), (19, Access_unset, False),
     (20, Access_unset, True), (21, Access_unset, True), (22, Access_unset, False),
     (24, Access_dynamic, False), (25, Access_unset, True), (26, Access_unset, False)]"

section \<open>Writers\<close>

type_synonym tlv_out = "(u8 list \<times> tlv_data) option"

definition bytes64 :: "64 word \<Rightarrow> u8 list" where
  "bytes64 w = bytes32 (ucast (drop_bit 32 w)) @ bytes32 (ucast w)"

text \<open>The code every writer of a fixed-size value repeats.\<close>

definition write_sized :: "nat \<Rightarrow> u8 list \<Rightarrow> int \<Rightarrow> bool \<Rightarrow> bool \<Rightarrow> u8 list" where
  "write_sized number val bytes_free isHello isLarge =
     (if bytes_free < 2 + int (length val) then []
      else if isHello then
        (if isLarge then [word_of_nat number, 0]
         else [word_of_nat number, word_of_nat (length val)] @ val)
      else bytes16 (word_of_nat (length val)) @ val)"

definition write_etheraddr_t :: "nat \<Rightarrow> u8 list \<Rightarrow> int \<Rightarrow> bool \<Rightarrow> bool \<Rightarrow> tlv_out" where
  "write_etheraddr_t number a free isHello isLarge =
     Some (write_sized number a free isHello isLarge, DEtheraddr a)"

definition write_uint8_t :: "nat \<Rightarrow> u8 \<Rightarrow> int \<Rightarrow> bool \<Rightarrow> bool \<Rightarrow> tlv_out" where
  "write_uint8_t number v free isHello isLarge =
     Some (write_sized number [v] free isHello isLarge, DUint8 v)"

definition write_uint16_t :: "nat \<Rightarrow> u16 \<Rightarrow> int \<Rightarrow> bool \<Rightarrow> bool \<Rightarrow> tlv_out" where
  "write_uint16_t number v free isHello isLarge =
     Some (write_sized number (bytes16 v) free isHello isLarge, DUint16 v)"

definition write_uint32_t :: "nat \<Rightarrow> u32 \<Rightarrow> int \<Rightarrow> bool \<Rightarrow> bool \<Rightarrow> tlv_out" where
  "write_uint32_t number v free isHello isLarge =
     Some (write_sized number (bytes32 v) free isHello isLarge, DUint32 v)"

definition write_uint64_t :: "nat \<Rightarrow> 64 word \<Rightarrow> int \<Rightarrow> bool \<Rightarrow> bool \<Rightarrow> tlv_out" where
  "write_uint64_t number v free isHello isLarge =
     Some (write_sized number (bytes64 v) free isHello isLarge, DUint64 v)"

definition write_ipv4addr_t :: "nat \<Rightarrow> u32 \<Rightarrow> int \<Rightarrow> bool \<Rightarrow> bool \<Rightarrow> tlv_out" where
  "write_ipv4addr_t number v free isHello isLarge =
     map_option (\<lambda>(bs, _). (bs, DIpv4addr v)) (write_uint32_t number v free isHello isLarge)"

definition write_ipv6addr_t :: "nat \<Rightarrow> u8 list \<Rightarrow> int \<Rightarrow> bool \<Rightarrow> bool \<Rightarrow> tlv_out" where
  "write_ipv6addr_t number a free isHello isLarge =
     Some (write_sized number a free isHello isLarge, DIpv6addr a)"

text \<open>A UCS-2 string is read up to its zero character. The large form writes the size of the C
  variable \<open>bytes_needed\<close>, 4, as the length, whatever the string.\<close>

definition write_ucs2char_t :: "nat \<Rightarrow> u16 list \<Rightarrow> int \<Rightarrow> bool \<Rightarrow> bool \<Rightarrow> tlv_out" where
  "write_ucs2char_t number s free isHello isLarge =
     (if 0 \<notin> set s then None
      else let str = concat (map bytes16 (takeWhile (\<lambda>c. c \<noteq> 0) s)); bytes_needed = length str
      in Some (
        (if free < 2 + int bytes_needed then []
         else if isHello then
           (if isLarge then [word_of_nat number, 0]
            else [word_of_nat number, word_of_nat bytes_needed] @ str)
         else bytes16 4 @ str), DUcs2char s))"

text \<open>What \<open>read\<close> delivers after the seek, and whether at least one more byte follows.\<close>

definition icon_chunk :: "icon_file \<Rightarrow> int \<Rightarrow> nat \<Rightarrow> u8 list" where
  "icon_chunk ic free offset = take (nat (free - 2)) (drop offset (ic_bytes ic))"

definition icon_more :: "icon_file \<Rightarrow> int \<Rightarrow> nat \<Rightarrow> bool" where
  "icon_more ic free offset = (offset + nat (free - 2) < length (ic_bytes ic))"

definition ltlv_header :: "nat \<Rightarrow> bool \<Rightarrow> u8 list" where
  "ltlv_header n more_flag = bytes16 (if more_flag then 0x8000 OR word_of_nat n else word_of_nat n)"

definition close_icon :: "icon_file \<Rightarrow> icon_file" where
  "close_icon ic = ic\<lparr>fd_open := False\<rparr>"

definition write_lg_icon_t :: "nat \<Rightarrow> icon_file \<Rightarrow> int \<Rightarrow> bool \<Rightarrow> bool \<Rightarrow> nat \<Rightarrow> tlv_out" where
  "write_lg_icon_t number ic free isHello isLarge offset =
     (if \<not> fd_open ic then Some ([], DLgIcon ic)
      else if isHello then Some ([word_of_nat number, 0], DLgIcon (close_icon ic))
      else if \<not> ic_seek_ok ic \<or> \<not> ic_read_ok ic then Some ([], DLgIcon (close_icon ic))
      else let chunk = icon_chunk ic free offset
        in Some (ltlv_header (length chunk) (icon_more ic free offset) @ chunk,
                 DLgIcon (close_icon ic)))"

definition write_icon_file_t :: "nat \<Rightarrow> icon_file \<Rightarrow> int \<Rightarrow> bool \<Rightarrow> bool \<Rightarrow> nat \<Rightarrow> tlv_out" where
  "write_icon_file_t number ic free isHello isLarge offset =
     (if \<not> fd_open ic then Some ([], DIconFile ic)
      else if isHello \<and>
          (sz_iconfile ic > 255 \<or> free < 2 + int (sz_iconfile ic) \<or> isLarge)
        then Some ([word_of_nat number, 0], DIconFile (close_icon ic))
      else if \<not> ic_seek_ok ic \<or> \<not> ic_read_ok ic then Some ([], DIconFile (close_icon ic))
      else let chunk = icon_chunk ic free offset
        in Some ((if isHello then [word_of_nat number, word_of_nat (length chunk)]
                  else ltlv_header (length chunk) (icon_more ic free offset)) @ chunk,
                 DIconFile (close_icon ic)))"

definition assn_bytes :: "assn_entry \<Rightarrow> u8 list" where
  "assn_bytes e = as_MACaddr e @ bytes16 (as_MOR e) @ [as_PHYtype e, 0]"

text \<open>The table of associated stations; the count is cleared once the last part has been sent.
  Entries past the end of the table are a wild read.\<close>

definition write_assns_t ::
    "nat \<Rightarrow> assn_entry list option \<Rightarrow> nat \<Rightarrow> int \<Rightarrow> bool \<Rightarrow> bool \<Rightarrow> nat \<Rightarrow> tlv_out" where
  "write_assns_t number table assn_cnt free isHello isLarge offset =
     (let i = offset div 10 in
      if isHello then Some ([word_of_nat number, 0], DAssns table assn_cnt)
      else case table of
        None \<Rightarrow> Some ([0, 0], DAssns table assn_cnt)
      | Some es \<Rightarrow>
          if i \<ge> assn_cnt then Some ([0, 0], DAssns table 0)
          else let m = int ((assn_cnt - i) * 10) > free - 2;
                   copy_cnt = (if m then nat (free - 2) div 10 else assn_cnt - i);
                   bytes_used = copy_cnt * 10 + 2
          in if i + copy_cnt > length es then None
             else Some (
               (if m then bytes16 (word_of_nat bytes_used OR 0x8000)
                else bytes16 (word_of_nat (bytes_used - 2)))
               @ concat (map assn_bytes (take copy_cnt (drop i es))),
               DAssns table (if m then assn_cnt else 0)))"

definition radio_bytes :: "radio \<Rightarrow> u8 list" where
  "radio_bytes rb = [1, 10] @ bytes16 (rb_MOR rb) @ [rb_PHYtype rb, rb_mode rb] @ rb_BSSID rb"

text \<open>The component table. The tests \<open>Bridge_Component != 0xFF\<close> and
  \<open>Switch_Component != 0xFFFFFFFF\<close> compare enumeration constants (0 and 2) and always hold.\<close>

definition write_comptbl_t :: "nat \<Rightarrow> comptbl \<Rightarrow> int \<Rightarrow> bool \<Rightarrow> bool \<Rightarrow> tlv_out" where
  "write_comptbl_t number ct free isHello isLarge =
     (if isHello then Some ([word_of_nat number, 0], DComptbl ct)
      else let body = [ct_version ct, 0] @ [0, 1, ct_bridge_behavior ct]
                  @ concat (map radio_bytes (ct_radios ct))
                  @ [2, 4] @ bytes32 (ct_link_speed ct)
        in Some (bytes16 (word_of_nat (length body)) @ body, DComptbl ct))"

fun write_data :: "tlv_data \<Rightarrow> nat \<Rightarrow> int \<Rightarrow> bool \<Rightarrow> bool \<Rightarrow> nat \<Rightarrow> tlv_out" where
  "write_data (DEtheraddr a) n free h l off = write_etheraddr_t n a free h l"
| "write_data (DUint8 v) n free h l off = write_uint8_t n v free h l"
| "write_data (DUint16 v) n free h l off = write_uint16_t n v free h l"
| "write_data (DUint32 v) n free h l off = write_uint32_t n v free h l"
| "write_data (DUint64 v) n free h l off = write_uint64_t n v free h l"
| "write_data (DIpv4addr v) n free h l off = write_ipv4addr_t n v free h l"
| "write_data (DIpv6addr a) n free h l off = write_ipv6addr_t n a free h l"
| "write_data (DUcs2char s) n free h l off = write_ucs2char_t n s free h l"
| "write_data (DIconFile ic) n free h l off = write_icon_file_t n ic free h l off"
| "write_data (DLgIcon ic) n free h l off = write_lg_icon_t n ic free h l off"
| "write_data (DAssns t c) n free h l off = write_assns_t n t c free h l off"
| "write_data (DComptbl ct) n free h l off = write_comptbl_t n ct free h l"

section \<open>One attribute, all attributes\<close>

type_synonym g_info = "nat \<Rightarrow> tlv_data"

text \<open>\<open>tlv_write_tlv\<close>: the bytes, the entry with its access mode, and \<open>g_info\<close>, afterwards.\<close>

definition tlv_write_tlv ::
    "(nat \<Rightarrow> tlv_data option) \<Rightarrow> tlv_desc \<Rightarrow> g_info \<Rightarrow> int \<Rightarrow> bool \<Rightarrow> nat
     \<Rightarrow> (u8 list \<times> tlv_desc \<times> g_info) option" where
  "tlv_write_tlv get tlv info free isHello offset =
     (let n = tlv_number tlv;
          write = (\<lambda>tlv info.
            do { (bs, d) \<leftarrow> write_data (info n) n free isHello (\<not> tlv_inHello tlv) offset;
                 Some (bs, tlv, info(n := d)) })
      in case tlv_access tlv of
        Access_invalid \<Rightarrow> Some ([], tlv, info)
      | Access_static \<Rightarrow> write tlv info
      | Access_unset \<Rightarrow>
          (case get n of
             None \<Rightarrow> Some ([], tlv\<lparr>tlv_access := Access_unset\<rparr>, info)
           | Some d \<Rightarrow> write (tlv\<lparr>tlv_access := Access_static\<rparr>) (info(n := d)))
      | Access_dynamic \<Rightarrow>
          (case get n of
             None \<Rightarrow> Some ([], tlv, info)
           | Some d \<Rightarrow> write tlv (info(n := d))))"

fun tlv_write_info ::
    "(nat \<Rightarrow> tlv_data option) \<Rightarrow> tlv_desc list \<Rightarrow> g_info \<Rightarrow> int
     \<Rightarrow> (u8 list \<times> tlv_desc list \<times> g_info) option" where
  "tlv_write_info get [] info free = Some ([], [], info)"
| "tlv_write_info get (tlv # tlvs) info free =
     (if free > 1 then
        do { (bs, tlv', info') \<leftarrow> tlv_write_tlv get tlv info free True 0;
             (bs', tlvs', info'') \<leftarrow> tlv_write_info get tlvs info' (free - int (length bs));
             Some (bs @ bs', tlv' # tlvs', info'') }
      else Some ([], tlv # tlvs, info))"

section \<open>What a Hello's attribute list looks like\<close>

text \<open>The values the \<open>get\<close> functions deliver: fixed sizes as declared, strings that are terminated
  within the array \<open>tlvdef.h\<close> declares for them (only \<open>hw_id\<close>, attribute 19, can be longer than a
  one-byte length, and it is never sent in a Hello), an icon whose recorded size is its size, an association count
  within the table, at most two radios.\<close>

definition ucs2_room :: "nat \<Rightarrow> nat" where
  "ucs2_room n = (if n = 15 then 16 else if n = 19 then 200 else 32)"

fun data_ok :: "nat \<Rightarrow> tlv_data \<Rightarrow> bool" where
  "data_ok n (DEtheraddr a) = (length a = 6)"
| "data_ok n (DIpv6addr a) = (length a = 16)"
| "data_ok n (DUcs2char s) = (0 \<in> set s \<and> length s \<le> ucs2_room n)"
| "data_ok n (DIconFile ic) = (length (ic_bytes ic) = sz_iconfile ic)"
| "data_ok n (DAssns table c) =
     (case table of None \<Rightarrow> True
      | Some es \<Rightarrow> c \<le> length es \<and> list_all (\<lambda>e. length (as_MACaddr e) = 6) es)"
| "data_ok n (DComptbl ct) =
     (length (ct_radios ct) \<le> 2 \<and> list_all (\<lambda>r. length (rb_BSSID r) = 6) (ct_radios ct))"
| "data_ok n _ = True"

text \<open>How a mapper reads the attributes of a Hello: type, length, value.\<close>

fun parse_tlvs :: "u8 list \<Rightarrow> (u8 \<times> u8 list) list option" where
  "parse_tlvs [] = Some []"
| "parse_tlvs [t] = None"
| "parse_tlvs (t # l # rest) =
     (if unat l \<le> length rest
      then map_option ((#) (t, take (unat l) rest)) (parse_tlvs (drop (unat l) rest))
      else None)"

definition hello_tlv :: "nat \<Rightarrow> u8 list \<Rightarrow> bool" where
  "hello_tlv n bs \<longleftrightarrow>
     bs = [] \<or> (\<exists>v. length v < 256 \<and> bs = word_of_nat n # word_of_nat (length v) # v)"

lemma unat_word_of_nat_u8 [simp]: "n < 256 \<Longrightarrow> unat (word_of_nat n :: u8) = n"
  by (simp add: unat_of_nat)

lemma parse_tlvs_append:
  "length v < 256 \<Longrightarrow> parse_tlvs (t # word_of_nat (length v) # v @ rest) =
     map_option ((#) (t, v)) (parse_tlvs rest)"
  by simp

lemma length_bytes64 [simp]: "length (bytes64 w) = 8"
  by (simp add: bytes64_def)

lemma length_concat_bytes16 [simp]: "length (concat (map bytes16 s)) = 2 * length s"
  by (induction s) auto

lemma hello_tlv_empty_value: "hello_tlv n [word_of_nat n, 0]"
  unfolding hello_tlv_def by (rule disjI2) (rule exI [of _ "[]"], simp)

lemma write_sized_hello:
  assumes "length v < 256"
  shows "hello_tlv n (write_sized n v free True l)"
    and "0 \<le> free \<Longrightarrow> int (length (write_sized n v free True l)) \<le> free"
  using assms hello_tlv_empty_value by (auto simp: write_sized_def hello_tlv_def)

lemma write_sized_some_hello:
  assumes "w = Some (write_sized n v free True l, d)" "length v < 256" "0 \<le> free" "P d"
  shows "\<exists>bs d'. w = Some (bs, d') \<and> P d' \<and> int (length bs) \<le> free \<and> hello_tlv n bs"
  using assms write_sized_hello by blast

lemma icon_chunk_length: "2 \<le> free \<Longrightarrow> int (length (icon_chunk ic free off)) \<le> free - 2"
  by (simp add: icon_chunk_def)

lemma icon_chunk_short: "length (icon_chunk ic free off) \<le> length (ic_bytes ic)"
  by (simp add: icon_chunk_def)

lemma write_ucs2_hello:
  assumes "data_ok n (DUcs2char s)" "0 \<le> free" "n = 19 \<Longrightarrow> l"
  shows "\<exists>bs d'. write_ucs2char_t n s free True l = Some (bs, d') \<and> data_ok n d'
      \<and> int (length bs) \<le> free \<and> hello_tlv n bs"
proof -
  let ?str = "concat (map bytes16 (takeWhile (\<lambda>c. c \<noteq> 0) s))"
  have eq: "write_ucs2char_t n s free True l =
      Some (write_sized n ?str free True l, DUcs2char s)"
    using assms(1) by (simp add: write_ucs2char_t_def write_sized_def)
  show ?thesis
  proof (cases "n = 19")
    case True
    then show ?thesis using eq assms hello_tlv_empty_value [of n]
      by (auto simp: write_sized_def hello_tlv_def)
  next
    case False
    then have "length s \<le> 32" using assms(1) by (simp add: ucs2_room_def split: if_splits)
    then have "length ?str < 256"
      using length_takeWhile_le [of "\<lambda>c. c \<noteq> 0" s] by simp
    from write_sized_some_hello [OF eq this, of "data_ok n"] show ?thesis using assms by simp
  qed
qed

lemma write_icon_hello:
  assumes "data_ok n (DIconFile ic)" "2 \<le> free"
  shows "\<exists>bs d'. write_icon_file_t n ic free True l off = Some (bs, d') \<and> data_ok n d'
      \<and> int (length bs) \<le> free \<and> hello_tlv n bs"
proof -
  consider (shut) "\<not> fd_open ic"
    | (large) "fd_open ic"
        "255 < sz_iconfile ic \<or> free < 2 + int (sz_iconfile ic) \<or> l"
    | (fail) "fd_open ic" "\<not> (255 < sz_iconfile ic \<or> free < 2 + int (sz_iconfile ic) \<or> l)"
        "\<not> ic_seek_ok ic \<or> \<not> ic_read_ok ic"
    | (ok) "fd_open ic" "\<not> (255 < sz_iconfile ic \<or> free < 2 + int (sz_iconfile ic) \<or> l)"
        "ic_seek_ok ic" "ic_read_ok ic" by blast
  then show ?thesis
  proof cases
    case shut
    then show ?thesis using assms by (simp add: write_icon_file_t_def hello_tlv_def)
  next
    case large
    then show ?thesis using assms hello_tlv_empty_value
      by (simp add: write_icon_file_t_def close_icon_def)
  next
    case fail
    then show ?thesis using assms
      by (auto simp: write_icon_file_t_def close_icon_def hello_tlv_def)
  next
    case ok
    then have "length (icon_chunk ic free off) < 256"
      using assms(1) icon_chunk_short [of ic free off] by simp
    then have "hello_tlv n ([word_of_nat n, word_of_nat (length (icon_chunk ic free off))]
        @ icon_chunk ic free off)" by (auto simp: hello_tlv_def)
    with ok show ?thesis using assms icon_chunk_length [of free ic off]
      by (simp add: write_icon_file_t_def close_icon_def Let_def)
  qed
qed

lemma write_lg_icon_hello:
  "2 \<le> free \<Longrightarrow> \<exists>bs d'. write_lg_icon_t n ic free True l off = Some (bs, d') \<and> data_ok n d'
      \<and> int (length bs) \<le> free \<and> hello_tlv n bs"
  using hello_tlv_empty_value by (auto simp: write_lg_icon_t_def hello_tlv_def)

lemma write_data_hello:
  assumes "data_ok n d" "2 \<le> free" "n = 19 \<Longrightarrow> l"
  shows "\<exists>bs d'. write_data d n free True l off = Some (bs, d') \<and> data_ok n d'
      \<and> int (length bs) \<le> free \<and> hello_tlv n bs"
proof (cases d)
  case (DUcs2char s)
  then show ?thesis using assms write_ucs2_hello by simp
next
  case (DIconFile ic)
  then show ?thesis using assms write_icon_hello by simp
next
  case (DLgIcon ic)
  then show ?thesis using assms write_lg_icon_hello by simp
next
  case (DAssns t c)
  then show ?thesis using assms hello_tlv_empty_value by (simp add: write_assns_t_def)
next
  case (DComptbl ct)
  then show ?thesis using assms hello_tlv_empty_value by (simp add: write_comptbl_t_def)
next
  case (DEtheraddr a)
  show ?thesis unfolding DEtheraddr write_data.simps
    by (rule write_sized_some_hello [OF write_etheraddr_t_def]) (use assms DEtheraddr in simp_all)
next
  case (DUint8 v)
  show ?thesis unfolding DUint8 write_data.simps
    by (rule write_sized_some_hello [OF write_uint8_t_def]) (use assms in simp_all)
next
  case (DUint16 v)
  show ?thesis unfolding DUint16 write_data.simps
    by (rule write_sized_some_hello [OF write_uint16_t_def]) (use assms in simp_all)
next
  case (DUint32 v)
  show ?thesis unfolding DUint32 write_data.simps
    by (rule write_sized_some_hello [OF write_uint32_t_def]) (use assms in simp_all)
next
  case (DUint64 v)
  show ?thesis unfolding DUint64 write_data.simps
    by (rule write_sized_some_hello [OF write_uint64_t_def]) (use assms in simp_all)
next
  case (DIpv4addr v)
  have "write_ipv4addr_t n v free True l = Some (write_sized n (bytes32 v) free True l, DIpv4addr v)"
    by (simp add: write_ipv4addr_t_def write_uint32_t_def)
  then show ?thesis unfolding DIpv4addr write_data.simps
    by (rule write_sized_some_hello) (use assms in simp_all)
next
  case (DIpv6addr a)
  show ?thesis unfolding DIpv6addr write_data.simps
    by (rule write_sized_some_hello [OF write_ipv6addr_t_def]) (use assms DIpv6addr in simp_all)
qed

definition info_ok :: "g_info \<Rightarrow> bool" where
  "info_ok info \<longleftrightarrow> (\<forall>n. data_ok n (info n))"

definition get_ok :: "(nat \<Rightarrow> tlv_data option) \<Rightarrow> bool" where
  "get_ok get \<longleftrightarrow> (\<forall>n d. get n = Some d \<longrightarrow> data_ok n d)"

lemma info_ok_upd: "info_ok info \<Longrightarrow> data_ok n d \<Longrightarrow> info_ok (info(n := d))"
  by (simp add: info_ok_def)

lemma tlv_write_tlv_hello:
  assumes "info_ok info" "get_ok get" "2 \<le> free" "tlv_number tlv = 19 \<Longrightarrow> \<not> tlv_inHello tlv"
  shows "\<exists>bs tlv' info'. tlv_write_tlv get tlv info free True off = Some (bs, tlv', info')
    \<and> info_ok info' \<and> tlv_number tlv' = tlv_number tlv \<and> tlv_inHello tlv' = tlv_inHello tlv
    \<and> int (length bs) \<le> free \<and> hello_tlv (tlv_number tlv) bs"
proof -
  let ?n = "tlv_number tlv"
  have wr: "\<exists>bs d'. write_data d ?n free True (\<not> tlv_inHello tlv) off = Some (bs, d')
      \<and> data_ok ?n d' \<and> int (length bs) \<le> free \<and> hello_tlv ?n bs" if "data_ok ?n d" for d
    using write_data_hello [OF that assms(3), of "\<not> tlv_inHello tlv" off] assms(4) by blast
  have nil: "hello_tlv ?n []" by (simp add: hello_tlv_def)
  show ?thesis
  proof (cases "tlv_access tlv")
    case Access_invalid
    then show ?thesis using assms nil by (simp add: tlv_write_tlv_def)
  next
    case Access_static
    obtain bs d' where "write_data (info ?n) ?n free True (\<not> tlv_inHello tlv) off = Some (bs, d')"
      "data_ok ?n d'" "int (length bs) \<le> free" "hello_tlv ?n bs"
      using wr [of "info ?n"] assms(1) by (auto simp: info_ok_def)
    then show ?thesis using Access_static assms(1)
      by (simp add: tlv_write_tlv_def info_ok_upd)
  next
    case Access_unset
    show ?thesis
    proof (cases "get ?n")
      case None
      then show ?thesis using Access_unset assms nil by (simp add: tlv_write_tlv_def)
    next
      case (Some d)
      then have "data_ok ?n d" using assms(2) by (auto simp: get_ok_def)
      with wr obtain bs d' where "write_data d ?n free True (\<not> tlv_inHello tlv) off = Some (bs, d')"
        "data_ok ?n d'" "int (length bs) \<le> free" "hello_tlv ?n bs" by blast
      then show ?thesis using Access_unset Some assms(1)
        by (simp add: tlv_write_tlv_def info_ok_upd)
    qed
  next
    case Access_dynamic
    show ?thesis
    proof (cases "get ?n")
      case None
      then show ?thesis using Access_dynamic assms nil by (simp add: tlv_write_tlv_def)
    next
      case (Some d)
      then have "data_ok ?n d" using assms(2) by (auto simp: get_ok_def)
      with wr obtain bs d' where "write_data d ?n free True (\<not> tlv_inHello tlv) off = Some (bs, d')"
        "data_ok ?n d'" "int (length bs) \<le> free" "hello_tlv ?n bs" by blast
      then show ?thesis using Access_dynamic Some assms(1)
        by (simp add: tlv_write_tlv_def info_ok_upd)
    qed
  qed
qed

lemma parse_tlvs_hello:
  assumes "hello_tlv n bs" "parse_tlvs rest = Some items"
  shows "\<exists>items'. parse_tlvs (bs @ rest) = Some items'
    \<and> (items' = items \<or> (\<exists>v. items' = (word_of_nat n, v) # items))"
  using assms by (auto simp: hello_tlv_def)

lemma tlv_write_info_spec:
  assumes "info_ok info" "get_ok get" "0 \<le> free"
    and "\<forall>t \<in> set tlvs. tlv_number t = 19 \<longrightarrow> \<not> tlv_inHello t"
  shows "\<exists>bs tlvs' info' items. tlv_write_info get tlvs info free = Some (bs, tlvs', info')
    \<and> info_ok info' \<and> map tlv_number tlvs' = map tlv_number tlvs
    \<and> (\<forall>t \<in> set tlvs'. tlv_number t = 19 \<longrightarrow> \<not> tlv_inHello t) \<and> int (length bs) \<le> free
    \<and> parse_tlvs bs = Some items
    \<and> subseq (map fst items) (map (\<lambda>t. word_of_nat (tlv_number t)) tlvs)"
  using assms
proof (induction tlvs arbitrary: info free)
  case Nil
  then show ?case by simp
next
  case (Cons tlv tlvs)
  show ?case
  proof (cases "free > 1")
    case False
    then show ?thesis using Cons.prems by simp
  next
    case True
    then obtain bs tlv' info' where one:
      "tlv_write_tlv get tlv info free True 0 = Some (bs, tlv', info')" "info_ok info'"
      "tlv_number tlv' = tlv_number tlv" "int (length bs) \<le> free" "hello_tlv (tlv_number tlv) bs"
      "tlv_inHello tlv' = tlv_inHello tlv"
      using tlv_write_tlv_hello [OF Cons.prems(1,2), of free tlv 0] Cons.prems(4) by auto
    obtain bs' tlvs' info'' items where rest:
      "tlv_write_info get tlvs info' (free - int (length bs)) = Some (bs', tlvs', info'')"
      "info_ok info''" "map tlv_number tlvs' = map tlv_number tlvs"
      "int (length bs') \<le> free - int (length bs)" "parse_tlvs bs' = Some items"
      "subseq (map fst items) (map (\<lambda>t. word_of_nat (tlv_number t)) tlvs)"
      "\<forall>t \<in> set tlvs'. tlv_number t = 19 \<longrightarrow> \<not> tlv_inHello t"
      using Cons.IH [OF one(2) Cons.prems(2), of "free - int (length bs)"] one(4) Cons.prems(4)
      by auto
    obtain items' where "parse_tlvs (bs @ bs') = Some items'"
      "items' = items \<or> (\<exists>v. items' = (word_of_nat (tlv_number tlv), v) # items)"
      using parse_tlvs_hello [OF one(5) rest(5)] by blast
    with True one rest Cons.prems(4) show ?thesis by auto
  qed
qed

text \<open>The attribute part of a Hello: whatever the \<open>get\<close> functions answer, \<open>tlv_write_info\<close> over the
  responder's table returns, never writes more than the \<open>free\<close> bytes it is given, and writes a
  sequence of complete type-length-value triples whose types appear in the order of the table.
\<close>

theorem hello_attributes_fit_and_parse:
  assumes "info_ok info" "get_ok get" "0 \<le> free"
  shows "\<exists>bs tlvs' info' items. tlv_write_info get Tlvs info free = Some (bs, tlvs', info')
    \<and> int (length bs) \<le> free \<and> parse_tlvs bs = Some items
    \<and> subseq (map fst items) [1, 2, 3, 4, 5, 7, 8, 9, 12, 10, 14, 15, 16, 17, 19, 20, 21, 22, 24,
        25, 26]"
  using tlv_write_info_spec [OF assms, of Tlvs] by (auto simp: Tlvs_def)

theorem hello_attributes_fit_and_parse_witness:
  "\<exists>bs tlvs' info' items. tlv_write_info (\<lambda>n. if n = 1 then Some (DEtheraddr [0, 1, 2, 3, 4, 5])
      else None) Tlvs (\<lambda>_. DUint8 0) 100 = Some (bs, tlvs', info')
    \<and> int (length bs) \<le> 100 \<and> parse_tlvs bs = Some items
    \<and> subseq (map fst items) [1, 2, 3, 4, 5, 7, 8, 9, 12, 10, 14, 15, 16, 17, 19, 20, 21, 22, 24,
        25, 26]"
  by (rule hello_attributes_fit_and_parse) (auto simp: info_ok_def get_ok_def split: if_splits)

section \<open>Large attributes\<close>

text \<open>A mapper fetches a large attribute in parts: it asks at an offset, takes the bytes after the
  two-byte header and asks again behind them while the header's top bit is set.\<close>

fun fetch_icon :: "nat \<Rightarrow> nat \<Rightarrow> icon_file \<Rightarrow> int \<Rightarrow> nat \<Rightarrow> u8 list option" where
  "fetch_icon 0 n ic free off = None"
| "fetch_icon (Suc fuel) n ic free off =
     do { (bs, _) \<leftarrow> write_icon_file_t n ic free False False off;
          h \<leftarrow> rd16 bs 0;
          if bit h 15
          then map_option ((@) (drop 2 bs)) (fetch_icon fuel n ic free (off + (length bs - 2)))
          else Some (drop 2 bs) }"

lemma bit15_or: "bit ((0x8000 :: u16) OR w) 15"
  by (simp add: bit_simps)

lemma bit15_small: "n < 32768 \<Longrightarrow> \<not> bit (word_of_nat n :: u16) 15"
  by (simp add: bit_simps bit_nat_def)

lemma rd16_ltlv_header [simp]:
  "rd16 (ltlv_header n m @ v) 0 = Some (if m then 0x8000 OR word_of_nat n else word_of_nat n)"
  by (simp add: rd16_def ltlv_header_def bytes16_def)

lemma length_ltlv_header [simp]: "length (ltlv_header n m) = 2"
  by (simp add: ltlv_header_def)

lemma fetch_icon_step:
  assumes "fd_open ic" "ic_seek_ok ic" "ic_read_ok ic" "2 < free" "free < 32768"
  shows "fetch_icon (Suc fuel) n ic free off =
    (if icon_more ic free off
     then map_option ((@) (icon_chunk ic free off))
        (fetch_icon fuel n ic free (off + length (icon_chunk ic free off)))
     else Some (icon_chunk ic free off))"
proof -
  have len: "length (icon_chunk ic free off) < 32768"
    using icon_chunk_length [of free ic off] assms by simp
  show ?thesis using assms bit15_small [OF len] bit15_or
    by (simp add: write_icon_file_t_def Let_def)
qed

lemma fetch_icon_from:
  assumes "fd_open ic" "ic_seek_ok ic" "ic_read_ok ic" "2 < free" "free < 32768"
    and "length (ic_bytes ic) - off < fuel"
  shows "fetch_icon fuel n ic free off = Some (drop off (ic_bytes ic))"
  using assms(6)
proof (induction fuel arbitrary: off)
  case 0
  then show ?case by simp
next
  case (Suc fuel)
  note step = fetch_icon_step [OF assms(1-5), of fuel n off]
  show ?case
  proof (cases "icon_more ic free off")
    case True
    then have len: "length (icon_chunk ic free off) = nat (free - 2)"
      by (simp add: icon_more_def icon_chunk_def)
    have "length (ic_bytes ic) - (off + nat (free - 2)) < fuel"
      using Suc.prems True assms(4) unfolding icon_more_def by linarith
    then have "fetch_icon fuel n ic free (off + nat (free - 2)) =
        Some (drop (nat (free - 2)) (drop off (ic_bytes ic)))"
      using Suc.IH by (simp add: add.commute)
    with True step len show ?thesis by (simp add: icon_chunk_def del: fetch_icon.simps drop_drop)
  next
    case False
    with step show ?thesis by (simp add: icon_more_def icon_chunk_def)
  qed
qed

text \<open>A mapper that fetches an icon in parts of at most \<open>free\<close> bytes, following the more-flag of each
  part's header, gets exactly the bytes of the icon file, after at most one request per byte and one.
\<close>

theorem icon_transfer_complete:
  assumes "fd_open ic" "ic_seek_ok ic" "ic_read_ok ic" "2 < free" "free < 32768"
  shows "fetch_icon (Suc (length (ic_bytes ic))) n ic free 0 = Some (ic_bytes ic)"
  using fetch_icon_from [OF assms, of 0 "Suc (length (ic_bytes ic))" n] by simp

theorem icon_transfer_complete_witness:
  "fetch_icon 6 14 \<lparr>sz_iconfile = 5, fd_open = True, ic_bytes = [1, 2, 3, 4, 5],
      ic_seek_ok = True, ic_read_ok = True\<rparr> 4 0 = Some [1, 2, 3, 4, 5]"
  using icon_transfer_complete [of "\<lparr>sz_iconfile = 5, fd_open = True, ic_bytes = [1, 2, 3, 4, 5],
      ic_seek_ok = True, ic_read_ok = True\<rparr>" 4 14] by (simp add: eval_nat_numeral)

text \<open>The length field of a large attribute, for the values that are not strings: with the
  association table the length counts the header too whenever another part follows.\<close>

lemma assns_more_length:
  assumes "i = off div 10" "i < c" "c \<le> length es" "free - 2 < int ((c - i) * 10)" "2 \<le> free"
    and "list_all (\<lambda>e. length (as_MACaddr e) = 6) es"
  shows "\<exists>v. write_assns_t n (Some es) c free False l off =
      Some (bytes16 (word_of_nat (length v + 2) OR 0x8000) @ v, DAssns (Some es) c)"
proof -
  let ?k = "nat (free - 2) div 10"
  let ?v = "concat (map assn_bytes (take ?k (drop i es)))"
  have k: "i + ?k \<le> length es" using assms by linarith
  have "length (concat (map assn_bytes xs)) = length xs * 10"
    if "list_all (\<lambda>e. length (as_MACaddr e) = 6) xs" for xs
    using that by (induction xs) (simp_all add: assn_bytes_def)
  moreover have "list_all (\<lambda>e. length (as_MACaddr e) = 6) (take ?k (drop i es))"
    using assms(6) by (auto simp: list_all_iff dest: in_set_takeD in_set_dropD)
  ultimately have "length ?v = ?k * 10" using k by simp
  then show ?thesis using assms k by (intro exI [of _ ?v]) (simp add: write_assns_t_def Let_def)
qed

lemma length_concat_fixed:
  "list_all (\<lambda>x. length (f x) = n) xs \<Longrightarrow> length (concat (map f xs)) = length xs * n"
  by (induction xs) auto

lemma write_sized_large:
  "w = Some (write_sized n v free False l, d) \<Longrightarrow> 0 \<le> free \<Longrightarrow> P d \<Longrightarrow>
   \<exists>bs d'. w = Some (bs, d') \<and> P d' \<and> int (length bs) \<le> free"
  by (auto simp: write_sized_def)

lemma write_assns_large:
  assumes "data_ok n (DAssns t c)" "2 \<le> free"
  shows "\<exists>bs d'. write_assns_t n t c free False l off = Some (bs, d') \<and> data_ok n d'
    \<and> int (length bs) \<le> free"
proof (cases t)
  case None
  then show ?thesis using assms by (simp add: write_assns_t_def)
next
  case (Some es)
  let ?i = "off div 10" let ?m = "free - 2 < int ((c - ?i) * 10)"
  show ?thesis
  proof (cases "?i < c")
    case False
    then show ?thesis using assms Some by (simp add: write_assns_t_def)
  next
    case True
    have ces: "c \<le> length es" and six: "list_all (\<lambda>e. length (as_MACaddr e) = 6) es"
      using assms(1) Some by simp_all
    have len: "length (concat (map assn_bytes (take k (drop ?i es)))) = k * 10"
      if "?i + k \<le> length es" for k
    proof -
      have "list_all (\<lambda>e. length (assn_bytes e) = 10) (take k (drop ?i es))"
        using six by (auto simp: list_all_iff assn_bytes_def dest!: in_set_takeD in_set_dropD)
      from length_concat_fixed [OF this] that show ?thesis by simp
    qed
    show ?thesis
    proof (cases ?m)
      case m: True
      then have fits: "?i + nat (free - 2) div 10 \<le> length es" using True ces assms(2) by linarith
      have "2 + int (nat (free - 2) div 10) * 10 \<le> free" using assms(2) by linarith
      with m True len [OF fits] fits show ?thesis using assms Some
        by (auto simp: write_assns_t_def Let_def)
    next
      case m: False
      then have "?i + (c - ?i) \<le> length es" using True ces by linarith
      with m True len [OF this] show ?thesis using assms Some
        by (auto simp: write_assns_t_def Let_def)
    qed
  qed
qed

lemma write_comptbl_large:
  assumes "data_ok n (DComptbl ct)" "37 \<le> free"
  shows "\<exists>bs d'. write_comptbl_t n ct free False l = Some (bs, d') \<and> data_ok n d'
    \<and> int (length bs) \<le> free"
proof -
  have "list_all (\<lambda>r. length (radio_bytes r) = 12) (ct_radios ct)"
    using assms(1) by (auto simp: list_all_iff radio_bytes_def)
  from length_concat_fixed [OF this]
  have "length (concat (map radio_bytes (ct_radios ct))) \<le> 24" using assms(1) by simp
  then show ?thesis using assms by (simp add: write_comptbl_t_def Let_def)
qed

lemma write_data_large:
  assumes "data_ok n d" "37 \<le> free"
  shows "\<exists>bs d'. write_data d n free False l off = Some (bs, d') \<and> data_ok n d'
    \<and> int (length bs) \<le> free"
proof (cases d)
  case (DAssns t c)
  then show ?thesis using write_assns_large [of n t c free] assms by simp
next
  case (DComptbl ct)
  then show ?thesis using write_comptbl_large assms by simp
next
  case (DUcs2char s)
  then show ?thesis using assms by (auto simp: write_ucs2char_t_def Let_def)
next
  case (DIconFile ic)
  then show ?thesis using assms icon_chunk_length [of free ic off]
    by (auto simp: write_icon_file_t_def close_icon_def Let_def)
next
  case (DLgIcon ic)
  then show ?thesis using assms icon_chunk_length [of free ic off]
    by (auto simp: write_lg_icon_t_def close_icon_def Let_def)
next
  case (DIpv4addr v)
  have "write_ipv4addr_t n v free False l = Some (write_sized n (bytes32 v) free False l, DIpv4addr v)"
    by (simp add: write_ipv4addr_t_def write_uint32_t_def)
  then show ?thesis unfolding DIpv4addr write_data.simps
    by (rule write_sized_large) (use assms in simp_all)
next
  case (DEtheraddr a)
  show ?thesis unfolding DEtheraddr write_data.simps
    by (rule write_sized_large [OF write_etheraddr_t_def]) (use assms DEtheraddr in simp_all)
next
  case (DIpv6addr a)
  show ?thesis unfolding DIpv6addr write_data.simps
    by (rule write_sized_large [OF write_ipv6addr_t_def]) (use assms DIpv6addr in simp_all)
next
  case (DUint8 v)
  show ?thesis unfolding DUint8 write_data.simps
    by (rule write_sized_large [OF write_uint8_t_def]) (use assms in simp_all)
next
  case (DUint16 v)
  show ?thesis unfolding DUint16 write_data.simps
    by (rule write_sized_large [OF write_uint16_t_def]) (use assms in simp_all)
next
  case (DUint32 v)
  show ?thesis unfolding DUint32 write_data.simps
    by (rule write_sized_large [OF write_uint32_t_def]) (use assms in simp_all)
next
  case (DUint64 v)
  show ?thesis unfolding DUint64 write_data.simps
    by (rule write_sized_large [OF write_uint64_t_def]) (use assms in simp_all)
qed

lemma tlv_write_tlv_large:
  assumes "info_ok info" "get_ok get" "37 \<le> free"
  shows "\<exists>bs tlv' info'. tlv_write_tlv get tlv info free False off = Some (bs, tlv', info')
    \<and> info_ok info' \<and> tlv_number tlv' = tlv_number tlv \<and> tlv_inHello tlv' = tlv_inHello tlv
    \<and> int (length bs) \<le> free"
proof -
  let ?n = "tlv_number tlv"
  have wr: "\<exists>bs d'. write_data d ?n free False (\<not> tlv_inHello tlv) off = Some (bs, d')
      \<and> data_ok ?n d' \<and> int (length bs) \<le> free" if "data_ok ?n d" for d
    using write_data_large [OF that assms(3)] by blast
  have i: "data_ok ?n (info ?n)" using assms(1) by (simp add: info_ok_def)
  have g: "data_ok ?n d" if "get ?n = Some d" for d using assms(2) that by (auto simp: get_ok_def)
  show ?thesis
    using wr [OF i] wr [OF g] assms(1,3)
    by (cases "tlv_access tlv"; cases "get ?n") (force simp: tlv_write_tlv_def info_ok_upd)+
qed

text \<open>
  The reply to a QueryLargeTlv for a string attribute carries 4 in its length field, the size of
  the C variable, and not the number of bytes of the string that follow.
\<close>

theorem ucs2_large_length_is_4:
  assumes "0 \<in> set s" "2 + 2 * int (length (takeWhile (\<lambda>c. c \<noteq> 0) s)) \<le> free"
  shows "\<exists>v. write_ucs2char_t n s free False l = Some (bytes16 4 @ v, DUcs2char s)
    \<and> length v = 2 * length (takeWhile (\<lambda>c. c \<noteq> 0) s)"
  using assms by (simp add: write_ucs2char_t_def)

theorem ucs2_large_length_is_4_witness:
  "\<exists>v. write_ucs2char_t 15 [0x41, 0x42, 0x43, 0] 100 False False =
      Some (bytes16 4 @ v, DUcs2char [0x41, 0x42, 0x43, 0]) \<and> length v = 6"
  using ucs2_large_length_is_4 [of "[0x41, 0x42, 0x43, 0]" 100 15 False] by simp

end
