(* ===== verification/Lltd_Globals.thy ===== *)
theory Lltd_Globals
  imports Lltd_Event Lltd_Seeslist Lltd_Tlv
begin

text \<open>
  The state of the topology responder: \<open>ms-lltd/globals.h\<close>, \<open>lld2d_types.h\<close>, \<open>smevent.h\<close> and
  \<open>statemachines.h\<close>, with the timer macros of \<open>util.h\<close> and the start state of \<open>main.c\<close>. A pointer
  into \<open>g_sessions\<close> is an index, a pointer to a pending event its identifier, \<open>g_emitdesc\<close> the offset
  of the descriptor in \<open>g_emitbuf\<close>.

  The operating system is part of the state as answers to calls, in the order of the calls:
  \<open>os_time\<close> for \<open>gettimeofday\<close>, \<open>os_random\<close> for the floating-point \<open>random_uniform\<close>, \<open>os_get\<close> for the
  \<open>get\<close> functions of the attributes, \<open>os_write_ok\<close> for \<open>osl_write\<close>. Frames sent are collected in
  \<open>os_out\<close>. Packets are in network byte order, which is the byte order of the processor.
\<close>

section \<open>Types\<close>

datatype smS_state = smS_Nascent | smS_Pending | smS_Temporary | smS_Complete

datatype smE_state = smE_Quiescent | smE_Pausing | smE_Wait

datatype smT_state = smT_Quiescent | smT_Command | smT_Emit

datatype smEvent =
    evtPacketRcvd | evtDiscoverRcvd | evtEmitRcvd | evtResetRcvd | evtBlockTimeout
  | evtChargeTimeout | evtEmitTimeout | evtHelloDelayTimeout | evtInactivityTimeout
  | evtInvalidPacket

datatype sm_Status = PROCESSING_COMPLETED | KEEP_GOING | PROCESSING_ABORTED

text \<open>The timer callbacks; the cookie of \<open>state_inactivity_timeout\<close> is its session.\<close>

datatype timer_fn =
    State_block_timeout | State_charge_timeout | State_emit_timeout | State_hello_delay_timeout
  | State_inactivity_timeout nat

record session =
  ssn_is_valid :: bool
  ssn_state :: smS_state
  ssn_count :: u32
  ssn_XID :: u16
  ssn_mapper_real :: "u8 list"
  ssn_mapper_current :: "u8 list"
  ssn_use_broadcast :: bool
  ssn_TypeOfSvc :: u8
  ssn_InactivityTimer :: "nat option"

record protocol_event =
  evtType :: smEvent
  ev_ssn :: "nat option"
  isNewSession :: bool
  isAckingMe :: bool
  isInternalEvt :: bool
  numDescrs :: nat

record band =
  Ni :: u32
  band_r :: u32
  begun :: bool

record recvee_desc =
  rd_type :: u16
  rd_realsrc :: "u8 list"
  rd_src :: "u8 list"
  rd_dst :: "u8 list"

record lltd =
  g_hwaddr :: "u8 list"
  g_smE_state :: smE_state
  g_smT_state :: smT_state
  g_this_event :: protocol_event
  g_sessions :: "session list"
  g_topo_session :: "nat option"
  g_info :: "nat \<Rightarrow> tlv_data"
  g_Tlvs :: "tlv_desc list"
  g_band :: band
  g_rxbuf :: "u8 list"
  g_txbuf :: "u8 list"
  g_re_txbuf :: "u8 list"
  g_rcvd_pkt_len :: nat
  g_rtxseqnum :: u16
  g_tx_len :: nat
  g_re_tx_len :: nat
  g_re_tx_opcode :: u8
  g_generation :: u16
  g_sequencenum :: u16
  g_opcode :: u8
  g_ctc_packets :: u32
  g_ctc_bytes :: u32
  g_totalPause :: u32
  g_neededPackets :: u32
  g_neededBytes :: u32
  g_emitbuf :: "u8 list"
  g_emit_remaining :: u16
  g_emit_seqnum :: u16
  g_emitdesc :: nat
  g_sees :: "recvee_desc seeslist"
  g_block_timer :: "nat option"
  g_charge_timer :: "nat option"
  g_emit_timer :: "nat option"
  g_hello_timer :: "nat option"
  g_evq :: "timer_fn evq"
  g_promisc :: bool
  os_time :: "nat \<Rightarrow> timeval"
  os_random :: "nat \<Rightarrow> u32 \<Rightarrow> u32"
  os_get :: "nat \<Rightarrow> nat \<Rightarrow> tlv_data option"
  os_write_ok :: "u8 list \<Rightarrow> bool"
  os_calls :: nat
  os_out :: "u8 list list"

section \<open>Constants\<close>

definition MAX_NUM_SESSIONS :: nat where "MAX_NUM_SESSIONS = 11"
definition RXBUFSZ :: nat where "RXBUFSZ = 2048"
definition TXBUFSZ :: nat where "TXBUFSZ = 2048"
definition TOPO_MAX_FRAMESZ :: nat where "TOPO_MAX_FRAMESZ = 1514"
definition NUM_SEES :: nat where "NUM_SEES = 1024"

definition ToS_TopologyDiscovery :: u8 where "ToS_TopologyDiscovery = 0"
definition ToS_QoSDiagnostics :: u8 where "ToS_QoSDiagnostics = 2"
definition ToS_Unknown :: u8 where "ToS_Unknown = 4"

definition Opcode_Discover :: u8 where "Opcode_Discover = 0"
definition Opcode_Hello :: u8 where "Opcode_Hello = 1"
definition Opcode_Emit :: u8 where "Opcode_Emit = 2"
definition Opcode_Train :: u8 where "Opcode_Train = 3"
definition Opcode_Probe :: u8 where "Opcode_Probe = 4"
definition Opcode_ACK :: u8 where "Opcode_ACK = 5"
definition Opcode_Query :: u8 where "Opcode_Query = 6"
definition Opcode_QueryResp :: u8 where "Opcode_QueryResp = 7"
definition Opcode_Reset :: u8 where "Opcode_Reset = 8"
definition Opcode_Charge :: u8 where "Opcode_Charge = 9"
definition Opcode_Flat :: u8 where "Opcode_Flat = 10"
definition Opcode_QueryLargeTlv :: u8 where "Opcode_QueryLargeTlv = 11"
definition Opcode_QueryLargeTlvResp :: u8 where "Opcode_QueryLargeTlvResp = 12"
definition Opcode_INVALID :: u8 where "Opcode_INVALID = 13"

lemmas opcode_defs = Opcode_Discover_def Opcode_Hello_def Opcode_Emit_def Opcode_Train_def
  Opcode_Probe_def Opcode_ACK_def Opcode_Query_def Opcode_QueryResp_def Opcode_Reset_def
  Opcode_Charge_def Opcode_Flat_def Opcode_QueryLargeTlv_def Opcode_QueryLargeTlvResp_def
  Opcode_INVALID_def

definition TOPO_HELLO_ACTIVITYTIMEOUT :: int where "TOPO_HELLO_ACTIVITYTIMEOUT = 15000"
definition TOPO_CMD_ACTIVITYTIMEOUT :: int where "TOPO_CMD_ACTIVITYTIMEOUT = 60000"
definition TOPO_GENERAL_ACTIVITYTIMEOUT :: int where "TOPO_GENERAL_ACTIVITYTIMEOUT = 30000"
definition TOPO_CHARGE_TIMEOUT :: int where "TOPO_CHARGE_TIMEOUT = 1000"
definition TOPO_TOTALPAUSE_MAX :: u32 where "TOPO_TOTALPAUSE_MAX = 1000"
definition TOPO_CTC_PACKETS_MAX :: u32 where "TOPO_CTC_PACKETS_MAX = 64"
definition TOPO_CTC_BYTES_MAX :: u32 where "TOPO_CTC_BYTES_MAX = 65536"

definition BAND_NMAX :: u32 where "BAND_NMAX = 10000"
definition BAND_ALPHA :: u32 where "BAND_ALPHA = 45"
definition BAND_BETA :: u32 where "BAND_BETA = 2"
definition BAND_GAMMA :: u32 where "BAND_GAMMA = 10"
definition BAND_TXC :: u32 where "BAND_TXC = 4"
definition BAND_BLOCK_TIME :: u32 where "BAND_BLOCK_TIME = 300"

definition Etheraddr_broadcast :: "u8 list" where "Etheraddr_broadcast = replicate 6 0xff"

definition ETHERADDR_IS_MCAST :: "u8 list \<Rightarrow> bool" where
  "ETHERADDR_IS_MCAST a = (a ! 0 AND 1 = 1)"

definition TOPO_ETHERADDR_OUI :: "u8 list \<Rightarrow> bool" where
  "TOPO_ETHERADDR_OUI a \<longleftrightarrow> a ! 0 = 0 \<and> a ! 1 = 0x0d \<and> a ! 2 = 0x3a
     \<and> (push_bit 16 (ucast (a ! 3)) OR push_bit 8 (ucast (a ! 4)) OR ucast (a ! 5) :: u32)
         \<ge> 0xd7f140"

section \<open>The current frame in the receive buffer\<close>

definition eh_dst :: "lltd \<Rightarrow> u8 list" where "eh_dst s = sub_buf (g_rxbuf s) 0 6"
definition eh_src :: "lltd \<Rightarrow> u8 list" where "eh_src s = sub_buf (g_rxbuf s) 6 6"
definition eh_ethertype :: "lltd \<Rightarrow> u16" where
  "eh_ethertype s = mk16 (g_rxbuf s ! 12) (g_rxbuf s ! 13)"
definition tbh_version :: "lltd \<Rightarrow> u8" where "tbh_version s = g_rxbuf s ! 14"
definition tbh_tos :: "lltd \<Rightarrow> u8" where "tbh_tos s = g_rxbuf s ! 15"
definition tbh_opcode :: "lltd \<Rightarrow> u8" where "tbh_opcode s = g_rxbuf s ! 17"
definition tbh_realdst :: "lltd \<Rightarrow> u8 list" where "tbh_realdst s = sub_buf (g_rxbuf s) 18 6"
definition tbh_realsrc :: "lltd \<Rightarrow> u8 list" where "tbh_realsrc s = sub_buf (g_rxbuf s) 24 6"
definition tbh_seqnum :: "lltd \<Rightarrow> u16" where
  "tbh_seqnum s = mk16 (g_rxbuf s ! 30) (g_rxbuf s ! 31)"
definition mh_gen :: "lltd \<Rightarrow> u16" where "mh_gen s = mk16 (g_rxbuf s ! 32) (g_rxbuf s ! 33)"
definition mh_numstations :: "lltd \<Rightarrow> u16" where
  "mh_numstations s = mk16 (g_rxbuf s ! 34) (g_rxbuf s ! 35)"
definition eh_numdescs :: "lltd \<Rightarrow> u16" where
  "eh_numdescs s = mk16 (g_rxbuf s ! 32) (g_rxbuf s ! 33)"
definition qh_type :: "lltd \<Rightarrow> u8" where "qh_type s = g_rxbuf s ! 32"
definition qh_rsvd1 :: "lltd \<Rightarrow> u8" where "qh_rsvd1 s = g_rxbuf s ! 33"
definition qh_offset :: "lltd \<Rightarrow> u16" where "qh_offset s = mk16 (g_rxbuf s ! 34) (g_rxbuf s ! 35)"

text \<open>The address just behind the frame, relative to \<open>g_rxbuf\<close>: a length of 2 GB and more, such as
  the unsigned value of a failed read, lies in front of the buffer.\<close>

definition rx_limit :: "lltd \<Rightarrow> int" where
  "rx_limit s = (if int (g_rcvd_pkt_len s) < 2 ^ 31 then int (g_rcvd_pkt_len s)
                 else int (g_rcvd_pkt_len s) - 2 ^ 32)"

section \<open>Timers\<close>

definition gettimeofday :: "lltd \<Rightarrow> timeval \<times> lltd" where
  "gettimeofday s = (os_time s (os_calls s), s\<lparr>os_calls := Suc (os_calls s)\<rparr>)"

definition ssn_at :: "lltd \<Rightarrow> nat \<Rightarrow> session" where
  "ssn_at s i = g_sessions s ! i"

definition upd_ssn :: "nat \<Rightarrow> (session \<Rightarrow> session) \<Rightarrow> lltd \<Rightarrow> lltd" where
  "upd_ssn i f s = s\<lparr>g_sessions := (g_sessions s)[i := f (g_sessions s ! i)]\<rparr>"

text \<open>The variable that holds the pointer to the pending event of each timer.\<close>

fun timer_ptr :: "timer_fn \<Rightarrow> lltd \<Rightarrow> nat option" where
  "timer_ptr State_block_timeout s = g_block_timer s"
| "timer_ptr State_charge_timeout s = g_charge_timer s"
| "timer_ptr State_emit_timeout s = g_emit_timer s"
| "timer_ptr State_hello_delay_timeout s = g_hello_timer s"
| "timer_ptr (State_inactivity_timeout i) s =
     (if i < length (g_sessions s) then ssn_InactivityTimer (g_sessions s ! i) else None)"

fun set_timer_ptr :: "timer_fn \<Rightarrow> nat option \<Rightarrow> lltd \<Rightarrow> lltd" where
  "set_timer_ptr State_block_timeout p s = s\<lparr>g_block_timer := p\<rparr>"
| "set_timer_ptr State_charge_timeout p s = s\<lparr>g_charge_timer := p\<rparr>"
| "set_timer_ptr State_emit_timeout p s = s\<lparr>g_emit_timer := p\<rparr>"
| "set_timer_ptr State_hello_delay_timeout p s = s\<lparr>g_hello_timer := p\<rparr>"
| "set_timer_ptr (State_inactivity_timeout i) p s =
     upd_ssn i (\<lambda>x. x\<lparr>ssn_InactivityTimer := p\<rparr>) s"

definition CANCEL :: "timer_fn \<Rightarrow> lltd \<Rightarrow> lltd" where
  "CANCEL f s =
     (case timer_ptr f s of
        None \<Rightarrow> s
      | Some e \<Rightarrow> set_timer_ptr f None (s\<lparr>g_evq := snd (event_cancel e (g_evq s))\<rparr>))"

text \<open>\<open>gettimeofday(&now)\<close>, \<open>timeval_add_ms(&now, ms)\<close> and \<open>tmr = event_add(&now, f, ...)\<close>.\<close>

definition start_timer :: "timer_fn \<Rightarrow> int \<Rightarrow> lltd \<Rightarrow> lltd" where
  "start_timer f ms s =
     (let (now, s1) = gettimeofday s;
          (e, q) = event_add (timeval_add_ms now ms) f (g_evq s1)
      in set_timer_ptr f (Some e) (s1\<lparr>g_evq := q\<rparr>))"

text \<open>The same where the source cancels the timer between reading the clock and adding the event.\<close>

definition restart_timer :: "timer_fn \<Rightarrow> int \<Rightarrow> lltd \<Rightarrow> lltd" where
  "restart_timer f ms s =
     (let (now, s1) = gettimeofday s;
          s2 = CANCEL f s1;
          (e, q) = event_add (timeval_add_ms now ms) f (g_evq s2)
      in set_timer_ptr f (Some e) (s2\<lparr>g_evq := q\<rparr>))"

section \<open>The start state\<close>

definition empty_session :: session where
  "empty_session = \<lparr>ssn_is_valid = False, ssn_state = smS_Nascent, ssn_count = 0, ssn_XID = 0,
     ssn_mapper_real = replicate 6 0, ssn_mapper_current = replicate 6 0,
     ssn_use_broadcast = False, ssn_TypeOfSvc = 0, ssn_InactivityTimer = None\<rparr>"

definition lltd_init ::
    "u8 list \<Rightarrow> (nat \<Rightarrow> tlv_data) \<Rightarrow> (nat \<Rightarrow> timeval) \<Rightarrow> (nat \<Rightarrow> u32 \<Rightarrow> u32)
     \<Rightarrow> (nat \<Rightarrow> nat \<Rightarrow> tlv_data option) \<Rightarrow> (u8 list \<Rightarrow> bool) \<Rightarrow> (nat \<Rightarrow> recvee_desc) \<Rightarrow> lltd" where
  "lltd_init hw info time rand get wr junk = \<lparr>
     g_hwaddr = hw, g_smE_state = smE_Quiescent, g_smT_state = smT_Quiescent,
     g_this_event = \<lparr>evtType = evtPacketRcvd, ev_ssn = None, isNewSession = False,
       isAckingMe = False, isInternalEvt = False, numDescrs = 0\<rparr>,
     g_sessions = replicate MAX_NUM_SESSIONS empty_session, g_topo_session = None,
     g_info = info, g_Tlvs = Tlvs,
     g_band = \<lparr>Ni = 0, band_r = 0, begun = False\<rparr>,
     g_rxbuf = replicate RXBUFSZ 0, g_txbuf = replicate TXBUFSZ 0,
     g_re_txbuf = replicate TXBUFSZ 0, g_rcvd_pkt_len = 0, g_rtxseqnum = 0, g_tx_len = 0,
     g_re_tx_len = 0, g_re_tx_opcode = 0, g_generation = 0, g_sequencenum = 0,
     g_opcode = Opcode_INVALID, g_ctc_packets = 0, g_ctc_bytes = 0, g_totalPause = 0,
     g_neededPackets = 0, g_neededBytes = 0, g_emitbuf = replicate RXBUFSZ 0,
     g_emit_remaining = 0, g_emit_seqnum = 0, g_emitdesc = 0, g_sees = seeslist_new junk NUM_SEES,
     g_block_timer = None, g_charge_timer = None, g_emit_timer = None, g_hello_timer = None,
     g_evq = evq_empty, g_promisc = False, os_time = time, os_random = rand, os_get = get,
     os_write_ok = wr, os_calls = 0, os_out = []\<rparr>"

section \<open>Timers and pending events agree\<close>

text \<open>The pointer variables as one function of the callback.\<close>

definition ptr_of ::
    "nat option \<Rightarrow> nat option \<Rightarrow> nat option \<Rightarrow> nat option \<Rightarrow> nat option list \<Rightarrow> timer_fn \<Rightarrow> nat option"
where
  "ptr_of bl ch em he ia f =
     (case f of State_block_timeout \<Rightarrow> bl | State_charge_timeout \<Rightarrow> ch | State_emit_timeout \<Rightarrow> em
      | State_hello_delay_timeout \<Rightarrow> he
      | State_inactivity_timeout i \<Rightarrow> if i < length ia then ia ! i else None)"

text \<open>An event is pending exactly when the variable of its timer points to it: no timer runs that its
  owner has forgotten, and no variable points to an event that has gone.\<close>

definition pending_fn :: "'c evq \<Rightarrow> nat \<Rightarrow> 'c option" where
  "pending_fn q i = map_option snd (pending q i)"

definition tm_ok :: "timer_fn evq \<Rightarrow> (timer_fn \<Rightarrow> nat option) \<Rightarrow> bool" where
  "tm_ok q p \<longleftrightarrow> evq_ok q \<and> (\<forall>f i. pending_fn q i = Some f \<longleftrightarrow> p f = Some i)"

abbreviation timers_ok :: "lltd \<Rightarrow> bool" where
  "timers_ok s \<equiv> tm_ok (g_evq s) (ptr_of (g_block_timer s) (g_charge_timer s) (g_emit_timer s)
     (g_hello_timer s) (map ssn_InactivityTimer (g_sessions s)))"

fun fn_ok :: "timer_fn \<Rightarrow> lltd \<Rightarrow> bool" where
  "fn_ok (State_inactivity_timeout i) s = (i < length (g_sessions s))"
| "fn_ok _ s = True"

lemma timer_ptr_eq:
  "timer_ptr f s = ptr_of (g_block_timer s) (g_charge_timer s) (g_emit_timer s) (g_hello_timer s)
     (map ssn_InactivityTimer (g_sessions s)) f"
  by (cases f) (auto simp: ptr_of_def)

lemma ptr_of_set_timer_ptr:
  assumes "fn_ok f s"
  shows "ptr_of (g_block_timer (set_timer_ptr f p s)) (g_charge_timer (set_timer_ptr f p s))
     (g_emit_timer (set_timer_ptr f p s)) (g_hello_timer (set_timer_ptr f p s))
     (map ssn_InactivityTimer (g_sessions (set_timer_ptr f p s))) =
   (ptr_of (g_block_timer s) (g_charge_timer s) (g_emit_timer s) (g_hello_timer s)
     (map ssn_InactivityTimer (g_sessions s)))(f := p)"
  using assms
  by (cases f) (auto simp: ptr_of_def upd_ssn_def fun_eq_iff map_update split: timer_fn.splits)

lemma g_evq_set_timer_ptr [simp]: "g_evq (set_timer_ptr f p s) = g_evq s"
  by (cases f) (simp_all add: upd_ssn_def)

lemma tm_okD: "tm_ok q p \<Longrightarrow> pending_fn q i = Some f \<longleftrightarrow> p f = Some i"
  by (simp add: tm_ok_def)

lemma tm_ok_evq: "tm_ok q p \<Longrightarrow> evq_ok q"
  by (simp add: tm_ok_def)

lemma tm_ok_remove:
  assumes "tm_ok q p" "p f = Some e" "evq_ok q'" "\<And>i. pending_fn q' i = ((pending_fn q)(e := None)) i"
  shows "tm_ok q' (p(f := None))"
proof -
  have e: "pending_fn q e = Some f" using tm_okD [OF assms(1)] assms(2) by simp
  have "pending_fn q' i = Some g \<longleftrightarrow> (p(f := None)) g = Some i" for g i
    using tm_okD [OF assms(1), of i g] tm_okD [OF assms(1), of e g] e assms(2)
    unfolding assms(4) by auto
  then show ?thesis using assms(3) by (simp add: tm_ok_def)
qed

lemma tm_ok_cancel:
  assumes "tm_ok q p" "p f = Some e"
  shows "tm_ok (snd (event_cancel e q)) (p(f := None))"
  using assms
  by (rule tm_ok_remove)
    (use tm_ok_evq [OF assms(1)] in \<open>simp_all add: pending_fn_def evq_ok_cancel pending_cancel\<close>)

lemma tm_ok_add:
  assumes "tm_ok q p" "p f = None"
  shows "tm_ok (snd (event_add t f q)) (p(f \<mapsto> fst (event_add t f q)))"
proof -
  let ?e = "fst (event_add t f q)"
  note ok = tm_ok_evq [OF assms(1)]
  have fresh: "pending_fn q ?e = None"
    using ok by (auto simp: pending_fn_def pending_None_iff evq_ok_def event_add_def Let_def)
  have new: "pending_fn (snd (event_add t f q)) = (pending_fn q)(?e \<mapsto> f)"
    by (auto simp: pending_fn_def pending_add [OF ok])
  have "pending_fn (snd (event_add t f q)) i = Some g \<longleftrightarrow> (p(f \<mapsto> ?e)) g = Some i" for g i
    using tm_okD [OF assms(1), of i g] tm_okD [OF assms(1), of ?e g] fresh assms(2)
    unfolding new by auto
  then show ?thesis using evq_ok_add [OF ok] by (simp add: tm_ok_def)
qed

lemma tm_ok_pop:
  assumes "tm_ok q p" "event_pop_due now q = Some (e, q')"
  shows "p (ev_function e) = Some (ev_id e)" "tm_ok q' (p(ev_function e := None))"
proof -
  note ok = tm_ok_evq [OF assms(1)]
  note pop = pending_pop [OF ok assms(2)]
  have "pending_fn q (ev_id e) = Some (ev_function e)" by (simp add: pending_fn_def pop(1))
  then show p: "p (ev_function e) = Some (ev_id e)" using tm_okD [OF assms(1)] by simp
  show "tm_ok q' (p(ev_function e := None))"
    by (rule tm_ok_remove [OF assms(1) p])
      (use evq_ok_pop [OF ok assms(2)] in \<open>simp_all add: pending_fn_def pop(2)\<close>)
qed

lemma set_timer_ptr_id: "timer_ptr f s = p \<Longrightarrow> fn_ok f s \<Longrightarrow> set_timer_ptr f p s = s"
  by (cases f) (auto simp: upd_ssn_def)

lemma CANCEL_spec:
  assumes "timers_ok s" "fn_ok f s"
  obtains q where "CANCEL f s = set_timer_ptr f None (s\<lparr>g_evq := q\<rparr>)"
    "timers_ok (set_timer_ptr f None (s\<lparr>g_evq := q\<rparr>))"
proof (cases "timer_ptr f s")
  case None
  have id: "set_timer_ptr f None (s\<lparr>g_evq := g_evq s\<rparr>) = s"
    using set_timer_ptr_id [OF None assms(2)] by simp
  show thesis
  proof (rule that [of "g_evq s"])
    show "CANCEL f s = set_timer_ptr f None (s\<lparr>g_evq := g_evq s\<rparr>)" using None id by (simp add: CANCEL_def)
    show "timers_ok (set_timer_ptr f None (s\<lparr>g_evq := g_evq s\<rparr>))" unfolding id by (rule assms(1))
  qed
next
  case (Some e)
  let ?q = "snd (event_cancel e (g_evq s))"
  have fn: "fn_ok f (s\<lparr>g_evq := ?q\<rparr>)" using assms(2) by (cases f) auto
  have "timers_ok (set_timer_ptr f None (s\<lparr>g_evq := ?q\<rparr>))"
    unfolding ptr_of_set_timer_ptr [OF fn]
    using tm_ok_cancel [OF assms(1)] Some by (simp add: timer_ptr_eq)
  with Some show thesis by (intro that [of ?q]) (simp_all add: CANCEL_def)
qed

lemma start_timer_spec:
  assumes "timers_ok s" "fn_ok f s" "timer_ptr f s = None"
  obtains q e where
    "start_timer f ms s = set_timer_ptr f (Some e) (s\<lparr>os_calls := Suc (os_calls s), g_evq := q\<rparr>)"
    "timers_ok (set_timer_ptr f (Some e) (s\<lparr>os_calls := Suc (os_calls s), g_evq := q\<rparr>))"
proof -
  let ?a = "event_add (timeval_add_ms (os_time s (os_calls s)) ms) f (g_evq s)"
  let ?s = "s\<lparr>os_calls := Suc (os_calls s), g_evq := snd ?a\<rparr>"
  have fn: "fn_ok f ?s" using assms(2) by (cases f) auto
  have "timers_ok (set_timer_ptr f (Some (fst ?a)) ?s)"
    unfolding ptr_of_set_timer_ptr [OF fn]
    using tm_ok_add [OF assms(1)] assms(3) by (simp add: timer_ptr_eq)
  then show thesis
    by (intro that [of "fst ?a" "snd ?a"])
      (simp_all add: start_timer_def gettimeofday_def case_prod_unfold Let_def)
qed

lemma timer_ptr_set: "fn_ok f s \<Longrightarrow> timer_ptr f (set_timer_ptr f p s) = p"
  by (cases f) (simp_all add: upd_ssn_def)

lemma set_timer_ptr_again:
  "fn_ok f s \<Longrightarrow> set_timer_ptr f p ((set_timer_ptr f p' (s\<lparr>g_evq := q'\<rparr>))\<lparr>g_evq := q\<rparr>) =
   set_timer_ptr f p (s\<lparr>g_evq := q\<rparr>)"
  by (cases f) (simp_all add: upd_ssn_def)

lemma restart_timer_spec:
  assumes "timers_ok s" "fn_ok f s"
  obtains q e where
    "restart_timer f ms s = set_timer_ptr f (Some e) (s\<lparr>os_calls := Suc (os_calls s), g_evq := q\<rparr>)"
    "timers_ok (set_timer_ptr f (Some e) (s\<lparr>os_calls := Suc (os_calls s), g_evq := q\<rparr>))"
proof -
  let ?s1 = "s\<lparr>os_calls := Suc (os_calls s)\<rparr>"
  have fn: "fn_ok f ?s1" using assms(2) by (cases f) auto
  obtain q where q: "CANCEL f ?s1 = set_timer_ptr f None (?s1\<lparr>g_evq := q\<rparr>)"
    "timers_ok (set_timer_ptr f None (?s1\<lparr>g_evq := q\<rparr>))"
    by (rule CANCEL_spec [of ?s1 f]) (use assms fn in simp_all)
  let ?s2 = "set_timer_ptr f None (?s1\<lparr>g_evq := q\<rparr>)"
  let ?a = "event_add (timeval_add_ms (os_time s (os_calls s)) ms) f q"
  let ?s3 = "s\<lparr>os_calls := Suc (os_calls s), g_evq := snd ?a\<rparr>"
  have fn2: "fn_ok f (?s1\<lparr>g_evq := q\<rparr>)" and fn3: "fn_ok f ?s3" using assms(2) by (cases f; auto)+
  let ?p = "ptr_of (g_block_timer s) (g_charge_timer s) (g_emit_timer s) (g_hello_timer s)
      (map ssn_InactivityTimer (g_sessions s))"
  have "tm_ok q (?p(f := None))"
    using q(2) unfolding ptr_of_set_timer_ptr [OF fn2] by simp
  from tm_ok_add [OF this, of f "timeval_add_ms (os_time s (os_calls s)) ms"]
  have "tm_ok (snd ?a) (?p(f \<mapsto> fst ?a))" by (simp only: fun_upd_upd fun_upd_same)
  then have "timers_ok (set_timer_ptr f (Some (fst ?a)) ?s3)"
    unfolding ptr_of_set_timer_ptr [OF fn3] by simp
  then show thesis
    by (intro that [of "fst ?a" "snd ?a"])
      (simp_all add: restart_timer_def gettimeofday_def q(1) case_prod_unfold Let_def
        set_timer_ptr_again fn)
qed

section \<open>The invariant\<close>

text \<open>
  The invariant is a conjunction of predicates over single variables. While an event is being
  processed parts of it do not hold: \<open>xn\<close> is a session that has been allocated and is still Nascent,
  \<open>xq\<close> one whose arrival smE has not seen, \<open>xt\<close> the session that has been reset while smT still refers
  to it, \<open>xb\<close> and \<open>xe\<close> say that the block timer and the emit timer have just fired.
\<close>

definition sess_ok :: "session \<Rightarrow> bool" where
  "sess_ok x \<longleftrightarrow> (if ssn_is_valid x then ssn_state x \<noteq> smS_Nascent
                else ssn_state x = smS_Nascent \<and> ssn_InactivityTimer x = None)"

definition sess_inv :: "nat option \<Rightarrow> session list \<Rightarrow> bool" where
  "sess_inv xn ss \<longleftrightarrow> length ss = MAX_NUM_SESSIONS
     \<and> (\<forall>i < MAX_NUM_SESSIONS. length (ssn_mapper_real (ss ! i)) = 6
          \<and> length (ssn_mapper_current (ss ! i)) = 6
          \<and> (if xn = Some i then ssn_is_valid (ss ! i) \<and> ssn_state (ss ! i) = smS_Nascent
                \<and> ssn_InactivityTimer (ss ! i) = None
             else sess_ok (ss ! i)))"

definition topo_inv :: "nat option \<Rightarrow> nat option \<Rightarrow> session list \<Rightarrow> bool" where
  "topo_inv xt topo ss \<longleftrightarrow> (\<forall>t. topo = Some t \<longrightarrow> t < MAX_NUM_SESSIONS \<and>
     (xt \<noteq> Some t \<longrightarrow> ssn_is_valid (ss ! t) \<and> ssn_state (ss ! t) \<in> {smS_Pending, smS_Complete}))"

definition enum_inv ::
    "bool \<Rightarrow> nat option \<Rightarrow> smE_state \<Rightarrow> nat option \<Rightarrow> nat option \<Rightarrow> session list \<Rightarrow> bool" where
  "enum_inv xb xq st block hello ss \<longleftrightarrow>
     (st = smE_Pausing \<longrightarrow> xb \<or> block \<noteq> None)
     \<and> (st \<noteq> smE_Pausing \<longrightarrow> block = None \<and> hello = None)
     \<and> (st = smE_Quiescent \<longrightarrow>
          (\<forall>i < MAX_NUM_SESSIONS. xq \<noteq> Some i \<longrightarrow> \<not> ssn_is_valid (ss ! i)))"

definition emit_inv ::
    "bool \<Rightarrow> smT_state \<Rightarrow> nat option \<Rightarrow> u16 \<Rightarrow> nat option \<Rightarrow> nat \<Rightarrow> bool" where
  "emit_inv xe st topo remaining emit desc \<longleftrightarrow>
     (if st = smT_Emit
      then remaining \<noteq> 0 \<and> (emit = None \<longleftrightarrow> xe) \<and> desc + 14 * unat remaining \<le> RXBUFSZ
      else remaining = 0 \<and> emit = None)
     \<and> (topo = None \<longrightarrow> st = smT_Quiescent)"

definition buf_inv :: "u8 list \<Rightarrow> u8 list \<Rightarrow> u8 list \<Rightarrow> u8 list \<Rightarrow> nat \<Rightarrow> bool" where
  "buf_inv hw rx tx re re_len \<longleftrightarrow> length hw = 6 \<and> length rx = RXBUFSZ \<and> length tx = TXBUFSZ
     \<and> length re = TXBUFSZ \<and> re_len \<le> TOPO_MAX_FRAMESZ"

definition desc_ok :: "recvee_desc \<Rightarrow> bool" where
  "desc_ok d \<longleftrightarrow> length (rd_realsrc d) = 6 \<and> length (rd_src d) = 6 \<and> length (rd_dst d) = 6"

definition sees_inv :: "recvee_desc seeslist \<Rightarrow> bool" where
  "sees_inv sl \<longleftrightarrow> sl_ok sl \<and> sl_count sl = NUM_SEES \<and> list_all desc_ok (sl_data sl)"

definition tlv_inv :: "(nat \<Rightarrow> tlv_data) \<Rightarrow> tlv_desc list \<Rightarrow> bool" where
  "tlv_inv info tlvs \<longleftrightarrow> info_ok info \<and> (\<forall>t \<in> set tlvs. tlv_number t = 19 \<longrightarrow> \<not> tlv_inHello t)"

definition os_inv ::
    "(nat \<Rightarrow> nat \<Rightarrow> tlv_data option) \<Rightarrow> (u8 list \<Rightarrow> bool) \<Rightarrow> bool" where
  "os_inv get wr \<longleftrightarrow> (\<forall>k. get_ok (get k)) \<and> (\<forall>bs. wr bs)"

definition ssn_inv :: "nat option \<Rightarrow> bool" where
  "ssn_inv ssn \<longleftrightarrow> (\<forall>i. ssn = Some i \<longrightarrow> i < MAX_NUM_SESSIONS)"

definition lltd_inv ::
    "bool \<Rightarrow> bool \<Rightarrow> nat option \<Rightarrow> nat option \<Rightarrow> nat option \<Rightarrow> lltd \<Rightarrow> bool" where
  "lltd_inv xb xe xt xq xn s \<longleftrightarrow>
     timers_ok s
     \<and> sess_inv xn (g_sessions s)
     \<and> topo_inv xt (g_topo_session s) (g_sessions s)
     \<and> enum_inv xb xq (g_smE_state s) (g_block_timer s) (g_hello_timer s) (g_sessions s)
     \<and> emit_inv xe (g_smT_state s) (g_topo_session s) (g_emit_remaining s) (g_emit_timer s)
         (g_emitdesc s)
     \<and> length (g_emitbuf s) = RXBUFSZ
     \<and> buf_inv (g_hwaddr s) (g_rxbuf s) (g_txbuf s) (g_re_txbuf s) (g_re_tx_len s)
     \<and> sees_inv (g_sees s) \<and> tlv_inv (g_info s) (g_Tlvs s) \<and> os_inv (os_get s) (os_write_ok s)
     \<and> ssn_inv (ev_ssn (g_this_event s))"

abbreviation lltd_ok :: "lltd \<Rightarrow> bool" where
  "lltd_ok s \<equiv> lltd_inv False False None None None s"

lemma lltd_ok_init:
  assumes "length hw = 6" "info_ok info" "\<And>k. get_ok (get k)" "\<And>bs. wr bs" "\<And>i. desc_ok (junk i)"
  shows "lltd_ok (lltd_init hw info time rand get wr junk)"
proof -
  have "pending_fn (evq_empty :: timer_fn evq) i = None" for i
    by (simp add: pending_fn_def pending_def evq_empty_def)
  moreover have "ptr_of None None None None (map ssn_InactivityTimer (replicate n empty_session)) f
      = None" for n f
    by (auto simp: ptr_of_def empty_session_def split: timer_fn.splits)
  ultimately have "tm_ok evq_empty
      (ptr_of None None None None (map ssn_InactivityTimer (replicate n empty_session)))" for n
    by (simp add: tm_ok_def)
  moreover have "sees_inv (seeslist_new junk NUM_SEES)"
    using sl_new [of NUM_SEES junk] assms(5)
    by (simp add: sees_inv_def seeslist_new_def NUM_SEES_def list_all_iff)
  moreover have "tlv_inv info Tlvs" using assms(2) by (simp add: tlv_inv_def Tlvs_def)
  moreover have "sess_inv None (replicate MAX_NUM_SESSIONS empty_session)"
    by (simp add: sess_inv_def sess_ok_def empty_session_def)
  moreover have "enum_inv False None smE_Quiescent None None
      (replicate MAX_NUM_SESSIONS empty_session)"
    by (simp add: enum_inv_def empty_session_def)
  ultimately show ?thesis
    using assms by (simp add: lltd_inv_def lltd_init_def topo_inv_def emit_inv_def buf_inv_def
        os_inv_def ssn_inv_def)
qed

end
