(* ===== verification/Lltd_Packetio_Tx.thy ===== *)
theory Lltd_Packetio_Tx
  imports Lltd_Globals
begin

text \<open>
  The senders of \<open>ms-lltd/packetio.c\<close>: headers are written into \<open>g_txbuf\<close> at their offsets, and
  \<open>tx_sendpacket\<close> writes the first bytes of the buffer to the socket and keeps a copy of a sequenced
  answer for retransmission. \<^term>\<open>None\<close> is \<open>die\<close>, a failed assertion or a null pointer read.
\<close>

definition packetio_invalidate_retxbuf :: "lltd \<Rightarrow> lltd" where
  "packetio_invalidate_retxbuf s =
     s\<lparr>g_re_tx_opcode := Opcode_INVALID, g_rtxseqnum := 0, g_re_tx_len := 0\<rparr>"

text \<open>The byte at offset 16, reserved, is not written.\<close>

definition fmt_base ::
    "u8 list \<Rightarrow> u8 list \<Rightarrow> u8 list \<Rightarrow> u8 \<Rightarrow> u8 \<Rightarrow> u16 \<Rightarrow> bool \<Rightarrow> u8 list" where
  "fmt_base buf srchw dsthw tos opcode seqnum use_broadcast =
     (let b1 = buf_write buf 6 srchw;
          b2 = buf_write b1 0 (if use_broadcast then Etheraddr_broadcast else dsthw);
          b3 = buf_write b2 12 (bytes16 0x88D9 @ [1, tos])
      in buf_write b3 17 (opcode # dsthw @ srchw @ bytes16 seqnum))"

definition tx_write :: "u8 list \<Rightarrow> lltd \<Rightarrow> lltd option" where
  "tx_write bytes s =
     (if os_write_ok s bytes then Some (s\<lparr>os_out := os_out s @ [bytes]\<rparr>) else None)"

definition tx_sendpacket :: "nat \<Rightarrow> u16 \<Rightarrow> lltd \<Rightarrow> lltd option" where
  "tx_sendpacket nbytes thisSeqNum s =
     do { s1 \<leftarrow> tx_write (take nbytes (g_txbuf s)) s;
          Some (let s2 = s1\<lparr>g_tx_len := nbytes\<rparr>
            in if thisSeqNum \<noteq> 0
               then s2\<lparr>g_re_txbuf := buf_write (g_re_txbuf s2) 0 (take nbytes (g_txbuf s2)),
                       g_rtxseqnum := thisSeqNum, g_re_tx_len := nbytes,
                       g_re_tx_opcode := g_opcode s2\<rparr>
               else s2) }"

definition tx_rtxpacket :: "lltd \<Rightarrow> lltd option" where
  "tx_rtxpacket s =
     (if g_rtxseqnum s = 0 then None else tx_write (take (g_re_tx_len s) (g_re_txbuf s)) s)"

definition packetio_tx_hello :: "lltd \<Rightarrow> lltd option" where
  "packetio_tx_hello s =
     (let b1 = fmt_base (g_txbuf s) (g_hwaddr s) Etheraddr_broadcast ToS_TopologyDiscovery
                 Opcode_Hello 0 True;
          mappers = (case g_topo_session s of
              Some i \<Rightarrow> if ssn_is_valid (ssn_at s i)
                       then ssn_mapper_real (ssn_at s i) @ ssn_mapper_current (ssn_at s i)
                       else replicate 12 0
            | None \<Rightarrow> replicate 12 0);
          b2 = buf_write b1 32 (bytes16 (g_generation s) @ mappers)
      in do {
        (bs, tlvs, info) \<leftarrow> tlv_write_info (os_get s (os_calls s)) (g_Tlvs s) (g_info s)
                             (int TOPO_MAX_FRAMESZ - 46 - 1);
        let nbytes = 46 + length bs;
        tx_sendpacket (nbytes + 1) 0
          (s\<lparr>g_txbuf := buf_write b2 46 (bs @ [0]), g_Tlvs := tlvs, g_info := info,
             os_calls := Suc (os_calls s)\<rparr>) })"

definition recvee_bytes :: "recvee_desc \<Rightarrow> u8 list" where
  "recvee_bytes d = bytes16 (rd_type d) @ rd_realsrc d @ rd_src d @ rd_dst d"

function queryresp_fill ::
    "nat \<Rightarrow> recvee_desc seeslist \<Rightarrow> recvee_desc list \<times> recvee_desc seeslist" where
  "queryresp_fill bytes_left sl =
     (if bytes_left < 20 then ([], sl)
      else case seeslist_dequeue sl of
          None \<Rightarrow> ([], sl)
        | Some (d, sl') \<Rightarrow> (let (ds, sl'') = queryresp_fill (bytes_left - 20) sl' in (d # ds, sl'')))"
  by pat_completeness auto
termination
  by (relation "measure fst") auto

declare queryresp_fill.simps [simp del]

definition packetio_tx_queryresp :: "lltd \<Rightarrow> lltd option" where
  "packetio_tx_queryresp s =
     do { i \<leftarrow> g_topo_session s;
          let b1 = fmt_base (g_txbuf s) (g_hwaddr s) (ssn_mapper_real (ssn_at s i))
                     ToS_TopologyDiscovery Opcode_QueryResp (g_sequencenum s) False;
              (ds, sl) = queryresp_fill (TOPO_MAX_FRAMESZ - 34) (g_sees s);
              numdescs = (if seeslist_is_empty sl then word_of_nat (length ds)
                          else word_of_nat (length ds) OR 0x8000 :: u16);
              body = bytes16 numdescs @ concat (map recvee_bytes ds);
              nbytes = 34 + 20 * length ds
          in tx_sendpacket nbytes (g_sequencenum s)
               (s\<lparr>g_txbuf := buf_write b1 32 body, g_sees := sl\<rparr>) }"

definition packetio_tx_flat :: "lltd \<Rightarrow> lltd option" where
  "packetio_tx_flat s =
     do { i \<leftarrow> g_topo_session s;
          let b1 = fmt_base (g_txbuf s) (g_hwaddr s) (ssn_mapper_real (ssn_at s i))
                     ToS_TopologyDiscovery Opcode_Flat (g_sequencenum s) False;
              body = bytes32 (g_ctc_bytes s) @ bytes16 (ucast (g_ctc_packets s))
          in tx_sendpacket 38 (g_sequencenum s) (s\<lparr>g_txbuf := buf_write b1 32 body\<rparr>) }"

text \<open>The descriptor is read at offset \<open>ed\<close> of the emit buffer.\<close>

definition packetio_tx_emitee :: "nat \<Rightarrow> lltd \<Rightarrow> lltd option" where
  "packetio_tx_emitee ed s =
     do { ty \<leftarrow> rd8 (g_emitbuf s) ed;
          if ed + 14 > length (g_emitbuf s) then None
          else
          let opcode = (if ty = 0 then Opcode_Train else Opcode_Probe);
              src = sub_buf (g_emitbuf s) (ed + 2) 6;
              dst = sub_buf (g_emitbuf s) (ed + 8) 6;
              b1 = buf_write (g_txbuf s) 6 src;
              b2 = buf_write b1 0 dst;
              b3 = buf_write b2 12 (bytes16 0x88D9 @ [1, ToS_TopologyDiscovery]);
              b4 = buf_write b3 17 (opcode # dst @ g_hwaddr s @ bytes16 0)
          in tx_sendpacket 32 0 (s\<lparr>g_txbuf := b4\<rparr>) }"

definition packetio_tx_ack :: "u16 \<Rightarrow> lltd \<Rightarrow> lltd option" where
  "packetio_tx_ack thisSeqNum s =
     do { i \<leftarrow> g_topo_session s;
          tx_sendpacket 32 thisSeqNum
            (s\<lparr>g_txbuf := fmt_base (g_txbuf s) (g_hwaddr s) (ssn_mapper_real (ssn_at s i))
                 ToS_TopologyDiscovery Opcode_ACK thisSeqNum False\<rparr>) }"

text \<open>The attribute is given by its position in the table.\<close>

definition packetio_tx_qltlvResp :: "u16 \<Rightarrow> nat \<Rightarrow> nat \<Rightarrow> lltd \<Rightarrow> lltd option" where
  "packetio_tx_qltlvResp thisSeqNum k LtlvOffset s =
     (case g_topo_session s of
        None \<Rightarrow> Some s
      | Some i \<Rightarrow>
          let b1 = fmt_base (g_txbuf s) (g_hwaddr s) (ssn_mapper_real (ssn_at s i))
                     ToS_TopologyDiscovery Opcode_QueryLargeTlvResp thisSeqNum False
          in do {
            (bs, tlv, info) \<leftarrow> tlv_write_tlv (os_get s (os_calls s)) (g_Tlvs s ! k) (g_info s)
                               (int TOPO_MAX_FRAMESZ - 32) False LtlvOffset;
            let bs' = (if bs = [] then [0, 0] else bs);
            tx_sendpacket (32 + length bs') thisSeqNum
              (s\<lparr>g_txbuf := buf_write b1 32 bs', g_Tlvs := (g_Tlvs s)[k := tlv], g_info := info,
                 os_calls := Suc (os_calls s)\<rparr>) })"

section \<open>What a sender changes\<close>

text \<open>Only the transmit buffers, the sees list and the attribute store change when a frame is sent.\<close>

definition tx_same :: "lltd \<Rightarrow> lltd \<Rightarrow> bool" where
  "tx_same s s' \<longleftrightarrow>
     g_hwaddr s' = g_hwaddr s
     \<and> g_smE_state s' = g_smE_state s
     \<and> g_smT_state s' = g_smT_state s
     \<and> g_this_event s' = g_this_event s
     \<and> g_sessions s' = g_sessions s
     \<and> g_topo_session s' = g_topo_session s
     \<and> g_band s' = g_band s
     \<and> g_rxbuf s' = g_rxbuf s
     \<and> g_rcvd_pkt_len s' = g_rcvd_pkt_len s
     \<and> g_generation s' = g_generation s
     \<and> g_sequencenum s' = g_sequencenum s
     \<and> g_opcode s' = g_opcode s
     \<and> g_ctc_packets s' = g_ctc_packets s
     \<and> g_ctc_bytes s' = g_ctc_bytes s
     \<and> g_totalPause s' = g_totalPause s
     \<and> g_neededPackets s' = g_neededPackets s
     \<and> g_neededBytes s' = g_neededBytes s
     \<and> g_emitbuf s' = g_emitbuf s
     \<and> g_emit_remaining s' = g_emit_remaining s
     \<and> g_emit_seqnum s' = g_emit_seqnum s
     \<and> g_emitdesc s' = g_emitdesc s
     \<and> g_block_timer s' = g_block_timer s
     \<and> g_charge_timer s' = g_charge_timer s
     \<and> g_emit_timer s' = g_emit_timer s
     \<and> g_hello_timer s' = g_hello_timer s
     \<and> g_evq s' = g_evq s
     \<and> g_promisc s' = g_promisc s
     \<and> os_time s' = os_time s
     \<and> os_random s' = os_random s
     \<and> os_get s' = os_get s
     \<and> os_write_ok s' = os_write_ok s"

definition tx_inv :: "lltd \<Rightarrow> bool" where
  "tx_inv s \<longleftrightarrow> buf_inv (g_hwaddr s) (g_rxbuf s) (g_txbuf s) (g_re_txbuf s) (g_re_tx_len s)
     \<and> sees_inv (g_sees s) \<and> tlv_inv (g_info s) (g_Tlvs s) \<and> os_inv (os_get s) (os_write_ok s)"

lemma lltd_inv_tx:
  assumes "lltd_inv xb xe xt xq xn s" "tx_same s s'" "tx_inv s'"
  shows "lltd_inv xb xe xt xq xn s'"
  using assms unfolding lltd_inv_def tx_same_def tx_inv_def by simp

lemma lltd_inv_tx_inv: "lltd_inv xb xe xt xq xn s \<Longrightarrow> tx_inv s"
  by (simp add: lltd_inv_def tx_inv_def)

lemma length_fmt_base:
  assumes "length buf = TXBUFSZ" "length src = 6" "length dst = 6"
  shows "length (fmt_base buf src dst tos op q bc) = TXBUFSZ"
proof -
  have "length (if bc then Etheraddr_broadcast else dst) = 6"
    using assms(3) by (simp add: Etheraddr_broadcast_def)
  then show ?thesis using assms unfolding fmt_base_def Let_def
    by (simp add: length_buf_write TXBUFSZ_def)
qed

lemma take_fmt_base:
  assumes "length buf = TXBUFSZ" "length src = 6" "length dst = 6"
  shows "take 32 (fmt_base buf src dst tos op q bc) =
    (if bc then Etheraddr_broadcast else dst) @ src @ [0x88, 0xD9, 1, tos, buf ! 16, op]
      @ dst @ src @ bytes16 q"
proof -
  let ?d = "if bc then Etheraddr_broadcast else dst"
  have d: "length ?d = 6" using assms(3) by (simp add: Etheraddr_broadcast_def)
  have b: "bytes16 0x88D9 = [0x88, 0xD9]" by (simp add: bytes16_def hi8_def lo8_def)
  have b16: "take (Suc 0) (drop 16 buf) = [buf ! 16]"
    using assms(1) by (simp add: TXBUFSZ_def Cons_nth_drop_Suc [symmetric])
  show ?thesis using assms(2,3) d b16
    by (simp add: fmt_base_def Let_def buf_write_def b assms(1) TXBUFSZ_def drop_take)
qed

lemma tx_sendpacket_ok:
  assumes "tx_inv s" "n \<le> TOPO_MAX_FRAMESZ"
  obtains s' where "tx_sendpacket n q s = Some s'" "tx_same s s'" "tx_inv s'" "g_tx_len s' = n"
    "os_out s' = os_out s @ [take n (g_txbuf s)]"
proof -
  have wr: "os_write_ok s (take n (g_txbuf s))" using assms(1) by (simp add: tx_inv_def os_inv_def)
  have len: "length (buf_write (g_re_txbuf s) 0 (take n (g_txbuf s))) = TXBUFSZ"
    using assms by (simp add: tx_inv_def buf_inv_def length_buf_write TXBUFSZ_def TOPO_MAX_FRAMESZ_def)
  show thesis
  proof (cases "q = 0")
    case True
    with wr assms that show thesis
      by (simp add: tx_sendpacket_def tx_write_def tx_same_def tx_inv_def)
  next
    case False
    with wr len assms that show thesis
      by (simp add: tx_sendpacket_def tx_write_def tx_same_def tx_inv_def buf_inv_def)
  qed
qed

text \<open>A sender that prepares the state \<open>t\<close> and then sends.\<close>

lemma tx_prepared:
  assumes "tx_same s t" "tx_inv t" "n \<le> TOPO_MAX_FRAMESZ" "r = tx_sendpacket n q t"
  shows "\<exists>s'. r = Some s' \<and> tx_same s s' \<and> tx_inv s' \<and> g_tx_len s' = n
    \<and> os_out s' = os_out t @ [take n (g_txbuf t)]"
proof -
  obtain s' where "tx_sendpacket n q t = Some s'" "tx_same t s'" "tx_inv s'" "g_tx_len s' = n"
    "os_out s' = os_out t @ [take n (g_txbuf t)]"
    by (rule tx_sendpacket_ok [OF assms(2,3)])
  with assms(1,4) show ?thesis by (simp add: tx_same_def)
qed

lemma tx_inv_txbuf:
  "tx_inv s \<Longrightarrow> length b = TXBUFSZ \<Longrightarrow> tx_inv (s\<lparr>g_txbuf := b\<rparr>)"
  by (simp add: tx_inv_def buf_inv_def)

lemma tx_same_txbuf: "tx_same s (s\<lparr>g_txbuf := b\<rparr>)"
  by (simp add: tx_same_def)

lemma length_buf_write_TXBUFSZ:
  "length b = TXBUFSZ \<Longrightarrow> off + length bs \<le> TXBUFSZ \<Longrightarrow> length (buf_write b off bs) = TXBUFSZ"
  by (simp add: length_buf_write)

definition mappers_ok :: "lltd \<Rightarrow> bool" where
  "mappers_ok s \<longleftrightarrow> (\<forall>t. g_topo_session s = Some t \<longrightarrow>
     length (ssn_mapper_real (ssn_at s t)) = 6 \<and> length (ssn_mapper_current (ssn_at s t)) = 6)"

lemma lltd_inv_mappers: "lltd_inv xb xe xt xq xn s \<Longrightarrow> mappers_ok s"
  by (auto simp: lltd_inv_def mappers_ok_def topo_inv_def sess_inv_def ssn_at_def)

section \<open>The senders return and keep the invariant\<close>

lemma tx_flat_ok:
  assumes "tx_inv s" "mappers_ok s" "g_topo_session s = Some i"
  shows "\<exists>s'. packetio_tx_flat s = Some s' \<and> tx_same s s' \<and> tx_inv s' \<and> g_tx_len s' = 38"
proof -
  have len: "length (fmt_base (g_txbuf s) (g_hwaddr s) (ssn_mapper_real (ssn_at s i))
      ToS_TopologyDiscovery Opcode_Flat (g_sequencenum s) False) = TXBUFSZ"
    using assms by (intro length_fmt_base) (auto simp: tx_inv_def buf_inv_def mappers_ok_def)
  note len2 = length_buf_write_TXBUFSZ [OF len, of 32
      "bytes32 (g_ctc_bytes s) @ bytes16 (ucast (g_ctc_packets s))"]
  show ?thesis
    using tx_prepared [OF tx_same_txbuf tx_inv_txbuf [OF assms(1) len2], of 38 "packetio_tx_flat s"
        "g_sequencenum s"] assms(3)
    by (auto simp: packetio_tx_flat_def TXBUFSZ_def TOPO_MAX_FRAMESZ_def)
qed

lemma tx_ack_ok:
  assumes "tx_inv s" "mappers_ok s" "g_topo_session s = Some i"
  shows "\<exists>s'. packetio_tx_ack q s = Some s' \<and> tx_same s s' \<and> tx_inv s' \<and> g_tx_len s' = 32"
proof -
  have len: "length (fmt_base (g_txbuf s) (g_hwaddr s) (ssn_mapper_real (ssn_at s i))
      ToS_TopologyDiscovery Opcode_ACK q False) = TXBUFSZ"
    using assms by (intro length_fmt_base) (auto simp: tx_inv_def buf_inv_def mappers_ok_def)
  show ?thesis
    using tx_prepared [OF tx_same_txbuf tx_inv_txbuf [OF assms(1) len], of 32 "packetio_tx_ack q s" q]
      assms(3)
    by (auto simp: packetio_tx_ack_def TOPO_MAX_FRAMESZ_def)
qed

lemma tx_emitee_ok:
  assumes "tx_inv s" "length (g_emitbuf s) = RXBUFSZ" "ed + 14 \<le> RXBUFSZ"
  shows "\<exists>s'. packetio_tx_emitee ed s = Some s' \<and> tx_same s s' \<and> tx_inv s' \<and> g_tx_len s' = 32"
proof -
  let ?dst = "sub_buf (g_emitbuf s) (ed + 8) 6"
  let ?op = "if g_emitbuf s ! ed = 0 then Opcode_Train else Opcode_Probe"
  let ?b = "buf_write (buf_write (buf_write (buf_write (g_txbuf s) 6 (sub_buf (g_emitbuf s) (ed + 2) 6))
      0 ?dst) 12 (bytes16 0x88D9 @ [1, ToS_TopologyDiscovery]))
      17 (?op # ?dst @ g_hwaddr s @ bytes16 0)"
  have l: "length ?dst = 6" "length (sub_buf (g_emitbuf s) (ed + 2) 6) = 6" "length (g_hwaddr s) = 6"
    "length (g_txbuf s) = TXBUFSZ"
    using assms by (simp_all add: length_sub_buf tx_inv_def buf_inv_def)
  have len: "length ?b = TXBUFSZ" using l by (simp add: length_buf_write TXBUFSZ_def)
  have "packetio_tx_emitee ed s = tx_sendpacket 32 0 (s\<lparr>g_txbuf := ?b\<rparr>)"
    using assms by (simp add: packetio_tx_emitee_def rd8_def Let_def)
  from tx_prepared [OF tx_same_txbuf tx_inv_txbuf [OF assms(1) len] _ this]
  show ?thesis by (auto simp: TOPO_MAX_FRAMESZ_def)
qed

lemma mappers_length:
  assumes "mappers_ok s"
  shows "length (case g_topo_session s of
      Some i \<Rightarrow> if ssn_is_valid (ssn_at s i)
               then ssn_mapper_real (ssn_at s i) @ ssn_mapper_current (ssn_at s i)
               else replicate 12 0
    | None \<Rightarrow> replicate 12 0) = 12"
  using assms by (auto simp: mappers_ok_def split: option.splits)

lemma tx_hello_ok:
  assumes "tx_inv s" "mappers_ok s"
  shows "\<exists>s' bs. packetio_tx_hello s = Some s' \<and> tx_same s s' \<and> tx_inv s'
    \<and> os_out s' = os_out s @ [bs] \<and> length bs \<le> TOPO_MAX_FRAMESZ \<and> 47 \<le> length bs"
proof -
  let ?m = "case g_topo_session s of
      Some i \<Rightarrow> if ssn_is_valid (ssn_at s i)
               then ssn_mapper_real (ssn_at s i) @ ssn_mapper_current (ssn_at s i)
               else replicate 12 0
    | None \<Rightarrow> replicate 12 0"
  let ?b1 = "fmt_base (g_txbuf s) (g_hwaddr s) Etheraddr_broadcast ToS_TopologyDiscovery
      Opcode_Hello 0 True"
  let ?b2 = "buf_write ?b1 32 (bytes16 (g_generation s) @ ?m)"
  have i: "info_ok (g_info s)" "get_ok (os_get s (os_calls s))"
    "\<forall>t \<in> set (g_Tlvs s). tlv_number t = 19 \<longrightarrow> \<not> tlv_inHello t"
    using assms(1) by (simp_all add: tx_inv_def tlv_inv_def os_inv_def)
  obtain bs tlvs info where w:
    "tlv_write_info (os_get s (os_calls s)) (g_Tlvs s) (g_info s) 1467 = Some (bs, tlvs, info)"
    "tlv_inv info tlvs" "length bs \<le> 1467"
    using tlv_write_info_spec [OF i(1,2) _ i(3), of 1467] by (auto simp: tlv_inv_def)
  have "length ?b1 = TXBUFSZ" using assms(1)
    by (intro length_fmt_base) (auto simp: tx_inv_def buf_inv_def Etheraddr_broadcast_def)
  then have b2: "length ?b2 = TXBUFSZ"
    by (rule length_buf_write_TXBUFSZ) (simp add: mappers_length [OF assms(2)] TXBUFSZ_def)
  have b3: "length (buf_write ?b2 46 (bs @ [0])) = TXBUFSZ"
    by (rule length_buf_write_TXBUFSZ [OF b2]) (use w(3) in \<open>simp add: TXBUFSZ_def\<close>)
  let ?t = "s\<lparr>g_txbuf := buf_write ?b2 46 (bs @ [0]), g_Tlvs := tlvs, g_info := info,
      os_calls := Suc (os_calls s)\<rparr>"
  have inv: "tx_inv ?t" using assms(1) w(2) b3 by (simp add: tx_inv_def buf_inv_def)
  have same: "tx_same s ?t" by (simp add: tx_same_def)
  have eq: "packetio_tx_hello s = tx_sendpacket (47 + length bs) 0 ?t"
    using w(1) by (simp add: packetio_tx_hello_def Let_def TOPO_MAX_FRAMESZ_def)
  from tx_prepared [OF same inv _ eq] w(3) b3 show ?thesis
    by (auto simp: TOPO_MAX_FRAMESZ_def TXBUFSZ_def)
qed

lemma seeslist_dequeue_inv:
  "sees_inv sl \<Longrightarrow> seeslist_dequeue sl = Some (d, sl') \<Longrightarrow> sees_inv sl' \<and> desc_ok d"
  using sl_ok_dequeue [of sl d sl']
  by (auto simp: sees_inv_def seeslist_dequeue_def list_all_length sl_ok_def split: if_splits)

lemma queryresp_fill_spec:
  "sees_inv sl \<Longrightarrow> queryresp_fill left sl = (ds, sl') \<Longrightarrow>
   sees_inv sl' \<and> list_all desc_ok ds \<and> 20 * length ds \<le> left
   \<and> sl_contents sl = ds @ sl_contents sl' \<and> (left < 20 + 20 * length ds \<or> sl_contents sl' = [])"
proof (induction left sl arbitrary: ds sl' rule: queryresp_fill.induct)
  case (1 left sl)
  show ?case
  proof (cases "left < 20 \<or> seeslist_dequeue sl = None")
    case True
    then have "ds = []" "sl' = sl"
      using 1(3) by (auto simp: queryresp_fill.simps [of left sl] split: if_splits)
    with True 1(2) show ?thesis by (auto simp: sees_inv_def sl_dequeue_None)
  next
    case False
    then obtain d sl1 where d: "seeslist_dequeue sl = Some (d, sl1)" by auto
    obtain ds1 sl2 where r: "queryresp_fill (left - 20) sl1 = (ds1, sl2)" by fastforce
    have eq: "ds = d # ds1" "sl' = sl2"
      using 1(3) False d r by (simp_all add: queryresp_fill.simps [of left sl])
    note inv = seeslist_dequeue_inv [OF 1(2) d]
    have "sl_contents sl = d # sl_contents sl1"
      using sl_contents_dequeue [OF _ d] 1(2) by (simp add: sees_inv_def)
    with 1(1) [OF _ d refl conjunct1 [OF inv] r] False inv show ?thesis unfolding eq by auto
  qed
qed

lemma length_recvee_bytes: "desc_ok d \<Longrightarrow> length (recvee_bytes d) = 20"
  by (simp add: desc_ok_def recvee_bytes_def)

lemma tx_queryresp_ok:
  assumes "tx_inv s" "mappers_ok s" "g_topo_session s = Some i"
  shows "\<exists>s'. packetio_tx_queryresp s = Some s' \<and> tx_same s s' \<and> tx_inv s'"
proof -
  let ?b1 = "fmt_base (g_txbuf s) (g_hwaddr s) (ssn_mapper_real (ssn_at s i))
      ToS_TopologyDiscovery Opcode_QueryResp (g_sequencenum s) False"
  obtain ds sl where f: "queryresp_fill 1480 (g_sees s) = (ds, sl)" by fastforce
  have q: "sees_inv sl" "list_all desc_ok ds" "20 * length ds \<le> 1480"
    using queryresp_fill_spec [OF _ f] assms(1) by (auto simp: tx_inv_def)
  define numdescs :: u16 where "numdescs = (if seeslist_is_empty sl then word_of_nat (length ds)
      else word_of_nat (length ds) OR 0x8000)"
  define body where "body = bytes16 numdescs @ concat (map recvee_bytes ds)"
  have "list_all (\<lambda>d. length (recvee_bytes d) = 20) ds"
    using q(2) by (auto simp: list_all_iff length_recvee_bytes)
  from length_concat_fixed [OF this] have body: "length body = 2 + 20 * length ds"
    by (simp add: body_def)
  have "length ?b1 = TXBUFSZ" using assms
    by (intro length_fmt_base) (auto simp: tx_inv_def buf_inv_def mappers_ok_def)
  then have len: "length (buf_write ?b1 32 body) = TXBUFSZ"
    by (rule length_buf_write_TXBUFSZ) (use q(3) body in \<open>simp add: TXBUFSZ_def\<close>)
  let ?t = "s\<lparr>g_txbuf := buf_write ?b1 32 body, g_sees := sl\<rparr>"
  have inv: "tx_inv ?t" using assms(1) q(1) len by (simp add: tx_inv_def buf_inv_def)
  have same: "tx_same s ?t" by (simp add: tx_same_def)
  have eq: "packetio_tx_queryresp s = tx_sendpacket (34 + 20 * length ds) (g_sequencenum s) ?t"
    using assms(3) f
    by (simp add: packetio_tx_queryresp_def Let_def TOPO_MAX_FRAMESZ_def body_def numdescs_def)
  from tx_prepared [OF same inv _ eq] q(3) show ?thesis by (auto simp: TOPO_MAX_FRAMESZ_def)
qed

lemma tlv_inv_update:
  "tlv_inv info tlvs \<Longrightarrow> info_ok info' \<Longrightarrow> k < length tlvs \<Longrightarrow> tlv_number t = tlv_number (tlvs ! k) \<Longrightarrow>
   tlv_inHello t = tlv_inHello (tlvs ! k) \<Longrightarrow> tlv_inv info' (tlvs[k := t])"
  by (auto simp: tlv_inv_def dest!: set_update_subset_insert [THEN subsetD])

lemma tx_qltlvResp_ok:
  assumes "tx_inv s" "mappers_ok s" "k < length (g_Tlvs s)"
  shows "\<exists>s'. packetio_tx_qltlvResp q k off s = Some s' \<and> tx_same s s' \<and> tx_inv s'"
proof (cases "g_topo_session s")
  case None
  then show ?thesis using assms(1) by (simp add: packetio_tx_qltlvResp_def tx_same_def)
next
  case (Some i)
  let ?b1 = "fmt_base (g_txbuf s) (g_hwaddr s) (ssn_mapper_real (ssn_at s i))
      ToS_TopologyDiscovery Opcode_QueryLargeTlvResp q False"
  have i: "info_ok (g_info s)" "get_ok (os_get s (os_calls s))"
    using assms(1) by (simp_all add: tx_inv_def tlv_inv_def os_inv_def)
  obtain bs tlv info where w:
    "tlv_write_tlv (os_get s (os_calls s)) (g_Tlvs s ! k) (g_info s) 1482 False off
      = Some (bs, tlv, info)" "info_ok info" "tlv_number tlv = tlv_number (g_Tlvs s ! k)"
    "tlv_inHello tlv = tlv_inHello (g_Tlvs s ! k)" "int (length bs) \<le> 1482"
    using tlv_write_tlv_large [OF i, of 1482 "g_Tlvs s ! k" off] by auto
  define bs' where "bs' = (if bs = [] then [0, 0] else bs)"
  have bs': "length bs' \<le> 1482" using w(5) by (simp add: bs'_def)
  have "length ?b1 = TXBUFSZ" using assms Some
    by (intro length_fmt_base) (auto simp: tx_inv_def buf_inv_def mappers_ok_def)
  then have len: "length (buf_write ?b1 32 bs') = TXBUFSZ"
    by (rule length_buf_write_TXBUFSZ) (use bs' in \<open>simp add: TXBUFSZ_def\<close>)
  let ?t = "s\<lparr>g_txbuf := buf_write ?b1 32 bs', g_Tlvs := (g_Tlvs s)[k := tlv], g_info := info,
      os_calls := Suc (os_calls s)\<rparr>"
  have "tlv_inv info ((g_Tlvs s)[k := tlv])"
    using tlv_inv_update [OF _ w(2) assms(3) w(3,4)] assms(1) by (auto simp: tx_inv_def)
  then have inv: "tx_inv ?t" using assms(1) len by (simp add: tx_inv_def buf_inv_def)
  have same: "tx_same s ?t" by (simp add: tx_same_def)
  have eq: "packetio_tx_qltlvResp q k off s = tx_sendpacket (32 + length bs') q ?t"
    using Some w(1) by (simp add: packetio_tx_qltlvResp_def Let_def TOPO_MAX_FRAMESZ_def bs'_def)
  from tx_prepared [OF same inv _ eq] bs' show ?thesis by (auto simp: TOPO_MAX_FRAMESZ_def)
qed

end
