(* ===== verification/Lltd_Mapping.thy ===== *)
theory Lltd_Mapping
  imports Lltd_Packetio_Tx
begin

text \<open>
  The topology-mapping state machine smT: \<open>ms-lltd/mapping.c\<close>, with \<open>set_emit_timer\<close> of \<open>state.c\<close>.
  A handler returns its status and the state afterwards. The event a handler is given is always
  \<open>&g_this_event\<close> and is read from the state. \<^term>\<open>None\<close> is a failed assertion or a read outside a
  buffer.
\<close>

type_synonym sm_result = "(sm_Status \<times> lltd) option"

abbreviation completed :: "lltd \<Rightarrow> sm_result" where
  "completed s \<equiv> Some (PROCESSING_COMPLETED, s)"

section \<open>Charge\<close>

definition SufficientChargeAvailable :: "lltd \<Rightarrow> bool" where
  "SufficientChargeAvailable s \<longleftrightarrow>
     g_ctc_packets s \<ge> g_neededPackets s \<and> g_ctc_bytes s \<ge> g_neededBytes s"

definition ChargeAdd :: "nat \<Rightarrow> lltd \<Rightarrow> lltd" where
  "ChargeAdd pktlen s =
     (let p = g_ctc_packets s + 1; b = g_ctc_bytes s + word_of_nat pktlen
      in restart_timer State_charge_timeout TOPO_CHARGE_TIMEOUT
           (s\<lparr>g_ctc_packets := (if p > TOPO_CTC_PACKETS_MAX then TOPO_CTC_PACKETS_MAX else p),
              g_ctc_bytes := (if b > TOPO_CTC_BYTES_MAX then TOPO_CTC_BYTES_MAX else b)\<rparr>))"

definition ChargeConsume :: "nat \<Rightarrow> lltd \<Rightarrow> lltd" where
  "ChargeConsume pktlen s =
     restart_timer State_charge_timeout TOPO_CHARGE_TIMEOUT
       (s\<lparr>g_ctc_packets := (if g_ctc_packets s \<noteq> 0 then g_ctc_packets s - 1 else 0),
          g_ctc_bytes := (if g_ctc_bytes s \<noteq> 0 then g_ctc_bytes s - word_of_nat pktlen else 0)\<rparr>)"

definition zero_charge :: "lltd \<Rightarrow> lltd" where
  "zero_charge s = CANCEL State_charge_timeout (s\<lparr>g_ctc_packets := 0, g_ctc_bytes := 0\<rparr>)"

section \<open>Emits\<close>

definition ProcessEmits :: "lltd \<Rightarrow> lltd option" where
  "ProcessEmits s =
     (if g_rcvd_pkt_len s > RXBUFSZ then None
      else let s1 = s\<lparr>g_emitbuf := buf_write (g_emitbuf s) 0 (take (g_rcvd_pkt_len s) (g_rxbuf s))\<rparr>
      in if g_emit_remaining s1 \<noteq> 0 then None
         else Some (s1\<lparr>g_emit_remaining := word_of_nat (numDescrs (g_this_event s1)),
                       g_emit_seqnum := g_sequencenum s1, g_emitdesc := 34\<rparr>))"

definition set_emit_timer :: "lltd \<Rightarrow> (bool \<times> lltd) option" where
  "set_emit_timer s =
     (if g_emit_remaining s = 0 \<or> g_emit_timer s \<noteq> None then None
      else do { pause \<leftarrow> rd8 (g_emitbuf s) (g_emitdesc s + 1);
                Some (if pause \<noteq> 0
                  then (True, start_timer State_emit_timeout (uint pause) s)
                  else (False, s)) })"

section \<open>Handlers\<close>

definition opcode_known :: "u8 \<Rightarrow> bool" where
  "opcode_known op = (op < Opcode_INVALID)"

definition learn_generation :: "lltd \<Rightarrow> lltd" where
  "learn_generation s =
     (if \<not> isInternalEvt (g_this_event s) \<and> mh_gen s \<noteq> 0 \<and> g_generation s \<noteq> mh_gen s
      then s\<lparr>g_generation := mh_gen s\<rparr> else s)"

definition log_probe :: "lltd \<Rightarrow> lltd" where
  "log_probe s =
     s\<lparr>g_sees := snd (seeslist_enqueue
        \<lparr>rd_type = 0, rd_realsrc = tbh_realsrc s, rd_src = eh_src s, rd_dst = eh_dst s\<rparr>
        (g_sees s))\<rparr>"

definition smT_QuiescentHandler :: "lltd \<Rightarrow> sm_result" where
  "smT_QuiescentHandler s =
     (case evtType (g_this_event s) of
        evtPacketRcvd \<Rightarrow>
          if opcode_known (g_opcode s) then completed s else Some (PROCESSING_ABORTED, s)
      | evtDiscoverRcvd \<Rightarrow>
          if isAckingMe (g_this_event s)
          then completed ((learn_generation s)\<lparr>g_smT_state := smT_Command\<rparr>)
          else completed s
      | evtInactivityTimeout \<Rightarrow>
          if ev_ssn (g_this_event s) = g_topo_session s
          then completed ((zero_charge s)\<lparr>g_topo_session := None\<rparr>) else completed s
      | evtResetRcvd \<Rightarrow>
          if ev_ssn (g_this_event s) = g_topo_session s
          then completed ((zero_charge s)\<lparr>g_topo_session := None\<rparr>) else completed s
      | _ \<Rightarrow> completed s)"

fun find_tlv :: "nat \<Rightarrow> nat \<Rightarrow> tlv_desc list \<Rightarrow> nat option" where
  "find_tlv n k [] = None"
| "find_tlv n k (t # ts) = (if tlv_number t = n then Some k else find_tlv n (Suc k) ts)"

definition smT_query_ltlv :: "lltd \<Rightarrow> lltd option" where
  "smT_query_ltlv s =
     (case find_tlv (unat (qh_type s)) 0 (g_Tlvs s) of
        None \<Rightarrow> Some s
      | Some k \<Rightarrow> packetio_tx_qltlvResp (g_sequencenum s) k
                   (unat (qh_offset s) + unat (qh_rsvd1 s) * 65536) s)"

definition smT_command_packet :: "lltd \<Rightarrow> sm_result" where
  "smT_command_packet s =
     (let op = g_opcode s in
      if op = Opcode_Charge then
        (let s1 = ChargeAdd (g_rcvd_pkt_len s) s
         in if g_sequencenum s1 \<noteq> 0
            then do { s2 \<leftarrow> packetio_tx_flat s1; completed (ChargeConsume (g_tx_len s2) s2) }
            else completed s1)
      else if op = Opcode_Probe then completed (log_probe s)
      else if op = Opcode_Query then do { s1 \<leftarrow> packetio_tx_queryresp s; completed s1 }
      else if op = Opcode_QueryLargeTlv then do { s1 \<leftarrow> smT_query_ltlv s; completed s1 }
      else if opcode_known op then completed s
      else Some (PROCESSING_ABORTED, s))"

definition smT_command_emit :: "lltd \<Rightarrow> sm_result" where
  "smT_command_emit s =
     (if eh_numdescs s > 1 \<and> g_sequencenum s = 0 then completed s
      else let s1 = ChargeAdd (g_rcvd_pkt_len s) s
      in if SufficientChargeAvailable s1 then
           do { s2 \<leftarrow> ProcessEmits (zero_charge s1);
                if g_emit_remaining s2 > 0 then
                  do { (pausing, s3) \<leftarrow> set_emit_timer (s2\<lparr>g_smT_state := smT_Emit\<rparr>);
                       if \<not> pausing
                       then Some (KEEP_GOING,
                              s3\<lparr>g_this_event := (g_this_event s3)\<lparr>evtType := evtEmitTimeout\<rparr>\<rparr>)
                       else completed s3 }
                else if g_emit_seqnum s2 \<noteq> 0 then
                  do { s3 \<leftarrow> packetio_tx_ack (g_emit_seqnum s2) s2;
                       completed (ChargeConsume (g_tx_len s3) s3) }
                else completed s2 }
         else do { s2 \<leftarrow> packetio_tx_flat s1; completed (ChargeConsume (g_tx_len s2) s2) })"

definition smT_command_reset :: "lltd \<Rightarrow> sm_result" where
  "smT_command_reset s =
     (if ev_ssn (g_this_event s) = g_topo_session s
      then completed ((zero_charge s)\<lparr>g_sees := seeslist_clear (g_sees s),
             g_topo_session := None, g_smT_state := smT_Quiescent\<rparr>)
      else completed s)"

definition smT_CommandHandler :: "lltd \<Rightarrow> sm_result" where
  "smT_CommandHandler s =
     (case evtType (g_this_event s) of
        evtPacketRcvd \<Rightarrow> smT_command_packet s
      | evtInactivityTimeout \<Rightarrow> smT_command_reset s
      | evtResetRcvd \<Rightarrow> smT_command_reset s
      | evtChargeTimeout \<Rightarrow> completed (zero_charge s)
      | evtEmitRcvd \<Rightarrow> smT_command_emit s
      | evtDiscoverRcvd \<Rightarrow> completed (learn_generation s)
      | _ \<Rightarrow> completed s)"

definition smT_emit_reset :: "lltd \<Rightarrow> sm_result" where
  "smT_emit_reset s =
     (if ev_ssn (g_this_event s) = g_topo_session s
      then completed ((CANCEL State_emit_timeout (zero_charge s))\<lparr>g_emit_remaining := 0,
             g_sees := seeslist_clear (g_sees s),
             g_topo_session := None, g_smT_state := smT_Quiescent\<rparr>)
      else completed s)"

definition smT_emit_timeout :: "lltd \<Rightarrow> sm_result" where
  "smT_emit_timeout s =
     do { s1 \<leftarrow> packetio_tx_emitee (g_emitdesc s) s;
          let s2 = s1\<lparr>g_emit_remaining := g_emit_remaining s1 - 1,
                      g_emitdesc := g_emitdesc s1 + 14\<rparr>
          in if g_emit_remaining s2 = 0 then
               let s3 = CANCEL State_emit_timeout (s2\<lparr>g_smT_state := smT_Command\<rparr>)
               in if g_emit_seqnum s3 \<noteq> 0
                  then do { s4 \<leftarrow> packetio_tx_ack (g_emit_seqnum s3) s3; completed s4 }
                  else completed s3
             else do { (pausing, s3) \<leftarrow> set_emit_timer s2;
                       if \<not> pausing then Some (KEEP_GOING, s3) else completed s3 } }"

definition smT_EmitHandler :: "lltd \<Rightarrow> sm_result" where
  "smT_EmitHandler s =
     (case evtType (g_this_event s) of
        evtPacketRcvd \<Rightarrow>
          if g_opcode s = Opcode_Probe then completed (log_probe s)
          else if opcode_known (g_opcode s) then completed s else Some (PROCESSING_ABORTED, s)
      | evtInactivityTimeout \<Rightarrow> smT_emit_reset s
      | evtResetRcvd \<Rightarrow> smT_emit_reset s
      | evtEmitTimeout \<Rightarrow> smT_emit_timeout s
      | _ \<Rightarrow> completed s)"

section \<open>The machine\<close>

definition smT_dispatch :: "lltd \<Rightarrow> sm_result" where
  "smT_dispatch s =
     (case g_smT_state s of
        smT_Quiescent \<Rightarrow> smT_QuiescentHandler s
      | smT_Command \<Rightarrow> smT_CommandHandler s
      | smT_Emit \<Rightarrow> smT_EmitHandler s)"

text \<open>The machine clocks itself while a handler answers \<open>KEEP_GOING\<close>. That happens only on the way
  into the Emit state and inside it, once per descriptor, so the 16-bit count of descriptors left
  bounds the number of turns; the count 0, for which the decrement wraps, comes first in the
  measure.\<close>

definition smT_measure :: "lltd \<Rightarrow> nat" where
  "smT_measure s =
     (case g_smT_state s of
        smT_Quiescent \<Rightarrow> 0
      | smT_Command \<Rightarrow> 65536
      | smT_Emit \<Rightarrow> unat (g_emit_remaining s - 1))"

lemma tx_sendpacket_frame:
  assumes "tx_sendpacket n q s = Some s'"
  shows "g_smT_state s' = g_smT_state s" "g_emit_remaining s' = g_emit_remaining s"
    "g_emitdesc s' = g_emitdesc s"
  using assms by (auto simp: tx_sendpacket_def tx_write_def Let_def split: if_splits)

lemma tx_emitee_frame:
  assumes "packetio_tx_emitee ed s = Some s'"
  shows "g_smT_state s' = g_smT_state s" "g_emit_remaining s' = g_emit_remaining s"
  using assms tx_sendpacket_frame
  by (auto simp: packetio_tx_emitee_def Let_def bind_eq_Some_conv split: if_splits)

lemma set_timer_ptr_frame [simp]:
  "g_smT_state (set_timer_ptr f p s) = g_smT_state s"
  "g_emit_remaining (set_timer_ptr f p s) = g_emit_remaining s"
  by (cases f; simp add: upd_ssn_def)+

lemma set_emit_timer_frame:
  assumes "set_emit_timer s = Some (b, s')"
  shows "g_smT_state s' = g_smT_state s" "g_emit_remaining s' = g_emit_remaining s"
    "g_emit_remaining s \<noteq> 0"
  using assms by (auto simp: set_emit_timer_def start_timer_def gettimeofday_def event_add_def Let_def
      bind_eq_Some_conv split: if_splits)

lemma smT_keep_going:
  assumes "smT_dispatch s = Some (KEEP_GOING, s')"
  shows "smT_measure s' < smT_measure s"
proof (cases "g_smT_state s")
  case smT_Quiescent
  with assms show ?thesis
    by (auto simp: smT_dispatch_def smT_QuiescentHandler_def split: smEvent.splits if_splits)
next
  case smT_Command
  with assms have "smT_command_emit s = Some (KEEP_GOING, s')"
    by (auto simp: smT_dispatch_def smT_CommandHandler_def smT_command_packet_def
        smT_command_reset_def Let_def bind_eq_Some_conv split: smEvent.splits if_splits)
  then have "g_smT_state s' = smT_Emit"
    by (auto simp: smT_command_emit_def Let_def bind_eq_Some_conv split: if_splits
        dest!: set_emit_timer_frame(1))
  with smT_Command show ?thesis by (simp add: smT_measure_def)
next
  case smT_Emit
  with assms have "smT_emit_timeout s = Some (KEEP_GOING, s')"
    by (auto simp: smT_dispatch_def smT_EmitHandler_def smT_emit_reset_def
        split: smEvent.splits if_splits)
  then obtain s1 where s1: "packetio_tx_emitee (g_emitdesc s) s = Some s1"
    and st: "set_emit_timer (s1\<lparr>g_emit_remaining := g_emit_remaining s1 - 1,
        g_emitdesc := g_emitdesc s1 + 14\<rparr>) = Some (False, s')"
    by (auto simp: smT_emit_timeout_def Let_def bind_eq_Some_conv split: if_splits)
  have eq: "g_smT_state s' = smT_Emit" "g_emit_remaining s' = g_emit_remaining s - 1"
    "g_emit_remaining s - 1 \<noteq> 0"
    using set_emit_timer_frame [OF st] tx_emitee_frame [OF s1] smT_Emit by auto
  then have "unat (g_emit_remaining s - 1 - 1) < unat (g_emit_remaining s - 1)"
    by (metis measure_unat)
  with eq smT_Emit show ?thesis by (simp add: smT_measure_def)
qed

function smT_loop :: "lltd \<Rightarrow> sm_result" where
  "smT_loop s =
     (case smT_dispatch s of
        None \<Rightarrow> None
      | Some (st, s') \<Rightarrow> if st = KEEP_GOING then smT_loop s' else Some (st, s'))"
  by pat_completeness auto
termination
  by (relation "measure smT_measure") (auto dest: smT_keep_going)

declare smT_loop.simps [simp del]

definition smT_process_event :: "lltd \<Rightarrow> sm_result" where
  "smT_process_event s =
     (if g_topo_session s = None
         \<or> (ev_ssn (g_this_event s) \<noteq> None \<and> ev_ssn (g_this_event s) \<noteq> g_topo_session s)
      then Some (PROCESSING_ABORTED, s)
      else smT_loop s)"

section \<open>The machine returns and keeps the invariant\<close>

lemma zero_charge_spec:
  assumes "lltd_inv xb xe xt xq xn s"
  obtains q where "zero_charge s =
      s\<lparr>g_ctc_packets := 0, g_ctc_bytes := 0, g_evq := q, g_charge_timer := None\<rparr>"
    "lltd_inv xb xe xt xq xn
      (s\<lparr>g_ctc_packets := 0, g_ctc_bytes := 0, g_evq := q, g_charge_timer := None\<rparr>)"
proof -
  let ?s = "s\<lparr>g_ctc_packets := 0, g_ctc_bytes := 0\<rparr>"
  have t: "timers_ok ?s" using assms by (simp add: lltd_inv_def)
  obtain q where "CANCEL State_charge_timeout ?s = set_timer_ptr State_charge_timeout None (?s\<lparr>g_evq := q\<rparr>)"
    "timers_ok (set_timer_ptr State_charge_timeout None (?s\<lparr>g_evq := q\<rparr>))"
    by (rule CANCEL_spec [OF t, of State_charge_timeout]) simp_all
  with assms show thesis by (intro that [of q]) (simp_all add: zero_charge_def lltd_inv_def)
qed

lemma restart_charge_spec:
  assumes "lltd_inv xb xe xt xq xn s"
  obtains q e where "restart_timer State_charge_timeout ms s =
      s\<lparr>os_calls := Suc (os_calls s), g_evq := q, g_charge_timer := Some e\<rparr>"
    "lltd_inv xb xe xt xq xn (s\<lparr>os_calls := Suc (os_calls s), g_evq := q, g_charge_timer := Some e\<rparr>)"
proof -
  have t: "timers_ok s" using assms by (simp add: lltd_inv_def)
  obtain q e where "restart_timer State_charge_timeout ms s =
      set_timer_ptr State_charge_timeout (Some e) (s\<lparr>os_calls := Suc (os_calls s), g_evq := q\<rparr>)"
    "timers_ok (set_timer_ptr State_charge_timeout (Some e)
      (s\<lparr>os_calls := Suc (os_calls s), g_evq := q\<rparr>))"
    by (rule restart_timer_spec [OF t, of State_charge_timeout ms]) simp_all
  with assms show thesis by (intro that [of e q]) (simp_all add: lltd_inv_def)
qed

text \<open>The fields that adding or consuming charge leaves alone.\<close>

definition charge_same :: "lltd \<Rightarrow> lltd \<Rightarrow> bool" where
  "charge_same s s' \<longleftrightarrow> (\<exists>p b k q e. s' = s\<lparr>g_ctc_packets := p, g_ctc_bytes := b, os_calls := k,
     g_evq := q, g_charge_timer := e\<rparr>)"

lemma lltd_inv_ctc:
  "lltd_inv xb xe xt xq xn (s\<lparr>g_ctc_packets := p, g_ctc_bytes := b\<rparr>) = lltd_inv xb xe xt xq xn s"
  by (simp add: lltd_inv_def)

lemma ChargeAdd_ok:
  assumes "lltd_inv xb xe xt xq xn s"
  shows "lltd_inv xb xe xt xq xn (ChargeAdd n s)" "charge_same s (ChargeAdd n s)"
proof -
  let ?p = "let p = g_ctc_packets s + 1
    in if p > TOPO_CTC_PACKETS_MAX then TOPO_CTC_PACKETS_MAX else p"
  let ?b = "let b = g_ctc_bytes s + word_of_nat n
    in if b > TOPO_CTC_BYTES_MAX then TOPO_CTC_BYTES_MAX else b"
  let ?s = "s\<lparr>g_ctc_packets := ?p, g_ctc_bytes := ?b\<rparr>"
  have inv: "lltd_inv xb xe xt xq xn ?s" using assms by (simp only: lltd_inv_ctc)
  obtain q e where "restart_timer State_charge_timeout TOPO_CHARGE_TIMEOUT ?s =
      ?s\<lparr>os_calls := Suc (os_calls ?s), g_evq := q, g_charge_timer := Some e\<rparr>"
    "lltd_inv xb xe xt xq xn (?s\<lparr>os_calls := Suc (os_calls ?s), g_evq := q, g_charge_timer := Some e\<rparr>)"
    by (rule restart_charge_spec [OF inv])
  moreover have "ChargeAdd n s = restart_timer State_charge_timeout TOPO_CHARGE_TIMEOUT ?s"
    by (simp add: ChargeAdd_def Let_def)
  ultimately show "lltd_inv xb xe xt xq xn (ChargeAdd n s)" "charge_same s (ChargeAdd n s)"
    unfolding charge_same_def by (simp, metis)
qed

lemma ChargeConsume_ok:
  assumes "lltd_inv xb xe xt xq xn s"
  shows "lltd_inv xb xe xt xq xn (ChargeConsume n s)" "charge_same s (ChargeConsume n s)"
proof -
  let ?s = "s\<lparr>g_ctc_packets := (if g_ctc_packets s \<noteq> 0 then g_ctc_packets s - 1 else 0),
      g_ctc_bytes := (if g_ctc_bytes s \<noteq> 0 then g_ctc_bytes s - word_of_nat n else 0)\<rparr>"
  have inv: "lltd_inv xb xe xt xq xn ?s" using assms by (simp only: lltd_inv_ctc)
  obtain q e where "restart_timer State_charge_timeout TOPO_CHARGE_TIMEOUT ?s =
      ?s\<lparr>os_calls := Suc (os_calls ?s), g_evq := q, g_charge_timer := Some e\<rparr>"
    "lltd_inv xb xe xt xq xn (?s\<lparr>os_calls := Suc (os_calls ?s), g_evq := q, g_charge_timer := Some e\<rparr>)"
    by (rule restart_charge_spec [OF inv])
  moreover have "ChargeConsume n s = restart_timer State_charge_timeout TOPO_CHARGE_TIMEOUT ?s"
    by (simp only: ChargeConsume_def)
  ultimately show "lltd_inv xb xe xt xq xn (ChargeConsume n s)" "charge_same s (ChargeConsume n s)"
    unfolding charge_same_def by (simp, metis)
qed

text \<open>What holds when smT is given an event.\<close>

definition smT_pre :: "bool \<Rightarrow> nat option \<Rightarrow> lltd \<Rightarrow> bool" where
  "smT_pre xe xt s \<longleftrightarrow> lltd_inv False xe xt None None s \<and> g_topo_session s \<noteq> None
     \<and> (ev_ssn (g_this_event s) = None \<or> ev_ssn (g_this_event s) = g_topo_session s)
     \<and> (xe \<longrightarrow> evtType (g_this_event s) = evtEmitTimeout)
     \<and> (xt \<noteq> None \<longrightarrow> xt = ev_ssn (g_this_event s)
          \<and> evtType (g_this_event s) \<in> {evtResetRcvd, evtInactivityTimeout})
     \<and> (evtType (g_this_event s) = evtEmitRcvd \<longrightarrow>
          34 + 14 * numDescrs (g_this_event s) \<le> g_rcvd_pkt_len s \<and> g_rcvd_pkt_len s \<le> RXBUFSZ)"

definition smT_post :: "sm_result \<Rightarrow> bool" where
  "smT_post r \<longleftrightarrow> (\<exists>st s'. r = Some (st, s') \<and>
     (if st = KEEP_GOING then smT_pre True None s' else lltd_ok s'))"

lemma smT_post_completed [simp]: "smT_post (completed s) \<longleftrightarrow> lltd_ok s"
  by (simp add: smT_post_def)

lemma smT_post_aborted [simp]: "smT_post (Some (PROCESSING_ABORTED, s)) \<longleftrightarrow> lltd_ok s"
  by (simp add: smT_post_def)

lemma smT_post_going [simp]: "smT_post (Some (KEEP_GOING, s)) \<longleftrightarrow> smT_pre True None s"
  by (simp add: smT_post_def)

lemma smT_preD:
  assumes "smT_pre xe xt s"
  shows "lltd_inv False xe xt None None s" "\<exists>t. g_topo_session s = Some t"
  using assms by (auto simp: smT_pre_def)

text \<open>Outside the Emit state, and for other events than those of a reset, the exceptions are void.\<close>

lemma lltd_ok_not_emit:
  "lltd_inv False xe None None None s \<Longrightarrow> g_smT_state s \<noteq> smT_Emit \<Longrightarrow> lltd_ok s"
  by (auto simp: lltd_inv_def emit_inv_def)

lemma smT_pre_xt:
  "smT_pre xe xt s \<Longrightarrow> evtType (g_this_event s) \<notin> {evtResetRcvd, evtInactivityTimeout} \<Longrightarrow> xt = None"
  by (auto simp: smT_pre_def)

lemma smT_pre_reset:
  assumes "smT_pre xe xt s" "evtType (g_this_event s) \<in> {evtResetRcvd, evtInactivityTimeout}"
  shows "\<not> xe" "ev_ssn (g_this_event s) \<noteq> g_topo_session s \<Longrightarrow> xt = None"
  using assms by (auto simp: smT_pre_def)

lemma reset_ok:
  assumes "lltd_inv False False xt None None s" "sees_inv sl" "g_emit_timer s = None"
  shows "lltd_ok (s\<lparr>g_emit_remaining := 0, g_sees := sl, g_topo_session := None,
      g_smT_state := smT_Quiescent\<rparr>)"
  using assms by (simp add: lltd_inv_def topo_inv_def emit_inv_def)

lemma sees_inv_clear: "sees_inv sl \<Longrightarrow> sees_inv (seeslist_clear sl)"
  using sl_ok_clear by (auto simp: sees_inv_def seeslist_clear_def)

lemma lltd_inv_sees: "lltd_inv xb xe xt xq xn s \<Longrightarrow> sees_inv (g_sees s)"
  by (simp add: lltd_inv_def)

lemma learn_generation_ok: "lltd_inv xb xe xt xq xn s \<Longrightarrow> lltd_inv xb xe xt xq xn (learn_generation s)"
  by (simp add: learn_generation_def lltd_inv_def)

lemma learn_generation_eq: "learn_generation s = s\<lparr>g_generation := (if \<not> isInternalEvt (g_this_event s)
    \<and> mh_gen s \<noteq> 0 \<and> g_generation s \<noteq> mh_gen s then mh_gen s else g_generation s)\<rparr>"
  by (simp add: learn_generation_def)

lemma smT_Quiescent_ok:
  assumes pre: "smT_pre xe xt s" and st: "g_smT_state s = smT_Quiescent"
  shows "smT_post (smT_QuiescentHandler s)"
proof -
  note inv = smT_preD(1) [OF pre]
  have e: "g_emit_timer s = None" "g_emit_remaining s = 0"
    using inv st by (simp_all add: lltd_inv_def emit_inv_def)
  have ok: "lltd_ok s" if "xt = None" using lltd_ok_not_emit [of xe s] inv that st by simp
  obtain q where z: "zero_charge s =
      s\<lparr>g_ctc_packets := 0, g_ctc_bytes := 0, g_evq := q, g_charge_timer := None\<rparr>"
    "lltd_inv False xe xt None None
      (s\<lparr>g_ctc_packets := 0, g_ctc_bytes := 0, g_evq := q, g_charge_timer := None\<rparr>)"
    by (rule zero_charge_spec [OF inv])
  have r: "lltd_ok ((zero_charge s)\<lparr>g_topo_session := None\<rparr>)"
    using z(2) st e unfolding z(1) by (simp add: lltd_inv_def topo_inv_def emit_inv_def)
  have d: "lltd_ok ((learn_generation s)\<lparr>g_smT_state := smT_Command\<rparr>)" if "xt = None"
    using ok [OF that] pre st
    by (auto simp: lltd_inv_def emit_inv_def smT_pre_def learn_generation_eq)
  show ?thesis
    using smT_pre_xt [OF pre] smT_pre_reset [OF pre] ok r d
    by (cases "evtType (g_this_event s)") (auto simp: smT_QuiescentHandler_def)
qed

lemma log_probe_ok:
  assumes "lltd_inv xb xe xt xq xn s"
  shows "lltd_inv xb xe xt xq xn (log_probe s)"
proof -
  have len: "length (g_rxbuf s) = RXBUFSZ" using assms by (simp add: lltd_inv_def buf_inv_def)
  then have d: "desc_ok \<lparr>rd_type = 0, rd_realsrc = tbh_realsrc s, rd_src = eh_src s, rd_dst = eh_dst s\<rparr>"
    by (simp add: desc_ok_def tbh_realsrc_def eh_src_def eh_dst_def length_sub_buf RXBUFSZ_def)
  have "sees_inv (snd (seeslist_enqueue d sl))" if "sees_inv sl" "desc_ok d" for d sl
    using that sl_ok_enqueue [of sl d]
    by (auto simp: sees_inv_def seeslist_enqueue_def list_all_iff
        dest!: set_update_subset_insert [THEN subsetD])
  with d assms show ?thesis by (simp add: log_probe_def lltd_inv_def)
qed

lemma find_tlv_bound: "find_tlv n k ts = Some j \<Longrightarrow> k \<le> j \<and> j < k + length ts \<and> tlv_number (ts ! (j - k)) = n"
  by (induction ts arbitrary: k) (fastforce split: if_splits simp: Suc_diff_le Suc_le_eq nth_Cons')+

lemma tx_keeps:
  assumes "lltd_inv xb xe xt xq xn s" "\<exists>s'. f s = Some s' \<and> tx_same s s' \<and> tx_inv s'"
  shows "\<exists>s'. f s = Some s' \<and> tx_same s s' \<and> lltd_inv xb xe xt xq xn s'"
  using assms lltd_inv_tx by blast

lemma tx_flat_keeps:
  assumes "lltd_inv xb xe xt xq xn s" "g_topo_session s = Some i"
  shows "\<exists>s'. packetio_tx_flat s = Some s' \<and> tx_same s s' \<and> lltd_inv xb xe xt xq xn s'"
  using tx_keeps [OF assms(1), of packetio_tx_flat] tx_flat_ok [OF _ _ assms(2)]
    lltd_inv_tx_inv [OF assms(1)] lltd_inv_mappers [OF assms(1)] by blast

lemma tx_ack_keeps:
  assumes "lltd_inv xb xe xt xq xn s" "g_topo_session s = Some i"
  shows "\<exists>s'. packetio_tx_ack q s = Some s' \<and> tx_same s s' \<and> lltd_inv xb xe xt xq xn s'"
  using tx_keeps [OF assms(1), of "packetio_tx_ack q"] tx_ack_ok [OF _ _ assms(2)]
    lltd_inv_tx_inv [OF assms(1)] lltd_inv_mappers [OF assms(1)] by blast

lemma tx_queryresp_keeps:
  assumes "lltd_inv xb xe xt xq xn s" "g_topo_session s = Some i"
  shows "\<exists>s'. packetio_tx_queryresp s = Some s' \<and> tx_same s s' \<and> lltd_inv xb xe xt xq xn s'"
  using tx_keeps [OF assms(1), of packetio_tx_queryresp] tx_queryresp_ok [OF _ _ assms(2)]
    lltd_inv_tx_inv [OF assms(1)] lltd_inv_mappers [OF assms(1)] by blast

lemma smT_query_ltlv_keeps:
  assumes "lltd_inv xb xe xt xq xn s"
  shows "\<exists>s'. smT_query_ltlv s = Some s' \<and> tx_same s s' \<and> lltd_inv xb xe xt xq xn s'"
proof (cases "find_tlv (unat (qh_type s)) 0 (g_Tlvs s)")
  case None
  with assms show ?thesis by (simp add: smT_query_ltlv_def tx_same_def)
next
  case (Some k)
  have "k < length (g_Tlvs s)" using find_tlv_bound [OF Some] by simp
  note tx_qltlvResp_ok [OF lltd_inv_tx_inv [OF assms] lltd_inv_mappers [OF assms] this]
  with tx_keeps [OF assms] Some show ?thesis by (simp add: smT_query_ltlv_def)
qed

lemma charge_flat_ok:
  assumes "lltd_ok s" "g_topo_session s = Some i"
  shows "smT_post (do { s2 \<leftarrow> packetio_tx_flat s; completed (ChargeConsume (g_tx_len s2) s2) })"
proof -
  obtain s' where "packetio_tx_flat s = Some s'" "lltd_ok s'"
    using tx_flat_keeps [OF assms] by blast
  then show ?thesis using ChargeConsume_ok(1) by simp
qed

lemma smT_command_packet_ok:
  assumes inv: "lltd_ok s" and t: "g_topo_session s = Some i"
  shows "smT_post (smT_command_packet s)"
proof -
  let ?s1 = "ChargeAdd (g_rcvd_pkt_len s) s"
  have s1: "lltd_ok ?s1" "g_topo_session ?s1 = Some i"
    using ChargeAdd_ok [OF inv, of "g_rcvd_pkt_len s"] t by (auto simp: charge_same_def)
  obtain s2 where q: "packetio_tx_queryresp s = Some s2" "lltd_ok s2"
    using tx_queryresp_keeps [OF inv t] by blast
  obtain s3 where l: "smT_query_ltlv s = Some s3" "lltd_ok s3"
    using smT_query_ltlv_keeps [OF inv] by blast
  show ?thesis
    using inv s1(1) charge_flat_ok [OF s1] q l log_probe_ok [OF inv]
    by (simp add: smT_command_packet_def Let_def)
qed

lemma smT_command_reset_ok:
  assumes pre: "smT_pre xe xt s" and st: "g_smT_state s = smT_Command"
    and ev: "evtType (g_this_event s) \<in> {evtResetRcvd, evtInactivityTimeout}"
  shows "smT_post (smT_command_reset s)"
proof -
  have xe: "\<not> xe" and xt: "ev_ssn (g_this_event s) \<noteq> g_topo_session s \<Longrightarrow> xt = None"
    using smT_pre_reset [OF pre ev] by auto
  have inv: "lltd_inv False False xt None None s" using smT_preD(1) [OF pre] xe by simp
  have e: "g_emit_timer s = None" "g_emit_remaining s = 0"
    using inv st by (simp_all add: lltd_inv_def emit_inv_def)
  obtain q where z: "zero_charge s =
      s\<lparr>g_ctc_packets := 0, g_ctc_bytes := 0, g_evq := q, g_charge_timer := None\<rparr>"
    "lltd_inv False False xt None None
      (s\<lparr>g_ctc_packets := 0, g_ctc_bytes := 0, g_evq := q, g_charge_timer := None\<rparr>)"
    by (rule zero_charge_spec [OF inv])
  have "lltd_ok ((zero_charge s)\<lparr>g_sees := seeslist_clear (g_sees s), g_topo_session := None,
      g_smT_state := smT_Quiescent\<rparr>)"
    using reset_ok [OF z(2) sees_inv_clear [OF lltd_inv_sees [OF inv]]] e
    unfolding z(1) by (simp add: lltd_inv_def)
  with xt inv show ?thesis by (auto simp: smT_command_reset_def)
qed

lemma start_emit_spec:
  assumes "lltd_inv xb True xt xq xn s" "g_smT_state s = smT_Emit"
  obtains q e where "start_timer State_emit_timeout ms s =
      s\<lparr>os_calls := Suc (os_calls s), g_evq := q, g_emit_timer := Some e\<rparr>"
    "lltd_inv xb False xt xq xn (s\<lparr>os_calls := Suc (os_calls s), g_evq := q, g_emit_timer := Some e\<rparr>)"
proof -
  have t: "timers_ok s" "g_emit_timer s = None"
    using assms by (auto simp: lltd_inv_def emit_inv_def)
  obtain q e where "start_timer State_emit_timeout ms s =
      set_timer_ptr State_emit_timeout (Some e) (s\<lparr>os_calls := Suc (os_calls s), g_evq := q\<rparr>)"
    "timers_ok (set_timer_ptr State_emit_timeout (Some e)
      (s\<lparr>os_calls := Suc (os_calls s), g_evq := q\<rparr>))"
    by (rule start_timer_spec [OF t(1), of State_emit_timeout ms]) (use t in simp_all)
  with assms show thesis by (intro that [of e q]) (simp_all add: lltd_inv_def emit_inv_def)
qed

text \<open>With the emit timer not running in the Emit state, \<open>set_emit_timer\<close> passes its assertions and
  either starts the timer or leaves the descriptor to be sent at once.\<close>

lemma set_emit_timer_ok:
  assumes "lltd_inv False True None None None s" "g_smT_state s = smT_Emit"
  shows "\<exists>b s'. set_emit_timer s = Some (b, s') \<and> g_this_event s' = g_this_event s
    \<and> g_topo_session s' = g_topo_session s
    \<and> (if b then lltd_ok s' else s' = s)"
proof -
  have "g_emit_remaining s \<noteq> 0" "g_emit_timer s = None" "length (g_emitbuf s) = RXBUFSZ"
    and bound: "g_emitdesc s + 14 * unat (g_emit_remaining s) \<le> RXBUFSZ"
    using assms by (auto simp: lltd_inv_def emit_inv_def)
  moreover from this have "g_emitdesc s + 1 < RXBUFSZ"
    using unat_gt_0 [of "g_emit_remaining s"] by linarith
  moreover obtain q e where "start_timer State_emit_timeout (uint (g_emitbuf s ! (g_emitdesc s + 1))) s =
      s\<lparr>os_calls := Suc (os_calls s), g_evq := q, g_emit_timer := Some e\<rparr>"
    "lltd_ok (s\<lparr>os_calls := Suc (os_calls s), g_evq := q, g_emit_timer := Some e\<rparr>)"
    by (rule start_emit_spec [OF assms])
  ultimately show ?thesis
    by (cases "g_emitbuf s ! (g_emitdesc s + 1) = 0") (simp_all add: set_emit_timer_def rd8_def ex_bool_eq)
qed

lemma smT_pre_emit:
  assumes "lltd_inv False True None None None s" "g_topo_session s \<noteq> None"
    "ev_ssn (g_this_event s) = None \<or> ev_ssn (g_this_event s) = g_topo_session s"
  shows "smT_pre True None (s\<lparr>g_this_event := (g_this_event s)\<lparr>evtType := evtEmitTimeout\<rparr>\<rparr>)"
  using assms by (simp add: smT_pre_def lltd_inv_def)

lemma smT_command_emit_ok:
  assumes pre: "smT_pre xe xt s" and st: "g_smT_state s = smT_Command"
    and ev: "evtType (g_this_event s) = evtEmitRcvd"
  shows "smT_post (smT_command_emit s)"
proof -
  have "xt = None" "\<not> xe" using pre ev by (auto simp: smT_pre_def)
  then have inv: "lltd_ok s" using smT_preD(1) [OF pre] by simp
  obtain i where t: "g_topo_session s = Some i" using smT_preD(2) [OF pre] by blast
  have ssn: "ev_ssn (g_this_event s) = None \<or> ev_ssn (g_this_event s) = Some i"
    and len: "34 + 14 * numDescrs (g_this_event s) \<le> g_rcvd_pkt_len s" "g_rcvd_pkt_len s \<le> RXBUFSZ"
    using pre ev t by (auto simp: smT_pre_def)
  let ?s1 = "ChargeAdd (g_rcvd_pkt_len s) s"
  note add = ChargeAdd_ok [OF inv, of "g_rcvd_pkt_len s"]
  have s1: "g_topo_session ?s1 = Some i" "g_this_event ?s1 = g_this_event s"
    "g_rcvd_pkt_len ?s1 = g_rcvd_pkt_len s" "g_smT_state ?s1 = smT_Command"
    using add(2) t st by (auto simp: charge_same_def)
  obtain q where z: "zero_charge ?s1 =
      ?s1\<lparr>g_ctc_packets := 0, g_ctc_bytes := 0, g_evq := q, g_charge_timer := None\<rparr>"
    "lltd_ok (?s1\<lparr>g_ctc_packets := 0, g_ctc_bytes := 0, g_evq := q, g_charge_timer := None\<rparr>)"
    by (rule zero_charge_spec [OF add(1)])
  let ?z = "zero_charge ?s1" let ?n = "numDescrs (g_this_event s)"
  have zinv: "lltd_ok ?z" using z by simp
  have zf: "g_topo_session ?z = Some i" "g_this_event ?z = g_this_event s"
    "g_rcvd_pkt_len ?z = g_rcvd_pkt_len s" "g_smT_state ?z = smT_Command"
    "g_emit_remaining ?z = 0" "g_emit_timer ?z = None"
    using z s1 zinv by (auto simp: lltd_inv_def emit_inv_def)
  let ?s2 = "?z\<lparr>g_emitbuf := buf_write (g_emitbuf ?z) 0 (take (g_rcvd_pkt_len s) (g_rxbuf ?z)),
      g_emit_remaining := word_of_nat ?n, g_emit_seqnum := g_sequencenum ?z, g_emitdesc := 34\<rparr>"
  have pe: "ProcessEmits ?z = Some ?s2" using zf len by (simp add: ProcessEmits_def)
  have "?n < 65536" using len by (simp add: RXBUFSZ_def)
  then have un: "unat (word_of_nat ?n :: u16) = ?n" by (simp add: unat_of_nat)
  have el: "length (buf_write (g_emitbuf ?z) 0 (take (g_rcvd_pkt_len s) (g_rxbuf ?z))) = RXBUFSZ"
    using zinv len by (simp add: lltd_inv_def buf_inv_def length_buf_write)
  show ?thesis
  proof (cases "SufficientChargeAvailable ?s1")
    case False
    then show ?thesis using inv charge_flat_ok [OF add(1) s1(1)]
      by (simp add: smT_command_emit_def)
  next
    case True
    show ?thesis
    proof (cases "?n = 0")
      case n0: True
      have ok2: "lltd_ok ?s2" using zinv zf el n0 by (simp add: lltd_inv_def emit_inv_def)
      obtain s3 where "packetio_tx_ack (g_emit_seqnum ?s2) ?s2 = Some s3" "lltd_ok s3"
        using tx_ack_keeps [OF ok2, of i "g_emit_seqnum ?s2"] zf by auto
      with True pe inv ok2 n0 ChargeConsume_ok(1) show ?thesis
        by (cases "g_sequencenum ?z = 0") (simp_all add: smT_command_emit_def Let_def)
    next
      case n: False
      let ?s3 = "?s2\<lparr>g_smT_state := smT_Emit\<rparr>"
      have w0: "word_of_nat ?n \<noteq> (0 :: u16)" using un n by (metis unat_0)
      have inv3: "lltd_inv False True None None None ?s3"
        using zinv zf el len un w0 by (simp add: lltd_inv_def emit_inv_def)
      obtain b s4 where s4: "set_emit_timer ?s3 = Some (b, s4)"
        "if b then lltd_ok s4 else s4 = ?s3"
        using set_emit_timer_ok [OF inv3] by auto
      have "smT_pre True None (?s3\<lparr>g_this_event := (g_this_event ?s3)\<lparr>evtType := evtEmitTimeout\<rparr>\<rparr>)"
        by (rule smT_pre_emit [OF inv3]) (use zf ssn in simp_all)
      with True pe inv s4 w0 show ?thesis
        by (cases b) (simp_all add: smT_command_emit_def Let_def word_gt_0)
    qed
  qed
qed

lemma smT_Command_ok:
  assumes pre: "smT_pre xe xt s" and st: "g_smT_state s = smT_Command"
  shows "smT_post (smT_CommandHandler s)"
proof -
  have ok: "lltd_ok s" if "xt = None"
    using lltd_ok_not_emit [of xe s] smT_preD(1) [OF pre] that st by simp
  obtain i where t: "g_topo_session s = Some i" using smT_preD(2) [OF pre] by blast
  have z: "lltd_ok (zero_charge s)" if "xt = None"
    using zero_charge_spec [OF ok [OF that]] by metis
  show ?thesis
    using smT_pre_xt [OF pre] ok z smT_command_packet_ok [OF _ t] smT_command_reset_ok [OF pre st]
      smT_command_emit_ok [OF pre st] learn_generation_ok
    by (cases "evtType (g_this_event s)") (auto simp: smT_CommandHandler_def)
qed

lemma cancel_emit_spec:
  assumes "timers_ok s"
  obtains q where "CANCEL State_emit_timeout s = s\<lparr>g_evq := q, g_emit_timer := None\<rparr>"
    "timers_ok (s\<lparr>g_evq := q, g_emit_timer := None\<rparr>)"
  using CANCEL_spec [OF assms, of State_emit_timeout] by (metis fn_ok.simps(4) set_timer_ptr.simps(3))

lemma smT_emit_reset_ok:
  assumes pre: "smT_pre xe xt s"
    and ev: "evtType (g_this_event s) \<in> {evtResetRcvd, evtInactivityTimeout}"
  shows "smT_post (smT_emit_reset s)"
proof -
  have xe: "\<not> xe" and xt: "ev_ssn (g_this_event s) \<noteq> g_topo_session s \<Longrightarrow> xt = None"
    using smT_pre_reset [OF pre ev] by auto
  have inv: "lltd_inv False False xt None None s" using smT_preD(1) [OF pre] xe by simp
  obtain q where z: "zero_charge s =
      s\<lparr>g_ctc_packets := 0, g_ctc_bytes := 0, g_evq := q, g_charge_timer := None\<rparr>"
    "lltd_inv False False xt None None
      (s\<lparr>g_ctc_packets := 0, g_ctc_bytes := 0, g_evq := q, g_charge_timer := None\<rparr>)"
    by (rule zero_charge_spec [OF inv])
  have "timers_ok (zero_charge s)" using z by (simp add: lltd_inv_def)
  then obtain q' where c: "CANCEL State_emit_timeout (zero_charge s) =
      (zero_charge s)\<lparr>g_evq := q', g_emit_timer := None\<rparr>"
    "timers_ok ((zero_charge s)\<lparr>g_evq := q', g_emit_timer := None\<rparr>)"
    by (rule cancel_emit_spec)
  have "lltd_ok ((CANCEL State_emit_timeout (zero_charge s))\<lparr>g_emit_remaining := 0,
      g_sees := seeslist_clear (g_sees s), g_topo_session := None, g_smT_state := smT_Quiescent\<rparr>)"
    using z(2) c(2) sees_inv_clear [OF lltd_inv_sees [OF inv]] unfolding c(1)
    by (simp add: z(1) lltd_inv_def topo_inv_def emit_inv_def)
  with xt inv show ?thesis by (auto simp: smT_emit_reset_def)
qed

lemma unat_pred: "(w :: u16) \<noteq> 0 \<Longrightarrow> unat w = Suc (unat (w - 1))"
  by (simp add: unat_minus_one unat_gt_0)

lemma smT_emit_timeout_ok:
  assumes pre: "smT_pre True xt s" and st: "g_smT_state s = smT_Emit"
  shows "smT_post (smT_emit_timeout s)"
proof -
  have ev: "evtType (g_this_event s) = evtEmitTimeout" using pre by (simp add: smT_pre_def)
  then have inv: "lltd_inv False True None None None s"
    using smT_preD(1) [OF pre] smT_pre_xt [OF pre] by simp
  obtain i where t: "g_topo_session s = Some i" using smT_preD(2) [OF pre] by blast
  have ssn: "ev_ssn (g_this_event s) = None \<or> ev_ssn (g_this_event s) = Some i"
    using pre t by (auto simp: smT_pre_def)
  have r: "g_emit_remaining s \<noteq> 0" "g_emit_timer s = None" "length (g_emitbuf s) = RXBUFSZ"
    "g_emitdesc s + 14 * unat (g_emit_remaining s) \<le> RXBUFSZ"
    using inv st by (auto simp: lltd_inv_def emit_inv_def)
  let ?r = "g_emit_remaining s - 1"
  have b: "g_emitdesc s + 14 + 14 * unat ?r \<le> RXBUFSZ" using r unat_pred [OF r(1)] by simp
  obtain s1 where s1: "packetio_tx_emitee (g_emitdesc s) s = Some s1" "tx_same s s1"
    "lltd_inv False True None None None s1"
    using tx_keeps [OF inv, of "packetio_tx_emitee (g_emitdesc s)"]
      tx_emitee_ok [OF lltd_inv_tx_inv [OF inv] r(3), of "g_emitdesc s"] b by fastforce
  have f: "g_emit_remaining s1 = g_emit_remaining s" "g_emitdesc s1 = g_emitdesc s"
    "g_smT_state s1 = smT_Emit" "g_topo_session s1 = Some i" "g_this_event s1 = g_this_event s"
    "g_emit_timer s1 = None"
    using s1(2) st t r(2) by (simp_all add: tx_same_def)
  let ?s2 = "s1\<lparr>g_emit_remaining := ?r, g_emitdesc := g_emitdesc s + 14\<rparr>"
  show ?thesis
  proof (cases "?r = 0")
    case True
    have "timers_ok (?s2\<lparr>g_smT_state := smT_Command\<rparr>)" using s1(3) by (simp add: lltd_inv_def)
    then obtain q where c: "CANCEL State_emit_timeout (?s2\<lparr>g_smT_state := smT_Command\<rparr>) =
        ?s2\<lparr>g_smT_state := smT_Command, g_evq := q, g_emit_timer := None\<rparr>"
      "timers_ok (?s2\<lparr>g_smT_state := smT_Command, g_evq := q, g_emit_timer := None\<rparr>)"
      by (rule cancel_emit_spec)
    let ?s3 = "?s2\<lparr>g_smT_state := smT_Command, g_evq := q, g_emit_timer := None\<rparr>"
    have ok3: "lltd_ok ?s3" using s1(3) c(2) f True by (simp add: lltd_inv_def emit_inv_def)
    obtain s4 where "packetio_tx_ack (g_emit_seqnum ?s3) ?s3 = Some s4" "lltd_ok s4"
      using tx_ack_keeps [OF ok3, of i "g_emit_seqnum ?s3"] f by auto
    with s1(1) f True ok3 c(1) show ?thesis by (simp add: smT_emit_timeout_def Let_def)
  next
    case False
    have inv2: "lltd_inv False True None None None ?s2"
      using s1(3) f False b by (simp add: lltd_inv_def emit_inv_def)
    obtain p s3 where s3: "set_emit_timer ?s2 = Some (p, s3)" "if p then lltd_ok s3 else s3 = ?s2"
      using set_emit_timer_ok [OF inv2] f by auto
    have "smT_pre True None ?s2"
      using inv2 f ssn ev by (simp add: smT_pre_def)
    with s1(1) f False s3 show ?thesis
      by (cases p) (simp_all add: smT_emit_timeout_def Let_def)
  qed
qed

lemma smT_Emit_ok:
  assumes pre: "smT_pre xe xt s" and st: "g_smT_state s = smT_Emit"
    and xe: "evtType (g_this_event s) = evtEmitTimeout \<Longrightarrow> xe"
  shows "smT_post (smT_EmitHandler s)"
proof -
  have ok: "lltd_ok s" if "evtType (g_this_event s) \<notin> {evtResetRcvd, evtInactivityTimeout, evtEmitTimeout}"
    using smT_preD(1) [OF pre] smT_pre_xt [OF pre] pre that by (auto simp: smT_pre_def)
  show ?thesis
    using ok log_probe_ok [OF ok] smT_emit_reset_ok [OF pre] smT_emit_timeout_ok [of xt s] pre st xe
    by (cases "evtType (g_this_event s)") (auto simp: smT_EmitHandler_def)
qed

text \<open>An emit timeout reaches the Emit state only when the emit timer has fired.\<close>

definition smT_ready :: "bool \<Rightarrow> nat option \<Rightarrow> lltd \<Rightarrow> bool" where
  "smT_ready xe xt s \<longleftrightarrow> smT_pre xe xt s
     \<and> (evtType (g_this_event s) = evtEmitTimeout \<longrightarrow> xe)"

lemma smT_dispatch_ok: "smT_ready xe xt s \<Longrightarrow> smT_post (smT_dispatch s)"
  using smT_Quiescent_ok [of xe xt s] smT_Command_ok [of xe xt s] smT_Emit_ok [of xe xt s]
  by (cases "g_smT_state s") (auto simp: smT_dispatch_def smT_ready_def)

lemma smT_loop_ok: "smT_ready xe xt s \<Longrightarrow> \<exists>st s'. smT_loop s = Some (st, s') \<and> lltd_ok s'"
proof (induction s arbitrary: xe xt rule: smT_loop.induct)
  case (1 s)
  obtain st s' where d: "smT_dispatch s = Some (st, s')"
    "if st = KEEP_GOING then smT_pre True None s' else lltd_ok s'"
    using smT_dispatch_ok [OF 1(2)] by (auto simp: smT_post_def)
  show ?case
  proof (cases "st = KEEP_GOING")
    case True
    then have "smT_ready True None s'" using d(2) by (simp add: smT_ready_def)
    from 1(1) [OF d(1) refl True this] d True show ?thesis
      by (simp add: smT_loop.simps [of s])
  next
    case False
    with d show ?thesis by (simp add: smT_loop.simps [of s])
  qed
qed

lemma smT_process_event_ok:
  assumes "lltd_inv False xe xt None None s"
    and "xe \<longleftrightarrow> evtType (g_this_event s) = evtEmitTimeout"
    and "xe \<Longrightarrow> g_smT_state s = smT_Emit \<Longrightarrow> ev_ssn (g_this_event s) = g_topo_session s"
    and "xt \<noteq> None \<Longrightarrow> xt = ev_ssn (g_this_event s)
          \<and> evtType (g_this_event s) \<in> {evtResetRcvd, evtInactivityTimeout}"
    and "evtType (g_this_event s) = evtEmitRcvd \<Longrightarrow>
          34 + 14 * numDescrs (g_this_event s) \<le> g_rcvd_pkt_len s \<and> g_rcvd_pkt_len s \<le> RXBUFSZ"
  shows "\<exists>st s'. smT_process_event s = Some (st, s') \<and> lltd_ok s'"
proof (cases "g_topo_session s = None
    \<or> (ev_ssn (g_this_event s) \<noteq> None \<and> ev_ssn (g_this_event s) \<noteq> g_topo_session s)")
  case True
  have "xe \<Longrightarrow> g_smT_state s \<noteq> smT_Emit"
    using True assms(1,3) by (auto simp: lltd_inv_def emit_inv_def)
  then have "lltd_ok s"
    using True assms(1,4) by (auto simp: lltd_inv_def emit_inv_def topo_inv_def)
  with True show ?thesis by (simp add: smT_process_event_def)
next
  case False
  then have "smT_ready xe xt s" using assms by (auto simp: smT_ready_def smT_pre_def)
  from smT_loop_ok [OF this] False show ?thesis by (auto simp: smT_process_event_def)
qed

text \<open>A reset of the topology session, real or faked by smS, leaves the other machines alone.\<close>

lemma smT_reset_spec:
  assumes inv: "lltd_ok s" and ev: "evtType (g_this_event s) = evtResetRcvd"
    and t: "ev_ssn (g_this_event s) = Some i" "g_topo_session s = Some i"
  shows "\<exists>s'. smT_process_event s = Some (PROCESSING_COMPLETED, s') \<and> lltd_ok s'
    \<and> g_sessions s' = g_sessions s \<and> g_this_event s' = g_this_event s
    \<and> g_smT_state s' = smT_Quiescent \<and> g_topo_session s' = None \<and> g_sequencenum s' = g_sequencenum s
    \<and> g_smE_state s' = g_smE_state s \<and> g_rcvd_pkt_len s' = g_rcvd_pkt_len s"
proof -
  have "smT_ready False None s" using inv ev t by (simp add: smT_ready_def smT_pre_def)
  from smT_dispatch_ok [OF this] have post: "smT_post (smT_dispatch s)" .
  obtain q where z: "zero_charge s =
      s\<lparr>g_ctc_packets := 0, g_ctc_bytes := 0, g_evq := q, g_charge_timer := None\<rparr>"
    "lltd_ok (s\<lparr>g_ctc_packets := 0, g_ctc_bytes := 0, g_evq := q, g_charge_timer := None\<rparr>)"
    by (rule zero_charge_spec [OF inv])
  have "timers_ok (zero_charge s)" using z by (simp add: lltd_inv_def)
  then obtain q' where c: "CANCEL State_emit_timeout (zero_charge s) =
      (zero_charge s)\<lparr>g_evq := q', g_emit_timer := None\<rparr>" by (rule cancel_emit_spec)
  show ?thesis
    using post t ev z(1) c
    by (cases "g_smT_state s")
      (auto simp: smT_process_event_def smT_loop.simps [of s] smT_dispatch_def smT_QuiescentHandler_def
        smT_CommandHandler_def smT_EmitHandler_def smT_command_reset_def smT_emit_reset_def)
qed

end
