(* ===== verification/Lltd_Band.thy ===== *)
theory Lltd_Band
  imports Lltd_Globals
begin

text \<open>
  The load control of the Hello frames: \<open>ms-lltd/band.c\<close>. Every station that is being enumerated
  waits a random number of frame times drawn from \<open>Ni\<close>; \<open>Ni\<close> is adapted once per block of 300 ms.
  All arithmetic is on 32-bit unsigned integers, as in the source. \<^term>\<open>None\<close> is a failed assertion.
\<close>

section \<open>Operations\<close>

definition BAND_MUL_FRAME :: "u32 \<Rightarrow> u32" where
  "BAND_MUL_FRAME x = (x * 20 + 2) div 3"

definition band_ResetNi :: "lltd \<Rightarrow> lltd" where
  "band_ResetNi s = s\<lparr>g_band := (g_band s)\<lparr>Ni := BAND_NMAX\<rparr>\<rparr>"

definition band_InitStats :: "lltd \<Rightarrow> lltd option" where
  "band_InitStats s =
     (let s1 = s\<lparr>g_band := \<lparr>Ni = BAND_NMAX, band_r = BAND_BLOCK_TIME, begun = False\<rparr>\<rparr>
      in if g_block_timer s1 \<noteq> None then None
         else Some (start_timer State_block_timeout (uint BAND_BLOCK_TIME) s1))"

definition band_NextNi :: "band \<Rightarrow> u32" where
  "band_NextNi b =
     (let Ta = BAND_BLOCK_TIME;
          val = BAND_MUL_FRAME (band_r b * Ni b) div (Ta * 1000);
          bound = (Ni b * BAND_GAMMA + (BAND_ALPHA * BAND_BETA - 1)) div (BAND_ALPHA * BAND_BETA);
          m = (if bound > val then bound else val);
          n = (if 100 * BAND_NMAX < m then 100 * BAND_NMAX else m)
      in if begun b then
           (if n < BAND_NMAX div 2 then n * 2 else if n < BAND_NMAX then BAND_NMAX else n)
         else n)"

definition band_UpdateStats :: "lltd \<Rightarrow> lltd" where
  "band_UpdateStats s =
     (let s1 = s\<lparr>g_band := (g_band s)\<lparr>Ni := band_NextNi (g_band s), begun := False\<rparr>\<rparr>
      in if g_block_timer s1 = None
         then start_timer State_block_timeout (uint BAND_BLOCK_TIME) s1 else s1)"

definition band_ChooseHelloTime :: "lltd \<Rightarrow> lltd" where
  "band_ChooseHelloTime s =
     (let delay = os_random s (os_calls s) (Ni (g_band s));
          s1 = s\<lparr>os_calls := Suc (os_calls s)\<rparr>
      in if delay < BAND_ALPHA \<and> g_hello_timer s1 = None
         then start_timer State_hello_delay_timeout (uint (BAND_MUL_FRAME delay)) s1 else s1)"

definition band_IncreaseLoad :: "bool \<Rightarrow> lltd \<Rightarrow> lltd" where
  "band_IncreaseLoad mapbegin s =
     (let b = (g_band s)\<lparr>band_r := band_r (g_band s) + 1\<rparr>
      in s\<lparr>g_band := (if mapbegin then b\<lparr>begun := True\<rparr> else b)\<rparr>)"

section \<open>What the operations change\<close>

text \<open>Everything but the variables of the enumeration: the statistics, the block and the Hello timer,
  the state of smE.\<close>

definition E_same :: "lltd \<Rightarrow> lltd \<Rightarrow> bool" where
  "E_same s s' \<longleftrightarrow>
     g_hwaddr s' = g_hwaddr s
     \<and> g_smT_state s' = g_smT_state s
     \<and> g_this_event s' = g_this_event s
     \<and> g_sessions s' = g_sessions s
     \<and> g_topo_session s' = g_topo_session s
     \<and> g_info s' = g_info s
     \<and> g_Tlvs s' = g_Tlvs s
     \<and> g_rxbuf s' = g_rxbuf s
     \<and> g_txbuf s' = g_txbuf s
     \<and> g_re_txbuf s' = g_re_txbuf s
     \<and> g_rcvd_pkt_len s' = g_rcvd_pkt_len s
     \<and> g_re_tx_len s' = g_re_tx_len s
     \<and> g_opcode s' = g_opcode s
     \<and> g_sequencenum s' = g_sequencenum s
     \<and> g_emitbuf s' = g_emitbuf s
     \<and> g_emit_remaining s' = g_emit_remaining s
     \<and> g_emitdesc s' = g_emitdesc s
     \<and> g_sees s' = g_sees s
     \<and> g_charge_timer s' = g_charge_timer s
     \<and> g_emit_timer s' = g_emit_timer s
     \<and> os_get s' = os_get s
     \<and> os_write_ok s' = os_write_ok s"

lemma E_same_refl [simp]: "E_same s s"
  by (simp add: E_same_def)

lemma E_same_trans: "E_same s t \<Longrightarrow> E_same t u \<Longrightarrow> E_same s u"
  by (simp add: E_same_def)

lemma E_same_upd [simp]:
  "E_same s (t\<lparr>g_smE_state := x\<rparr>) = E_same s t" "E_same s (t\<lparr>g_promisc := p\<rparr>) = E_same s t"
  "E_same s (t\<lparr>g_band := b\<rparr>) = E_same s t"
  by (simp_all add: E_same_def)

lemma lltd_inv_E:
  assumes "lltd_inv xb xe xt xq xn s" "E_same s s'" "timers_ok s'"
    "enum_inv xb' xq' (g_smE_state s') (g_block_timer s') (g_hello_timer s') (g_sessions s')"
  shows "lltd_inv xb' xe xt xq' xn s'"
  using assms unfolding lltd_inv_def E_same_def by simp

lemma cancel_block_ok:
  assumes "timers_ok s"
  shows "E_same s (CANCEL State_block_timeout s)" "timers_ok (CANCEL State_block_timeout s)"
    "g_block_timer (CANCEL State_block_timeout s) = None"
    "g_hello_timer (CANCEL State_block_timeout s) = g_hello_timer s"
    "g_smE_state (CANCEL State_block_timeout s) = g_smE_state s"
  by (rule CANCEL_spec [OF assms, of State_block_timeout]; simp add: E_same_def)+

lemma cancel_hello_ok:
  assumes "timers_ok s"
  shows "E_same s (CANCEL State_hello_delay_timeout s)"
    "timers_ok (CANCEL State_hello_delay_timeout s)"
    "g_hello_timer (CANCEL State_hello_delay_timeout s) = None"
    "g_block_timer (CANCEL State_hello_delay_timeout s) = g_block_timer s"
    "g_smE_state (CANCEL State_hello_delay_timeout s) = g_smE_state s"
  by (rule CANCEL_spec [OF assms, of State_hello_delay_timeout]; simp add: E_same_def)+

lemma start_block_ok:
  assumes "timers_ok s" "g_block_timer s = None"
  shows "E_same s (start_timer State_block_timeout ms s)"
    "timers_ok (start_timer State_block_timeout ms s)"
    "g_block_timer (start_timer State_block_timeout ms s) \<noteq> None"
    "g_hello_timer (start_timer State_block_timeout ms s) = g_hello_timer s"
    "g_smE_state (start_timer State_block_timeout ms s) = g_smE_state s"
    "g_band (start_timer State_block_timeout ms s) = g_band s"
  by (rule start_timer_spec [OF assms(1), of State_block_timeout ms];
      use assms(2) in \<open>simp add: E_same_def\<close>)+

lemma band_InitStats_ok:
  assumes "timers_ok s" "g_block_timer s = None"
  shows "\<exists>s'. band_InitStats s = Some s' \<and> E_same s s' \<and> timers_ok s' \<and> g_block_timer s' \<noteq> None
    \<and> g_hello_timer s' = g_hello_timer s
    \<and> g_band s' = \<lparr>Ni = BAND_NMAX, band_r = BAND_BLOCK_TIME, begun = False\<rparr>"
proof -
  let ?s = "s\<lparr>g_band := \<lparr>Ni = BAND_NMAX, band_r = BAND_BLOCK_TIME, begun = False\<rparr>\<rparr>"
  have "timers_ok ?s" "g_block_timer ?s = None" "E_same s ?s" using assms by (simp_all)
  with start_block_ok [of ?s "uint BAND_BLOCK_TIME"] assms(2) E_same_trans [of s ?s] show ?thesis
    by (simp add: band_InitStats_def Let_def)
qed

lemma band_UpdateStats_ok:
  assumes "timers_ok s"
  shows "E_same s (band_UpdateStats s)" "timers_ok (band_UpdateStats s)"
    "g_block_timer (band_UpdateStats s) \<noteq> None"
    "g_smE_state (band_UpdateStats s) = g_smE_state s"
    "Ni (g_band (band_UpdateStats s)) = band_NextNi (g_band s)"
proof -
  let ?s = "s\<lparr>g_band := (g_band s)\<lparr>Ni := band_NextNi (g_band s), begun := False\<rparr>\<rparr>"
  have "timers_ok ?s" "E_same s ?s" using assms by simp_all
  with start_block_ok [of ?s "uint BAND_BLOCK_TIME"] assms E_same_trans [of s ?s]
  show "E_same s (band_UpdateStats s)" "timers_ok (band_UpdateStats s)"
    "g_block_timer (band_UpdateStats s) \<noteq> None"
    "g_smE_state (band_UpdateStats s) = g_smE_state s"
    "Ni (g_band (band_UpdateStats s)) = band_NextNi (g_band s)"
    by (auto simp: band_UpdateStats_def Let_def)
qed

lemma band_ChooseHelloTime_ok:
  assumes "timers_ok s"
  shows "E_same s (band_ChooseHelloTime s)" "timers_ok (band_ChooseHelloTime s)"
    "g_block_timer (band_ChooseHelloTime s) = g_block_timer s"
    "g_smE_state (band_ChooseHelloTime s) = g_smE_state s"
proof -
  let ?s = "s\<lparr>os_calls := Suc (os_calls s)\<rparr>"
  have s1: "timers_ok ?s" "E_same s ?s" using assms by (simp_all add: E_same_def)
  let ?t = "\<lambda>ms. start_timer State_hello_delay_timeout ms ?s"
  have t: "timers_ok (?t ms)" "E_same s (?t ms) \<and> g_block_timer (?t ms) = g_block_timer s
      \<and> g_smE_state (?t ms) = g_smE_state s" if "g_hello_timer s = None" for ms
    by (rule start_timer_spec [OF s1(1), of State_hello_delay_timeout ms];
        use that in \<open>simp add: E_same_def\<close>)+
  show "timers_ok (band_ChooseHelloTime s)"
    using s1(1) t(1) by (auto simp: band_ChooseHelloTime_def Let_def)
  show "E_same s (band_ChooseHelloTime s)"
    "g_block_timer (band_ChooseHelloTime s) = g_block_timer s"
    "g_smE_state (band_ChooseHelloTime s) = g_smE_state s"
    using s1(2) t(2) by (auto simp: band_ChooseHelloTime_def Let_def)
qed

section \<open>The estimate of the load\<close>

lemma unat_bound:
  assumes "unat (w :: u32) \<le> 1000000"
  shows "unat ((w * 10 + 89) div 90) = (unat w * 10 + 89) div 90"
proof -
  have "unat (w * 10) = unat w * 10" using assms by (subst unat_mult_lem [THEN iffD1]) auto
  moreover from this have "unat (w * 10 + 89) = unat w * 10 + 89" using assms by (subst unat_add_lem [THEN iffD1]) auto
  ultimately show ?thesis by (simp add: unat_div_distrib)
qed

lemma div_bound:
  fixes x :: nat
  assumes "1 \<le> x" "x \<le> 1000000"
  shows "x \<le> 9 * ((x * 10 + 89) div 90)" "1 \<le> (x * 10 + 89) div 90" "(x * 10 + 89) div 90 \<le> 1000000"
proof -
  have "x * 10 + 89 < 90 + 90 * ((x * 10 + 89) div 90)" by (rule dividend_less_times_div) simp
  then show *: "x \<le> 9 * ((x * 10 + 89) div 90)" by linarith
  from * assms(1) show "1 \<le> (x * 10 + 89) div 90" by linarith
  have "(x * 10 + 89) div 90 \<le> (1000000 * 10 + 89) div 90" using assms(2) by (intro div_le_mono) simp
  also have "\<dots> \<le> 1000000" by simp
  finally show "(x * 10 + 89) div 90 \<le> 1000000" .
qed

lemma unat_double: "unat (w :: u32) < 5000 \<Longrightarrow> unat (w * 2) = unat w * 2"
  by (subst unat_mult_lem [THEN iffD1]) auto

lemma hello_delay: "delay < BAND_ALPHA \<Longrightarrow> BAND_MUL_FRAME delay < BAND_BLOCK_TIME"
proof -
  assume "delay < BAND_ALPHA"
  then have d: "unat delay < 45" by (simp add: BAND_ALPHA_def word_less_nat_alt)
  then have "unat (delay * 20) = unat delay * 20" by (subst unat_mult_lem [THEN iffD1]) auto
  moreover from this have "unat (delay * 20 + 2) = unat delay * 20 + 2"
    using d by (subst unat_add_lem [THEN iffD1]) auto
  ultimately have "unat (BAND_MUL_FRAME delay) = (unat delay * 20 + 2) div 3"
    by (simp add: BAND_MUL_FRAME_def unat_div_distrib)
  also have "\<dots> < 300" using d by (simp add: div_less_iff_less_mult)
  finally show ?thesis by (simp add: BAND_BLOCK_TIME_def word_less_nat_alt)
qed

text \<open>
  The estimate of the number of stations stays between 1 and a million whatever frames arrive, and even
  though the multiplication by the load may wrap around it falls to no less than a ninth per block. A
  Hello that is scheduled in a block is sent before the block ends.
\<close>

theorem band_estimate_bounded:
  assumes "1 \<le> Ni b" "Ni b \<le> 1000000"
  shows "1 \<le> band_NextNi b \<and> band_NextNi b \<le> 1000000
    \<and> unat (Ni b) \<le> 9 * unat (band_NextNi b)
    \<and> (\<forall>delay < BAND_ALPHA. BAND_MUL_FRAME delay < BAND_BLOCK_TIME)"
proof -
  let ?bound = "(Ni b * 10 + 89) div 90"
  let ?val = "BAND_MUL_FRAME (band_r b * Ni b) div 300000"
  let ?m = "if ?bound > ?val then ?bound else ?val"
  let ?n = "if 1000000 < ?m then 1000000 else ?m"
  have next_ni: "band_NextNi b = (if begun b then
      (if ?n < 5000 then ?n * 2 else if ?n < 10000 then 10000 else ?n) else ?n)"
    by (simp add: band_NextNi_def Let_def BAND_BLOCK_TIME_def BAND_NMAX_def BAND_ALPHA_def BAND_BETA_def
        BAND_GAMMA_def)
  have Ni: "1 \<le> unat (Ni b)" "unat (Ni b) \<le> 1000000" using assms by (simp_all add: word_le_nat_alt)
  have bd: "unat ?bound = (unat (Ni b) * 10 + 89) div 90" by (rule unat_bound [OF Ni(2)])
  have bl: "unat (Ni b) \<le> 9 * unat ?bound" "1 \<le> unat ?bound" "unat ?bound \<le> 1000000"
    unfolding bd using div_bound [OF Ni] by simp_all
  have n: "unat ?bound \<le> unat ?n" "unat ?n \<le> 1000000"
    using bl(3) by (auto simp: word_less_nat_alt)
  have final: "unat k \<le> unat (if c then (if k < 5000 then k * 2 else if k < 10000 then 10000 else k) else k)
      \<and> unat (if c then (if k < 5000 then k * 2 else if k < 10000 then 10000 else k) else k) \<le> 1000000"
    if "unat k \<le> 1000000" for k :: u32 and c
    using that unat_double [of k] by (auto simp: word_less_nat_alt)
  have "unat ?n \<le> unat (band_NextNi b)" "unat (band_NextNi b) \<le> 1000000"
    unfolding next_ni using final [OF n(2), of "begun b"] by blast+
  then show ?thesis using n bl hello_delay by (simp add: word_le_nat_alt)
qed

theorem band_estimate_bounded_witness:
  "1 \<le> band_NextNi \<lparr>Ni = 10000, band_r = 300, begun = False\<rparr>"
  using band_estimate_bounded [of "\<lparr>Ni = 10000, band_r = 300, begun = False\<rparr>"] by simp

end
