(* ===== verification/Lltd_Enumeration.thy ===== *)
theory Lltd_Enumeration
  imports Lltd_Mapping Lltd_Band
begin

text \<open>
  The enumeration state machine smE: \<open>ms-lltd/enumeration.c\<close>, with the scans of the session table
  and \<open>restart_inactivity_timer\<close> of \<open>state.c\<close>.
\<close>

section \<open>Scans of the session table\<close>

definition OnlyCompleteSessions :: "lltd \<Rightarrow> bool" where
  "OnlyCompleteSessions s =
     list_all (\<lambda>x. \<not> (ssn_is_valid x \<and> ssn_state x \<noteq> smS_Complete)) (g_sessions s)"

definition SessionTableIsEmpty :: "lltd \<Rightarrow> bool" where
  "SessionTableIsEmpty s = list_all (\<lambda>x. \<not> ssn_is_valid x) (g_sessions s)"

definition restart_inactivity_timer :: "int \<Rightarrow> lltd \<Rightarrow> lltd" where
  "restart_inactivity_timer timeout s =
     (case ev_ssn (g_this_event s) of
        None \<Rightarrow> s
      | Some i \<Rightarrow> if \<not> ssn_is_valid (ssn_at s i) then s
                 else restart_timer (State_inactivity_timeout i) timeout s)"

section \<open>Handlers\<close>

definition smE_QuiescentHandler :: "lltd \<Rightarrow> sm_result" where
  "smE_QuiescentHandler s =
     (case evtType (g_this_event s) of
        evtDiscoverRcvd \<Rightarrow>
          if isNewSession (g_this_event s) then
            do { i \<leftarrow> ev_ssn (g_this_event s);
                 if ssn_state (ssn_at s i) = smS_Complete
                 then completed ((CANCEL State_block_timeout s)\<lparr>g_smE_state := smE_Wait\<rparr>)
                 else do { s1 \<leftarrow> band_InitStats s;
                           let s2 = band_ChooseHelloTime s1;
                               s3 = (if tbh_tos s2 = ToS_TopologyDiscovery
                                     then s2\<lparr>g_promisc := True\<rparr> else s2)
                           in completed (s3\<lparr>g_smE_state := smE_Pausing\<rparr>) } }
          else completed s
      | evtBlockTimeout \<Rightarrow> completed (CANCEL State_block_timeout s)
      | _ \<Rightarrow> completed s)"

definition smE_pausing_empty :: "lltd \<Rightarrow> sm_result" where
  "smE_pausing_empty s =
     (if SessionTableIsEmpty s
      then completed ((CANCEL State_hello_delay_timeout (CANCEL State_block_timeout s))
             \<lparr>g_smE_state := smE_Quiescent\<rparr>)
      else completed s)"

definition smE_PausingHandler :: "lltd \<Rightarrow> sm_result" where
  "smE_PausingHandler s =
     (case evtType (g_this_event s) of
        evtBlockTimeout \<Rightarrow> completed (band_ChooseHelloTime (band_UpdateStats s))
      | evtHelloDelayTimeout \<Rightarrow>
          do { s1 \<leftarrow> packetio_tx_hello s;
               completed (if OnlyCompleteSessions s1
                 then (CANCEL State_block_timeout s1)\<lparr>g_smE_state := smE_Wait\<rparr> else s1) }
      | evtDiscoverRcvd \<Rightarrow>
          let s1 = band_IncreaseLoad True s;
              s2 = (if isNewSession (g_this_event s1) then band_ResetNi s1 else s1)
          in completed (if OnlyCompleteSessions s2
               then (CANCEL State_block_timeout (CANCEL State_hello_delay_timeout s2))
                      \<lparr>g_smE_state := smE_Wait\<rparr>
               else s2)
      | evtPacketRcvd \<Rightarrow>
          completed (if g_opcode s = Opcode_Hello then band_IncreaseLoad False s else s)
      | evtInactivityTimeout \<Rightarrow> smE_pausing_empty s
      | evtResetRcvd \<Rightarrow> smE_pausing_empty s
      | _ \<Rightarrow> completed s)"

definition smE_wait_empty :: "lltd \<Rightarrow> sm_result" where
  "smE_wait_empty s =
     completed (if SessionTableIsEmpty s then s\<lparr>g_smE_state := smE_Quiescent\<rparr> else s)"

definition smE_WaitHandler :: "lltd \<Rightarrow> sm_result" where
  "smE_WaitHandler s =
     (case evtType (g_this_event s) of
        evtDiscoverRcvd \<Rightarrow>
          if isNewSession (g_this_event s) then
            do { i \<leftarrow> ev_ssn (g_this_event s);
                 if ssn_state (ssn_at s i) \<noteq> smS_Complete
                 then do { s1 \<leftarrow> band_InitStats s;
                           completed ((band_ChooseHelloTime s1)\<lparr>g_smE_state := smE_Pausing\<rparr>) }
                 else completed s }
          else completed s
      | evtInactivityTimeout \<Rightarrow> smE_wait_empty s
      | evtResetRcvd \<Rightarrow> smE_wait_empty s
      | _ \<Rightarrow> completed s)"

definition smE_process_event :: "lltd \<Rightarrow> sm_result" where
  "smE_process_event s =
     (case g_smE_state s of
        smE_Quiescent \<Rightarrow> smE_QuiescentHandler s
      | smE_Pausing \<Rightarrow> smE_PausingHandler s
      | smE_Wait \<Rightarrow> smE_WaitHandler s)"

section \<open>The machine returns and keeps the invariant\<close>

text \<open>smE leaves the sessions, the event and the topology machine alone.\<close>

definition smE_same :: "lltd \<Rightarrow> lltd \<Rightarrow> bool" where
  "smE_same s s' \<longleftrightarrow> g_this_event s' = g_this_event s \<and> g_smT_state s' = g_smT_state s
     \<and> g_topo_session s' = g_topo_session s \<and> g_rcvd_pkt_len s' = g_rcvd_pkt_len s
     \<and> g_sessions s' = g_sessions s"

definition smE_pre :: "bool \<Rightarrow> bool \<Rightarrow> nat option \<Rightarrow> nat option \<Rightarrow> lltd \<Rightarrow> bool" where
  "smE_pre xb xe xt xq s \<longleftrightarrow> lltd_inv xb xe xt xq None s
     \<and> (xb \<longrightarrow> evtType (g_this_event s) = evtBlockTimeout)
     \<and> (xq \<noteq> None \<longrightarrow> evtType (g_this_event s) = evtDiscoverRcvd \<and> isNewSession (g_this_event s))
     \<and> (isNewSession (g_this_event s) \<longrightarrow> ev_ssn (g_this_event s) \<noteq> None)"

definition smE_post :: "bool \<Rightarrow> nat option \<Rightarrow> lltd \<Rightarrow> sm_result \<Rightarrow> bool" where
  "smE_post xe xt s r \<longleftrightarrow> (\<exists>s'. r = completed s' \<and> lltd_inv False xe xt None None s' \<and> smE_same s s')"

lemma smE_post_completed [simp]:
  "smE_post xe xt s (completed s') \<longleftrightarrow> lltd_inv False xe xt None None s' \<and> smE_same s s'"
  by (simp add: smE_post_def)

lemma smE_same_E: "E_same s s' \<Longrightarrow> smE_same s s'"
  by (simp add: E_same_def smE_same_def)

lemma smE_same_tx: "tx_same s s' \<Longrightarrow> smE_same s s'"
  by (simp add: tx_same_def smE_same_def)

lemma smE_same_trans: "smE_same s t \<Longrightarrow> smE_same t u \<Longrightarrow> smE_same s u"
  by (simp add: smE_same_def)

text \<open>The arcs into each state.\<close>

lemma smE_postI:
  assumes "lltd_inv xb xe xt xq None s" "E_same s s'" "timers_ok s'"
    "enum_inv False None (g_smE_state s') (g_block_timer s') (g_hello_timer s') (g_sessions s')"
  shows "smE_post xe xt s (completed s')"
  using lltd_inv_E [OF assms] smE_same_E [OF assms(2)] by simp

lemma smE_to_pausing:
  assumes "lltd_inv xb xe xt xq None s" "E_same s s'" "timers_ok s'" "g_block_timer s' \<noteq> None"
  shows "smE_post xe xt s (completed (s'\<lparr>g_smE_state := smE_Pausing\<rparr>))"
  by (rule smE_postI [OF assms(1)]) (use assms in \<open>simp_all add: enum_inv_def\<close>)

lemma smE_to_wait:
  assumes "lltd_inv xb xe xt xq None s" "E_same s s'" "timers_ok s'" "g_block_timer s' = None"
    "g_hello_timer s' = None"
  shows "smE_post xe xt s (completed (s'\<lparr>g_smE_state := smE_Wait\<rparr>))"
  by (rule smE_postI [OF assms(1)]) (use assms in \<open>simp_all add: enum_inv_def\<close>)

lemma smE_to_quiescent:
  assumes "lltd_inv xb xe xt xq None s" "E_same s s'" "timers_ok s'" "g_block_timer s' = None"
    "g_hello_timer s' = None" "SessionTableIsEmpty s"
  shows "smE_post xe xt s (completed (s'\<lparr>g_smE_state := smE_Quiescent\<rparr>))"
proof -
  have "\<not> ssn_is_valid (g_sessions s' ! i)" if "i < MAX_NUM_SESSIONS" for i
    using assms(1,2,6) that
    by (auto simp: SessionTableIsEmpty_def list_all_length E_same_def lltd_inv_def sess_inv_def)
  then show ?thesis
    by (intro smE_postI [OF assms(1)]) (use assms in \<open>simp_all add: enum_inv_def\<close>)
qed

lemma lltd_inv_timers: "lltd_inv xb xe xt xq xn s \<Longrightarrow> timers_ok s"
  by (simp add: lltd_inv_def)

lemma smE_pre_stay:
  assumes "smE_pre xb xe xt xq s" "evtType (g_this_event s) \<noteq> evtDiscoverRcvd"
    "evtType (g_this_event s) \<noteq> evtBlockTimeout \<or> g_smE_state s \<noteq> smE_Pausing"
  shows "lltd_inv False xe xt None None s"
proof -
  have "xq = None" "g_smE_state s = smE_Pausing \<Longrightarrow> \<not> xb" using assms by (auto simp: smE_pre_def)
  with assms(1) show ?thesis by (auto simp: smE_pre_def lltd_inv_def enum_inv_def)
qed

lemma enter_pausing_ok:
  assumes inv: "lltd_inv xb xe xt xq None s" and "g_block_timer s = None"
  shows "\<exists>s1. band_InitStats s = Some s1 \<and> E_same s (band_ChooseHelloTime s1)
    \<and> timers_ok (band_ChooseHelloTime s1) \<and> g_block_timer (band_ChooseHelloTime s1) \<noteq> None"
proof -
  obtain s1 where "band_InitStats s = Some s1" "E_same s s1" "timers_ok s1" "g_block_timer s1 \<noteq> None"
    using band_InitStats_ok [OF lltd_inv_timers [OF inv] assms(2)] by blast
  then show ?thesis using band_ChooseHelloTime_ok [of s1] E_same_trans by auto
qed

lemma smE_Quiescent_ok:
  assumes pre: "smE_pre xb xe xt xq s" and st: "g_smE_state s = smE_Quiescent"
  shows "smE_post xe xt s (smE_QuiescentHandler s)"
proof (cases "evtType (g_this_event s) = evtDiscoverRcvd \<and> isNewSession (g_this_event s)")
  case True
  have inv: "lltd_inv xb xe xt xq None s" using pre by (simp add: smE_pre_def)
  have bl: "g_block_timer s = None" "g_hello_timer s = None"
    using inv st by (simp_all add: lltd_inv_def enum_inv_def)
  obtain i where i: "ev_ssn (g_this_event s) = Some i" using pre True by (auto simp: smE_pre_def)
  note c = cancel_block_ok [OF lltd_inv_timers [OF inv]]
  have w: "smE_post xe xt s (completed ((CANCEL State_block_timeout s)\<lparr>g_smE_state := smE_Wait\<rparr>))"
    by (rule smE_to_wait [OF inv c(1,2)]) (use c bl in simp_all)
  obtain s1 where s1: "band_InitStats s = Some s1" "E_same s (band_ChooseHelloTime s1)"
    "timers_ok (band_ChooseHelloTime s1)" "g_block_timer (band_ChooseHelloTime s1) \<noteq> None"
    using enter_pausing_ok [OF inv bl(1)] by blast
  have p: "smE_post xe xt s (completed (band_ChooseHelloTime s1\<lparr>g_smE_state := smE_Pausing\<rparr>))"
    by (rule smE_to_pausing [OF inv s1(2,3,4)])
  have "smE_post xe xt s (completed ((band_ChooseHelloTime s1)\<lparr>g_promisc := True\<rparr>
      \<lparr>g_smE_state := smE_Pausing\<rparr>))"
    by (rule smE_to_pausing [OF inv]) (use s1 in simp_all)
  with w p s1(1) i True show ?thesis by (simp add: smE_QuiescentHandler_def Let_def)
next
  case False
  then have xq: "xq = None" using pre by (auto simp: smE_pre_def)
  have inv: "lltd_inv xb xe xt xq None s" using pre by (simp add: smE_pre_def)
  have bl: "g_block_timer s = None" using inv st by (simp_all add: lltd_inv_def enum_inv_def)
  have ok: "lltd_inv False xe xt None None s" using inv xq st by (auto simp: lltd_inv_def enum_inv_def)
  have "CANCEL State_block_timeout s = s" using bl by (simp add: CANCEL_def)
  with ok False show ?thesis
    by (cases "evtType (g_this_event s)") (auto simp: smE_QuiescentHandler_def smE_same_def)
qed

lemma smE_pausing_empty_ok:
  assumes "lltd_inv False xe xt None None s"
  shows "smE_post xe xt s (smE_pausing_empty s)"
proof -
  let ?s1 = "CANCEL State_block_timeout s"
  note b = cancel_block_ok [OF lltd_inv_timers [OF assms]]
  note h = cancel_hello_ok [OF b(2)]
  have "smE_post xe xt s (completed ((CANCEL State_hello_delay_timeout ?s1)\<lparr>g_smE_state := smE_Quiescent\<rparr>))"
    if "SessionTableIsEmpty s"
    by (rule smE_to_quiescent [OF assms E_same_trans [OF b(1) h(1)] h(2)]) (use b h that in simp_all)
  with assms show ?thesis by (simp add: smE_pausing_empty_def smE_same_def)
qed

lemma smE_hello_ok:
  assumes inv: "lltd_inv False xe xt None None s" and st: "g_smE_state s = smE_Pausing"
    and h: "g_hello_timer s = None"
  shows "smE_post xe xt s (do { s1 \<leftarrow> packetio_tx_hello s;
      completed (if OnlyCompleteSessions s1
        then (CANCEL State_block_timeout s1)\<lparr>g_smE_state := smE_Wait\<rparr> else s1) })"
proof -
  obtain s1 where s1: "packetio_tx_hello s = Some s1" "tx_same s s1" "tx_inv s1"
    using tx_hello_ok [OF lltd_inv_tx_inv [OF inv] lltd_inv_mappers [OF inv]] by blast
  have inv1: "lltd_inv False xe xt None None s1" by (rule lltd_inv_tx [OF inv s1(2,3)])
  have h1: "g_hello_timer s1 = None" using s1(2) h by (simp add: tx_same_def)
  note c = cancel_block_ok [OF lltd_inv_timers [OF inv1]]
  have "smE_post xe xt s1 (completed ((CANCEL State_block_timeout s1)\<lparr>g_smE_state := smE_Wait\<rparr>))"
    by (rule smE_to_wait [OF inv1 c(1,2)]) (use c h1 in simp_all)
  with s1(1) inv1 smE_same_tx [OF s1(2)] show ?thesis
    by (auto simp: smE_post_def dest: smE_same_trans)
qed

lemma smE_discover_ok:
  assumes inv: "lltd_inv xb xe xt xq None s" and st: "g_smE_state s = smE_Pausing" and "\<not> xb"
  shows "smE_post xe xt s (let s1 = band_IncreaseLoad True s;
              s2 = (if isNewSession (g_this_event s1) then band_ResetNi s1 else s1)
          in completed (if OnlyCompleteSessions s2
               then (CANCEL State_block_timeout (CANCEL State_hello_delay_timeout s2))
                      \<lparr>g_smE_state := smE_Wait\<rparr>
               else s2))"
proof -
  let ?s1 = "band_IncreaseLoad True s"
  let ?s2 = "if isNewSession (g_this_event ?s1) then band_ResetNi ?s1 else ?s1"
  have e: "E_same s ?s2" "timers_ok ?s2" "g_smE_state ?s2 = smE_Pausing"
      "g_block_timer ?s2 = g_block_timer s"
    using lltd_inv_timers [OF inv] st by (simp_all add: band_IncreaseLoad_def band_ResetNi_def)
  note h = cancel_hello_ok [OF e(2)]
  note b = cancel_block_ok [OF h(2)]
  have w: "smE_post xe xt s (completed ((CANCEL State_block_timeout
      (CANCEL State_hello_delay_timeout ?s2))\<lparr>g_smE_state := smE_Wait\<rparr>))"
    by (rule smE_to_wait [OF inv E_same_trans [OF e(1) E_same_trans [OF h(1) b(1)]] b(2)])
      (use b h in simp_all)
  have "g_block_timer s \<noteq> None" using inv st assms(3) by (auto simp: lltd_inv_def enum_inv_def)
  then have "smE_post xe xt s (completed ?s2)"
    by (intro smE_postI [OF inv e(1,2)]) (simp add: enum_inv_def e)
  with w show ?thesis by (simp add: Let_def)
qed

lemma smE_Pausing_ok:
  assumes pre: "smE_pre xb xe xt xq s" and st: "g_smE_state s = smE_Pausing"
    and h: "evtType (g_this_event s) = evtHelloDelayTimeout \<Longrightarrow> g_hello_timer s = None"
  shows "smE_post xe xt s (smE_PausingHandler s)"
proof (cases "evtType (g_this_event s) \<in> {evtBlockTimeout, evtDiscoverRcvd}")
  case False
  have ok: "lltd_inv False xe xt None None s"
    by (rule smE_pre_stay [OF pre]) (use False st in simp_all)
  moreover from this have "lltd_inv False xe xt None None (band_IncreaseLoad b s)" for b
    by (simp add: band_IncreaseLoad_def Let_def lltd_inv_def)
  moreover have "smE_same s (band_IncreaseLoad b s)" "smE_same s s" for b
    by (simp_all add: smE_same_def band_IncreaseLoad_def Let_def)
  ultimately show ?thesis
    using False st h smE_pausing_empty_ok [OF ok] smE_hello_ok [OF ok st]
    by (cases "evtType (g_this_event s)") (simp_all add: smE_PausingHandler_def)
next
  case True
  have inv: "lltd_inv xb xe xt xq None s" using pre by (simp add: smE_pre_def)
  note u = band_UpdateStats_ok [OF lltd_inv_timers [OF inv]]
  note c = band_ChooseHelloTime_ok [OF u(2)]
  have "smE_post xe xt s (completed (band_ChooseHelloTime (band_UpdateStats s)))"
    by (rule smE_postI [OF inv E_same_trans [OF u(1) c(1)] c(2)])
      (use u c st in \<open>simp add: enum_inv_def\<close>)
  moreover have "evtType (g_this_event s) = evtDiscoverRcvd \<Longrightarrow> \<not> xb"
    using pre by (auto simp: smE_pre_def)
  ultimately show ?thesis
    using True smE_discover_ok [OF inv st] by (auto simp: smE_PausingHandler_def)
qed

lemma smE_Wait_ok:
  assumes pre: "smE_pre xb xe xt xq s" and st: "g_smE_state s = smE_Wait"
  shows "smE_post xe xt s (smE_WaitHandler s)"
proof -
  have inv: "lltd_inv xb xe xt xq None s" using pre by (simp add: smE_pre_def)
  have bl: "g_block_timer s = None" "g_hello_timer s = None"
    using inv st by (simp_all add: lltd_inv_def enum_inv_def)
  have ok: "lltd_inv False xe xt None None s" using inv st by (auto simp: lltd_inv_def enum_inv_def)
  have stay: "smE_post xe xt s (completed s)" using ok by (simp add: smE_same_def)
  have q: "smE_post xe xt s (smE_wait_empty s)"
    using smE_to_quiescent [OF ok _ _ bl] lltd_inv_timers [OF inv] stay
    by (simp add: smE_wait_empty_def)
  obtain s1 where s1: "band_InitStats s = Some s1" "E_same s (band_ChooseHelloTime s1)"
    "timers_ok (band_ChooseHelloTime s1)" "g_block_timer (band_ChooseHelloTime s1) \<noteq> None"
    using enter_pausing_ok [OF inv bl(1)] by blast
  note p = smE_to_pausing [OF inv s1(2,3,4)]
  have "ev_ssn (g_this_event s) \<noteq> None" if "isNewSession (g_this_event s)"
    using pre that by (simp add: smE_pre_def)
  with stay q s1(1) p show ?thesis
    by (cases "evtType (g_this_event s)") (auto simp: smE_WaitHandler_def)
qed

lemma smE_process_event_ok:
  assumes "smE_pre xb xe xt xq s"
    and "evtType (g_this_event s) = evtHelloDelayTimeout \<Longrightarrow> g_hello_timer s = None"
  shows "\<exists>s'. smE_process_event s = completed s' \<and> lltd_inv False xe xt None None s' \<and> smE_same s s'"
proof -
  have "smE_post xe xt s (smE_process_event s)"
    using smE_Quiescent_ok [OF assms(1)] smE_Pausing_ok [OF assms(1)] smE_Wait_ok [OF assms(1)] assms(2)
    by (cases "g_smE_state s") (simp_all add: smE_process_event_def)
  then show ?thesis by (simp add: smE_post_def)
qed

end
