(* ===== verification/Lltd_Session.thy ===== *)
theory Lltd_Session
  imports Lltd_Enumeration
begin

text \<open>
  The session state machine smS: \<open>ms-lltd/sessionmgr.c\<close>. The handlers work on the session the event
  is associated with, by its index \<open>i\<close>.
\<close>

section \<open>Questions about the frame and the session\<close>

fun ack_scan :: "lltd \<Rightarrow> nat \<Rightarrow> nat \<Rightarrow> bool" where
  "ack_scan s i 0 = False"
| "ack_scan s i (Suc n) =
     (if 36 + 6 * (int i + 1) \<le> rx_limit s
      then sub_buf (g_rxbuf s) (36 + 6 * i) 6 = g_hwaddr s \<or> ack_scan s (Suc i) n
      else False)"

text \<open>Reads of stations stay inside the buffer because a frame is never longer than it.\<close>

definition is_acking_me :: "lltd \<Rightarrow> bool" where
  "is_acking_me s =
     (if isAckingMe (g_this_event s) then True else ack_scan s 0 (unat (mh_numstations s)))"

definition is_conflicting_ssn :: "nat \<Rightarrow> lltd \<Rightarrow> bool" where
  "is_conflicting_ssn i s =
     (case g_topo_session s of
        None \<Rightarrow> False
      | Some t \<Rightarrow> ssn_is_valid (ssn_at s t) \<and> i \<noteq> t
          \<and> ssn_TypeOfSvc (ssn_at s i) = ToS_TopologyDiscovery
          \<and> ssn_mapper_real (ssn_at s i) \<noteq> ssn_mapper_real (ssn_at s t))"

definition cmd_timeout :: "nat \<Rightarrow> lltd \<Rightarrow> int" where
  "cmd_timeout i s =
     (if ssn_TypeOfSvc (ssn_at s i) = ToS_TopologyDiscovery
      then TOPO_CMD_ACTIVITYTIMEOUT else TOPO_GENERAL_ACTIVITYTIMEOUT)"

definition set_acking :: "bool \<Rightarrow> lltd \<Rightarrow> lltd" where
  "set_acking b s = s\<lparr>g_this_event := (g_this_event s)\<lparr>isAckingMe := b\<rparr>\<rparr>"

definition set_ssn_state :: "nat \<Rightarrow> smS_state \<Rightarrow> lltd \<Rightarrow> lltd" where
  "set_ssn_state i st s = upd_ssn i (\<lambda>x. x\<lparr>ssn_state := st\<rparr>) s"

section \<open>Handlers\<close>

definition smS_NascentHandler :: "nat \<Rightarrow> lltd \<Rightarrow> sm_result" where
  "smS_NascentHandler i s =
     (case evtType (g_this_event s) of
        evtDiscoverRcvd \<Rightarrow>
          let s1 = (if ssn_TypeOfSvc (ssn_at s i) = ToS_TopologyDiscovery
                      \<and> (case g_topo_session s of None \<Rightarrow> True
                          | Some t \<Rightarrow> \<not> ssn_is_valid (ssn_at s t))
                    then s\<lparr>g_topo_session := Some i\<rparr> else s)
          in if is_conflicting_ssn i s1 then completed (set_ssn_state i smS_Temporary s1)
             else if is_acking_me s1 then
               let s2 = set_ssn_state i smS_Complete (set_acking True s1)
               in completed (restart_inactivity_timer (cmd_timeout i s2) s2)
             else completed (restart_inactivity_timer TOPO_HELLO_ACTIVITYTIMEOUT
                    (set_ssn_state i smS_Pending (set_acking False s1)))
      | _ \<Rightarrow> completed s)"

text \<open>The arcs for a changed transaction identifier: smT is sent a faked reset, then the session
  becomes the topology session again and takes the new identifier.\<close>

definition xid_changed :: "nat \<Rightarrow> lltd \<Rightarrow> bool" where
  "xid_changed i s \<longleftrightarrow> g_sequencenum s \<noteq> 0 \<and> ssn_XID (ssn_at s i) \<noteq> g_sequencenum s
     \<and> g_topo_session s = Some i"

definition xid_reset :: "nat \<Rightarrow> lltd \<Rightarrow> lltd option" where
  "xid_reset i s =
     (let isActuallyInternal = isInternalEvt (g_this_event s);
          s1 = s\<lparr>g_this_event := (g_this_event s)\<lparr>evtType := evtResetRcvd, isInternalEvt := True\<rparr>\<rparr>
      in do { (_, s2) \<leftarrow> smT_process_event s1;
              let s3 = s2\<lparr>g_this_event := (g_this_event s2)\<lparr>evtType := evtDiscoverRcvd,
                           isInternalEvt := isActuallyInternal\<rparr>, g_topo_session := Some i\<rparr>
              in Some (upd_ssn i (\<lambda>x. x\<lparr>ssn_XID := g_sequencenum s3\<rparr>) s3) })"

definition xid_check :: "nat \<Rightarrow> lltd \<Rightarrow> lltd option" where
  "xid_check i s = (if xid_changed i s then xid_reset i s else Some s)"

text \<open>Leaving for Nascent: the state, the timer and the valid flag.\<close>

definition drop_session :: "nat \<Rightarrow> lltd \<Rightarrow> lltd" where
  "drop_session i s =
     upd_ssn i (\<lambda>x. x\<lparr>ssn_is_valid := False\<rparr>)
       (CANCEL (State_inactivity_timeout i) (set_ssn_state i smS_Nascent s))"

fun drop_temporaries :: "nat list \<Rightarrow> lltd \<Rightarrow> lltd" where
  "drop_temporaries [] s = s"
| "drop_temporaries (i # is) s =
     drop_temporaries is
       (if ssn_is_valid (ssn_at s i) \<and> ssn_state (ssn_at s i) = smS_Temporary
        then drop_session i s else s)"

definition is_topo :: "nat \<Rightarrow> lltd \<Rightarrow> bool" where
  "is_topo i s \<longleftrightarrow> g_topo_session s = Some i \<and> ssn_is_valid (ssn_at s i)"

definition smS_pending_reset :: "nat \<Rightarrow> lltd \<Rightarrow> sm_result" where
  "smS_pending_reset i s =
     (let s1 = (if is_topo i s then drop_temporaries [0..<MAX_NUM_SESSIONS] s else s)
      in completed (packetio_invalidate_retxbuf (drop_session i s1)))"

definition smS_PendingHandler :: "nat \<Rightarrow> lltd \<Rightarrow> sm_result" where
  "smS_PendingHandler i s =
     (case evtType (g_this_event s) of
        evtDiscoverRcvd \<Rightarrow>
          if is_acking_me s then
            do { s1 \<leftarrow> xid_check i (set_acking True s);
                 let s2 = set_ssn_state i smS_Complete s1
                 in completed (restart_inactivity_timer (cmd_timeout i s2) s2) }
          else
            do { s1 \<leftarrow> xid_check i s;
                 completed (restart_inactivity_timer TOPO_HELLO_ACTIVITYTIMEOUT s1) }
      | evtInactivityTimeout \<Rightarrow> smS_pending_reset i s
      | evtResetRcvd \<Rightarrow> smS_pending_reset i s
      | evtHelloDelayTimeout \<Rightarrow>
          let s1 = upd_ssn i (\<lambda>x. x\<lparr>ssn_count := ssn_count x - 1\<rparr>) s
          in completed (if ssn_count (ssn_at s1 i) = 0 then set_ssn_state i smS_Complete s1 else s1)
      | _ \<Rightarrow> completed s)"

definition smS_TemporaryHandler :: "nat \<Rightarrow> lltd \<Rightarrow> sm_result" where
  "smS_TemporaryHandler i s =
     (case evtType (g_this_event s) of
        evtInactivityTimeout \<Rightarrow> completed (drop_session i s)
      | evtResetRcvd \<Rightarrow> completed (drop_session i s)
      | evtHelloDelayTimeout \<Rightarrow> completed (drop_session i s)
      | _ \<Rightarrow> completed s)"

definition smS_complete_reset :: "nat \<Rightarrow> lltd \<Rightarrow> sm_result" where
  "smS_complete_reset i s =
     (let s1 = (if is_topo i s
                then (drop_temporaries [0..<MAX_NUM_SESSIONS] s)\<lparr>g_promisc := False\<rparr> else s)
      in completed (packetio_invalidate_retxbuf (drop_session i s1)))"

definition smS_CompleteHandler :: "nat \<Rightarrow> lltd \<Rightarrow> sm_result" where
  "smS_CompleteHandler i s =
     (case evtType (g_this_event s) of
        evtInactivityTimeout \<Rightarrow> smS_complete_reset i s
      | evtResetRcvd \<Rightarrow> smS_complete_reset i s
      | evtDiscoverRcvd \<Rightarrow>
          if is_acking_me s then
            do { s1 \<leftarrow> xid_check i (set_acking True s);
                 completed (restart_inactivity_timer (cmd_timeout i s1) s1) }
          else if xid_changed i s then
            do { s1 \<leftarrow> xid_reset i s;
                 completed (restart_inactivity_timer TOPO_HELLO_ACTIVITYTIMEOUT
                   (set_ssn_state i smS_Pending s1)) }
          else completed (restart_inactivity_timer (cmd_timeout i s) s)
      | evtEmitRcvd \<Rightarrow> completed (restart_inactivity_timer (cmd_timeout i s) s)
      | evtPacketRcvd \<Rightarrow> completed (restart_inactivity_timer (cmd_timeout i s) s)
      | _ \<Rightarrow> completed s)"

definition smS_process_event :: "lltd \<Rightarrow> sm_result" where
  "smS_process_event s =
     (case ev_ssn (g_this_event s) of
        None \<Rightarrow> completed s
      | Some i \<Rightarrow>
          (case ssn_state (ssn_at s i) of
             smS_Nascent \<Rightarrow> smS_NascentHandler i s
           | smS_Pending \<Rightarrow> smS_PendingHandler i s
           | smS_Temporary \<Rightarrow> smS_TemporaryHandler i s
           | smS_Complete \<Rightarrow> smS_CompleteHandler i s))"

section \<open>Updates of the session table\<close>

text \<open>Everything but the session table, the topology session and the queue of events.\<close>

definition sess_same :: "lltd \<Rightarrow> lltd \<Rightarrow> bool" where
  "sess_same s s' \<longleftrightarrow>
     g_hwaddr s' = g_hwaddr s
     \<and> g_smE_state s' = g_smE_state s
     \<and> g_smT_state s' = g_smT_state s
     \<and> g_this_event s' = g_this_event s
     \<and> g_info s' = g_info s
     \<and> g_Tlvs s' = g_Tlvs s
     \<and> g_rxbuf s' = g_rxbuf s
     \<and> g_txbuf s' = g_txbuf s
     \<and> g_re_txbuf s' = g_re_txbuf s
     \<and> g_rcvd_pkt_len s' = g_rcvd_pkt_len s
     \<and> g_re_tx_len s' = g_re_tx_len s
     \<and> g_opcode s' = g_opcode s
     \<and> g_sequencenum s' = g_sequencenum s
     \<and> g_emitbuf s' = g_emitbuf s
     \<and> g_emit_remaining s' = g_emit_remaining s
     \<and> g_emitdesc s' = g_emitdesc s
     \<and> g_sees s' = g_sees s
     \<and> g_block_timer s' = g_block_timer s
     \<and> g_charge_timer s' = g_charge_timer s
     \<and> g_emit_timer s' = g_emit_timer s
     \<and> g_hello_timer s' = g_hello_timer s
     \<and> os_get s' = os_get s
     \<and> os_write_ok s' = os_write_ok s"

lemma sess_same_refl [simp]: "sess_same s s"
  by (simp add: sess_same_def)

lemma sess_same_trans: "sess_same s t \<Longrightarrow> sess_same t u \<Longrightarrow> sess_same s u"
  by (simp add: sess_same_def)

lemma sess_same_upd_ssn [simp]: "sess_same s (upd_ssn i f t) = sess_same s t"
  by (simp add: sess_same_def upd_ssn_def)

lemma lltd_inv_sess:
  assumes "lltd_inv xb xe xt xq xn s" "sess_same s s'" "timers_ok s'"
    "sess_inv xn' (g_sessions s')" "topo_inv xt' (g_topo_session s') (g_sessions s')"
    "enum_inv xb xq' (g_smE_state s) (g_block_timer s) (g_hello_timer s) (g_sessions s')"
    "g_topo_session s' = None \<Longrightarrow> g_topo_session s = None"
  shows "lltd_inv xb xe xt' xq' xn' s'"
  using assms unfolding lltd_inv_def sess_same_def emit_inv_def by auto

lemma sess_inv_update:
  assumes "sess_inv xn ss" "xn = None \<or> xn = Some i" "i < MAX_NUM_SESSIONS"
    "sess_ok x" "length (ssn_mapper_real x) = 6" "length (ssn_mapper_current x) = 6"
  shows "sess_inv None (ss[i := x])"
  using assms unfolding sess_inv_def by (auto simp: nth_list_update)

lemma topo_inv_update:
  assumes "topo_inv xt topo ss" "length ss = MAX_NUM_SESSIONS"
    "topo = Some i \<Longrightarrow> xt' = Some i \<or> ssn_is_valid x \<and> ssn_state x \<in> {smS_Pending, smS_Complete}"
    "xt = None \<or> xt = xt' \<or> xt = Some i"
  shows "topo_inv xt' topo (ss[i := x])"
  using assms unfolding topo_inv_def by (auto simp: nth_upd)

lemma enum_inv_update:
  assumes "enum_inv xb xq st bl he ss" "length ss = MAX_NUM_SESSIONS"
    "st = smE_Quiescent \<Longrightarrow> xq' = Some i \<or> \<not> ssn_is_valid x"
    "xq = None \<or> xq = xq' \<or> xq = Some i"
  shows "enum_inv xb xq' st bl he (ss[i := x])"
  using assms unfolding enum_inv_def by (auto simp: nth_upd split: if_splits)

lemma enum_inv_valid:
  "enum_inv xb xq st bl he ss \<Longrightarrow> i < MAX_NUM_SESSIONS \<Longrightarrow> ssn_is_valid (ss ! i) \<Longrightarrow>
   st = smE_Quiescent \<Longrightarrow> xq = Some i"
  by (auto simp: enum_inv_def)

lemma map_timer_update:
  "ssn_InactivityTimer x = ssn_InactivityTimer (ss ! i) \<Longrightarrow>
   map ssn_InactivityTimer (ss[i := x]) = map ssn_InactivityTimer ss"
  by (cases "i < length ss") (auto simp: map_update list_update_same_conv list_update_beyond)

lemma timers_ok_upd_ssn:
  assumes "\<And>x. ssn_InactivityTimer (f x) = ssn_InactivityTimer x"
  shows "timers_ok (upd_ssn i f s) = timers_ok s"
  using map_timer_update [of "f (g_sessions s ! i)" "g_sessions s" i] assms by (simp add: upd_ssn_def)

lemma ssn_upd_ssn: "i < length (g_sessions s) \<Longrightarrow> ssn_at (upd_ssn i f s) i = f (ssn_at s i)"
  by (simp add: upd_ssn_def ssn_at_def)

lemma g_sessions_upd_ssn: "g_sessions (upd_ssn i f s) = (g_sessions s)[i := f (g_sessions s ! i)]"
  by (simp add: upd_ssn_def)

lemma g_topo_upd_ssn [simp]: "g_topo_session (upd_ssn i f s) = g_topo_session s"
  by (simp add: upd_ssn_def)

lemma restart_inactivity_ok:
  assumes t: "timers_ok s" and i: "ev_ssn (g_this_event s) = Some i" "i < length (g_sessions s)"
    "ssn_is_valid (g_sessions s ! i)"
  shows "\<exists>p. sess_same s (restart_inactivity_timer ms s) \<and> timers_ok (restart_inactivity_timer ms s)
    \<and> g_topo_session (restart_inactivity_timer ms s) = g_topo_session s
    \<and> g_sessions (restart_inactivity_timer ms s) =
        (g_sessions s)[i := (g_sessions s ! i)\<lparr>ssn_InactivityTimer := p\<rparr>]"
proof -
  have eq: "restart_inactivity_timer ms s = restart_timer (State_inactivity_timeout i) ms s"
    using i by (simp add: restart_inactivity_timer_def ssn_at_def)
  obtain q e where r: "restart_timer (State_inactivity_timeout i) ms s =
      set_timer_ptr (State_inactivity_timeout i) (Some e) (s\<lparr>os_calls := Suc (os_calls s), g_evq := q\<rparr>)"
    "timers_ok (set_timer_ptr (State_inactivity_timeout i) (Some e)
      (s\<lparr>os_calls := Suc (os_calls s), g_evq := q\<rparr>))"
    by (rule restart_timer_spec [OF t, of "State_inactivity_timeout i" ms]) (use i in simp_all)
  show ?thesis
    by (rule exI [of _ "Some e"]) (use r(2) in \<open>simp add: eq r(1) sess_same_def upd_ssn_def\<close>)
qed

lemma drop_session_ok:
  assumes t: "timers_ok s" and i: "i < length (g_sessions s)"
  shows "sess_same s (drop_session i s)" "timers_ok (drop_session i s)"
    "g_topo_session (drop_session i s) = g_topo_session s"
    "g_sessions (drop_session i s) = (g_sessions s)[i := (g_sessions s ! i)\<lparr>ssn_state := smS_Nascent,
       ssn_InactivityTimer := None, ssn_is_valid := False\<rparr>]"
proof -
  let ?s = "set_ssn_state i smS_Nascent s"
  have s1: "timers_ok ?s" "fn_ok (State_inactivity_timeout i) ?s" "sess_same s ?s"
    "g_topo_session ?s = g_topo_session s"
    "g_sessions ?s = (g_sessions s)[i := (g_sessions s ! i)\<lparr>ssn_state := smS_Nascent\<rparr>]"
    using t i timers_ok_upd_ssn [of "\<lambda>x. x\<lparr>ssn_state := smS_Nascent\<rparr>" i s]
    by (simp_all add: set_ssn_state_def) (simp_all add: upd_ssn_def)
  obtain q where c: "CANCEL (State_inactivity_timeout i) ?s =
      set_timer_ptr (State_inactivity_timeout i) None (?s\<lparr>g_evq := q\<rparr>)"
    "timers_ok (set_timer_ptr (State_inactivity_timeout i) None (?s\<lparr>g_evq := q\<rparr>))"
    by (rule CANCEL_spec [OF s1(1,2)])
  show "timers_ok (drop_session i s)"
    unfolding drop_session_def c(1)
    using c(2) timers_ok_upd_ssn [of "\<lambda>x. x\<lparr>ssn_is_valid := False\<rparr>" i] by simp
  show "sess_same s (drop_session i s)"
    using s1(3) unfolding drop_session_def c(1) by (simp add: sess_same_def upd_ssn_def)
  show "g_topo_session (drop_session i s) = g_topo_session s"
    unfolding drop_session_def c(1) by (simp add: s1(4))
  show "g_sessions (drop_session i s) = (g_sessions s)[i := (g_sessions s ! i)\<lparr>ssn_state := smS_Nascent,
       ssn_InactivityTimer := None, ssn_is_valid := False\<rparr>]"
    unfolding drop_session_def c(1) using i by (simp add: upd_ssn_def s1(5))
qed

lemma lltd_inv_length: "lltd_inv xb xe xt xq xn s \<Longrightarrow> length (g_sessions s) = MAX_NUM_SESSIONS"
  by (simp add: lltd_inv_def sess_inv_def)

lemma lltd_inv_mapper:
  assumes "lltd_inv xb xe xt xq xn s" "i < MAX_NUM_SESSIONS"
  shows "length (ssn_mapper_real (g_sessions s ! i)) = 6"
    "length (ssn_mapper_current (g_sessions s ! i)) = 6"
  using assms by (auto simp: lltd_inv_def sess_inv_def)

text \<open>A step that only rewrites session \<open>i\<close>.\<close>

lemma lltd_inv_one_session:
  assumes inv: "lltd_inv xb xe xt xq xn s" and i: "i < MAX_NUM_SESSIONS" "xn = None \<or> xn = Some i"
    and s': "sess_same s s'" "timers_ok s'" "g_topo_session s' = g_topo_session s"
      "g_sessions s' = (g_sessions s)[i := x]"
    and x: "sess_ok x" "ssn_mapper_real x = ssn_mapper_real (g_sessions s ! i)"
      "ssn_mapper_current x = ssn_mapper_current (g_sessions s ! i)"
      "ssn_is_valid x \<Longrightarrow> ssn_is_valid (g_sessions s ! i)"
    and t: "g_topo_session s = Some i \<Longrightarrow>
        xt' = Some i \<or> ssn_is_valid x \<and> ssn_state x \<in> {smS_Pending, smS_Complete}"
      "xt = None \<or> xt = xt' \<or> xt = Some i"
  shows "lltd_inv xb xe xt' xq None s'"
proof (rule lltd_inv_sess [OF inv s'(1,2)])
  note len = lltd_inv_length [OF inv]
  have parts: "sess_inv xn (g_sessions s)" "topo_inv xt (g_topo_session s) (g_sessions s)"
    "enum_inv xb xq (g_smE_state s) (g_block_timer s) (g_hello_timer s) (g_sessions s)"
    using inv by (simp_all add: lltd_inv_def)
  show "sess_inv None (g_sessions s')" unfolding s'(4)
    by (rule sess_inv_update [OF parts(1) i(2,1) x(1)])
      (use lltd_inv_mapper [OF inv i(1)] x in simp_all)
  show "topo_inv xt' (g_topo_session s') (g_sessions s')" unfolding s'(3,4)
    by (rule topo_inv_update [OF parts(2) len t])
  show "enum_inv xb xq (g_smE_state s) (g_block_timer s) (g_hello_timer s) (g_sessions s')"
    unfolding s'(4)
    by (rule enum_inv_update [OF parts(3) len]) (use enum_inv_valid [OF parts(3) i(1)] x in blast)+
  show "g_topo_session s' = None \<Longrightarrow> g_topo_session s = None" by (simp add: s'(3))
qed

lemma drop_session_inv:
  assumes inv: "lltd_inv xb xe xt xq None s" and i: "i < MAX_NUM_SESSIONS"
    and t: "g_topo_session s = Some i \<Longrightarrow> xt' = Some i" "xt = None \<or> xt = xt'"
  shows "lltd_inv xb xe xt' xq None (drop_session i s)"
  by (rule lltd_inv_one_session [OF inv i, of _
        "(g_sessions s ! i)\<lparr>ssn_state := smS_Nascent, ssn_InactivityTimer := None,
          ssn_is_valid := False\<rparr>"])
    (use drop_session_ok [OF lltd_inv_timers [OF inv], of i] lltd_inv_length [OF inv] i t
      in \<open>auto simp: sess_ok_def\<close>)

lemma drop_temporaries_ok:
  assumes "lltd_inv xb xe None xq None s" "\<forall>i \<in> set is. i < MAX_NUM_SESSIONS"
  shows "lltd_inv xb xe None xq None (drop_temporaries is s) \<and> sess_same s (drop_temporaries is s)
    \<and> g_topo_session (drop_temporaries is s) = g_topo_session s
    \<and> (\<forall>j. ssn_state (g_sessions s ! j) \<noteq> smS_Temporary \<longrightarrow>
         g_sessions (drop_temporaries is s) ! j = g_sessions s ! j)"
  using assms
proof (induction "is" arbitrary: s)
  case Nil
  then show ?case by simp
next
  case (Cons i "is")
  let ?s = "if ssn_is_valid (ssn_at s i) \<and> ssn_state (ssn_at s i) = smS_Temporary
      then drop_session i s else s"
  have i: "i < MAX_NUM_SESSIONS" using Cons.prems by simp
  note d = drop_session_ok [OF lltd_inv_timers [OF Cons.prems(1)], of i]
  have nt: "g_topo_session s \<noteq> Some i" if "ssn_state (ssn_at s i) = smS_Temporary"
    using Cons.prems(1) that by (auto simp: lltd_inv_def topo_inv_def ssn_at_def)
  have s1: "lltd_inv xb xe None xq None ?s"
    using Cons.prems(1) drop_session_inv [OF Cons.prems(1) i, of None] nt by auto
  have same: "sess_same s ?s" "g_topo_session ?s = g_topo_session s"
    using d lltd_inv_length [OF Cons.prems(1)] i by simp_all
  have keep: "g_sessions ?s ! j = g_sessions s ! j" if "ssn_state (g_sessions s ! j) \<noteq> smS_Temporary" for j
    using d(4) lltd_inv_length [OF Cons.prems(1)] i that
    by (cases "j = i") (auto simp: ssn_at_def nth_list_update)
  from Cons.IH [OF s1] Cons.prems(2) same keep show ?case
    by (auto intro: sess_same_trans)
qed

section \<open>The machine returns and keeps the invariant\<close>

definition S_same :: "lltd \<Rightarrow> lltd \<Rightarrow> bool" where
  "S_same s s' \<longleftrightarrow> evtType (g_this_event s') = evtType (g_this_event s)
     \<and> ev_ssn (g_this_event s') = ev_ssn (g_this_event s)
     \<and> isNewSession (g_this_event s') = isNewSession (g_this_event s)
     \<and> numDescrs (g_this_event s') = numDescrs (g_this_event s)
     \<and> g_rcvd_pkt_len s' = g_rcvd_pkt_len s \<and> g_smE_state s' = g_smE_state s"

lemma S_same_sess: "sess_same s s' \<Longrightarrow> S_same s s'"
  by (simp add: S_same_def sess_same_def)

lemma S_same_trans: "S_same s t \<Longrightarrow> S_same t u \<Longrightarrow> S_same s u"
  by (simp add: S_same_def)

definition reset_event :: "smEvent \<Rightarrow> bool" where
  "reset_event e \<longleftrightarrow> e \<in> {evtResetRcvd, evtInactivityTimeout}"

definition smS_pre :: "nat \<Rightarrow> nat option \<Rightarrow> lltd \<Rightarrow> bool" where
  "smS_pre i xq s \<longleftrightarrow> lltd_inv False False None xq xq s \<and> ev_ssn (g_this_event s) = Some i
     \<and> i < MAX_NUM_SESSIONS \<and> ssn_is_valid (g_sessions s ! i)
     \<and> (xq \<noteq> None \<longrightarrow> xq = Some i \<and> evtType (g_this_event s) = evtDiscoverRcvd)"

definition smS_post :: "nat \<Rightarrow> nat option \<Rightarrow> lltd \<Rightarrow> sm_result \<Rightarrow> bool" where
  "smS_post i xq s r \<longleftrightarrow> (\<exists>s'. r = completed s' \<and> S_same s s' \<and>
     lltd_inv False False (if reset_event (evtType (g_this_event s)) then Some i else None) xq None s')"

lemma smS_post_completed:
  "smS_post i xq s (completed s') \<longleftrightarrow> S_same s s' \<and>
   lltd_inv False False (if reset_event (evtType (g_this_event s)) then Some i else None) xq None s'"
  by (simp add: smS_post_def)

lemma lltd_inv_acking [simp]:
  "lltd_inv xb xe xt xq xn (set_acking b s) = lltd_inv xb xe xt xq xn s"
  by (simp add: set_acking_def lltd_inv_def)

lemma set_acking_simps [simp]:
  "g_sessions (set_acking b s) = g_sessions s" "S_same s (set_acking b s)"
  "g_topo_session (set_acking b s) = g_topo_session s"
  "ev_ssn (g_this_event (set_acking b s)) = ev_ssn (g_this_event s)"
  "evtType (g_this_event (set_acking b s)) = evtType (g_this_event s)"
  by (simp_all add: set_acking_def S_same_def)

text \<open>Setting the state of the valid session \<open>i\<close> and restarting its timer.\<close>

lemma set_state_timer_ok:
  assumes inv: "lltd_inv xb xe xt xq xn s" and ev: "ev_ssn (g_this_event s) = Some i"
    and i: "i < MAX_NUM_SESSIONS" "ssn_is_valid (g_sessions s ! i)" "xn = None \<or> xn = Some i"
    and st: "st \<in> {smS_Pending, smS_Complete}" and xt: "xt = None \<or> xt = Some i"
  shows "lltd_inv xb xe None xq None (restart_inactivity_timer ms (set_ssn_state i st s))"
    "S_same s (restart_inactivity_timer ms (set_ssn_state i st s))"
proof -
  let ?s = "set_ssn_state i st s"
  have len: "i < length (g_sessions s)" using lltd_inv_length [OF inv] i by simp
  have s1: "timers_ok ?s" "sess_same s ?s" "ev_ssn (g_this_event ?s) = Some i"
    "g_topo_session ?s = g_topo_session s"
    "g_sessions ?s = (g_sessions s)[i := (g_sessions s ! i)\<lparr>ssn_state := st\<rparr>]"
    using lltd_inv_timers [OF inv] ev timers_ok_upd_ssn [of "\<lambda>x. x\<lparr>ssn_state := st\<rparr>" i s]
    by (simp_all add: set_ssn_state_def) (simp_all add: upd_ssn_def)
  obtain p where r: "sess_same ?s (restart_inactivity_timer ms ?s)"
    "timers_ok (restart_inactivity_timer ms ?s)"
    "g_topo_session (restart_inactivity_timer ms ?s) = g_topo_session ?s"
    "g_sessions (restart_inactivity_timer ms ?s) =
        (g_sessions ?s)[i := (g_sessions ?s ! i)\<lparr>ssn_InactivityTimer := p\<rparr>]"
    using restart_inactivity_ok [OF s1(1,3), of ms] len i(2) by (auto simp: s1(5))
  have same: "sess_same s (restart_inactivity_timer ms ?s)"
    by (rule sess_same_trans [OF s1(2) r(1)])
  show "lltd_inv xb xe None xq None (restart_inactivity_timer ms ?s)"
    by (rule lltd_inv_one_session [OF inv i(1,3) same r(2), of
          "(g_sessions s ! i)\<lparr>ssn_state := st, ssn_InactivityTimer := p\<rparr>"])
      (use st i(2) xt len in \<open>auto simp: r(3,4) s1(4,5) sess_ok_def\<close>)
  show "S_same s (restart_inactivity_timer ms ?s)" by (rule S_same_sess [OF same])
qed

lemma set_ssn_state_id:
  "i < length (g_sessions s) \<Longrightarrow> set_ssn_state i (ssn_state (g_sessions s ! i)) s = s"
  by (simp add: set_ssn_state_def upd_ssn_def)

lemma restart_only_ok:
  assumes inv: "lltd_inv xb xe None xq None s" and ev: "ev_ssn (g_this_event s) = Some i"
    and i: "i < MAX_NUM_SESSIONS" "ssn_is_valid (g_sessions s ! i)"
    and st: "ssn_state (g_sessions s ! i) \<in> {smS_Pending, smS_Complete}"
  shows "lltd_inv xb xe None xq None (restart_inactivity_timer ms s)"
    "S_same s (restart_inactivity_timer ms s)"
  using set_state_timer_ok [OF inv ev i _ st, of ms] set_ssn_state_id [of i s]
    lltd_inv_length [OF inv] i by simp_all

lemma smS_Nascent_ok:
  assumes pre: "smS_pre i xq s" and st: "ssn_state (g_sessions s ! i) = smS_Nascent"
  shows "smS_post i xq s (smS_NascentHandler i s)"
proof -
  have inv: "lltd_inv False False None xq xq s" and ev: "ev_ssn (g_this_event s) = Some i"
    and i: "i < MAX_NUM_SESSIONS" "ssn_is_valid (g_sessions s ! i)"
    using pre by (auto simp: smS_pre_def)
  have "sess_inv xq (g_sessions s)" using inv by (simp add: lltd_inv_def)
  then have xq: "xq = Some i" using i st by (auto simp: sess_inv_def sess_ok_def split: if_splits)
  then have d: "evtType (g_this_event s) = evtDiscoverRcvd" using pre by (simp add: smS_pre_def)
  have nt: "g_topo_session s \<noteq> Some i" using inv i st by (auto simp: lltd_inv_def topo_inv_def)
  have tv: "ssn_is_valid (ssn_at s t)" if "g_topo_session s = Some t" for t
    using inv that by (auto simp: lltd_inv_def topo_inv_def ssn_at_def)
  let ?s1 = "if ssn_TypeOfSvc (ssn_at s i) = ToS_TopologyDiscovery
      \<and> (case g_topo_session s of None \<Rightarrow> True | Some t \<Rightarrow> \<not> ssn_is_valid (ssn_at s t))
    then s\<lparr>g_topo_session := Some i\<rparr> else s"
  show ?thesis
  proof (cases "g_topo_session s = None \<and> ssn_TypeOfSvc (ssn_at s i) = ToS_TopologyDiscovery")
    case True
    then have s1: "?s1 = s\<lparr>g_topo_session := Some i\<rparr>" by simp
    have "lltd_inv False False (Some i) xq xq (s\<lparr>g_topo_session := Some i\<rparr>)"
      using inv i(1) by (auto simp: lltd_inv_def topo_inv_def emit_inv_def split: if_splits)
    then have inv1: "lltd_inv False False (Some i) xq xq (set_acking b (s\<lparr>g_topo_session := Some i\<rparr>))"
      for b by simp
    have out: "smS_post i xq s (completed (restart_inactivity_timer ms
        (set_ssn_state i st' (set_acking b (s\<lparr>g_topo_session := Some i\<rparr>)))))"
      if st': "st' \<in> {smS_Pending, smS_Complete}" for st' ms b
    proof -
      have "S_same s (set_acking b (s\<lparr>g_topo_session := Some i\<rparr>))"
        by (simp add: S_same_def set_acking_def)
      then show ?thesis
        using set_state_timer_ok [OF inv1 [of b] _ i(1) _ _ st', of ms] ev i xq d S_same_trans
        by (auto simp: smS_post_completed reset_event_def)
    qed
    have "\<not> is_conflicting_ssn i ?s1" unfolding s1 by (simp add: is_conflicting_ssn_def)
    then show ?thesis using out d s1
      by (simp add: smS_NascentHandler_def Let_def)
  next
    case False
    then have s1: "?s1 = s" using tv by (auto split: option.splits)
    have out: "smS_post i xq s (completed (restart_inactivity_timer ms (set_ssn_state i st' (set_acking b s))))"
      if st': "st' \<in> {smS_Pending, smS_Complete}" for st' ms b
      using set_state_timer_ok [of False False None xq xq "set_acking b s" i st' ms] inv ev i xq d st'
        S_same_trans [OF set_acking_simps(2)]
      by (auto simp: smS_post_completed reset_event_def)
    have tmp: "lltd_inv False False None xq None (set_ssn_state i smS_Temporary s)"
      by (rule lltd_inv_one_session [OF inv i(1), of _ "(g_sessions s ! i)\<lparr>ssn_state := smS_Temporary\<rparr>"])
        (use xq i nt lltd_inv_timers [OF inv] timers_ok_upd_ssn [of "\<lambda>x. x\<lparr>ssn_state := smS_Temporary\<rparr>" i s]
          in \<open>simp_all add: set_ssn_state_def sess_ok_def g_sessions_upd_ssn\<close>)
    have "smS_post i xq s (completed (set_ssn_state i smS_Temporary s))"
      using tmp d by (simp add: smS_post_completed reset_event_def S_same_sess set_ssn_state_def)
    with out d s1 show ?thesis by (simp add: smS_NascentHandler_def Let_def)
  qed
qed


lemma lltd_inv_event:
  "ssn_inv (ev_ssn e) \<Longrightarrow> lltd_inv xb xe xt xq xn (s\<lparr>g_this_event := e\<rparr>) = lltd_inv xb xe xt xq xn
     (s\<lparr>g_this_event := (g_this_event s)\<lparr>ev_ssn := None\<rparr>\<rparr>)"
  by (simp add: lltd_inv_def ssn_inv_def)

text \<open>The changed-identifier arcs reset smT and leave the session as it was, with the new
  identifier.\<close>

lemma xid_reset_ok:
  assumes inv: "lltd_ok s" and ev: "ev_ssn (g_this_event s) = Some i"
      "evtType (g_this_event s) = evtDiscoverRcvd"
    and x: "xid_changed i s"
  shows "\<exists>s'. xid_reset i s = Some s' \<and> lltd_ok s' \<and> S_same s s'
    \<and> g_sessions s' = (g_sessions s)[i := (g_sessions s ! i)\<lparr>ssn_XID := g_sequencenum s\<rparr>]"
proof -
  have t: "g_topo_session s = Some i" using x by (simp add: xid_changed_def)
  have i: "i < MAX_NUM_SESSIONS" "ssn_is_valid (g_sessions s ! i)"
    "ssn_state (g_sessions s ! i) \<in> {smS_Pending, smS_Complete}"
    using inv t by (auto simp: lltd_inv_def topo_inv_def)
  let ?s1 = "s\<lparr>g_this_event := (g_this_event s)\<lparr>evtType := evtResetRcvd, isInternalEvt := True\<rparr>\<rparr>"
  have "lltd_ok ?s1" using inv by (simp add: lltd_inv_def)
  then obtain s2 where s2: "smT_process_event ?s1 = Some (PROCESSING_COMPLETED, s2)" "lltd_ok s2"
    "g_sessions s2 = g_sessions s" "g_this_event s2 = g_this_event ?s1"
    "g_smT_state s2 = smT_Quiescent" "g_sequencenum s2 = g_sequencenum s"
    "g_smE_state s2 = g_smE_state s" "g_rcvd_pkt_len s2 = g_rcvd_pkt_len s"
    using smT_reset_spec [of ?s1 i] ev t by auto
  let ?s3 = "s2\<lparr>g_this_event := (g_this_event s2)\<lparr>evtType := evtDiscoverRcvd,
      isInternalEvt := isInternalEvt (g_this_event s)\<rparr>, g_topo_session := Some i\<rparr>"
  have inv3: "lltd_ok ?s3"
    using s2(2,3,5) i by (auto simp: lltd_inv_def topo_inv_def emit_inv_def)
  let ?s4 = "upd_ssn i (\<lambda>x. x\<lparr>ssn_XID := g_sequencenum s\<rparr>) ?s3"
  have "lltd_ok ?s4"
    by (rule lltd_inv_one_session [OF inv3 i(1), of _ "(g_sessions s ! i)\<lparr>ssn_XID := g_sequencenum s\<rparr>"])
      (use i s2(3) lltd_inv_timers [OF inv3] timers_ok_upd_ssn [of "\<lambda>x. x\<lparr>ssn_XID := g_sequencenum s\<rparr>" i ?s3]
        in \<open>auto simp: g_sessions_upd_ssn sess_ok_def\<close>)
  moreover have "xid_reset i s = Some ?s4"
    using s2(1,6) by (simp add: xid_reset_def Let_def)
  moreover have "S_same s ?s4" using s2 ev by (simp add: S_same_def upd_ssn_def)
  ultimately show ?thesis using s2(3) by (simp add: g_sessions_upd_ssn)
qed

lemma xid_check_ok:
  assumes "lltd_ok s" "ev_ssn (g_this_event s) = Some i" "evtType (g_this_event s) = evtDiscoverRcvd"
    "i < MAX_NUM_SESSIONS" "ssn_is_valid (g_sessions s ! i)"
  shows "\<exists>s'. xid_check i s = Some s' \<and> lltd_ok s' \<and> S_same s s' \<and> ssn_is_valid (g_sessions s' ! i)
    \<and> ssn_state (g_sessions s' ! i) = ssn_state (g_sessions s ! i)"
  using xid_reset_ok [OF assms(1-3)] assms(1,4,5) lltd_inv_length [OF assms(1)]
  by (auto simp: xid_check_def S_same_def)

lemma reset_session_ok:
  assumes inv: "lltd_ok s" and i: "i < MAX_NUM_SESSIONS"
    and st: "ssn_state (g_sessions s ! i) \<noteq> smS_Temporary"
  shows "lltd_inv False False (Some i) None None (packetio_invalidate_retxbuf (drop_session i
      (if c then drop_temporaries [0..<MAX_NUM_SESSIONS] s else s)))"
    "S_same s (packetio_invalidate_retxbuf (drop_session i
      (if c then drop_temporaries [0..<MAX_NUM_SESSIONS] s else s)))"
proof -
  let ?s1 = "if c then drop_temporaries [0..<MAX_NUM_SESSIONS] s else s"
  have s1: "lltd_ok ?s1" "sess_same s ?s1"
    using drop_temporaries_ok [OF inv, of "[0..<MAX_NUM_SESSIONS]"] inv by simp_all
  have d: "lltd_inv False False (Some i) None None (drop_session i ?s1)"
    by (rule drop_session_inv [OF s1(1) i]) simp_all
  then show "lltd_inv False False (Some i) None None (packetio_invalidate_retxbuf (drop_session i ?s1))"
    by (simp add: packetio_invalidate_retxbuf_def lltd_inv_def buf_inv_def)
  have "sess_same s (drop_session i ?s1)"
    using sess_same_trans [OF s1(2)] drop_session_ok(1) [OF lltd_inv_timers [OF s1(1)], of i]
      lltd_inv_length [OF s1(1)] i by simp
  then show "S_same s (packetio_invalidate_retxbuf (drop_session i ?s1))"
    by (simp add: packetio_invalidate_retxbuf_def S_same_def sess_same_def)
qed

lemma complete_reset_eq:
  "(if c then (drop_temporaries is s)\<lparr>g_promisc := False\<rparr> else s) =
   (if c then drop_temporaries is s else s)\<lparr>g_promisc := (if c then False else g_promisc s)\<rparr>"
  by simp

lemma drop_session_promisc:
  "drop_session i (s\<lparr>g_promisc := p\<rparr>) = (drop_session i s)\<lparr>g_promisc := p\<rparr>"
  by (simp add: drop_session_def CANCEL_def set_ssn_state_def upd_ssn_def split: option.splits)

lemma smS_Pending_ok:
  assumes pre: "smS_pre i xq s" and st: "ssn_state (g_sessions s ! i) = smS_Pending"
  shows "smS_post i xq s (smS_PendingHandler i s)"
proof -
  have ev: "ev_ssn (g_this_event s) = Some i" and i: "i < MAX_NUM_SESSIONS" "ssn_is_valid (g_sessions s ! i)"
    and inv': "lltd_inv False False None xq xq s"
    using pre by (auto simp: smS_pre_def)
  have "xq \<noteq> Some i" using inv' i st by (auto simp: lltd_inv_def sess_inv_def)
  then have xq: "xq = None" using pre by (auto simp: smS_pre_def)
  then have inv: "lltd_ok s" using inv' by simp
  have len: "i < length (g_sessions s)" using lltd_inv_length [OF inv] i by simp
  show ?thesis
  proof (cases "evtType (g_this_event s) = evtDiscoverRcvd")
    case True
    obtain a where a: "xid_check i (set_acking True s) = Some a" "lltd_ok a" "S_same s a"
      "ssn_is_valid (g_sessions a ! i)"
      using xid_check_ok [of "set_acking True s" i] inv ev True i S_same_trans [OF set_acking_simps(2)]
      by auto
    obtain b where b: "xid_check i s = Some b" "lltd_ok b" "S_same s b" "ssn_is_valid (g_sessions b ! i)"
      "ssn_state (g_sessions b ! i) = smS_Pending"
      using xid_check_ok [OF inv ev True i] st by auto
    have eva: "ev_ssn (g_this_event a) = Some i" and evb: "ev_ssn (g_this_event b) = Some i"
      using a(3) b(3) ev by (simp_all add: S_same_def)
    have 1: "smS_post i xq s (completed (restart_inactivity_timer ms (set_ssn_state i smS_Complete a)))"
      for ms using set_state_timer_ok [OF a(2) eva i(1) a(4), of smS_Complete ms] a(3) xq True
        S_same_trans by (auto simp: smS_post_completed reset_event_def)
    have 2: "smS_post i xq s (completed (restart_inactivity_timer ms b))" for ms
      using restart_only_ok [OF b(2) evb i(1) b(4), of ms] b(3,5) xq True S_same_trans
      by (auto simp: smS_post_completed reset_event_def)
    show ?thesis using 1 2 a(1) b(1) True by (simp add: smS_PendingHandler_def Let_def)
  next
    case False
    have r: "smS_post i xq s (smS_pending_reset i s)" if "reset_event (evtType (g_this_event s))"
      using reset_session_ok [OF inv i(1)] st xq that
      by (simp add: smS_pending_reset_def smS_post_completed)
    let ?c = "upd_ssn i (\<lambda>x. x\<lparr>ssn_count := ssn_count x - 1\<rparr>) s"
    have c: "lltd_ok ?c"
      by (rule lltd_inv_one_session [OF inv i(1), of _
            "(g_sessions s ! i)\<lparr>ssn_count := ssn_count (g_sessions s ! i) - 1\<rparr>"])
        (use i st lltd_inv_timers [OF inv] timers_ok_upd_ssn [of "\<lambda>x. x\<lparr>ssn_count := ssn_count x - 1\<rparr>" i s]
          in \<open>auto simp: g_sessions_upd_ssn sess_ok_def\<close>)
    have c2: "lltd_ok (set_ssn_state i smS_Complete ?c)"
      by (rule lltd_inv_one_session [OF c i(1), of _
            "(g_sessions s ! i)\<lparr>ssn_count := ssn_count (g_sessions s ! i) - 1, ssn_state := smS_Complete\<rparr>"])
        (use i len lltd_inv_timers [OF c] timers_ok_upd_ssn [of "\<lambda>x. x\<lparr>ssn_state := smS_Complete\<rparr>" i ?c]
          in \<open>auto simp: g_sessions_upd_ssn sess_ok_def set_ssn_state_def\<close>)
    have cs: "S_same s ?c" "S_same s (set_ssn_state i smS_Complete ?c)" "S_same s s"
      by (simp_all add: S_same_sess set_ssn_state_def)
    show ?thesis
      using False r c c2 cs inv xq
      by (cases "evtType (g_this_event s)")
        (simp_all add: smS_PendingHandler_def smS_post_completed reset_event_def Let_def)
  qed
qed

lemma smS_Temporary_ok:
  assumes pre: "smS_pre i xq s" and st: "ssn_state (g_sessions s ! i) = smS_Temporary"
  shows "smS_post i xq s (smS_TemporaryHandler i s)"
proof -
  have i: "i < MAX_NUM_SESSIONS" and inv': "lltd_inv False False None xq xq s"
    using pre by (auto simp: smS_pre_def)
  have "xq \<noteq> Some i" using inv' i st by (auto simp: lltd_inv_def sess_inv_def)
  then have xq: "xq = None" using pre by (auto simp: smS_pre_def)
  then have inv: "lltd_ok s" using inv' by simp
  have nt: "g_topo_session s \<noteq> Some i" using inv st by (auto simp: lltd_inv_def topo_inv_def)
  have d: "lltd_inv False False xt None None (drop_session i s)" for xt
    by (rule drop_session_inv [OF inv i]) (use nt in simp_all)
  have "S_same s (drop_session i s)" "S_same s s"
    using S_same_sess drop_session_ok(1) [OF lltd_inv_timers [OF inv], of i] lltd_inv_length [OF inv] i
    by (simp_all add: S_same_def)
  with d inv xq show ?thesis
    by (cases "evtType (g_this_event s)")
      (simp_all add: smS_TemporaryHandler_def smS_post_completed reset_event_def)
qed

lemma smS_Complete_ok:
  assumes pre: "smS_pre i xq s" and st: "ssn_state (g_sessions s ! i) = smS_Complete"
  shows "smS_post i xq s (smS_CompleteHandler i s)"
proof -
  have ev: "ev_ssn (g_this_event s) = Some i" and i: "i < MAX_NUM_SESSIONS" "ssn_is_valid (g_sessions s ! i)"
    and inv': "lltd_inv False False None xq xq s"
    using pre by (auto simp: smS_pre_def)
  have "xq \<noteq> Some i" using inv' i st by (auto simp: lltd_inv_def sess_inv_def)
  then have xq: "xq = None" using pre by (auto simp: smS_pre_def)
  then have inv: "lltd_ok s" using inv' by simp
  have keep: "smS_post i xq s (completed (restart_inactivity_timer ms s))"
    if "\<not> reset_event (evtType (g_this_event s))" for ms
    using restart_only_ok [OF inv ev i, of ms] st xq that by (simp add: smS_post_completed)
  show ?thesis
  proof (cases "evtType (g_this_event s) = evtDiscoverRcvd")
    case True
    obtain a where a: "xid_check i (set_acking True s) = Some a" "lltd_ok a" "S_same s a"
      "ssn_is_valid (g_sessions a ! i)" "ssn_state (g_sessions a ! i) = smS_Complete"
      using xid_check_ok [of "set_acking True s" i] inv ev True i st S_same_trans [OF set_acking_simps(2)]
      by auto
    have eva: "ev_ssn (g_this_event a) = Some i" using a(3) ev by (simp add: S_same_def)
    have 1: "smS_post i xq s (completed (restart_inactivity_timer ms a))" for ms
      using restart_only_ok [OF a(2) eva i(1) a(4), of ms] a(3,5) xq True S_same_trans
      by (auto simp: smS_post_completed reset_event_def)
    have 2: "smS_post i xq s (do { s1 \<leftarrow> xid_reset i s; completed (restart_inactivity_timer ms
        (set_ssn_state i smS_Pending s1)) })" if xc: "xid_changed i s" for ms
    proof -
      obtain b where b: "xid_reset i s = Some b" "lltd_ok b" "S_same s b" "ssn_is_valid (g_sessions b ! i)"
        using xid_reset_ok [OF inv ev True xc] i lltd_inv_length [OF inv] by auto
      have evb: "ev_ssn (g_this_event b) = Some i" using b(3) ev by (simp add: S_same_def)
      show ?thesis
        using set_state_timer_ok [OF b(2) evb i(1) b(4), of smS_Pending ms] b xq True S_same_trans
        by (auto simp: smS_post_completed reset_event_def)
    qed
    show ?thesis using 1 2 keep a(1) True by (simp add: smS_CompleteHandler_def reset_event_def)
  next
    case False
    have r: "smS_post i xq s (smS_complete_reset i s)" if "reset_event (evtType (g_this_event s))"
      using reset_session_ok [OF inv i(1), of "is_topo i s"] st xq that
      by (simp add: smS_complete_reset_def smS_post_completed complete_reset_eq drop_session_promisc
          packetio_invalidate_retxbuf_def lltd_inv_def S_same_def del: if_split)
    show ?thesis
      using False r keep inv xq
      by (cases "evtType (g_this_event s)")
        (simp_all add: smS_CompleteHandler_def smS_post_completed reset_event_def S_same_def)
  qed
qed

lemma smS_process_event_ok:
  assumes "smS_pre i xq s"
  shows "smS_post i xq s (smS_process_event s)"
  using smS_Nascent_ok [OF assms] smS_Pending_ok [OF assms] smS_Temporary_ok [OF assms]
    smS_Complete_ok [OF assms] assms
  by (cases "ssn_state (g_sessions s ! i)") (auto simp: smS_process_event_def smS_pre_def ssn_at_def)

end
