(* ===== verification/Lltd_State.thy ===== *)
theory Lltd_State
  imports Lltd_Session
begin

text \<open>
  The entry points of the state machines: \<open>ms-lltd/state.c\<close>. A packet or a timeout is given to smS,
  smE and smT in this order.
\<close>

section \<open>The session table\<close>

fun find_index :: "('a \<Rightarrow> bool) \<Rightarrow> nat \<Rightarrow> 'a list \<Rightarrow> nat option" where
  "find_index P k [] = None"
| "find_index P k (x # xs) = (if P x then Some k else find_index P (Suc k) xs)"

definition find_session :: "u8 list \<Rightarrow> lltd \<Rightarrow> nat option" where
  "find_session addr s =
     find_index (\<lambda>x. ssn_is_valid x \<and> ssn_mapper_real x = addr) 0 (g_sessions s)"

definition new_session :: "lltd \<Rightarrow> (nat \<times> lltd) option" where
  "new_session s =
     (case find_index (\<lambda>x. \<not> ssn_is_valid x) 0 (g_sessions s) of
        None \<Rightarrow> None
      | Some i \<Rightarrow> Some (i, upd_ssn i (\<lambda>x. x\<lparr>ssn_is_valid := True, ssn_count := BAND_TXC,
          ssn_XID := 0, ssn_mapper_real := replicate 6 0, ssn_mapper_current := replicate 6 0,
          ssn_use_broadcast := True, ssn_TypeOfSvc := ToS_Unknown, ssn_InactivityTimer := None\<rparr>) s))"

section \<open>Packets\<close>

abbreviation set_event :: "(protocol_event \<Rightarrow> protocol_event) \<Rightarrow> lltd \<Rightarrow> lltd" where
  "set_event f s \<equiv> s\<lparr>g_this_event := f (g_this_event s)\<rparr>"

text \<open>The session of a packet: \<^term>\<open>None\<close> is a full table, for which the packet is dropped.\<close>

definition associate :: "lltd \<Rightarrow> (nat option \<times> lltd) option" where
  "associate s =
     (case find_session (tbh_realsrc s) s of
        Some i \<Rightarrow> Some (Some i, s)
      | None \<Rightarrow>
          if g_opcode s = Opcode_Discover then
            (case new_session s of
               None \<Rightarrow> None
             | Some (i, s1) \<Rightarrow>
                 Some (Some i, upd_ssn i (\<lambda>x. x\<lparr>ssn_XID := g_sequencenum s,
                     ssn_mapper_real := tbh_realsrc s, ssn_mapper_current := eh_src s,
                     ssn_TypeOfSvc := tbh_tos s\<rparr>)
                   (set_event (\<lambda>e. e\<lparr>isNewSession := True\<rparr>) s1)))
          else if g_opcode s = Opcode_Probe then
            Some (case g_topo_session s of
                    Some t \<Rightarrow> if ssn_is_valid (ssn_at s t) then Some t else None
                  | None \<Rightarrow> None, s)
          else Some (None, s))"

definition run_machines :: "lltd \<Rightarrow> lltd option" where
  "run_machines s =
     do { (st1, s1) \<leftarrow> smS_process_event s;
          (st2, s2) \<leftarrow> (if st1 \<noteq> PROCESSING_ABORTED then smE_process_event s1 else Some (st1, s1));
          (_, s3) \<leftarrow> (if st2 \<noteq> PROCESSING_ABORTED then smT_process_event s2 else Some (st2, s2));
          Some (set_event (\<lambda>e. e\<lparr>isNewSession := False\<rparr>) s3) }"

definition state_process_packet :: "lltd \<Rightarrow> lltd option" where
  "state_process_packet s =
     (let s0 = set_event (\<lambda>e. e\<lparr>isInternalEvt := False, isNewSession := False\<rparr>) s
      in case associate s0 of
           None \<Rightarrow> Some s0
         | Some (ssn, s1) \<Rightarrow> run_machines (set_event (\<lambda>e. e\<lparr>ev_ssn := ssn\<rparr>) s1))"

section \<open>Timeouts\<close>

fun hello_sessions :: "nat list \<Rightarrow> lltd \<Rightarrow> lltd option" where
  "hello_sessions [] s = Some s"
| "hello_sessions (i # is) s =
     (if ssn_is_valid (ssn_at s i)
      then do { (_, s1) \<leftarrow> smS_process_event (set_event (\<lambda>e. e\<lparr>ev_ssn := Some i\<rparr>) s);
                hello_sessions is s1 }
      else hello_sessions is s)"

definition state_process_timeout :: "lltd \<Rightarrow> lltd option" where
  "state_process_timeout s =
     (let s0 = set_event (\<lambda>e. e\<lparr>isNewSession := False, isAckingMe := False, isInternalEvt := False,
                  numDescrs := 0\<rparr>) (s\<lparr>g_rcvd_pkt_len := 0\<rparr>)
      in do {
        s1 \<leftarrow> (if evtType (g_this_event s0) = evtHelloDelayTimeout
               then map_option (set_event (\<lambda>e. e\<lparr>ev_ssn := None\<rparr>))
                      (hello_sessions [0..<MAX_NUM_SESSIONS] s0)
               else Some s0);
        s2 \<leftarrow> (if evtType (g_this_event s1) = evtInactivityTimeout
               then map_option snd (smS_process_event s1) else Some s1);
        (st, s3) \<leftarrow> smE_process_event s2;
        if st \<noteq> PROCESSING_ABORTED then map_option snd (smT_process_event s3) else Some s3 })"

definition state_block_timeout :: "lltd \<Rightarrow> lltd option" where
  "state_block_timeout s =
     state_process_timeout (set_event (\<lambda>e. e\<lparr>evtType := evtBlockTimeout\<rparr>)
       (s\<lparr>g_block_timer := None\<rparr>))"

definition state_charge_timeout :: "lltd \<Rightarrow> lltd option" where
  "state_charge_timeout s =
     state_process_timeout (set_event (\<lambda>e. e\<lparr>evtType := evtChargeTimeout, ev_ssn := None\<rparr>)
       (s\<lparr>g_charge_timer := None, g_ctc_packets := 0, g_ctc_bytes := 0\<rparr>))"

definition state_emit_timeout :: "lltd \<Rightarrow> lltd option" where
  "state_emit_timeout s =
     (let s1 = set_event (\<lambda>e. e\<lparr>evtType := evtEmitTimeout\<rparr>) (s\<lparr>g_emit_timer := None\<rparr>)
      in state_process_timeout
        (case g_topo_session s1 of
           Some t \<Rightarrow> if ssn_is_valid (ssn_at s1 t)
                    then set_event (\<lambda>e. e\<lparr>ev_ssn := Some t\<rparr>) s1 else s1
         | None \<Rightarrow> s1))"

definition state_hello_delay_timeout :: "lltd \<Rightarrow> lltd option" where
  "state_hello_delay_timeout s =
     state_process_timeout (set_event (\<lambda>e. e\<lparr>evtType := evtHelloDelayTimeout, ev_ssn := None\<rparr>)
       (s\<lparr>g_hello_timer := None\<rparr>))"

definition state_inactivity_timeout :: "nat \<Rightarrow> lltd \<Rightarrow> lltd option" where
  "state_inactivity_timeout i s =
     state_process_timeout (upd_ssn i (\<lambda>x. x\<lparr>ssn_InactivityTimer := None\<rparr>)
       (set_event (\<lambda>e. e\<lparr>evtType := evtInactivityTimeout, ev_ssn := Some i\<rparr>) s))"

fun run_callback :: "timer_fn \<Rightarrow> lltd \<Rightarrow> lltd option" where
  "run_callback State_block_timeout s = state_block_timeout s"
| "run_callback State_charge_timeout s = state_charge_timeout s"
| "run_callback State_emit_timeout s = state_emit_timeout s"
| "run_callback State_hello_delay_timeout s = state_hello_delay_timeout s"
| "run_callback (State_inactivity_timeout i) s = state_inactivity_timeout i s"

section \<open>Packets return and keep the invariant\<close>

lemma find_index_Some:
  "find_index P k xs = Some j \<Longrightarrow> k \<le> j \<and> j < k + length xs \<and> P (xs ! (j - k))"
  by (induction xs arbitrary: k) (fastforce split: if_splits simp: nth_Cons' Suc_le_eq)+

lemma find_index_None: "find_index P k xs = None \<longleftrightarrow> (\<forall>x \<in> set xs. \<not> P x)"
  by (induction xs arbitrary: k) auto

lemma find_session_Some:
  assumes "lltd_inv xb xe xt xq xn s" "find_session a s = Some i"
  shows "i < MAX_NUM_SESSIONS" "ssn_is_valid (g_sessions s ! i)" "ssn_mapper_real (g_sessions s ! i) = a"
  using find_index_Some [of _ 0 "g_sessions s" i] assms lltd_inv_length [OF assms(1)]
  by (auto simp: find_session_def)

text \<open>The entry \<open>state_process_packet\<close> fills in for a new session.\<close>

definition fresh_session :: "lltd \<Rightarrow> session \<Rightarrow> session" where
  "fresh_session s x = x\<lparr>ssn_is_valid := True, ssn_count := BAND_TXC, ssn_use_broadcast := True,
     ssn_InactivityTimer := None, ssn_XID := g_sequencenum s, ssn_mapper_real := tbh_realsrc s,
     ssn_mapper_current := eh_src s, ssn_TypeOfSvc := tbh_tos s\<rparr>"

lemma associate_new:
  assumes inv: "lltd_ok s" and f: "find_index (\<lambda>x. \<not> ssn_is_valid x) 0 (g_sessions s) = Some i"
  shows "\<exists>s'. new_session s = Some (i, s') \<and>
     lltd_inv False False None (Some i) (Some i) (upd_ssn i (\<lambda>x. x\<lparr>ssn_XID := g_sequencenum s,
       ssn_mapper_real := tbh_realsrc s, ssn_mapper_current := eh_src s, ssn_TypeOfSvc := tbh_tos s\<rparr>)
       (set_event (\<lambda>e. e\<lparr>isNewSession := True\<rparr>) s'))
   \<and> g_sessions (upd_ssn i (\<lambda>x. x\<lparr>ssn_XID := g_sequencenum s,
       ssn_mapper_real := tbh_realsrc s, ssn_mapper_current := eh_src s, ssn_TypeOfSvc := tbh_tos s\<rparr>)
       (set_event (\<lambda>e. e\<lparr>isNewSession := True\<rparr>) s')) = (g_sessions s)[i := fresh_session s (g_sessions s ! i)]
   \<and> g_this_event s' = g_this_event s \<and> g_rcvd_pkt_len s' = g_rcvd_pkt_len s"
proof -
  note len = lltd_inv_length [OF inv]
  have i: "i < MAX_NUM_SESSIONS" "\<not> ssn_is_valid (g_sessions s ! i)"
    using find_index_Some [OF f] len by auto
  have x: "ssn_state (g_sessions s ! i) = smS_Nascent" "ssn_InactivityTimer (g_sessions s ! i) = None"
    using inv i by (auto simp: lltd_inv_def sess_inv_def sess_ok_def)
  have nt: "g_topo_session s \<noteq> Some i" using inv i by (auto simp: lltd_inv_def topo_inv_def)
  obtain s' where s': "new_session s = Some (i, s')" using f by (simp add: new_session_def)
  let ?t = "upd_ssn i (\<lambda>x. x\<lparr>ssn_XID := g_sequencenum s,
       ssn_mapper_real := tbh_realsrc s, ssn_mapper_current := eh_src s, ssn_TypeOfSvc := tbh_tos s\<rparr>)
       (set_event (\<lambda>e. e\<lparr>isNewSession := True\<rparr>) s')"
  let ?x = "fresh_session s (g_sessions s ! i)"
  have t: "?t = s\<lparr>g_this_event := (g_this_event s)\<lparr>isNewSession := True\<rparr>,
      g_sessions := (g_sessions s)[i := ?x]\<rparr>"
    using s' f i len by (auto simp: new_session_def upd_ssn_def fresh_session_def)
  have map: "map ssn_InactivityTimer ((g_sessions s)[i := ?x]) = map ssn_InactivityTimer (g_sessions s)"
    by (rule map_timer_update) (simp add: fresh_session_def x)
  have six: "length (tbh_realsrc s) = 6" "length (eh_src s) = 6"
    using inv by (simp_all add: tbh_realsrc_def eh_src_def length_sub_buf lltd_inv_def buf_inv_def
        RXBUFSZ_def)
  have "sess_inv (Some i) ((g_sessions s)[i := ?x])"
    using inv i x six by (auto simp: lltd_inv_def sess_inv_def nth_upd fresh_session_def)
  moreover have "topo_inv None (g_topo_session s) ((g_sessions s)[i := ?x])"
    by (rule topo_inv_update [of None]) (use inv nt len in \<open>simp_all add: lltd_inv_def\<close>)
  moreover have "enum_inv False (Some i) (g_smE_state s) (g_block_timer s) (g_hello_timer s)
      ((g_sessions s)[i := ?x])"
    by (rule enum_inv_update [of False None]) (use inv len in \<open>simp_all add: lltd_inv_def\<close>)
  ultimately have "lltd_inv False False None (Some i) (Some i) ?t"
    unfolding t using inv by (simp add: lltd_inv_def map)
  moreover have "g_this_event s' = g_this_event s" "g_rcvd_pkt_len s' = g_rcvd_pkt_len s"
    using s' f by (auto simp: new_session_def upd_ssn_def)
  ultimately show ?thesis using s' t by simp
qed

text \<open>What holds of the event and its session when the machines are run on a packet.\<close>

definition packet_event :: "lltd \<Rightarrow> bool" where
  "packet_event s \<longleftrightarrow>
     evtType (g_this_event s) \<in> {evtPacketRcvd, evtDiscoverRcvd, evtEmitRcvd, evtResetRcvd}
     \<and> (evtType (g_this_event s) = evtEmitRcvd \<longrightarrow>
          34 + 14 * numDescrs (g_this_event s) \<le> g_rcvd_pkt_len s \<and> g_rcvd_pkt_len s \<le> RXBUFSZ)"

definition machines_pre :: "nat option \<Rightarrow> lltd \<Rightarrow> bool" where
  "machines_pre xq s \<longleftrightarrow> lltd_inv False False None xq xq s \<and> packet_event s
     \<and> (\<forall>i. ev_ssn (g_this_event s) = Some i \<longrightarrow> ssn_is_valid (g_sessions s ! i))
     \<and> (xq \<noteq> None \<longrightarrow> xq = ev_ssn (g_this_event s) \<and> evtType (g_this_event s) = evtDiscoverRcvd)
     \<and> (isNewSession (g_this_event s) \<longleftrightarrow> xq \<noteq> None)"

lemma run_machines_ok:
  assumes pre: "machines_pre xq s"
  shows "\<exists>s'. run_machines s = Some s' \<and> lltd_ok s'"
proof -
  have inv: "lltd_inv False False None xq xq s" and pe: "packet_event s"
    and new: "isNewSession (g_this_event s) \<longleftrightarrow> xq \<noteq> None"
    and xq: "xq \<noteq> None \<Longrightarrow> xq = ev_ssn (g_this_event s) \<and> evtType (g_this_event s) = evtDiscoverRcvd"
    using pre by (auto simp: machines_pre_def)
  have "\<exists>s1 xt. smS_process_event s = completed s1 \<and> S_same s s1 \<and> lltd_inv False False xt xq None s1
      \<and> (xt \<noteq> None \<longrightarrow> xt = ev_ssn (g_this_event s) \<and> reset_event (evtType (g_this_event s)))"
  proof (cases "ev_ssn (g_this_event s)")
    case None
    then have "xq = None" using xq by (cases "xq = None") auto
    then show ?thesis using inv None
      by (auto simp: smS_process_event_def S_same_def intro!: exI [of _ None])
  next
    case (Some i)
    then have "i < MAX_NUM_SESSIONS" using inv by (auto simp: lltd_inv_def ssn_inv_def)
    then have "smS_pre i xq s" using pre Some xq by (auto simp: smS_pre_def machines_pre_def)
    from smS_process_event_ok [OF this] Some show ?thesis
      by (auto simp: smS_post_def split: if_splits)
  qed
  then obtain s1 xt where s1: "smS_process_event s = completed s1" "S_same s s1"
    "lltd_inv False False xt xq None s1"
    "xt \<noteq> None \<longrightarrow> xt = ev_ssn (g_this_event s) \<and> reset_event (evtType (g_this_event s))" by blast
  have "smE_pre False False xt xq s1"
    using s1 xq new by (auto simp: smE_pre_def S_same_def)
  moreover have "evtType (g_this_event s1) \<noteq> evtHelloDelayTimeout"
    using pe s1(2) by (auto simp: packet_event_def S_same_def)
  ultimately obtain s2 where s2: "smE_process_event s1 = completed s2"
    "lltd_inv False False xt None None s2" "smE_same s1 s2"
    using smE_process_event_ok by blast
  have e2: "evtType (g_this_event s2) = evtType (g_this_event s)"
    "ev_ssn (g_this_event s2) = ev_ssn (g_this_event s)"
    "numDescrs (g_this_event s2) = numDescrs (g_this_event s)" "g_rcvd_pkt_len s2 = g_rcvd_pkt_len s"
    using s1(2) s2(3) by (simp_all add: S_same_def smE_same_def)
  have "\<exists>st s3. smT_process_event s2 = Some (st, s3) \<and> lltd_ok s3"
    by (rule smT_process_event_ok [OF s2(2)])
      (use pe s1(4) in \<open>auto simp: e2 packet_event_def reset_event_def\<close>)
  then obtain st s3 where s3: "smT_process_event s2 = Some (st, s3)" "lltd_ok s3" by blast
  have "lltd_ok (set_event (\<lambda>e. e\<lparr>isNewSession := False\<rparr>) s3)"
    using s3(2) by (simp add: lltd_inv_def)
  with s1(1) s2(1) s3(1) show ?thesis by (simp add: run_machines_def)
qed

lemma lltd_inv_set_event:
  "ev_ssn (f (g_this_event s)) = ev_ssn (g_this_event s) \<Longrightarrow>
   lltd_inv xb xe xt xq xn (set_event f s) = lltd_inv xb xe xt xq xn s"
  by (simp add: lltd_inv_def)

lemma lltd_inv_set_ssn:
  "lltd_inv xb xe xt xq xn s \<Longrightarrow> ssn_inv ssn \<Longrightarrow>
   lltd_inv xb xe xt xq xn (set_event (\<lambda>e. e\<lparr>ev_ssn := ssn\<rparr>) s)"
  by (simp add: lltd_inv_def)

lemma state_process_packet_ok:
  assumes inv: "lltd_ok s" and pe: "packet_event s"
    and disc: "g_opcode s = Opcode_Discover \<Longrightarrow> evtType (g_this_event s) = evtDiscoverRcvd"
  shows "\<exists>s'. state_process_packet s = Some s' \<and> lltd_ok s'"
proof -
  let ?s0 = "set_event (\<lambda>e. e\<lparr>isInternalEvt := False, isNewSession := False\<rparr>) s"
  have inv0: "lltd_ok ?s0" using inv by (simp add: lltd_inv_def)
  have old: "machines_pre None (set_event (\<lambda>e. e\<lparr>ev_ssn := ssn\<rparr>) ?s0)"
    if "\<And>i. ssn = Some i \<Longrightarrow> i < MAX_NUM_SESSIONS \<and> ssn_is_valid (g_sessions s ! i)" for ssn
    using inv0 pe that by (auto simp: machines_pre_def packet_event_def lltd_inv_def ssn_inv_def)
  show ?thesis
  proof (cases "find_session (tbh_realsrc ?s0) ?s0")
    case (Some i)
    then have "machines_pre None (set_event (\<lambda>e. e\<lparr>ev_ssn := Some i\<rparr>) ?s0)"
      using find_session_Some [OF inv0 Some] by (intro old) simp
    from run_machines_ok [OF this] Some show ?thesis
      by (simp add: state_process_packet_def associate_def Let_def)
  next
    case None
    consider (full) "g_opcode s = Opcode_Discover" "new_session ?s0 = None"
      | (new) i where "g_opcode s = Opcode_Discover"
          "find_index (\<lambda>x. \<not> ssn_is_valid x) 0 (g_sessions ?s0) = Some i"
      | (probe) t where "g_opcode s = Opcode_Probe" "g_topo_session s = Some t"
          "ssn_is_valid (ssn_at s t)"
      | (other) "g_opcode s \<noteq> Opcode_Discover"
          "\<not> (g_opcode s = Opcode_Probe \<and> (\<exists>t. g_topo_session s = Some t \<and> ssn_is_valid (ssn_at s t)))"
      by (cases "find_index (\<lambda>x. \<not> ssn_is_valid x) 0 (g_sessions ?s0)")
        (auto simp: new_session_def opcode_defs)
    then show ?thesis
    proof cases
      case full
      then show ?thesis using None inv0 by (simp add: state_process_packet_def associate_def Let_def)
    next
      case new
      let ?f = "\<lambda>x. x\<lparr>ssn_XID := g_sequencenum ?s0, ssn_mapper_real := tbh_realsrc ?s0,
        ssn_mapper_current := eh_src ?s0, ssn_TypeOfSvc := tbh_tos ?s0\<rparr>"
      obtain s' where s': "new_session ?s0 = Some (i, s')"
        "lltd_inv False False None (Some i) (Some i)
          (upd_ssn i ?f (set_event (\<lambda>e. e\<lparr>isNewSession := True\<rparr>) s'))"
        "g_sessions (upd_ssn i ?f (set_event (\<lambda>e. e\<lparr>isNewSession := True\<rparr>) s')) =
          (g_sessions ?s0)[i := fresh_session ?s0 (g_sessions ?s0 ! i)]"
        "g_this_event s' = g_this_event ?s0" "g_rcvd_pkt_len s' = g_rcvd_pkt_len ?s0"
        using associate_new [OF inv0 new(2)] by blast
      let ?t = "upd_ssn i ?f (set_event (\<lambda>e. e\<lparr>isNewSession := True\<rparr>) s')"
      have i: "i < length (g_sessions s)" using find_index_Some [OF new(2)] by simp
      have ti: "ssn_inv (Some i)" using i lltd_inv_length [OF inv] by (simp add: ssn_inv_def)
      have te: "g_this_event ?t = (g_this_event s)\<lparr>isInternalEvt := False, isNewSession := True\<rparr>"
        "g_rcvd_pkt_len ?t = g_rcvd_pkt_len s"
        using s'(4,5) by (simp_all add: upd_ssn_def)
      have "machines_pre (Some i) (set_event (\<lambda>e. e\<lparr>ev_ssn := Some i\<rparr>) ?t)"
        using lltd_inv_set_ssn [OF s'(2) ti] pe disc [OF new(1)] te s'(3) i
        by (simp add: machines_pre_def packet_event_def fresh_session_def)
      from run_machines_ok [OF this] show ?thesis
        using None new(1) s'(1) by (simp add: state_process_packet_def associate_def Let_def)
    next
      case probe
      have "machines_pre None (set_event (\<lambda>e. e\<lparr>ev_ssn := Some t\<rparr>) ?s0)"
        by (rule old) (use probe inv in \<open>auto simp: lltd_inv_def topo_inv_def\<close>)
      from run_machines_ok [OF this] show ?thesis
        using None probe
        by (simp add: state_process_packet_def associate_def Let_def opcode_defs ssn_at_def)
    next
      case other
      have "machines_pre None (set_event (\<lambda>e. e\<lparr>ev_ssn := None\<rparr>) ?s0)" by (rule old) simp
      from run_machines_ok [OF this] obtain r where
        "run_machines (set_event (\<lambda>e. e\<lparr>ev_ssn := None\<rparr>) ?s0) = Some r" "lltd_ok r" by blast
      with None other show ?thesis
        by (auto simp: state_process_packet_def associate_def Let_def ssn_at_def split: option.splits)
    qed
  qed
qed

section \<open>Timeouts return and keep the invariant\<close>

lemma hello_timeout_sess_same:
  assumes inv: "lltd_ok s" and i: "ev_ssn (g_this_event s) = Some i" "i < MAX_NUM_SESSIONS"
    and ev: "evtType (g_this_event s) = evtHelloDelayTimeout"
    and res: "smS_process_event s = completed s'"
  shows "sess_same s s'"
proof -
  have "sess_same s (drop_session i s)"
    using drop_session_ok(1) [OF lltd_inv_timers [OF inv], of i] lltd_inv_length [OF inv] i(2) by simp
  then show ?thesis
    using res i(1) ev
    by (auto simp: smS_process_event_def smS_NascentHandler_def smS_PendingHandler_def
        smS_TemporaryHandler_def smS_CompleteHandler_def Let_def set_ssn_state_def
        split: smS_state.splits if_splits)
qed

lemma hello_sessions_ok:
  assumes "lltd_ok s" "evtType (g_this_event s) = evtHelloDelayTimeout" "g_hello_timer s = None"
    "\<forall>i \<in> set is. i < MAX_NUM_SESSIONS"
  shows "\<exists>s'. hello_sessions is s = Some s' \<and> lltd_ok s'
    \<and> evtType (g_this_event s') = evtHelloDelayTimeout \<and> g_hello_timer s' = None
    \<and> isNewSession (g_this_event s') = isNewSession (g_this_event s)"
  using assms
proof (induction "is" arbitrary: s)
  case Nil
  then show ?case by simp
next
  case (Cons i is')
  show ?case
  proof (cases "ssn_is_valid (ssn_at s i)")
    case True
    let ?s = "set_event (\<lambda>e. e\<lparr>ev_ssn := Some i\<rparr>) s"
    have inv: "lltd_ok ?s" using Cons.prems by (intro lltd_inv_set_ssn) (simp_all add: ssn_inv_def)
    have "smS_pre i None ?s" using Cons.prems True inv by (simp add: smS_pre_def ssn_at_def)
    from smS_process_event_ok [OF this] obtain s1 where s1: "smS_process_event ?s = completed s1"
      "S_same ?s s1" "lltd_ok s1"
      using Cons.prems by (auto simp: smS_post_def reset_event_def)
    have "sess_same ?s s1"
      by (rule hello_timeout_sess_same [OF inv _ _ _ s1(1), of i]) (use Cons.prems in simp_all)
    then have "g_hello_timer s1 = None" using Cons.prems by (simp add: sess_same_def)
    then show ?thesis
      using Cons.IH [of s1] Cons.prems s1 True by (simp add: S_same_def)
  next
    case False
    then show ?thesis using Cons by simp
  qed
qed

definition timeout_pre :: "bool \<Rightarrow> bool \<Rightarrow> lltd \<Rightarrow> bool" where
  "timeout_pre xb xe s \<longleftrightarrow> lltd_inv xb xe None None None s
     \<and> evtType (g_this_event s) \<in> {evtBlockTimeout, evtChargeTimeout, evtEmitTimeout,
          evtHelloDelayTimeout, evtInactivityTimeout}
     \<and> (xb \<longleftrightarrow> evtType (g_this_event s) = evtBlockTimeout)
     \<and> (xe \<longleftrightarrow> evtType (g_this_event s) = evtEmitTimeout)
     \<and> (xe \<longrightarrow> ev_ssn (g_this_event s) = g_topo_session s)
     \<and> (evtType (g_this_event s) = evtHelloDelayTimeout \<longrightarrow> g_hello_timer s = None)
     \<and> (evtType (g_this_event s) = evtInactivityTimeout \<longrightarrow>
          (\<exists>i. ev_ssn (g_this_event s) = Some i \<and> ssn_is_valid (g_sessions s ! i)))"

lemma smE_smT_ok:
  assumes inv: "lltd_inv xb xe xt None None s"
    and pre: "smE_pre xb xe xt None s"
    and hello: "evtType (g_this_event s) = evtHelloDelayTimeout \<Longrightarrow> g_hello_timer s = None"
    and xe: "xe \<longleftrightarrow> evtType (g_this_event s) = evtEmitTimeout"
      "xe \<Longrightarrow> ev_ssn (g_this_event s) = g_topo_session s"
    and xt: "xt \<noteq> None \<Longrightarrow> xt = ev_ssn (g_this_event s) \<and> evtType (g_this_event s) = evtInactivityTimeout"
    and ne: "evtType (g_this_event s) \<noteq> evtEmitRcvd"
  shows "\<exists>s'. (do { (st, s3) \<leftarrow> smE_process_event s;
      if st \<noteq> PROCESSING_ABORTED then map_option snd (smT_process_event s3) else Some s3 }) = Some s'
    \<and> lltd_ok s'"
proof -
  obtain s2 where s2: "smE_process_event s = completed s2" "lltd_inv False xe xt None None s2" "smE_same s s2"
    using smE_process_event_ok [OF pre hello] by blast
  have e: "evtType (g_this_event s2) = evtType (g_this_event s)"
    "ev_ssn (g_this_event s2) = ev_ssn (g_this_event s)" "g_topo_session s2 = g_topo_session s"
    using s2(3) by (simp_all add: smE_same_def)
  have "\<exists>st s'. smT_process_event s2 = Some (st, s') \<and> lltd_ok s'"
    by (rule smT_process_event_ok [OF s2(2)]) (use xe xt ne in \<open>auto simp: e\<close>)
  with s2(1) show ?thesis by auto
qed

lemma state_process_timeout_ok:
  assumes pre: "timeout_pre xb xe s"
  shows "\<exists>s'. state_process_timeout s = Some s' \<and> lltd_ok s'"
proof -
  let ?s0 = "set_event (\<lambda>e. e\<lparr>isNewSession := False, isAckingMe := False, isInternalEvt := False,
                  numDescrs := 0\<rparr>) (s\<lparr>g_rcvd_pkt_len := 0\<rparr>)"
  have "lltd_inv xb xe None None None s" using pre unfolding timeout_pre_def by (rule conjunct1)
  then have inv0: "lltd_inv xb xe None None None ?s0" by (simp add: lltd_inv_def)
  consider (hello) "evtType (g_this_event s) = evtHelloDelayTimeout"
    | (inact) "evtType (g_this_event s) = evtInactivityTimeout"
    | (other) "evtType (g_this_event s) \<in> {evtBlockTimeout, evtChargeTimeout, evtEmitTimeout}"
    using pre by (auto simp: timeout_pre_def)
  then show ?thesis
  proof cases
    case hello
    then have x: "xb = False" "xe = False" "g_hello_timer s = None" using pre by (auto simp: timeout_pre_def)
    obtain a where a: "hello_sessions [0..<MAX_NUM_SESSIONS] ?s0 = Some a" "lltd_ok a"
      "evtType (g_this_event a) = evtHelloDelayTimeout" "g_hello_timer a = None"
      "\<not> isNewSession (g_this_event a)"
      using hello_sessions_ok [of ?s0 "[0..<MAX_NUM_SESSIONS]"] inv0 hello x by auto
    let ?a = "set_event (\<lambda>e. e\<lparr>ev_ssn := None\<rparr>) a"
    have inv: "lltd_ok ?a" using a(2) by (rule lltd_inv_set_ssn) (simp add: ssn_inv_def)
    obtain r where "(do { (st, s3) \<leftarrow> smE_process_event ?a;
        if st \<noteq> PROCESSING_ABORTED then map_option snd (smT_process_event s3) else Some s3 }) = Some r"
      "lltd_ok r"
      using smE_smT_ok [OF inv] inv a by (auto simp: smE_pre_def)
    then show ?thesis using hello a(1,3) by (simp add: state_process_timeout_def Let_def)
  next
    case inact
    then obtain i where i: "ev_ssn (g_this_event s) = Some i" "ssn_is_valid (g_sessions s ! i)"
      using pre by (auto simp: timeout_pre_def)
    have x: "xb = False" "xe = False" using pre inact by (auto simp: timeout_pre_def)
    have "smS_pre i None ?s0"
      using inv0 i x by (auto simp: smS_pre_def lltd_inv_def ssn_inv_def)
    from smS_process_event_ok [OF this] obtain a where a: "smS_process_event ?s0 = completed a"
      "S_same ?s0 a" "lltd_inv False False (Some i) None None a"
      using inact by (auto simp: smS_post_def reset_event_def)
    obtain r where "(do { (st, s3) \<leftarrow> smE_process_event a;
        if st \<noteq> PROCESSING_ABORTED then map_option snd (smT_process_event s3) else Some s3 }) = Some r"
      "lltd_ok r"
      using smE_smT_ok [OF a(3)] a(2,3) inact i by (auto simp: smE_pre_def S_same_def)
    then show ?thesis using inact a(1) by (simp add: state_process_timeout_def Let_def)
  next
    case other
    obtain r where "(do { (st, s3) \<leftarrow> smE_process_event ?s0;
        if st \<noteq> PROCESSING_ABORTED then map_option snd (smT_process_event s3) else Some s3 }) = Some r"
      "lltd_ok r"
      using smE_smT_ok [OF inv0] inv0 pre other by (auto simp: smE_pre_def timeout_pre_def)
    then show ?thesis using other by (auto simp: state_process_timeout_def Let_def)
  qed
qed

text \<open>The timer \<open>f\<close> has fired: its event is out of the queue, its variable is reset by the callback.\<close>

lemma fired_inv:
  assumes inv: "lltd_ok s" and some: "timer_ptr f s \<noteq> None"
    and q: "tm_ok q ((ptr_of (g_block_timer s) (g_charge_timer s) (g_emit_timer s) (g_hello_timer s)
      (map ssn_InactivityTimer (g_sessions s)))(f := None))"
  shows "lltd_inv (f = State_block_timeout) (f = State_emit_timeout) None None None
    (set_timer_ptr f None (s\<lparr>g_evq := q\<rparr>))"
proof -
  let ?s = "s\<lparr>g_evq := q\<rparr>"
  have fn: "fn_ok f ?s" using some by (cases f) (auto split: if_splits)
  have t: "timers_ok (set_timer_ptr f None ?s)" unfolding ptr_of_set_timer_ptr [OF fn] using q by simp
  show ?thesis
  proof (cases f)
    case (State_inactivity_timeout i)
    then have i: "i < length (g_sessions s)" "ssn_is_valid (g_sessions s ! i)"
      using some inv by (auto simp: lltd_inv_def sess_inv_def sess_ok_def split: if_splits)
    let ?x = "(g_sessions s ! i)\<lparr>ssn_InactivityTimer := None\<rparr>"
    have "sess_inv None ((g_sessions s)[i := ?x])"
      by (rule sess_inv_update [of None])
        (use inv i in \<open>auto simp: lltd_inv_def sess_inv_def sess_ok_def\<close>)
    moreover have "topo_inv None (g_topo_session s) ((g_sessions s)[i := ?x])"
      by (rule topo_inv_update [of None]) (use inv in \<open>auto simp: lltd_inv_def sess_inv_def topo_inv_def\<close>)
    moreover have "enum_inv False None (g_smE_state s) (g_block_timer s) (g_hello_timer s)
        ((g_sessions s)[i := ?x])"
      by (rule enum_inv_update [of False None])
        (use inv i in \<open>auto simp: lltd_inv_def sess_inv_def enum_inv_def\<close>)
    ultimately show ?thesis
      using inv t State_inactivity_timeout by (simp add: lltd_inv_def upd_ssn_def)
  qed (use inv t some in \<open>auto simp: lltd_inv_def enum_inv_def emit_inv_def split: if_splits\<close>)
qed

lemma run_callback_ok:
  assumes inv: "lltd_ok s" and some: "timer_ptr f s \<noteq> None"
    and q: "tm_ok q ((ptr_of (g_block_timer s) (g_charge_timer s) (g_emit_timer s) (g_hello_timer s)
      (map ssn_InactivityTimer (g_sessions s)))(f := None))"
  shows "\<exists>s'. run_callback f (s\<lparr>g_evq := q\<rparr>) = Some s' \<and> lltd_ok s'"
proof -
  note fi = fired_inv [OF inv some q]
  show ?thesis
  proof (cases f)
    case State_block_timeout
    have "timeout_pre True False (set_event (\<lambda>e. e\<lparr>evtType := evtBlockTimeout\<rparr>)
       (s\<lparr>g_evq := q, g_block_timer := None\<rparr>))"
      using fi State_block_timeout by (simp add: timeout_pre_def lltd_inv_def)
    from state_process_timeout_ok [OF this] State_block_timeout show ?thesis
      by (simp add: state_block_timeout_def)
  next
    case State_charge_timeout
    have "timeout_pre False False (set_event (\<lambda>e. e\<lparr>evtType := evtChargeTimeout, ev_ssn := None\<rparr>)
       (s\<lparr>g_evq := q, g_charge_timer := None, g_ctc_packets := 0, g_ctc_bytes := 0\<rparr>))"
      using fi State_charge_timeout by (simp add: timeout_pre_def lltd_inv_def ssn_inv_def)
    from state_process_timeout_ok [OF this] State_charge_timeout show ?thesis
      by (simp add: state_charge_timeout_def)
  next
    case State_emit_timeout
    obtain t where t: "g_topo_session s = Some t" "t < MAX_NUM_SESSIONS" "ssn_is_valid (ssn_at s t)"
      using inv some State_emit_timeout
      by (auto simp: lltd_inv_def emit_inv_def topo_inv_def ssn_at_def split: if_splits)
    have "timeout_pre False True (set_event (\<lambda>e. e\<lparr>evtType := evtEmitTimeout, ev_ssn := Some t\<rparr>)
       (s\<lparr>g_evq := q, g_emit_timer := None\<rparr>))"
      using fi State_emit_timeout t by (simp add: timeout_pre_def lltd_inv_def ssn_inv_def)
    from state_process_timeout_ok [OF this] State_emit_timeout t show ?thesis
      by (simp add: state_emit_timeout_def Let_def ssn_at_def)
  next
    case State_hello_delay_timeout
    have "timeout_pre False False (set_event (\<lambda>e. e\<lparr>evtType := evtHelloDelayTimeout, ev_ssn := None\<rparr>)
       (s\<lparr>g_evq := q, g_hello_timer := None\<rparr>))"
      using fi State_hello_delay_timeout by (simp add: timeout_pre_def lltd_inv_def ssn_inv_def)
    from state_process_timeout_ok [OF this] State_hello_delay_timeout show ?thesis
      by (simp add: state_hello_delay_timeout_def)
  next
    case (State_inactivity_timeout i)
    then have i: "i < length (g_sessions s)" "ssn_is_valid (g_sessions s ! i)" "i < MAX_NUM_SESSIONS"
      using some inv by (auto simp: lltd_inv_def sess_inv_def sess_ok_def split: if_splits)
    let ?t = "upd_ssn i (\<lambda>x. x\<lparr>ssn_InactivityTimer := None\<rparr>)
       (set_event (\<lambda>e. e\<lparr>evtType := evtInactivityTimeout, ev_ssn := Some i\<rparr>) (s\<lparr>g_evq := q\<rparr>))"
    have "timeout_pre False False ?t"
      using fi State_inactivity_timeout i
      by (simp add: timeout_pre_def lltd_inv_def ssn_inv_def upd_ssn_def)
    from state_process_timeout_ok [OF this] State_inactivity_timeout show ?thesis
      by (simp add: state_inactivity_timeout_def)
  qed
qed

end
