(* ===== verification/Lltd_Packetio_Rx.thy ===== *)
theory Lltd_Packetio_Rx
  imports Lltd_State
begin

text \<open>
  The receiver of \<open>ms-lltd/packetio.c\<close> and one turn of the event loop of \<open>event.c\<close>. The result of
  \<open>osl_read\<close> is the frame read, or \<^term>\<open>None\<close> for -1. The handler of the QoS frames,
  \<open>qospktio.c\<close>, is the parameter \<open>qosrcvpkt\<close>.
\<close>

section \<open>Validators\<close>

abbreviation set_evtType :: "smEvent \<Rightarrow> lltd \<Rightarrow> lltd" where
  "set_evtType t s \<equiv> s\<lparr>g_this_event := (g_this_event s)\<lparr>evtType := t\<rparr>\<rparr>"

definition validate_discover :: "lltd \<Rightarrow> bool \<times> lltd" where
  "validate_discover s =
     (if g_rcvd_pkt_len s < 36 then (False, set_evtType evtInvalidPacket s)
      else (True, set_evtType evtDiscoverRcvd s))"

definition validate_hello :: "lltd \<Rightarrow> bool \<times> lltd" where
  "validate_hello s =
     (if g_rcvd_pkt_len s < 47 then (False, set_evtType evtInvalidPacket s)
      else (True, set_evtType evtPacketRcvd s))"

definition validate_queryltlv :: "lltd \<Rightarrow> bool \<times> lltd" where
  "validate_queryltlv s =
     (if g_rcvd_pkt_len s < 36 then (False, set_evtType evtInvalidPacket s)
      else (True, set_evtType evtPacketRcvd s))"

fun emit_scan :: "nat \<Rightarrow> nat \<Rightarrow> lltd \<Rightarrow> bool \<times> nat \<times> lltd" where
  "emit_scan 0 i s = (True, i, s)"
| "emit_scan (Suc n) i s =
     (let ed = 34 + 14 * i in
      if int ed + 14 \<le> rx_limit s then
        let s1 = s\<lparr>g_totalPause := g_totalPause s + ucast (g_rxbuf s ! (ed + 1))\<rparr>;
            ed_type = g_rxbuf s ! ed;
            ed_src = sub_buf (g_rxbuf s) (ed + 2) 6;
            ed_dst = sub_buf (g_rxbuf s) (ed + 8) 6
        in if ed_type \<noteq> 0 \<and> ed_type \<noteq> 1 then (False, i, s1)
           else if ed_src \<noteq> g_hwaddr s \<and> \<not> TOPO_ETHERADDR_OUI ed_src then (False, i, s1)
           else if ETHERADDR_IS_MCAST ed_dst then (False, i, s1)
           else emit_scan n (Suc i) (s1\<lparr>g_neededPackets := g_neededPackets s1 + 1,
                                        g_neededBytes := g_neededBytes s1 + 32\<rparr>)
      else (True, i, s))"

definition validate_emit :: "lltd \<Rightarrow> bool \<times> lltd" where
  "validate_emit s =
     (let s0 = s\<lparr>g_totalPause := 0, g_neededPackets := 0, g_neededBytes := 0\<rparr> in
      if g_rcvd_pkt_len s0 < 34 then (False, set_evtType evtInvalidPacket s0)
      else let (valid, i, s1) = emit_scan (unat (eh_numdescs s0)) 0 s0 in
        if \<not> valid then (False, set_evtType evtInvalidPacket s1)
        else if g_totalPause s1 > TOPO_TOTALPAUSE_MAX
        then (False, set_evtType evtInvalidPacket s1)
        else let s2 = (if g_sequencenum s1 \<noteq> 0
                       then s1\<lparr>g_neededPackets := g_neededPackets s1 + 1,
                               g_neededBytes := g_neededBytes s1 + 32\<rparr>
                       else s1)
          in (True, s2\<lparr>g_this_event := (g_this_event s2)
                        \<lparr>numDescrs := i, evtType := evtEmitRcvd\<rparr>\<rparr>))"

section \<open>The receiver\<close>

definition BCAST_VALID :: "u8 \<Rightarrow> bool" where
  "BCAST_VALID op \<longleftrightarrow> op = Opcode_Hello \<or> op = Opcode_Discover \<or> op = Opcode_Reset"

definition SEQNUM_VALID :: "u8 \<Rightarrow> bool" where
  "SEQNUM_VALID op \<longleftrightarrow> op = Opcode_Discover \<or> op = Opcode_Emit \<or> op = Opcode_ACK
     \<or> op = Opcode_Query \<or> op = Opcode_QueryResp \<or> op = Opcode_Charge \<or> op = Opcode_Flat
     \<or> op = Opcode_QueryLargeTlv \<or> op = Opcode_QueryLargeTlvResp"

definition SEQNUM_REQUIRED :: "u8 \<Rightarrow> bool" where
  "SEQNUM_REQUIRED op \<longleftrightarrow> op = Opcode_ACK \<or> op = Opcode_Query \<or> op = Opcode_QueryResp
     \<or> op = Opcode_Flat"

definition SEQNUM_NEXT :: "u16 \<Rightarrow> u16" where
  "SEQNUM_NEXT q = (if q + 1 = 0 then 1 else q + 1)"

definition validate_opcode :: "lltd \<Rightarrow> bool \<times> lltd" where
  "validate_opcode s =
     (let op = g_opcode s in
      if op = Opcode_Discover then validate_discover s
      else if op = Opcode_Hello then validate_hello s
      else if op = Opcode_Emit then validate_emit s
      else if op = Opcode_QueryLargeTlv then validate_queryltlv s
      else if op = Opcode_Reset then (True, set_evtType evtResetRcvd s)
      else if op \<in> {Opcode_Probe, Opcode_ACK, Opcode_Query, Opcode_QueryResp, Opcode_Charge,
                    Opcode_Flat, Opcode_QueryLargeTlvResp} then (True, s)
      else (False, s))"

text \<open>From the sequence number check to the state machines.\<close>

definition recv_accepted :: "u16 \<Rightarrow> lltd \<Rightarrow> lltd option" where
  "recv_accepted thisSeqnum s =
     (let s1 = s\<lparr>g_sequencenum := thisSeqnum,
                 g_this_event := \<lparr>evtType = evtPacketRcvd, ev_ssn = None, isNewSession = False,
                   isAckingMe = False, isInternalEvt = False, numDescrs = 0\<rparr>\<rparr>;
          (valid, s2) = validate_opcode s1
      in if valid then state_process_packet s2 else Some s2)"

definition recv_sequenced :: "lltd \<Rightarrow> lltd option" where
  "recv_sequenced s =
     (let thisSeqnum = tbh_seqnum s in
      if thisSeqnum \<noteq> 0 \<and> g_opcode s \<noteq> Opcode_Discover then
        if thisSeqnum = g_rtxseqnum s then
          if g_re_tx_opcode s = g_opcode s then tx_rtxpacket s else Some s
        else if g_rtxseqnum s \<noteq> 0 \<and> thisSeqnum \<noteq> SEQNUM_NEXT (g_rtxseqnum s) then Some s
        else recv_accepted thisSeqnum s
      else recv_accepted thisSeqnum s)"

text \<open>What is dropped before the sequence number is looked at.\<close>

definition frame_for_us :: "lltd \<Rightarrow> bool" where
  "frame_for_us s \<longleftrightarrow>
     (g_opcode s = Opcode_Probe \<or> g_opcode s = Opcode_Hello
       \<or> tbh_realdst s = g_hwaddr s \<or> tbh_realdst s = Etheraddr_broadcast)
     \<and> \<not> (ETHERADDR_IS_MCAST (tbh_realdst s) \<and> \<not> BCAST_VALID (g_opcode s))
     \<and> \<not> (tbh_seqnum s \<noteq> 0 \<and> \<not> SEQNUM_VALID (g_opcode s))
     \<and> \<not> (tbh_seqnum s = 0 \<and> SEQNUM_REQUIRED (g_opcode s))"

definition rx_read :: "u8 list option \<Rightarrow> lltd \<Rightarrow> lltd" where
  "rx_read rd s =
     (case rd of
        Some frame \<Rightarrow> s\<lparr>g_rxbuf := buf_write (g_rxbuf s) 0 frame, g_rcvd_pkt_len := length frame\<rparr>
      | None \<Rightarrow> s\<lparr>g_rcvd_pkt_len := 4294967295\<rparr>)"

definition packetio_recv_handler ::
    "(lltd \<Rightarrow> lltd option) \<Rightarrow> u8 list option \<Rightarrow> lltd \<Rightarrow> lltd option" where
  "packetio_recv_handler qosrcvpkt rd s =
     (let s1 = rx_read rd s in
      if g_rcvd_pkt_len s1 = 0 then None
      else if g_rcvd_pkt_len s1 < 14 then Some s1
      else if eh_ethertype s1 \<noteq> 0x88D9 then Some s1
      else if g_rcvd_pkt_len s1 < 32 then Some s1
      else if tbh_version s1 \<noteq> 1 then Some s1
      else let s2 = s1\<lparr>g_opcode := tbh_opcode s1\<rparr> in
        if tbh_tos s2 = ToS_QoSDiagnostics then qosrcvpkt s2
        else if tbh_tos s2 > 1 then Some s2
        else if g_opcode s2 \<ge> Opcode_INVALID then Some s2
        else if \<not> frame_for_us s2 then Some s2
        else recv_sequenced s2)"

section \<open>The event loop\<close>

datatype lltd_input = Io "u8 list option" | Timer

text \<open>One turn of the loop over the expired events.\<close>

definition timer_turn :: "lltd \<Rightarrow> lltd option" where
  "timer_turn s =
     (let (now, s1) = gettimeofday s in
      case event_pop_due now (g_evq s1) of
        None \<Rightarrow> Some s1
      | Some (e, q) \<Rightarrow> run_callback (ev_function e) (s1\<lparr>g_evq := q\<rparr>))"

fun lltd_step :: "(lltd \<Rightarrow> lltd option) \<Rightarrow> lltd_input \<Rightarrow> lltd \<Rightarrow> lltd option" where
  "lltd_step qosrcvpkt (Io rd) s = packetio_recv_handler qosrcvpkt rd s"
| "lltd_step qosrcvpkt Timer s = timer_turn s"

section \<open>Emit frames\<close>

text \<open>What the scan of the descriptors leaves alone.\<close>

definition rx_same :: "lltd \<Rightarrow> lltd \<Rightarrow> bool" where
  "rx_same s s' \<longleftrightarrow> (\<exists>p n b. s' = s\<lparr>g_totalPause := p, g_neededPackets := n, g_neededBytes := b\<rparr>)"

lemma rx_sameI: "rx_same s (s\<lparr>g_totalPause := p, g_neededPackets := n, g_neededBytes := b\<rparr>)"
  unfolding rx_same_def by blast

lemma rx_same_refl [simp]: "rx_same s s"
  using rx_sameI [where s = s and p = "g_totalPause s" and n = "g_neededPackets s"
      and b = "g_neededBytes s"] by simp

lemma rx_same_trans: "rx_same s t \<Longrightarrow> rx_same t u \<Longrightarrow> rx_same s u"
  unfolding rx_same_def by force

lemma rx_same_inv: "rx_same s s' \<Longrightarrow> lltd_inv xb xe xt xq xn s' = lltd_inv xb xe xt xq xn s"
  by (auto simp: rx_same_def lltd_inv_def)

lemma rx_same_frame:
  "rx_same s s' \<Longrightarrow> g_rcvd_pkt_len s' = g_rcvd_pkt_len s \<and> g_this_event s' = g_this_event s
     \<and> g_opcode s' = g_opcode s \<and> g_rxbuf s' = g_rxbuf s \<and> g_hwaddr s' = g_hwaddr s
     \<and> g_sequencenum s' = g_sequencenum s"
  by (auto simp: rx_same_def)

text \<open>A descriptor that the responder may act on: Train or Probe, sent under the own address or one
  from the range reserved for the protocol, to a single station.\<close>

definition emit_desc_ok :: "lltd \<Rightarrow> nat \<Rightarrow> bool" where
  "emit_desc_ok s k \<longleftrightarrow> (let ed = 34 + 14 * k in
     g_rxbuf s ! ed \<in> {0, 1}
     \<and> (sub_buf (g_rxbuf s) (ed + 2) 6 = g_hwaddr s \<or> TOPO_ETHERADDR_OUI (sub_buf (g_rxbuf s) (ed + 2) 6))
     \<and> \<not> ETHERADDR_IS_MCAST (sub_buf (g_rxbuf s) (ed + 8) 6))"

lemma emit_desc_ok_cong:
  "g_rxbuf s' = g_rxbuf s \<Longrightarrow> g_hwaddr s' = g_hwaddr s \<Longrightarrow> emit_desc_ok s' k = emit_desc_ok s k"
  by (simp add: emit_desc_ok_def)

lemma emit_scan_spec:
  assumes "emit_scan n i s = (v, j, s')" "g_rcvd_pkt_len s \<le> RXBUFSZ" "34 + 14 * i \<le> g_rcvd_pkt_len s"
  shows "rx_same s s' \<and> i \<le> j \<and> j \<le> i + n \<and> 34 + 14 * j \<le> g_rcvd_pkt_len s
    \<and> (\<forall>k. i \<le> k \<longrightarrow> k < j \<longrightarrow> emit_desc_ok s k)
    \<and> g_neededPackets s' = g_neededPackets s + word_of_nat (j - i)
    \<and> g_neededBytes s' = g_neededBytes s + 32 * word_of_nat (j - i)
    \<and> (v \<longrightarrow> j = i + n \<or> g_rcvd_pkt_len s < 34 + 14 * (j + 1))"
  using assms
proof (induction n arbitrary: i s)
  case 0
  then show ?case by simp
next
  case (Suc n)
  let ?ed = "34 + 14 * i"
  have lim: "rx_limit s = int (g_rcvd_pkt_len s)"
    using Suc.prems(2) by (simp add: rx_limit_def RXBUFSZ_def)
  let ?s1 = "s\<lparr>g_totalPause := g_totalPause s + ucast (g_rxbuf s ! (?ed + 1))\<rparr>"
  let ?s2 = "?s1\<lparr>g_neededPackets := g_neededPackets ?s1 + 1, g_neededBytes := g_neededBytes ?s1 + 32\<rparr>"
  have r1: "rx_same s ?s1"
    using rx_sameI [where s = s and n = "g_neededPackets s" and b = "g_neededBytes s"] by simp
  have r2: "rx_same s ?s2" by (rule rx_sameI)
  consider (stop) "\<not> ?ed + 14 \<le> g_rcvd_pkt_len s"
    | (bad) "?ed + 14 \<le> g_rcvd_pkt_len s" "\<not> emit_desc_ok s i"
    | (go) "?ed + 14 \<le> g_rcvd_pkt_len s" "emit_desc_ok s i" by blast
  then show ?case
  proof cases
    case stop
    then show ?thesis using Suc.prems lim by auto
  next
    case bad
    have "emit_scan (Suc n) i s = (False, i, ?s1)"
      using bad lim by (auto simp: emit_desc_ok_def Let_def)
    then show ?thesis using Suc.prems r1 by auto
  next
    case go
    have "emit_scan (Suc n) i s = emit_scan n (Suc i) ?s2"
      using go lim by (auto simp: emit_desc_ok_def Let_def)
    then have "emit_scan n (Suc i) ?s2 = (v, j, s')" using Suc.prems by simp
    from Suc.IH [OF this] Suc.prems go
    have ih: "rx_same ?s2 s'" "Suc i \<le> j" "j \<le> Suc i + n" "34 + 14 * j \<le> g_rcvd_pkt_len s"
      "\<forall>k. Suc i \<le> k \<longrightarrow> k < j \<longrightarrow> emit_desc_ok ?s2 k"
      "g_neededPackets s' = g_neededPackets ?s2 + word_of_nat (j - Suc i)"
      "g_neededBytes s' = g_neededBytes ?s2 + 32 * word_of_nat (j - Suc i)"
      "v \<longrightarrow> j = Suc i + n \<or> g_rcvd_pkt_len s < 34 + 14 * (j + 1)" by simp_all
    have "j - i = Suc (j - Suc i)" using ih(2) by simp
    then have w: "(word_of_nat (j - i) :: u32) = word_of_nat (j - Suc i) + 1" by simp
    have "emit_desc_ok s k" if "i \<le> k" "k < j" for k
      using ih(5) go(2) that emit_desc_ok_cong [of ?s2 s k] by (cases "k = i") auto
    then show ?thesis
      using ih rx_same_trans [OF r2 ih(1)] by (simp add: w algebra_simps)
  qed
qed

lemma min_div_14:
  fixes j n len :: nat
  assumes "j \<le> n" "34 + 14 * j \<le> len" "j = n \<or> len < 34 + 14 * (j + 1)"
  shows "j = min n ((len - 34) div 14)"
proof -
  have "j \<le> (len - 34) div 14" using assms(2) by (simp add: less_eq_div_iff_mult_less_eq)
  moreover have "(len - 34) div 14 < j + 1" if "len < 34 + 14 * (j + 1)"
    using that by (simp add: div_less_iff_less_mult)
  ultimately show ?thesis using assms(1,3) by auto
qed

lemma validate_emit_spec:
  assumes "validate_emit s = (v, s')" "g_rcvd_pkt_len s \<le> RXBUFSZ"
  shows "g_rcvd_pkt_len s' = g_rcvd_pkt_len s \<and> g_opcode s' = g_opcode s
    \<and> (lltd_ok s \<longrightarrow> lltd_ok s')
    \<and> (v \<longrightarrow> evtType (g_this_event s') = evtEmitRcvd
         \<and> 34 + 14 * numDescrs (g_this_event s') \<le> g_rcvd_pkt_len s
         \<and> (\<forall>k < numDescrs (g_this_event s'). emit_desc_ok s k)
         \<and> numDescrs (g_this_event s') =
             min (unat (eh_numdescs s)) ((g_rcvd_pkt_len s - 34) div 14)
         \<and> g_totalPause s' \<le> TOPO_TOTALPAUSE_MAX
         \<and> g_neededPackets s' =
             word_of_nat (numDescrs (g_this_event s') + (if g_sequencenum s = 0 then 0 else 1))
         \<and> g_neededBytes s' = 32 * g_neededPackets s')"
proof -
  let ?s0 = "s\<lparr>g_totalPause := 0, g_neededPackets := 0, g_neededBytes := 0\<rparr>"
  have r0: "rx_same s ?s0" by (rule rx_sameI)
  show ?thesis
  proof (cases "g_rcvd_pkt_len s < 34")
    case True
    then show ?thesis using assms rx_same_inv [OF r0, of False False None None None]
      by (auto simp: validate_emit_def Let_def lltd_inv_def)
  next
    case False
    have en: "eh_numdescs ?s0 = eh_numdescs s" by (simp add: eh_numdescs_def)
    obtain w j s1 where scan: "emit_scan (unat (eh_numdescs s)) 0 ?s0 = (w, j, s1)"
      by (cases "emit_scan (unat (eh_numdescs s)) 0 ?s0") auto
    have sp: "rx_same ?s0 s1" "j \<le> unat (eh_numdescs s)" "34 + 14 * j \<le> g_rcvd_pkt_len s"
      "\<forall>k<j. emit_desc_ok ?s0 k" "g_neededPackets s1 = word_of_nat j"
      "g_neededBytes s1 = 32 * word_of_nat j"
      "w \<longrightarrow> j = unat (eh_numdescs s) \<or> g_rcvd_pkt_len s < 34 + 14 * (j + 1)"
      using emit_scan_spec [OF scan] assms(2) False by simp_all
    have r: "rx_same s s1" by (rule rx_same_trans [OF r0 sp(1)])
    note fr = rx_same_frame [OF r] and inv = rx_same_inv [OF r, of False False None None None]
    have d: "\<forall>k<j. emit_desc_ok s k" using sp(4) emit_desc_ok_cong [of ?s0 s] by simp
    have num: "w \<Longrightarrow> j = min (unat (eh_numdescs s)) ((g_rcvd_pkt_len s - 34) div 14)"
      using sp(2,3,7) by (intro min_div_14) simp_all
    let ?s2 = "if g_sequencenum s1 \<noteq> 0 then s1\<lparr>g_neededPackets := g_neededPackets s1 + 1,
        g_neededBytes := g_neededBytes s1 + 32\<rparr> else s1"
    let ?t = "?s2\<lparr>g_this_event := (g_this_event ?s2)\<lparr>numDescrs := j, evtType := evtEmitRcvd\<rparr>\<rparr>"
    have ve: "validate_emit s = (if \<not> w \<or> g_totalPause s1 > TOPO_TOTALPAUSE_MAX
        then (False, set_evtType evtInvalidPacket s1) else (True, ?t))"
      using False scan by (simp add: validate_emit_def Let_def en)
    have i1: "lltd_ok (set_evtType evtInvalidPacket s1) = lltd_ok s"
      using inv lltd_inv_set_event [of "\<lambda>e. e\<lparr>evtType := evtInvalidPacket\<rparr>" s1] by simp
    have r2: "rx_same s1 ?s2"
      using rx_sameI [where s = s1 and p = "g_totalPause s1"] by simp
    have i2: "lltd_ok ?t = lltd_ok s"
      using rx_same_inv [OF rx_same_trans [OF r r2], of False False None None None]
        lltd_inv_set_event [of "\<lambda>e. e\<lparr>numDescrs := j, evtType := evtEmitRcvd\<rparr>" ?s2] by simp
    show ?thesis
    proof (cases "\<not> w \<or> g_totalPause s1 > TOPO_TOTALPAUSE_MAX")
      case True
      then have "v = False" "s' = set_evtType evtInvalidPacket s1" using ve assms(1) by auto
      then show ?thesis using fr i1 by simp
    next
      case good: False
      then have st: "v = True" "s' = ?t" using ve assms(1) by auto
      have f: "g_rcvd_pkt_len s' = g_rcvd_pkt_len s" "g_opcode s' = g_opcode s"
        "evtType (g_this_event s') = evtEmitRcvd" "numDescrs (g_this_event s') = j"
        "g_totalPause s' = g_totalPause s1"
        "g_neededPackets s' = word_of_nat (j + (if g_sequencenum s = 0 then 0 else 1))"
        "g_neededBytes s' = 32 * g_neededPackets s'"
        using fr sp(5,6) by (simp_all add: st(2) algebra_simps)
      have jn: "j = min (unat (eh_numdescs s)) ((g_rcvd_pkt_len s - 34) div 14)"
        using num good by blast
      have "lltd_ok s \<longrightarrow> lltd_ok s'" using i2 st(2) by simp
      with f(1-3,5-7) d sp(3) good jn show ?thesis by (auto simp: f(4) not_less)
    qed
  qed
qed


definition start_state :: lltd where
  "start_state = lltd_init [0, 1, 2, 3, 4, 5] (\<lambda>_. DUint8 0) (\<lambda>_. (0, 0)) (\<lambda>_ x. x) (\<lambda>_ _. None)
     (\<lambda>_. True) (\<lambda>_. \<lparr>rd_type = 0, rd_realsrc = replicate 6 0, rd_src = replicate 6 0,
       rd_dst = replicate 6 0\<rparr>)"

definition emit_example :: lltd where
  "emit_example = start_state\<lparr>g_rcvd_pkt_len := 48, g_sequencenum := 7,
     g_rxbuf := replicate 32 0 @ [0, 1] @ [1, 5, 0, 13, 58, 215, 241, 64, 2, 1, 2, 3, 4, 5]\<rparr>"


section \<open>The receiver returns and keeps the invariant\<close>

lemma rx_read_ok:
  "lltd_ok s \<Longrightarrow> length f \<le> RXBUFSZ \<Longrightarrow> lltd_ok (rx_read (Some f) s)"
  by (simp add: rx_read_def lltd_inv_def buf_inv_def length_buf_write)

lemma validate_opcode_ok:
  assumes "lltd_ok s" "g_rcvd_pkt_len s \<le> RXBUFSZ" "evtType (g_this_event s) = evtPacketRcvd"
    "validate_opcode s = (True, s')"
  shows "lltd_ok s' \<and> packet_event s'
    \<and> (g_opcode s' = Opcode_Discover \<longrightarrow> evtType (g_this_event s') = evtDiscoverRcvd)"
proof (cases "g_opcode s = Opcode_Emit")
  case True
  then have "validate_emit s = (True, s')" using assms(4) by (simp add: validate_opcode_def opcode_defs)
  from validate_emit_spec [OF this assms(2)] assms(1,2) True show ?thesis
    by (simp add: packet_event_def opcode_defs)
next
  case False
  then show ?thesis
    using assms
    by (auto simp: validate_opcode_def validate_discover_def validate_hello_def validate_queryltlv_def
        packet_event_def opcode_defs Let_def lltd_inv_def split: if_splits)
qed

lemma validate_opcode_False:
  assumes "lltd_ok s" "g_rcvd_pkt_len s \<le> RXBUFSZ" "validate_opcode s = (False, s')"
  shows "lltd_ok s'"
proof (cases "g_opcode s = Opcode_Emit")
  case True
  then have "validate_emit s = (False, s')" using assms(3) by (simp add: validate_opcode_def opcode_defs)
  from validate_emit_spec [OF this assms(2)] assms(1) show ?thesis by simp
next
  case False
  then show ?thesis
    using assms
    by (auto simp: validate_opcode_def validate_discover_def validate_hello_def validate_queryltlv_def
        Let_def lltd_inv_def split: if_splits)
qed

lemma recv_accepted_ok:
  assumes "lltd_ok s" "g_rcvd_pkt_len s \<le> RXBUFSZ"
  shows "\<exists>s'. recv_accepted q s = Some s' \<and> lltd_ok s'"
proof -
  let ?s = "s\<lparr>g_sequencenum := q,
      g_this_event := \<lparr>evtType = evtPacketRcvd, ev_ssn = None, isNewSession = False,
        isAckingMe = False, isInternalEvt = False, numDescrs = 0\<rparr>\<rparr>"
  have inv: "lltd_ok ?s" using assms(1) by (simp add: lltd_inv_def ssn_inv_def)
  obtain v s2 where v: "validate_opcode ?s = (v, s2)" by fastforce
  show ?thesis
  proof (cases v)
    case True
    have "lltd_ok s2 \<and> packet_event s2
        \<and> (g_opcode s2 = Opcode_Discover \<longrightarrow> evtType (g_this_event s2) = evtDiscoverRcvd)"
      by (rule validate_opcode_ok [OF inv]) (use assms v True in simp_all)
    then have "\<exists>s'. state_process_packet s2 = Some s' \<and> lltd_ok s'"
      by (intro state_process_packet_ok) auto
    then show ?thesis using v True by (simp add: recv_accepted_def)
  next
    case False
    have "lltd_ok s2" by (rule validate_opcode_False [OF inv]) (use assms v False in simp_all)
    then show ?thesis using v False by (simp add: recv_accepted_def)
  qed
qed

lemma recv_sequenced_ok:
  assumes "lltd_ok s" "g_rcvd_pkt_len s \<le> RXBUFSZ"
  shows "\<exists>s'. recv_sequenced s = Some s' \<and> lltd_ok s'"
proof -
  have "\<exists>s'. tx_rtxpacket s = Some s' \<and> lltd_ok s'" if "g_rtxseqnum s \<noteq> 0"
  proof -
    have "os_write_ok s bs" for bs using assms(1) by (simp add: lltd_inv_def os_inv_def)
    moreover have "lltd_ok (s\<lparr>os_out := out\<rparr>)" for out using assms(1) by (simp add: lltd_inv_def)
    ultimately show ?thesis using that by (simp add: tx_rtxpacket_def tx_write_def)
  qed
  then show ?thesis
    using recv_accepted_ok [OF assms] assms(1) by (auto simp: recv_sequenced_def Let_def)
qed

text \<open>The inputs considered: frames that fit the receive buffer and are not of the QoS diagnostics
  service, which has its own handler.\<close>

fun lltd_input_ok :: "lltd_input \<Rightarrow> bool" where
  "lltd_input_ok (Io (Some f)) \<longleftrightarrow> 0 < length f \<and> length f \<le> RXBUFSZ
     \<and> (32 \<le> length f \<longrightarrow> f ! 15 \<noteq> ToS_QoSDiagnostics)"
| "lltd_input_ok (Io None) = False"
| "lltd_input_ok Timer = True"

lemma packetio_recv_handler_ok:
  assumes inv: "lltd_ok s" and f: "lltd_input_ok (Io (Some f))"
  shows "\<exists>s'. packetio_recv_handler qosrcvpkt (Some f) s = Some s' \<and> lltd_ok s'"
proof -
  let ?s1 = "rx_read (Some f) s"
  have i1: "lltd_ok ?s1" using inv f by (intro rx_read_ok) simp_all
  have len: "g_rcvd_pkt_len ?s1 = length f" by (simp add: rx_read_def)
  have i2: "lltd_ok (?s1\<lparr>g_opcode := op\<rparr>)" for op using i1 by (simp add: lltd_inv_def)
  have tos: "tbh_tos (?s1\<lparr>g_opcode := op\<rparr>) \<noteq> ToS_QoSDiagnostics" if "32 \<le> length f" for op
  proof -
    have "length (g_rxbuf s) = RXBUFSZ" using inv by (simp add: lltd_inv_def buf_inv_def)
    then show ?thesis using f that by (simp add: tbh_tos_def rx_read_def nth_buf_write)
  qed
  have "\<exists>s'. recv_sequenced (?s1\<lparr>g_opcode := op\<rparr>) = Some s' \<and> lltd_ok s'" for op
    by (rule recv_sequenced_ok [OF i2]) (use f len in simp_all)
  then show ?thesis
    using f len i1 i2 tos by (simp add: packetio_recv_handler_def Let_def not_less)
qed

lemma timer_turn_ok:
  assumes inv: "lltd_ok s"
  shows "\<exists>s'. timer_turn s = Some s' \<and> lltd_ok s'"
proof -
  let ?s = "s\<lparr>os_calls := Suc (os_calls s)\<rparr>"
  have i1: "lltd_ok ?s" using inv by (simp add: lltd_inv_def)
  show ?thesis
  proof (cases "event_pop_due (os_time s (os_calls s)) (g_evq s)")
    case None
    then show ?thesis using i1 by (simp add: timer_turn_def gettimeofday_def)
  next
    case (Some eq)
    then obtain e q where eq: "event_pop_due (os_time s (os_calls s)) (g_evq s) = Some (e, q)"
      by (cases eq) auto
    have t: "timers_ok s" using inv by (simp add: lltd_inv_def)
    note p = tm_ok_pop [OF t eq]
    have "\<exists>s'. run_callback (ev_function e) (?s\<lparr>g_evq := q\<rparr>) = Some s' \<and> lltd_ok s'"
      by (rule run_callback_ok [OF i1]) (use p in \<open>simp_all add: timer_ptr_eq\<close>)
    then show ?thesis using eq by (simp add: timer_turn_def gettimeofday_def)
  qed
qed

interpretation responder: total_component "lltd_step qosrcvpkt" lltd_input_ok lltd_ok
  for qosrcvpkt
proof unfold_locales
  fix s e assume a: "lltd_ok s" "lltd_input_ok e"
  show "\<exists>s'. lltd_step qosrcvpkt e s = Some s'"
    using a packetio_recv_handler_ok [OF a(1)] timer_turn_ok [OF a(1)]
    by (cases e rule: lltd_input_ok.cases) auto
next
  fix s e s' assume a: "lltd_ok s" "lltd_input_ok e" "lltd_step qosrcvpkt e s = Some s'"
  show "lltd_ok s'"
  proof (cases e)
    case (Io rd)
    then obtain f where "rd = Some f" using a(2) by (cases rd) auto
    then show ?thesis using packetio_recv_handler_ok [OF a(1), of f qosrcvpkt] a(2,3) Io by auto
  next
    case Timer
    then show ?thesis using timer_turn_ok [OF a(1)] a(3) by auto
  qed
qed



end
