(* ===== verification/Lltd_Properties.thy ===== *)
theory Lltd_Properties
  imports Lltd_Packetio_Rx
begin

text \<open>
  What the responder does on the wire: answers to Query commands, retransmission of sequenced answers,
  Emit commands, resets, and two places where the code does not do what it is meant to.
\<close>

section \<open>An example state\<close>

text \<open>One mapper has a complete session and may send commands.\<close>

definition mapped_state :: lltd where
  "mapped_state = start_state\<lparr>g_sessions := (g_sessions start_state)
       [0 := empty_session\<lparr>ssn_is_valid := True, ssn_state := smS_Complete\<rparr>],
     g_topo_session := Some 0, g_smE_state := smE_Wait, g_smT_state := smT_Command\<rparr>"

lemma lltd_ok_start_state: "lltd_ok start_state"
  unfolding start_state_def by (rule lltd_ok_init) (simp_all add: info_ok_def get_ok_def desc_ok_def)

lemma start_state_fields:
  "g_sessions start_state = replicate MAX_NUM_SESSIONS empty_session" "g_emit_remaining start_state = 0"
  "g_emit_timer start_state = None" "g_block_timer start_state = None" "g_hello_timer start_state = None"
  by (simp_all add: start_state_def lltd_init_def)

lemma lltd_ok_mapped_state: "lltd_ok mapped_state"
proof -
  let ?ss = "(replicate MAX_NUM_SESSIONS empty_session)
      [0 := empty_session\<lparr>ssn_is_valid := True, ssn_state := smS_Complete\<rparr>]"
  have "map ssn_InactivityTimer ?ss = map ssn_InactivityTimer (g_sessions start_state)"
    unfolding start_state_fields
    by (rule map_timer_update) (simp add: empty_session_def MAX_NUM_SESSIONS_def)
  moreover have "sess_inv None ?ss"
    by (auto simp: sess_inv_def nth_upd sess_ok_def empty_session_def)
  moreover have "topo_inv None (Some 0) ?ss"
    by (simp add: topo_inv_def empty_session_def MAX_NUM_SESSIONS_def)
  moreover have "enum_inv False None smE_Wait None None ?ss" "emit_inv False smT_Command (Some 0) 0 None d" for d
    by (simp_all add: enum_inv_def emit_inv_def)
  ultimately show ?thesis
    using lltd_ok_start_state by (simp add: mapped_state_def lltd_inv_def start_state_fields)
qed

lemma mapped_state_topo: "g_topo_session mapped_state = Some 0"
  by (simp add: mapped_state_def)

section \<open>Query\<close>

lemma tx_sendpacket_out:
  assumes "tx_inv s" "n \<le> TOPO_MAX_FRAMESZ"
  shows "\<exists>s'. tx_sendpacket n q s = Some s' \<and> os_out s' = os_out s @ [take n (g_txbuf s)]
    \<and> g_sees s' = g_sees s
    \<and> (q \<noteq> 0 \<longrightarrow> g_rtxseqnum s' = q \<and> g_re_tx_opcode s' = g_opcode s
         \<and> take (g_re_tx_len s') (g_re_txbuf s') = take n (g_txbuf s))"
proof -
  have "os_write_ok s (take n (g_txbuf s))" "length (g_re_txbuf s) = TXBUFSZ" "length (g_txbuf s) = TXBUFSZ"
    using assms(1) by (simp_all add: tx_inv_def os_inv_def buf_inv_def)
  then show ?thesis
    using assms(2)
    by (simp add: tx_sendpacket_def tx_write_def buf_write_def Let_def TOPO_MAX_FRAMESZ_def TXBUFSZ_def)
qed

lemma seeslist_is_empty_contents: "sees_inv sl \<Longrightarrow> seeslist_is_empty sl \<longleftrightarrow> sl_contents sl = []"
  by (auto simp: sees_inv_def sl_dequeue_None [symmetric] seeslist_dequeue_def seeslist_is_empty_def)

text \<open>C24:
  A Query is answered with the oldest observations, in the order they were made and as many as fit into
  a frame (74); they are removed from the list, and the more-bit of the count says exactly whether
  observations are left.
\<close>

theorem query_answer_is_oldest_observations:
  assumes inv: "lltd_ok s" and topo: "g_topo_session s = Some i"
  shows "\<exists>s' ds frame. packetio_tx_queryresp s = Some s' \<and> os_out s' = os_out s @ [frame]
    \<and> sl_contents (g_sees s) = ds @ sl_contents (g_sees s')
    \<and> length ds = min 74 (length (sl_contents (g_sees s)))
    \<and> drop 32 frame = bytes16 (if sl_contents (g_sees s') = [] then word_of_nat (length ds)
                               else word_of_nat (length ds) OR 0x8000) @ concat (map recvee_bytes ds)"
proof -
  have tx: "tx_inv s" and mp: "mappers_ok s"
    using lltd_inv_tx_inv [OF inv] lltd_inv_mappers [OF inv] by simp_all
  let ?b1 = "fmt_base (g_txbuf s) (g_hwaddr s) (ssn_mapper_real (ssn_at s i))
      ToS_TopologyDiscovery Opcode_QueryResp (g_sequencenum s) False"
  obtain ds sl where f: "queryresp_fill 1480 (g_sees s) = (ds, sl)" by fastforce
  have q: "sees_inv sl" "list_all desc_ok ds" "20 * length ds \<le> 1480"
    "sl_contents (g_sees s) = ds @ sl_contents sl" "1480 < 20 + 20 * length ds \<or> sl_contents sl = []"
    using queryresp_fill_spec [OF _ f] tx by (auto simp: tx_inv_def)
  define numdescs :: u16 where "numdescs = (if sl_contents sl = [] then word_of_nat (length ds)
      else word_of_nat (length ds) OR 0x8000)"
  define body where "body = bytes16 numdescs @ concat (map recvee_bytes ds)"
  have "list_all (\<lambda>d. length (recvee_bytes d) = 20) ds"
    using q(2) by (auto simp: list_all_iff length_recvee_bytes)
  from length_concat_fixed [OF this] have body: "length body = 2 + 20 * length ds"
    by (simp add: body_def)
  have b1: "length ?b1 = TXBUFSZ" using tx mp topo
    by (intro length_fmt_base) (auto simp: tx_inv_def buf_inv_def mappers_ok_def)
  then have len: "length (buf_write ?b1 32 body) = TXBUFSZ"
    by (rule length_buf_write_TXBUFSZ) (use q(3) body in \<open>simp add: TXBUFSZ_def\<close>)
  let ?t = "s\<lparr>g_txbuf := buf_write ?b1 32 body, g_sees := sl\<rparr>"
  have tinv: "tx_inv ?t" using tx q(1) len by (simp add: tx_inv_def buf_inv_def)
  have eq: "packetio_tx_queryresp s = tx_sendpacket (34 + 20 * length ds) (g_sequencenum s) ?t"
    using topo f seeslist_is_empty_contents [OF q(1)]
    by (simp add: packetio_tx_queryresp_def Let_def TOPO_MAX_FRAMESZ_def body_def numdescs_def)
  obtain s' where s': "tx_sendpacket (34 + 20 * length ds) (g_sequencenum s) ?t = Some s'"
    "os_out s' = os_out s @ [take (34 + 20 * length ds) (buf_write ?b1 32 body)]" "g_sees s' = sl"
    using tx_sendpacket_out [OF tinv, of "34 + 20 * length ds" "g_sequencenum s"] q(3)
    by (auto simp: TOPO_MAX_FRAMESZ_def)
  let ?f = "take (34 + 20 * length ds) (buf_write ?b1 32 body)"
  have dr: "drop 32 ?f = body"
    using b1 body q(3) by (simp add: buf_write_def TXBUFSZ_def drop_take)
  show ?thesis
  proof (intro exI conjI)
    show "packetio_tx_queryresp s = Some s'" using eq s'(1) by simp
    show "os_out s' = os_out s @ [?f]" by (rule s'(2))
    show "sl_contents (g_sees s) = ds @ sl_contents (g_sees s')" using q(4) s'(3) by simp
    have "length (sl_contents (g_sees s)) = length ds + length (sl_contents sl)"
      unfolding q(4) by (rule length_append)
    then show "length ds = min 74 (length (sl_contents (g_sees s)))"
      using q(3,5) by (auto simp del: length_sl_contents)
    show "drop 32 ?f = bytes16 (if sl_contents (g_sees s') = [] then word_of_nat (length ds)
        else word_of_nat (length ds) OR 0x8000) @ concat (map recvee_bytes ds)"
      using dr s'(3) by (simp only: body_def numdescs_def)
  qed
qed

theorem query_answer_is_oldest_observations_witness:
  "\<exists>s' ds frame. packetio_tx_queryresp mapped_state = Some s' \<and> os_out s' = [frame]
    \<and> ds = [] \<and> drop 32 frame = [0, 0]"
proof -
  have "sl_contents (g_sees mapped_state) = []"
    using conjunct2 [OF sl_new [of NUM_SEES]]
    by (simp add: mapped_state_def start_state_def lltd_init_def NUM_SEES_def)
  moreover have "os_out mapped_state = []"
    by (simp add: mapped_state_def start_state_def lltd_init_def)
  ultimately show ?thesis
    using query_answer_is_oldest_observations [OF lltd_ok_mapped_state mapped_state_topo]
    by (auto simp: bytes16_def hi8_def lo8_def)
qed

section \<open>Retransmission\<close>

text \<open>C23:
  A sequenced answer is kept: when the same command arrives again with the same sequence number the very
  same frame is sent again and nothing else changes; another command with that sequence number, and any
  command whose number is neither that one nor its successor, is dropped.
\<close>

theorem sequenced_answer_is_retransmitted:
  assumes "lltd_ok s" "n \<le> TOPO_MAX_FRAMESZ" "q \<noteq> 0"
    and "tx_sendpacket n q s = Some s1"
    and "t = s1\<lparr>g_rxbuf := rx, g_rcvd_pkt_len := len, g_opcode := op\<rparr>"
    and "op \<noteq> Opcode_Discover" "tbh_seqnum t \<noteq> 0"
  shows "(tbh_seqnum t = q \<and> op = g_opcode s \<longrightarrow>
        recv_sequenced t = Some (t\<lparr>os_out := os_out s @ [take n (g_txbuf s), take n (g_txbuf s)]\<rparr>))
    \<and> (tbh_seqnum t = q \<and> op \<noteq> g_opcode s \<longrightarrow> recv_sequenced t = Some t)
    \<and> (tbh_seqnum t \<noteq> q \<and> tbh_seqnum t \<noteq> SEQNUM_NEXT q \<longrightarrow> recv_sequenced t = Some t)"
proof -
  have tx: "tx_inv s" by (rule lltd_inv_tx_inv [OF assms(1)])
  have s1: "os_out s1 = os_out s @ [take n (g_txbuf s)]" "g_rtxseqnum s1 = q"
    "g_re_tx_opcode s1 = g_opcode s" "take (g_re_tx_len s1) (g_re_txbuf s1) = take n (g_txbuf s)"
    using tx_sendpacket_out [OF tx assms(2), of q] assms(3,4) by auto
  have "os_write_ok s1 = os_write_ok s"
    using assms(4) by (auto simp: tx_sendpacket_def tx_write_def Let_def split: if_splits)
  then have wr: "os_write_ok s1 bs" for bs using tx by (simp add: tx_inv_def os_inv_def)
  show ?thesis
    using s1 assms(3,5-7) wr by (simp add: recv_sequenced_def tx_rtxpacket_def tx_write_def)
qed

theorem sequenced_answer_is_retransmitted_witness:
  "\<exists>s1. tx_sendpacket 32 7 mapped_state = Some s1 \<and>
     recv_sequenced (s1\<lparr>g_rxbuf := replicate 30 0 @ [0, 7], g_rcvd_pkt_len := 32,
       g_opcode := Opcode_INVALID\<rparr>) = Some (s1\<lparr>g_rxbuf := replicate 30 0 @ [0, 7],
         g_rcvd_pkt_len := 32, g_opcode := Opcode_INVALID,
         os_out := [take 32 (g_txbuf mapped_state), take 32 (g_txbuf mapped_state)]\<rparr>)"
proof -
  obtain s1 where s1: "tx_sendpacket 32 7 mapped_state = Some s1"
    using tx_sendpacket_out [OF lltd_inv_tx_inv [OF lltd_ok_mapped_state], of 32 7]
    by (auto simp: TOPO_MAX_FRAMESZ_def)
  let ?t = "s1\<lparr>g_rxbuf := replicate 30 0 @ [0, 7], g_rcvd_pkt_len := 32, g_opcode := Opcode_INVALID\<rparr>"
  have q: "tbh_seqnum ?t = 7" by (simp add: tbh_seqnum_def nth_append mk16_def)
  have m: "g_opcode mapped_state = Opcode_INVALID" "os_out mapped_state = []"
    by (simp_all add: mapped_state_def start_state_def lltd_init_def)
  have ne: "Opcode_INVALID \<noteq> Opcode_Discover" by (simp add: opcode_defs)
  from sequenced_answer_is_retransmitted [OF lltd_ok_mapped_state _ _ s1 refl ne, where
        rx = "replicate 30 0 @ [0, 7]" and len = 32] q m
  show ?thesis by (simp add: s1 TOPO_MAX_FRAMESZ_def)
qed

section \<open>Two flaws\<close>

text \<open>
  A failed read of the socket is not noticed: \<open>g_rcvd_pkt_len\<close> is unsigned, so the value -1 passes the
  test for an error and the frame that is still in the buffer is handled once more.
\<close>

theorem failed_read_handles_old_frame:
  assumes "eh_ethertype s = 0x88D9" "tbh_version s = 1" "tbh_tos s \<le> 1" "tbh_opcode s < Opcode_INVALID"
    "frame_for_us (s\<lparr>g_opcode := tbh_opcode s\<rparr>)"
  shows "packetio_recv_handler qosrcvpkt None s =
    recv_sequenced (s\<lparr>g_rcvd_pkt_len := 4294967295, g_opcode := tbh_opcode s\<rparr>)"
proof -
  let ?s = "s\<lparr>g_rcvd_pkt_len := 4294967295\<rparr>"
  have "eh_ethertype ?s = 0x88D9" "tbh_version ?s = 1" "tbh_tos ?s \<le> 1" "tbh_opcode ?s = tbh_opcode s"
    "tbh_tos (?s\<lparr>g_opcode := tbh_opcode s\<rparr>) = tbh_tos s"
    "frame_for_us (?s\<lparr>g_opcode := tbh_opcode s\<rparr>)"
    using assms by (simp_all add: eh_ethertype_def tbh_version_def tbh_tos_def tbh_opcode_def
        frame_for_us_def tbh_realdst_def tbh_seqnum_def)
  moreover have "tbh_tos s \<noteq> ToS_QoSDiagnostics"
  proof
    assume "tbh_tos s = ToS_QoSDiagnostics"
    with assms(3) show False by (simp add: ToS_QoSDiagnostics_def word_le_nat_alt)
  qed
  moreover have "\<not> 1 < tbh_tos s" "\<not> Opcode_INVALID \<le> tbh_opcode s"
    using assms(3,4) by (simp_all add: not_less not_le)
  ultimately show ?thesis by (simp add: packetio_recv_handler_def rx_read_def Let_def)
qed

theorem failed_read_handles_old_frame_witness:
  "packetio_recv_handler (\<lambda>s. None) None (start_state\<lparr>g_rxbuf := replicate 12 0 @ [0x88, 0xd9, 1, 0, 0, 8]
       @ replicate 6 0xff @ replicate 8 0\<rparr>) =
   recv_sequenced (start_state\<lparr>g_rxbuf := replicate 12 0 @ [0x88, 0xd9, 1, 0, 0, 8] @ replicate 6 0xff
       @ replicate 8 0, g_rcvd_pkt_len := 4294967295, g_opcode := 8\<rparr>)"
  using failed_read_handles_old_frame [of "start_state\<lparr>g_rxbuf := replicate 12 0
    @ [0x88, 0xd9, 1, 0, 0, 8] @ replicate 6 0xff @ replicate 8 0\<rparr>"]
  by (simp add: eh_ethertype_def tbh_version_def tbh_tos_def tbh_opcode_def frame_for_us_def
      tbh_realdst_def tbh_seqnum_def nth_append mk16_def sub_buf_def opcode_defs BCAST_VALID_def
      SEQNUM_REQUIRED_def Etheraddr_broadcast_def)

lemma restart_charge_fields:
  "g_ctc_bytes (restart_timer State_charge_timeout ms s) = g_ctc_bytes s"
  by (simp add: restart_timer_def gettimeofday_def CANCEL_def event_add_def Let_def split: option.splits)

lemma tx_flat_ctc: "packetio_tx_flat s = Some s' \<Longrightarrow> g_ctc_bytes s' = g_ctc_bytes s"
  by (auto simp: packetio_tx_flat_def tx_sendpacket_def tx_write_def bind_eq_Some_conv Let_def
      split: if_splits)

text \<open>The byte count of the charge wraps around: a Charge frame of 32 bytes with a sequence number, on an
  empty account, leaves a charge of almost 4 GB because the Flat sent as answer has 38 bytes.
\<close>

theorem short_charge_frame_wraps_the_account:
  assumes inv: "lltd_ok s" and topo: "g_topo_session s = Some i"
    and fr: "g_opcode s = Opcode_Charge" "g_rcvd_pkt_len s = 32" "g_sequencenum s \<noteq> 0"
    and empty: "g_ctc_bytes s = 0"
  shows "\<exists>s'. smT_command_packet s = completed s' \<and> g_ctc_bytes s' = 4294967290"
proof -
  let ?s1 = "ChargeAdd (g_rcvd_pkt_len s) s"
  have i1: "lltd_ok ?s1" by (rule ChargeAdd_ok [OF inv])
  have t1: "g_topo_session ?s1 = Some i" "g_sequencenum ?s1 \<noteq> 0"
    using ChargeAdd_ok(2) [OF inv, of 32] topo fr by (auto simp: charge_same_def)
  obtain s2 where s2: "packetio_tx_flat ?s1 = Some s2" "tx_same ?s1 s2" "tx_inv s2" "g_tx_len s2 = 38"
    using tx_flat_ok [OF lltd_inv_tx_inv [OF i1] lltd_inv_mappers [OF i1] t1(1)] by blast
  have "g_ctc_bytes s2 = 32"
    using tx_flat_ctc [OF s2(1)] empty fr(2)
    by (simp add: ChargeAdd_def restart_charge_fields Let_def TOPO_CTC_BYTES_MAX_def)
  then have "g_ctc_bytes (ChargeConsume 38 s2) = 4294967290"
    by (simp add: ChargeConsume_def restart_charge_fields)
  with s2 t1(2) fr(1) show ?thesis by (simp add: smT_command_packet_def)
qed

theorem short_charge_frame_wraps_the_account_witness:
  "\<exists>s'. smT_command_packet (mapped_state\<lparr>g_opcode := Opcode_Charge, g_rcvd_pkt_len := 32,
     g_sequencenum := 1\<rparr>) = completed s' \<and> g_ctc_bytes s' = 4294967290"
proof (rule short_charge_frame_wraps_the_account)
  show "lltd_ok (mapped_state\<lparr>g_opcode := Opcode_Charge, g_rcvd_pkt_len := 32, g_sequencenum := 1\<rparr>)"
    using lltd_ok_mapped_state by (simp add: lltd_inv_def)
qed (simp_all add: mapped_state_topo, simp add: mapped_state_def start_state_def lltd_init_def)

section \<open>Emit\<close>

text \<open>The frame for the descriptor at offset \<open>ed\<close> of an Emit frame \<open>b\<close>, and the ACK. \<open>r\<close> is the reserved
  byte, which the senders leave as it is.\<close>

definition emit_frame :: "u8 list \<Rightarrow> u8 \<Rightarrow> u8 list \<Rightarrow> nat \<Rightarrow> u8 list" where
  "emit_frame hw r b ed = sub_buf b (ed + 8) 6 @ sub_buf b (ed + 2) 6
     @ [0x88, 0xd9, 1, 0, r, if b ! ed = 0 then Opcode_Train else Opcode_Probe]
     @ sub_buf b (ed + 8) 6 @ hw @ [0, 0]"

definition ack_frame :: "u8 list \<Rightarrow> u8 \<Rightarrow> u8 list \<Rightarrow> u16 \<Rightarrow> u8 list" where
  "ack_frame hw r mapper q = mapper @ hw @ [0x88, 0xd9, 1, 0, r, Opcode_ACK] @ mapper @ hw @ bytes16 q"

lemma tx_emitee_out:
  assumes tx: "tx_inv s" and eb: "length (g_emitbuf s) = RXBUFSZ" "ed + 14 \<le> RXBUFSZ"
  shows "\<exists>s'. packetio_tx_emitee ed s = Some s' \<and> tx_same s s' \<and> tx_inv s'
    \<and> os_out s' = os_out s @ [emit_frame (g_hwaddr s) (g_txbuf s ! 16) (g_emitbuf s) ed]
    \<and> g_txbuf s' ! 16 = g_txbuf s ! 16"
proof -
  let ?dst = "sub_buf (g_emitbuf s) (ed + 8) 6" and ?src = "sub_buf (g_emitbuf s) (ed + 2) 6"
  let ?op = "if g_emitbuf s ! ed = 0 then Opcode_Train else Opcode_Probe"
  let ?b = "buf_write (buf_write (buf_write (buf_write (g_txbuf s) 6 ?src)
      0 ?dst) 12 (bytes16 0x88D9 @ [1, ToS_TopologyDiscovery]))
      17 (?op # ?dst @ g_hwaddr s @ bytes16 0)"
  have l: "length ?dst = 6" "length ?src = 6" "length (g_hwaddr s) = 6" "length (g_txbuf s) = TXBUFSZ"
    using assms by (simp_all add: length_sub_buf tx_inv_def buf_inv_def)
  have len: "length ?b = TXBUFSZ" using l by (simp add: length_buf_write TXBUFSZ_def)
  have eq: "packetio_tx_emitee ed s = tx_sendpacket 32 0 (s\<lparr>g_txbuf := ?b\<rparr>)"
    using assms by (simp add: packetio_tx_emitee_def rd8_def Let_def)
  obtain s' where s': "packetio_tx_emitee ed s = Some s'" "tx_same s s'" "tx_inv s'"
    "os_out s' = os_out s @ [take 32 ?b]"
    using tx_prepared [OF tx_same_txbuf tx_inv_txbuf [OF tx len] _ eq] by (auto simp: TOPO_MAX_FRAMESZ_def)
  have tb: "g_txbuf s' = ?b"
    using s'(1) eq by (auto simp: tx_sendpacket_def tx_write_def split: if_splits)
  have b: "bytes16 0x88D9 = [0x88, 0xD9]" "bytes16 0 = [0, 0]" by (simp_all add: bytes16_def hi8_def lo8_def)
  have b16: "take (Suc 0) (drop 16 (g_txbuf s)) = [g_txbuf s ! 16]"
    using l(4) by (simp add: TXBUFSZ_def Cons_nth_drop_Suc [symmetric])
  have t32: "take 32 ?b = emit_frame (g_hwaddr s) (g_txbuf s ! 16) (g_emitbuf s) ed"
    using l b16 by (simp add: emit_frame_def buf_write_def b TXBUFSZ_def drop_take ToS_TopologyDiscovery_def)
  have "?b ! 16 = g_txbuf s ! 16"
    using l by (simp add: nth_buf_write length_buf_write TXBUFSZ_def b)
  then show ?thesis using s' tb t32 by auto
qed

lemma tx_ack_out:
  assumes tx: "tx_inv s" and mp: "mappers_ok s" and topo: "g_topo_session s = Some i"
  shows "\<exists>s'. packetio_tx_ack q s = Some s' \<and> tx_same s s'
    \<and> os_out s' = os_out s
        @ [ack_frame (g_hwaddr s) (g_txbuf s ! 16) (ssn_mapper_real (g_sessions s ! i)) q]"
proof -
  let ?b = "fmt_base (g_txbuf s) (g_hwaddr s) (ssn_mapper_real (ssn_at s i))
      ToS_TopologyDiscovery Opcode_ACK q False"
  have l: "length (g_txbuf s) = TXBUFSZ" "length (g_hwaddr s) = 6"
    "length (ssn_mapper_real (ssn_at s i)) = 6"
    using assms by (auto simp: tx_inv_def buf_inv_def mappers_ok_def)
  have len: "length ?b = TXBUFSZ" by (rule length_fmt_base [OF l])
  have "packetio_tx_ack q s = tx_sendpacket 32 q (s\<lparr>g_txbuf := ?b\<rparr>)"
    using topo by (simp add: packetio_tx_ack_def)
  from tx_prepared [OF tx_same_txbuf tx_inv_txbuf [OF tx len] _ this] show ?thesis
    using take_fmt_base [OF l, of ToS_TopologyDiscovery Opcode_ACK q False]
    by (auto simp: TOPO_MAX_FRAMESZ_def ack_frame_def ssn_at_def ToS_TopologyDiscovery_def)
qed

text \<open>The Emit state with no emit timer running, and what it will have sent when it is left.\<close>

definition emitting :: "lltd \<Rightarrow> bool" where
  "emitting s \<longleftrightarrow> tx_inv s \<and> mappers_ok s \<and> length (g_emitbuf s) = RXBUFSZ \<and> g_emit_timer s = None
     \<and> g_smT_state s = smT_Emit \<and> evtType (g_this_event s) = evtEmitTimeout
     \<and> g_emitdesc s + 14 * unat (g_emit_remaining s) \<le> RXBUFSZ"

lemma emitting_step:
  assumes e: "emitting s" and r: "unat (g_emit_remaining s) = Suc n"
  obtains s1 where "packetio_tx_emitee (g_emitdesc s) s = Some s1" "tx_same s s1" "tx_inv s1"
    "os_out s1 = os_out s @ [emit_frame (g_hwaddr s) (g_txbuf s ! 16) (g_emitbuf s) (g_emitdesc s)]"
    "g_txbuf s1 ! 16 = g_txbuf s ! 16" "unat (g_emit_remaining s - 1) = n"
proof -
  have rem: "unat (g_emit_remaining s - 1) = n"
    using r by (metis diff_Suc_1 unat_0 unat_minus_one nat.distinct(1))
  show thesis
    using tx_emitee_out [of s "g_emitdesc s"] e r rem that
    by (auto simp: emitting_def)
qed

lemma emit_burst:
  assumes "emitting s" "g_topo_session s = Some i" "unat (g_emit_remaining s) = Suc n"
    "\<And>k. 0 < k \<Longrightarrow> k \<le> n \<Longrightarrow> g_emitbuf s ! (g_emitdesc s + 14 * k + 1) = 0"
  shows "\<exists>s'. smT_loop s = completed s' \<and> g_smT_state s' = smT_Command
    \<and> os_out s' = os_out s
        @ map (\<lambda>k. emit_frame (g_hwaddr s) (g_txbuf s ! 16) (g_emitbuf s) (g_emitdesc s + 14 * k)) [0..<Suc n]
        @ (if g_emit_seqnum s \<noteq> 0
           then [ack_frame (g_hwaddr s) (g_txbuf s ! 16) (ssn_mapper_real (g_sessions s ! i))
                  (g_emit_seqnum s)] else [])"
  using assms
proof (induction n arbitrary: s)
  case 0
  obtain s1 where s1: "packetio_tx_emitee (g_emitdesc s) s = Some s1" "tx_same s s1" "tx_inv s1"
    "os_out s1 = os_out s @ [emit_frame (g_hwaddr s) (g_txbuf s ! 16) (g_emitbuf s) (g_emitdesc s)]"
    "g_txbuf s1 ! 16 = g_txbuf s ! 16" "unat (g_emit_remaining s - 1) = 0"
    by (rule emitting_step [OF 0(1,3)])
  let ?s2 = "s1\<lparr>g_emit_remaining := 0, g_emitdesc := g_emitdesc s1 + 14, g_smT_state := smT_Command\<rparr>"
  have rem: "g_emit_remaining s1 - 1 = 0" using s1(2,6) by (simp add: tx_same_def unat_eq_0)
  have c: "CANCEL State_emit_timeout ?s2 = ?s2"
    using s1(2) 0(1) by (simp add: CANCEL_def tx_same_def emitting_def)
  have d: "smT_dispatch s = smT_emit_timeout s"
    using 0(1) by (simp add: smT_dispatch_def smT_EmitHandler_def emitting_def)
  have t2: "tx_inv ?s2" "mappers_ok ?s2" "g_topo_session ?s2 = Some i"
    using s1(2,3) 0(1,2) by (simp_all add: tx_inv_def mappers_ok_def emitting_def tx_same_def ssn_at_def)
  obtain s4 where s4: "packetio_tx_ack (g_emit_seqnum s) ?s2 = Some s4" "tx_same ?s2 s4"
    "os_out s4 = os_out s1 @ [ack_frame (g_hwaddr s) (g_txbuf s ! 16) (ssn_mapper_real (g_sessions s ! i))
                  (g_emit_seqnum s)]"
    using tx_ack_out [OF t2, of "g_emit_seqnum s"] s1(2,5) by (auto simp: tx_same_def)
  have "smT_emit_timeout s = completed (if g_emit_seqnum s \<noteq> 0 then s4 else ?s2)"
    using s1(1,2) rem c s4(1) by (simp add: smT_emit_timeout_def Let_def tx_same_def)
  then show ?case
    using s1(4) s4(2,3) d by (simp add: smT_loop.simps [of s] tx_same_def)
next
  case (Suc n)
  obtain s1 where s1: "packetio_tx_emitee (g_emitdesc s) s = Some s1" "tx_same s s1" "tx_inv s1"
    "os_out s1 = os_out s @ [emit_frame (g_hwaddr s) (g_txbuf s ! 16) (g_emitbuf s) (g_emitdesc s)]"
    "g_txbuf s1 ! 16 = g_txbuf s ! 16" "unat (g_emit_remaining s - 1) = Suc n"
    by (rule emitting_step [OF Suc.prems(1,3)])
  let ?s2 = "s1\<lparr>g_emit_remaining := g_emit_remaining s1 - 1, g_emitdesc := g_emitdesc s1 + 14\<rparr>"
  have rem: "g_emit_remaining s1 - 1 \<noteq> 0" using s1(2,6) by (auto simp: tx_same_def)
  have f2: "g_emitbuf ?s2 = g_emitbuf s" "g_emitdesc ?s2 = g_emitdesc s + 14" "g_hwaddr ?s2 = g_hwaddr s"
    "g_sessions ?s2 = g_sessions s" "g_topo_session ?s2 = Some i" "g_emit_seqnum ?s2 = g_emit_seqnum s"
    "unat (g_emit_remaining ?s2) = Suc n"
    using s1(2,6) Suc.prems(2) by (simp_all add: tx_same_def)
  have e2: "emitting ?s2"
    using Suc.prems(1,3) s1(2,3,6) by (simp add: emitting_def tx_same_def tx_inv_def mappers_ok_def ssn_at_def)
  have p: "g_emitbuf s ! (g_emitdesc s + 14 + 1) = 0" using Suc.prems(4) [of 1] by simp
  have lt: "g_emitdesc s + 14 + 1 < RXBUFSZ" using e2 f2(2,7) by (simp add: emitting_def)
  have st: "set_emit_timer ?s2 = Some (False, ?s2)"
    using rem p lt e2 f2(1,2) by (simp add: set_emit_timer_def rd8_def emitting_def)
  have d: "smT_dispatch s = smT_emit_timeout s"
    using Suc.prems(1) by (simp add: smT_dispatch_def smT_EmitHandler_def emitting_def)
  have kg: "smT_emit_timeout s = Some (KEEP_GOING, ?s2)"
    using s1(1) rem st by (simp add: smT_emit_timeout_def Let_def)
  have loop: "smT_loop s = smT_loop ?s2" using d kg by (simp add: smT_loop.simps [of s])
  have "g_emitbuf ?s2 ! (g_emitdesc ?s2 + 14 * k + 1) = 0" if "0 < k" "k \<le> n" for k
    using Suc.prems(4) [of "Suc k"] that f2(1,2) by (simp add: algebra_simps)
  from Suc.IH [OF e2 f2(5,7) this] obtain s' where s': "smT_loop ?s2 = completed s'"
    "g_smT_state s' = smT_Command" "os_out s' = os_out ?s2
        @ map (\<lambda>k. emit_frame (g_hwaddr s) (g_txbuf s ! 16) (g_emitbuf s) (g_emitdesc s + 14 + 14 * k)) [0..<Suc n]
        @ (if g_emit_seqnum s \<noteq> 0
           then [ack_frame (g_hwaddr s) (g_txbuf s ! 16) (ssn_mapper_real (g_sessions s ! i))
                  (g_emit_seqnum s)] else [])"
    using f2 s1(5) by auto
  have "map (\<lambda>k. emit_frame (g_hwaddr s) (g_txbuf s ! 16) (g_emitbuf s) (g_emitdesc s + 14 * k)) [0..<Suc (Suc n)]
    = emit_frame (g_hwaddr s) (g_txbuf s ! 16) (g_emitbuf s) (g_emitdesc s)
      # map (\<lambda>k. emit_frame (g_hwaddr s) (g_txbuf s ! 16) (g_emitbuf s) (g_emitdesc s + 14 + 14 * k)) [0..<Suc n]"
    by (subst map_upt_Suc) (simp add: algebra_simps)
  with s' loop s1(4) show ?case by simp
qed

text \<open>\<open>ProcessEmits\<close> copies the frame, and the descriptors are read from the copy.\<close>

lemma emit_copy:
  assumes "length eb = RXBUFSZ" "length rx = RXBUFSZ" "len \<le> RXBUFSZ"
  shows "k < len \<Longrightarrow> buf_write eb 0 (take len rx) ! k = rx ! k"
    "o' + m \<le> len \<Longrightarrow> sub_buf (buf_write eb 0 (take len rx)) o' m = sub_buf rx o' m"
proof -
  show nth: "buf_write eb 0 (take len rx) ! k = rx ! k" if "k < len" for k
    using that assms by (simp add: nth_buf_write)
  show "sub_buf (buf_write eb 0 (take len rx)) o' m = sub_buf rx o' m" if "o' + m \<le> len"
    by (rule nth_equalityI) (use that assms nth in \<open>simp_all add: sub_buf_def length_buf_write\<close>)
qed

lemma emit_frame_copy:
  assumes "length eb = RXBUFSZ" "length rx = RXBUFSZ" "len \<le> RXBUFSZ" "ed + 14 \<le> len"
  shows "emit_frame hw r (buf_write eb 0 (take len rx)) ed = emit_frame hw r rx ed"
  using assms(4) by (simp add: emit_frame_def emit_copy [OF assms(1-3)])

text \<open>C17:
  An accepted Emit command for which there is enough charge, and whose descriptors ask for no pause, is
  carried out at once and to the end: one frame for each descriptor, in the order of the descriptors,
  with the addresses and the type the descriptor asks for, then the ACK if the command has a sequence
  number, and smT is back in the Command state.
\<close>

theorem emit_sends_every_descriptor:
  assumes inv: "lltd_ok s"
    and st: "g_smT_state s = smT_Command" "g_topo_session s = Some i"
    and ev: "evtType (g_this_event s) = evtEmitRcvd" "ev_ssn (g_this_event s) = Some i"
      "numDescrs (g_this_event s) = n" "0 < n"
    and len: "34 + 14 * n \<le> g_rcvd_pkt_len s" "g_rcvd_pkt_len s \<le> RXBUFSZ"
    and one: "\<not> (eh_numdescs s > 1 \<and> g_sequencenum s = 0)"
    and charge: "SufficientChargeAvailable (ChargeAdd (g_rcvd_pkt_len s) s)"
    and pause: "\<forall>k < n. g_rxbuf s ! (34 + 14 * k + 1) = 0"
  shows "\<exists>s'. smT_process_event s = completed s' \<and> g_smT_state s' = smT_Command
    \<and> os_out s' = os_out s
        @ map (\<lambda>k. emit_frame (g_hwaddr s) (g_txbuf s ! 16) (g_rxbuf s) (34 + 14 * k)) [0..<n]
        @ (if g_sequencenum s \<noteq> 0
           then [ack_frame (g_hwaddr s) (g_txbuf s ! 16) (ssn_mapper_real (g_sessions s ! i))
                  (g_sequencenum s)] else [])"
proof -
  let ?s1 = "ChargeAdd (g_rcvd_pkt_len s) s" let ?z = "zero_charge ?s1"
  let ?b = "buf_write (g_emitbuf s) 0 (take (g_rcvd_pkt_len s) (g_rxbuf s))"
  have i1: "lltd_ok ?s1" by (rule ChargeAdd_ok [OF inv])
  obtain q where z: "?z = ?s1\<lparr>g_ctc_packets := 0, g_ctc_bytes := 0, g_evq := q, g_charge_timer := None\<rparr>"
    "lltd_ok (?s1\<lparr>g_ctc_packets := 0, g_ctc_bytes := 0, g_evq := q, g_charge_timer := None\<rparr>)"
    by (rule zero_charge_spec [OF i1])
  have same: "charge_same s ?s1" by (rule ChargeAdd_ok(2) [OF inv])
  have zf: "g_topo_session ?z = Some i" "g_this_event ?z = g_this_event s" "g_smT_state ?z = smT_Command"
    "g_rcvd_pkt_len ?z = g_rcvd_pkt_len s" "g_emitbuf ?z = g_emitbuf s" "g_rxbuf ?z = g_rxbuf s"
    "g_sequencenum ?z = g_sequencenum s" "g_hwaddr ?z = g_hwaddr s" "g_txbuf ?z = g_txbuf s"
    "g_sessions ?z = g_sessions s" "os_out ?z = os_out s"
    using same st z(1) by (auto simp: charge_same_def)
  have zinv: "lltd_ok ?z" using z by simp
  have rem0: "g_emit_remaining ?z = 0" "g_emit_timer ?z = None"
    using zinv zf(3) by (simp_all add: lltd_inv_def emit_inv_def)
  have n: "n < 65536" using len by (simp add: RXBUFSZ_def)
  then have un: "unat (word_of_nat n :: u16) = n" by (simp add: unat_of_nat)
  have bufs: "length (g_emitbuf s) = RXBUFSZ" "length (g_rxbuf s) = RXBUFSZ"
    using inv by (simp_all add: lltd_inv_def buf_inv_def)
  note nthb = emit_copy(1) [OF bufs len(2)]
  let ?p = "?z\<lparr>g_emitbuf := ?b, g_emit_remaining := word_of_nat n, g_emit_seqnum := g_sequencenum s,
      g_emitdesc := 34\<rparr>"
  let ?e = "?p\<lparr>g_smT_state := smT_Emit\<rparr>"
  let ?t = "?e\<lparr>g_this_event := (g_this_event s)\<lparr>evtType := evtEmitTimeout\<rparr>\<rparr>"
  have pe: "ProcessEmits ?z = Some ?p"
    using zf rem0 len(2) ev(3) by (simp add: ProcessEmits_def)
  have r: "(word_of_nat n :: u16) \<noteq> 0" using un ev(4) by auto
  have "?b ! 35 = 0" using nthb [of 35] pause [rule_format, of 0] ev(4) len(1) by simp
  then have te: "set_emit_timer ?e = Some (False, ?e)"
    using r rem0 bufs len by (simp add: set_emit_timer_def rd8_def length_buf_write RXBUFSZ_def)
  have d: "smT_dispatch s = Some (KEEP_GOING, ?t)"
    using st ev(1) one charge pe te r zf(2)
    by (simp add: smT_dispatch_def smT_CommandHandler_def smT_command_emit_def Let_def word_gt_0)
  have em: "emitting ?t"
    using lltd_inv_tx_inv [OF zinv] lltd_inv_mappers [OF zinv] rem0 un len bufs
    by (simp add: emitting_def tx_inv_def mappers_ok_def ssn_at_def length_buf_write)
  have "g_emitbuf ?t ! (g_emitdesc ?t + 14 * k + 1) = 0" if "0 < k" "k \<le> n - 1" for k
    using nthb [of "34 + 14 * k + 1"] pause [rule_format, of k] that len(1) ev(4) by simp
  from emit_burst [OF em, of i "n - 1", OF _ _ this] obtain s' where s': "smT_loop ?t = completed s'"
    "g_smT_state s' = smT_Command"
    "os_out s' = os_out s
        @ map (\<lambda>k. emit_frame (g_hwaddr s) (g_txbuf s ! 16) ?b (34 + 14 * k)) [0..<n]
        @ (if g_sequencenum s \<noteq> 0
           then [ack_frame (g_hwaddr s) (g_txbuf s ! 16) (ssn_mapper_real (g_sessions s ! i))
                  (g_sequencenum s)] else [])"
    using zf un ev(4) by auto
  moreover have "map (\<lambda>k. emit_frame (g_hwaddr s) (g_txbuf s ! 16) ?b (34 + 14 * k)) [0..<n] =
      map (\<lambda>k. emit_frame (g_hwaddr s) (g_txbuf s ! 16) (g_rxbuf s) (34 + 14 * k)) [0..<n]"
    using emit_frame_copy [OF bufs len(2)] len(1) by simp
  moreover have "smT_process_event s = smT_loop ?t"
    using st(2) ev(2) d by (simp add: smT_process_event_def smT_loop.simps [of s])
  ultimately show ?thesis by simp
qed

definition emit_command :: lltd where
  "emit_command = mapped_state\<lparr>g_opcode := Opcode_Emit, g_rcvd_pkt_len := 48,
     g_neededPackets := 1, g_neededBytes := 32,
     g_this_event := \<lparr>evtType = evtEmitRcvd, ev_ssn = Some 0, isNewSession = False,
       isAckingMe = False, isInternalEvt = False, numDescrs = 1\<rparr>\<rparr>"

theorem emit_sends_every_descriptor_witness:
  "\<exists>s'. smT_process_event emit_command = completed s' \<and> g_smT_state s' = smT_Command
    \<and> length (os_out s') = 1"
proof -
  have ok: "lltd_ok emit_command"
    using lltd_ok_mapped_state by (simp add: emit_command_def lltd_inv_def ssn_inv_def MAX_NUM_SESSIONS_def)
  have f: "g_smT_state emit_command = smT_Command" "g_topo_session emit_command = Some 0"
    "evtType (g_this_event emit_command) = evtEmitRcvd" "ev_ssn (g_this_event emit_command) = Some 0"
    "numDescrs (g_this_event emit_command) = 1" "g_rcvd_pkt_len emit_command = 48"
    "g_sequencenum emit_command = 0" "g_rxbuf emit_command = replicate RXBUFSZ 0"
    "os_out emit_command = []"
    by (simp_all add: emit_command_def mapped_state_def start_state_def lltd_init_def)
  have one: "\<not> (eh_numdescs emit_command > 1 \<and> g_sequencenum emit_command = 0)"
    by (simp add: eh_numdescs_def f RXBUFSZ_def mk16_def)
  have charge: "SufficientChargeAvailable (ChargeAdd (g_rcvd_pkt_len emit_command) emit_command)"
    by (simp add: SufficientChargeAvailable_def ChargeAdd_def restart_timer_def gettimeofday_def
        CANCEL_def event_add_def Let_def emit_command_def mapped_state_def start_state_def lltd_init_def
        TOPO_CTC_PACKETS_MAX_def TOPO_CTC_BYTES_MAX_def)
  show ?thesis
    using emit_sends_every_descriptor [OF ok f(1-5) _ _ _ one charge] f by (auto simp: RXBUFSZ_def)
qed

section \<open>The end of a session\<close>

lemma sessions_kept:
  "g_sessions (zero_charge s) = g_sessions s" "g_sessions (CANCEL State_emit_timeout s) = g_sessions s"
  by (simp_all add: zero_charge_def CANCEL_def split: option.splits)

lemma smT_reset_effect:
  assumes "reset_event (evtType (g_this_event s))" "smT_process_event s = Some (st, s')"
  shows "g_sessions s' = g_sessions s"
    "g_topo_session s = Some i \<Longrightarrow> ev_ssn (g_this_event s) = Some i \<Longrightarrow> g_topo_session s' = None"
  using assms
  by (cases "g_smT_state s";
      auto simp: smT_process_event_def smT_loop.simps [of s] smT_dispatch_def smT_QuiescentHandler_def
        smT_CommandHandler_def smT_EmitHandler_def smT_command_reset_def smT_emit_reset_def
        sessions_kept reset_event_def split: if_splits)+

lemma smS_reset_effect:
  assumes inv: "lltd_ok s" and ev: "ev_ssn (g_this_event s) = Some i" "reset_event (evtType (g_this_event s))"
    and i: "i < MAX_NUM_SESSIONS" "ssn_is_valid (g_sessions s ! i)"
    and res: "smS_process_event s = completed s1"
  shows "\<not> ssn_is_valid (g_sessions s1 ! i)" "g_topo_session s1 = g_topo_session s"
proof -
  have d: "\<not> ssn_is_valid (g_sessions (drop_session i t) ! i) \<and> g_topo_session (drop_session i t) = g_topo_session t"
    if "lltd_ok t" for t
    using drop_session_ok(3,4) [OF lltd_inv_timers [OF that], of i] lltd_inv_length [OF that] i(1) by simp
  let ?dt = "drop_temporaries [0..<MAX_NUM_SESSIONS] s"
  have dt: "lltd_ok ?dt" "g_topo_session ?dt = g_topo_session s"
    using drop_temporaries_ok [OF inv, of "[0..<MAX_NUM_SESSIONS]"] by simp_all
  have dp: "lltd_ok (?dt\<lparr>g_promisc := False\<rparr>)" using dt(1) by (simp add: lltd_inv_def)
  have ne: "ssn_state (g_sessions s ! i) \<noteq> smS_Nascent"
    using inv i by (auto simp: lltd_inv_def sess_inv_def sess_ok_def)
  show "\<not> ssn_is_valid (g_sessions s1 ! i)" "g_topo_session s1 = g_topo_session s"
    using res ev ne d [OF inv] d [OF dt(1)] d [OF dp] dt(2)
    by (auto simp: smS_process_event_def smS_PendingHandler_def smS_TemporaryHandler_def
        smS_CompleteHandler_def smS_pending_reset_def smS_complete_reset_def reset_event_def ssn_at_def
        packetio_invalidate_retxbuf_def split: smS_state.splits if_splits)
qed

text \<open>A Reset from a mapper ends its session: the entry of the table is free afterwards, and if it was the
  topology session the responder forgets it, returns to the Quiescent state of smT and has no Emit
  pending.
\<close>

theorem reset_ends_session:
  assumes inv: "lltd_ok s" and ev: "evtType (g_this_event s) = evtResetRcvd"
    and ssn: "find_session (tbh_realsrc s) s = Some i"
  shows "\<exists>s'. state_process_packet s = Some s' \<and> lltd_ok s' \<and> \<not> ssn_is_valid (g_sessions s' ! i)
    \<and> (g_topo_session s = Some i \<longrightarrow>
         g_topo_session s' = None \<and> g_smT_state s' = smT_Quiescent \<and> g_emit_timer s' = None)"
proof -
  let ?s0 = "set_event (\<lambda>e. e\<lparr>ev_ssn := Some i\<rparr>)
      (set_event (\<lambda>e. e\<lparr>isInternalEvt := False, isNewSession := False\<rparr>) s)"
  note i = find_session_Some [OF inv ssn]
  have inv0: "lltd_ok ?s0" using inv i(1) by (simp add: lltd_inv_def ssn_inv_def)
  have ev0: "ev_ssn (g_this_event ?s0) = Some i" "reset_event (evtType (g_this_event ?s0))"
    "i < MAX_NUM_SESSIONS" "ssn_is_valid (g_sessions ?s0 ! i)"
    using ev i by (simp_all add: reset_event_def)
  have "smS_pre i None ?s0" using inv0 ev0 by (simp add: smS_pre_def)
  from smS_process_event_ok [OF this] obtain s1 where s1: "smS_process_event ?s0 = completed s1"
    "S_same ?s0 s1" "lltd_inv False False (Some i) None None s1"
    using ev by (auto simp: smS_post_def reset_event_def)
  note eff = smS_reset_effect [OF inv0 ev0 s1(1)]
  have "smE_pre False False (Some i) None s1" using s1 by (auto simp: smE_pre_def S_same_def)
  then obtain s2 where s2: "smE_process_event s1 = completed s2"
    "lltd_inv False False (Some i) None None s2" "smE_same s1 s2"
    using smE_process_event_ok s1(2) ev by (fastforce simp: S_same_def)
  have e2: "evtType (g_this_event s2) = evtResetRcvd" "ev_ssn (g_this_event s2) = Some i"
    "g_sessions s2 = g_sessions s1" "g_topo_session s2 = g_topo_session s1"
    using s1(2) s2(3) ev by (simp_all add: S_same_def smE_same_def)
  have "\<exists>st s3. smT_process_event s2 = Some (st, s3) \<and> lltd_ok s3"
    by (rule smT_process_event_ok [OF s2(2)]) (use e2 in auto)
  then obtain st s3 where s3: "smT_process_event s2 = Some (st, s3)" "lltd_ok s3" by blast
  have r2: "reset_event (evtType (g_this_event s2))" using e2 by (simp add: reset_event_def)
  note eff3 = smT_reset_effect [OF r2 s3(1)]
  let ?s' = "set_event (\<lambda>e. e\<lparr>isNewSession := False\<rparr>) s3"
  have inv': "lltd_ok ?s'" using s3(2) by (simp add: lltd_inv_def)
  have topo: "g_topo_session s3 = None" if "g_topo_session s = Some i"
    using eff3(2) [of i] e2 eff(2) that by simp
  have "find_session (tbh_realsrc s) (set_event (\<lambda>e. e\<lparr>isInternalEvt := False, isNewSession := False\<rparr>) s) = Some i"
    using ssn by (simp add: find_session_def)
  then have "state_process_packet s = Some ?s'"
    using s1(1) s2(1) s3(1)
    by (simp add: state_process_packet_def associate_def run_machines_def Let_def tbh_realsrc_def)
  moreover have "\<not> ssn_is_valid (g_sessions ?s' ! i)" using eff(1) eff3(1) e2(3) by simp
  moreover have "g_smT_state ?s' = smT_Quiescent \<and> g_emit_timer ?s' = None" if "g_topo_session ?s' = None"
    using inv' that by (simp add: lltd_inv_def emit_inv_def)
  ultimately show ?thesis using inv' topo by auto
qed

definition reset_frame :: lltd where
  "reset_frame = mapped_state\<lparr>g_opcode := Opcode_Reset, g_rcvd_pkt_len := 32,
     g_this_event := (g_this_event mapped_state)\<lparr>evtType := evtResetRcvd\<rparr>\<rparr>"

theorem reset_ends_session_witness:
  "\<exists>s'. state_process_packet reset_frame = Some s' \<and> \<not> ssn_is_valid (g_sessions s' ! 0)
    \<and> g_topo_session s' = None"
proof -
  have ok: "lltd_ok reset_frame"
    using lltd_ok_mapped_state by (simp add: reset_frame_def lltd_inv_def)
  have "g_rxbuf reset_frame = replicate 2048 0"
    by (simp add: reset_frame_def mapped_state_def start_state_def lltd_init_def RXBUFSZ_def)
  then have "tbh_realsrc reset_frame = replicate 6 0"
    by (simp add: tbh_realsrc_def sub_buf_def)
  then have f: "find_session (tbh_realsrc reset_frame) reset_frame = Some 0"
    by (simp add: find_session_def reset_frame_def mapped_state_def start_state_fields
        MAX_NUM_SESSIONS_def empty_session_def numeral_eq_Suc)
  have e: "evtType (g_this_event reset_frame) = evtResetRcvd" "g_topo_session reset_frame = Some 0"
    by (simp_all add: reset_frame_def mapped_state_def)
  from reset_ends_session [OF ok e(1) f] e(2) show ?thesis by auto
qed

end
