(* ===== verification/Dhcp_Options.thy ===== *)
theory Dhcp_Options
  imports Prelude
begin

text \<open>
  The options of DHCP messages: \<open>udhcpd-0.9.8/options.c\<close> and \<open>options.h\<close>, with the layout of
  \<open>struct dhcpMessage\<close> of \<open>packet.h\<close>. A message is the list of its 548 bytes, because \<open>get_option\<close>
  walks over the bytes of the struct with a pointer and may leave the field it started in; a read behind
  the struct is \<^term>\<open>None\<close>. A pointer into the message is the offset of the byte. The table of options
  of the configuration is a list of byte strings (code, length, data) in the order of the linked list.
\<close>

section \<open>Layout and codes\<close>

type_synonym dhcpMessage = "u8 list"

definition sizeof_dhcpMessage :: nat where "sizeof_dhcpMessage = 548"

definition DHCP_PADDING :: u8 where "DHCP_PADDING = 0x00"
definition DHCP_HOST_NAME :: u8 where "DHCP_HOST_NAME = 0x0c"
definition DHCP_REQUESTED_IP :: u8 where "DHCP_REQUESTED_IP = 0x32"
definition DHCP_LEASE_TIME :: u8 where "DHCP_LEASE_TIME = 0x33"
definition DHCP_OPTION_OVER :: u8 where "DHCP_OPTION_OVER = 0x34"
definition DHCP_MESSAGE_TYPE :: u8 where "DHCP_MESSAGE_TYPE = 0x35"
definition DHCP_SERVER_ID :: u8 where "DHCP_SERVER_ID = 0x36"
definition DHCP_VENDOR :: u8 where "DHCP_VENDOR = 0x3c"
definition DHCP_END :: u8 where "DHCP_END = 0xFF"

lemmas dhcp_codes = DHCP_PADDING_def DHCP_HOST_NAME_def DHCP_REQUESTED_IP_def DHCP_LEASE_TIME_def
  DHCP_OPTION_OVER_def DHCP_MESSAGE_TYPE_def DHCP_SERVER_ID_def DHCP_VENDOR_def DHCP_END_def

text \<open>The types of options and their lengths; \<open>flag_list\<close> is \<open>OPTION_LIST\<close>. The flag
  \<open>OPTION_REQ\<close> is read by the client only.\<close>

datatype option_type =
    OPTION_IP | OPTION_IP_PAIR | OPTION_STRING | OPTION_BOOLEAN | OPTION_U8 | OPTION_U16 | OPTION_S16
  | OPTION_U32 | OPTION_S32

fun option_lengths :: "option_type \<Rightarrow> nat" where
  "option_lengths OPTION_IP = 4"
| "option_lengths OPTION_IP_PAIR = 8"
| "option_lengths OPTION_BOOLEAN = 1"
| "option_lengths OPTION_STRING = 1"
| "option_lengths OPTION_U8 = 1"
| "option_lengths OPTION_U16 = 2"
| "option_lengths OPTION_S16 = 2"
| "option_lengths OPTION_U32 = 4"
| "option_lengths OPTION_S32 = 4"

record dhcp_option =
  opt_name :: string
  opt_type :: option_type
  flag_list :: bool
  flag_req :: bool
  opt_code :: u8

definition mk_option :: "string \<Rightarrow> option_type \<Rightarrow> bool \<Rightarrow> bool \<Rightarrow> u8 \<Rightarrow> dhcp_option" where
  "mk_option n t l r c = \<lparr>opt_name = n, opt_type = t, flag_list = l, flag_req = r, opt_code = c\<rparr>"

definition options :: "dhcp_option list" where
  "options =
    [mk_option ''subnet'' OPTION_IP False True 0x01,
     mk_option ''timezone'' OPTION_S32 False False 0x02,
     mk_option ''router'' OPTION_IP True True 0x03,
     mk_option ''timesvr'' OPTION_IP True False 0x04,
     mk_option ''namesvr'' OPTION_IP True False 0x05,
     mk_option ''dns'' OPTION_IP True True 0x06,
     mk_option ''logsvr'' OPTION_IP True False 0x07,
     mk_option ''cookiesvr'' OPTION_IP True False 0x08,
     mk_option ''lprsvr'' OPTION_IP True False 0x09,
     mk_option ''hostname'' OPTION_STRING False True 0x0c,
     mk_option ''bootsize'' OPTION_U16 False False 0x0d,
     mk_option ''domain'' OPTION_STRING False True 0x0f,
     mk_option ''swapsvr'' OPTION_IP False False 0x10,
     mk_option ''rootpath'' OPTION_STRING False False 0x11,
     mk_option ''ipttl'' OPTION_U8 False False 0x17,
     mk_option ''mtu'' OPTION_U16 False False 0x1a,
     mk_option ''broadcast'' OPTION_IP False True 0x1c,
     mk_option ''ntpsrv'' OPTION_IP True False 0x2a,
     mk_option ''wins'' OPTION_IP True True 0x2c,
     mk_option ''requestip'' OPTION_IP False False 0x32,
     mk_option ''lease'' OPTION_U32 False False 0x33,
     mk_option ''dhcptype'' OPTION_U8 False False 0x35,
     mk_option ''serverid'' OPTION_IP False False 0x36,
     mk_option ''message'' OPTION_STRING False False 0x38,
     mk_option ''tftp'' OPTION_STRING False False 0x42,
     mk_option ''bootfile'' OPTION_STRING False False 0x43]"

section \<open>Reading options\<close>

datatype opt_field = OPTION_FIELD | FILE_FIELD | SNAME_FIELD

fun field_base :: "opt_field \<Rightarrow> nat" where
  "field_base OPTION_FIELD = 240"
| "field_base FILE_FIELD = 108"
| "field_base SNAME_FIELD = 44"

fun field_length :: "opt_field \<Rightarrow> nat" where
  "field_length OPTION_FIELD = 308"
| "field_length FILE_FIELD = 128"
| "field_length SNAME_FIELD = 64"

text \<open>The test of the vendor string, with the reads of the short-circuit evaluation.\<close>

fun vizio_match :: "u8 list \<Rightarrow> nat \<Rightarrow> u8 list \<Rightarrow> bool option" where
  "vizio_match p k [] = Some True"
| "vizio_match p k (x # xs) =
     do { c \<leftarrow> rd8 p k; if c = x then vizio_match p (Suc k) xs else Some False }"

fun field_rank :: "opt_field \<Rightarrow> nat" where
  "field_rank OPTION_FIELD = 400"
| "field_rank FILE_FIELD = 200"
| "field_rank SNAME_FIELD = 0"

function get_option_loop ::
    "dhcpMessage \<Rightarrow> u8 \<Rightarrow> opt_field \<Rightarrow> nat \<Rightarrow> u8 \<Rightarrow> bool \<Rightarrow> (nat option \<times> bool) option" where
  "get_option_loop p code cur i over viz =
     (let b = field_base cur; len = field_length cur in
      if i \<ge> len then Some (None, viz)
      else case rd8 p (b + i) of
        None \<Rightarrow> None
      | Some c \<Rightarrow>
          if c = code then
            do { l \<leftarrow> rd8 p (b + i + 1);
                 Some (if i + 1 + unat l \<ge> len then None else Some (b + i + 2), viz) }
          else if c = DHCP_VENDOR then
            (case vizio_match p (b + i + 2) [0x56, 0x49, 0x5a, 0x49, 0x4f] of
               None \<Rightarrow> None
             | Some v \<Rightarrow>
                (case rd8 p (b + i + 1) of
                   None \<Rightarrow> None
                 | Some l \<Rightarrow> get_option_loop p code cur (i + unat l + 2) over v))
          else if c = DHCP_PADDING then get_option_loop p code cur (i + 1) over viz
          else if c = DHCP_OPTION_OVER then
            (case rd8 p (b + i + 1) of
               None \<Rightarrow> None
             | Some l \<Rightarrow>
                if i + 1 + unat l \<ge> len then Some (None, viz)
                else (case (rd8 p (b + i + 3), rd8 p (b + 1)) of
                        (Some over', Some l1) \<Rightarrow>
                          get_option_loop p code cur (i + unat l1 + 2) over' viz
                      | _ \<Rightarrow> None))
          else if c = DHCP_END then
            if cur = OPTION_FIELD \<and> over AND 1 \<noteq> 0
            then get_option_loop p code FILE_FIELD 0 over viz
            else if cur = FILE_FIELD \<and> over AND 2 \<noteq> 0
            then get_option_loop p code SNAME_FIELD 0 over viz
            else Some (None, viz)
          else
            (case rd8 p (b + i + 1) of
               None \<Rightarrow> None
             | Some l \<Rightarrow> get_option_loop p code cur (i + unat l + 2) over viz))"
  by pat_completeness auto
termination
  by (relation "measure (\<lambda>(p, code, cur, i, over, viz). field_rank cur + (field_length cur - i))")
    auto

declare get_option_loop.simps [simp del]

text \<open>The answer is the offset of the data, and the new value of \<open>vizio_device\<close>.\<close>

definition get_option :: "dhcpMessage \<Rightarrow> u8 \<Rightarrow> bool \<Rightarrow> (nat option \<times> bool) option" where
  "get_option packet code viz = get_option_loop packet code OPTION_FIELD 0 0 viz"

section \<open>Writing options\<close>

text \<open>These work on the options field of a message.\<close>

function end_option_loop :: "u8 list \<Rightarrow> nat \<Rightarrow> nat option" where
  "end_option_loop b i =
     (case rd8 b i of
        None \<Rightarrow> None
      | Some c \<Rightarrow>
          if c = DHCP_END then Some i
          else if c = DHCP_PADDING then end_option_loop b (i + 1)
          else (case rd8 b (i + 1) of
                  None \<Rightarrow> None
                | Some l \<Rightarrow> end_option_loop b (i + unat l + 2)))"
  by pat_completeness auto
termination
  by (relation "measure (\<lambda>(b, i). length b - i)") (auto simp: rd8_def split: if_splits)

declare end_option_loop.simps [simp del]

definition end_option :: "u8 list \<Rightarrow> nat option" where
  "end_option optionptr = end_option_loop optionptr 0"

definition add_option_string :: "u8 list \<Rightarrow> u8 list option \<Rightarrow> (nat \<times> u8 list) option" where
  "add_option_string optionptr string =
     (case string of
        None \<Rightarrow> Some (0, optionptr)
      | Some str \<Rightarrow>
          do { e \<leftarrow> end_option optionptr;
               l \<leftarrow> rd8 str 1;
               if e + unat l + 2 + 1 \<ge> 308 then Some (0, optionptr)
               else if length str < unat l + 2 then None
               else Some (unat l + 2,
                 (buf_write optionptr e (take (unat l + 2) str))[e + unat l + 2 := DHCP_END]) })"

definition simple_length :: "u8 \<Rightarrow> nat" where
  "simple_length code =
     foldl (\<lambda>n opt. if opt_code opt = code then option_lengths (opt_type opt) else n) 0 options"

definition simple_data :: "nat \<Rightarrow> u32 \<Rightarrow> u8 list" where
  "simple_data len data =
     (if len = 1 then [ucast data] else if len = 2 then bytes16 (ucast data) else bytes32 data)"

definition add_simple_option :: "u8 list \<Rightarrow> u8 \<Rightarrow> u32 \<Rightarrow> (nat \<times> u8 list) option" where
  "add_simple_option optionptr code data =
     (let len = simple_length code in
      if len = 0 then Some (0, optionptr)
      else add_option_string optionptr
             (Some (code # word_of_nat len # simple_data len data)))"

section \<open>The options of the configuration\<close>

text \<open>The parameter \<open>code\<close> of \<open>find_option\<close> is a \<open>char\<close>, a signed byte.\<close>

fun find_option :: "u8 list list \<Rightarrow> u8 \<Rightarrow> nat option" where
  "find_option [] code = None"
| "find_option (d # ds) code =
     (if uint (d ! 0) < sint code then map_option Suc (find_option ds code)
      else if uint (d ! 0) = sint code then Some 0 else None)"

fun insert_option :: "u8 list \<Rightarrow> u8 list list \<Rightarrow> u8 list list" where
  "insert_option new [] = [new]"
| "insert_option new (d # ds) =
     (if d ! 0 < new ! 0 then d # insert_option new ds else new # d # ds)"

definition attach_option :: "u8 list list \<Rightarrow> dhcp_option \<Rightarrow> u8 list \<Rightarrow> nat \<Rightarrow> u8 list list" where
  "attach_option opt_list option buffer len =
     (case find_option opt_list (opt_code option) of
        Some k \<Rightarrow>
          let d = opt_list ! k in
          if flag_list option \<and> unat (d ! 1) + len \<le> 255
          then opt_list[k := take 1 d @ [word_of_nat (unat (d ! 1) + len)]
                 @ take (unat (d ! 1)) (drop 2 d) @ take len buffer]
          else opt_list
      | None \<Rightarrow>
          insert_option (opt_code option # word_of_nat len # take len buffer) opt_list)"

text \<open>The strings that are freed, and the new list.\<close>

fun free_options :: "u8 list list \<Rightarrow> u8 list list \<times> u8 list list" where
  "free_options [] = ([], [])"
| "free_options (d # ds) = (if d ! 0 = 0x33 then ([d], []) else (d # fst (free_options ds), []))"

section \<open>Well-formed options\<close>

text \<open>A string of code, length and data, and a field that consists of such strings up to the end mark.\<close>

definition opt_ok :: "u8 list \<Rightarrow> bool" where
  "opt_ok d \<longleftrightarrow> length d = unat (d ! 1) + 2 \<and> d ! 0 \<noteq> DHCP_PADDING \<and> d ! 0 \<noteq> DHCP_END"

definition field_is :: "u8 list \<Rightarrow> u8 list list \<Rightarrow> bool" where
  "field_is b ds \<longleftrightarrow> length b = 308 \<and> list_all opt_ok ds \<and> (\<exists>post. b = concat ds @ DHCP_END # post)"

text \<open>Options that \<open>get_option\<close> steps over without any effect.\<close>

definition plain :: "u8 list \<Rightarrow> bool" where
  "plain d \<longleftrightarrow> d ! 0 \<noteq> DHCP_VENDOR \<and> d ! 0 \<noteq> DHCP_OPTION_OVER"

lemma opt_ok_length: "opt_ok d \<Longrightarrow> 2 \<le> length d"
  by (simp add: opt_ok_def)

lemma rd8_append:
  "rd8 (pre @ d @ post) (length pre + k) = (if k < length d + length post then Some ((d @ post) ! k) else None)"
  by (simp add: rd8_def nth_append)

lemma rd8_option:
  assumes "opt_ok d"
  shows "rd8 (pre @ d @ post) (length pre) = Some (d ! 0)"
    "rd8 (pre @ d @ post) (length pre + 1) = Some (d ! 1)"
  using rd8_append [of pre d post 0] rd8_append [of pre d post 1] opt_ok_length [OF assms]
  by (auto simp: nth_append)

lemma end_option_concat:
  "list_all opt_ok ds \<Longrightarrow>
   end_option_loop (pre @ concat ds @ DHCP_END # post) (length pre) = Some (length pre + length (concat ds))"
proof (induction ds arbitrary: pre)
  case Nil
  show ?case using rd8_append [of pre "[DHCP_END]" post 0] by (simp add: end_option_loop.simps)
next
  case (Cons d ds)
  then have d: "opt_ok d" by simp
  have "end_option_loop (pre @ concat (d # ds) @ DHCP_END # post) (length pre) =
      end_option_loop ((pre @ d) @ concat ds @ DHCP_END # post) (length (pre @ d))"
    using rd8_option [OF d, of pre "concat ds @ DHCP_END # post"] d
    by (simp add: end_option_loop.simps [of _ "length pre"] opt_ok_def add.assoc)
  also have "\<dots> = Some (length (pre @ d) + length (concat ds))"
    by (rule Cons.IH) (use Cons.prems in simp)
  finally show ?case by simp
qed

lemma end_option_field: "list_all opt_ok ds \<Longrightarrow> end_option (concat ds @ DHCP_END # post) = Some (length (concat ds))"
  using end_option_concat [of ds "[]" post] by (simp add: end_option_def)

text \<open>Adding an option to a well-formed field appends it, or leaves the field alone when it is full.\<close>

lemma add_option_string_field:
  assumes f: "field_is b ds" and d: "opt_ok d"
  shows "\<exists>n b'. add_option_string b (Some d) = Some (n, b')
    \<and> (if length (concat ds) + length d + 1 < 308 then n = length d \<and> field_is b' (ds @ [d])
       else n = 0 \<and> b' = b)"
proof -
  obtain post where b: "b = concat ds @ DHCP_END # post" and ds: "list_all opt_ok ds" and len: "length b = 308"
    using f by (auto simp: field_is_def)
  have e: "end_option b = Some (length (concat ds))" unfolding b by (rule end_option_field [OF ds])
  have l: "rd8 d 1 = Some (d ! 1)" "unat (d ! 1) + 2 = length d"
    using d by (simp_all add: opt_ok_def rd8_def)
  show ?thesis
  proof (cases "length (concat ds) + length d + 1 < 308")
    case True
    let ?b = "(buf_write b (length (concat ds)) d)[length (concat ds) + length d := DHCP_END]"
    have lp: "length post = 307 - length (concat ds)" using len b by simp
    have "buf_write b (length (concat ds)) d = concat ds @ d @ drop (length d) (DHCP_END # post)"
      by (simp add: buf_write_def b)
    moreover have "drop (length d) (DHCP_END # post) = post ! (length d - 1) # drop (length d) post"
      using True lp opt_ok_length [OF d]
      by (cases "length d") (simp_all add: Cons_nth_drop_Suc)
    ultimately have eq: "?b = concat (ds @ [d]) @ DHCP_END # drop (length d) post"
      by (simp add: list_update_append)
    have "field_is ?b (ds @ [d])"
      unfolding field_is_def using eq ds d True lp by auto
    moreover have "add_option_string b (Some d) = Some (length d, ?b)"
    proof -
      have at: "Suc (Suc (length (concat ds) + unat (d ! Suc 0))) = length (concat ds) + length d"
        using l(2) by simp
      show ?thesis using e l True by (simp add: add_option_string_def at)
    qed
    ultimately show ?thesis using True by simp
  next
    case False
    then have "add_option_string b (Some d) = Some (0, b)"
      using e l by (simp add: add_option_string_def)
    with False show ?thesis by simp
  qed
qed

lemma simple_data_length: "len \<in> {1, 2, 4} \<Longrightarrow> length (simple_data len data) = len"
  by (auto simp: simple_data_def)

lemma simple_length_cases: "simple_length code \<in> {0, 1, 2, 4}"
  by (simp add: simple_length_def options_def mk_option_def)

definition simple_option :: "u8 \<Rightarrow> u32 \<Rightarrow> u8 list" where
  "simple_option code data =
     code # word_of_nat (simple_length code) # simple_data (simple_length code) data"

lemma simple_option_ok:
  assumes "simple_length code \<noteq> 0" "code \<noteq> DHCP_PADDING" "code \<noteq> DHCP_END"
  shows "opt_ok (simple_option code data)"
    "add_simple_option b code data = add_option_string b (Some (simple_option code data))"
  using simple_length_cases [of code] simple_data_length [of "simple_length code" data] assms
  by (auto simp: opt_ok_def simple_option_def add_simple_option_def)

section \<open>Reading what was written\<close>

lemma get_option_skip:
  assumes p: "length p = 548" "drop 240 p = concat done @ d @ post" and d: "opt_ok d" "plain d" "d ! 0 \<noteq> code"
  shows "get_option_loop p code OPTION_FIELD (length (concat done)) over viz =
    get_option_loop p code OPTION_FIELD (length (concat (done @ [d]))) over viz"
proof -
  have rd: "rd8 p (240 + k) = rd8 (drop 240 p) k" for k by (simp add: rd8_def p(1))
  have len: "length (concat done) + length d \<le> 308" using arg_cong [OF p(2), of length] p(1) by simp
  have r: "rd8 p (240 + length (concat done)) = Some (d ! 0)"
    "rd8 p (240 + length (concat done) + 1) = Some (d ! 1)"
    using rd8_option [OF d(1), of "concat done" post] rd [of "length (concat done)"]
      rd [of "length (concat done) + 1"] p(2) by (simp_all add: add.assoc)
  have "length (concat done) < 308" using len opt_ok_length [OF d(1)] by linarith
  then show ?thesis
    using r d
    by (simp add: get_option_loop.simps [of p code OPTION_FIELD "length (concat done)"] opt_ok_def plain_def
        Let_def add.assoc)
qed

lemma get_option_hit:
  assumes p: "length p = 548" "drop 240 p = concat done @ d @ post" and d: "opt_ok d" "d ! 0 = code"
  shows "get_option_loop p code OPTION_FIELD (length (concat done)) over viz =
      Some (Some (240 + length (concat done) + 2), viz)"
    "sub_buf p (240 + length (concat done) + 2) (length d - 2) = drop 2 d"
    "p ! (240 + length (concat done) + 1) = d ! 1"
    "240 + length (concat done) + length d \<le> 548"
proof -
  have rd: "rd8 p (240 + k) = rd8 (drop 240 p) k" for k by (simp add: rd8_def p(1))
  show len: "240 + length (concat done) + length d \<le> 548" using arg_cong [OF p(2), of length] p(1) by simp
  have r: "rd8 p (240 + length (concat done)) = Some (d ! 0)"
    "rd8 p (240 + length (concat done) + 1) = Some (d ! 1)"
    using rd8_option [OF d(1), of "concat done" post] rd [of "length (concat done)"]
      rd [of "length (concat done) + 1"] p(2) by (simp_all add: add.assoc)
  then show "p ! (240 + length (concat done) + 1) = d ! 1" by (simp add: rd8_def split: if_splits)
  show "get_option_loop p code OPTION_FIELD (length (concat done)) over viz =
      Some (Some (240 + length (concat done) + 2), viz)"
    using r d len
    by (simp add: get_option_loop.simps [of p code OPTION_FIELD "length (concat done)"] opt_ok_def Let_def)
  have "drop (240 + length (concat done) + 2) p = drop (length (concat done) + 2) (drop 240 p)"
    by (simp add: add.commute)
  also have "\<dots> = drop 2 d @ post" using opt_ok_length [OF d(1)] by (simp add: p(2))
  finally show "sub_buf p (240 + length (concat done) + 2) (length d - 2) = drop 2 d"
    using opt_ok_length [OF d(1)] by (simp add: sub_buf_def)
qed

lemma get_option_loop_lookup:
  assumes p: "length p = 548" "drop 240 p = concat done @ concat ds @ DHCP_END # post"
    and ds: "list_all opt_ok ds" "list_all plain ds" and code: "code \<noteq> DHCP_PADDING" "code \<noteq> DHCP_END"
  shows "\<exists>k. get_option_loop p code OPTION_FIELD (length (concat done)) 0 viz = Some (k, viz)
    \<and> (case find (\<lambda>d. d ! 0 = code) ds of
         None \<Rightarrow> k = None
       | Some d \<Rightarrow> \<exists>j. k = Some j \<and> 242 \<le> j \<and> sub_buf p j (length d - 2) = drop 2 d \<and> p ! (j - 1) = d ! 1
                    \<and> j + (length d - 2) \<le> 548)"
  using p ds
proof (induction ds arbitrary: "done")
  case Nil
  have rd: "rd8 p (240 + length (concat done)) = Some DHCP_END"
  proof -
    have "rd8 p (240 + length (concat done)) = rd8 (drop 240 p) (length (concat done))"
      by (simp add: rd8_def Nil.prems(1))
    then show ?thesis using rd8_append [of "concat done" "[DHCP_END]" post 0] Nil.prems(2) by simp
  qed
  have "length (concat done) < 308" using arg_cong [OF Nil.prems(2), of length] Nil.prems(1) by simp
  then show ?case
    using rd code by (simp add: get_option_loop.simps [of p code OPTION_FIELD] dhcp_codes Let_def)
next
  case (Cons d ds)
  show ?case
  proof (cases "d ! 0 = code")
    case True
    have "drop 240 p = concat done @ d @ (concat ds @ DHCP_END # post)" using Cons.prems(2) by simp
    note hit = get_option_hit [OF Cons.prems(1) this _ True]
    then show ?thesis using Cons.prems(3) True opt_ok_length [of d] by (simp add: add.commute)
  next
    case False
    have eq: "drop 240 p = concat done @ d @ (concat ds @ DHCP_END # post)" using Cons.prems(2) by simp
    have "drop 240 p = concat (done @ [d]) @ concat ds @ DHCP_END # post" using Cons.prems(2) by simp
    from Cons.IH [OF Cons.prems(1) this] Cons.prems(3,4) False show ?thesis
      using get_option_skip [OF Cons.prems(1) eq, of code 0 viz] by simp
  qed
qed

lemma get_option_lookup:
  assumes p: "length p = 548" "field_is (drop 240 p) ds" "list_all plain ds"
    and code: "code \<noteq> DHCP_PADDING" "code \<noteq> DHCP_END"
  shows "\<exists>k. get_option p code viz = Some (k, viz)
    \<and> (case find (\<lambda>d. d ! 0 = code) ds of
         None \<Rightarrow> k = None
       | Some d \<Rightarrow> \<exists>j. k = Some j \<and> 242 \<le> j \<and> sub_buf p j (length d - 2) = drop 2 d \<and> p ! (j - 1) = d ! 1
                    \<and> j + (length d - 2) \<le> 548)"
proof -
  obtain post where "drop 240 p = concat [] @ concat ds @ DHCP_END # post" "list_all opt_ok ds"
    using p(2) by (auto simp: field_is_def)
  from get_option_loop_lookup [OF p(1) this p(3) code, of viz] show ?thesis by (simp add: get_option_def)
qed

text \<open>C29:
  An option added to a message is read back by \<open>get_option\<close>: its data is found with its length, unless
  the field is full, in which case the message is left as it is; the options that were there before
  stay where they are and the field stays terminated inside its 308 bytes.
\<close>

theorem option_written_is_read:
  assumes p: "length p = 548" "field_is (drop 240 p) ds" "list_all plain ds"
    and d: "opt_ok d" "plain d" "\<forall>d' \<in> set ds. d' ! 0 \<noteq> d ! 0"
  shows "\<exists>n b. add_option_string (drop 240 p) (Some d) = Some (n, b)
    \<and> (if length (concat ds) + length d + 1 < 308
       then n = length d \<and> field_is b (ds @ [d])
         \<and> (\<exists>j. get_option (take 240 p @ b) (d ! 0) viz = Some (Some j, viz)
              \<and> sub_buf (take 240 p @ b) j (length d - 2) = drop 2 d)
       else n = 0 \<and> b = drop 240 p)"
proof -
  obtain n b where b: "add_option_string (drop 240 p) (Some d) = Some (n, b)"
    "if length (concat ds) + length d + 1 < 308 then n = length d \<and> field_is b (ds @ [d])
     else n = 0 \<and> b = drop 240 p"
    using add_option_string_field [OF p(2) d(1)] by blast
  have "\<exists>j. get_option (take 240 p @ b) (d ! 0) viz = Some (Some j, viz)
      \<and> sub_buf (take 240 p @ b) j (length d - 2) = drop 2 d" if f: "field_is b (ds @ [d])"
  proof -
    have len: "length (take 240 p @ b) = 548" "drop 240 (take 240 p @ b) = b"
      using p(1) f by (simp_all add: field_is_def)
    have "find (\<lambda>d'. d' ! 0 = d ! 0) (ds @ [d]) = Some d"
      using d(3) by (induction ds) auto
    then show ?thesis
      using get_option_lookup [of "take 240 p @ b" "ds @ [d]" "d ! 0" viz] len f p(3) d(1,2)
      by (auto simp: opt_ok_def)
  qed
  with b show ?thesis by (auto split: if_splits)
qed

theorem option_written_is_read_witness:
  "\<exists>n b. add_option_string (drop 240 (replicate 240 0 @ 255 # replicate 307 0))
     (Some [50, 4, 192, 168, 1, 2]) = Some (n, b) \<and> n = 6"
proof -
  have p: "length (replicate 240 0 @ 255 # replicate 307 (0 :: u8)) = 548"
    "field_is (drop 240 (replicate 240 0 @ 255 # replicate 307 0)) []"
    by (simp_all add: field_is_def DHCP_END_def)
  have d: "opt_ok [50, 4, 192, 168, 1, 2]" "plain [50, 4, 192, 168, 1, 2]"
    by (simp_all add: opt_ok_def plain_def dhcp_codes)
  show ?thesis using option_written_is_read [OF p _ d] by fastforce
qed

lemma rd8_SomeD: "rd8 p k = Some c \<Longrightarrow> k < length p \<and> p ! k = c"
  by (auto simp: rd8_def split: if_splits)

definition loop_measure :: "opt_field \<Rightarrow> nat \<Rightarrow> nat" where
  "loop_measure cur i = field_rank cur + (field_length cur - i)"

lemma loop_measure_less:
  "i < field_length cur \<Longrightarrow> 0 < n \<Longrightarrow> loop_measure cur (i + n) < loop_measure cur i"
  "loop_measure FILE_FIELD 0 < loop_measure OPTION_FIELD i"
  "loop_measure SNAME_FIELD 0 < loop_measure FILE_FIELD i"
  by (simp_all add: loop_measure_def)

text \<open>One turn of the loop of \<open>get_option\<close> that leads to a result: the option is at \<open>i\<close>, or the loop
  goes on.\<close>

lemma get_option_loop_turn:
  assumes res: "get_option_loop p code cur i over viz = Some (Some k, v)"
  shows "(\<exists>l. i + 1 + unat l < field_length cur \<and> rd8 p (field_base cur + i) = Some code
           \<and> rd8 p (field_base cur + i + 1) = Some l \<and> k = field_base cur + i + 2)
    \<or> (\<exists>cur' i' over' viz'. loop_measure cur' i' < loop_measure cur i
           \<and> get_option_loop p code cur' i' over' viz' = Some (Some k, v))"
proof -
  have i: "i < field_length cur"
    using res by (simp add: get_option_loop.simps [of p code cur i] Let_def split: if_splits)
  obtain c where c: "rd8 p (field_base cur + i) = Some c"
    using res i by (simp add: get_option_loop.simps [of p code cur i] Let_def split: option.splits)
  note eq = get_option_loop.simps [of p code cur i over viz]
  have go: "loop_measure cur (Suc (Suc (i + n))) < loop_measure cur i"
    "loop_measure cur (Suc i) < loop_measure cur i" for n
    using loop_measure_less(1) [OF i, of "n + 2"] loop_measure_less(1) [OF i, of 1] by simp_all
  have on: ?thesis if "loop_measure cur' i' < loop_measure cur i"
    "get_option_loop p code cur' i' over' viz' = Some (Some k, v)" for cur' i' over' viz'
    using that by blast
  consider "c = code" | "c \<noteq> code" "c = DHCP_VENDOR" | "c \<noteq> code" "c = DHCP_PADDING"
    | "c \<noteq> code" "c = DHCP_OPTION_OVER" | "c \<noteq> code" "c = DHCP_END"
    | "c \<noteq> code" "c \<notin> {DHCP_VENDOR, DHCP_PADDING, DHCP_OPTION_OVER, DHCP_END}" by auto
  then show ?thesis
  proof cases
    case 1
    then show ?thesis using res i c
      by (auto simp: eq Let_def bind_eq_Some_conv split: if_splits)
  next
    case 2
    then obtain l :: u8 and w where "get_option_loop p code cur (Suc (Suc (i + unat l))) over w = Some (Some k, v)"
      using res i c by (auto simp: eq Let_def split: option.splits simp del: vizio_match.simps)
    then show ?thesis by (rule on [OF go(1)])
  next
    case 3
    then have "get_option_loop p code cur (Suc i) over viz = Some (Some k, v)"
      using res i c by (auto simp: eq Let_def dhcp_codes)
    then show ?thesis by (rule on [OF go(2)])
  next
    case 4
    then obtain l :: u8 and o' where "get_option_loop p code cur (Suc (Suc (i + unat l))) o' viz = Some (Some k, v)"
      using res i c by (auto simp: eq Let_def dhcp_codes split: option.splits if_splits)
    then show ?thesis by (rule on [OF go(1)])
  next
    case 5
    then consider "cur = OPTION_FIELD" "get_option_loop p code FILE_FIELD 0 over viz = Some (Some k, v)"
      | "cur = FILE_FIELD" "get_option_loop p code SNAME_FIELD 0 over viz = Some (Some k, v)"
      using res i c by (auto simp: eq Let_def dhcp_codes split: if_splits)
    then show ?thesis using on loop_measure_less(2,3) by cases blast+
  next
    case 6
    then obtain l :: u8 where "get_option_loop p code cur (Suc (Suc (i + unat l))) over viz = Some (Some k, v)"
      using res i c by (auto simp: eq Let_def split: option.splits)
    then show ?thesis by (rule on [OF go(1)])
  qed
qed

text \<open>The data of an option that \<open>get_option\<close> finds, with the length byte in front of it, lies inside the
  field (options, file or sname) in which it was found, and belongs to the code asked for.
\<close>

theorem found_option_lies_in_field:
  assumes "get_option p code viz = Some (Some k, viz')"
  shows "\<exists>cur. field_base cur + 2 \<le> k \<and> k + unat (p ! (k - 1)) \<le> field_base cur + field_length cur
    \<and> p ! (k - 2) = code"
proof -
  have "\<exists>cur. field_base cur + 2 \<le> k \<and> k + unat (p ! (k - 1)) \<le> field_base cur + field_length cur
    \<and> p ! (k - 2) = code" if "get_option_loop p code cur i over viz = Some (Some k, viz')" for cur i over viz
    using that
  proof (induction "loop_measure cur i" arbitrary: cur i over viz rule: less_induct)
    case less
    from get_option_loop_turn [OF less.prems] show ?case
    proof (elim disjE exE conjE)
      fix l
      assume "i + 1 + unat l < field_length cur" "rd8 p (field_base cur + i) = Some code"
        "rd8 p (field_base cur + i + 1) = Some l" "k = field_base cur + i + 2"
      then show ?thesis by (intro exI [of _ cur]) (auto dest!: rd8_SomeD)
    qed (rule less.hyps)
  qed
  then show ?thesis using assms unfolding get_option_def by blast
qed

theorem found_option_lies_in_field_witness:
  "\<exists>cur. field_base cur + 2 \<le> 242 \<and> 242 + unat ((replicate 240 0 @ [53, 1, 1, 255] @ replicate 304 (0 :: u8)) ! 241)
     \<le> field_base cur + field_length cur
   \<and> (replicate 240 0 @ [53, 1, 1, 255] @ replicate 304 (0 :: u8)) ! 240 = 53"
proof -
  have "get_option (replicate 240 0 @ [53, 1, 1, 255] @ replicate 304 0) 53 False = Some (Some 242, False)"
    by (simp add: get_option_def get_option_loop.simps [of _ _ _ 0] rd8_def nth_append)
  from found_option_lies_in_field [OF this] show ?thesis by simp
qed

section \<open>Two flaws of \<open>get_option\<close>\<close>

lemma get_option_padding:
  assumes "\<And>j. i \<le> j \<Longrightarrow> j < n \<Longrightarrow> rd8 p (240 + j) = Some DHCP_PADDING" "n \<le> 308" "i \<le> n"
    "code \<noteq> DHCP_PADDING"
  shows "get_option_loop p code OPTION_FIELD i over viz = get_option_loop p code OPTION_FIELD n over viz"
  using assms(3)
proof (induction rule: inc_induct)
  case (step j)
  then show ?case
    using assms(1) [of j] assms(2,4)
    by (simp add: get_option_loop.simps [of p code OPTION_FIELD j] dhcp_codes Let_def)
qed simp

text \<open>\<open>get_option\<close> reads behind the message: in a message with a valid cookie whose options field is padding
  up to a last byte that is an option code, the length of that option is read at offset 548. The bounds
  check only covers the option that is searched for.
\<close>

theorem get_option_reads_past_the_message:
  "get_option (replicate 236 0 @ [0x63, 0x82, 0x53, 0x63] @ replicate 307 0 @ [1]) DHCP_MESSAGE_TYPE viz = None"
proof -
  let ?p = "replicate 236 0 @ [0x63, 0x82, 0x53, 0x63] @ replicate 307 0 @ [1] :: u8 list"
  have "get_option_loop ?p DHCP_MESSAGE_TYPE OPTION_FIELD 0 0 viz =
      get_option_loop ?p DHCP_MESSAGE_TYPE OPTION_FIELD 307 0 viz"
    by (rule get_option_padding) (auto simp: rd8_def nth_append nth_Cons' dhcp_codes)
  also have "\<dots> = None"
    by (simp add: get_option_loop.simps [of _ _ _ 307] rd8_def nth_append nth_Cons' dhcp_codes Let_def)
  finally show ?thesis by (simp add: get_option_def)
qed

text \<open>
  The overload option is evaluated at the wrong place: its value is taken from the byte behind its data,
  so a message that announces options in the file field (and pads before the end mark) is read as if it
  did not, and the address requested there is not found.
\<close>

theorem overloaded_options_are_missed:
  "get_option (replicate 108 0 @ ([50, 4, 192, 168, 1, 7, 255] @ replicate 121 0) @ replicate 4 0
      @ ([52, 1, 1, 0, 255] @ replicate 303 0)) DHCP_REQUESTED_IP viz = Some (None, viz)"
  by (simp add: get_option_def get_option_loop.simps rd8_def nth_append nth_Cons' dhcp_codes Let_def)

section \<open>The options of the configuration stay sorted\<close>

definition sorted_opts :: "u8 list list \<Rightarrow> bool" where
  "sorted_opts ds \<longleftrightarrow> sorted_wrt (\<lambda>a b. a ! 0 < b ! 0) ds"

lemma sint_small: "code < 128 \<Longrightarrow> sint (code :: u8) = uint code"
proof -
  assume "code < 128"
  then have lt: "uint code < 128" by (simp add: word_less_def)
  have "signed_take_bit 7 (uint code) = (uint code + 2 ^ 7) mod 2 ^ Suc 7 - 2 ^ 7"
    by (rule signed_take_bit_eq_take_bit_shift [unfolded take_bit_eq_mod])
  with lt show ?thesis by (simp add: sint_uint)
qed

lemma find_option_Cons:
  "code < 128 \<Longrightarrow> find_option (d # ds) code =
     (if d ! 0 < code then map_option Suc (find_option ds code)
      else if d ! 0 = code then Some 0 else None)"
  by (simp add: sint_small word_less_def word_uint_eq_iff)

declare find_option.simps(2) [simp del]

lemma find_option_Some:
  "find_option ds code = Some k \<Longrightarrow> code < 128 \<Longrightarrow> k < length ds \<and> ds ! k ! 0 = code"
  by (induction ds arbitrary: k) (auto simp: find_option_Cons split: if_splits)

lemma find_option_None:
  "sorted_opts ds \<Longrightarrow> code < 128 \<Longrightarrow> find_option ds code = None \<longleftrightarrow> (\<forall>d \<in> set ds. d ! 0 \<noteq> code)"
  by (induction ds) (auto simp: sorted_opts_def find_option_Cons)

lemma set_insert_option: "set (insert_option d ds) = insert d (set ds)"
  by (induction ds) auto

lemma sorted_insert_option:
  "sorted_opts ds \<Longrightarrow> \<forall>d' \<in> set ds. d' ! 0 \<noteq> d ! 0 \<Longrightarrow> sorted_opts (insert_option d ds)"
  by (induction ds) (auto simp: sorted_opts_def set_insert_option)

lemma find_option_insert:
  "sorted_opts ds \<Longrightarrow> \<forall>d' \<in> set ds. d' ! 0 \<noteq> d ! 0 \<Longrightarrow> d ! 0 < 128 \<Longrightarrow>
   \<exists>k. find_option (insert_option d ds) (d ! 0) = Some k \<and> insert_option d ds ! k = d"
  by (induction ds) (auto simp: sorted_opts_def find_option_Cons)

lemma sorted_opts_update:
  "sorted_opts ds \<Longrightarrow> k < length ds \<Longrightarrow> d ! 0 = ds ! k ! 0 \<Longrightarrow> sorted_opts (ds[k := d])"
  unfolding sorted_opts_def sorted_wrt_iff_nth_less by (auto simp: nth_list_update)

lemma find_option_update:
  "find_option ds code = Some k \<Longrightarrow> d ! 0 = code \<Longrightarrow> code < 128 \<Longrightarrow>
   find_option (ds[k := d]) code = Some k"
  by (induction ds arbitrary: k) (auto simp: find_option_Cons split: if_splits)

lemma unat_u8: "n \<le> 255 \<Longrightarrow> unat (word_of_nat n :: u8) = n"
  by (simp add: unat_of_nat)

lemma attach_option_ok:
  assumes ds: "sorted_opts ds" "list_all opt_ok ds"
    and o: "opt_code option \<noteq> DHCP_PADDING" "opt_code option < 128" "len \<le> 255" "len \<le> length buffer"
  shows "sorted_opts (attach_option ds option buffer len) \<and> list_all opt_ok (attach_option ds option buffer len)
    \<and> (\<exists>k. find_option (attach_option ds option buffer len) (opt_code option) = Some k
         \<and> drop 2 (attach_option ds option buffer len ! k) =
           (case find_option ds (opt_code option) of
              None \<Rightarrow> take len buffer
            | Some j \<Rightarrow> drop 2 (ds ! j) @
                (if flag_list option \<and> unat (ds ! j ! 1) + len \<le> 255 then take len buffer else [])))"
proof (cases "find_option ds (opt_code option)")
  case None
  let ?d = "opt_code option # word_of_nat len # take len buffer"
  have new: "\<forall>d' \<in> set ds. d' ! 0 \<noteq> ?d ! 0" using find_option_None [OF ds(1) o(2)] None by simp
  have lt: "?d ! 0 < 128" using o(2) by simp
  have "unat (word_of_nat len :: u8) = len" using o(3) by (simp add: unat_of_nat)
  then have "opt_ok ?d" using o by (auto simp: opt_ok_def DHCP_END_def)
  moreover have "attach_option ds option buffer len = insert_option ?d ds"
    using None by (simp add: attach_option_def)
  ultimately show ?thesis
    using None sorted_insert_option [OF ds(1) new] find_option_insert [OF ds(1) new lt] ds(2)
    by (auto simp: list_all_iff set_insert_option)
next
  case (Some j)
  note j = find_option_Some [OF Some o(2)]
  have oj: "opt_ok (ds ! j)" using ds(2) j by (simp add: list_all_length)
  show ?thesis
  proof (cases "flag_list option \<and> unat (ds ! j ! 1) + len \<le> 255")
    case True
    let ?l = "unat (ds ! j ! 1) + len"
    let ?d = "take 1 (ds ! j) @ [word_of_nat ?l] @ take (unat (ds ! j ! 1)) (drop 2 (ds ! j)) @ take len buffer"
    have eq: "attach_option ds option buffer len = ds[j := ?d]"
      using Some True by (simp add: attach_option_def Let_def)
    have t1: "take 1 (ds ! j) = [ds ! j ! 0]"
      using opt_ok_length [OF oj] by (cases "ds ! j") auto
    have dr: "take (unat (ds ! j ! 1)) (drop 2 (ds ! j)) = drop 2 (ds ! j)"
      using oj by (simp add: opt_ok_def)
    have "unat (word_of_nat ?l :: u8) = ?l" by (rule unat_u8) (use True in simp)
    then have d: "opt_ok ?d" "?d ! 0 = ds ! j ! 0" "drop 2 ?d = drop 2 (ds ! j) @ take len buffer"
      using oj o(4) t1 dr by (simp_all add: opt_ok_def del: of_nat_add)
    have "list_all opt_ok (ds[j := ?d])"
      using ds(2) d(1) by (auto simp: list_all_iff dest!: set_update_subset_insert [THEN subsetD])
    moreover have "sorted_opts (ds[j := ?d])" using sorted_opts_update [OF ds(1)] j d(2) by simp
    moreover have "find_option (ds[j := ?d]) (opt_code option) = Some j"
      using find_option_update [OF Some _ o(2)] d(2) j by simp
    ultimately show ?thesis unfolding eq using True Some d(3) j by simp
  next
    case False
    then have "attach_option ds option buffer len = ds"
      using Some by (auto simp: attach_option_def Let_def)
    with False Some ds show ?thesis by auto
  qed
qed

text \<open>
  Attaching an option to the list of the configuration keeps the list sorted by code, without
  duplicates, and every entry well-formed; afterwards the option is found, with its data, or appended to
  the data of the entry that was there if the option takes a list and the sum fits a length byte.
\<close>

theorem attach_option_keeps_list:
  assumes ds: "sorted_opts ds" "list_all opt_ok ds"
    and o: "opt_code option \<noteq> DHCP_PADDING" "opt_code option < 128" "len \<le> 255" "len \<le> length buffer"
  shows "sorted_opts (attach_option ds option buffer len) \<and> list_all opt_ok (attach_option ds option buffer len)
    \<and> (\<exists>k. find_option (attach_option ds option buffer len) (opt_code option) = Some k
         \<and> drop 2 (attach_option ds option buffer len ! k) =
           (case find_option ds (opt_code option) of
              None \<Rightarrow> take len buffer
            | Some j \<Rightarrow> drop 2 (ds ! j) @
                (if flag_list option \<and> unat (ds ! j ! 1) + len \<le> 255 then take len buffer else [])))"
  using attach_option_ok [OF assms] .

theorem attach_option_keeps_list_witness:
  "\<exists>k. find_option (attach_option [[1, 4, 255, 255, 255, 0]] (options ! 2) [192, 168, 1, 1] 4) 3 = Some k"
proof -
  have "sorted_opts [[1, 4, 255, 255, 255, 0]]" "list_all opt_ok [[1, 4, 255, 255, 255, 0]]"
    "opt_code (options ! 2) = 3"
    by (simp_all add: sorted_opts_def opt_ok_def dhcp_codes options_def mk_option_def)
  then show ?thesis
    using attach_option_keeps_list [of "[[1, 4, 255, 255, 255, 0]]" "options ! 2" 4 "[192, 168, 1, 1]"]
    by (auto simp: dhcp_codes)
qed

section \<open>Reading any well-formed message\<close>

text \<open>The comparison with the vendor string stops at the end mark at the latest.\<close>

lemma vizio_match_returns:
  "k \<le> j \<Longrightarrow> j < length p \<Longrightarrow> p ! j = DHCP_END \<Longrightarrow> DHCP_END \<notin> set xs \<Longrightarrow> \<exists>v. vizio_match p k xs = Some v"
proof (induction xs arbitrary: k)
  case (Cons x xs)
  show ?case
  proof (cases "p ! k = x")
    case True
    then have "k \<noteq> j" using Cons.prems by auto
    then show ?thesis using Cons.IH [of "Suc k"] Cons.prems True by (simp add: rd8_def)
  next
    case False
    then show ?thesis using Cons.prems by (simp add: rd8_def) blast
  qed
qed auto

lemma get_option_skip_any:
  assumes p: "length p = 548" "drop 240 p = concat done @ d @ post @ DHCP_END # rest"
    and d: "opt_ok d" "d ! 0 \<noteq> DHCP_OPTION_OVER" "d ! 0 \<noteq> code"
  shows "\<exists>v. get_option_loop p code OPTION_FIELD (length (concat done)) over viz =
    get_option_loop p code OPTION_FIELD (length (concat (done @ [d]))) over v"
proof (cases "d ! 0 = DHCP_VENDOR")
  case False
  then have "plain d" using d by (simp add: plain_def)
  then show ?thesis using get_option_skip [OF p(1) p(2) d(1) _ d(3)] by blast
next
  case True
  have rd: "rd8 p (240 + k) = rd8 (drop 240 p) k" for k by (simp add: rd8_def p(1))
  have len: "length (concat done) + length d + length post < 308"
    using arg_cong [OF p(2), of length] p(1) by simp
  have r: "rd8 p (240 + length (concat done)) = Some (d ! 0)"
    "rd8 p (240 + length (concat done) + 1) = Some (d ! 1)"
    using rd8_option [OF d(1), of "concat done" "post @ DHCP_END # rest"] rd [of "length (concat done)"]
      rd [of "length (concat done) + 1"] p(2) by (simp_all add: add.assoc)
  let ?j = "240 + (length (concat done) + length d + length post)"
  have "drop 240 p ! (length (concat done) + length d + length post) = DHCP_END"
    unfolding p(2) by (simp add: nth_append)
  then have "p ! ?j = DHCP_END" using p(1) len by simp
  moreover have "240 + length (concat done) + 2 \<le> ?j" "?j < length p"
    "DHCP_END \<notin> set [0x56, 0x49, 0x5a, 0x49, 0x4f]"
    using len p(1) opt_ok_length [OF d(1)] by (simp_all add: DHCP_END_def)
  ultimately obtain v where
    v: "vizio_match p (240 + length (concat done) + 2) [0x56, 0x49, 0x5a, 0x49, 0x4f] = Some v"
    using vizio_match_returns by blast
  have "get_option_loop p code OPTION_FIELD (length (concat done)) over viz =
      get_option_loop p code OPTION_FIELD (length (concat (done @ [d]))) over v"
    using r d len v True
    by (simp add: get_option_loop.simps [of p code OPTION_FIELD "length (concat done)"] opt_ok_def
        Let_def add.assoc)
  then show ?thesis by blast
qed

lemma get_option_loop_any:
  assumes p: "length p = 548" "drop 240 p = concat done @ concat ds @ DHCP_END # post"
    and ds: "list_all opt_ok ds" "\<forall>d \<in> set ds. d ! 0 \<noteq> DHCP_OPTION_OVER"
    and code: "code \<noteq> DHCP_PADDING" "code \<noteq> DHCP_END"
  shows "\<exists>k v. get_option_loop p code OPTION_FIELD (length (concat done)) 0 viz = Some (k, v)
    \<and> (case find (\<lambda>d. d ! 0 = code) ds of
         None \<Rightarrow> k = None
       | Some d \<Rightarrow> \<exists>j. k = Some j \<and> 242 \<le> j \<and> sub_buf p j (length d - 2) = drop 2 d \<and> p ! (j - 1) = d ! 1
                    \<and> j + (length d - 2) \<le> 548)"
  using p ds
proof (induction ds arbitrary: "done" viz)
  case Nil
  from get_option_loop_lookup [OF p(1), of "done" "[]" post code viz] Nil code show ?case by auto
next
  case (Cons d ds)
  show ?case
  proof (cases "d ! 0 = code")
    case True
    have "drop 240 p = concat done @ d @ (concat ds @ DHCP_END # post)" using Cons.prems(2) by simp
    note hit = get_option_hit [OF Cons.prems(1) this _ True]
    then show ?thesis using Cons.prems(3) True opt_ok_length [of d] by (simp add: add.commute)
  next
    case False
    have eq: "drop 240 p = concat done @ d @ concat ds @ DHCP_END # post" using Cons.prems(2) by simp
    obtain v where v: "get_option_loop p code OPTION_FIELD (length (concat done)) 0 viz =
        get_option_loop p code OPTION_FIELD (length (concat (done @ [d]))) 0 v"
      using get_option_skip_any [OF Cons.prems(1) eq _ _ False, of 0 viz] Cons.prems(3,4) by auto
    have "drop 240 p = concat (done @ [d]) @ concat ds @ DHCP_END # post" using Cons.prems(2) by simp
    from Cons.IH [OF Cons.prems(1) this] Cons.prems(3,4) False v show ?thesis by simp
  qed
qed

lemma get_option_any:
  assumes p: "length p = 548" "field_is (drop 240 p) ds" "\<forall>d \<in> set ds. d ! 0 \<noteq> DHCP_OPTION_OVER"
    and code: "code \<noteq> DHCP_PADDING" "code \<noteq> DHCP_END"
  shows "\<exists>k v. get_option p code viz = Some (k, v)
    \<and> (case find (\<lambda>d. d ! 0 = code) ds of
         None \<Rightarrow> k = None
       | Some d \<Rightarrow> \<exists>j. k = Some j \<and> 242 \<le> j \<and> sub_buf p j (length d - 2) = drop 2 d \<and> p ! (j - 1) = d ! 1
                    \<and> j + (length d - 2) \<le> 548)"
proof -
  obtain post where "drop 240 p = concat [] @ concat ds @ DHCP_END # post" "list_all opt_ok ds"
    using p(2) by (auto simp: field_is_def)
  from get_option_loop_any [OF p(1) this p(3) code, of viz] show ?thesis by (simp add: get_option_def)
qed

end
