(* ===== verification/Dhcp_Packet.thy ===== *)
theory Dhcp_Packet
  imports Dhcp_Options
begin

text \<open>
  DHCP messages and the packets that carry them: \<open>udhcpd-0.9.8/packet.c\<close>. Fields of a message are read and
  written at their offset in \<open>struct dhcpMessage\<close>; \<open>raw_packet\<close> builds the whole IP packet as a list of 576
  bytes. The outcome of the socket calls is data.
\<close>

section \<open>Fields of a message\<close>

definition msg_op :: "dhcpMessage \<Rightarrow> u8" where "msg_op p = p ! 0"
definition msg_xid :: "dhcpMessage \<Rightarrow> u8 list" where "msg_xid p = sub_buf p 4 4"
definition msg_flags :: "dhcpMessage \<Rightarrow> u16" where "msg_flags p = mk16 (p ! 10) (p ! 11)"
definition msg32 :: "dhcpMessage \<Rightarrow> nat \<Rightarrow> u32" where
  "msg32 p off = mk32 (p ! off) (p ! (off + 1)) (p ! (off + 2)) (p ! (off + 3))"
definition msg_ciaddr :: "dhcpMessage \<Rightarrow> u32" where "msg_ciaddr p = msg32 p 12"
definition msg_yiaddr :: "dhcpMessage \<Rightarrow> u32" where "msg_yiaddr p = msg32 p 16"
definition msg_giaddr :: "dhcpMessage \<Rightarrow> u32" where "msg_giaddr p = msg32 p 24"
definition msg_chaddr :: "dhcpMessage \<Rightarrow> u8 list" where "msg_chaddr p = sub_buf p 28 16"
definition msg_cookie :: "dhcpMessage \<Rightarrow> u32" where "msg_cookie p = msg32 p 236"
definition msg_options :: "dhcpMessage \<Rightarrow> u8 list" where "msg_options p = drop 240 p"

definition set_options :: "dhcpMessage \<Rightarrow> u8 list \<Rightarrow> dhcpMessage" where
  "set_options p opts = take 240 p @ opts"

lemmas msg_defs = msg_op_def msg_xid_def msg_flags_def msg32_def msg_ciaddr_def msg_yiaddr_def
  msg_giaddr_def msg_chaddr_def msg_cookie_def msg_options_def

definition BOOTREQUEST :: u8 where "BOOTREQUEST = 1"
definition BOOTREPLY :: u8 where "BOOTREPLY = 2"
definition ETH_10MB :: u8 where "ETH_10MB = 1"
definition ETH_10MB_LEN :: u8 where "ETH_10MB_LEN = 6"
definition DHCP_MAGIC :: u32 where "DHCP_MAGIC = 0x63825363"
definition BROADCAST_FLAG :: u16 where "BROADCAST_FLAG = 0x8000"
definition DHCPDISCOVER :: u8 where "DHCPDISCOVER = 1"
definition DHCPOFFER :: u8 where "DHCPOFFER = 2"
definition DHCPREQUEST :: u8 where "DHCPREQUEST = 3"
definition DHCPDECLINE :: u8 where "DHCPDECLINE = 4"
definition DHCPACK :: u8 where "DHCPACK = 5"
definition DHCPNAK :: u8 where "DHCPNAK = 6"
definition DHCPRELEASE :: u8 where "DHCPRELEASE = 7"
definition DHCPINFORM :: u8 where "DHCPINFORM = 8"

lemmas dhcp_types = DHCPDISCOVER_def DHCPOFFER_def DHCPREQUEST_def DHCPDECLINE_def DHCPACK_def
  DHCPNAK_def DHCPRELEASE_def DHCPINFORM_def

section \<open>Making and reading a message\<close>

text \<open>The options field of the new message ends at once; the message type is its first option.\<close>

definition header_op :: "u8 \<Rightarrow> u8" where
  "header_op type =
     (if type \<in> {DHCPDISCOVER, DHCPREQUEST, DHCPRELEASE, DHCPINFORM} then BOOTREQUEST
      else if type \<in> {DHCPOFFER, DHCPACK, DHCPNAK} then BOOTREPLY else 0)"

definition init_header :: "u8 \<Rightarrow> dhcpMessage option" where
  "init_header type =
     (let p = [header_op type, ETH_10MB, ETH_10MB_LEN] @ replicate 233 0 @ bytes32 DHCP_MAGIC
              @ DHCP_END # replicate 307 0
      in do { (n, opts) \<leftarrow> add_simple_option (msg_options p) DHCP_MESSAGE_TYPE (ucast type);
              Some (set_options p opts) })"

definition MSFT_98 :: "u8 list" where "MSFT_98 = [0x4d, 0x53, 0x46, 0x54, 0x20, 0x39, 0x38]"

text \<open>The datagram that \<open>read\<close> delivers is cut to the size of the message; a failed read is \<^term>\<open>None\<close>. The
  result is the return value, the message, and \<open>vizio_device\<close>.\<close>

definition get_packet :: "u8 list option \<Rightarrow> bool \<Rightarrow> (int \<times> dhcpMessage \<times> bool) option" where
  "get_packet r viz =
     (case r of
        None \<Rightarrow> Some (-1, replicate sizeof_dhcpMessage 0, viz)
      | Some d \<Rightarrow>
          let n = min (length d) sizeof_dhcpMessage;
              p = take n d @ replicate (sizeof_dhcpMessage - n) 0 in
          if msg_cookie p \<noteq> DHCP_MAGIC then Some (-2, p, viz)
          else if msg_op p = BOOTREQUEST then
            do { (v, viz1) \<leftarrow> get_option p DHCP_VENDOR viz;
                 Some (int n,
                   (case v of
                      Some k \<Rightarrow>
                        if unat (p ! (k - 1)) = length MSFT_98 \<and> sub_buf p k (unat (p ! (k - 1))) = MSFT_98
                        then buf_write p 10 (bytes16 (msg_flags p OR BROADCAST_FLAG)) else p
                    | None \<Rightarrow> p), viz1) }
          else Some (int n, p, viz))"

section \<open>The Internet checksum\<close>

text \<open>The sum is an \<open>int32_t\<close>; it stays below its limit for every buffer of at most 65536 bytes
  (\<open>sum16_bound\<close>), so it is a natural number here.\<close>

fun sum16 :: "u8 list \<Rightarrow> nat" where
  "sum16 [] = 0"
| "sum16 [b] = 256 * unat b"
| "sum16 (a # b # bs) = unat (mk16 a b) + sum16 bs"

function fold16 :: "nat \<Rightarrow> nat" where
  "fold16 n = (if n div 65536 \<noteq> 0 then fold16 (n mod 65536 + n div 65536) else n)"
  by pat_completeness auto
termination
proof (relation "measure id")
  fix n :: nat
  assume "n div 65536 \<noteq> 0"
  then have "n mod 65536 + n div 65536 < n" using div_mult_mod_eq [of n 65536] by linarith
  then show "(n mod 65536 + n div 65536, n) \<in> measure id" by simp
qed simp

declare fold16.simps [simp del]

definition checksum :: "u8 list \<Rightarrow> u16" where
  "checksum bs = NOT (word_of_nat (fold16 (sum16 bs)))"

section \<open>Sending\<close>

text \<open>The outcome of \<open>socket\<close>, \<open>setsockopt\<close>, \<open>bind\<close>, \<open>connect\<close> and of the call that sends.\<close>

record send_env =
  se_socket_ok :: bool
  se_setsockopt_ok :: bool
  se_bind_ok :: bool
  se_connect_ok :: bool
  se_result :: int

text \<open>What the server does to its surroundings: a packet on a packet socket with interface and hardware
  address, a datagram of the kernel, an ARP request, and a command of the shell.\<close>

datatype dhcp_out =
    Raw_packet u32 "u8 list" "u8 list"
  | Udp_packet u32 u16 u32 u16 "u8 list"
  | Arp_request "u8 list"
  | Shell string

text \<open>The message inside what is sent.\<close>

fun out_message :: "dhcp_out \<Rightarrow> dhcpMessage option" where
  "out_message (Raw_packet i a b) = Some (drop 28 b)"
| "out_message (Udp_packet sa sp da dp b) = Some b"
| "out_message _ = None"

definition IPPROTO_UDP :: u8 where "IPPROTO_UDP = 17"
definition IPDEFTTL :: u8 where "IPDEFTTL = 64"

text \<open>The packet when the UDP checksum is computed, with the pseudo-header in place of the IP header, and the
  packet that is sent.\<close>

definition pseudo_packet :: "dhcpMessage \<Rightarrow> u32 \<Rightarrow> u16 \<Rightarrow> u32 \<Rightarrow> u16 \<Rightarrow> u8 list" where
  "pseudo_packet payload source_ip source_port dest_ip dest_port =
     [0, 0] @ bytes16 556 @ [0, 0, 0, 0, 0, IPPROTO_UDP, 0, 0] @ bytes32 source_ip @ bytes32 dest_ip
     @ bytes16 source_port @ bytes16 dest_port @ bytes16 556 @ [0, 0] @ payload"

definition udp_dhcp_packet :: "dhcpMessage \<Rightarrow> u32 \<Rightarrow> u16 \<Rightarrow> u32 \<Rightarrow> u16 \<Rightarrow> u8 list" where
  "udp_dhcp_packet payload source_ip source_port dest_ip dest_port =
     (let p0 = pseudo_packet payload source_ip source_port dest_ip dest_port;
          p1 = buf_write p0 26 (bytes16 (checksum p0));
          p2 = buf_write (buf_write (buf_write p1 2 (bytes16 576)) 0 [0x45]) 8 [IPDEFTTL]
      in buf_write p2 10 (bytes16 (checksum (take 20 p2))))"

definition raw_packet ::
    "send_env \<Rightarrow> dhcpMessage \<Rightarrow> u32 \<Rightarrow> u16 \<Rightarrow> u32 \<Rightarrow> u16 \<Rightarrow> u8 list \<Rightarrow> u32 \<Rightarrow> int \<times> dhcp_out list" where
  "raw_packet env payload source_ip source_port dest_ip dest_port dest_arp ifindex =
     (if \<not> se_socket_ok env then (-1, [])
      else if \<not> se_bind_ok env then (-1, [])
      else (se_result env,
        [Raw_packet ifindex (take 6 dest_arp)
           (udp_dhcp_packet payload source_ip source_port dest_ip dest_port)]))"

definition kernel_packet ::
    "send_env \<Rightarrow> dhcpMessage \<Rightarrow> u32 \<Rightarrow> u16 \<Rightarrow> u32 \<Rightarrow> u16 \<Rightarrow> int \<times> dhcp_out list" where
  "kernel_packet env payload source_ip source_port dest_ip dest_port =
     (if \<not> se_socket_ok env \<or> \<not> se_setsockopt_ok env \<or> \<not> se_bind_ok env \<or> \<not> se_connect_ok env
      then (-1, [])
      else (se_result env, [Udp_packet source_ip source_port dest_ip dest_port payload]))"

section \<open>The checksum of a sent packet is right\<close>

lemma sum16_bound: "sum16 bs \<le> 65535 * ((length bs + 1) div 2)"
proof (induction bs rule: sum16.induct)
  case (2 b)
  have "256 * unat b \<le> 65535" using unat_less_256 [of b] by linarith
  then show ?case by simp
next
  case (3 a b bs)
  have "unat (mk16 a b) \<le> 65535" using unat_less_65536 [of "mk16 a b"] by linarith
  with 3 show ?case by simp
qed simp

lemma sum16_append: "even (length xs) \<Longrightarrow> sum16 (xs @ ys) = sum16 xs + sum16 ys"
  by (induction xs rule: sum16.induct) auto

lemma fold16_lt: "fold16 n < 65536"
  by (induction n rule: fold16.induct) (subst fold16.simps, auto simp: div_eq_0_iff)

lemma fold16_mod: "fold16 n mod 65535 = n mod 65535"
proof (induction n rule: fold16.induct)
  case (1 n)
  have "n = n mod 65536 + n div 65536 + 65535 * (n div 65536)"
    using div_mult_mod_eq [of n 65536] by linarith
  then have "n mod 65535 = (n mod 65536 + n div 65536 + 65535 * (n div 65536)) mod 65535"
    by (rule arg_cong)
  also have "\<dots> = (n mod 65536 + n div 65536) mod 65535" by (rule mod_mult_self2)
  finally have eq: "n mod 65535 = (n mod 65536 + n div 65536) mod 65535" .
  show ?case
  proof (cases "n div 65536 = 0")
    case True
    then have "fold16 n = n" by (subst fold16.simps) simp
    then show ?thesis by (rule arg_cong)
  next
    case False
    then have "fold16 n = fold16 (n mod 65536 + n div 65536)" by (subst fold16.simps) (rule if_P)
    with 1 [OF False] eq show ?thesis by (simp only:)
  qed
qed

lemma fold16_pos: "0 < n \<Longrightarrow> 0 < fold16 n"
proof (induction n rule: fold16.induct)
  case (1 n)
  then show ?case by (subst fold16.simps) auto
qed

text \<open>Both sums are determined by their residue and by whether they are zero.\<close>

lemma residue_eq:
  fixes a b :: nat
  assumes "a < 65536" "b < 65536" "a mod 65535 = b mod 65535" "a = 0 \<longleftrightarrow> b = 0"
  shows "a = b"
proof -
  have "x mod 65535 = (if x = 65535 then 0 else x)" if "x < 65536" for x :: nat
    using that by (cases "x = 65535") simp_all
  with assms show ?thesis by (auto split: if_splits)
qed

text \<open>The reference: addition of 16-bit numbers with end-around carry, over the big-endian 16-bit words of the
  buffer, an odd one filled up with zero.\<close>

fun words16 :: "u8 list \<Rightarrow> nat list" where
  "words16 [] = []"
| "words16 [b] = [256 * unat b]"
| "words16 (a # b # bs) = (256 * unat a + unat b) # words16 bs"

definition oc_add :: "nat \<Rightarrow> nat \<Rightarrow> nat" where
  "oc_add a b = (if a + b \<ge> 65536 then a + b - 65535 else a + b)"

definition oc_sum :: "u8 list \<Rightarrow> nat" where
  "oc_sum bs = foldl oc_add 0 (words16 bs)"

lemma oc_add_props:
  assumes "a < 65536" "b < 65536"
  shows "oc_add a b < 65536" "oc_add a b mod 65535 = (a + b) mod 65535" "oc_add a b = 0 \<longleftrightarrow> a + b = 0"
proof -
  show "oc_add a b < 65536" "oc_add a b = 0 \<longleftrightarrow> a + b = 0" using assms by (auto simp: oc_add_def)
  show "oc_add a b mod 65535 = (a + b) mod 65535"
    by (simp add: oc_add_def le_mod_geq)
qed

lemma words16_bound: "w \<in> set (words16 bs) \<Longrightarrow> w < 65536"
proof (induction bs rule: words16.induct)
  case (2 b)
  have "256 * unat b < 65536" using unat_less_256 [of b] by linarith
  then show ?case using 2 by simp
next
  case (3 a b bs)
  have "256 * unat a + unat b < 65536" using unat_less_256 [of a] unat_less_256 [of b] by linarith
  then show ?case using 3 by auto
qed simp

lemma foldl_oc_add:
  assumes "\<And>w. w \<in> set ws \<Longrightarrow> w < 65536" "a < 65536"
  shows "foldl oc_add a ws < 65536 \<and> foldl oc_add a ws mod 65535 = (a + sum_list ws) mod 65535
    \<and> (foldl oc_add a ws = 0 \<longleftrightarrow> a + sum_list ws = 0)"
  using assms
proof (induction ws arbitrary: a)
  case (Cons w ws)
  have w: "w < 65536" using Cons.prems by simp
  note o = oc_add_props [OF Cons.prems(2) w]
  have "(oc_add a w + sum_list ws) mod 65535 = (a + w + sum_list ws) mod 65535"
    by (metis mod_add_left_eq o(2))
  then show ?case
    using Cons.IH [OF _ o(1)] Cons.prems o(3) by (simp add: add.assoc)
qed simp

lemma sum_list_words16: "sum_list (words16 bs) = sum16 bs"
  by (induction bs rule: words16.induct) (auto simp: unat_mk16)

lemma fold16_sum16: "fold16 (sum16 bs) = oc_sum bs"
proof -
  have o: "oc_sum bs < 65536" "oc_sum bs mod 65535 = sum16 bs mod 65535" "oc_sum bs = 0 \<longleftrightarrow> sum16 bs = 0"
    using foldl_oc_add [of "words16 bs" 0] words16_bound by (auto simp: oc_sum_def sum_list_words16)
  have "fold16 (sum16 bs) = 0 \<longleftrightarrow> sum16 bs = 0"
    using fold16_pos [of "sum16 bs"] by (cases "sum16 bs = 0") (auto simp: fold16.simps [of 0])
  then show ?thesis
    using residue_eq [OF fold16_lt o(1)] o fold16_mod [of "sum16 bs"] by simp
qed

lemma unat_not16: "unat (NOT w :: u16) = 65535 - unat w"
proof -
  have "NOT w = - 1 - w" by (simp add: not_eq_complement)
  moreover have "unat (- 1 - w) = unat (- 1 :: u16) - unat w" by (rule unat_sub) simp
  moreover have "unat (- 1 :: u16) = 65535" by (simp add: unsigned_minus_1_eq_mask mask_eq_exp_minus_1)
  ultimately show ?thesis by simp
qed

text \<open>C31:
  \<open>checksum\<close> computes the Internet checksum for every buffer: the complement of the one's complement sum
  (addition with end-around carry) of its big-endian 16-bit words, an odd last byte filled up with zero; on
  buffers of at most 65536 bytes its 32-bit accumulator does not overflow.
\<close>

theorem checksum_is_internet_checksum:
  "unat (checksum bs) = 65535 - oc_sum bs \<and> (length bs \<le> 65536 \<longrightarrow> sum16 bs < 2 ^ 31)"
proof -
  have "oc_sum bs < 65536" using fold16_lt [of "sum16 bs"] by (simp add: fold16_sum16)
  then have "unat (word_of_nat (oc_sum bs) :: u16) = oc_sum bs" by (simp add: unat_of_nat)
  then have "unat (checksum bs) = 65535 - oc_sum bs"
    by (simp add: checksum_def fold16_sum16 unat_not16)
  moreover have "sum16 bs < 2 ^ 31" if "length bs \<le> 65536"
  proof -
    have "(length bs + 1) div 2 \<le> 32768" using that by simp
    then have "65535 * ((length bs + 1) div 2) \<le> 65535 * 32768" by (rule mult_le_mono2)
    with sum16_bound [of bs] show ?thesis by simp
  qed
  ultimately show ?thesis by blast
qed

theorem checksum_is_internet_checksum_witness:
  "unat (checksum [0x45, 0, 2]) = 65535 - oc_sum [0x45, 0, 2] \<and> sum16 [0x45, 0, 2] < 2 ^ 31"
  using checksum_is_internet_checksum [of "[0x45, 0, 2]"] by simp

text \<open>Writing the checksum of a buffer into a zero word of it makes the sum all ones.\<close>

lemma oc_sum_eq_ones: "0 < sum16 bs \<Longrightarrow> 65535 dvd sum16 bs \<Longrightarrow> oc_sum bs = 65535"
proof -
  assume "0 < sum16 bs" "65535 dvd sum16 bs"
  then have "oc_sum bs mod 65535 = 0" "0 < oc_sum bs"
    using fold16_mod [of "sum16 bs"] fold16_pos [of "sum16 bs"] by (auto simp: fold16_sum16)
  then show ?thesis
    using residue_eq [of "oc_sum bs" 65535] fold16_lt [of "sum16 bs"] by (simp add: fold16_sum16)
qed

lemma oc_sum_filled:
  assumes "sum16 bs' = sum16 bs + unat (checksum bs)" "0 < sum16 bs"
  shows "oc_sum bs' = 65535"
proof -
  have lt: "oc_sum bs < 65536" using fold16_lt [of "sum16 bs"] by (simp add: fold16_sum16)
  have c: "unat (checksum bs) + oc_sum bs = 65535"
    using lt by (simp add: checksum_def fold16_sum16 unat_not16 unat_of_nat)
  have "oc_sum bs mod 65535 = sum16 bs mod 65535" using fold16_mod [of "sum16 bs"] by (simp add: fold16_sum16)
  then have "sum16 bs' mod 65535 = (oc_sum bs + unat (checksum bs)) mod 65535"
    by (metis assms(1) mod_add_left_eq)
  then have "65535 dvd sum16 bs'" using c by (simp add: add.commute dvd_eq_mod_eq_0)
  then show ?thesis using assms by (intro oc_sum_eq_ones) simp_all
qed

lemma sum16_bytes16 [simp]: "sum16 (bytes16 w @ bs) = unat w + sum16 bs"
  by (simp add: bytes16_def)

lemma sum16_fill:
  assumes "even off" "off + 2 \<le> length bs" "sub_buf bs off 2 = [0, 0]"
  shows "sum16 (buf_write bs off (bytes16 w)) = sum16 bs + unat w"
proof -
  have "bs = take off bs @ [0, 0] @ drop (off + 2) bs"
    using assms(2,3) by (metis append_take_drop_id sub_buf_def take_drop add.commute drop_drop)
  moreover have "sum16 (take off bs @ [0, 0] @ drop (off + 2) bs) = sum16 (take off bs) + sum16 (drop (off + 2) bs)"
    using assms by (subst sum16_append) (simp_all add: mk16_def)
  moreover have "sum16 (take off bs @ bytes16 w @ drop (off + 2) bs) =
      sum16 (take off bs) + unat w + sum16 (drop (off + 2) bs)"
    using assms by (subst sum16_append) simp_all
  ultimately show ?thesis by (simp add: buf_write_def)
qed

definition ip_header :: "u16 \<Rightarrow> u32 \<Rightarrow> u32 \<Rightarrow> u8 list" where
  "ip_header check source_ip dest_ip =
     [0x45, 0] @ bytes16 576 @ [0, 0, 0, 0, IPDEFTTL, IPPROTO_UDP] @ bytes16 check
     @ bytes32 source_ip @ bytes32 dest_ip"

definition udp_datagram :: "u16 \<Rightarrow> u16 \<Rightarrow> u16 \<Rightarrow> dhcpMessage \<Rightarrow> u8 list" where
  "udp_datagram source_port dest_port check payload =
     bytes16 source_port @ bytes16 dest_port @ bytes16 556 @ bytes16 check @ payload"

lemma udp_dhcp_packet_eq:
  "udp_dhcp_packet payload source_ip source_port dest_ip dest_port =
     ip_header (checksum (ip_header 0 source_ip dest_ip)) source_ip dest_ip
     @ udp_datagram source_port dest_port
         (checksum (pseudo_packet payload source_ip source_port dest_ip dest_port)) payload"
proof -
  have z: "bytes16 0 = [0, 0]" by (simp add: bytes16_def hi8_def lo8_def)
  let ?c = "checksum (pseudo_packet payload source_ip source_port dest_ip dest_port)"
  have e: "buf_write (buf_write (buf_write (buf_write
        (pseudo_packet payload source_ip source_port dest_ip dest_port) 26 (bytes16 ?c)) 2 (bytes16 576)) 0 [0x45])
        8 [IPDEFTTL] = ip_header 0 source_ip dest_ip @ udp_datagram source_port dest_port ?c payload"
    unfolding pseudo_packet_def ip_header_def udp_datagram_def z
    by (simp add: buf_write_def bytes16_def bytes32_def)
  have t: "take 20 (ip_header 0 source_ip dest_ip @ bs) = ip_header 0 source_ip dest_ip" for bs
    by (simp add: ip_header_def bytes16_def bytes32_def)
  have f: "buf_write (ip_header 0 source_ip dest_ip @ bs) 10 (bytes16 w) = ip_header w source_ip dest_ip @ bs" for bs w
    by (simp add: ip_header_def bytes16_def bytes32_def buf_write_def)
  show ?thesis unfolding udp_dhcp_packet_def Let_def e t f by (rule refl)
qed

text \<open>C30:
  The packet that \<open>raw_packet\<close> sends is one that a receiver accepts: an IP header without options followed by a
  UDP datagram that carries the message, with both length fields right; the header checksum is correct, and
  the UDP checksum, computed by the code over the headers with the pseudo-header in place of the IP header, is
  correct for the pseudo-header of the UDP protocol. Nothing is sent when the socket cannot be opened or bound.
\<close>

theorem raw_packet_checksums:
  assumes "length payload = 548"
    and hdr_is: "hdr = take 20 (udp_dhcp_packet payload source_ip source_port dest_ip dest_port)"
    and dgram_is: "dgram = drop 20 (udp_dhcp_packet payload source_ip source_port dest_ip dest_port)"
  shows "raw_packet env payload source_ip source_port dest_ip dest_port dest_arp ifindex =
      (if se_socket_ok env \<and> se_bind_ok env
       then (se_result env, [Raw_packet ifindex (take 6 dest_arp) (hdr @ dgram)]) else (-1, []))
    \<and> length hdr = 20 \<and> length dgram = 556
    \<and> sub_buf hdr 2 2 = bytes16 576 \<and> sub_buf dgram 4 2 = bytes16 556
    \<and> sub_buf hdr 12 4 = bytes32 source_ip \<and> sub_buf hdr 16 4 = bytes32 dest_ip \<and> drop 8 dgram = payload
    \<and> oc_sum hdr = 0xFFFF
    \<and> oc_sum (bytes32 source_ip @ bytes32 dest_ip @ [0, IPPROTO_UDP] @ bytes16 556 @ dgram) = 0xFFFF"
proof -
  let ?ch = "checksum (ip_header 0 source_ip dest_ip)"
  let ?pp = "pseudo_packet payload source_ip source_port dest_ip dest_port"
  have len: "length (ip_header w source_ip dest_ip) = 20" for w by (simp add: ip_header_def)
  have hdr: "hdr = ip_header ?ch source_ip dest_ip"
    and dg: "dgram = udp_datagram source_port dest_port (checksum ?pp) payload"
    using hdr_is dgram_is len by (simp_all add: udp_dhcp_packet_eq)
  have z: "sum16 (0 # 0 # bs) = sum16 bs" "mk16 0 0 = 0" for bs by (simp_all add: mk16_def)
  have b32: "sum16 (bytes32 w @ bs) = sum16 (bytes32 w) + sum16 bs" for w bs
    by (rule sum16_append) simp
  have "sum16 hdr = sum16 (ip_header 0 source_ip dest_ip) + unat ?ch"
    by (simp add: hdr ip_header_def b32)
  moreover have "0 < sum16 (ip_header 0 source_ip dest_ip)" by (simp add: ip_header_def unat_mk16)
  ultimately have s1: "oc_sum hdr = 0xFFFF" by (rule oc_sum_filled)
  let ?ps = "bytes32 source_ip @ bytes32 dest_ip @ [0, IPPROTO_UDP] @ bytes16 556 @ dgram"
  have "sum16 ?ps = sum16 ?pp + unat (checksum ?pp)"
    by (simp add: dg udp_datagram_def pseudo_packet_def b32 z)
  moreover have "0 < sum16 ?pp" by (simp add: pseudo_packet_def z b32)
  ultimately have s2: "oc_sum ?ps = 0xFFFF" by (rule oc_sum_filled)
  have "hdr @ dgram = udp_dhcp_packet payload source_ip source_port dest_ip dest_port"
    using hdr_is dgram_is by simp
  then have r: "raw_packet env payload source_ip source_port dest_ip dest_port dest_arp ifindex =
      (if se_socket_ok env \<and> se_bind_ok env
       then (se_result env, [Raw_packet ifindex (take 6 dest_arp) (hdr @ dgram)]) else (-1, []))"
    by (simp add: raw_packet_def)
  have f: "length hdr = 20" "length dgram = 556" "sub_buf hdr 2 2 = bytes16 576"
    "sub_buf dgram 4 2 = bytes16 556" "sub_buf hdr 12 4 = bytes32 source_ip"
    "sub_buf hdr 16 4 = bytes32 dest_ip" "drop 8 dgram = payload"
    using assms(1) unfolding hdr dg
    by (simp_all add: len ip_header_def udp_datagram_def sub_buf_def bytes16_def bytes32_def)
  show ?thesis by (intro conjI r f s1 s2)
qed

theorem raw_packet_checksums_witness:
  "oc_sum (take 20 (udp_dhcp_packet (replicate 548 0) 0xC0A80101 67 0xC0A80102 68)) = 0xFFFF"
  using raw_packet_checksums 
    [where payload = "replicate 548 0" and source_ip = "0xC0A80101" and source_port = 67
       and dest_ip = "0xC0A80102" and dest_port = 68] by simp

end
