(* ===== verification/Dhcp_Arp.thy ===== *)
theory Dhcp_Arp
  imports Prelude
begin

text \<open>
  The test whether an address is in use: \<open>udhcpd-0.9.8/arpping.c\<close>. The answers of the operating system
  are data: whether the socket could be opened and the request be sent, and one event per turn of the
  waiting loop, which is the outcome of \<open>select\<close> and \<open>recv\<close> together with the seconds that passed in that
  turn. A list of events that ends before the timeout is a loop that is still waiting, \<^term>\<open>None\<close>.
\<close>

section \<open>The messages\<close>

text \<open>\<open>struct arpMsg\<close> is 60 bytes long; a received frame overwrites as much of it as it has.\<close>

definition sizeof_arpMsg :: nat where "sizeof_arpMsg = 60"

definition arp_request :: "u32 \<Rightarrow> u32 \<Rightarrow> u8 list \<Rightarrow> u8 list" where
  "arp_request yiaddr ip mac =
     replicate 6 0xff @ mac @ [0x08, 0x06] @ [0, 1] @ [0x08, 0x00] @ [6, 4] @ [0, 1]
     @ mac @ bytes32 ip @ replicate 6 0 @ bytes32 yiaddr @ replicate 18 0"

definition arp_reply_for :: "u8 list \<Rightarrow> u32 \<Rightarrow> u8 list \<Rightarrow> bool" where
  "arp_reply_for arp yiaddr mac \<longleftrightarrow>
     sub_buf arp 20 2 = [0, 2] \<and> sub_buf arp 32 6 = mac \<and> sub_buf arp 28 4 = bytes32 yiaddr"

section \<open>The answers of the operating system\<close>

text \<open>A failed \<open>select\<close> (interrupted or not), no data in time, or data and the result of \<open>recv\<close>.\<close>

datatype arp_select = Sel_error bool | Sel_timeout | Sel_ready "u8 list option"

record arp_env =
  arp_socket_ok :: bool
  arp_setsockopt_ok :: bool
  arp_sendto_ok :: bool
  arp_events :: "(arp_select \<times> int) list"

section \<open>The waiting loop\<close>

definition arp_recv :: "u8 list \<Rightarrow> u8 list option \<Rightarrow> u8 list" where
  "arp_recv arp r = (case r of None \<Rightarrow> arp | Some f \<Rightarrow> buf_write arp 0 (take sizeof_arpMsg f))"

fun arpping_loop :: "u32 \<Rightarrow> u8 list \<Rightarrow> u8 list \<Rightarrow> int \<Rightarrow> int \<Rightarrow> (arp_select \<times> int) list \<Rightarrow> int option" where
  "arpping_loop yiaddr mac arp rv timeout [] = (if timeout > 0 then None else Some rv)"
| "arpping_loop yiaddr mac arp rv timeout ((e, passed) # es) =
     (if timeout > 0 then
        case e of
          Sel_error eintr \<Rightarrow>
            arpping_loop yiaddr mac arp (if eintr then rv else 0) (timeout - passed) es
        | Sel_timeout \<Rightarrow> arpping_loop yiaddr mac arp rv (timeout - passed) es
        | Sel_ready r \<Rightarrow>
            if arp_reply_for (arp_recv arp r) yiaddr mac then Some 0
            else arpping_loop yiaddr mac (arp_recv arp r) (if r = None then 0 else rv)
                   (timeout - passed) es
      else Some rv)"

text \<open>The result, and the frame that is sent. The name of the interface is copied into the 14 bytes of
  \<open>sa_data\<close> with its end mark.\<close>

definition arpping :: "arp_env \<Rightarrow> u32 \<Rightarrow> u32 \<Rightarrow> u8 list \<Rightarrow> string \<Rightarrow> (int \<times> u8 list list) option" where
  "arpping env yiaddr ip mac interface =
     (if \<not> arp_socket_ok env then Some (-1, [])
      else if \<not> arp_setsockopt_ok env then Some (-1, [])
      else if length interface \<ge> 14 then None
      else let arp = arp_request yiaddr ip mac in
        map_option (\<lambda>rv. (rv, [arp]))
          (arpping_loop yiaddr mac arp (if arp_sendto_ok env then 1 else 0) 2 (arp_events env)))"

section \<open>What the result means\<close>

definition elapsed :: "(arp_select \<times> int) list \<Rightarrow> int" where
  "elapsed es = sum_list (map snd es)"

text \<open>An event that speaks against the address: a matching reply, or a failure while waiting.\<close>

fun conflict :: "u32 \<Rightarrow> u8 list \<Rightarrow> arp_select \<Rightarrow> bool" where
  "conflict yiaddr mac (Sel_error eintr) = (\<not> eintr)"
| "conflict yiaddr mac Sel_timeout = False"
| "conflict yiaddr mac (Sel_ready None) = True"
| "conflict yiaddr mac (Sel_ready (Some f)) = arp_reply_for f yiaddr mac"

text \<open>Frames that hold at least the fields of an ARP message.\<close>

fun whole_frame :: "arp_select \<Rightarrow> bool" where
  "whole_frame (Sel_ready (Some f)) = (42 \<le> length f)"
| "whole_frame _ = True"

lemma length_arp_request [simp]: "length mac = 6 \<Longrightarrow> length (arp_request yiaddr ip mac) = 60"
  by (simp add: arp_request_def)

lemma length_arp_recv [simp]: "length arp = 60 \<Longrightarrow> length (arp_recv arp r) = 60"
  by (auto simp: arp_recv_def sizeof_arpMsg_def length_buf_write split: option.split)

lemma sub_buf_recv:
  assumes "length arp = 60" "off + n \<le> length f" "off + n \<le> 60"
  shows "sub_buf (arp_recv arp (Some f)) off n = sub_buf f off n"
  using assms by (auto simp: arp_recv_def sizeof_arpMsg_def buf_write_def sub_buf_def drop_take min_def)

lemma reply_recv:
  "length arp = 60 \<Longrightarrow> 42 \<le> length f \<Longrightarrow> arp_reply_for (arp_recv arp (Some f)) y m = arp_reply_for f y m"
  by (simp add: arp_reply_for_def sub_buf_recv)

lemma arpping_loop_used: "arpping_loop y m arp 0 t es = Some r \<Longrightarrow> r = 0"
  by (induction es arbitrary: arp t) (auto split: if_splits arp_select.splits)

lemma arpping_loop_returns:
  "\<exists>k \<le> length es. t \<le> elapsed (take k es) \<Longrightarrow> \<exists>r. arpping_loop y m arp rv t es = Some r"
proof (induction es arbitrary: arp rv t)
  case Nil
  then show ?case by (simp add: elapsed_def)
next
  case (Cons e es)
  obtain ev d where e: "e = (ev, d)" by fastforce
  obtain k where k: "k \<le> Suc (length es)" "t \<le> elapsed (take k (e # es))" using Cons.prems by auto
  show ?case
  proof (cases k)
    case 0
    then show ?thesis using k by (simp add: e elapsed_def)
  next
    case (Suc j)
    then have "\<exists>j \<le> length es. t - d \<le> elapsed (take j es)"
      using k by (intro exI [of _ j]) (auto simp: e elapsed_def)
    from Cons.IH [OF this] show ?thesis by (auto simp: e split: arp_select.splits)
  qed
qed

lemma elapsed_Cons [simp]: "elapsed ((e, d) # es) = d + elapsed es"
  by (simp add: elapsed_def)

text \<open>With a clock that does not run backwards, the loop looks at exactly the events that happen before the
  timeout.\<close>

lemma arpping_loop_result:
  assumes "arpping_loop y m arp 1 t es = Some r" "length arp = 60" "list_all (whole_frame \<circ> fst) es"
  shows "r = (if \<exists>k < length es. (\<forall>j \<le> k. elapsed (take j es) < t) \<and> conflict y m (fst (es ! k)) then 0 else 1)"
  using assms
proof (induction es arbitrary: arp t)
  case Nil
  then show ?case by (auto split: if_splits)
next
  case (Cons e es)
  obtain ev d where e: "e = (ev, d)" by fastforce
  let ?P = "\<lambda>t es k. (\<forall>j \<le> k. elapsed (take j es) < t) \<and> conflict y m (fst (es ! k))"
  have shift: "(\<exists>k < Suc (length es). ?P t (e # es) k) \<longleftrightarrow>
      0 < t \<and> (conflict y m ev \<or> (\<exists>k < length es. ?P (t - d) es k))" (is "?L = ?R")
  proof
    assume ?L
    then obtain k where k: "k < Suc (length es)" "?P t (e # es) k" by blast
    from k(2) have "elapsed (take 0 (e # es)) < t" by blast
    then have t: "0 < t" by (simp add: elapsed_def)
    show ?R
    proof (cases k)
      case 0
      then show ?thesis using k t e by simp
    next
      case (Suc i)
      have "elapsed (take j es) < t - d" if "j \<le> i" for j
        using k(2) Suc that by (auto simp: e dest: spec [of _ "Suc j"])
      then show ?thesis using k Suc t by auto
    qed
  next
    assume R: ?R
    show ?L
    proof (cases "conflict y m ev")
      case True
      then show ?thesis using R e by (intro exI [of _ 0]) (simp add: elapsed_def)
    next
      case False
      then obtain k where k: "k < length es" "?P (t - d) es k" using R by blast
      have "elapsed (take j (e # es)) < t" if "j \<le> Suc k" for j
        using k(2) that R by (cases j) (auto simp: e elapsed_def)
      then show ?thesis using k by (intro exI [of _ "Suc k"]) simp
    qed
  qed
  show ?case
  proof (cases "0 < t")
    case False
    then show ?thesis using Cons.prems shift by (auto simp: e)
  next
    case t: True
    have IH: "r = (if \<exists>k < length es. ?P (t - d) es k then 0 else 1)"
      if "arpping_loop y m arp' 1 (t - d) es = Some r" "length arp' = 60" for arp'
      using Cons.IH [OF that] Cons.prems(3) by simp
    show ?thesis
    proof (cases ev)
      case (Sel_error eintr)
      then show ?thesis
        using Cons.prems t shift IH [of arp] by (cases eintr) (auto simp: e dest: arpping_loop_used)
    next
      case Sel_timeout
      then show ?thesis using Cons.prems t shift IH [of arp] by (auto simp: e)
    next
      case (Sel_ready x)
      show ?thesis
      proof (cases x)
        case None
        then show ?thesis
          using Cons.prems t shift Sel_ready by (auto simp: e dest: arpping_loop_used split: if_splits)
      next
        case (Some f)
        then have "arp_reply_for (arp_recv arp (Some f)) y m = arp_reply_for f y m"
          using reply_recv Cons.prems Sel_ready by (simp add: e)
        then show ?thesis
          using Cons.prems t shift Sel_ready Some IH [of "arp_recv arp (Some f)"]
          by (auto simp: e split: if_splits)
      qed
    qed
  qed
qed



end
