(* ===== verification/Net_Text.thy ===== *)
theory Net_Text
  imports Prelude
begin

text \<open>
  The text that the daemons print with the C library: decimal numbers, hexadecimal bytes and IPv4 addresses
  in dotted decimal form (\<open>inet_ntoa\<close>). Printing an address is injective, so a comparison of the strings is a
  comparison of the addresses.
\<close>

section \<open>Numbers\<close>

definition digit :: "nat \<Rightarrow> char" where "digit n = char_of (48 + n)"

fun dec :: "nat \<Rightarrow> string" where
  "dec n = (if n < 10 then [digit n] else dec (n div 10) @ [digit (n mod 10)])"

declare dec.simps [simp del]

definition undec :: "string \<Rightarrow> nat" where
  "undec cs = foldl (\<lambda>n c. 10 * n + (of_char c - 48)) 0 cs"

lemma of_char_digit [simp]: "n < 10 \<Longrightarrow> of_char (digit n) = 48 + n"
  by (simp add: digit_def)

lemma undec_dec [simp]: "undec (dec n) = n"
proof (induction n rule: dec.induct)
  case (1 n)
  then show ?case by (cases "n < 10") (simp_all add: dec.simps [of n] undec_def)
qed

lemma dec_inj [simp]: "dec m = dec n \<longleftrightarrow> m = n"
  by (metis undec_dec)

lemma digit_eq: "n < 10 \<Longrightarrow> digit n = c \<longleftrightarrow> 48 + n = of_char c"
  by (auto simp: digit_def)

lemma digit_no_dot: "n < 10 \<Longrightarrow> digit n \<noteq> CHR ''.''"
  by (simp add: digit_eq)

lemma dec_no_dot: "CHR ''.'' \<notin> set (dec n)"
proof (induction n rule: dec.induct)
  case (1 n)
  then show ?case
    using digit_no_dot [of n] digit_no_dot [of "n mod 10"] by (cases "n < 10") (auto simp: dec.simps [of n])
qed

text \<open>\<open>%02X\<close> of a byte.\<close>

definition hexdigit :: "nat \<Rightarrow> char" where
  "hexdigit n = char_of (if n < 10 then 48 + n else 55 + n)"

definition hex2 :: "u8 \<Rightarrow> string" where
  "hex2 b = [hexdigit (unat b div 16), hexdigit (unat b mod 16)]"

text \<open>Six bytes with colons between them.\<close>

definition mac_text :: "u8 list \<Rightarrow> string" where
  "mac_text a = hex2 (a ! 0) @ '':'' @ hex2 (a ! 1) @ '':'' @ hex2 (a ! 2) @ '':'' @ hex2 (a ! 3) @ '':''
     @ hex2 (a ! 4) @ '':'' @ hex2 (a ! 5)"

section \<open>Addresses\<close>

definition dotted :: "nat \<Rightarrow> nat \<Rightarrow> nat \<Rightarrow> nat \<Rightarrow> string" where
  "dotted a b c d = dec a @ ''.'' @ dec b @ ''.'' @ dec c @ ''.'' @ dec d"

definition inet_ntoa :: "u32 \<Rightarrow> string" where
  "inet_ntoa w = (let b = map unat (bytes32 w) in dotted (b ! 0) (b ! 1) (b ! 2) (b ! 3))"

lemma append_sep_eq:
  "c \<notin> set xs \<Longrightarrow> c \<notin> set ys \<Longrightarrow> xs @ c # zs = ys @ c # zs' \<longleftrightarrow> xs = ys \<and> zs = zs'"
proof (induction xs arbitrary: ys)
  case Nil
  then show ?case by (cases ys) auto
next
  case (Cons x xs)
  then show ?case by (cases ys) auto
qed

lemma dotted_inj [simp]:
  "dotted a b c d = dotted a' b' c' d' \<longleftrightarrow> a = a' \<and> b = b' \<and> c = c' \<and> d = d'"
  by (simp add: dotted_def append_sep_eq dec_no_dot)

lemma bytes32_inj [simp]: "bytes32 v = bytes32 w \<longleftrightarrow> v = w"
proof
  assume e: "bytes32 v = bytes32 w"
  have "mk32 (bytes32 x ! 0) (bytes32 x ! 1) (bytes32 x ! 2) (bytes32 x ! 3) = x" for x
    unfolding bytes32_def by simp
  with e show "v = w" by metis
qed simp

lemma inet_ntoa_inj [simp]: "inet_ntoa v = inet_ntoa w \<longleftrightarrow> v = w"
proof
  assume "inet_ntoa v = inet_ntoa w"
  then have "map unat (bytes32 v) = map unat (bytes32 w)"
    by (intro nth_equalityI) (auto simp: inet_ntoa_def Let_def less_Suc_eq numeral_eq_Suc)
  then have "bytes32 v = bytes32 w" by (rule map_injective) (auto intro: injI simp: word_unat_eq_iff)
  then show "v = w" by simp
qed simp

text \<open>The test for the empty address compares the first seven characters only, which is enough.\<close>

definition Empty_IP_Addr :: string where "Empty_IP_Addr = ''0.0.0.0''"

lemma dec_length_bound: "n < 10 ^ k \<Longrightarrow> 0 < k \<Longrightarrow> length (dec n) \<le> k"
proof (induction n arbitrary: k rule: dec.induct)
  case (1 n)
  show ?case
  proof (cases "n < 10")
    case True
    then show ?thesis using 1 by (simp add: dec.simps)
  next
    case False
    obtain j where j: "k = Suc j" using "1.prems"(2) gr0_implies_Suc by blast
    then have k: "k = Suc j" "0 < j" using False "1.prems"(1) by (cases j; simp)+
    have "length (dec (n div 10)) \<le> j" using 1(1) [OF _ _ k(2)] False "1.prems" k by (auto simp: dec.simps)
    then show ?thesis using False k by (subst dec.simps) simp
  qed
qed

lemma dec_length: "length (dec n) \<ge> 1"
  by (subst dec.simps) simp

lemma dec_0: "dec 0 = ''0''"
  by (simp add: dec.simps digit_eq)

lemma dec_head_0: "hd (dec n) = CHR ''0'' \<longleftrightarrow> n = 0"
proof (induction n rule: dec.induct)
  case (1 n)
  show ?case
  proof (cases "n < 10")
    case True
    then show ?thesis by (simp add: dec.simps [of n] digit_eq)
  next
    case False
    then show ?thesis using 1 dec_length [of "n div 10"]
      by (simp add: dec.simps [of n] hd_append) auto
  qed
qed

lemma dec_Cons_0: "dec n @ r = CHR ''0'' # r' \<longleftrightarrow> n = 0 \<and> r = r'"
proof -
  obtain x xs where x: "dec n = x # xs" using dec_length [of n] by (cases "dec n") auto
  show ?thesis using dec_head_0 [of n] dec_0 x by (cases "n = 0") auto
qed

lemma take_dec_0: "take (Suc k) (dec n @ r) = CHR ''0'' # r' \<longleftrightarrow> n = 0 \<and> take k r = r'"
proof -
  obtain x xs where x: "dec n = x # xs" using dec_length [of n] by (cases "dec n") auto
  show ?thesis using dec_head_0 [of n] dec_0 x by (cases "n = 0") auto
qed

lemma inet_ntoa_empty: "take 7 (inet_ntoa w) = Empty_IP_Addr \<longleftrightarrow> w = 0"
proof
  assume "take 7 (inet_ntoa w) = Empty_IP_Addr"
  then have "\<forall>i < 4. unat (bytes32 w ! i) = 0"
    using take_dec_0 [where r = "[]"]
    by (auto simp: inet_ntoa_def Let_def dotted_def Empty_IP_Addr_def take_dec_0 numeral_eq_Suc less_Suc_eq
        simp del: take_append)
  then have "\<forall>i < 4. bytes32 w ! i = 0" by (simp add: unat_eq_zero)
  then have "bytes32 w = replicate 4 0" by (intro nth_equalityI) simp_all
  also have "\<dots> = bytes32 0" by (simp add: bytes32_def numeral_eq_Suc)
  finally show "w = 0" by simp
next
  assume "w = 0"
  then show "take 7 (inet_ntoa w) = Empty_IP_Addr"
    by (simp add: inet_ntoa_def bytes32_def dotted_def dec_0 Empty_IP_Addr_def)
qed

end
