(* ===== verification/Dhcp_Leases.thy ===== *)
theory Dhcp_Leases
  imports Dhcp_Packet Dhcp_Arp Net_Text
begin

text \<open>
  The lease table of the DHCP server: \<open>udhcpd-0.9.8/leases.c\<close> with the macros of
  \<open>gemtek_added_SRC/gemtek_jimmy_added_004.h\<close>. The global variables of the server are one record; a pointer
  into the table is an index. The answers of the operating system (\<open>sysinfo\<close>, the ARP test, sending) are
  functions from the number of the call to the answer, what the server does outside is appended to \<open>d_out\<close>.
  A loop over \<open>max_leases\<close> entries that leaves the allocated table is \<^term>\<open>None\<close>.
\<close>

section \<open>State\<close>

record dhcpOfferedAddr =
  l_chaddr :: "u8 list"
  l_yiaddr :: u32
  l_expires :: u32
  l_hostname :: "u8 list"

record server_config_t =
  sc_server :: u32
  sc_start :: u32
  sc_end :: u32
  sc_options :: "u8 list list"
  sc_interface :: string
  sc_ifindex :: u32
  sc_arp :: "u8 list"
  sc_lease :: u32
  sc_max_leases :: u32
  sc_remaining :: bool
  sc_auto_time :: u32
  sc_decline_time :: u32
  sc_conflict_time :: u32
  sc_offer_time :: u32
  sc_min_lease :: u32
  sc_lease_file :: string
  sc_pidfile :: string
  sc_notify_file :: "string option"
  sc_siaddr :: u32
  sc_sname :: "string option"
  sc_boot_file :: "string option"

record dhcpd =
  leases :: "dhcpOfferedAddr list"
  server_config :: server_config_t
  vizio_device :: bool
  os_uptime :: "nat \<Rightarrow> u32"
  n_uptime :: nat
  os_arp :: "nat \<Rightarrow> arp_env"
  n_arp :: nat
  os_send :: "nat \<Rightarrow> send_env"
  n_send :: nat
  os_nvram :: "string \<Rightarrow> string option"
  os_logfile_ok :: bool
  d_out :: "dhcp_out list"

definition blank_chaddr :: "u8 list" where "blank_chaddr = replicate 16 0"

definition blank_lease :: dhcpOfferedAddr where
  "blank_lease = \<lparr>l_chaddr = blank_chaddr, l_yiaddr = 0, l_expires = 0, l_hostname = replicate 64 0\<rparr>"

definition sys_time :: "dhcpd \<Rightarrow> u32 \<times> dhcpd" where
  "sys_time s = (os_uptime s (n_uptime s), s\<lparr>n_uptime := Suc (n_uptime s)\<rparr>)"

definition system_cmd :: "string \<Rightarrow> dhcpd \<Rightarrow> dhcpd" where
  "system_cmd c s = s\<lparr>d_out := d_out s @ [Shell c]\<rparr>"

definition nvram_safe_get :: "string \<Rightarrow> dhcpd \<Rightarrow> string" where
  "nvram_safe_get name s = (case os_nvram s name of None \<Rightarrow> '''' | Some v \<Rightarrow> v)"

definition max_leases :: "dhcpd \<Rightarrow> nat" where
  "max_leases s = unat (sc_max_leases (server_config s))"

section \<open>Operations\<close>

definition clears :: "u8 list \<Rightarrow> u32 \<Rightarrow> dhcpOfferedAddr \<Rightarrow> bool" where
  "clears chaddr yiaddr l \<longleftrightarrow>
     (chaddr \<noteq> blank_chaddr \<and> l_chaddr l = chaddr) \<or> (yiaddr \<noteq> 0 \<and> l_yiaddr l = yiaddr)"

definition clear_lease :: "u8 list \<Rightarrow> u32 \<Rightarrow> dhcpd \<Rightarrow> dhcpd option" where
  "clear_lease chaddr yiaddr s =
     (if max_leases s > length (leases s) then None
      else let ls = map (\<lambda>l. if clears chaddr yiaddr l then blank_lease else l)
                      (take (max_leases s) (leases s)) @ drop (max_leases s) (leases s);
               s1 = system_cmd (''/bin/iptables -t filter -D LAN_FLOOD -i br0 -o vlan2 -s '' @ inet_ntoa yiaddr
                      @ '' -p udp -j ExecutingAllUDPFlood'') (s\<lparr>leases := ls\<rparr>)
           in Some (system_cmd (''/bin/iptables -t filter -D LAN_FLOOD -i br0 -o vlan2 -s '' @ inet_ntoa yiaddr
                      @ '' -p tcp --tcp-flags SYN SYN -j ExecutingAllUDPFlood'') s1))"

fun oldest_scan :: "u32 \<Rightarrow> nat option \<Rightarrow> nat \<Rightarrow> dhcpOfferedAddr list \<Rightarrow> nat option" where
  "oldest_scan oldest_lease oldest i [] = oldest"
| "oldest_scan oldest_lease oldest i (l # ls) =
     (if oldest_lease > l_expires l then oldest_scan (l_expires l) (Some i) (Suc i) ls
      else oldest_scan oldest_lease oldest (Suc i) ls)"

definition oldest_expired_lease :: "dhcpd \<Rightarrow> (nat option \<times> dhcpd) option" where
  "oldest_expired_lease s =
     (let (t, s1) = sys_time s in
      if max_leases s1 > length (leases s1) then None
      else Some (oldest_scan t None 0 (take (max_leases s1) (leases s1)), s1))"

definition flood_rules :: "u32 \<Rightarrow> dhcpd \<Rightarrow> dhcpd" where
  "flood_rules yiaddr s =
     (let rule = (\<lambda>act rest. ''/bin/iptables -t filter -'' @ act @ '' LAN_FLOOD -i br0 -s ''
                    @ inet_ntoa yiaddr @ rest);
          udp = '' -p udp -j ExecutingAllUDPFlood'';
          tcp = '' -p tcp --dport ! 80 --tcp-flags SYN SYN -j ExecutingAllUDPFlood''
      in system_cmd (rule ''A'' tcp) (system_cmd (rule ''A'' udp)
           (system_cmd (rule ''D'' tcp) (system_cmd (rule ''D'' udp) s))))"

definition qos_add_device :: "u8 list \<Rightarrow> u32 \<Rightarrow> dhcpd \<Rightarrow> dhcpd" where
  "qos_add_device chaddr yiaddr s =
     (if vizio_device s
      then (system_cmd (''/bin/vizio_qos add_device vizio_device '' @ inet_ntoa yiaddr @ '' &'' @ [CHR 0x0A]) s)
             \<lparr>vizio_device := False\<rparr>
      else system_cmd (''/bin/vizio_qos add_device '' @ mac_text chaddr @ '' '' @ inet_ntoa yiaddr @ '' &''
             @ [CHR 0x0A]) s)"

definition add_lease :: "u8 list \<Rightarrow> u32 \<Rightarrow> u32 \<Rightarrow> dhcpd \<Rightarrow> (nat option \<times> dhcpd) option" where
  "add_lease chaddr yiaddr lease s =
     (if take 7 (inet_ntoa yiaddr) = Empty_IP_Addr then Some (None, s)
      else do {
        s1 \<leftarrow> clear_lease chaddr yiaddr s;
        (oldest, s2) \<leftarrow> oldest_expired_lease s1;
        let s3 = (case oldest of
                    None \<Rightarrow> s2
                  | Some i \<Rightarrow>
                      let (t, s') = sys_time s2 in
                      s'\<lparr>leases := (leases s')[i := (leases s' ! i)
                           \<lparr>l_chaddr := chaddr, l_yiaddr := yiaddr, l_expires := t + lease\<rparr>]\<rparr>);
        Some (oldest, qos_add_device chaddr yiaddr (flood_rules yiaddr s3)) })"

definition lease_expired :: "nat \<Rightarrow> dhcpd \<Rightarrow> bool \<times> dhcpd" where
  "lease_expired i s = (let (t, s1) = sys_time s in (l_expires (leases s ! i) < t, s1))"

text \<open>The first of \<open>n\<close> entries with a property, behind the end of the table \<^term>\<open>None\<close>.\<close>

fun scan :: "('a \<Rightarrow> bool) \<Rightarrow> nat \<Rightarrow> 'a list \<Rightarrow> nat option option" where
  "scan P 0 ls = Some None"
| "scan P (Suc n) [] = None"
| "scan P (Suc n) (l # ls) =
     (if P l then Some (Some 0) else map_option (map_option Suc) (scan P n ls))"

definition find_lease_by_yiaddr :: "u32 \<Rightarrow> dhcpd \<Rightarrow> nat option option" where
  "find_lease_by_yiaddr yiaddr s = scan (\<lambda>l. l_yiaddr l = yiaddr) (max_leases s) (leases s)"

definition IsLanIPAddr :: "u32 \<Rightarrow> dhcpd \<Rightarrow> (bool \<times> dhcpd) option" where
  "IsLanIPAddr addr s =
     (if nvram_safe_get ''lan_ipaddr'' s = inet_ntoa addr
      then do { (r, s1) \<leftarrow> add_lease blank_chaddr addr (sc_conflict_time (server_config s)) s; Some (True, s1) }
      else Some (False, s))"

definition check_ip :: "u32 \<Rightarrow> dhcpd \<Rightarrow> (bool \<times> dhcpd) option" where
  "check_ip addr s =
     do { (lan, s1) \<leftarrow> IsLanIPAddr addr s;
          if lan then
            do { (r, s2) \<leftarrow> add_lease blank_chaddr addr (sc_conflict_time (server_config s1)) s1; Some (True, s2) }
          else
            do { (rv, sent) \<leftarrow> arpping (os_arp s1 (n_arp s1)) addr (sc_server (server_config s1))
                                (sc_arp (server_config s1)) (sc_interface (server_config s1));
                 let s2 = s1\<lparr>n_arp := Suc (n_arp s1), d_out := d_out s1 @ map Arp_request sent\<rparr>;
                 if rv = 0 then
                   do { (r, s3) \<leftarrow> add_lease blank_chaddr addr (sc_conflict_time (server_config s2)) s2;
                        Some (True, s3) }
                 else Some (False, s2) } }"

text \<open>The loop of \<open>find_address\<close>, from \<open>addr\<close> on; it does not end when the range ends with the last address
  of all.\<close>

partial_function (option) find_address_loop :: "bool \<Rightarrow> u32 \<Rightarrow> dhcpd \<Rightarrow> (u32 \<times> dhcpd) option" where
  "find_address_loop check_expired addr s =
     (if addr > sc_end (server_config s) then Some (0, s)
      else if addr AND 0xFF = 0 then find_address_loop check_expired (addr + 1) s
      else if addr AND 0xFF = 0xFF then find_address_loop check_expired (addr + 1) s
      else Option.bind (IsLanIPAddr addr s) (\<lambda>(lan, s1).
        if lan then find_address_loop check_expired (addr + 1) s1
        else Option.bind (find_lease_by_yiaddr addr s1) (\<lambda>lease.
          let (free, s2) = (case lease of
                              None \<Rightarrow> (True, s1)
                            | Some i \<Rightarrow> if check_expired then lease_expired i s1 else (False, s1))
          in if free then Option.bind (check_ip addr s2) (\<lambda>(taken, s3).
               if taken then find_address_loop check_expired (addr + 1) s3 else Some (addr, s3))
             else find_address_loop check_expired (addr + 1) s2)))"

definition find_address :: "bool \<Rightarrow> dhcpd \<Rightarrow> (u32 \<times> dhcpd) option" where
  "find_address check_expired s = find_address_loop check_expired (sc_start (server_config s)) s"

definition find_lease_by_chaddr :: "u8 list \<Rightarrow> dhcpd \<Rightarrow> (nat option \<times> dhcpd) option" where
  "find_lease_by_chaddr chaddr s =
     do { r \<leftarrow> scan (\<lambda>l. take 6 (l_chaddr l) = take 6 chaddr) (max_leases s) (leases s);
          case r of
            None \<Rightarrow> Some (None, s)
          | Some i \<Rightarrow>
              do { (lan, s1) \<leftarrow> IsLanIPAddr (l_yiaddr (leases s ! i)) s;
                   Some (if lan then None else Some i, s1) } }"

text \<open>The mask that \<open>inet_aton\<close> reads from the setting \<open>lan_netmask\<close> is an argument.\<close>

definition move_lease :: "u32 \<Rightarrow> u32 \<Rightarrow> dhcpOfferedAddr \<Rightarrow> dhcpOfferedAddr" where
  "move_lease svr_ip svr_mask l =
     (if l_yiaddr l \<noteq> 0 then l\<lparr>l_yiaddr := svr_ip OR (l_yiaddr l AND NOT svr_mask)\<rparr> else l)"

definition update_lease_by_new_ip :: "u32 \<Rightarrow> dhcpd \<Rightarrow> dhcpd option" where
  "update_lease_by_new_ip svr_mask s =
     (if max_leases s > length (leases s) then None
      else let svr_ip = sc_server (server_config s) AND svr_mask in
        Some (s\<lparr>leases := map (move_lease svr_ip svr_mask) (take (max_leases s) (leases s))
                @ drop (max_leases s) (leases s)\<rparr>))"

section \<open>The table\<close>

definition lease_ok :: "dhcpOfferedAddr \<Rightarrow> bool" where
  "lease_ok l \<longleftrightarrow> length (l_chaddr l) = 16 \<and> length (l_hostname l) = 64"

text \<open>No address and no client occurs twice; empty entries have address 0, reserved ones no client.\<close>

definition table_ok :: "dhcpOfferedAddr list \<Rightarrow> bool" where
  "table_ok ls \<longleftrightarrow> list_all lease_ok ls
     \<and> (\<forall>i < length ls. \<forall>j < length ls. i \<noteq> j \<longrightarrow>
          (l_yiaddr (ls ! i) \<noteq> 0 \<longrightarrow> l_yiaddr (ls ! i) \<noteq> l_yiaddr (ls ! j))
          \<and> (l_chaddr (ls ! i) \<noteq> blank_chaddr \<longrightarrow> l_chaddr (ls ! i) \<noteq> l_chaddr (ls ! j)))"

definition dhcpd_ok :: "dhcpd \<Rightarrow> bool" where
  "dhcpd_ok s \<longleftrightarrow> table_ok (leases s) \<and> max_leases s = length (leases s)"

text \<open>What no operation on the table changes.\<close>

definition same_conf :: "dhcpd \<Rightarrow> dhcpd \<Rightarrow> bool" where
  "same_conf s s' \<longleftrightarrow> server_config s' = server_config s \<and> os_uptime s' = os_uptime s
     \<and> os_arp s' = os_arp s \<and> os_send s' = os_send s \<and> os_nvram s' = os_nvram s
     \<and> os_logfile_ok s' = os_logfile_ok s \<and> n_uptime s \<le> n_uptime s' \<and> n_arp s \<le> n_arp s'
     \<and> length (leases s') = length (leases s)"

text \<open>The replies sent so far, and operations that send none.\<close>

definition replies :: "dhcpd \<Rightarrow> dhcpMessage list" where
  "replies s = List.map_filter out_message (d_out s)"

definition same_env :: "dhcpd \<Rightarrow> dhcpd \<Rightarrow> bool" where
  "same_env s s' \<longleftrightarrow> same_conf s s' \<and> replies s' = replies s"

lemma same_conf_refl [simp]: "same_conf s s"
  by (simp add: same_conf_def)

lemma same_conf_trans [trans]: "same_conf s s' \<Longrightarrow> same_conf s' s'' \<Longrightarrow> same_conf s s''"
  by (auto simp: same_conf_def)

lemma same_env_conf: "same_env s s' \<Longrightarrow> same_conf s s'"
  by (simp add: same_env_def)

lemma replies_cong: "d_out s' = d_out s \<Longrightarrow> replies s' = replies s"
  by (simp add: replies_def)

lemma replies_upd [simp]:
  "replies (s\<lparr>leases := ls\<rparr>) = replies s" "replies (s\<lparr>n_uptime := k\<rparr>) = replies s"
  "replies (s\<lparr>vizio_device := v\<rparr>) = replies s" "replies (s\<lparr>n_arp := k\<rparr>) = replies s"
  "replies (s\<lparr>n_send := k\<rparr>) = replies s"
  "replies (s\<lparr>d_out := ms\<rparr>) = List.map_filter out_message ms"
  by (simp_all add: replies_def)

lemma map_filter_d_out [simp]:
  "List.map_filter out_message (d_out s @ ms) = replies s @ List.map_filter out_message ms"
  "List.map_filter out_message (d_out s) = replies s"
  by (simp_all add: replies_def List.map_filter_def)

lemma no_replies [simp]: "List.map_filter out_message (map Arp_request fs) = []"
  by (induction fs) (simp_all add: List.map_filter_simps)

lemma same_env_refl [simp]: "same_env s s"
  by (simp add: same_env_def same_conf_def)

lemma same_env_trans [trans]: "same_env s s' \<Longrightarrow> same_env s' s'' \<Longrightarrow> same_env s s''"
  by (auto simp: same_env_def same_conf_def)

lemma same_env_config: "same_env s s' \<Longrightarrow> server_config s' = server_config s"
  by (simp add: same_env_def same_conf_def)

lemma nvram_same_env: "same_env s s' \<Longrightarrow> nvram_safe_get n s' = nvram_safe_get n s"
  by (simp add: same_env_def same_conf_def nvram_safe_get_def)

definition cleared :: "u8 list \<Rightarrow> u32 \<Rightarrow> dhcpOfferedAddr list \<Rightarrow> dhcpOfferedAddr list" where
  "cleared c y ls = map (\<lambda>l. if clears c y l then blank_lease else l) ls"

lemma length_cleared [simp]: "length (cleared c y ls) = length ls"
  by (simp add: cleared_def)

lemma nth_cleared: "i < length ls \<Longrightarrow> cleared c y ls ! i = (if clears c y (ls ! i) then blank_lease else ls ! i)"
  by (simp add: cleared_def)

lemma blank_lease_simps [simp]:
  "l_chaddr blank_lease = blank_chaddr" "l_yiaddr blank_lease = 0" "l_expires blank_lease = 0"
  "lease_ok blank_lease"
  by (simp_all add: blank_lease_def lease_ok_def blank_chaddr_def)

lemma length_blank_chaddr [simp]: "length blank_chaddr = 16"
  by (simp add: blank_chaddr_def)

lemma table_ok_nth: "table_ok ls \<Longrightarrow> i < length ls \<Longrightarrow> lease_ok (ls ! i)"
  by (simp add: table_ok_def list_all_length)

lemma table_okD:
  assumes "table_ok ls" "i < length ls" "j < length ls"
  shows "l_yiaddr (ls ! i) = l_yiaddr (ls ! j) \<Longrightarrow> l_yiaddr (ls ! i) \<noteq> 0 \<Longrightarrow> i = j"
    "l_chaddr (ls ! i) = l_chaddr (ls ! j) \<Longrightarrow> l_chaddr (ls ! i) \<noteq> blank_chaddr \<Longrightarrow> i = j"
  using assms unfolding table_ok_def by metis+

lemma table_ok_cleared: "table_ok ls \<Longrightarrow> table_ok (cleared c y ls)"
  by (auto simp: table_ok_def list_all_length nth_cleared)

text \<open>After clearing, the address and the client are free, so an entry for them can be written anywhere.\<close>

lemma cleared_free:
  assumes "i < length ls"
  shows "y \<noteq> 0 \<Longrightarrow> l_yiaddr (cleared c y ls ! i) \<noteq> y"
    "c \<noteq> blank_chaddr \<Longrightarrow> l_chaddr (cleared c y ls ! i) \<noteq> c"
  using assms by (auto simp: nth_cleared clears_def)

lemma table_ok_put:
  assumes "table_ok ls" "lease_ok l" "i < length ls"
    and "\<And>j. j < length ls \<Longrightarrow> l_yiaddr l \<noteq> 0 \<Longrightarrow> l_yiaddr (ls ! j) \<noteq> l_yiaddr l"
    and "\<And>j. j < length ls \<Longrightarrow> l_chaddr l \<noteq> blank_chaddr \<Longrightarrow> l_chaddr (ls ! j) \<noteq> l_chaddr l"
  shows "table_ok (ls[i := l])"
  unfolding table_ok_def
proof (intro conjI allI impI)
  show "list_all lease_ok (ls[i := l])"
    using assms(1,2) by (auto simp: table_ok_def list_all_iff dest!: set_update_subset_insert [THEN subsetD])
next
  fix j k
  assume jk: "j < length (ls[i := l])" "k < length (ls[i := l])" "j \<noteq> k"
  show "l_yiaddr (ls[i := l] ! j) \<noteq> l_yiaddr (ls[i := l] ! k)" if "l_yiaddr (ls[i := l] ! j) \<noteq> 0"
    using jk that table_okD(1) [OF assms(1)] assms(4) [of j] assms(4) [of k]
    by (auto simp: nth_upd split: if_splits)
  show "l_chaddr (ls[i := l] ! j) \<noteq> l_chaddr (ls[i := l] ! k)" if "l_chaddr (ls[i := l] ! j) \<noteq> blank_chaddr"
    using jk that table_okD(2) [OF assms(1)] assms(5) [of j] assms(5) [of k]
    by (auto simp: nth_upd split: if_splits)
qed

lemma oldest_scan_spec:
  "(oldest_scan t o1 k ls = o1 \<and> (\<forall>l \<in> set ls. t \<le> l_expires l)) \<or>
   (\<exists>i < length ls. oldest_scan t o1 k ls = Some (k + i) \<and> l_expires (ls ! i) < t
      \<and> (\<forall>l \<in> set ls. l_expires (ls ! i) \<le> l_expires l))"
proof (induction ls arbitrary: t o1 k)
  case (Cons l ls)
  show ?case
  proof (cases "t > l_expires l")
    case True
    from Cons.IH [of "l_expires l" "Some k" "Suc k"] show ?thesis
    proof (elim disjE exE conjE)
      assume "oldest_scan (l_expires l) (Some k) (Suc k) ls = Some k" "\<forall>x \<in> set ls. l_expires l \<le> l_expires x"
      then show ?thesis using True by (intro disjI2 exI [of _ 0]) simp
    next
      fix i
      assume i: "i < length ls" "oldest_scan (l_expires l) (Some k) (Suc k) ls = Some (Suc k + i)"
        "l_expires (ls ! i) < l_expires l" "\<forall>x \<in> set ls. l_expires (ls ! i) \<le> l_expires x"
      then have "l_expires (ls ! i) < t" using True by (metis order.strict_trans)
      with i True show ?thesis by (intro disjI2 exI [of _ "Suc i"]) auto
    qed
  next
    case False
    then have le: "t \<le> l_expires l" by simp
    from Cons.IH [of t o1 "Suc k"] show ?thesis
    proof (elim disjE exE conjE)
      fix i
      assume i: "i < length ls" "oldest_scan t o1 (Suc k) ls = Some (Suc k + i)"
        "l_expires (ls ! i) < t" "\<forall>x \<in> set ls. l_expires (ls ! i) \<le> l_expires x"
      then have "l_expires (ls ! i) \<le> l_expires l" using le by (metis order.strict_trans2 order.strict_implies_order)
      with i False show ?thesis by (intro disjI2 exI [of _ "Suc i"]) auto
    qed (use False in auto)
  qed
qed simp

text \<open>The first entry that was never used is taken, when the others have a time.\<close>

lemma oldest_scan_keep: "oldest_scan 0 o1 k ls = o1"
  by (induction ls arbitrary: k) auto

lemma oldest_scan_blank:
  "\<forall>x \<in> set ls. l_expires x \<noteq> 0 \<Longrightarrow> 0 < t \<Longrightarrow> l_expires l = 0 \<Longrightarrow>
   oldest_scan t o1 k (ls @ l # rest) = Some (k + length ls)"
  by (induction ls arbitrary: t o1 k) (auto simp: oldest_scan_keep word_gt_0)

section \<open>What \<open>add_lease\<close> does\<close>

definition new_lease :: "u8 list \<Rightarrow> u32 \<Rightarrow> u32 \<Rightarrow> dhcpOfferedAddr \<Rightarrow> dhcpOfferedAddr" where
  "new_lease c y e l = l\<lparr>l_chaddr := c, l_yiaddr := y, l_expires := e\<rparr>"

lemma new_lease_simps [simp]:
  "l_chaddr (new_lease c y e l) = c" "l_yiaddr (new_lease c y e l) = y" "l_expires (new_lease c y e l) = e"
  "l_hostname (new_lease c y e l) = l_hostname l"
  by (simp_all add: new_lease_def)

lemma system_cmd_simps [simp]:
  "leases (system_cmd c s) = leases s" "server_config (system_cmd c s) = server_config s"
  "max_leases (system_cmd c s) = max_leases s"
  "n_uptime (system_cmd c s) = n_uptime s" "os_uptime (system_cmd c s) = os_uptime s"
  "same_env s0 (system_cmd c s) = same_env s0 s"
  by (simp_all add: system_cmd_def max_leases_def same_env_def same_conf_def)

lemma leases_frame [simp]:
  "same_env s (s\<lparr>leases := ls\<rparr>) \<longleftrightarrow> length ls = length (leases s)"
  "max_leases (s\<lparr>leases := ls\<rparr>) = max_leases s"
  by (auto simp: same_env_def same_conf_def max_leases_def)

lemma out_frame [simp]:
  "leases (qos_add_device c y (flood_rules y' s)) = leases s"
  "server_config (qos_add_device c y (flood_rules y' s)) = server_config s"
  "max_leases (qos_add_device c y (flood_rules y' s)) = max_leases s"
  "n_uptime (qos_add_device c y (flood_rules y' s)) = n_uptime s"
  "os_uptime (qos_add_device c y (flood_rules y' s)) = os_uptime s"
  "same_env s0 (qos_add_device c y (flood_rules y' s)) = same_env s0 s"
  by (simp_all add: qos_add_device_def flood_rules_def Let_def system_cmd_def same_env_def same_conf_def max_leases_def)

text \<open>The time that \<open>add_lease\<close> sees when it looks for an expired entry, and when it sets the new expiry.\<close>

abbreviation now :: "dhcpd \<Rightarrow> u32" where "now s \<equiv> os_uptime s (n_uptime s)"
abbreviation now1 :: "dhcpd \<Rightarrow> u32" where "now1 s \<equiv> os_uptime s (Suc (n_uptime s))"

lemma add_lease_0 [simp]: "add_lease c 0 d s = Some (None, s)"
  using inet_ntoa_empty [of 0] by (simp add: add_lease_def)

lemma add_lease_eq:
  assumes ok: "max_leases s = length (leases s)" and y: "y \<noteq> 0"
    and r: "r = oldest_scan (now s) None 0 (cleared c y (leases s))"
  obtains s' where "add_lease c y d s = Some (r, s')" "same_env s s'" "max_leases s' = max_leases s"
    "leases s' = (case r of None \<Rightarrow> cleared c y (leases s)
       | Some i \<Rightarrow> (cleared c y (leases s))[i := new_lease c y (now1 s + d) (cleared c y (leases s) ! i)])"
    "n_uptime s' = (case r of None \<Rightarrow> Suc (n_uptime s) | Some i \<Rightarrow> Suc (Suc (n_uptime s)))"
proof -
  have e: "take 7 (inet_ntoa y) \<noteq> Empty_IP_Addr" using y by (simp add: inet_ntoa_empty)
  obtain s1 where s1: "clear_lease c y s = Some s1" "leases s1 = cleared c y (leases s)" "same_env s s1"
    "n_uptime s1 = n_uptime s" "os_uptime s1 = os_uptime s" "max_leases s1 = max_leases s"
    using ok by (auto simp: clear_lease_def Let_def cleared_def)
  let ?s2 = "s1\<lparr>n_uptime := Suc (n_uptime s1)\<rparr>"
  have m: "max_leases ?s2 = max_leases s" using s1(6) by (simp add: max_leases_def)
  have e2: "same_env s ?s2" using s1(3,4) by (auto simp: same_env_def same_conf_def)
  have o2: "oldest_expired_lease s1 = Some (r, ?s2)"
    using s1 m ok r by (simp add: oldest_expired_lease_def sys_time_def)
  show ?thesis
  proof (cases r)
    case None
    show ?thesis
      by (rule that [of "qos_add_device c y (flood_rules y ?s2)"])
        (use None e s1 o2 m e2 in \<open>simp_all add: add_lease_def\<close>)
  next
    case (Some i)
    let ?s3 = "?s2\<lparr>n_uptime := Suc (n_uptime ?s2), leases := (leases ?s2)[i := new_lease c y (now1 s + d) (leases ?s2 ! i)]\<rparr>"
    have "same_env s ?s3" using e2 by (auto simp: same_env_def same_conf_def)
    then show ?thesis
      by (intro that [of "qos_add_device c y (flood_rules y ?s3)"])
        (use Some e s1 o2 m in \<open>simp_all add: add_lease_def sys_time_def new_lease_def max_leases_def\<close>)
  qed
qed

lemma lease_ok_new [simp]: "length c = 16 \<Longrightarrow> lease_ok (new_lease c y e l) \<longleftrightarrow> length (l_hostname l) = 64"
  by (simp add: lease_ok_def)

text \<open>The abstract table: the client and the expiry of each address.\<close>

definition lease_map :: "dhcpOfferedAddr list \<Rightarrow> u32 \<Rightarrow> (u8 list \<times> u32) option" where
  "lease_map ls y =
     (if y = 0 then None
      else map_option (\<lambda>l. (l_chaddr l, l_expires l)) (find (\<lambda>l. l_yiaddr l = y) ls))"

lemma lease_map_nth:
  assumes "table_ok ls" "i < length ls" "l_yiaddr (ls ! i) = y" "y \<noteq> 0"
  shows "lease_map ls y = Some (l_chaddr (ls ! i), l_expires (ls ! i))"
proof -
  have "l_yiaddr (ls ! j) \<noteq> y" if "j < i" for j
    using table_okD(1) [OF assms(1,2), of j] assms that by auto
  then have "find (\<lambda>l. l_yiaddr l = y) ls = Some (ls ! i)"
    unfolding find_Some_iff using assms by blast
  then show ?thesis using assms(4) by (simp add: lease_map_def)
qed

lemma lease_map_SomeD:
  "lease_map ls y = Some (c, e) \<Longrightarrow> \<exists>i < length ls. l_yiaddr (ls ! i) = y \<and> l_chaddr (ls ! i) = c
     \<and> l_expires (ls ! i) = e \<and> y \<noteq> 0"
  by (auto simp: lease_map_def find_Some_iff split: if_splits)

lemma lease_map_NoneI: "(\<And>i. i < length ls \<Longrightarrow> l_yiaddr (ls ! i) \<noteq> y) \<Longrightarrow> lease_map ls y = None"
  by (auto simp: lease_map_def find_None_iff in_set_conv_nth)

lemma add_lease_ok:
  assumes ok: "dhcpd_ok s" and c: "length c = 16"
  obtains r s' where "add_lease c y d s = Some (r, s')" "dhcpd_ok s'" "same_env s s'"
    "case r of None \<Rightarrow> True | Some i \<Rightarrow> i < length (leases s') \<and> leases s' ! i =
       new_lease c y (now1 s + d) (cleared c y (leases s) ! i)"
proof (cases "y = 0")
  case True
  then show ?thesis using that [of None s] ok by simp
next
  case y: False
  let ?ls = "cleared c y (leases s)"
  have m: "max_leases s = length (leases s)" and t: "table_ok ?ls"
    using ok by (auto simp: dhcpd_ok_def intro: table_ok_cleared)
  obtain r where r: "r = oldest_scan (now s) None 0 ?ls" by blast
  obtain s' where s': "add_lease c y d s = Some (r, s')" "same_env s s'" "max_leases s' = max_leases s"
    "leases s' = (case r of None \<Rightarrow> ?ls | Some i \<Rightarrow> ?ls[i := new_lease c y (now1 s + d) (?ls ! i)])"
    using add_lease_eq [OF m y r] by metis
  show ?thesis
  proof (cases r)
    case None
    then show ?thesis using that [OF s'(1)] s' t m by (simp add: dhcpd_ok_def)
  next
    case (Some i)
    then have i: "i < length ?ls" using oldest_scan_spec [of "now s" None 0 ?ls] r by auto
    have "table_ok (?ls[i := new_lease c y (now1 s + d) (?ls ! i)])"
    proof (rule table_ok_put [OF t _ i])
      show "lease_ok (new_lease c y (now1 s + d) (?ls ! i))"
        using table_ok_nth [OF t i] c by (simp add: lease_ok_def)
    qed (auto dest: cleared_free)
    then show ?thesis using that [OF s'(1)] s' Some i m by (simp add: dhcpd_ok_def)
  qed
qed

lemma lease_map_None_iff: "y \<noteq> 0 \<Longrightarrow> lease_map ls y = None \<longleftrightarrow> (\<forall>i < length ls. l_yiaddr (ls ! i) \<noteq> y)"
  by (auto simp: lease_map_def find_None_iff in_set_conv_nth)

text \<open>The entry of an address stays, is removed by clearing, or is the one that is overwritten.\<close>

lemma lease_map_add_other:
  assumes ls: "table_ok ls" and new: "table_ok ls'" and y: "y' \<noteq> y"
    and ls': "ls' = (case r of None \<Rightarrow> cleared c y ls | Some i \<Rightarrow> (cleared c y ls)[i := new_lease c y e (cleared c y ls ! i)])"
    and r: "\<And>i. r = Some i \<Longrightarrow> i < length ls \<and> l_expires (cleared c y ls ! i) < t"
  shows "lease_map ls' y' = lease_map ls y' \<or>
    lease_map ls' y' = None \<and> (\<exists>c' e'. lease_map ls y' = Some (c', e') \<and> (c' = c \<and> c \<noteq> blank_chaddr \<or> e' < t))"
proof (cases "y' = 0")
  case True
  then show ?thesis by (simp add: lease_map_def)
next
  case y0: False
  let ?cl = "cleared c y ls"
  have len: "length ls' = length ls" using ls' by (simp split: option.splits)
  have nth: "ls' ! j = (if r = Some j then new_lease c y e (?cl ! j) else ?cl ! j)" if "j < length ls" for j
    using ls' that by (auto simp: nth_upd split: option.splits)
  show ?thesis
  proof (cases "lease_map ls y'")
    case None
    then have "\<forall>i < length ls'. l_yiaddr (ls' ! i) \<noteq> y'"
      using len nth y y0 by (auto simp: lease_map_None_iff nth_cleared)
    then have "lease_map ls' y' = None" using y0 by (simp add: lease_map_None_iff)
    then show ?thesis using None by simp
  next
    case (Some ce)
    obtain c' e' where ce: "ce = (c', e')" by fastforce
    obtain j where j: "j < length ls" "l_yiaddr (ls ! j) = y'" "l_chaddr (ls ! j) = c'" "l_expires (ls ! j) = e'"
      using lease_map_SomeD Some ce by blast
    have gone: "lease_map ls' y' = None" if "l_yiaddr (ls' ! j) \<noteq> y'"
    proof -
      have "l_yiaddr (ls' ! k) \<noteq> y'" if "k < length ls" for k
      proof (cases "k = j")
        case False
        then have "l_yiaddr (ls ! k) \<noteq> y'" using table_okD(1) [OF ls that j(1)] j(2) y0 by auto
        then show ?thesis using nth [OF that] y y0 that by (auto simp: nth_cleared)
      qed (use \<open>l_yiaddr (ls' ! j) \<noteq> y'\<close> in simp)
      then show ?thesis using y0 len by (simp add: lease_map_None_iff)
    qed
    consider "clears c y (ls ! j)" | "\<not> clears c y (ls ! j)" "r = Some j"
      | "\<not> clears c y (ls ! j)" "r \<noteq> Some j" by blast
    then show ?thesis
    proof cases
      case 1
      then have "c' = c \<and> c \<noteq> blank_chaddr" using j y by (auto simp: clears_def)
      moreover have "l_yiaddr (ls' ! j) \<noteq> y'" using nth [OF j(1)] 1 j y y0 by (simp add: nth_cleared)
      ultimately show ?thesis using gone Some ce by auto
    next
      case 2
      then have "e' < t" using r [of j] j by (simp add: nth_cleared)
      moreover have "l_yiaddr (ls' ! j) \<noteq> y'" using nth [OF j(1)] 2 y by simp
      ultimately show ?thesis using gone Some ce by auto
    next
      case 3
      then have "ls' ! j = ls ! j" using nth [OF j(1)] j(1) by (simp add: nth_cleared)
      then show ?thesis
        using lease_map_nth [OF new, of j y'] lease_map_nth [OF ls, of j y'] j len y0 by simp
    qed
  qed
qed

lemma add_lease_refines:
  assumes ok: "dhcpd_ok s" and c: "length c = 16" and y: "y \<noteq> 0"
  obtains r s' where "add_lease c y d s = Some (r, s')" "dhcpd_ok s'" "same_env s s'"
    "lease_map (leases s') y = (if r = None then None else Some (c, now1 s + d))"
    "\<And>y'. y' \<noteq> y \<Longrightarrow> lease_map (leases s') y' = lease_map (leases s) y' \<or>
       lease_map (leases s') y' = None \<and> (\<exists>c' e. lease_map (leases s) y' = Some (c', e)
         \<and> (c' = c \<and> c \<noteq> blank_chaddr \<or> e < now s))"
    "r = None \<Longrightarrow> 0 < now s \<Longrightarrow> leases s' = leases s \<and> (\<forall>l \<in> set (leases s). now s \<le> l_expires l)"
proof -
  let ?ls = "cleared c y (leases s)"
  have m: "max_leases s = length (leases s)" and t: "table_ok (leases s)"
    using ok by (auto simp: dhcpd_ok_def)
  obtain r where r: "r = oldest_scan (now s) None 0 ?ls" by blast
  note spec = oldest_scan_spec [of "now s" None 0 ?ls, folded r]
  obtain s' where s': "add_lease c y d s = Some (r, s')" "same_env s s'"
    "leases s' = (case r of None \<Rightarrow> ?ls | Some i \<Rightarrow> ?ls[i := new_lease c y (now1 s + d) (?ls ! i)])"
    using add_lease_eq [OF m y r] by metis
  have ok': "dhcpd_ok s'"
    by (rule add_lease_ok [OF ok c, of y d]) (use s'(1) in auto)
  then have t': "table_ok (leases s')" by (simp add: dhcpd_ok_def)
  have i: "i < length (leases s) \<and> l_expires (?ls ! i) < now s" if "r = Some i" for i
    using spec that by auto
  have at: "lease_map (leases s') y = (if r = None then None else Some (c, now1 s + d))"
  proof (cases r)
    case None
    then show ?thesis using s'(3) y cleared_free(1) [of _ "leases s" y c] by (simp add: lease_map_None_iff)
  next
    case (Some k)
    then show ?thesis using lease_map_nth [OF t', of k y] s'(3) i y by simp
  qed
  have full: "leases s' = leases s \<and> (\<forall>l \<in> set (leases s). now s \<le> l_expires l)" if "r = None" "0 < now s"
  proof -
    have e: "\<forall>l \<in> set ?ls. now s \<le> l_expires l" using spec that by auto
    have "\<not> clears c y l" if "l \<in> set (leases s)" for l
    proof
      assume "clears c y l"
      then have "blank_lease \<in> set ?ls" using that by (force simp: cleared_def)
      with e \<open>0 < now s\<close> show False by fastforce
    qed
    then have "?ls = leases s" unfolding cleared_def by (intro map_idI) simp
    then show ?thesis using s'(3) e that by simp
  qed
  show ?thesis
    by (rule that [OF s'(1) ok' s'(2) at lease_map_add_other [OF t t' _ s'(3) i] full])
qed

end
