(* ===== verification/Dhcp_Alloc.thy ===== *)
theory Dhcp_Alloc
  imports Dhcp_Leases
begin

text \<open>
  Properties of the lease table: the contract of \<open>add_lease\<close> as a locale and its consequence for leases of
  other clients, and the choice of an address by \<open>find_address\<close>.
\<close>

section \<open>A store of leases\<close>

text \<open>
  What the server relies on: a look-up gives client and expiry of an address; adding a lease keeps the
  invariant, and takes nothing away from another client as long as the lease has not expired.
\<close>

locale lease_store =
  fixes lookup :: "'s \<Rightarrow> u32 \<Rightarrow> (u8 list \<times> u32) option"
    and add :: "u8 list \<Rightarrow> u32 \<Rightarrow> u32 \<Rightarrow> 's \<Rightarrow> ('r \<times> 's) option"
    and inv :: "'s \<Rightarrow> bool"
    and time_le :: "'s \<Rightarrow> u32 \<Rightarrow> bool"
  assumes add_total: "inv s \<Longrightarrow> length c = 16 \<Longrightarrow> \<exists>r s'. add c y d s = Some (r, s')"
    and add_inv: "inv s \<Longrightarrow> length c = 16 \<Longrightarrow> add c y d s = Some (r, s') \<Longrightarrow> inv s'"
    and add_time: "inv s \<Longrightarrow> length c = 16 \<Longrightarrow> add c y d s = Some (r, s') \<Longrightarrow> time_le s e \<Longrightarrow> time_le s' e"
    and add_keeps: "inv s \<Longrightarrow> length c = 16 \<Longrightarrow> add c y d s = Some (r, s') \<Longrightarrow> lookup s y' = Some (c', e) \<Longrightarrow>
      y' \<noteq> y \<Longrightarrow> c' \<noteq> c \<Longrightarrow> time_le s e \<Longrightarrow> lookup s' y' = Some (c', e)"
begin

lemma lease_survives:
  assumes "inv s" "lookup s y' = Some (c', e)" "time_le s e"
    and "\<forall>(c, y, d) \<in> set xs. length c = 16 \<and> c \<noteq> c' \<and> y \<noteq> y'"
  shows "\<exists>s'. run (\<lambda>(c, y, d) s. map_option snd (add c y d s)) xs s = Some s' \<and> inv s' \<and> lookup s' y' = Some (c', e)"
  using assms
proof (induction xs arbitrary: s)
  case Nil
  then show ?case by simp
next
  case (Cons x xs)
  obtain c y d where x: "x = (c, y, d)" by (cases x)
  with Cons.prems(4) have c: "length c = 16" "c \<noteq> c'" "y \<noteq> y'" by auto
  obtain r s1 where s1: "add c y d s = Some (r, s1)" using add_total [OF Cons.prems(1) c(1)] by blast
  have "inv s1" "lookup s1 y' = Some (c', e)" "time_le s1 e"
    using add_inv [OF Cons.prems(1) c(1) s1] add_time [OF Cons.prems(1) c(1) s1 Cons.prems(3)]
      add_keeps [OF Cons.prems(1) c(1) s1 Cons.prems(2)] c Cons.prems(3) by auto
  from Cons.IH [OF this] Cons.prems(4) s1 x show ?case by auto
qed

end

section \<open>The lease table is such a store\<close>

definition table_lookup :: "dhcpd \<Rightarrow> u32 \<Rightarrow> (u8 list \<times> u32) option" where
  "table_lookup s = lease_map (leases s)"

text \<open>No reading of the clock from now on is later than \<open>e\<close>.\<close>

definition time_le :: "dhcpd \<Rightarrow> u32 \<Rightarrow> bool" where
  "time_le s e \<longleftrightarrow> (\<forall>k \<ge> n_uptime s. os_uptime s k \<le> e)"

lemma time_le_mono: "same_env s s' \<Longrightarrow> time_le s e \<Longrightarrow> time_le s' e"
  by (auto simp: time_le_def same_env_def same_conf_def)

lemma add_lease_SomeD:
  assumes "dhcpd_ok s" "length c = 16" "add_lease c y d s = Some (r, s')"
  shows "dhcpd_ok s'" "same_env s s'"
  using add_lease_ok [OF assms(1,2), of y d] assms(3) by (metis option.inject prod.inject)+

lemma add_lease_keeps:
  assumes "dhcpd_ok s" "length c = 16" "add_lease c y d s = Some (r, s')"
    and l: "lease_map (leases s) y' = Some (c', e)" "y' \<noteq> y" "c' \<noteq> c" "time_le s e"
  shows "lease_map (leases s') y' = Some (c', e)"
proof (cases "y = 0")
  case True
  then show ?thesis using assms by simp
next
  case False
  have "now s \<le> e" using l(4) by (simp add: time_le_def)
  with add_lease_refines [OF assms(1,2) False, of d] assms(3) l show ?thesis
    by (metis (no_types, lifting) leD option.inject prod.inject)
qed

interpretation lease_table: lease_store table_lookup add_lease dhcpd_ok time_le
proof
  show "\<exists>r s'. add_lease c y d s = Some (r, s')" if "dhcpd_ok s" "length c = 16" for s c y d
    using add_lease_ok [OF that] by metis
qed (auto simp: table_lookup_def dest: add_lease_SomeD add_lease_keeps intro: time_le_mono)

text \<open>C20:
  Adding a lease refines an update of the map from addresses to client and expiry. The call always returns and
  keeps the table free of duplicate addresses and clients. If it succeeds, the address belongs to the client
  until the given time from now; every other address keeps its entry, unless that entry belonged to the same
  client or had expired. It fails only for the address 0.0.0.0, or when no entry has expired, and then (if the
  clock has left zero) the table is unchanged.
\<close>

theorem add_lease_contract:
  assumes "dhcpd_ok s" "length c = 16"
  shows "\<exists>r s'. add_lease c y d s = Some (r, s') \<and> dhcpd_ok s' \<and> server_config s' = server_config s
    \<and> (if y = 0 then r = None \<and> s' = s
       else lease_map (leases s') y = (if r = None then None else Some (c, now1 s + d))
         \<and> (\<forall>y'. y' \<noteq> y \<longrightarrow> lease_map (leases s') y' = lease_map (leases s) y' \<or>
              lease_map (leases s') y' = None \<and> (\<exists>c' e. lease_map (leases s) y' = Some (c', e)
                \<and> (c' = c \<and> c \<noteq> blank_chaddr \<or> e < now s)))
         \<and> (r = None \<and> 0 < now s \<longrightarrow> leases s' = leases s \<and> (\<forall>l \<in> set (leases s). now s \<le> l_expires l)))"
proof (cases "y = 0")
  case False
  obtain r s' where "add_lease c y d s = Some (r, s')" "dhcpd_ok s'" "same_env s s'"
    "lease_map (leases s') y = (if r = None then None else Some (c, now1 s + d))"
    "\<And>y'. y' \<noteq> y \<Longrightarrow> lease_map (leases s') y' = lease_map (leases s) y' \<or>
       lease_map (leases s') y' = None \<and> (\<exists>c' e. lease_map (leases s) y' = Some (c', e)
         \<and> (c' = c \<and> c \<noteq> blank_chaddr \<or> e < now s))"
    "r = None \<Longrightarrow> 0 < now s \<Longrightarrow> leases s' = leases s \<and> (\<forall>l \<in> set (leases s). now s \<le> l_expires l)"
    using add_lease_refines [OF assms False, of d] by blast
  then show ?thesis using False same_env_config [of s s'] by (intro exI [of _ r] exI [of _ s']) simp
qed (use assms in simp)

text \<open>A small server for examples: three entries, the clock runs from 100 on.\<close>

definition example_config :: server_config_t where
  "example_config = \<lparr>sc_server = 0xC0A80101, sc_start = 0xC0A80102, sc_end = 0xC0A80104, sc_options = [],
     sc_interface = ''br0'', sc_ifindex = 1, sc_arp = [0, 1, 2, 3, 4, 5], sc_lease = 86400, sc_max_leases = 3,
     sc_remaining = True, sc_auto_time = 7200, sc_decline_time = 3600, sc_conflict_time = 3600, sc_offer_time = 60,
     sc_min_lease = 60, sc_lease_file = ''/tmp/udhcpd.leases'', sc_pidfile = ''/var/run/udhcpd.pid'',
     sc_notify_file = None, sc_siaddr = 0, sc_sname = None, sc_boot_file = None\<rparr>"

definition quiet_arp :: arp_env where
  "quiet_arp = \<lparr>arp_socket_ok = True, arp_setsockopt_ok = True, arp_sendto_ok = True, arp_events = [(Sel_timeout, 2)]\<rparr>"

definition good_send :: send_env where
  "good_send = \<lparr>se_socket_ok = True, se_setsockopt_ok = True, se_bind_ok = True, se_connect_ok = True, se_result = 576\<rparr>"

definition example_server :: dhcpd where
  "example_server = \<lparr>leases = replicate 3 blank_lease, server_config = example_config, vizio_device = False,
     os_uptime = (\<lambda>_. 100), n_uptime = 0, os_arp = (\<lambda>_. quiet_arp), n_arp = 0, os_send = (\<lambda>_. good_send), n_send = 0,
     os_nvram = [''lan_ipaddr'' \<mapsto> ''192.168.1.1''], os_logfile_ok = True, d_out = []\<rparr>"

lemma table_ok_blank: "table_ok (replicate n blank_lease)"
  by (simp add: table_ok_def list_all_length)

lemma example_ok: "dhcpd_ok example_server"
  by (simp add: dhcpd_ok_def example_server_def example_config_def max_leases_def table_ok_blank)

theorem add_lease_contract_witness:
  "\<exists>r s'. add_lease (replicate 16 7) 0xC0A80102 60 example_server = Some (r, s') \<and> dhcpd_ok s'"
  using add_lease_contract [OF example_ok, of "replicate 16 7" "0xC0A80102" 60] by force

text \<open>C26:
  A lease that has not expired cannot be pushed out of the table: whatever leases other clients get for other
  addresses, in any number and order, the entry of the client stays as it is.
\<close>

theorem live_leases_survive:
  assumes "dhcpd_ok s" "lease_map (leases s) y' = Some (c', e)" "time_le s e"
    and "\<forall>(c, y, d) \<in> set xs. length c = 16 \<and> c \<noteq> c' \<and> y \<noteq> y'"
  shows "\<exists>s'. run (\<lambda>(c, y, d) s. map_option snd (add_lease c y d s)) xs s = Some s' \<and> dhcpd_ok s'
    \<and> lease_map (leases s') y' = Some (c', e)"
  using lease_table.lease_survives [of s y' c' e xs] assms by (simp add: table_lookup_def)

theorem live_leases_survive_witness:
  "\<exists>s'. run (\<lambda>(c, y, d) s. map_option snd (add_lease c y d s)) [(replicate 16 8, 0xC0A80103, 60)]
      (example_server\<lparr>leases := [blank_lease\<lparr>l_chaddr := replicate 16 7, l_yiaddr := 0xC0A80102, l_expires := 100\<rparr>,
         blank_lease, blank_lease]\<rparr>) = Some s'
    \<and> lease_map (leases s') 0xC0A80102 = Some (replicate 16 7, 100)"
proof -
  let ?ls = "[blank_lease\<lparr>l_chaddr := replicate 16 7, l_yiaddr := 0xC0A80102, l_expires := 100\<rparr>, blank_lease, blank_lease]"
  have l: "?ls = (replicate 3 blank_lease)[0 := blank_lease\<lparr>l_chaddr := replicate 16 7, l_yiaddr := 0xC0A80102, l_expires := 100\<rparr>]"
    by (simp add: numeral_eq_Suc)
  have "table_ok ?ls" unfolding l
    by (rule table_ok_put [OF table_ok_blank]) (auto simp: lease_ok_def blank_lease_def blank_chaddr_def)
  then have "dhcpd_ok (example_server\<lparr>leases := ?ls\<rparr>)"
    using example_ok by (simp add: dhcpd_ok_def example_server_def max_leases_def)
  from live_leases_survive [OF this, of "0xC0A80102" "replicate 16 7" 100 "[(replicate 16 8, 0xC0A80103, 60)]"]
  show ?thesis by (force simp: lease_map_def time_le_def example_server_def)
qed

section \<open>Choosing an address\<close>

lemma scan_spec:
  "\<exists>r. scan P (length ls) ls = Some r \<and>
     (case r of None \<Rightarrow> \<forall>l \<in> set ls. \<not> P l | Some i \<Rightarrow> i < length ls \<and> P (ls ! i) \<and> (\<forall>j < i. \<not> P (ls ! j)))"
proof (induction ls)
  case (Cons l ls)
  then obtain r where r: "scan P (length ls) ls = Some r"
    "case r of None \<Rightarrow> \<forall>l \<in> set ls. \<not> P l | Some i \<Rightarrow> i < length ls \<and> P (ls ! i) \<and> (\<forall>j < i. \<not> P (ls ! j))"
    by blast
  show ?case
  proof (cases "P l")
    case False
    then show ?thesis using r by (cases r) (auto simp: less_Suc_eq_0_disj)
  qed simp
qed simp

lemma find_lease_by_yiaddr_ok:
  assumes "dhcpd_ok s"
  shows "\<exists>r. find_lease_by_yiaddr y s = Some r
    \<and> (case r of None \<Rightarrow> lease_map (leases s) y = None
       | Some i \<Rightarrow> i < length (leases s) \<and> l_yiaddr (leases s ! i) = y)"
proof -
  have m: "max_leases s = length (leases s)" using assms by (simp add: dhcpd_ok_def)
  obtain r where r: "scan (\<lambda>l. l_yiaddr l = y) (length (leases s)) (leases s) = Some r"
    "case r of None \<Rightarrow> \<forall>l \<in> set (leases s). l_yiaddr l \<noteq> y
     | Some i \<Rightarrow> i < length (leases s) \<and> l_yiaddr (leases s ! i) = y \<and> (\<forall>j < i. l_yiaddr (leases s ! j) \<noteq> y)"
    using scan_spec [of "\<lambda>l. l_yiaddr l = y" "leases s"] by blast
  then show ?thesis
    by (auto simp: find_lease_by_yiaddr_def m lease_map_def find_None_iff split: option.splits)
qed

lemma reserve_ok:
  assumes "dhcpd_ok s"
  obtains r s' where "add_lease blank_chaddr a d s = Some (r, s')" "dhcpd_ok s'" "same_env s s'"
  by (rule add_lease_ok [OF assms length_blank_chaddr, of a d]) blast

lemma IsLanIPAddr_ok:
  assumes "dhcpd_ok s"
  obtains s' where "IsLanIPAddr a s = Some (nvram_safe_get ''lan_ipaddr'' s = inet_ntoa a, s')"
    "dhcpd_ok s'" "same_env s s'" "nvram_safe_get ''lan_ipaddr'' s \<noteq> inet_ntoa a \<Longrightarrow> s' = s"
proof -
  obtain r s' where "add_lease blank_chaddr a (sc_conflict_time (server_config s)) s = Some (r, s')"
    "dhcpd_ok s'" "same_env s s'"
    using reserve_ok [OF assms] by blast
  then show ?thesis
    using that [of s'] that [of s] assms
    by (cases "nvram_safe_get ''lan_ipaddr'' s = inet_ntoa a") (auto simp: IsLanIPAddr_def)
qed

text \<open>Every ARP test ends.\<close>

definition arp_ends :: "arp_env \<Rightarrow> bool" where
  "arp_ends env \<longleftrightarrow> (\<exists>k \<le> length (arp_events env). 2 \<le> elapsed (take k (arp_events env)))"

definition env_ok :: "dhcpd \<Rightarrow> bool" where
  "env_ok s \<longleftrightarrow> length (sc_interface (server_config s)) < 14 \<and> (\<forall>k. arp_ends (os_arp s k))"

lemma env_ok_same: "same_env s s' \<Longrightarrow> env_ok s' = env_ok s"
  by (simp add: env_ok_def same_env_def same_conf_def)

lemma arpping_returns:
  assumes "arp_ends env" "length interface < 14"
  shows "\<exists>r sent. arpping env y ip mac interface = Some (r, sent)"
  using arpping_loop_returns [OF assms(1) [unfolded arp_ends_def], of y mac] assms(2)
  by (cases "arp_socket_ok env \<and> arp_setsockopt_ok env") (auto simp: arpping_def Let_def)

text \<open>The result of the ARP test number \<open>k\<close>.\<close>

definition arp_says_free :: "dhcpd \<Rightarrow> nat \<Rightarrow> u32 \<Rightarrow> bool" where
  "arp_says_free s k a \<longleftrightarrow> (\<exists>rv sent. arpping (os_arp s k) a (sc_server (server_config s))
     (sc_arp (server_config s)) (sc_interface (server_config s)) = Some (rv, sent) \<and> rv \<noteq> 0)"

lemma arp_says_free_same: "same_env s s' \<Longrightarrow> arp_says_free s' k a = arp_says_free s k a"
  by (simp add: arp_says_free_def same_env_def same_conf_def)

lemma check_ip_ok:
  assumes ok: "dhcpd_ok s" and env: "env_ok s"
  obtains b s' where "check_ip a s = Some (b, s')" "dhcpd_ok s'" "same_env s s'"
    "\<not> b \<Longrightarrow> leases s' = leases s \<and> arp_says_free s (n_arp s) a \<and> n_arp s' = Suc (n_arp s)"
proof -
  obtain s1 where s1: "IsLanIPAddr a s = Some (nvram_safe_get ''lan_ipaddr'' s = inet_ntoa a, s1)"
    "dhcpd_ok s1" "same_env s s1" "nvram_safe_get ''lan_ipaddr'' s \<noteq> inet_ntoa a \<Longrightarrow> s1 = s"
    using IsLanIPAddr_ok [OF ok] by blast
  show ?thesis
  proof (cases "nvram_safe_get ''lan_ipaddr'' s = inet_ntoa a")
    case True
    obtain r s2 where "add_lease blank_chaddr a (sc_conflict_time (server_config s1)) s1 = Some (r, s2)"
      "dhcpd_ok s2" "same_env s1 s2"
      using reserve_ok [OF s1(2)] by blast
    then show ?thesis
      using that [of True s2] s1 True same_env_trans [OF s1(3)] by (simp add: check_ip_def)
  next
    case False
    then have e: "s1 = s" using s1 by simp
    obtain rv sent where a: "arpping (os_arp s (n_arp s)) a (sc_server (server_config s)) (sc_arp (server_config s))
        (sc_interface (server_config s)) = Some (rv, sent)"
      by (metis arpping_returns env env_ok_def)
    let ?s2 = "s\<lparr>n_arp := Suc (n_arp s), d_out := d_out s @ map Arp_request sent\<rparr>"
    have s2: "dhcpd_ok ?s2" "same_env s ?s2"
      using ok by (simp_all add: dhcpd_ok_def same_env_def same_conf_def max_leases_def)
    show ?thesis
    proof (cases "rv = 0")
      case True
      obtain r s3 where "add_lease blank_chaddr a (sc_conflict_time (server_config ?s2)) ?s2 = Some (r, s3)"
        "dhcpd_ok s3" "same_env ?s2 s3"
        using reserve_ok [OF s2(1)] by blast
      then show ?thesis
        using that [of True s3] s1 False True a e same_env_trans [OF s2(2)] by (simp add: check_ip_def)
    next
      case rv: False
      show ?thesis
        by (rule that [of False ?s2])
          (use s1 s2 False rv a e in \<open>simp_all add: check_ip_def arp_says_free_def\<close>)
    qed
  qed
qed

text \<open>An address that may be handed out: in the range, not a network or broadcast address, not the address of the
  router, free according to an ARP test made meanwhile, and without a lease, or with one that is expired by
  a reading of the clock made so far, if expired leases are wanted.\<close>

definition usable :: "dhcpd \<Rightarrow> u32 \<Rightarrow> bool" where
  "usable s a \<longleftrightarrow> a \<le> sc_end (server_config s) \<and> a AND 0xFF \<noteq> 0 \<and> a AND 0xFF \<noteq> 0xFF
     \<and> nvram_safe_get ''lan_ipaddr'' s \<noteq> inet_ntoa a"

definition not_leased :: "bool \<Rightarrow> dhcpd \<Rightarrow> u32 \<Rightarrow> bool" where
  "not_leased check_expired s a \<longleftrightarrow> lease_map (leases s) a = None
     \<or> check_expired \<and> (\<exists>c e k. lease_map (leases s) a = Some (c, e) \<and> k < n_uptime s \<and> e < os_uptime s k)"

definition found :: "bool \<Rightarrow> dhcpd \<Rightarrow> dhcpd \<Rightarrow> u32 \<Rightarrow> bool" where
  "found check_expired s s' a \<longleftrightarrow> usable s a \<and> not_leased check_expired s' a
     \<and> (\<exists>k. n_arp s \<le> k \<and> k < n_arp s' \<and> arp_says_free s k a)"

lemma not_leased_same:
  "same_env s s' \<Longrightarrow> leases s' = leases s \<Longrightarrow> not_leased ce s a \<Longrightarrow> not_leased ce s' a"
  by (auto simp: not_leased_def same_env_def same_conf_def) (metis order.strict_trans2)+

lemma usable_same: "same_env s s' \<Longrightarrow> usable s' a = usable s a"
  by (simp add: usable_def same_env_config nvram_same_env)

lemma found_mono: "same_env s s1 \<Longrightarrow> found ce s1 s' a \<Longrightarrow> found ce s s' a"
  unfolding found_def using usable_same [of s s1] arp_says_free_same [of s s1]
  by (metis order.trans same_env_def same_conf_def)

text \<open>The test inside the loop: either the address is taken or it is a good answer.\<close>

definition candidate :: "bool \<Rightarrow> u32 \<Rightarrow> dhcpd \<Rightarrow> (bool \<times> dhcpd) option" where
  "candidate check_expired addr s =
     do { lease \<leftarrow> find_lease_by_yiaddr addr s;
          let (free, s1) = (case lease of
                              None \<Rightarrow> (True, s)
                            | Some i \<Rightarrow> if check_expired then lease_expired i s else (False, s));
          if free then map_option (\<lambda>(taken, s2). (\<not> taken, s2)) (check_ip addr s1) else Some (False, s1) }"

lemma find_address_loop_eq:
  "find_address_loop ce addr s =
     (if addr > sc_end (server_config s) then Some (0, s)
      else if addr AND 0xFF = 0 \<or> addr AND 0xFF = 0xFF then find_address_loop ce (addr + 1) s
      else do { (lan, s1) \<leftarrow> IsLanIPAddr addr s;
                if lan then find_address_loop ce (addr + 1) s1
                else do { (good, s2) \<leftarrow> candidate ce addr s1;
                          if good then Some (addr, s2) else find_address_loop ce (addr + 1) s2 } })"
proof (cases "IsLanIPAddr addr s")
  case None
  then show ?thesis by (subst find_address_loop.simps) simp
next
  case (Some p)
  obtain lan s1 where p: "p = (lan, s1)" by fastforce
  show ?thesis
  proof (cases "find_lease_by_yiaddr addr s1")
    case None
    then show ?thesis using Some p by (subst find_address_loop.simps) (simp add: candidate_def)
  next
    case (Some lease)
    let ?fs = "case lease of None \<Rightarrow> (True, s1) | Some i \<Rightarrow> if ce then lease_expired i s1 else (False, s1)"
    obtain free s2 where fs: "?fs = (free, s2)" by fastforce
    show ?thesis
      using Some \<open>IsLanIPAddr addr s = Some p\<close> p fs
      by (subst find_address_loop.simps, cases "check_ip addr s2") (auto simp: candidate_def)
  qed
qed

lemma candidate_ok:
  assumes ok: "dhcpd_ok s" and env: "env_ok s" and a: "usable s addr" "addr \<noteq> 0"
  obtains good s' where "candidate ce addr s = Some (good, s')" "dhcpd_ok s'" "same_env s s'"
    "good \<Longrightarrow> found ce s s' addr"
proof -
  obtain r where r: "find_lease_by_yiaddr addr s = Some r"
    "case r of None \<Rightarrow> lease_map (leases s) addr = None
     | Some i \<Rightarrow> i < length (leases s) \<and> l_yiaddr (leases s ! i) = addr"
    using find_lease_by_yiaddr_ok [OF ok] by blast
  let ?fs = "case r of None \<Rightarrow> (True, s) | Some i \<Rightarrow> if ce then lease_expired i s else (False, s)"
  obtain free s1 where fs: "?fs = (free, s1)" by fastforce
  have s1: "same_env s s1" "dhcpd_ok s1" "leases s1 = leases s" "n_arp s1 = n_arp s"
    using fs ok by (auto simp: lease_expired_def sys_time_def same_env_def same_conf_def dhcpd_ok_def max_leases_def
        split: option.splits if_splits)
  have nl: "not_leased ce s1 addr" if "free"
    using fs that r(2) lease_map_nth [of "leases s" _ addr] ok a(2)
    by (auto simp: not_leased_def lease_expired_def sys_time_def dhcpd_ok_def split: option.splits if_splits)
  show ?thesis
  proof (cases free)
    case True
    obtain b s2 where s2: "check_ip addr s1 = Some (b, s2)" "dhcpd_ok s2" "same_env s1 s2"
      "\<not> b \<Longrightarrow> leases s2 = leases s1 \<and> arp_says_free s1 (n_arp s1) addr \<and> n_arp s2 = Suc (n_arp s1)"
      using check_ip_ok [OF s1(2)] env env_ok_same [OF s1(1)] by blast
    have "same_env s s2" using same_env_trans [OF s1(1) s2(3)] .
    moreover have "found ce s s2 addr" if "\<not> b"
    proof -
      have "not_leased ce s2 addr" using s2(4) [OF that] not_leased_same [OF s2(3) _ nl [OF True]] by simp
      then show ?thesis
        using s2(4) [OF that] s1 a arp_says_free_same [OF s1(1)] by (auto simp: found_def)
    qed
    ultimately show ?thesis
      using that [of "\<not> b" s2] s2 r fs True by (simp add: candidate_def)
  next
    case False
    then show ?thesis using that [of False s1] r fs s1 by (simp add: candidate_def)
  qed
qed

lemma addr_succ:
  fixes a e :: u32
  assumes "a \<le> e" "e < - 1"
  shows "unat (a + 1) = Suc (unat a)"
proof -
  have "a + 1 \<noteq> 0" using assms by (metis add.commute add_eq_0_iff leD)
  then show ?thesis by (simp add: add.commute unatSuc)
qed

lemma find_address_loop_ok:
  assumes "dhcpd_ok s" "env_ok s" "sc_end (server_config s) < - 1"
  shows "\<exists>a s'. find_address_loop ce addr s = Some (a, s') \<and> dhcpd_ok s' \<and> same_env s s'
    \<and> (a = 0 \<or> addr \<le> a \<and> found ce s s' a)"
  using assms
proof (induction "Suc (unat (sc_end (server_config s))) - unat addr" arbitrary: addr s rule: less_induct)
  case less
  let ?e = "sc_end (server_config s)"
  show ?case
  proof (cases "addr > ?e")
    case True
    then show ?thesis using less.prems by (subst find_address_loop_eq) simp
  next
    case False
    then have le: "addr \<le> ?e" by simp
    have IH: "\<exists>a s'. find_address_loop ce (addr + 1) s1 = Some (a, s') \<and> dhcpd_ok s' \<and> same_env s s'
        \<and> (a = 0 \<or> addr \<le> a \<and> found ce s s' a)" if s1: "dhcpd_ok s1" "same_env s s1" for s1
    proof -
      have e1: "sc_end (server_config s1) = ?e" using s1(2) by (simp add: same_env_config)
      have u: "unat (addr + 1) = Suc (unat addr)" using addr_succ [OF le less.prems(3)] .
      have "Suc (unat ?e) - unat (addr + 1) < Suc (unat ?e) - unat addr"
        using u le by (simp add: word_le_nat_alt)
      then have "\<exists>a s'. find_address_loop ce (addr + 1) s1 = Some (a, s') \<and> dhcpd_ok s' \<and> same_env s1 s'
          \<and> (a = 0 \<or> addr + 1 \<le> a \<and> found ce s1 s' a)"
        using less.hyps [of s1 "addr + 1"] e1 s1 less.prems env_ok_same [OF s1(2)] by simp
      moreover have "addr \<le> a" if "addr + 1 \<le> a" for a using that u by (simp add: word_le_nat_alt)
      ultimately show ?thesis using found_mono [OF s1(2)] same_env_trans [OF s1(2)] by blast
    qed
    show ?thesis
    proof (cases "addr AND 0xFF = 0 \<or> addr AND 0xFF = 0xFF")
      case True
      then show ?thesis using IH [OF less.prems(1) same_env_refl] False by (subst find_address_loop_eq) simp
    next
      case oct: False
      obtain s1 where s1: "IsLanIPAddr addr s = Some (nvram_safe_get ''lan_ipaddr'' s = inet_ntoa addr, s1)"
        "dhcpd_ok s1" "same_env s s1" "nvram_safe_get ''lan_ipaddr'' s \<noteq> inet_ntoa addr \<Longrightarrow> s1 = s"
        using IsLanIPAddr_ok [OF less.prems(1)] by blast
      show ?thesis
      proof (cases "nvram_safe_get ''lan_ipaddr'' s = inet_ntoa addr")
        case True
        then show ?thesis using IH [OF s1(2,3)] False oct s1(1) by (subst find_address_loop_eq) simp
      next
        case lan: False
        then have u: "usable s addr" "addr \<noteq> 0" "s1 = s" using le oct s1 by (auto simp: usable_def)
        obtain good s2 where s2: "candidate ce addr s = Some (good, s2)" "dhcpd_ok s2" "same_env s s2"
          "good \<Longrightarrow> found ce s s2 addr"
          using candidate_ok [OF less.prems(1,2) u(1,2)] by blast
        have "find_address_loop ce addr s =
            (if good then Some (addr, s2) else find_address_loop ce (addr + 1) s2)"
          using False oct s1(1) lan u(3) s2(1) by (subst find_address_loop_eq) simp
        then show ?thesis using IH [OF s2(2,3)] s2 by (cases good) auto
      qed
    qed
  qed
qed


lemma example_env_ok: "env_ok example_server"
  by (auto simp: env_ok_def example_server_def example_config_def quiet_arp_def arp_ends_def elapsed_def
      intro: exI [of _ 1])


end
