(* ===== verification/Dhcp_Server.thy ===== *)
theory Dhcp_Server
  imports Dhcp_Alloc
begin

text \<open>
  The DHCP server: \<open>udhcpd-0.9.8/serverpacket.c\<close>, and the part of the main loop of \<open>dhcpd.c\<close> that handles one
  message, with the macros \<open>SomeExtraCodes_005\<close> to \<open>SomeExtraCodes_011\<close> of
  \<open>gemtek_added_SRC/gemtek_jimmy_added_002.h\<close>. A handler gives the state after it, or \<^term>\<open>None\<close> when it reads
  outside the message or the table, writes to a file that could not be opened, or does not end.
\<close>

section \<open>Sending a message\<close>

definition SERVER_PORT :: u16 where "SERVER_PORT = 67"
definition CLIENT_PORT :: u16 where "CLIENT_PORT = 68"
definition INADDR_BROADCAST :: u32 where "INADDR_BROADCAST = 0xFFFFFFFF"
definition MAC_BCAST_ADDR :: "u8 list" where "MAC_BCAST_ADDR = replicate 6 0xFF"

definition sent :: "int \<times> dhcp_out list \<Rightarrow> dhcpd \<Rightarrow> int \<times> dhcpd" where
  "sent r s = (fst r, s\<lparr>n_send := Suc (n_send s), d_out := d_out s @ snd r\<rparr>)"

definition send_packet_to_relay :: "dhcpMessage \<Rightarrow> dhcpd \<Rightarrow> int \<times> dhcpd" where
  "send_packet_to_relay payload s =
     sent (kernel_packet (os_send s (n_send s)) payload (sc_server (server_config s)) SERVER_PORT
       (msg_giaddr payload) SERVER_PORT) s"

definition client_addr :: "dhcpMessage \<Rightarrow> bool \<Rightarrow> u32 \<times> u8 list" where
  "client_addr payload force_broadcast =
     (if force_broadcast then (INADDR_BROADCAST, MAC_BCAST_ADDR)
      else if msg_ciaddr payload \<noteq> 0 then (msg_ciaddr payload, msg_chaddr payload)
      else if msg_flags payload AND BROADCAST_FLAG \<noteq> 0 then (INADDR_BROADCAST, MAC_BCAST_ADDR)
      else (msg_yiaddr payload, msg_chaddr payload))"

definition send_packet_to_client :: "dhcpMessage \<Rightarrow> bool \<Rightarrow> dhcpd \<Rightarrow> int \<times> dhcpd" where
  "send_packet_to_client payload force_broadcast s =
     (let (ciaddr, chaddr) = client_addr payload force_broadcast in
      sent (raw_packet (os_send s (n_send s)) payload (sc_server (server_config s)) SERVER_PORT
        ciaddr CLIENT_PORT chaddr (sc_ifindex (server_config s))) s)"

definition send_packet :: "dhcpMessage \<Rightarrow> bool \<Rightarrow> dhcpd \<Rightarrow> int \<times> dhcpd" where
  "send_packet payload force_broadcast s =
     (if msg_giaddr payload \<noteq> 0 then send_packet_to_relay payload s
      else send_packet_to_client payload force_broadcast s)"

section \<open>Making a reply\<close>

definition add_simple :: "dhcpMessage \<Rightarrow> u8 \<Rightarrow> u32 \<Rightarrow> dhcpMessage option" where
  "add_simple p code data =
     map_option (\<lambda>(n, opts). set_options p opts) (add_simple_option (msg_options p) code data)"

definition copy_header :: "dhcpMessage \<Rightarrow> dhcpMessage \<Rightarrow> dhcpMessage" where
  "copy_header p oldpacket =
     buf_write (buf_write (buf_write (buf_write (buf_write p 4 (msg_xid oldpacket)) 28 (msg_chaddr oldpacket))
       10 (bytes16 (msg_flags oldpacket))) 24 (bytes32 (msg_giaddr oldpacket))) 12 (bytes32 (msg_ciaddr oldpacket))"

definition init_packet :: "dhcpMessage \<Rightarrow> u8 \<Rightarrow> dhcpd \<Rightarrow> dhcpMessage option" where
  "init_packet oldpacket type s =
     do { p \<leftarrow> init_header type;
          add_simple (copy_header p oldpacket) DHCP_SERVER_ID (sc_server (server_config s)) }"

definition text_bytes :: "string \<Rightarrow> u8 list" where "text_bytes cs = map of_char cs"

text \<open>What \<open>strncpy\<close> writes: the bytes in front of the end mark, filled up with zeros.\<close>

definition strncpy :: "u8 list \<Rightarrow> nat \<Rightarrow> u8 list" where
  "strncpy src n = (let b = takeWhile (\<lambda>x. x \<noteq> 0) (take n src) in b @ replicate (n - length b) 0)"

definition add_bootp_options :: "dhcpMessage \<Rightarrow> dhcpd \<Rightarrow> dhcpMessage" where
  "add_bootp_options p s =
     (let p1 = buf_write p 20 (bytes32 (sc_siaddr (server_config s)));
          p2 = (case sc_sname (server_config s) of
                  None \<Rightarrow> p1 | Some str \<Rightarrow> buf_write p1 44 (strncpy (text_bytes str) 63))
      in case sc_boot_file (server_config s) of
           None \<Rightarrow> p2 | Some str \<Rightarrow> buf_write p2 108 (strncpy (text_bytes str) 127))"

fun add_config_options :: "u8 list list \<Rightarrow> u8 list \<Rightarrow> u8 list option" where
  "add_config_options [] opts = Some opts"
| "add_config_options (d # ds) opts =
     (if d ! 0 \<noteq> DHCP_LEASE_TIME
      then do { (n, opts') \<leftarrow> add_option_string opts (Some d); add_config_options ds opts' }
      else add_config_options ds opts)"

definition finish_packet :: "dhcpMessage \<Rightarrow> dhcpd \<Rightarrow> dhcpMessage option" where
  "finish_packet p s =
     do { opts \<leftarrow> add_config_options (sc_options (server_config s)) (msg_options p);
          Some (add_bootp_options (set_options p opts) s) }"

text \<open>\<open>get_option\<close> on a message, with its effect on \<open>vizio_device\<close>.\<close>

definition get_opt :: "dhcpMessage \<Rightarrow> u8 \<Rightarrow> dhcpd \<Rightarrow> (nat option \<times> dhcpd) option" where
  "get_opt p code s =
     map_option (\<lambda>(k, viz). (k, s\<lparr>vizio_device := viz\<rparr>)) (get_option p code (vizio_device s))"

definition set_yiaddr :: "dhcpMessage \<Rightarrow> u32 \<Rightarrow> dhcpMessage" where
  "set_yiaddr p y = buf_write p 16 (bytes32 y)"

section \<open>Offers\<close>

definition find_any_address :: "dhcpd \<Rightarrow> (u32 \<times> dhcpd) option" where
  "find_any_address s =
     do { (a, s1) \<leftarrow> find_address False s; if a = 0 then find_address True s1 else Some (a, s1) }"

text \<open>The address requested by a client without a lease, if it is in the range and free or expired.\<close>

definition requested_address :: "u32 \<Rightarrow> dhcpMessage \<Rightarrow> dhcpd \<Rightarrow> (u32 \<times> dhcpd) option" where
  "requested_address req oldpacket s =
     (if req \<ge> sc_start (server_config s) \<and> req \<le> sc_end (server_config s) then
        do { lease \<leftarrow> find_lease_by_yiaddr req s;
             let (free, s1) = (case lease of None \<Rightarrow> (True, s) | Some i \<Rightarrow> lease_expired i s);
             if free then
               do { lease' \<leftarrow> find_lease_by_yiaddr req s1;
                    case lease' of
                      None \<Rightarrow> Some (req, s1)
                    | Some i \<Rightarrow> if l_chaddr (leases s1 ! i) \<noteq> msg_chaddr oldpacket then Some (req, s1)
                              else find_address False s1 }
             else find_any_address s1 }
      else find_any_address s)"

text \<open>The address to offer and the lease time to start from.\<close>

definition offer_address :: "dhcpMessage \<Rightarrow> dhcpd \<Rightarrow> (u32 \<times> u32 \<times> dhcpd) option" where
  "offer_address oldpacket s =
     do { (lease, s1) \<leftarrow> find_lease_by_chaddr (msg_chaddr oldpacket) s;
          case lease of
            Some i \<Rightarrow>
              let (expired, s2) = lease_expired i s1 in
              if expired then Some (l_yiaddr (leases s2 ! i), sc_lease (server_config s2), s2)
              else let (t, s3) = sys_time s2 in
                   Some (l_yiaddr (leases s3 ! i), l_expires (leases s3 ! i) - t, s3)
          | None \<Rightarrow>
              do { (req, s2) \<leftarrow> get_opt oldpacket DHCP_REQUESTED_IP s1;
                   (a, s3) \<leftarrow> (case req of
                                None \<Rightarrow> find_any_address s2
                              | Some k \<Rightarrow> do { r \<leftarrow> rd32 oldpacket k; requested_address r oldpacket s2 });
                   Some (a, sc_lease (server_config s3), s3) } }"

definition offer_lease_time :: "dhcpMessage \<Rightarrow> u32 \<Rightarrow> dhcpd \<Rightarrow> (u32 \<times> dhcpd) option" where
  "offer_lease_time oldpacket lt0 s =
     do { (k, s1) \<leftarrow> get_opt oldpacket DHCP_LEASE_TIME s;
          lt \<leftarrow> (case k of
                 None \<Rightarrow> Some lt0
               | Some j \<Rightarrow> map_option (\<lambda>t. if t > sc_lease (server_config s1) then sc_lease (server_config s1) else t)
                            (rd32 oldpacket j));
          Some (if lt < sc_min_lease (server_config s1) then sc_lease (server_config s1) else lt, s1) }"

definition sendOffer :: "dhcpMessage \<Rightarrow> dhcpd \<Rightarrow> (int \<times> dhcpd) option" where
  "sendOffer oldpacket s =
     do { packet \<leftarrow> init_packet oldpacket DHCPOFFER s;
          (yiaddr, lt0, s1) \<leftarrow> offer_address oldpacket s;
          if yiaddr = 0 then Some (-1, s1)
          else do { (r, s2) \<leftarrow> add_lease (msg_chaddr packet) yiaddr (sc_offer_time (server_config s1)) s1;
                    if r = None then Some (-1, s2)
                    else do { (lease_time, s3) \<leftarrow> offer_lease_time oldpacket lt0 s2;
                              p1 \<leftarrow> add_simple (set_yiaddr packet yiaddr) DHCP_LEASE_TIME lease_time;
                              p2 \<leftarrow> finish_packet p1 s3;
                              if \<not> os_logfile_ok s3 then None
                              else Some (send_packet p2 False s3) } } }"

definition sendNAK :: "dhcpMessage \<Rightarrow> dhcpd \<Rightarrow> (int \<times> dhcpd) option" where
  "sendNAK oldpacket s =
     do { packet \<leftarrow> init_packet oldpacket DHCPNAK s; Some (send_packet packet True s) }"

definition ack_lease_time :: "dhcpMessage \<Rightarrow> dhcpd \<Rightarrow> (u32 \<times> dhcpd) option" where
  "ack_lease_time oldpacket s =
     do { (k, s1) \<leftarrow> get_opt oldpacket DHCP_LEASE_TIME s;
          let lease = sc_lease (server_config s1);
          lt \<leftarrow> (case k of
                 None \<Rightarrow> Some lease
               | Some j \<Rightarrow> map_option (\<lambda>t. if t > lease then lease
                             else if t < sc_min_lease (server_config s1) then lease else t) (rd32 oldpacket j));
          Some (lt, s1) }"

definition sendACK :: "dhcpMessage \<Rightarrow> u32 \<Rightarrow> dhcpd \<Rightarrow> (int \<times> dhcpd) option" where
  "sendACK oldpacket yiaddr s =
     do { packet \<leftarrow> init_packet oldpacket DHCPACK s;
          (lease_time, s1) \<leftarrow> ack_lease_time oldpacket s;
          p1 \<leftarrow> add_simple (set_yiaddr packet yiaddr) DHCP_LEASE_TIME lease_time;
          p2 \<leftarrow> finish_packet p1 s1;
          let (ret, s2) = send_packet p2 False s1;
          if ret < 0 then Some (-1, s2)
          else do { (r, s3) \<leftarrow> add_lease (msg_chaddr p2) (msg_yiaddr p2) lease_time s2; Some (0, s3) } }"

definition send_inform :: "dhcpMessage \<Rightarrow> dhcpd \<Rightarrow> (int \<times> dhcpd) option" where
  "send_inform oldpacket s =
     do { packet \<leftarrow> init_packet oldpacket DHCPACK s;
          p1 \<leftarrow> finish_packet packet s;
          Some (send_packet p1 False s) }"

section \<open>Handling a message\<close>

definition set_hostname :: "nat \<Rightarrow> nat option \<Rightarrow> dhcpMessage \<Rightarrow> dhcpd \<Rightarrow> dhcpd" where
  "set_hostname i hostname packet s =
     (let l = leases s ! i;
          h = (case hostname of
                 None \<Rightarrow> buf_write (l_hostname l) 0 [0]
               | Some k \<Rightarrow>
                   let bytes = min (unat (packet ! (k - 1))) 63 in
                   buf_write (l_hostname l) 0 (strncpy (drop k packet) bytes @ [0]))
      in s\<lparr>leases := (leases s)[i := l\<lparr>l_hostname := h\<rparr>]\<rparr>)"

text \<open>The answer to a request of a client whose lease is entry \<open>i\<close>. The variables \<open>requested_align\<close> and
  \<open>server_id_align\<close> are used only when the option is present; without it they are 0 here.\<close>

definition known_request ::
    "nat \<Rightarrow> nat option \<Rightarrow> nat option \<Rightarrow> u32 \<Rightarrow> u32 \<Rightarrow> dhcpMessage \<Rightarrow> dhcpd \<Rightarrow> dhcpd option" where
  "known_request i requested server_id requested_align server_id_align packet s =
     (let yiaddr = l_yiaddr (leases s ! i) in
      if server_id \<noteq> None then
        if server_id_align = sc_server (server_config s) \<and> requested \<noteq> None \<and> requested_align = yiaddr
        then map_option snd (sendACK packet yiaddr s)
        else if server_id_align \<noteq> sc_server (server_config s) then Some s
        else map_option snd (sendNAK packet s)
      else if requested \<noteq> None then
        if yiaddr = requested_align then map_option snd (sendACK packet yiaddr s)
        else map_option snd (sendNAK packet s)
      else if yiaddr = msg_ciaddr packet then map_option snd (sendACK packet yiaddr s)
      else map_option snd (sendNAK packet s))"

text \<open>A client without a lease gets the address it asks for. In the first of the three places that do so the
  address acknowledged is read from the new entry.\<close>

definition grant :: "bool \<Rightarrow> u32 \<Rightarrow> nat option \<Rightarrow> dhcpMessage \<Rightarrow> dhcpd \<Rightarrow> dhcpd option" where
  "grant from_lease y hostname packet s =
     (if y < sc_start (server_config s) \<or> y > sc_end (server_config s) then map_option snd (sendNAK packet s)
      else do {
        (r, s1) \<leftarrow> add_lease (msg_chaddr packet) y (sc_offer_time (server_config s)) s;
        if r = None then map_option snd (sendNAK packet s1)
        else do {
          (lease, s2) \<leftarrow> find_lease_by_chaddr (msg_chaddr packet) s1;
          case lease of
            None \<Rightarrow> map_option snd (sendNAK packet s2)
          | Some i \<Rightarrow>
              do { (x, s3) \<leftarrow> sendACK packet (if from_lease then l_yiaddr (leases s2 ! i) else y) s2;
                   Some (set_hostname i hostname packet s3) } } })"

definition unknown_request ::
    "nat option \<Rightarrow> nat option \<Rightarrow> u32 \<Rightarrow> u32 \<Rightarrow> nat option \<Rightarrow> dhcpMessage \<Rightarrow> dhcpd \<Rightarrow> dhcpd option" where
  "unknown_request requested server_id requested_align server_id_align hostname packet s =
     (if server_id \<noteq> None then
        if server_id_align \<noteq> sc_server (server_config s) then Some s
        else if requested \<noteq> None then grant True requested_align hostname packet s
        else map_option snd (sendNAK packet s)
      else if requested \<noteq> None then grant False requested_align hostname packet s
      else if msg_ciaddr packet \<noteq> 0 then grant False (msg_ciaddr packet) hostname packet s
      else Some s)"

definition handle_request :: "nat option \<Rightarrow> dhcpMessage \<Rightarrow> dhcpd \<Rightarrow> dhcpd option" where
  "handle_request lease packet s =
     do { (requested, s1) \<leftarrow> get_opt packet DHCP_REQUESTED_IP s;
          (server_id, s2) \<leftarrow> get_opt packet DHCP_SERVER_ID s1;
          (hostname, s3) \<leftarrow> get_opt packet DHCP_HOST_NAME s2;
          requested_align \<leftarrow> (case requested of None \<Rightarrow> Some 0 | Some k \<Rightarrow> rd32 packet k);
          server_id_align \<leftarrow> (case server_id of None \<Rightarrow> Some 0 | Some k \<Rightarrow> rd32 packet k);
          case lease of
            Some i \<Rightarrow>
              do { s4 \<leftarrow> known_request i requested server_id requested_align server_id_align packet s3;
                   Some (set_hostname i hostname packet s4) }
          | None \<Rightarrow> unknown_request requested server_id requested_align server_id_align hostname packet s3 }"

definition handle_decline :: "nat option \<Rightarrow> dhcpd \<Rightarrow> dhcpd" where
  "handle_decline lease s =
     (case lease of
        None \<Rightarrow> s
      | Some i \<Rightarrow>
          let (t, s1) = sys_time s in
          s1\<lparr>leases := (leases s1)[i := (leases s1 ! i)
               \<lparr>l_chaddr := blank_chaddr, l_expires := t + sc_decline_time (server_config s1)\<rparr>]\<rparr>)"

definition handle_release :: "nat option \<Rightarrow> dhcpd \<Rightarrow> dhcpd" where
  "handle_release lease s =
     (case lease of
        None \<Rightarrow> s
      | Some i \<Rightarrow>
          let (t, s1) = sys_time s in
          s1\<lparr>leases := (leases s1)[i := (leases s1 ! i)\<lparr>l_expires := t\<rparr>]\<rparr>)"

definition handle_discover :: "dhcpMessage \<Rightarrow> dhcpd \<Rightarrow> dhcpd option" where
  "handle_discover packet s =
     do { (r, s1) \<leftarrow> sendOffer packet s;
          if r < 0 then map_option snd (sendOffer packet s1) else Some s1 }"

definition handle_message :: "u8 \<Rightarrow> nat option \<Rightarrow> dhcpMessage \<Rightarrow> dhcpd \<Rightarrow> dhcpd option" where
  "handle_message state lease packet s =
     (if state = DHCPDISCOVER then handle_discover packet s
      else if state = DHCPREQUEST then handle_request lease packet s
      else if state = DHCPDECLINE then Some (handle_decline lease s)
      else if state = DHCPRELEASE then Some (handle_release lease s)
      else if state = DHCPINFORM then map_option snd (send_inform packet s)
      else Some s)"

text \<open>One turn of the loop with a datagram, or with a failed read.\<close>

definition serve_datagram :: "u8 list option \<Rightarrow> dhcpd \<Rightarrow> dhcpd option" where
  "serve_datagram d s =
     do { (bytes, packet, viz) \<leftarrow> get_packet d (vizio_device s);
          let s1 = s\<lparr>vizio_device := viz\<rparr>;
          if bytes < 0 then Some s1
          else do {
            (k, s2) \<leftarrow> get_opt packet DHCP_MESSAGE_TYPE s1;
            case k of
              None \<Rightarrow> Some s2
            | Some j \<Rightarrow>
                do { (lease, s3) \<leftarrow> find_lease_by_chaddr (msg_chaddr packet) s2;
                     state \<leftarrow> rd8 packet j;
                     handle_message state lease packet s3 } } }"

end
