(* ===== verification/Dhcp_Server_Props.thy ===== *)
theory Dhcp_Server_Props
  imports Dhcp_Server
begin

text \<open>
  Properties of the DHCP server: it keeps the lease table consistent and answers every well-formed message; what
  its replies contain; and flaws of its request handling.
\<close>

section \<open>Messages and configurations\<close>

text \<open>A message as clients send it: a sequence of options, without overloading, in which every option that is read
  as an address or a time has the four bytes of it, and the message type its byte.\<close>

definition client_opts :: "u8 list list \<Rightarrow> bool" where
  "client_opts ds \<longleftrightarrow> (\<forall>d \<in> set ds. d ! 0 \<noteq> DHCP_OPTION_OVER
     \<and> (d ! 0 \<in> {DHCP_REQUESTED_IP, DHCP_LEASE_TIME, DHCP_SERVER_ID} \<longrightarrow> 6 \<le> length d)
     \<and> (d ! 0 = DHCP_MESSAGE_TYPE \<longrightarrow> 3 \<le> length d))"

definition msg_ok :: "dhcpMessage \<Rightarrow> u8 list list \<Rightarrow> bool" where
  "msg_ok p ds \<longleftrightarrow> length p = 548 \<and> field_is (msg_options p) ds \<and> client_opts ds"

text \<open>The data of an option, as the message has it.\<close>

definition opt_data :: "u8 list list \<Rightarrow> u8 \<Rightarrow> u8 list option" where
  "opt_data ds code = map_option (drop 2) (find (\<lambda>d. d ! 0 = code) ds)"

definition be32 :: "u8 list \<Rightarrow> u32" where
  "be32 b = mk32 (b ! 0) (b ! 1) (b ! 2) (b ! 3)"

lemma get_opt_ok:
  assumes p: "msg_ok p ds" and code: "code \<noteq> DHCP_PADDING" "code \<noteq> DHCP_END"
  obtains k s' where "get_opt p code s = Some (k, s')" "dhcpd_ok s \<Longrightarrow> dhcpd_ok s'" "same_env s s'" "leases s' = leases s"
    "n_uptime s' = n_uptime s" "n_arp s' = n_arp s" "d_out s' = d_out s" "n_send s' = n_send s"
    "k = None \<longleftrightarrow> opt_data ds code = None"
    "\<And>j. k = Some j \<Longrightarrow> \<exists>b. opt_data ds code = Some b \<and> 242 \<le> j \<and> sub_buf p j (length b) = b
        \<and> p ! (j - 1) = word_of_nat (length b) \<and> j + length b \<le> 548
        \<and> (code \<in> {DHCP_REQUESTED_IP, DHCP_LEASE_TIME, DHCP_SERVER_ID} \<longrightarrow> rd32 p j = Some (be32 b))
        \<and> (code = DHCP_MESSAGE_TYPE \<longrightarrow> rd8 p j = Some (b ! 0))"
proof -
  have f: "length p = 548" "field_is (drop 240 p) ds" "\<forall>d \<in> set ds. d ! 0 \<noteq> DHCP_OPTION_OVER"
    using p by (auto simp: msg_ok_def client_opts_def msg_options_def)
  obtain k v where k: "get_option p code (vizio_device s) = Some (k, v)"
    "case find (\<lambda>d. d ! 0 = code) ds of
         None \<Rightarrow> k = None
       | Some d \<Rightarrow> \<exists>j. k = Some j \<and> 242 \<le> j \<and> sub_buf p j (length d - 2) = drop 2 d \<and> p ! (j - 1) = d ! 1
                    \<and> j + (length d - 2) \<le> 548"
    using get_option_any [OF f code, of "vizio_device s"] by blast
  have data: "\<exists>b. opt_data ds code = Some b \<and> 242 \<le> j \<and> sub_buf p j (length b) = b
        \<and> p ! (j - 1) = word_of_nat (length b) \<and> j + length b \<le> 548
        \<and> (code \<in> {DHCP_REQUESTED_IP, DHCP_LEASE_TIME, DHCP_SERVER_ID} \<longrightarrow> rd32 p j = Some (be32 b))
        \<and> (code = DHCP_MESSAGE_TYPE \<longrightarrow> rd8 p j = Some (b ! 0))" if kj: "k = Some j" for j
  proof -
    obtain d where d: "find (\<lambda>d. d ! 0 = code) ds = Some d" using k(2) kj by (auto split: option.splits)
    then have m: "d \<in> set ds" "d ! 0 = code" by (auto simp: find_Some_iff)
    then have ok: "opt_ok d" using f(2) by (auto simp: field_is_def list_all_iff)
    let ?b = "drop 2 d"
    have j: "242 \<le> j" "sub_buf p j (length ?b) = ?b" "p ! (j - 1) = d ! 1" "j + length ?b \<le> 548"
      using k(2) d kj by auto
    have l: "d ! 1 = word_of_nat (length ?b)" using ok by (simp add: opt_ok_def)
    have nth: "p ! (j + i) = ?b ! i" if "i < length ?b" for i
      using arg_cong [OF j(2), of "\<lambda>xs. xs ! i"] that f(1) j(4) by (simp add: sub_buf_def)
    have "rd32 p j = Some (be32 ?b)" if "code \<in> {DHCP_REQUESTED_IP, DHCP_LEASE_TIME, DHCP_SERVER_ID}"
    proof -
      have "6 \<le> length d" using p m that by (auto simp: msg_ok_def client_opts_def)
      then show ?thesis using nth [of 0] nth [of 1] nth [of 2] nth [of 3] j(4) f(1)
        by (simp add: rd32_def be32_def)
    qed
    moreover have "rd8 p j = Some (?b ! 0)" if "code = DHCP_MESSAGE_TYPE"
    proof -
      have "3 \<le> length d" using p m that by (auto simp: msg_ok_def client_opts_def)
      then show ?thesis using nth [of 0] j(4) f(1) by (simp add: rd8_def)
    qed
    ultimately show ?thesis using j l d by (auto simp: opt_data_def)
  qed
  have iff: "k = None \<longleftrightarrow> opt_data ds code = None" using k(2) by (auto simp: opt_data_def split: option.splits)
  let ?s = "s\<lparr>vizio_device := v\<rparr>"
  have "get_opt p code s = Some (k, ?s)" using k(1) by (simp add: get_opt_def)
  moreover have "dhcpd_ok s \<Longrightarrow> dhcpd_ok ?s" "same_env s ?s"
    by (simp_all add: dhcpd_ok_def max_leases_def same_env_def same_conf_def)
  ultimately show ?thesis using that [of k ?s] iff data by simp
qed

section \<open>Building a reply\<close>

lemma drop_buf_write:
  "off + length bs \<le> n \<Longrightarrow> off + length bs \<le> length b \<Longrightarrow> drop n (buf_write b off bs) = drop n b"
  by (simp add: buf_write_def)

lemma sub_buf_set_options: "off + n \<le> 240 \<Longrightarrow> 240 \<le> length p \<Longrightarrow> sub_buf (set_options p opts) off n = sub_buf p off n"
  by (simp add: set_options_def sub_buf_def drop_take)

lemma msg_options_set [simp]: "240 \<le> length p \<Longrightarrow> msg_options (set_options p opts) = opts"
  by (simp add: set_options_def msg_options_def)

lemma length_set_options: "240 \<le> length p \<Longrightarrow> length (set_options p opts) = 240 + length opts"
  by (simp add: set_options_def)

lemma sub_buf_4: "off + 3 < length p \<Longrightarrow> sub_buf p off 4 = [p ! off, p ! (off + 1), p ! (off + 2), p ! (off + 3)]"
  by (rule nth_equalityI) (auto simp: sub_buf_def less_Suc_eq numeral_eq_Suc)

lemma bytes32_msg32: "off + 3 < length p \<Longrightarrow> bytes32 (msg32 p off) = sub_buf p off 4"
  by (simp add: sub_buf_4 msg32_def)

lemma msg32_sub_buf: "off + 3 < length p \<Longrightarrow> sub_buf p off 4 = bytes32 w \<Longrightarrow> msg32 p off = w"
  by (metis bytes32_inj bytes32_msg32)

lemma bytes16_inj: "bytes16 v = bytes16 w \<longleftrightarrow> v = w"
  by (metis bytes16_def list.inject mk16_hi_lo)

lemma bytes16_flags: "12 \<le> length p \<Longrightarrow> bytes16 (msg_flags p) = sub_buf p 10 2"
  by (rule nth_equalityI) (auto simp: msg_flags_def bytes16_def sub_buf_def less_Suc_eq numeral_eq_Suc)

text \<open>A reply to \<open>old\<close>: the header fields that identify client and transaction are those of the message.\<close>

definition reply_to :: "dhcpMessage \<Rightarrow> dhcpMessage \<Rightarrow> bool" where
  "reply_to old p \<longleftrightarrow> length p = 548 \<and> msg_op p = BOOTREPLY \<and> msg_xid p = msg_xid old \<and> msg_chaddr p = msg_chaddr old
     \<and> msg_flags p = msg_flags old \<and> msg_giaddr p = msg_giaddr old \<and> msg_ciaddr p = msg_ciaddr old
     \<and> msg_cookie p = DHCP_MAGIC"

lemma reply_to_iff:
  assumes "length p = 548" "length old = 548"
  shows "reply_to old p \<longleftrightarrow> sub_buf p 0 1 = [BOOTREPLY] \<and> sub_buf p 4 4 = sub_buf old 4 4
    \<and> sub_buf p 28 16 = sub_buf old 28 16 \<and> sub_buf p 10 2 = sub_buf old 10 2
    \<and> sub_buf p 24 4 = sub_buf old 24 4 \<and> sub_buf p 12 4 = sub_buf old 12 4 \<and> sub_buf p 236 4 = bytes32 DHCP_MAGIC"
proof -
  have "bytes16 (msg_flags p) = sub_buf p 10 2" "bytes16 (msg_flags old) = sub_buf old 10 2"
    using assms by (simp_all add: bytes16_flags)
  then have "msg_flags p = msg_flags old \<longleftrightarrow> sub_buf p 10 2 = sub_buf old 10 2" by (metis bytes16_inj)
  moreover have "msg32 p k = msg32 old k \<longleftrightarrow> sub_buf p k 4 = sub_buf old k 4" if "k < 100" for k
  proof -
    have "bytes32 (msg32 p k) = sub_buf p k 4" "bytes32 (msg32 old k) = sub_buf old k 4"
      using assms that by (simp_all add: bytes32_msg32)
    then show ?thesis by (metis bytes32_inj)
  qed
  moreover have "msg_cookie p = DHCP_MAGIC \<longleftrightarrow> sub_buf p 236 4 = bytes32 DHCP_MAGIC"
    using assms(1) bytes32_msg32 [of 236 p] bytes32_inj by (auto simp: msg_cookie_def)
  moreover have "msg_op p = BOOTREPLY \<longleftrightarrow> sub_buf p 0 1 = [BOOTREPLY]"
    using assms by (cases p) (simp_all add: msg_op_def sub_buf_def)
  ultimately show ?thesis
    using assms by (auto simp: reply_to_def msg_xid_def msg_chaddr_def msg_giaddr_def msg_ciaddr_def)
qed

lemma reply_to_sub:
  "reply_to old p \<Longrightarrow> length old = 548 \<Longrightarrow> length p' = 548 \<Longrightarrow>
   (\<And>off n. (off, n) \<in> {(0, 1), (4, 4), (28, 16), (10, 2), (24, 4), (12, 4), (236, 4)} \<Longrightarrow> sub_buf p' off n = sub_buf p off n) \<Longrightarrow>
   reply_to old p'"
  using reply_to_iff [of p old] reply_to_iff [of p' old] by (simp add: reply_to_def)

lemma simple_lengths [simp]:
  "simple_length DHCP_MESSAGE_TYPE = 1" "simple_length DHCP_SERVER_ID = 4" "simple_length DHCP_LEASE_TIME = 4"
  by (simp_all add: simple_length_def options_def mk_option_def dhcp_codes)

lemma simple_option_codes:
  assumes "code \<in> {DHCP_MESSAGE_TYPE, DHCP_SERVER_ID, DHCP_LEASE_TIME}"
  shows "opt_ok (simple_option code data)"
    "add_simple_option b code data = add_option_string b (Some (simple_option code data))"
    "simple_option code data ! 0 = code" "length (simple_option code data) \<le> 6"
proof -
  have "simple_length code \<noteq> 0" "code \<noteq> DHCP_PADDING" "code \<noteq> DHCP_END"
    using assms by (auto simp: dhcp_codes simple_length_def options_def mk_option_def)
  from simple_option_ok [OF this] show "opt_ok (simple_option code data)"
    "add_simple_option b code data = add_option_string b (Some (simple_option code data))" by blast+
  show "simple_option code data ! 0 = code" by (simp add: simple_option_def)
  show "length (simple_option code data) \<le> 6"
    using assms by (auto simp: simple_option_def simple_data_def)
qed

lemma add_simple_ok:
  assumes p: "length p = 548" "field_is (msg_options p) ds" "length (concat ds) < 300"
    and code: "code \<in> {DHCP_MESSAGE_TYPE, DHCP_SERVER_ID, DHCP_LEASE_TIME}"
  obtains p' where "add_simple p code data = Some p'" "length p' = 548"
    "field_is (msg_options p') (ds @ [simple_option code data])"
    "\<And>off n. off + n \<le> 240 \<Longrightarrow> sub_buf p' off n = sub_buf p off n"
proof -
  obtain n b where b: "add_option_string (msg_options p) (Some (simple_option code data)) = Some (n, b)"
    "field_is b (ds @ [simple_option code data])"
    using add_option_string_field [OF p(2) simple_option_codes(1) [OF code, of data]]
      simple_option_codes(4) [OF code, of data] p(3) by auto
  then have l: "length b = 308" by (simp add: field_is_def)
  show ?thesis
    by (rule that [of "set_options p b"])
      (use b p l simple_option_codes(2) [OF code] in
        \<open>simp_all add: add_simple_def length_set_options sub_buf_set_options\<close>)
qed

lemma init_header_ok:
  obtains p where "init_header type = Some p" "length p = 548" "sub_buf p 0 1 = [header_op type]"
    "field_is (msg_options p) [simple_option DHCP_MESSAGE_TYPE (ucast type)]"
proof -
  let ?p = "[header_op type, ETH_10MB, ETH_10MB_LEN] @ replicate 233 0 @ bytes32 DHCP_MAGIC @ DHCP_END # replicate 307 0"
  have o: "msg_options ?p = DHCP_END # replicate 307 0" by (simp add: msg_options_def bytes32_def)
  have f: "field_is (msg_options ?p) []" unfolding o by (simp add: field_is_def)
  obtain p' where p': "add_simple ?p DHCP_MESSAGE_TYPE (ucast type) = Some p'" "length p' = 548"
    "field_is (msg_options p') ([] @ [simple_option DHCP_MESSAGE_TYPE (ucast type)])"
    "\<And>off n. off + n \<le> 240 \<Longrightarrow> sub_buf p' off n = sub_buf ?p off n"
    using add_simple_ok [OF _ f, of DHCP_MESSAGE_TYPE "ucast type"] by auto
  have "init_header type = Some p'"
    using p'(1) unfolding init_header_def add_simple_def Let_def
    by (cases "add_simple_option (msg_options ?p) DHCP_MESSAGE_TYPE (ucast type)") auto
  moreover have "sub_buf p' 0 1 = [header_op type]" using p'(4) [of 0 1] by (simp add: sub_buf_def)
  ultimately show ?thesis using that p' by simp
qed

lemma init_header_head:
  "init_header type = Some p \<Longrightarrow>
   take 240 p = [header_op type, ETH_10MB, ETH_10MB_LEN] @ replicate 233 0 @ bytes32 DHCP_MAGIC"
  by (auto simp: init_header_def Let_def set_options_def bytes32_def split: bind_splits)

lemma sub_buf_take: "off + n \<le> k \<Longrightarrow> sub_buf (take k p) off n = sub_buf p off n"
  by (simp add: sub_buf_def drop_take)

lemma init_header_fields:
  assumes "init_header type = Some p"
  shows "sub_buf p 44 192 = replicate 192 0" "sub_buf p 236 4 = bytes32 DHCP_MAGIC"
proof -
  have "sub_buf (take 240 p) 44 192 = replicate 192 0" "sub_buf (take 240 p) 236 4 = bytes32 DHCP_MAGIC"
    unfolding init_header_head [OF assms] by (simp_all add: sub_buf_def)
  then show "sub_buf p 44 192 = replicate 192 0" "sub_buf p 236 4 = bytes32 DHCP_MAGIC" by (simp_all add: sub_buf_take)
qed

lemma init_packet_ok:
  assumes old: "length old = 548" and type: "type \<in> {DHCPOFFER, DHCPACK, DHCPNAK}"
  obtains p where "init_packet old type s = Some p" "reply_to old p"
    "field_is (msg_options p) [simple_option DHCP_MESSAGE_TYPE (ucast type),
       simple_option DHCP_SERVER_ID (sc_server (server_config s))]"
    "sub_buf p 44 192 = replicate 192 0"
proof -
  obtain p where p: "init_header type = Some p" "length p = 548" "sub_buf p 0 1 = [header_op type]"
    "field_is (msg_options p) [simple_option DHCP_MESSAGE_TYPE (ucast type)]" by (rule init_header_ok)
  let ?q = "copy_header p old"
  have l: "length (msg_xid old) = 4" "length (msg_chaddr old) = 16"
    using old by (simp_all add: msg_xid_def msg_chaddr_def sub_buf_def)
  have q: "length ?q = 548" "msg_options ?q = msg_options p"
    using p(2) l by (simp_all add: copy_header_def length_buf_write msg_options_def drop_buf_write)
  have "header_op type = BOOTREPLY" using type by (auto simp: header_op_def dhcp_types)
  then have r: "reply_to old ?q"
    unfolding reply_to_iff [OF q(1) old]
    using p(2,3) l old init_header_fields(2) [OF p(1)]
    by (simp add: copy_header_def length_sub_buf sub_buf_write_same sub_buf_write_other length_buf_write bytes16_flags msg_giaddr_def
        msg_ciaddr_def bytes32_msg32 msg_xid_def msg_chaddr_def)
  have "length (concat [simple_option DHCP_MESSAGE_TYPE (ucast type)]) < 300"
    using simple_option_codes(4) [of DHCP_MESSAGE_TYPE "ucast type"] by simp
  then obtain p' where p': "add_simple ?q DHCP_SERVER_ID (sc_server (server_config s)) = Some p'" "length p' = 548"
    "field_is (msg_options p') ([simple_option DHCP_MESSAGE_TYPE (ucast type)] @
        [simple_option DHCP_SERVER_ID (sc_server (server_config s))])"
    "\<And>off n. off + n \<le> 240 \<Longrightarrow> sub_buf p' off n = sub_buf ?q off n"
    using add_simple_ok [OF q(1), of "[simple_option DHCP_MESSAGE_TYPE (ucast type)]" DHCP_SERVER_ID] q(2) p(4) by auto
  have "reply_to old p'" by (rule reply_to_sub [OF r old p'(2)]) (use p'(4) in auto)
  moreover have "sub_buf p' 44 192 = replicate 192 0"
    using p(2) l init_header_fields(1) [OF p(1)] p'(4) [of 44 192]
    by (simp add: copy_header_def sub_buf_write_other length_buf_write)
  ultimately show ?thesis using that [of p'] p p' by (simp add: init_packet_def)
qed

text \<open>A configuration and surroundings with which the server works: well-formed options, ARP tests that end, a log
  file that can be opened, and a range that does not end with the last address.\<close>

definition config_ok :: "dhcpd \<Rightarrow> bool" where
  "config_ok s \<longleftrightarrow> env_ok s \<and> os_logfile_ok s \<and> sc_end (server_config s) < - 1
     \<and> list_all opt_ok (sc_options (server_config s))
     \<and> (\<forall>d \<in> set (sc_options (server_config s)). d ! 0 \<noteq> DHCP_OPTION_OVER)"

lemma config_ok_conf: "same_conf s s' \<Longrightarrow> config_ok s' = config_ok s"
  by (simp add: config_ok_def env_ok_def same_conf_def)

lemma config_ok_same: "same_env s s' \<Longrightarrow> config_ok s' = config_ok s"
  by (simp add: same_env_def config_ok_conf)

lemma length_strncpy [simp]: "length (strncpy src n) = n"
proof -
  have "length (takeWhile (\<lambda>x. x \<noteq> 0) (take n src)) \<le> n"
    using length_takeWhile_le [of "\<lambda>x. x \<noteq> 0" "take n src"] by simp
  then show ?thesis by (simp add: strncpy_def Let_def)
qed

lemma add_config_options_ok:
  "field_is opts ds \<Longrightarrow> list_all opt_ok cs \<Longrightarrow>
   \<exists>opts' ds'. add_config_options cs opts = Some opts' \<and> field_is opts' (ds @ ds') \<and> set ds' \<subseteq> set cs"
proof (induction cs arbitrary: opts ds)
  case Nil
  then show ?case by (intro exI [of _ opts] exI [of _ "[]"]) simp
next
  case (Cons c cs)
  show ?case
  proof (cases "c ! 0 = DHCP_LEASE_TIME")
    case True
    then show ?thesis using Cons.IH [OF Cons.prems(1)] Cons.prems(2) by fastforce
  next
    case False
    obtain n b where b: "add_option_string opts (Some c) = Some (n, b)"
      "field_is b (ds @ [c]) \<or> b = opts"
      using add_option_string_field [OF Cons.prems(1), of c] Cons.prems(2) by (auto split: if_splits)
    have "\<exists>ds1. field_is b (ds @ ds1) \<and> set ds1 \<subseteq> {c}"
      using b(2) Cons.prems(1) by (metis append.right_neutral empty_set empty_subsetI list.set(2) order_refl)
    then obtain ds1 where ds1: "field_is b (ds @ ds1)" "set ds1 \<subseteq> {c}" by blast
    obtain opts' ds' where "add_config_options cs b = Some opts'" "field_is opts' ((ds @ ds1) @ ds')" "set ds' \<subseteq> set cs"
      using Cons.IH [OF ds1(1)] Cons.prems(2) by auto
    then show ?thesis
      using b(1) False ds1(2) by (intro exI [of _ opts'] exI [of _ "ds1 @ ds'"]) auto
  qed
qed

text \<open>No server name and no boot file are configured.\<close>

definition no_bootp :: "dhcpd \<Rightarrow> bool" where
  "no_bootp s \<longleftrightarrow> sc_sname (server_config s) = None \<and> sc_boot_file (server_config s) = None"

lemma add_bootp_options_frame:
  assumes "length p = 548"
  shows "length (add_bootp_options p s) = 548" "msg_options (add_bootp_options p s) = msg_options p"
    "off + n \<le> 20 \<or> 24 \<le> off \<and> (off + n \<le> 44 \<or> 235 \<le> off \<or> no_bootp s) \<Longrightarrow>
      sub_buf (add_bootp_options p s) off n = sub_buf p off n"
  using assms
  by (auto simp: no_bootp_def add_bootp_options_def Let_def length_buf_write msg_options_def drop_buf_write sub_buf_write_other
      split: option.splits)

lemma finish_packet_ok:
  assumes p: "length p = 548" "field_is (msg_options p) ds" and s: "config_ok s"
  obtains p' ds' where "finish_packet p s = Some p'" "length p' = 548" "field_is (msg_options p') (ds @ ds')"
    "set ds' \<subseteq> set (sc_options (server_config s))"
    "\<And>off n. off + n \<le> 20 \<or> 24 \<le> off \<and> (off + n \<le> 44 \<or> 235 \<le> off \<or> no_bootp s) \<and> off + n \<le> 240 \<Longrightarrow>
      sub_buf p' off n = sub_buf p off n"
proof -
  obtain opts ds' where o: "add_config_options (sc_options (server_config s)) (msg_options p) = Some opts"
    "field_is opts (ds @ ds')" "set ds' \<subseteq> set (sc_options (server_config s))"
    using add_config_options_ok [OF p(2), of "sc_options (server_config s)"] s unfolding config_ok_def by blast
  have l: "length (set_options p opts) = 548" using p(1) o(2) by (simp add: length_set_options field_is_def)
  show ?thesis
    by (rule that [of "add_bootp_options (set_options p opts) s" ds'])
      (use o p l in \<open>auto simp: finish_packet_def add_bootp_options_frame sub_buf_set_options\<close>)
qed

section \<open>Sending a reply\<close>

lemma out_message_raw: "drop 28 (udp_dhcp_packet p si sp di dp) = p"
  by (simp add: udp_dhcp_packet_eq ip_header_def udp_datagram_def bytes16_def bytes32_def)

lemma raw_packet_out:
  "\<exists>r out. raw_packet env p si sp di dp da i = (r, out) \<and> List.map_filter out_message out \<in> {[], [p]}
     \<and> (0 \<le> r \<longrightarrow> List.map_filter out_message out = [p])"
  by (simp add: raw_packet_def out_message_raw List.map_filter_simps)

lemma kernel_packet_out:
  "\<exists>r out. kernel_packet env p si sp di dp = (r, out) \<and> List.map_filter out_message out \<in> {[], [p]}
     \<and> (0 \<le> r \<longrightarrow> List.map_filter out_message out = [p])"
  by (simp add: kernel_packet_def List.map_filter_simps)

lemma send_packet_out:
  "\<exists>r out. send_packet p b s = sent (r, out) s \<and> List.map_filter out_message out \<in> {[], [p]}
     \<and> (0 \<le> r \<longrightarrow> List.map_filter out_message out = [p])"
proof (cases "msg_giaddr p = 0")
  case True
  obtain a c where c: "client_addr p b = (a, c)" by fastforce
  obtain r out where "raw_packet (os_send s (n_send s)) p (sc_server (server_config s)) SERVER_PORT a CLIENT_PORT c
      (sc_ifindex (server_config s)) = (r, out)" "List.map_filter out_message out \<in> {[], [p]}"
    "0 \<le> r \<longrightarrow> List.map_filter out_message out = [p]"
    using raw_packet_out [of "os_send s (n_send s)" p "sc_server (server_config s)" SERVER_PORT a CLIENT_PORT c
        "sc_ifindex (server_config s)"] by (elim exE conjE) (rule that)
  then show ?thesis
    using True c by (intro exI [of _ r] exI [of _ out]) (simp add: send_packet_def send_packet_to_client_def)
next
  case False
  obtain r out where "kernel_packet (os_send s (n_send s)) p (sc_server (server_config s)) SERVER_PORT
      (msg_giaddr p) SERVER_PORT = (r, out)" "List.map_filter out_message out \<in> {[], [p]}"
    "0 \<le> r \<longrightarrow> List.map_filter out_message out = [p]"
    using kernel_packet_out [of "os_send s (n_send s)" p "sc_server (server_config s)" SERVER_PORT "msg_giaddr p"
        SERVER_PORT] by (elim exE conjE) (rule that)
  then show ?thesis
    using False by (intro exI [of _ r] exI [of _ out]) (simp add: send_packet_def send_packet_to_relay_def)
qed

lemma send_packet_ok:
  obtains r s' where "send_packet p b s = (r, s')" "dhcpd_ok s \<Longrightarrow> dhcpd_ok s'" "same_conf s s'" "leases s' = leases s"
    "n_uptime s' = n_uptime s" "replies s' = replies s \<or> replies s' = replies s @ [p]"
    "0 \<le> r \<Longrightarrow> replies s' = replies s @ [p]"
proof -
  obtain r out where o: "send_packet p b s = sent (r, out) s" "List.map_filter out_message out \<in> {[], [p]}"
    "0 \<le> r \<longrightarrow> List.map_filter out_message out = [p]"
    using send_packet_out [of p b s] by (elim exE conjE) (rule that)
  show ?thesis
    by (rule that [of r "snd (sent (r, out) s)"])
      (use o in \<open>auto simp: sent_def dhcpd_ok_def same_conf_def max_leases_def\<close>)
qed

section \<open>Every reply is well-formed\<close>

text \<open>A reply of a type to a message: the identifying fields of the message, the address, and as options the message
  type, the address of the server and the further options.\<close>

definition reply :: "u8 \<Rightarrow> dhcpMessage \<Rightarrow> u32 \<Rightarrow> u8 list list \<Rightarrow> dhcpd \<Rightarrow> dhcpMessage \<Rightarrow> bool" where
  "reply type old y ds s p \<longleftrightarrow> reply_to old p \<and> msg_yiaddr p = y
     \<and> (\<exists>cds. field_is (msg_options p) ([simple_option DHCP_MESSAGE_TYPE (ucast type),
            simple_option DHCP_SERVER_ID (sc_server (server_config s))] @ ds @ cds)
          \<and> set cds \<subseteq> set (sc_options (server_config s)))
     \<and> (no_bootp s \<longrightarrow> sub_buf p 44 192 = replicate 192 0)"

lemma reply_conf: "same_conf s s' \<Longrightarrow> reply type old y ds s' p = reply type old y ds s p"
  by (simp add: reply_def same_conf_def no_bootp_def)

lemma field_prefix_length:
  "length (concat [simple_option DHCP_MESSAGE_TYPE x, simple_option DHCP_SERVER_ID y]) < 300"
  using simple_option_codes(4) [of DHCP_MESSAGE_TYPE x] simple_option_codes(4) [of DHCP_SERVER_ID y] by simp

text \<open>The steps from the first header to the finished message with a lease time.\<close>

lemma lease_reply_ok:
  assumes old: "length old = 548" and s: "config_ok s"
    and p: "reply_to old p" "field_is (msg_options p) [simple_option DHCP_MESSAGE_TYPE (ucast type),
       simple_option DHCP_SERVER_ID (sc_server (server_config s))]" "sub_buf p 44 192 = replicate 192 0"
  obtains p1 p2 where "add_simple (set_yiaddr p y) DHCP_LEASE_TIME lt = Some p1" "finish_packet p1 s = Some p2"
    "reply type old y [simple_option DHCP_LEASE_TIME lt] s p2"
proof -
  let ?q = "set_yiaddr p y"
  have lp: "length p = 548" using p(1) by (simp add: reply_to_def)
  have q: "length ?q = 548" "msg_options ?q = msg_options p" "sub_buf ?q 16 4 = bytes32 y"
    using lp by (simp_all add: set_yiaddr_def length_buf_write msg_options_def drop_buf_write sub_buf_write_same)
  have fq: "field_is (msg_options ?q) [simple_option DHCP_MESSAGE_TYPE (ucast type),
       simple_option DHCP_SERVER_ID (sc_server (server_config s))]" using q(2) p(2) by simp
  obtain p1 where p1: "add_simple ?q DHCP_LEASE_TIME lt = Some p1" "length p1 = 548"
    "field_is (msg_options p1) ([simple_option DHCP_MESSAGE_TYPE (ucast type),
       simple_option DHCP_SERVER_ID (sc_server (server_config s))] @ [simple_option DHCP_LEASE_TIME lt])"
    "\<And>off n. off + n \<le> 240 \<Longrightarrow> sub_buf p1 off n = sub_buf ?q off n"
    using add_simple_ok [OF q(1) fq field_prefix_length, of DHCP_LEASE_TIME lt] by blast
  obtain p2 cds where p2: "finish_packet p1 s = Some p2" "length p2 = 548"
    "field_is (msg_options p2) (([simple_option DHCP_MESSAGE_TYPE (ucast type),
       simple_option DHCP_SERVER_ID (sc_server (server_config s))] @ [simple_option DHCP_LEASE_TIME lt]) @ cds)"
    "set cds \<subseteq> set (sc_options (server_config s))"
    "\<And>off n. off + n \<le> 20 \<or> 24 \<le> off \<and> (off + n \<le> 44 \<or> 235 \<le> off \<or> no_bootp s) \<and> off + n \<le> 240 \<Longrightarrow>
      sub_buf p2 off n = sub_buf p1 off n"
    by (rule finish_packet_ok [OF p1(2,3) s]) blast
  have "sub_buf p2 off n = sub_buf p off n" if "(off, n) \<in> {(0, 1), (4, 4), (28, 16), (10, 2), (24, 4), (12, 4), (236, 4)}" for off n
  proof -
    have "sub_buf p2 off n = sub_buf ?q off n" using that p2(5) p1(4) by auto
    also have "\<dots> = sub_buf p off n" using that lp by (auto simp: set_yiaddr_def sub_buf_write_other)
    finally show ?thesis .
  qed
  then have "reply_to old p2" by (rule reply_to_sub [OF p(1) old p2(2)])
  moreover have "msg_yiaddr p2 = y"
    unfolding msg_yiaddr_def using p2(2,5) p1(4) q(3) by (intro msg32_sub_buf) simp_all
  moreover have "sub_buf p2 44 192 = replicate 192 0" if "no_bootp s"
    using that p2(5) [of 44 192] p1(4) [of 44 192] p(3) lp by (simp add: set_yiaddr_def sub_buf_write_other)
  ultimately have "reply type old y [simple_option DHCP_LEASE_TIME lt] s p2"
    using p2(3,4) by (auto simp: reply_def)
  then show ?thesis using that p1(1) p2(1) by blast
qed

lemma sendNAK_ok:
  assumes ok: "dhcpd_ok s" and old: "length old = 548"
  obtains r s' p where "sendNAK old s = Some (r, s')" "dhcpd_ok s'" "same_conf s s'" "leases s' = leases s"
    "reply_to old p" "field_is (msg_options p) [simple_option DHCP_MESSAGE_TYPE (ucast DHCPNAK),
       simple_option DHCP_SERVER_ID (sc_server (server_config s))]"
    "replies s' = replies s \<or> replies s' = replies s @ [p]"
proof -
  obtain p where p: "init_packet old DHCPNAK s = Some p" "reply_to old p"
    "field_is (msg_options p) [simple_option DHCP_MESSAGE_TYPE (ucast DHCPNAK),
       simple_option DHCP_SERVER_ID (sc_server (server_config s))]"
    using init_packet_ok [OF old, of DHCPNAK s] by blast
  obtain r s' where s': "send_packet p True s = (r, s')" "dhcpd_ok s \<Longrightarrow> dhcpd_ok s'" "same_conf s s'"
    "leases s' = leases s" "replies s' = replies s \<or> replies s' = replies s @ [p]"
    using send_packet_ok [of p True s] by blast
  show ?thesis by (rule that [of r s' p]) (use p s' ok in \<open>simp_all add: sendNAK_def\<close>)
qed

text \<open>The lease time of an acknowledgement: what the client asks for, within the limits.\<close>

definition ack_time :: "u8 list list \<Rightarrow> dhcpd \<Rightarrow> u32" where
  "ack_time ds s =
     (let lease = sc_lease (server_config s) in
      case opt_data ds DHCP_LEASE_TIME of
        None \<Rightarrow> lease
      | Some b \<Rightarrow> if be32 b > lease \<or> be32 b < sc_min_lease (server_config s) then lease else be32 b)"

lemma ack_lease_time_ok:
  assumes m: "msg_ok old ds"
  obtains s' where "ack_lease_time old s = Some (ack_time ds s, s')" "dhcpd_ok s \<Longrightarrow> dhcpd_ok s'" "same_env s s'"
    "leases s' = leases s" "n_uptime s' = n_uptime s"
proof -
  obtain k s' where k: "get_opt old DHCP_LEASE_TIME s = Some (k, s')" "dhcpd_ok s \<Longrightarrow> dhcpd_ok s'" "same_env s s'"
    "leases s' = leases s" "n_uptime s' = n_uptime s" "k = None \<longleftrightarrow> opt_data ds DHCP_LEASE_TIME = None"
    "\<And>j. k = Some j \<Longrightarrow> \<exists>b. opt_data ds DHCP_LEASE_TIME = Some b \<and> rd32 old j = Some (be32 b)"
    by (rule get_opt_ok [OF m, of DHCP_LEASE_TIME s]) (auto simp: dhcp_codes)
  have "ack_lease_time old s = Some (ack_time ds s, s')"
  proof (cases k)
    case None
    then show ?thesis using k by (simp add: ack_lease_time_def ack_time_def same_env_config Let_def)
  next
    case (Some j)
    then show ?thesis using k(1,3) k(7) [OF Some]
      by (auto simp: ack_lease_time_def ack_time_def same_env_config Let_def)
  qed
  then show ?thesis using that k by blast
qed

lemma sendACK_ok:
  assumes ok: "dhcpd_ok s" and conf: "config_ok s" and m: "msg_ok old ds"
  obtains r s' p where "sendACK old y s = Some (r, s')" "dhcpd_ok s'" "same_conf s s'"
    "reply DHCPACK old y [simple_option DHCP_LEASE_TIME (ack_time ds s)] s p"
    "replies s' = replies s \<or> replies s' = replies s @ [p]"
    "r = 0 \<and> replies s' = replies s @ [p]
       \<and> (\<exists>q s2. add_lease (msg_chaddr old) y (ack_time ds s) s2 = Some (q, s') \<and> dhcpd_ok s2 \<and> same_conf s s2
            \<and> leases s2 = leases s \<and> n_uptime s2 = n_uptime s)
     \<or> r = - 1 \<and> leases s' = leases s"
proof -
  have old: "length old = 548" using m by (simp add: msg_ok_def)
  obtain p where p: "init_packet old DHCPACK s = Some p" "reply_to old p"
    "field_is (msg_options p) [simple_option DHCP_MESSAGE_TYPE (ucast DHCPACK),
       simple_option DHCP_SERVER_ID (sc_server (server_config s))]" "sub_buf p 44 192 = replicate 192 0"
    using init_packet_ok [OF old, of DHCPACK s] by blast
  obtain s1 where s1: "ack_lease_time old s = Some (ack_time ds s, s1)" "dhcpd_ok s \<Longrightarrow> dhcpd_ok s1" "same_env s s1"
    "leases s1 = leases s" "n_uptime s1 = n_uptime s"
    using ack_lease_time_ok [OF m] by blast
  have c1: "same_conf s s1" using s1(3) by (rule same_env_conf)
  then have p': "field_is (msg_options p) [simple_option DHCP_MESSAGE_TYPE (ucast DHCPACK),
       simple_option DHCP_SERVER_ID (sc_server (server_config s1))]" using p(3) by (simp add: same_conf_def)
  have conf1: "config_ok s1" using conf c1 by (simp add: config_ok_conf)
  obtain p1 p2 where p2: "add_simple (set_yiaddr p y) DHCP_LEASE_TIME (ack_time ds s) = Some p1"
    "finish_packet p1 s1 = Some p2" "reply DHCPACK old y [simple_option DHCP_LEASE_TIME (ack_time ds s)] s1 p2"
    using lease_reply_ok [OF old conf1 p(2) p' p(4)] by blast
  obtain r s2 where s2: "send_packet p2 False s1 = (r, s2)" "dhcpd_ok s1 \<Longrightarrow> dhcpd_ok s2" "same_conf s1 s2"
    "leases s2 = leases s1" "n_uptime s2 = n_uptime s1" "replies s2 = replies s1 \<or> replies s2 = replies s1 @ [p2]"
    "0 \<le> r \<Longrightarrow> replies s2 = replies s1 @ [p2]"
    using send_packet_ok [of p2 False s1] by blast
  have r2: "reply DHCPACK old y [simple_option DHCP_LEASE_TIME (ack_time ds s)] s p2"
    using p2(3) reply_conf [OF c1] by simp
  then have f: "msg_chaddr p2 = msg_chaddr old" "msg_yiaddr p2 = y" by (simp_all add: reply_def reply_to_def)
  have e1: "replies s1 = replies s" using s1(3) by (simp add: same_env_def)
  have c2: "same_conf s s2" using same_conf_trans [OF c1 s2(3)] .
  show ?thesis
  proof (cases "r < 0")
    case True
    then show ?thesis
      using that [of "- 1" s2 p2] p s1 p2 s2 r2 ok c2 e1 by (simp add: sendACK_def Let_def)
  next
    case False
    have l: "length (msg_chaddr old) = 16" using old by (simp add: msg_chaddr_def length_sub_buf)
    obtain q s3 where s3: "add_lease (msg_chaddr old) y (ack_time ds s) s2 = Some (q, s3)" "dhcpd_ok s3" "same_env s2 s3"
      using add_lease_ok [OF s2(2) l, of y "ack_time ds s"] s1(2) ok by blast
    have "same_conf s s3" using same_conf_trans [OF c2 same_env_conf [OF s3(3)]] .
    moreover have "sendACK old y s = Some (0, s3)"
      using False p s1 p2 s2(1) s3(1) f by (simp add: sendACK_def Let_def)
    moreover have "replies s3 = replies s @ [p2]" using s2(7) False s3(3) e1 by (simp add: same_env_def)
    ultimately show ?thesis
      using that [of 0 s3 p2] s3 s2 s1 r2 c2 ok by auto
  qed
qed

end
