(* ===== verification/Dhcp_Server_Inv.thy ===== *)
theory Dhcp_Server_Inv
  imports Dhcp_Server_Props
begin

text \<open>
  The DHCP server answers every well-formed message and keeps its lease table consistent; what it offers and
  acknowledges; flaws of its request handling.
\<close>

section \<open>Offers\<close>

lemma find_lease_by_chaddr_ok:
  assumes ok: "dhcpd_ok s"
  obtains l s' where "find_lease_by_chaddr c s = Some (l, s')" "dhcpd_ok s'" "same_env s s'"
    "\<And>i. l = Some i \<Longrightarrow> s' = s \<and> i < length (leases s) \<and> take 6 (l_chaddr (leases s ! i)) = take 6 c"
proof -
  have m: "max_leases s = length (leases s)" using ok by (simp add: dhcpd_ok_def)
  let ?P = "\<lambda>l. take 6 (l_chaddr l) = take 6 c"
  obtain r where r: "scan ?P (length (leases s)) (leases s) = Some r"
    "\<And>i. r = Some i \<Longrightarrow> i < length (leases s) \<and> ?P (leases s ! i)"
    using scan_spec [of ?P "leases s"] by (auto split: option.splits)
  show ?thesis
  proof (cases r)
    case None
    show ?thesis
      by (rule that [of None s]) (use None r m ok in \<open>simp_all add: find_lease_by_chaddr_def\<close>)
  next
    case (Some i)
    let ?lan = "nvram_safe_get ''lan_ipaddr'' s = inet_ntoa (l_yiaddr (leases s ! i))"
    obtain s1 where s1: "IsLanIPAddr (l_yiaddr (leases s ! i)) s = Some (?lan, s1)" "dhcpd_ok s1" "same_env s s1"
      "\<not> ?lan \<Longrightarrow> s1 = s"
      using IsLanIPAddr_ok [OF ok] by blast
    show ?thesis
      by (rule that [of "if ?lan then None else Some i" s1])
        (use Some r m s1 in \<open>auto simp: find_lease_by_chaddr_def split: if_splits\<close>)
  qed
qed

text \<open>The address may be offered to the client: it has no lease, an expired one, or the one of the client itself.\<close>

definition offerable :: "u8 list \<Rightarrow> dhcpd \<Rightarrow> u32 \<Rightarrow> bool" where
  "offerable c s y \<longleftrightarrow> y = 0 \<or> not_leased True s y
     \<or> (\<exists>c' e. lease_map (leases s) y = Some (c', e) \<and> take 6 c' = take 6 c)"

lemma found_offerable: "found ce s s' a \<Longrightarrow> offerable c s' a"
  by (auto simp: found_def offerable_def not_leased_def)

lemma find_address_ok:
  assumes ok: "dhcpd_ok s" and conf: "config_ok s"
  obtains a s' where "find_address ce s = Some (a, s')" "dhcpd_ok s'" "same_env s s'" "offerable c s' a"
proof -
  have "env_ok s" "sc_end (server_config s) < - 1" using conf by (auto simp: config_ok_def)
  from find_address_loop_ok [OF ok this, of ce "sc_start (server_config s)"]
  obtain a s' where "find_address ce s = Some (a, s')" "dhcpd_ok s'" "same_env s s'" "a = 0 \<or> found ce s s' a"
    unfolding find_address_def by auto
  then show ?thesis using that [of a s'] found_offerable by (auto simp: offerable_def)
qed

lemma find_any_address_ok:
  assumes ok: "dhcpd_ok s" and conf: "config_ok s"
  obtains a s' where "find_any_address s = Some (a, s')" "dhcpd_ok s'" "same_env s s'" "offerable c s' a"
proof -
  obtain a s1 where s1: "find_address False s = Some (a, s1)" "dhcpd_ok s1" "same_env s s1" "offerable c s1 a"
    by (rule find_address_ok [OF ok conf])
  have "config_ok s1" using conf s1(3) by (simp add: config_ok_same)
  then obtain b s2 where s2: "find_address True s1 = Some (b, s2)" "dhcpd_ok s2" "same_env s1 s2" "offerable c s2 b"
    by (rule find_address_ok [OF s1(2)])
  show ?thesis
  proof (cases "a = 0")
    case True
    then show ?thesis
      using that [of b s2] s1 s2 same_env_trans [OF s1(3) s2(3)] by (simp add: find_any_address_def)
  next
    case False
    then show ?thesis using that [of a s1] s1 by (simp add: find_any_address_def)
  qed
qed

lemma lease_expired_ok:
  assumes "dhcpd_ok s"
  obtains b s' where "lease_expired i s = (b, s')" "dhcpd_ok s'" "same_env s s'" "leases s' = leases s"
    "n_uptime s' = Suc (n_uptime s)" "b = (l_expires (leases s ! i) < os_uptime s (n_uptime s))"
  by (rule that [of "l_expires (leases s ! i) < now s" "s\<lparr>n_uptime := Suc (n_uptime s)\<rparr>"])
    (use assms in \<open>simp_all add: lease_expired_def sys_time_def dhcpd_ok_def same_env_def same_conf_def max_leases_def\<close>)

lemma requested_address_ok:
  assumes ok: "dhcpd_ok s" and conf: "config_ok s"
  obtains a s' where "requested_address req old s = Some (a, s')" "dhcpd_ok s'" "same_env s s'"
    "offerable (msg_chaddr old) s' a"
proof (cases "req \<ge> sc_start (server_config s) \<and> req \<le> sc_end (server_config s)")
  case False
  obtain a s' where "find_any_address s = Some (a, s')" "dhcpd_ok s'" "same_env s s'" "offerable (msg_chaddr old) s' a"
    by (rule find_any_address_ok [OF ok conf])
  then show ?thesis using that False by (simp add: requested_address_def)
next
  case range: True
  obtain r where r: "find_lease_by_yiaddr req s = Some r"
    "case r of None \<Rightarrow> lease_map (leases s) req = None
     | Some i \<Rightarrow> i < length (leases s) \<and> l_yiaddr (leases s ! i) = req"
    using find_lease_by_yiaddr_ok [OF ok] by blast
  show ?thesis
  proof (cases r)
    case None
    then have "offerable (msg_chaddr old) s req" using r by (simp add: offerable_def not_leased_def)
    then show ?thesis using that [of req s] range r None ok by (simp add: requested_address_def)
  next
    case (Some i)
    obtain b s1 where s1: "lease_expired i s = (b, s1)" "dhcpd_ok s1" "same_env s s1" "leases s1 = leases s"
      "n_uptime s1 = Suc (n_uptime s)" "b = (l_expires (leases s ! i) < os_uptime s (n_uptime s))"
      by (rule lease_expired_ok [OF ok])
    have conf1: "config_ok s1" using conf s1(3) by (simp add: config_ok_same)
    have f1: "find_lease_by_yiaddr req s1 = Some (Some i)"
      using r(1) Some s1(3,4) by (simp add: find_lease_by_yiaddr_def max_leases_def same_env_config)
    show ?thesis
    proof (cases b)
      case False
      obtain a s' where "find_any_address s1 = Some (a, s')" "dhcpd_ok s'" "same_env s1 s'" "offerable (msg_chaddr old) s' a"
        by (rule find_any_address_ok [OF s1(2) conf1])
      then show ?thesis
        using that [of a s'] range r Some s1 False same_env_trans [OF s1(3)] by (simp add: requested_address_def)
    next
      case True
      show ?thesis
      proof (cases "l_chaddr (leases s1 ! i) = msg_chaddr old")
        case eq: True
        obtain a s' where "find_address False s1 = Some (a, s')" "dhcpd_ok s'" "same_env s1 s'" "offerable (msg_chaddr old) s' a"
          by (rule find_address_ok [OF s1(2) conf1])
        then show ?thesis
          using that [of a s'] range r Some s1 True eq f1 same_env_trans [OF s1(3)] by (simp add: requested_address_def)
      next
        case neq: False
        have "offerable (msg_chaddr old) s1 req"
        proof (cases "req = 0")
          case False
          then have "lease_map (leases s1) req = Some (l_chaddr (leases s ! i), l_expires (leases s ! i))"
            using lease_map_nth [of "leases s" i req] ok r(2) Some s1(4) by (simp add: dhcpd_ok_def)
          moreover have "os_uptime s1 = os_uptime s" using s1(3) by (simp add: same_env_def same_conf_def)
          ultimately show ?thesis using s1 True by (auto simp: offerable_def not_leased_def)
        qed (simp add: offerable_def)
        then show ?thesis
          using that [of req s1] range r Some s1 True neq f1 by (simp add: requested_address_def)
      qed
    qed
  qed
qed

lemma offer_address_ok:
  assumes ok: "dhcpd_ok s" and conf: "config_ok s" and m: "msg_ok old ds"
  obtains y lt s' where "offer_address old s = Some (y, lt, s')" "dhcpd_ok s'" "same_env s s'"
    "offerable (msg_chaddr old) s' y"
proof -
  obtain l s1 where l: "find_lease_by_chaddr (msg_chaddr old) s = Some (l, s1)" "dhcpd_ok s1" "same_env s s1"
    "\<And>i. l = Some i \<Longrightarrow> s1 = s \<and> i < length (leases s) \<and> take 6 (l_chaddr (leases s ! i)) = take 6 (msg_chaddr old)"
    by (rule find_lease_by_chaddr_ok [OF ok, of "msg_chaddr old"]) blast
  have conf1: "config_ok s1" using conf l(3) by (simp add: config_ok_same)
  show ?thesis
  proof (cases l)
    case (Some i)
    obtain b s2 where s2: "lease_expired i s1 = (b, s2)" "dhcpd_ok s2" "same_env s1 s2" "leases s2 = leases s1"
      by (rule lease_expired_ok [OF l(2)])
    let ?s3 = "s2\<lparr>n_uptime := Suc (n_uptime s2)\<rparr>"
    have s3: "dhcpd_ok ?s3" "same_env s2 ?s3" "leases ?s3 = leases s2"
      using s2(2) by (simp_all add: dhcpd_ok_def same_env_def same_conf_def max_leases_def)
    let ?y = "l_yiaddr (leases s ! i)"
    have own: "offerable (msg_chaddr old) s' ?y" if "leases s' = leases s" for s'
      using l(4) [OF Some] lease_map_nth [of "leases s" i ?y] ok that by (auto simp: offerable_def dhcpd_ok_def)
    have e: "same_env s s2" "same_env s ?s3"
      using same_env_trans [OF l(3) s2(3)] same_env_trans [OF same_env_trans [OF l(3) s2(3)] s3(2)] by auto
    show ?thesis
    proof (cases b)
      case True
      then show ?thesis
        using that [of ?y _ s2] l Some s2 e own [of s2] by (simp add: offer_address_def)
    next
      case False
      then show ?thesis
        using that [of ?y _ ?s3] l Some s2 e s3 own [of ?s3] by (simp add: offer_address_def sys_time_def)
    qed
  next
    case None
    obtain k s2 where k: "get_opt old DHCP_REQUESTED_IP s1 = Some (k, s2)" "dhcpd_ok s1 \<Longrightarrow> dhcpd_ok s2" "same_env s1 s2"
      "\<And>j. k = Some j \<Longrightarrow> \<exists>b. rd32 old j = Some (be32 b)"
      by (rule get_opt_ok [OF m, of DHCP_REQUESTED_IP s1]) (auto simp: dhcp_codes)
    have conf2: "config_ok s2" and ok2: "dhcpd_ok s2" using conf1 k l(2) by (simp_all add: config_ok_same)
    have e2: "same_env s s2" using same_env_trans [OF l(3) k(3)] .
    show ?thesis
    proof (cases k)
      case kn: None
      obtain a s' where "find_any_address s2 = Some (a, s')" "dhcpd_ok s'" "same_env s2 s'" "offerable (msg_chaddr old) s' a"
        by (rule find_any_address_ok [OF ok2 conf2])
      then show ?thesis
        using that [of a _ s'] l None k kn same_env_trans [OF e2] by (simp add: offer_address_def)
    next
      case (Some j)
      then obtain b where b: "rd32 old j = Some (be32 b)" using k(4) by blast
      obtain a s' where "requested_address (be32 b) old s2 = Some (a, s')" "dhcpd_ok s'" "same_env s2 s'"
        "offerable (msg_chaddr old) s' a"
        by (rule requested_address_ok [OF ok2 conf2])
      then show ?thesis
        using that [of a _ s'] l None k Some b same_env_trans [OF e2] by (simp add: offer_address_def)
    qed
  qed
qed

lemma offer_lease_time_ok:
  assumes m: "msg_ok old ds"
  obtains lt s' where "offer_lease_time old lt0 s = Some (lt, s')" "dhcpd_ok s \<Longrightarrow> dhcpd_ok s'" "same_env s s'"
    "leases s' = leases s" "lt = sc_lease (server_config s) \<or> sc_min_lease (server_config s) \<le> lt"
proof -
  obtain k s' where k: "get_opt old DHCP_LEASE_TIME s = Some (k, s')" "dhcpd_ok s \<Longrightarrow> dhcpd_ok s'" "same_env s s'"
    "leases s' = leases s" "\<And>j. k = Some j \<Longrightarrow> \<exists>b. rd32 old j = Some (be32 b)"
    by (rule get_opt_ok [OF m, of DHCP_LEASE_TIME s]) (auto simp: dhcp_codes)
  have "\<exists>lt. offer_lease_time old lt0 s = Some (lt, s')
    \<and> (lt = sc_lease (server_config s) \<or> sc_min_lease (server_config s) \<le> lt)"
    using k(1) k(5) same_env_config [OF k(3)] by (cases k) (auto simp: offer_lease_time_def not_less)
  then show ?thesis using that k by blast
qed

text \<open>An offer of the address \<open>y\<close>, chosen in the state \<open>s1\<close>: the table allows it, and unless the table is full
  the address belongs to the client afterwards and a reply is sent, or sending has failed.\<close>

definition offered :: "dhcpMessage \<Rightarrow> dhcpd \<Rightarrow> u32 \<Rightarrow> dhcpd \<Rightarrow> int \<Rightarrow> dhcpd \<Rightarrow> bool" where
  "offered old s y s1 r s' \<longleftrightarrow> dhcpd_ok s' \<and> same_conf s s' \<and> same_env s s1 \<and> offerable (msg_chaddr old) s1 y
     \<and> (if y = 0 \<or> lease_map (leases s') y = None then r = -1 \<and> replies s' = replies s
        else lease_map (leases s') y = Some (msg_chaddr old, now1 s1 + sc_offer_time (server_config s))
          \<and> (\<exists>p lt. reply DHCPOFFER old y [simple_option DHCP_LEASE_TIME lt] s p
               \<and> (lt = sc_lease (server_config s) \<or> sc_min_lease (server_config s) \<le> lt)
               \<and> (replies s' = replies s @ [p] \<or> r < 0 \<and> replies s' = replies s)))"

lemma sendOffer_ok:
  assumes ok: "dhcpd_ok s" and conf: "config_ok s" and m: "msg_ok old ds"
  obtains y lt0 s1 r s' where "offer_address old s = Some (y, lt0, s1)" "sendOffer old s = Some (r, s')"
    "offered old s y s1 r s'"
proof -
  have old: "length old = 548" using m by (simp add: msg_ok_def)
  have lc: "length (msg_chaddr old) = 16" using old by (simp add: msg_chaddr_def length_sub_buf)
  obtain p where p: "init_packet old DHCPOFFER s = Some p" "reply_to old p"
    "field_is (msg_options p) [simple_option DHCP_MESSAGE_TYPE (ucast DHCPOFFER),
       simple_option DHCP_SERVER_ID (sc_server (server_config s))]" "sub_buf p 44 192 = replicate 192 0"
    using init_packet_ok [OF old, of DHCPOFFER s] by blast
  have pc: "msg_chaddr p = msg_chaddr old" using p(2) by (simp add: reply_to_def)
  obtain y lt0 s1 where s1: "offer_address old s = Some (y, lt0, s1)" "dhcpd_ok s1" "same_env s s1"
    "offerable (msg_chaddr old) s1 y"
    by (rule offer_address_ok [OF ok conf m])
  show ?thesis
  proof (cases "y = 0")
    case True
    then show ?thesis
      using that [OF s1(1), of "- 1" s1] p s1 same_env_conf [OF s1(3)]
      by (auto simp: sendOffer_def same_env_def offered_def)
  next
    case y: False
    let ?d = "sc_offer_time (server_config s1)"
    obtain r s2 where s2: "add_lease (msg_chaddr old) y ?d s1 = Some (r, s2)" "dhcpd_ok s2" "same_env s1 s2"
      "lease_map (leases s2) y = (if r = None then None else Some (msg_chaddr old, now1 s1 + ?d))"
      by (rule add_lease_refines [OF s1(2) lc y])
    have e2: "same_env s s2" using same_env_trans [OF s1(3) s2(3)] .
    show ?thesis
    proof (cases r)
      case None
      then show ?thesis
        using that [OF s1(1), of "- 1" s2] p s1 s2 y pc e2 same_env_conf [OF e2]
        by (auto simp: sendOffer_def same_env_def offered_def)
    next
      case (Some i)
      obtain lt s3 where s3: "offer_lease_time old lt0 s2 = Some (lt, s3)" "dhcpd_ok s2 \<Longrightarrow> dhcpd_ok s3"
        "same_env s2 s3" "leases s3 = leases s2"
        "lt = sc_lease (server_config s2) \<or> sc_min_lease (server_config s2) \<le> lt"
        by (rule offer_lease_time_ok [OF m, of lt0 s2]) blast
      have e3: "same_env s s3" using same_env_trans [OF e2 s3(3)] .
      then have c3: "same_conf s s3" by (rule same_env_conf)
      have conf3: "config_ok s3" using conf c3 by (simp add: config_ok_conf)
      have p3: "field_is (msg_options p) [simple_option DHCP_MESSAGE_TYPE (ucast DHCPOFFER),
         simple_option DHCP_SERVER_ID (sc_server (server_config s3))]" using p(3) c3 by (simp add: same_conf_def)
      obtain p1 p2 where p2: "add_simple (set_yiaddr p y) DHCP_LEASE_TIME lt = Some p1" "finish_packet p1 s3 = Some p2"
        "reply DHCPOFFER old y [simple_option DHCP_LEASE_TIME lt] s3 p2"
        by (rule lease_reply_ok [OF old conf3 p(2) p3 p(4)])
      obtain q s4 where s4: "send_packet p2 False s3 = (q, s4)" "dhcpd_ok s3 \<Longrightarrow> dhcpd_ok s4" "same_conf s3 s4"
        "leases s4 = leases s3" "replies s4 = replies s3 \<or> replies s4 = replies s3 @ [p2]"
        "0 \<le> q \<Longrightarrow> replies s4 = replies s3 @ [p2]"
        by (rule send_packet_ok [of p2 False s3]) blast
      have "os_logfile_ok s3" using conf3 by (simp add: config_ok_def)
      then have eq: "sendOffer old s = Some (q, s4)"
        using p s1 s2 s3 p2 s4 y pc Some by (simp add: sendOffer_def)
      have "reply DHCPOFFER old y [simple_option DHCP_LEASE_TIME lt] s p2" using p2(3) reply_conf [OF c3] by simp
      moreover have "lease_map (leases s4) y = Some (msg_chaddr old, now1 s1 + ?d)" using s2(4) Some s3(4) s4(4) by simp
      moreover have "replies s3 = replies s" using e3 by (simp add: same_env_def)
      moreover have "replies s4 = replies s @ [p2] \<or> q < 0 \<and> replies s4 = replies s"
        using calculation(3) s4(5,6) by (cases "0 \<le> q") auto
      ultimately have "offered old s y s1 q s4"
        using s4(2) s3(2,5) s2(2) same_conf_trans [OF c3 s4(3)] y s1(3,4) same_env_config [OF e2]
          same_env_config [OF s1(3)] by (auto simp: offered_def)
      with eq s1(1) show ?thesis using that by blast
    qed
  qed
qed

section \<open>Every message is answered and the table stays consistent\<close>

lemma table_ok_change:
  assumes t: "table_ok ls" and i: "i < length ls" and l: "lease_ok l"
    and y: "l_yiaddr l = l_yiaddr (ls ! i)" and c: "l_chaddr l = l_chaddr (ls ! i) \<or> l_chaddr l = blank_chaddr"
  shows "table_ok (ls[i := l])"
proof -
  have "list_all lease_ok (ls[i := l])"
    using t l by (auto simp: table_ok_def list_all_iff dest!: set_update_subset_insert [THEN subsetD])
  moreover have "j = k" if "j < length ls" "k < length ls" "l_yiaddr (ls[i := l] ! j) = l_yiaddr (ls[i := l] ! k)"
    "l_yiaddr (ls[i := l] ! j) \<noteq> 0" for j k
    using that table_okD(1) [OF t, of j k] y by (auto simp: nth_upd split: if_splits)
  moreover have "j = k" if "j < length ls" "k < length ls" "l_chaddr (ls[i := l] ! j) = l_chaddr (ls[i := l] ! k)"
    "l_chaddr (ls[i := l] ! j) \<noteq> blank_chaddr" for j k
    using that table_okD(2) [OF t, of j k] c by (auto simp: nth_upd split: if_splits)
  ultimately show ?thesis unfolding table_ok_def by (metis length_list_update)
qed

lemma lease_map_map_of:
  "lease_map ls y = (if y = 0 then None else map_of (map (\<lambda>l. (l_yiaddr l, l_chaddr l, l_expires l)) ls) y)"
  by (induction ls) (auto simp: lease_map_def split: if_splits)

lemma lease_map_cong:
  "map (\<lambda>l. (l_yiaddr l, l_chaddr l, l_expires l)) ls' = map (\<lambda>l. (l_yiaddr l, l_chaddr l, l_expires l)) ls \<Longrightarrow>
   lease_map ls' = lease_map ls"
  by (rule ext) (simp only: lease_map_map_of)

lemma set_hostname_ok:
  assumes ok: "dhcpd_ok s" and i: "i < length (leases s)"
  shows "dhcpd_ok (set_hostname i h p s)" "same_env s (set_hostname i h p s)"
    "lease_map (leases (set_hostname i h p s)) = lease_map (leases s)"
proof -
  let ?h = "case h of None \<Rightarrow> buf_write (l_hostname (leases s ! i)) 0 [0]
    | Some k \<Rightarrow> buf_write (l_hostname (leases s ! i)) 0 (strncpy (drop k p) (min (unat (p ! (k - 1))) 63) @ [0])"
  let ?l = "(leases s ! i)\<lparr>l_hostname := ?h\<rparr>"
  have eq: "set_hostname i h p s = s\<lparr>leases := (leases s)[i := ?l]\<rparr>"
    by (simp add: set_hostname_def Let_def split: option.splits)
  have t: "table_ok (leases s)" using ok by (simp add: dhcpd_ok_def)
  have "lease_ok ?l"
    using table_ok_nth [OF t i] by (auto simp: lease_ok_def length_buf_write split: option.splits)
  from table_ok_change [OF t i this] have t': "table_ok ((leases s)[i := ?l])" by simp
  then show "dhcpd_ok (set_hostname i h p s)" "same_env s (set_hostname i h p s)"
    using ok by (simp_all add: eq dhcpd_ok_def same_env_def same_conf_def max_leases_def)
  show "lease_map (leases (set_hostname i h p s)) = lease_map (leases s)"
    unfolding eq by (rule lease_map_cong) (simp add: map_update list_update_same_conv i)
qed

lemma handle_decline_ok:
  assumes ok: "dhcpd_ok s" and l: "\<And>i. l = Some i \<Longrightarrow> i < length (leases s)"
  shows "dhcpd_ok (handle_decline l s)" "same_env s (handle_decline l s)"
    "dhcpd_ok (handle_release l s)" "same_env s (handle_release l s)"
proof -
  have t: "table_ok (leases s)" using ok by (simp add: dhcpd_ok_def)
  have "table_ok ((leases s)[i := (leases s ! i)\<lparr>l_chaddr := blank_chaddr, l_expires := e\<rparr>])"
    "table_ok ((leases s)[i := (leases s ! i)\<lparr>l_expires := e\<rparr>])" if "i < length (leases s)" for i e
    using table_ok_nth [OF t that] that by (auto intro!: table_ok_change [OF t] simp: lease_ok_def)
  with l ok show "dhcpd_ok (handle_decline l s)" "same_env s (handle_decline l s)"
    "dhcpd_ok (handle_release l s)" "same_env s (handle_release l s)"
    by (auto simp: handle_decline_def handle_release_def sys_time_def Let_def dhcpd_ok_def same_env_def same_conf_def
        max_leases_def split: option.splits)
qed

text \<open>A handler that returns, keeps the table consistent, and the configuration.\<close>

definition served :: "dhcpd \<Rightarrow> dhcpd option \<Rightarrow> bool" where
  "served s r \<longleftrightarrow> (\<exists>s'. r = Some s' \<and> dhcpd_ok s' \<and> same_conf s s')"

lemma servedI: "r = Some s' \<Longrightarrow> dhcpd_ok s' \<Longrightarrow> same_conf s s' \<Longrightarrow> served s r"
  by (auto simp: served_def)

lemma served_trans: "same_conf s s1 \<Longrightarrow> served s1 r \<Longrightarrow> served s r"
  by (auto simp: served_def intro: same_conf_trans)

lemma served_NAK: "dhcpd_ok s \<Longrightarrow> length old = 548 \<Longrightarrow> served s (map_option snd (sendNAK old s))"
  by (rule sendNAK_ok [of s old]) (auto intro: servedI)

lemma served_ACK:
  "dhcpd_ok s \<Longrightarrow> config_ok s \<Longrightarrow> msg_ok old ds \<Longrightarrow> served s (map_option snd (sendACK old y s))"
  by (rule sendACK_ok [of s old ds y]) (auto intro: servedI)

lemma msg_ok_length: "msg_ok p ds \<Longrightarrow> length p = 548"
  by (simp add: msg_ok_def)

lemma chaddr_length: "msg_ok p ds \<Longrightarrow> length (msg_chaddr p) = 16"
  by (simp add: msg_ok_def msg_chaddr_def length_sub_buf)

lemma served_known:
  assumes "dhcpd_ok s" "config_ok s" "msg_ok p ds"
  shows "served s (known_request i r sid ra sa p s)"
  using served_NAK [OF assms(1) msg_ok_length [OF assms(3)]] served_ACK [OF assms] assms(1)
  by (simp add: known_request_def Let_def served_def)

lemma served_grant:
  assumes ok: "dhcpd_ok s" and conf: "config_ok s" and m: "msg_ok p ds"
  shows "served s (grant b y h p s)"
proof (cases "y < sc_start (server_config s) \<or> y > sc_end (server_config s)")
  case True
  then show ?thesis using served_NAK [OF ok msg_ok_length [OF m]] by (simp add: grant_def)
next
  case False
  let ?d = "sc_offer_time (server_config s)"
  obtain r s1 where s1: "add_lease (msg_chaddr p) y ?d s = Some (r, s1)" "dhcpd_ok s1" "same_env s s1"
    by (rule add_lease_ok [OF ok chaddr_length [OF m], of y ?d]) blast
  obtain l s2 where s2: "find_lease_by_chaddr (msg_chaddr p) s1 = Some (l, s2)" "dhcpd_ok s2" "same_env s1 s2"
    "\<And>i. l = Some i \<Longrightarrow> s2 = s1 \<and> i < length (leases s1) \<and> take 6 (l_chaddr (leases s1 ! i)) = take 6 (msg_chaddr p)"
    by (rule find_lease_by_chaddr_ok [OF s1(2), of "msg_chaddr p"]) blast
  have c1: "same_conf s s1" and c2: "same_conf s s2"
    using same_env_conf [OF s1(3)] same_env_conf [OF same_env_trans [OF s1(3) s2(3)]] by auto
  have conf2: "config_ok s2" using conf c2 by (simp add: config_ok_conf)
  let ?y = "\<lambda>i. if b then l_yiaddr (leases s2 ! i) else y"
  have "served s2 (do { (x, s3) \<leftarrow> sendACK p (?y i) s2; Some (set_hostname i h p s3) })" if "l = Some i" for i
  proof (rule sendACK_ok [OF s2(2) conf2 m, of "?y i"])
    fix x s3
    assume s3: "sendACK p (?y i) s2 = Some (x, s3)" "dhcpd_ok s3" "same_conf s2 s3"
    then have "i < length (leases s3)" using s2(4) [OF that] by (auto simp: same_conf_def)
    note h = set_hostname_ok(1,2) [OF s3(2) this, of h p]
    show ?thesis
      using s3(1) h(1) same_conf_trans [OF s3(3) same_env_conf [OF h(2)]] by (simp add: served_def)
  qed
  then show ?thesis
    using False s1 s2 served_trans [OF c1 served_NAK [OF s1(2) msg_ok_length [OF m]]]
      served_trans [OF c2 served_NAK [OF s2(2) msg_ok_length [OF m]]] served_trans [OF c2]
    by (cases r; cases l; cases b) (simp_all add: grant_def)
qed

lemma served_unknown:
  assumes ok: "dhcpd_ok s" and conf: "config_ok s" and m: "msg_ok p ds"
  shows "served s (unknown_request r sid ra sa h p s)"
  using served_NAK [OF ok msg_ok_length [OF m]] served_grant [OF assms] ok
  by (simp add: unknown_request_def) (simp add: served_def)

lemma served_request:
  assumes ok: "dhcpd_ok s" and conf: "config_ok s" and m: "msg_ok p ds"
    and l: "\<And>i. l = Some i \<Longrightarrow> i < length (leases s)"
  shows "served s (handle_request l p s)"
proof -
  obtain k1 s1 where s1: "get_opt p DHCP_REQUESTED_IP s = Some (k1, s1)" "dhcpd_ok s \<Longrightarrow> dhcpd_ok s1" "same_env s s1"
    "leases s1 = leases s" "\<And>j. k1 = Some j \<Longrightarrow> \<exists>b. rd32 p j = Some (be32 b)"
    by (rule get_opt_ok [OF m, of DHCP_REQUESTED_IP s]) (auto simp: dhcp_codes)
  obtain k2 s2 where s2: "get_opt p DHCP_SERVER_ID s1 = Some (k2, s2)" "dhcpd_ok s1 \<Longrightarrow> dhcpd_ok s2" "same_env s1 s2"
    "leases s2 = leases s1" "\<And>j. k2 = Some j \<Longrightarrow> \<exists>b. rd32 p j = Some (be32 b)"
    by (rule get_opt_ok [OF m, of DHCP_SERVER_ID s1]) (auto simp: dhcp_codes)
  obtain k3 s3 where s3: "get_opt p DHCP_HOST_NAME s2 = Some (k3, s3)" "dhcpd_ok s2 \<Longrightarrow> dhcpd_ok s3" "same_env s2 s3"
    "leases s3 = leases s2"
    by (rule get_opt_ok [OF m, of DHCP_HOST_NAME s2]) (auto simp: dhcp_codes)
  have ok3: "dhcpd_ok s3" using ok s1 s2 s3 by blast
  have c3: "same_conf s s3"
    using same_conf_trans [OF same_env_conf [OF s1(3)] same_conf_trans [OF same_env_conf [OF s2(3)] same_env_conf [OF s3(3)]]] .
  have conf3: "config_ok s3" using conf c3 by (simp add: config_ok_conf)
  obtain ra where ra: "(case k1 of None \<Rightarrow> Some 0 | Some k \<Rightarrow> rd32 p k) = Some ra"
    using s1(5) by (cases k1) auto
  obtain sa where sa: "(case k2 of None \<Rightarrow> Some 0 | Some k \<Rightarrow> rd32 p k) = Some sa"
    using s2(5) by (cases k2) auto
  show ?thesis
  proof (cases l)
    case None
    then have "handle_request l p s = unknown_request k1 k2 ra sa k3 p s3"
      using s1 s2 s3 ra sa by (simp add: handle_request_def)
    then show ?thesis using served_trans [OF c3 served_unknown [OF ok3 conf3 m]] by simp
  next
    case (Some i)
    obtain s4 where s4: "known_request i k1 k2 ra sa p s3 = Some s4" "dhcpd_ok s4" "same_conf s3 s4"
      using served_known [OF ok3 conf3 m, of i k1 k2 ra sa] by (auto simp: served_def)
    then have "i < length (leases s4)" using l [OF Some] s1 s2 s3 by (simp add: same_conf_def)
    note h = set_hostname_ok(1,2) [OF s4(2) this, of k3 p]
    have "same_conf s (set_hostname i k3 p s4)"
      using same_conf_trans [OF c3 same_conf_trans [OF s4(3) same_env_conf [OF h(2)]]] .
    then show ?thesis using Some s1 s2 s3 ra sa s4 h by (simp add: handle_request_def served_def)
  qed
qed

lemma served_offer:
  assumes ok: "dhcpd_ok s" and conf: "config_ok s" and m: "msg_ok p ds"
  shows "served s (map_option snd (sendOffer p s))"
  by (rule sendOffer_ok [OF ok conf m]) (simp add: served_def offered_def)

lemma served_message:
  assumes ok: "dhcpd_ok s" and conf: "config_ok s" and m: "msg_ok p ds"
    and l: "\<And>i. l = Some i \<Longrightarrow> i < length (leases s)"
  shows "served s (handle_message t l p s)"
proof -
  have "served s (handle_discover p s)"
  proof (rule sendOffer_ok [OF ok conf m])
    fix y lt0 s0 r s1
    assume r: "sendOffer p s = Some (r, s1)" and o: "offered p s y s0 r s1"
    then have s1: "sendOffer p s = Some (r, s1)" "dhcpd_ok s1" "same_conf s s1" by (auto simp: offered_def)
    have "config_ok s1" using conf s1(3) by (simp add: config_ok_conf)
    from served_trans [OF s1(3) served_offer [OF s1(2) this m]] s1 show ?thesis
      by (auto simp: handle_discover_def served_def)
  qed
  moreover have "served s (Some (handle_decline l s))" "served s (Some (handle_release l s))"
    using handle_decline_ok [OF ok l] by (auto simp: served_def same_env_conf)
  moreover have "served s (map_option snd (send_inform p s))"
  proof -
    obtain q where q: "init_packet p DHCPACK s = Some q" "reply_to p q"
      "field_is (msg_options q) [simple_option DHCP_MESSAGE_TYPE (ucast DHCPACK),
         simple_option DHCP_SERVER_ID (sc_server (server_config s))]"
      using init_packet_ok [OF msg_ok_length [OF m], of DHCPACK s] by blast
    have "length q = 548" using q(2) by (simp add: reply_to_def)
    then obtain q1 where q1: "finish_packet q s = Some q1" by (rule finish_packet_ok [OF _ q(3) conf])
    show ?thesis
      by (rule send_packet_ok [of q1 False s]) (use q q1 ok in \<open>auto simp: send_inform_def served_def\<close>)
  qed
  moreover have "served s (Some s)" using ok by (simp add: served_def)
  ultimately show ?thesis
    using served_request [OF ok conf m l] by (simp add: handle_message_def)
qed

text \<open>A datagram as the server may receive it: not a DHCP message at all, or one with well-formed options.\<close>

definition as_message :: "u8 list \<Rightarrow> dhcpMessage" where
  "as_message d = take 548 d @ replicate (548 - length d) 0"

definition datagram_ok :: "u8 list option \<Rightarrow> bool" where
  "datagram_ok d \<longleftrightarrow> (\<forall>b. d = Some b \<longrightarrow> msg_cookie (as_message b) \<noteq> DHCP_MAGIC \<or> (\<exists>ds. msg_ok (as_message b) ds))"

lemma get_packet_message:
  "get_packet (Some d) viz =
     (let p = as_message d; n = int (min (length d) 548) in
      if msg_cookie p \<noteq> DHCP_MAGIC then Some (-2, p, viz)
      else if msg_op p = BOOTREQUEST then
        do { (v, viz1) \<leftarrow> get_option p DHCP_VENDOR viz;
             Some (n, (case v of
                Some k \<Rightarrow>
                  if unat (p ! (k - 1)) = length MSFT_98 \<and> sub_buf p k (unat (p ! (k - 1))) = MSFT_98
                  then buf_write p 10 (bytes16 (msg_flags p OR BROADCAST_FLAG)) else p
              | None \<Rightarrow> p), viz1) }
      else Some (n, p, viz))"
proof -
  have n: "take (min (length d) sizeof_dhcpMessage) d @ replicate (sizeof_dhcpMessage - min (length d) sizeof_dhcpMessage) 0
      = as_message d"
    by (simp add: as_message_def sizeof_dhcpMessage_def min_def)
  show ?thesis unfolding get_packet_def option.case Let_def n by (simp add: sizeof_dhcpMessage_def)
qed

lemma get_packet_ok:
  assumes "datagram_ok d"
  obtains n p viz' where "get_packet d viz = Some (n, p, viz')" "n < 0 \<or> (\<exists>ds. msg_ok p ds)"
proof (cases d)
  case None
  then show ?thesis using that by (simp add: get_packet_def)
next
  case (Some b)
  show ?thesis
  proof (cases "msg_cookie (as_message b) = DHCP_MAGIC")
    case False
    then show ?thesis using that Some by (simp add: get_packet_message Let_def)
  next
    case True
    then obtain ds where m: "msg_ok (as_message b) ds" using assms Some by (auto simp: datagram_ok_def)
    obtain k v where k: "get_option (as_message b) DHCP_VENDOR viz = Some (k, v)"
      using get_option_any [of "as_message b" ds DHCP_VENDOR viz] m
      by (auto simp: msg_ok_def client_opts_def msg_options_def dhcp_codes)
    have "msg_ok (buf_write (as_message b) 10 (bytes16 w)) ds" for w
      using m by (simp add: msg_ok_def msg_options_def length_buf_write drop_buf_write)
    then have *: "msg_ok (case k of None \<Rightarrow> as_message b
        | Some j \<Rightarrow> if P j then buf_write (as_message b) 10 (bytes16 w) else as_message b) ds" for P w
      using m by (simp split: option.split)
    have "\<exists>n p v. get_packet d viz = Some (n, p, v) \<and> (\<exists>ds. msg_ok p ds)"
    proof (cases "msg_op (as_message b) = BOOTREQUEST")
      case op: True
      show ?thesis using Some True k op by (simp add: get_packet_message Let_def) (rule exI [of _ ds], rule *)
    next
      case False
      then show ?thesis using Some True m by (auto simp: get_packet_message Let_def)
    qed
    then show ?thesis using that by blast
  qed
qed

lemma served_datagram:
  assumes ok: "dhcpd_ok s" and conf: "config_ok s" and d: "datagram_ok d"
  shows "served s (serve_datagram d s)"
proof -
  obtain n p v where p: "get_packet d (vizio_device s) = Some (n, p, v)" "n < 0 \<or> (\<exists>ds. msg_ok p ds)"
    by (rule get_packet_ok [OF d])
  let ?s1 = "s\<lparr>vizio_device := v\<rparr>"
  have s1: "dhcpd_ok ?s1" "same_env s ?s1" using ok by (simp_all add: dhcpd_ok_def same_env_def same_conf_def max_leases_def)
  show ?thesis
  proof (cases "n < 0")
    case True
    then show ?thesis using p s1 by (simp add: serve_datagram_def served_def same_env_conf)
  next
    case False
    then obtain ds where m: "msg_ok p ds" using p by blast
    obtain k s2 where s2: "get_opt p DHCP_MESSAGE_TYPE ?s1 = Some (k, s2)" "dhcpd_ok ?s1 \<Longrightarrow> dhcpd_ok s2" "same_env ?s1 s2"
      "\<And>j. k = Some j \<Longrightarrow> \<exists>b. rd8 p j = Some b"
      by (rule get_opt_ok [OF m, of DHCP_MESSAGE_TYPE ?s1]) (auto simp: dhcp_codes)
    have e2: "same_env s s2" using same_env_trans [OF s1(2) s2(3)] .
    have ok2: "dhcpd_ok s2" using s2(2) s1(1) .
    show ?thesis
    proof (cases k)
      case None
      then show ?thesis
        using p False s2(1) ok2 same_env_conf [OF e2] by (simp add: serve_datagram_def served_def Let_def)
    next
      case (Some j)
      obtain l s3 where s3: "find_lease_by_chaddr (msg_chaddr p) s2 = Some (l, s3)" "dhcpd_ok s3" "same_env s2 s3"
        "\<And>i. l = Some i \<Longrightarrow> i < length (leases s3)"
        by (rule find_lease_by_chaddr_ok [OF ok2, of "msg_chaddr p"]) blast
      have c3: "same_conf s s3" using same_env_conf [OF same_env_trans [OF e2 s3(3)]] .
      have conf3: "config_ok s3" using conf c3 by (simp add: config_ok_conf)
      obtain b where b: "rd8 p j = Some b" using s2(4) [OF Some] by blast
      have "serve_datagram d s = handle_message b l p s3"
        using p False s2(1) Some s3(1) b by (simp add: serve_datagram_def Let_def)
      then show ?thesis using served_trans [OF c3 served_message [OF s3(2) conf3 m s3(4)]] by simp
    qed
  qed
qed

interpretation dhcp_server: total_component serve_datagram datagram_ok "\<lambda>s. dhcpd_ok s \<and> config_ok s"
proof
  fix s e
  assume s: "dhcpd_ok s \<and> config_ok s" and e: "datagram_ok e"
  then have "served s (serve_datagram e s)" using served_datagram by blast
  then show "\<exists>s'. serve_datagram e s = Some s'"
    "\<And>s'. serve_datagram e s = Some s' \<Longrightarrow> dhcpd_ok s' \<and> config_ok s'"
    using s by (auto simp: served_def config_ok_conf)
qed

end
