(* ===== verification/Dhcp_Properties.thy ===== *)
theory Dhcp_Properties
  imports Dhcp_Server_Inv
begin

text \<open>
  The properties of the DHCP server as a whole: it serves every sequence of well-formed messages, what a client
  reads in an offer and in an acknowledgement, and three flaws of the request handling.
\<close>

section \<open>A message for examples\<close>

definition example_mac :: "u8 list" where
  "example_mac = [2, 0, 0, 0, 0, 7] @ replicate 10 0"

definition example_message :: "u8 list list \<Rightarrow> dhcpMessage" where
  "example_message ds = [1, 1, 6] @ replicate 25 0 @ example_mac @ replicate 192 0 @ bytes32 DHCP_MAGIC
     @ concat ds @ DHCP_END # replicate (307 - length (concat ds)) 0"

lemma example_message_ok:
  assumes "list_all opt_ok ds" "client_opts ds" "length (concat ds) \<le> 307"
  shows "msg_ok (example_message ds) ds" "msg_chaddr (example_message ds) = example_mac"
    "msg_cookie (example_message ds) = DHCP_MAGIC" "as_message (example_message ds) = example_message ds"
proof -
  have l: "length (example_message ds) = 548" using assms(3) by (simp add: example_message_def example_mac_def)
  have d: "drop 240 (example_message ds) = concat ds @ DHCP_END # replicate (307 - length (concat ds)) 0"
    by (simp add: example_message_def example_mac_def bytes32_def)
  show "msg_ok (example_message ds) ds"
    unfolding msg_ok_def field_is_def msg_options_def d using assms l by auto
  show "msg_chaddr (example_message ds) = example_mac"
    by (simp add: msg_chaddr_def sub_buf_def example_message_def example_mac_def)
  have "sub_buf (example_message ds) 236 4 = bytes32 DHCP_MAGIC"
    by (simp add: sub_buf_def example_message_def example_mac_def bytes32_def)
  then show "msg_cookie (example_message ds) = DHCP_MAGIC"
    unfolding msg_cookie_def using l by (intro msg32_sub_buf) simp_all
  show "as_message (example_message ds) = example_message ds" using l by (simp add: as_message_def)
qed

definition discover :: dhcpMessage where "discover = example_message [[53, 1, 1]]"

lemma discover_ok: "msg_ok discover [[53, 1, 1]]" "msg_chaddr discover = example_mac" "datagram_ok (Some discover)"
  using example_message_ok [of "[[53, 1, 1]]"]
  by (auto simp: discover_def opt_ok_def client_opts_def dhcp_codes datagram_ok_def)

lemma example_config_ok: "config_ok example_server"
  using example_env_ok by (simp add: config_ok_def example_server_def example_config_def)

section \<open>The server as a whole\<close>

text \<open>C3:
  Whatever sequence of datagrams arrives (failed reads, datagrams that are no DHCP messages, and messages with
  well-formed options of any type from any client), the server returns from handling each of them: it reads and
  writes only inside the message and the lease table, and its search for addresses ends. Throughout, no address
  and no client occurs twice in the table and the configuration is unchanged.
\<close>

theorem dhcp_server_serves_all:
  assumes "dhcpd_ok s" "config_ok s" "list_all datagram_ok ds"
  shows "\<exists>s'. run serve_datagram ds s = Some s' \<and> dhcpd_ok s' \<and> config_ok s'"
  using dhcp_server.run_returns [of s ds] assms by blast

theorem dhcp_server_serves_all_witness:
  "\<exists>s'. run serve_datagram [Some discover, None] example_server = Some s' \<and> dhcpd_ok s'"
  using dhcp_server_serves_all [OF example_ok example_config_ok, of "[Some discover, None]"] discover_ok
  by (auto simp: datagram_ok_def)

section \<open>What a client reads\<close>

definition read_option :: "dhcpMessage \<Rightarrow> u8 \<Rightarrow> u8 list option" where
  "read_option p code =
     (case get_option p code False of
        Some (Some j, v) \<Rightarrow> Some (sub_buf p j (unat (p ! (j - 1))))
      | _ \<Rightarrow> None)"

lemma read_option_field:
  assumes p: "length p = 548" "field_is (msg_options p) ds" "\<forall>d \<in> set ds. d ! 0 \<noteq> DHCP_OPTION_OVER"
    and code: "code \<noteq> DHCP_PADDING" "code \<noteq> DHCP_END" and d: "find (\<lambda>d. d ! 0 = code) ds = Some d"
  shows "read_option p code = Some (drop 2 d)"
proof -
  have f: "field_is (drop 240 p) ds" using p(2) by (simp add: msg_options_def)
  obtain k v where "get_option p code False = Some (k, v)"
    "\<exists>j. k = Some j \<and> sub_buf p j (length d - 2) = drop 2 d \<and> p ! (j - 1) = d ! 1"
    using get_option_any [OF p(1) f p(3) code, of False] d by auto
  moreover have "opt_ok d" using d f by (auto simp: field_is_def list_all_iff find_Some_iff)
  ultimately show ?thesis by (auto simp: read_option_def opt_ok_def)
qed

lemma codes_proper:
  "DHCP_MESSAGE_TYPE \<noteq> DHCP_PADDING" "DHCP_MESSAGE_TYPE \<noteq> DHCP_END" "DHCP_SERVER_ID \<noteq> DHCP_PADDING"
  "DHCP_SERVER_ID \<noteq> DHCP_END" "DHCP_LEASE_TIME \<noteq> DHCP_PADDING" "DHCP_LEASE_TIME \<noteq> DHCP_END"
  by (simp_all add: dhcp_codes)

lemma read_reply:
  assumes r: "reply type old y [simple_option DHCP_LEASE_TIME lt] s p" and conf: "config_ok s"
  shows "read_option p DHCP_MESSAGE_TYPE = Some [type]"
    "read_option p DHCP_SERVER_ID = Some (bytes32 (sc_server (server_config s)))"
    "read_option p DHCP_LEASE_TIME = Some (bytes32 lt)"
proof -
  let ?pre = "[simple_option DHCP_MESSAGE_TYPE (ucast type), simple_option DHCP_SERVER_ID (sc_server (server_config s)),
    simple_option DHCP_LEASE_TIME lt]"
  obtain cds where c: "field_is (msg_options p) (?pre @ cds)" "set cds \<subseteq> set (sc_options (server_config s))"
    and l: "length p = 548"
    using r by (auto simp: reply_def reply_to_def)
  have n: "\<forall>d \<in> set (?pre @ cds). d ! 0 \<noteq> DHCP_OPTION_OVER"
    using c(2) conf by (auto simp: config_ok_def simple_option_def dhcp_codes)
  note rd = read_option_field [OF l c(1) n]
  have u: "ucast (ucast type :: u32) = type" by (rule bit_word_eqI) (auto simp: bit_simps)
  have data: "drop 2 (simple_option DHCP_MESSAGE_TYPE (ucast type)) = [type]"
    "drop 2 (simple_option DHCP_SERVER_ID x) = bytes32 x" "drop 2 (simple_option DHCP_LEASE_TIME x) = bytes32 x" for x
    by (simp_all add: simple_option_def simple_data_def u)
  have "find (\<lambda>d. d ! 0 = DHCP_MESSAGE_TYPE) (?pre @ cds) = Some (simple_option DHCP_MESSAGE_TYPE (ucast type))"
    "find (\<lambda>d. d ! 0 = DHCP_SERVER_ID) (?pre @ cds) = Some (simple_option DHCP_SERVER_ID (sc_server (server_config s)))"
    "find (\<lambda>d. d ! 0 = DHCP_LEASE_TIME) (?pre @ cds) = Some (simple_option DHCP_LEASE_TIME lt)"
    by (simp_all add: simple_option_def dhcp_codes)
  from rd [OF _ _ this(1)] rd [OF _ _ this(2)] rd [OF _ _ this(3)]
  show "read_option p DHCP_MESSAGE_TYPE = Some [type]"
    "read_option p DHCP_SERVER_ID = Some (bytes32 (sc_server (server_config s)))"
    "read_option p DHCP_LEASE_TIME = Some (bytes32 lt)"
    by (simp_all add: data codes_proper)
qed



text \<open>C19:
  An acknowledgement carries the address, the address of this server and a lease time that is at most the configured
  one. If it could be sent, the table is the one before with the address given to the client for this time, except
  that the table can be full; if it could not be sent, the table is unchanged.
\<close>

theorem ack_is_recorded:
  assumes "dhcpd_ok s" "config_ok s" "msg_ok old ds" "y \<noteq> 0"
  shows "\<exists>r s' p lt. sendACK old y s = Some (r, s') \<and> dhcpd_ok s' \<and> reply_to old p \<and> msg_yiaddr p = y
    \<and> read_option p DHCP_MESSAGE_TYPE = Some [DHCPACK]
    \<and> read_option p DHCP_SERVER_ID = Some (bytes32 (sc_server (server_config s)))
    \<and> read_option p DHCP_LEASE_TIME = Some (bytes32 lt) \<and> lt \<le> sc_lease (server_config s)
    \<and> (if r = 0 then replies s' = replies s @ [p]
         \<and> (lease_map (leases s') y = Some (msg_chaddr old, now1 s + lt)
            \<or> lease_map (leases s') y = None \<and> (0 < now s \<longrightarrow> (\<forall>l \<in> set (leases s). now s \<le> l_expires l)))
       else leases s' = leases s)"
proof (rule sendACK_ok [OF assms(1-3), of y])
  fix r s' p
  assume s': "sendACK old y s = Some (r, s')" "dhcpd_ok s'" "same_conf s s'"
    "reply DHCPACK old y [simple_option DHCP_LEASE_TIME (ack_time ds s)] s p"
    "r = 0 \<and> replies s' = replies s @ [p]
       \<and> (\<exists>q s2. add_lease (msg_chaddr old) y (ack_time ds s) s2 = Some (q, s') \<and> dhcpd_ok s2 \<and> same_conf s s2
            \<and> leases s2 = leases s \<and> n_uptime s2 = n_uptime s)
     \<or> r = - 1 \<and> leases s' = leases s"
  have lt: "ack_time ds s \<le> sc_lease (server_config s)"
    by (auto simp: ack_time_def Let_def split: option.splits)
  have rep: "reply_to old p" "msg_yiaddr p = y" using s'(4) by (simp_all add: reply_def)
  have tab: "lease_map (leases s') y = Some (msg_chaddr old, now1 s + ack_time ds s)
      \<or> lease_map (leases s') y = None \<and> (0 < now s \<longrightarrow> (\<forall>l \<in> set (leases s). now s \<le> l_expires l))"
    if "r = 0"
  proof -
    obtain q s2 where s2: "add_lease (msg_chaddr old) y (ack_time ds s) s2 = Some (q, s')" "dhcpd_ok s2"
      "same_conf s s2" "leases s2 = leases s" "n_uptime s2 = n_uptime s"
      using s'(5) \<open>r = 0\<close> by auto
    have u: "os_uptime s2 = os_uptime s" using s2(3) by (simp add: same_conf_def)
    show ?thesis
      by (rule add_lease_refines [OF s2(2) chaddr_length [OF assms(3)] assms(4), of "ack_time ds s"])
        (use s2 u in \<open>auto split: if_splits\<close>)
  qed
  show ?thesis
    by (intro exI [of _ r] exI [of _ s'] exI [of _ p] exI [of _ "ack_time ds s"])
      (use s' rep lt tab read_reply [OF s'(4) assms(2)] in auto)
qed

theorem ack_is_recorded_witness:
  "\<exists>r s'. sendACK discover 0xC0A80102 example_server = Some (r, s') \<and> dhcpd_ok s'"
  using ack_is_recorded [OF example_ok example_config_ok discover_ok(1), of "0xC0A80102"] by force

section \<open>Flaws of the request handling\<close>

text \<open>Sending works, and the clock has left zero.\<close>

definition sends_ok :: "dhcpd \<Rightarrow> bool" where
  "sends_ok s \<longleftrightarrow> (\<forall>k. se_socket_ok (os_send s k) \<and> se_setsockopt_ok (os_send s k) \<and> se_bind_ok (os_send s k)
     \<and> se_connect_ok (os_send s k) \<and> 0 \<le> se_result (os_send s k)) \<and> (\<forall>k. 0 < os_uptime s k)"

lemma sends_ok_conf: "same_conf s s' \<Longrightarrow> sends_ok s' = sends_ok s"
  by (simp add: sends_ok_def same_conf_def)

lemma send_packet_good: "sends_ok s \<Longrightarrow> send_packet p b s = (r, s') \<Longrightarrow> 0 \<le> r"
  by (auto simp: sends_ok_def send_packet_def send_packet_to_relay_def send_packet_to_client_def sent_def raw_packet_def
      kernel_packet_def Let_def split: if_splits prod.splits)

lemma sendACK_good:
  assumes m: "msg_ok old ds" and s: "sends_ok s" and r: "sendACK old y s = Some (r, s')"
  shows "r = 0"
proof -
  obtain s1 where s1: "ack_lease_time old s = Some (ack_time ds s, s1)" "same_env s s1"
    using ack_lease_time_ok [OF m, of s] by blast
  have "sends_ok s1" using s same_env_conf [OF s1(2)] by (simp add: sends_ok_conf)
  then show ?thesis
    using r s1(1) send_packet_good [of s1]
    by (auto simp: sendACK_def Let_def split: Option.bind_splits prod.splits if_splits) fastforce+
qed

text \<open>When sending works, an acknowledgement of an address that is in the table is sent and recorded.\<close>

lemma sendACK_granted:
  assumes ok: "dhcpd_ok s" and conf: "config_ok s" and m: "msg_ok old ds" and s: "sends_ok s"
    and y: "y \<noteq> 0" "lease_map (leases s) y \<noteq> None"
  obtains s' p t where "sendACK old y s = Some (0, s')" "dhcpd_ok s'" "same_conf s s'"
    "reply DHCPACK old y [simple_option DHCP_LEASE_TIME (ack_time ds s)] s p" "replies s' = replies s @ [p]"
    "lease_map (leases s') y = Some (msg_chaddr old, t)"
    "\<exists>q s2. add_lease (msg_chaddr old) y (ack_time ds s) s2 = Some (q, s') \<and> dhcpd_ok s2 \<and> same_conf s s2
       \<and> leases s2 = leases s \<and> n_uptime s2 = n_uptime s"
proof (rule sendACK_ok [OF ok conf m, of y])
  fix r s' p
  assume a: "sendACK old y s = Some (r, s')" "dhcpd_ok s'" "same_conf s s'"
    "reply DHCPACK old y [simple_option DHCP_LEASE_TIME (ack_time ds s)] s p"
    "r = 0 \<and> replies s' = replies s @ [p]
       \<and> (\<exists>q s2. add_lease (msg_chaddr old) y (ack_time ds s) s2 = Some (q, s') \<and> dhcpd_ok s2 \<and> same_conf s s2
            \<and> leases s2 = leases s \<and> n_uptime s2 = n_uptime s)
     \<or> r = - 1 \<and> leases s' = leases s"
  have r: "r = 0" by (rule sendACK_good [OF m s a(1)])
  with a(5) obtain q s2 where s2: "add_lease (msg_chaddr old) y (ack_time ds s) s2 = Some (q, s')" "dhcpd_ok s2"
    "same_conf s s2" "leases s2 = leases s" "n_uptime s2 = n_uptime s" by auto
  have "0 < now s2" using s s2(3) by (simp add: sends_ok_def same_conf_def)
  have "\<exists>t. lease_map (leases s') y = Some (msg_chaddr old, t)"
    by (rule add_lease_refines [OF s2(2) chaddr_length [OF m] y(1), of "ack_time ds s"])
      (use s2 y(2) \<open>0 < now s2\<close> in \<open>auto split: if_splits\<close>)
  then obtain t where "lease_map (leases s') y = Some (msg_chaddr old, t)" by blast
  then show ?thesis by (rule that [of s' p, rotated 5]) (use a r s2 in auto)
qed

text \<open>After a lease was added for a client that had none, the client is found under it.\<close>

lemma find_after_add:
  assumes ok: "dhcpd_ok s" and c: "length c = 16" "take 6 c \<noteq> replicate 6 0" and y: "y \<noteq> 0"
    and none: "\<forall>l \<in> set (leases s). take 6 (l_chaddr l) \<noteq> take 6 c"
    and lan: "nvram_safe_get ''lan_ipaddr'' s \<noteq> inet_ntoa y"
    and add: "add_lease c y d s = Some (Some k, s1)"
  shows "find_lease_by_chaddr c s1 = Some (Some k, s1) \<and> l_yiaddr (leases s1 ! k) = y"
proof -
  have m: "max_leases s = length (leases s)" using ok by (simp add: dhcpd_ok_def)
  obtain r where r: "r = oldest_scan (now s) None 0 (cleared c y (leases s))" by blast
  obtain s' where s': "add_lease c y d s = Some (r, s')" "same_env s s'" "max_leases s' = max_leases s"
    "leases s' = (case r of None \<Rightarrow> cleared c y (leases s)
       | Some i \<Rightarrow> (cleared c y (leases s))[i := new_lease c y (now1 s + d) (cleared c y (leases s) ! i)])"
    by (rule add_lease_eq [OF m y r])
  with add have e: "r = Some k" "s1 = s'" by auto
  let ?ls = "cleared c y (leases s)"
  have k: "k < length ?ls" using oldest_scan_spec [of "now s" None 0 ?ls] r e by auto
  have ls: "leases s1 = ?ls[k := new_lease c y (now1 s + d) (?ls ! k)]" using s'(4) e by simp
  have len: "length (leases s1) = length (leases s)" using ls by simp
  let ?P = "\<lambda>l. take 6 (l_chaddr l) = take 6 c"
  have only: "j = k" if "j < length (leases s)" "?P (leases s1 ! j)" for j
  proof (rule ccontr)
    assume "j \<noteq> k"
    then have "leases s1 ! j = ?ls ! j" using ls by simp
    moreover have "take 6 blank_chaddr = replicate 6 0" by (simp add: blank_chaddr_def)
    ultimately show False using that none c(2) by (auto simp: nth_cleared split: if_splits)
  qed
  have new: "leases s1 ! k = new_lease c y (now1 s + d) (?ls ! k)" using ls k by simp
  obtain q where q: "scan ?P (length (leases s1)) (leases s1) = Some q"
    "case q of None \<Rightarrow> \<forall>l \<in> set (leases s1). \<not> ?P l
     | Some i \<Rightarrow> i < length (leases s1) \<and> ?P (leases s1 ! i) \<and> (\<forall>j < i. \<not> ?P (leases s1 ! j))"
    using scan_spec [of ?P "leases s1"] by blast
  have pk: "?P (leases s1 ! k)" using new by simp
  have mk: "leases s1 ! k \<in> set (leases s1)" by (rule nth_mem) (use k len in simp)
  have "q = Some k"
  proof (cases q)
    case None
    then show ?thesis using q(2) pk mk by auto
  next
    case (Some i)
    then show ?thesis using q(2) only [of i] len by simp
  qed
  moreover have "nvram_safe_get ''lan_ipaddr'' s1 \<noteq> inet_ntoa y"
    using lan nvram_same_env [OF s'(2)] e by simp
  ultimately show ?thesis
    using q(1) new s'(3) e m len by (simp add: find_lease_by_chaddr_def IsLanIPAddr_def)
qed

lemma be32_bytes32 [simp]: "be32 (bytes32 w) = w"
  by (simp add: be32_def bytes32_def)

lemma grant_leased:
  assumes ok: "dhcpd_ok s" and conf: "config_ok s" and m: "msg_ok p ds" and s: "sends_ok s"
    and y: "sc_start (server_config s) \<le> y" "y \<le> sc_end (server_config s)" "y \<noteq> 0"
      "nvram_safe_get ''lan_ipaddr'' s \<noteq> inet_ntoa y" "lease_map (leases s) y \<noteq> None"
    and client: "\<forall>l \<in> set (leases s). take 6 (l_chaddr l) \<noteq> take 6 (msg_chaddr p)" "take 6 (msg_chaddr p) \<noteq> replicate 6 0"
  shows "\<exists>s' q t. grant b y h p s = Some s' \<and> replies s' = replies s @ [q]
    \<and> reply DHCPACK p y [simple_option DHCP_LEASE_TIME (ack_time ds s)] s q
    \<and> lease_map (leases s') y = Some (msg_chaddr p, t)"
proof -
  let ?d = "sc_offer_time (server_config s)"
  note lc = chaddr_length [OF m]
  obtain r s1 where s1: "add_lease (msg_chaddr p) y ?d s = Some (r, s1)" "dhcpd_ok s1" "same_env s s1"
    "lease_map (leases s1) y = (if r = None then None else Some (msg_chaddr p, now1 s + ?d))"
    "r = None \<Longrightarrow> 0 < now s \<Longrightarrow> leases s1 = leases s"
    by (rule add_lease_refines [OF ok lc y(3), of ?d]) blast
  have "0 < now s" using s by (simp add: sends_ok_def)
  then obtain k where k: "r = Some k" using s1(4,5) y(5) by (cases r) auto
  have f: "find_lease_by_chaddr (msg_chaddr p) s1 = Some (Some k, s1)" "l_yiaddr (leases s1 ! k) = y"
    using find_after_add [OF ok lc client(2) y(3) client(1) y(4)] s1(1) k by auto
  have c1: "same_conf s s1" using s1(3) by (rule same_env_conf)
  have conf1: "config_ok s1" and good1: "sends_ok s1" using conf s c1 by (simp_all add: config_ok_conf sends_ok_conf)
  have "lease_map (leases s1) y \<noteq> None" using s1(4) k by simp
  then obtain s2 q t where s2: "sendACK p y s1 = Some (0, s2)" "dhcpd_ok s2" "same_conf s1 s2"
    "reply DHCPACK p y [simple_option DHCP_LEASE_TIME (ack_time ds s1)] s1 q" "replies s2 = replies s1 @ [q]"
    "lease_map (leases s2) y = Some (msg_chaddr p, t)"
    by (rule sendACK_granted [OF s1(2) conf1 m good1 y(3)])
  have "k < length (leases s2)"
    using find_lease_by_chaddr_ok [OF s1(2), of "msg_chaddr p"] f(1) s2(3) by (fastforce simp: same_conf_def)
  note h = set_hostname_ok [OF s2(2) this, of h p]
  have "ack_time ds s1 = ack_time ds s" using same_env_config [OF s1(3)]
    by (simp add: ack_time_def Let_def split: option.split)
  then have "reply DHCPACK p y [simple_option DHCP_LEASE_TIME (ack_time ds s)] s q"
    using s2(4) reply_conf [OF c1] by simp
  moreover have "grant b y h p s = Some (set_hostname k h p s2)"
    using y s1(1) k f s2(1) by (simp add: grant_def leD)
  ultimately show ?thesis
    using h(2,3) s2(5,6) s1(3) by (auto simp: same_env_def)
qed

text \<open>C35:
  A client without a lease that asks for an address with a REQUEST without server identifier (as after a reboot) gets
  it even while it is leased to another client: the server answers with an acknowledgement, and the entry of the
  other client, whatever its remaining time, is replaced.
\<close>

theorem leased_address_is_given_away:
  assumes ok: "dhcpd_ok s" and conf: "config_ok s" and m: "msg_ok p ds" and s: "sends_ok s"
    and opts: "opt_data ds DHCP_SERVER_ID = None" "opt_data ds DHCP_REQUESTED_IP = Some (bytes32 y)"
    and y: "sc_start (server_config s) \<le> y" "y \<le> sc_end (server_config s)" "y \<noteq> 0"
      "nvram_safe_get ''lan_ipaddr'' s \<noteq> inet_ntoa y"
    and victim: "lease_map (leases s) y = Some (c', e)"
    and client: "\<forall>l \<in> set (leases s). take 6 (l_chaddr l) \<noteq> take 6 (msg_chaddr p)" "take 6 (msg_chaddr p) \<noteq> replicate 6 0"
  shows "\<exists>s' q t. handle_request None p s = Some s' \<and> replies s' = replies s @ [q] \<and> msg_yiaddr q = y
    \<and> msg_chaddr q = msg_chaddr p \<and> read_option q DHCP_MESSAGE_TYPE = Some [DHCPACK]
    \<and> c' \<noteq> msg_chaddr p \<and> lease_map (leases s') y = Some (msg_chaddr p, t)"
proof -
  obtain k1 s1 where s1: "get_opt p DHCP_REQUESTED_IP s = Some (k1, s1)" "dhcpd_ok s \<Longrightarrow> dhcpd_ok s1" "same_env s s1"
    "leases s1 = leases s" "\<exists>j. k1 = Some j \<and> rd32 p j = Some y"
    by (rule get_opt_ok [OF m, of DHCP_REQUESTED_IP s])
      (use opts(2) in \<open>auto simp: dhcp_codes\<close>)
  obtain k2 s2 where s2: "get_opt p DHCP_SERVER_ID s1 = Some (k2, s2)" "dhcpd_ok s1 \<Longrightarrow> dhcpd_ok s2" "same_env s1 s2"
    "leases s2 = leases s1" "k2 = None"
    by (rule get_opt_ok [OF m, of DHCP_SERVER_ID s1]) (use opts(1) in \<open>auto simp: dhcp_codes\<close>)
  obtain k3 s3 where s3: "get_opt p DHCP_HOST_NAME s2 = Some (k3, s3)" "dhcpd_ok s2 \<Longrightarrow> dhcpd_ok s3" "same_env s2 s3"
    "leases s3 = leases s2"
    by (rule get_opt_ok [OF m, of DHCP_HOST_NAME s2]) (auto simp: dhcp_codes)
  have e3: "same_env s s3" using same_env_trans [OF s1(3) same_env_trans [OF s2(3) s3(3)]] .
  note c3 = same_env_conf [OF e3]
  have eq: "handle_request None p s = grant False y k3 p s3"
    using s1 s2 s3 by (auto simp: handle_request_def unknown_request_def)
  have l3: "leases s3 = leases s" using s1(4) s2(4) s3(4) by simp
  obtain s' q t where g: "grant False y k3 p s3 = Some s'" "replies s' = replies s3 @ [q]"
    "reply DHCPACK p y [simple_option DHCP_LEASE_TIME (ack_time ds s3)] s3 q"
    "lease_map (leases s') y = Some (msg_chaddr p, t)"
    using grant_leased [of s3 p ds y False k3] ok s1(2) s2(2) s3(2) conf s c3 m y victim client l3
      nvram_same_env [OF e3] by (auto simp: config_ok_conf sends_ok_conf same_env_config [OF e3])
  have conf3: "config_ok s3" using conf c3 by (simp add: config_ok_conf)
  have "c' \<noteq> msg_chaddr p" using lease_map_SomeD [OF victim] client(1) by (metis nth_mem)
  then show ?thesis
    using eq g read_reply(1) [OF g(3) conf3] e3 by (auto simp: reply_def reply_to_def same_env_def)
qed

text \<open>The example server with one lease of another client that lasts for a long time.\<close>

definition leased_server :: dhcpd where
  "leased_server = example_server\<lparr>leases := [blank_lease, blank_lease\<lparr>l_chaddr := replicate 16 9, l_yiaddr := 0xC0A80103,
     l_expires := 86000\<rparr>, blank_lease]\<rparr>"

lemma leased_server_ok: "dhcpd_ok leased_server" "config_ok leased_server" "sends_ok leased_server"
proof -
  let ?l = "blank_lease\<lparr>l_chaddr := replicate 16 9, l_yiaddr := 0xC0A80103, l_expires := 86000\<rparr>"
  have "leases leased_server = (replicate 3 blank_lease)[1 := ?l]"
    by (simp add: leased_server_def numeral_eq_Suc)
  moreover have "table_ok ((replicate 3 blank_lease)[1 := ?l])"
    by (rule table_ok_put [OF table_ok_blank]) (auto simp: lease_ok_def blank_lease_def blank_chaddr_def)
  ultimately show "dhcpd_ok leased_server"
    by (simp add: dhcpd_ok_def max_leases_def) (simp add: leased_server_def example_server_def example_config_def)
  show "config_ok leased_server"
    using example_config_ok by (simp add: leased_server_def config_ok_def env_ok_def)
  show "sends_ok leased_server"
    by (simp add: sends_ok_def leased_server_def example_server_def good_send_def)
qed

theorem leased_address_is_given_away_witness:
  "\<exists>s' t. handle_request None (example_message [[53, 1, 3], [50, 4, 192, 168, 1, 3]]) leased_server = Some s'
    \<and> lease_map (leases s') 0xC0A80103 = Some (example_mac, t)"
proof -
  let ?ds = "[[53, 1, 3], [50, 4, 192, 168, 1, 3]] :: u8 list list"
  have m: "msg_ok (example_message ?ds) ?ds" "msg_chaddr (example_message ?ds) = example_mac"
    using example_message_ok [of ?ds] by (auto simp: opt_ok_def client_opts_def dhcp_codes)
  have o: "opt_data ?ds DHCP_SERVER_ID = None" "opt_data ?ds DHCP_REQUESTED_IP = Some (bytes32 0xC0A80103)"
    by (simp_all add: opt_data_def dhcp_codes bytes32_def)
  have l: "lease_map (leases leased_server) 0xC0A80103 = Some (replicate 16 9, 86000)"
    by (simp add: leased_server_def lease_map_def)
  have lan: "nvram_safe_get ''lan_ipaddr'' leased_server = inet_ntoa 0xC0A80101"
    by (simp add: leased_server_def example_server_def nvram_safe_get_def inet_ntoa_def bytes32_def dotted_def
        dec.simps digit_def) code_simp
  have r: "sc_start (server_config leased_server) \<le> 0xC0A80103" "0xC0A80103 \<le> sc_end (server_config leased_server)"
    "(0xC0A80103 :: u32) \<noteq> 0" "nvram_safe_get ''lan_ipaddr'' leased_server \<noteq> inet_ntoa 0xC0A80103"
    unfolding lan by (simp_all add: leased_server_def example_server_def example_config_def)
  have "\<forall>l \<in> set (leases leased_server). take 6 (l_chaddr l) \<noteq> take 6 (msg_chaddr (example_message ?ds))"
    "take 6 (msg_chaddr (example_message ?ds)) \<noteq> replicate 6 0"
    unfolding m(2) by (simp_all add: leased_server_def example_mac_def blank_lease_def blank_chaddr_def numeral_eq_Suc)
  from leased_address_is_given_away [OF leased_server_ok(1,2) m(1) leased_server_ok(3) o r l this] m(2)
  show ?thesis by auto
qed

text \<open>
  The server offers its own address: when the address of the router lies in the range and has no entry in the table,
  a DISCOVER of a client without a lease that requests exactly this address gets it as the address to offer. The
  tests for the router's own address and for a host that answers ARP requests are only made when the server
  chooses the address itself.
\<close>

theorem router_address_is_offered:
  assumes ok: "dhcpd_ok s" and m: "msg_ok old ds"
    and lan: "nvram_safe_get ''lan_ipaddr'' s = inet_ntoa y" "sc_start (server_config s) \<le> y" "y \<le> sc_end (server_config s)"
      "\<forall>l \<in> set (leases s). l_yiaddr l \<noteq> y"
    and client: "\<forall>l \<in> set (leases s). take 6 (l_chaddr l) \<noteq> take 6 (msg_chaddr old)"
      "opt_data ds DHCP_REQUESTED_IP = Some (bytes32 y)"
  shows "\<exists>s'. offer_address old s = Some (y, sc_lease (server_config s), s') \<and> leases s' = leases s"
proof -
  have m1: "max_leases s = length (leases s)" using ok by (simp add: dhcpd_ok_def)
  have none: "scan P (length ls) ls = Some None" if "\<forall>l \<in> set ls. \<not> P l" for P and ls :: "dhcpOfferedAddr list"
    using that by (induction ls) auto
  have f: "find_lease_by_chaddr (msg_chaddr old) s = Some (None, s)"
    using none [OF client(1)] m1 by (simp add: find_lease_by_chaddr_def)
  obtain k s1 where k: "get_opt old DHCP_REQUESTED_IP s = Some (k, s1)" "same_env s s1" "leases s1 = leases s"
    "\<exists>j. k = Some j \<and> rd32 old j = Some y"
    by (rule get_opt_ok [OF m, of DHCP_REQUESTED_IP s]) (use client(2) in \<open>auto simp: dhcp_codes\<close>)
  have "find_lease_by_yiaddr y s1 = Some None"
    using none [OF lan(4)] m1 k(2,3) by (simp add: find_lease_by_yiaddr_def max_leases_def same_env_config)
  then have "requested_address y old s1 = Some (y, s1)"
    using lan(2,3) same_env_config [OF k(2)] by (simp add: requested_address_def)
  then show ?thesis using f k same_env_config [OF k(2)] by (auto simp: offer_address_def)
qed

theorem router_address_is_offered_witness:
  "\<exists>s'. offer_address (example_message [[53, 1, 1], [50, 4, 192, 168, 1, 3]])
     (example_server\<lparr>os_nvram := (\<lambda>n. Some (inet_ntoa 0xC0A80103))\<rparr>) = Some (0xC0A80103, 86400, s')"
proof -
  let ?ds = "[[53, 1, 1], [50, 4, 192, 168, 1, 3]] :: u8 list list"
  let ?s = "example_server\<lparr>os_nvram := (\<lambda>n. Some (inet_ntoa 0xC0A80103))\<rparr>"
  have m: "msg_ok (example_message ?ds) ?ds" "msg_chaddr (example_message ?ds) = example_mac"
    using example_message_ok [of ?ds] by (auto simp: opt_ok_def client_opts_def dhcp_codes)
  have o: "opt_data ?ds DHCP_REQUESTED_IP = Some (bytes32 0xC0A80103)"
    by (simp add: opt_data_def dhcp_codes bytes32_def)
  have ok: "dhcpd_ok ?s" using example_ok by (simp add: dhcpd_ok_def max_leases_def)
  have "nvram_safe_get ''lan_ipaddr'' ?s = inet_ntoa 0xC0A80103" "sc_start (server_config ?s) \<le> 0xC0A80103"
    "0xC0A80103 \<le> sc_end (server_config ?s)" "\<forall>l \<in> set (leases ?s). l_yiaddr l \<noteq> 0xC0A80103"
    by (simp_all add: nvram_safe_get_def example_server_def example_config_def)
  moreover have "\<forall>l \<in> set (leases ?s). take 6 (l_chaddr l) \<noteq> take 6 (msg_chaddr (example_message ?ds))"
    unfolding m(2) by (simp add: example_server_def example_mac_def blank_chaddr_def numeral_eq_Suc)
  ultimately have pre: "nvram_safe_get ''lan_ipaddr'' ?s = inet_ntoa 0xC0A80103" "sc_start (server_config ?s) \<le> 0xC0A80103"
    "0xC0A80103 \<le> sc_end (server_config ?s)" "\<forall>l \<in> set (leases ?s). l_yiaddr l \<noteq> 0xC0A80103"
    "\<forall>l \<in> set (leases ?s). take 6 (l_chaddr l) \<noteq> take 6 (msg_chaddr (example_message ?ds))" by blast+
  from router_address_is_offered [OF ok m(1) pre o] show ?thesis
    by (auto simp: example_server_def example_config_def)
qed

section \<open>The host name of a renewed lease\<close>

text \<open>
  When the first entry of the table is empty, the acknowledgement of a renewal moves the lease of the client there
  (from entry \<open>i\<close>), but the host name that the client sends is written into the old entry, which is now empty: the
  lease has lost its host name.
\<close>

theorem renewal_loses_hostname:
  assumes ok: "dhcpd_ok s" and conf: "config_ok s" and m: "msg_ok p ds" and s: "sends_ok s"
    and opts: "opt_data ds DHCP_SERVER_ID = None" "opt_data ds DHCP_REQUESTED_IP = None"
    and i: "0 < i" "i < length (leases s)" "leases s ! 0 = blank_lease" "l_yiaddr (leases s ! i) = msg_ciaddr p"
      "l_chaddr (leases s ! i) = msg_chaddr p" "msg_ciaddr p \<noteq> 0"
  shows "\<exists>s'. handle_request (Some i) p s = Some s' \<and> l_yiaddr (leases s' ! 0) = msg_ciaddr p
    \<and> l_chaddr (leases s' ! 0) = msg_chaddr p \<and> l_hostname (leases s' ! 0) = replicate 64 0
    \<and> l_yiaddr (leases s' ! i) = 0"
proof -
  obtain k1 s1 where s1: "get_opt p DHCP_REQUESTED_IP s = Some (k1, s1)" "dhcpd_ok s \<Longrightarrow> dhcpd_ok s1" "same_env s s1"
    "leases s1 = leases s" "k1 = None"
    by (rule get_opt_ok [OF m, of DHCP_REQUESTED_IP s]) (use opts(2) in \<open>auto simp: dhcp_codes\<close>)
  obtain k2 s2 where s2: "get_opt p DHCP_SERVER_ID s1 = Some (k2, s2)" "dhcpd_ok s1 \<Longrightarrow> dhcpd_ok s2" "same_env s1 s2"
    "leases s2 = leases s1" "k2 = None"
    by (rule get_opt_ok [OF m, of DHCP_SERVER_ID s1]) (use opts(1) in \<open>auto simp: dhcp_codes\<close>)
  obtain k3 s3 where s3: "get_opt p DHCP_HOST_NAME s2 = Some (k3, s3)" "dhcpd_ok s2 \<Longrightarrow> dhcpd_ok s3" "same_env s2 s3"
    "leases s3 = leases s2"
    by (rule get_opt_ok [OF m, of DHCP_HOST_NAME s2]) (auto simp: dhcp_codes)
  have e3: "same_env s s3" using same_env_trans [OF s1(3) same_env_trans [OF s2(3) s3(3)]] .
  have l3: "leases s3 = leases s" and ok3: "dhcpd_ok s3" using s1 s2 s3 ok by auto
  have conf3: "config_ok s3" "sends_ok s3"
    using conf s same_env_conf [OF e3] by (simp_all add: config_ok_conf sends_ok_conf)
  let ?y = "msg_ciaddr p"
  have "table_ok (leases s3)" using ok3 by (simp add: dhcpd_ok_def)
  then have "lease_map (leases s3) ?y \<noteq> None" using lease_map_nth [of "leases s3" i ?y] i l3 by simp
  then obtain s4 q t where s4: "sendACK p ?y s3 = Some (0, s4)" "dhcpd_ok s4" "same_conf s3 s4"
    "\<exists>q s2. add_lease (msg_chaddr p) ?y (ack_time ds s3) s2 = Some (q, s4) \<and> dhcpd_ok s2 \<and> same_conf s3 s2
       \<and> leases s2 = leases s3 \<and> n_uptime s2 = n_uptime s3"
    by (rule sendACK_granted [OF ok3 conf3(1) m conf3(2) i(6)])
  then obtain r u where u: "add_lease (msg_chaddr p) ?y (ack_time ds s3) u = Some (r, s4)" "dhcpd_ok u" "same_conf s3 u"
    "leases u = leases s" using l3 by auto
  let ?ls = "cleared (msg_chaddr p) ?y (leases u)"
  have len: "length (leases u) = length (leases s)" using u(4) by simp
  have "0 < length (leases u)" using i(1,2) len by linarith
  then have c0: "?ls ! 0 = blank_lease" using i u(4) by (simp add: nth_cleared)
  have ci: "?ls ! i = blank_lease" using i u(4) by (simp add: nth_cleared clears_def)
  have "0 < now u" using conf3(2) u(3) by (simp add: sends_ok_def same_conf_def)
  then have r0: "oldest_scan (now u) None 0 ?ls = Some 0"
    using oldest_scan_blank [of "[]" "now u" "hd ?ls" None 0 "tl ?ls"] c0 i len
    by (cases ?ls) (auto simp: cleared_def)
  have mu: "max_leases u = length (leases u)" using u(2) by (simp add: dhcpd_ok_def)
  obtain s4' where "add_lease (msg_chaddr p) ?y (ack_time ds s3) u = Some (Some 0, s4')"
    "leases s4' = ?ls[0 := new_lease (msg_chaddr p) ?y (now1 u + ack_time ds s3) (?ls ! 0)]"
    by (rule add_lease_eq [OF mu i(6) r0 [symmetric], of "ack_time ds s3"]) auto
  then have l4: "leases s4 = ?ls[0 := new_lease (msg_chaddr p) ?y (now1 u + ack_time ds s3) blank_lease]"
    using u(1) c0 by simp
  have "handle_request (Some i) p s = Some (set_hostname i k3 p s4)"
    using s1 s2 s3 s4(1) i l3 by (simp add: handle_request_def known_request_def Let_def)
  moreover have "leases (set_hostname i k3 p s4) ! 0 = leases s4 ! 0"
    using i(1) by (simp add: set_hostname_def Let_def)
  moreover have "l_yiaddr (leases (set_hostname i k3 p s4) ! i) = 0"
    using i(1,2) l4 ci len by (simp add: set_hostname_def Let_def)
  moreover have "0 < length ?ls" using \<open>0 < length (leases u)\<close> by simp
  ultimately show ?thesis using l4 by (auto simp: blank_lease_def)
qed

definition renewal :: dhcpMessage where
  "renewal = buf_write (example_message [[53, 1, 3], [12, 2, 65, 66]]) 12 (bytes32 0xC0A80103)"

lemma renewal_ok: "msg_ok renewal [[53, 1, 3], [12, 2, 65, 66]]" "msg_chaddr renewal = example_mac"
  "msg_ciaddr renewal = 0xC0A80103"
proof -
  let ?ds = "[[53, 1, 3], [12, 2, 65, 66]] :: u8 list list"
  let ?m = "example_message ?ds"
  have m: "msg_ok ?m ?ds" "msg_chaddr ?m = example_mac"
    using example_message_ok [of ?ds] by (auto simp: opt_ok_def client_opts_def dhcp_codes)
  have l: "length ?m = 548" using m(1) by (simp add: msg_ok_def)
  then have "msg_options renewal = msg_options ?m" "msg_chaddr renewal = msg_chaddr ?m"
    by (simp_all add: renewal_def buf_write_def bytes32_def msg_options_def msg_chaddr_def sub_buf_def)
  then show "msg_ok renewal ?ds" "msg_chaddr renewal = example_mac"
    using m l by (simp_all add: msg_ok_def renewal_def length_buf_write bytes32_def)
  have "sub_buf renewal 12 4 = bytes32 0xC0A80103"
    using l by (simp add: renewal_def sub_buf_def buf_write_def bytes32_def)
  then show "msg_ciaddr renewal = 0xC0A80103"
    unfolding msg_ciaddr_def using l by (intro msg32_sub_buf) (simp_all add: renewal_def length_buf_write bytes32_def)
qed

theorem renewal_loses_hostname_witness:
  "\<exists>s'. handle_request (Some 1) renewal (example_server\<lparr>leases := [blank_lease, blank_lease\<lparr>l_chaddr := example_mac,
      l_yiaddr := 0xC0A80103, l_expires := 86000\<rparr>, blank_lease]\<rparr>) = Some s' \<and> l_hostname (leases s' ! 0) = replicate 64 0"
proof -
  let ?l = "blank_lease\<lparr>l_chaddr := example_mac, l_yiaddr := 0xC0A80103, l_expires := 86000\<rparr>"
  let ?s = "example_server\<lparr>leases := [blank_lease, ?l, blank_lease]\<rparr>"
  have "[blank_lease, ?l, blank_lease] = (replicate 3 blank_lease)[1 := ?l]" by (simp add: numeral_eq_Suc)
  moreover have "table_ok ((replicate 3 blank_lease)[1 := ?l])"
    by (rule table_ok_put [OF table_ok_blank]) (auto simp: lease_ok_def blank_lease_def blank_chaddr_def example_mac_def)
  ultimately have ok: "dhcpd_ok ?s"
    by (simp add: dhcpd_ok_def max_leases_def) (simp add: example_server_def example_config_def)
  have conf: "config_ok ?s" using example_config_ok by (simp add: config_ok_def env_ok_def)
  have s: "sends_ok ?s" by (simp add: sends_ok_def example_server_def good_send_def)
  have o: "opt_data [[53, 1, 3], [12, 2, 65, 66]] DHCP_SERVER_ID = None"
    "opt_data [[53, 1, 3], [12, 2, 65, 66]] DHCP_REQUESTED_IP = None"
    by (simp_all add: opt_data_def dhcp_codes)
  show ?thesis
    using renewal_loses_hostname [OF ok conf renewal_ok(1) s o, of 1] renewal_ok(2,3) by auto
qed

end
