(* ===== verification/Libc_Text.thy ===== *)
theory Libc_Text
  imports Net_Text
begin

text \<open>
  The functions of the C library with which the daemons read text: number parsing with base 0 (\<open>strtoul\<close>,
  \<open>strtol\<close>), IPv4 addresses (\<open>inet_aton\<close>), tokens (\<open>strtok\<close>), lines (\<open>fgets\<close>) and the comparison
  without regard to case. Reading back a printed address gives the address.
\<close>

section \<open>Characters\<close>

definition newline :: char where "newline = CHR 0x0A"

definition isspace :: "char \<Rightarrow> bool" where
  "isspace c \<longleftrightarrow> c = CHR '' '' \<or> (9 \<le> (of_char c :: nat) \<and> (of_char c :: nat) \<le> 13)"

definition tolower :: "char \<Rightarrow> char" where
  "tolower c = (let n = (of_char c :: nat) in if 65 \<le> n \<and> n \<le> 90 then char_of (n + 32) else c)"

definition strcaseeq :: "string \<Rightarrow> string \<Rightarrow> bool" where
  "strcaseeq a b \<longleftrightarrow> map tolower a = map tolower b"

section \<open>Numbers\<close>

definition digit_of :: "char \<Rightarrow> nat option" where
  "digit_of c =
     (let n = (of_char c :: nat) in
      if 48 \<le> n \<and> n \<le> 57 then Some (n - 48)
      else if 97 \<le> n \<and> n \<le> 102 then Some (n - 87)
      else if 65 \<le> n \<and> n \<le> 70 then Some (n - 55) else None)"

definition is_digit :: "nat \<Rightarrow> char \<Rightarrow> bool" where
  "is_digit base c = (case digit_of c of None \<Rightarrow> False | Some d \<Rightarrow> d < base)"

definition num_val :: "nat \<Rightarrow> string \<Rightarrow> nat" where
  "num_val base cs = foldl (\<lambda>n c. base * n + (case digit_of c of None \<Rightarrow> 0 | Some d \<Rightarrow> d)) 0 cs"

definition digits :: "nat \<Rightarrow> string \<Rightarrow> nat \<times> string" where
  "digits base cs = (num_val base (takeWhile (is_digit base) cs), dropWhile (is_digit base) cs)"

text \<open>A number with the prefixes of C, and the rest of the text; \<^term>\<open>None\<close> when there is no digit.\<close>

definition num0 :: "string \<Rightarrow> (nat \<times> string) option" where
  "num0 cs =
     (case cs of
        [] \<Rightarrow> None
      | c # cs1 \<Rightarrow>
          if \<not> is_digit 10 c then None
          else if c \<noteq> CHR ''0'' then Some (digits 10 cs)
          else (case cs1 of
                  x # h # r \<Rightarrow> if (x = CHR ''x'' \<or> x = CHR ''X'') \<and> is_digit 16 h
                               then Some (digits 16 (h # r)) else Some (digits 8 cs)
                | _ \<Rightarrow> Some (digits 8 cs)))"

definition split_sign :: "string \<Rightarrow> bool \<times> string" where
  "split_sign cs =
     (case cs of
        [] \<Rightarrow> (False, [])
      | c # r \<Rightarrow> if c = CHR ''-'' then (True, r) else if c = CHR ''+'' then (False, r) else (False, cs))"

definition strtoul :: "string \<Rightarrow> u32 \<times> string" where
  "strtoul cs =
     (let (neg, t) = split_sign (dropWhile isspace cs) in
      case num0 t of
        None \<Rightarrow> (0, cs)
      | Some (n, r) \<Rightarrow> (if n \<ge> 2 ^ 32 then - 1 else if neg then - word_of_nat n else word_of_nat n, r))"

definition strtol :: "string \<Rightarrow> u32 \<times> string" where
  "strtol cs =
     (let (neg, t) = split_sign (dropWhile isspace cs) in
      case num0 t of
        None \<Rightarrow> (0, cs)
      | Some (n, r) \<Rightarrow>
          (if neg then if n > 2 ^ 31 then 0x80000000 else - word_of_nat n
           else if n \<ge> 2 ^ 31 then 0x7FFFFFFF else word_of_nat n, r))"

section \<open>Addresses\<close>

text \<open>The parts of an address, at most \<open>k + 1\<close> of them, the last one followed by a blank or the end.\<close>

fun aton_parts :: "nat \<Rightarrow> string \<Rightarrow> nat list option" where
  "aton_parts k cs =
     (case num0 cs of
        None \<Rightarrow> None
      | Some (v, r) \<Rightarrow>
          (case r of
             [] \<Rightarrow> Some [v]
           | c # r' \<Rightarrow>
               if c = CHR ''.'' then
                 (case k of
                    0 \<Rightarrow> None
                  | Suc k' \<Rightarrow> if v > 255 then None else map_option ((#) v) (aton_parts k' r'))
               else if isspace c then Some [v] else None))"

declare aton_parts.simps [simp del]

definition inet_aton :: "string \<Rightarrow> u32 option" where
  "inet_aton cs =
     (case aton_parts 3 cs of
        Some [a] \<Rightarrow> if a < 2 ^ 32 then Some (word_of_nat a) else None
      | Some [a, b] \<Rightarrow> if b < 2 ^ 24 then Some (word_of_nat (a * 2 ^ 24 + b)) else None
      | Some [a, b, c] \<Rightarrow> if c < 2 ^ 16 then Some (word_of_nat (a * 2 ^ 24 + b * 2 ^ 16 + c)) else None
      | Some [a, b, c, d] \<Rightarrow>
          if d < 2 ^ 8 then Some (word_of_nat (a * 2 ^ 24 + b * 2 ^ 16 + c * 2 ^ 8 + d)) else None
      | _ \<Rightarrow> None)"

section \<open>Tokens and lines\<close>

definition strtok :: "string \<Rightarrow> string \<Rightarrow> (string \<times> string) option" where
  "strtok delims cs =
     (let t = dropWhile (\<lambda>c. c \<in> set delims) cs in
      if t = [] then None
      else Some (takeWhile (\<lambda>c. c \<notin> set delims) t, drop 1 (dropWhile (\<lambda>c. c \<notin> set delims) t)))"

text \<open>A line of at most \<open>n\<close> characters, with its line end, and the rest of the file.\<close>

fun fgets :: "nat \<Rightarrow> string \<Rightarrow> string \<times> string" where
  "fgets 0 cs = ([], cs)"
| "fgets (Suc n) [] = ([], [])"
| "fgets (Suc n) (c # cs) =
     (if c = newline then ([c], cs) else (let (l, r) = fgets n cs in (c # l, r)))"

lemma fgets_Nil [simp]: "fgets n [] = ([], [])"
  by (cases n) simp_all

lemma fgets_append: "fst (fgets n cs) @ snd (fgets n cs) = cs"
  by (induction n cs rule: fgets.induct) (auto simp: case_prod_beta)

lemma fgets_shrinks: "0 < n \<Longrightarrow> cs \<noteq> [] \<Longrightarrow> length (snd (fgets n cs)) < length cs"
proof -
  assume "0 < n" "cs \<noteq> []"
  then have "fst (fgets n cs) \<noteq> []" by (cases n; cases cs) (auto simp: case_prod_beta)
  then have "0 < length (fst (fgets n cs))" by simp
  moreover have "length (fst (fgets n cs)) + length (snd (fgets n cs)) = length cs"
    using fgets_append [of n cs] by (metis length_append)
  ultimately show ?thesis by linarith
qed

lemma fgets_rest: "(l, r) = fgets n cs \<Longrightarrow> cs \<noteq> [] \<Longrightarrow> 0 < n \<Longrightarrow> length r < length cs"
  using fgets_shrinks [of n cs] by (metis snd_conv)

lemma strtok_shrinks: "strtok d cs = Some (v, r) \<Longrightarrow> length r < length cs"
proof -
  assume a: "strtok d cs = Some (v, r)"
  let ?t = "dropWhile (\<lambda>c. c \<in> set d) cs"
  have t: "?t \<noteq> []" "r = drop 1 (dropWhile (\<lambda>c. c \<notin> set d) ?t)"
    using a by (auto simp: strtok_def Let_def split: if_splits)
  then have "hd ?t \<notin> set d" using hd_dropWhile [of "\<lambda>c. c \<in> set d" cs] by auto
  then have "length (dropWhile (\<lambda>c. c \<notin> set d) ?t) < length ?t"
    using t(1) by (cases ?t) (auto simp: le_imp_less_Suc length_dropWhile_le)
  then show ?thesis using t(2) length_dropWhile_le [of "\<lambda>c. c \<in> set d" cs] by simp
qed

lemma strtok_token: "strtok d cs = Some (v, r) \<Longrightarrow> v \<noteq> []"
  using hd_dropWhile [of "\<lambda>c. c \<in> set d" cs] unfolding strtok_def Let_def
  by (auto simp: takeWhile_eq_Nil_iff simp del: dropWhile_eq_Nil_conv split: if_splits)

section \<open>Printed numbers and addresses are read back\<close>

lemma of_char_less_256: "(of_char c :: nat) < 256"
  by (metis of_char_mod_256 mod_less_divisor zero_less_numeral)

lemma digit_of_digit: "n < 10 \<Longrightarrow> digit_of (digit n) = Some n"
  by (simp add: digit_of_def digit_def)

lemma is_digit_digit: "n < 10 \<Longrightarrow> is_digit 10 (digit n)"
  by (simp add: is_digit_def digit_of_digit)

lemma dec_digits: "c \<in> set (dec n) \<Longrightarrow> is_digit 10 c"
proof (induction n rule: dec.induct)
  case (1 n)
  then show ?case by (cases "n < 10") (auto simp: dec.simps [of n] is_digit_digit)
qed

lemma num_val_dec: "num_val 10 (dec n) = n"
proof (induction n rule: dec.induct)
  case (1 n)
  then show ?case by (cases "n < 10") (simp_all add: dec.simps [of n] num_val_def digit_of_digit)
qed

lemma num0_dec:
  assumes "r = [] \<or> \<not> is_digit 10 (hd r) \<and> hd r \<noteq> CHR ''x'' \<and> hd r \<noteq> CHR ''X''"
  shows "num0 (dec n @ r) = Some (n, r)"
proof -
  obtain x xs where x: "dec n = x # xs" using dec_length [of n] by (cases "dec n") auto
  have dx: "is_digit 10 x" using dec_digits [of x n] x by simp
  have stop: "takeWhile (is_digit b) r = [] \<and> dropWhile (is_digit b) r = r" if "b \<le> 10" for b
  proof (cases r)
    case (Cons a as)
    then have "\<not> is_digit b a" using assms that by (auto simp: is_digit_def split: option.splits)
    then show ?thesis using Cons by simp
  qed simp
  show ?thesis
  proof (cases "n = 0")
    case True
    have z: "is_digit 8 (CHR ''0'')" "is_digit 10 (CHR ''0'')" "num_val 8 ''0'' = 0"
      by (simp_all add: is_digit_def digit_of_def num_val_def)
    have "num0 (CHR ''0'' # r) = Some (digits 8 (CHR ''0'' # r))"
      using assms z by (auto simp: num0_def split: list.split)
    then show ?thesis using True dec_0 stop [of 8] z by (simp add: digits_def)
  next
    case False
    then have "x \<noteq> CHR ''0''" using dec_head_0 [of n] x by simp
    then have "num0 (dec n @ r) = Some (digits 10 (dec n @ r))" using x dx by (simp add: num0_def)
    moreover have "takeWhile (is_digit 10) (dec n @ r) = dec n" "dropWhile (is_digit 10) (dec n @ r) = r"
      using dec_digits [of _ n] stop [of 10] by simp_all
    ultimately show ?thesis by (simp add: digits_def num_val_dec)
  qed
qed

lemma dot_no_digit: "\<not> is_digit 10 (CHR ''.'')"
  by (simp add: is_digit_def digit_of_def)

lemma aton_dotted:
  assumes "a < 256" "b < 256" "c < 256" "d < 256"
  shows "aton_parts 3 (dotted a b c d) = Some [a, b, c, d]"
proof -
  have n: "num0 (dec m @ CHR ''.'' # r) = Some (m, CHR ''.'' # r)" "num0 (dec m) = Some (m, [])" for m r
    using num0_dec [of "CHR ''.'' # r" m] num0_dec [of "[]" m] dot_no_digit by simp_all
  show ?thesis
    using assms by (simp add: dotted_def numeral_3_eq_3 aton_parts.simps n not_less)
qed

lemma mk32_nat: "word_of_nat (unat a * 2 ^ 24 + unat b * 2 ^ 16 + unat c * 2 ^ 8 + unat d) = mk32 a b c d"
proof -
  have "mk32 a b c d = push_bit 24 (ucast a) + (push_bit 16 (ucast b) + (push_bit 8 (ucast c) + ucast d))"
    unfolding mk32_def
    by (subst disjunctive_add [symmetric], (auto simp: bit_simps dest: bit_imp_le_length)[1])+ (simp add: or.assoc)
  then show ?thesis by (simp add: push_bit_eq_mult)
qed

lemma inet_aton_ntoa [simp]: "inet_aton (inet_ntoa w) = Some w"
proof -
  let ?b = "bytes32 w"
  have "aton_parts 3 (inet_ntoa w) = Some [unat (?b ! 0), unat (?b ! 1), unat (?b ! 2), unat (?b ! 3)]"
    by (simp add: inet_ntoa_def aton_dotted)
  moreover have "mk32 (?b ! 0) (?b ! 1) (?b ! 2) (?b ! 3) = w" by (simp add: bytes32_def)
  ultimately show ?thesis
    using mk32_nat [of "?b ! 0" "?b ! 1" "?b ! 2" "?b ! 3"] unat_less_256 [of "?b ! 3"]
    by (simp add: inet_aton_def)
qed

end
