(* ===== verification/Dhcp_Config.thy ===== *)
theory Dhcp_Config
  imports Dhcp_Server Libc_Text
begin

text \<open>
  The configuration file of the DHCP server: the first half of \<open>udhcpd-0.9.8/files.c\<close>. The variable that a
  keyword sets is a field of the configuration record; the table of keywords has a constructor for each of them.
  The resolver behind \<open>gethostbyname\<close> is an argument. Every configuration that can be read has a sorted list of
  well-formed options, so that the server can send them.
\<close>

section \<open>Values\<close>

definition read_ip :: "(string \<Rightarrow> u32 option) \<Rightarrow> string \<Rightarrow> u32 option" where
  "read_ip resolve line = (case inet_aton line of Some a \<Rightarrow> Some a | None \<Rightarrow> resolve line)"

text \<open>The number is stored in any case; the flag tells whether the whole text was a number.\<close>

definition read_u32 :: "string \<Rightarrow> u32 \<times> bool" where
  "read_u32 line = (let (v, r) = strtoul line in (v, r = []))"

definition read_yn :: "string \<Rightarrow> bool option" where
  "read_yn line = (if strcaseeq ''yes'' line then Some True else if strcaseeq ''no'' line then Some False else None)"

section \<open>Options\<close>

text \<open>The data of one value of an option, and the rest of the line; \<^term>\<open>None\<close> is \<open>retval\<close> 0.\<close>

definition read_opt_val ::
    "(string \<Rightarrow> u32 option) \<Rightarrow> option_type \<Rightarrow> string \<Rightarrow> string \<Rightarrow> (u8 list \<times> string) option" where
  "read_opt_val resolve type val rest =
     (case type of
        OPTION_IP \<Rightarrow> map_option (\<lambda>a. (bytes32 a, rest)) (read_ip resolve val)
      | OPTION_IP_PAIR \<Rightarrow>
          (case strtok ('', '' @ [CHR 0x09] @ ''/-'') rest of
             None \<Rightarrow> None
           | Some (val2, rest2) \<Rightarrow>
               do { a \<leftarrow> read_ip resolve val; b \<leftarrow> read_ip resolve val2; Some (bytes32 a @ bytes32 b, rest2) })
      | OPTION_STRING \<Rightarrow> if val = [] then None else Some (take 254 (text_bytes val), rest)
      | OPTION_BOOLEAN \<Rightarrow> map_option (\<lambda>b. ([if b then 1 else 0], rest)) (read_yn val)
      | OPTION_U8 \<Rightarrow> (let (v, r) = strtoul val in if r = [] then Some ([ucast v], rest) else None)
      | OPTION_U16 \<Rightarrow> (let (v, r) = strtoul val in if r = [] then Some (bytes16 (ucast v), rest) else None)
      | OPTION_S16 \<Rightarrow> (let (v, r) = strtol val in if r = [] then Some (bytes16 (ucast v), rest) else None)
      | OPTION_U32 \<Rightarrow> (let (v, r) = strtoul val in if r = [] then Some (bytes32 v, rest) else None)
      | OPTION_S32 \<Rightarrow> (let (v, r) = strtol val in if r = [] then Some (bytes32 v, rest) else None))"

lemma read_opt_val_shrinks: "read_opt_val res t v r = Some (d, r') \<Longrightarrow> length r' \<le> length r"
  by (cases t) (auto simp: read_opt_val_def case_prod_beta bind_eq_Some_conv dest: strtok_shrinks
      split: option.splits if_splits)

function read_opt_loop ::
    "(string \<Rightarrow> u32 option) \<Rightarrow> dhcp_option \<Rightarrow> string \<Rightarrow> bool \<Rightarrow> u8 list list \<Rightarrow> bool \<times> u8 list list" where
  "read_opt_loop resolve option line retval opt_list =
     (case strtok ('', '' @ [CHR 0x09]) line of
        None \<Rightarrow> (retval, opt_list)
      | Some (val, rest) \<Rightarrow>
          (case read_opt_val resolve (opt_type option) val rest of
             None \<Rightarrow> (False, opt_list)
           | Some (buffer, rest') \<Rightarrow>
               let opt_list' = attach_option opt_list option buffer (length buffer) in
               if flag_list option then read_opt_loop resolve option rest' True opt_list'
               else (True, opt_list')))"
  by pat_completeness auto
termination
  by (relation "measure (\<lambda>(res, opt, line, r, ds). length line)")
    (auto dest!: strtok_shrinks read_opt_val_shrinks)

declare read_opt_loop.simps [simp del]

definition find_name :: "string \<Rightarrow> dhcp_option option" where
  "find_name opt = foldl (\<lambda>r x. if opt_name x = opt then Some x else r) None options"

definition read_opt :: "(string \<Rightarrow> u32 option) \<Rightarrow> string \<Rightarrow> u8 list list \<Rightarrow> bool \<times> u8 list list" where
  "read_opt resolve line opt_list =
     (case strtok ('' '' @ [CHR 0x09] @ ''='') line of
        None \<Rightarrow> (False, opt_list)
      | Some (opt, rest) \<Rightarrow>
          (case find_name opt of
             None \<Rightarrow> (False, opt_list)
           | Some option \<Rightarrow> read_opt_loop resolve option rest False opt_list))"

section \<open>Keywords\<close>

datatype config_var =
    V_start | V_end | V_interface | V_options | V_max_leases | V_remaining | V_auto_time | V_decline_time
  | V_conflict_time | V_offer_time | V_min_lease | V_lease_file | V_pidfile | V_notify_file | V_siaddr
  | V_sname | V_boot_file

definition config_keywords :: "(string \<times> config_var \<times> string) list" where
  "config_keywords =
    [(''start'', V_start, ''192.168.0.20''),
     (''end'', V_end, ''192.168.0.254''),
     (''interface'', V_interface, ''eth0''),
     (''option'', V_options, ''''),
     (''opt'', V_options, ''''),
     (''max_leases'', V_max_leases, ''254''),
     (''remaining'', V_remaining, ''yes''),
     (''auto_time'', V_auto_time, ''7200''),
     (''decline_time'', V_decline_time, ''3600''),
     (''conflict_time'', V_conflict_time, ''3600''),
     (''offer_time'', V_offer_time, ''60''),
     (''min_lease'', V_min_lease, ''60''),
     (''lease_file'', V_lease_file, ''/var/lib/misc/udhcpd.leases''),
     (''pidfile'', V_pidfile, ''/var/run/udhcpd.pid''),
     (''notify_file'', V_notify_file, ''''),
     (''siaddr'', V_siaddr, ''0.0.0.0''),
     (''sname'', V_sname, ''''),
     (''boot_file'', V_boot_file, '''')]"

definition set_ip :: "u32 option \<Rightarrow> (u32 \<Rightarrow> server_config_t) \<Rightarrow> server_config_t \<Rightarrow> bool \<times> server_config_t" where
  "set_ip r put cfg = (case r of None \<Rightarrow> (False, cfg) | Some a \<Rightarrow> (True, put a))"

definition set_u32 :: "string \<Rightarrow> (u32 \<Rightarrow> server_config_t) \<Rightarrow> bool \<times> server_config_t" where
  "set_u32 line put = (let (v, ok) = read_u32 line in (ok, put v))"

fun keyword_handler ::
    "(string \<Rightarrow> u32 option) \<Rightarrow> config_var \<Rightarrow> string \<Rightarrow> server_config_t \<Rightarrow> bool \<times> server_config_t" where
  "keyword_handler resolve V_start line cfg = set_ip (read_ip resolve line) (\<lambda>a. cfg\<lparr>sc_start := a\<rparr>) cfg"
| "keyword_handler resolve V_end line cfg = set_ip (read_ip resolve line) (\<lambda>a. cfg\<lparr>sc_end := a\<rparr>) cfg"
| "keyword_handler resolve V_interface line cfg = (True, cfg\<lparr>sc_interface := line\<rparr>)"
| "keyword_handler resolve V_options line cfg =
     (let (r, ds) = read_opt resolve line (sc_options cfg) in (r, cfg\<lparr>sc_options := ds\<rparr>))"
| "keyword_handler resolve V_max_leases line cfg = set_u32 line (\<lambda>v. cfg\<lparr>sc_max_leases := v\<rparr>)"
| "keyword_handler resolve V_remaining line cfg =
     (case read_yn line of None \<Rightarrow> (False, cfg) | Some b \<Rightarrow> (True, cfg\<lparr>sc_remaining := b\<rparr>))"
| "keyword_handler resolve V_auto_time line cfg = set_u32 line (\<lambda>v. cfg\<lparr>sc_auto_time := v\<rparr>)"
| "keyword_handler resolve V_decline_time line cfg = set_u32 line (\<lambda>v. cfg\<lparr>sc_decline_time := v\<rparr>)"
| "keyword_handler resolve V_conflict_time line cfg = set_u32 line (\<lambda>v. cfg\<lparr>sc_conflict_time := v\<rparr>)"
| "keyword_handler resolve V_offer_time line cfg = set_u32 line (\<lambda>v. cfg\<lparr>sc_offer_time := v\<rparr>)"
| "keyword_handler resolve V_min_lease line cfg = set_u32 line (\<lambda>v. cfg\<lparr>sc_min_lease := v\<rparr>)"
| "keyword_handler resolve V_lease_file line cfg = (True, cfg\<lparr>sc_lease_file := line\<rparr>)"
| "keyword_handler resolve V_pidfile line cfg = (True, cfg\<lparr>sc_pidfile := line\<rparr>)"
| "keyword_handler resolve V_notify_file line cfg = (True, cfg\<lparr>sc_notify_file := Some line\<rparr>)"
| "keyword_handler resolve V_siaddr line cfg = set_ip (read_ip resolve line) (\<lambda>a. cfg\<lparr>sc_siaddr := a\<rparr>) cfg"
| "keyword_handler resolve V_sname line cfg = (True, cfg\<lparr>sc_sname := Some line\<rparr>)"
| "keyword_handler resolve V_boot_file line cfg = (True, cfg\<lparr>sc_boot_file := Some line\<rparr>)"

text \<open>The value of a keyword, and its default when the value cannot be read.\<close>

definition set_keyword ::
    "(string \<Rightarrow> u32 option) \<Rightarrow> config_var \<Rightarrow> string \<Rightarrow> string \<Rightarrow> server_config_t \<Rightarrow> server_config_t" where
  "set_keyword resolve var dflt line cfg =
     (let (r, cfg1) = keyword_handler resolve var line cfg in
      if r then cfg1 else snd (keyword_handler resolve var dflt cfg1))"

definition apply_keywords :: "(string \<Rightarrow> u32 option) \<Rightarrow> string \<Rightarrow> string \<Rightarrow> server_config_t \<Rightarrow> server_config_t" where
  "apply_keywords resolve token line cfg =
     foldl (\<lambda>cfg (k, var, dflt). if strcaseeq token k then set_keyword resolve var dflt line cfg else cfg) cfg config_keywords"

definition config_defaults :: "(string \<Rightarrow> u32 option) \<Rightarrow> server_config_t \<Rightarrow> server_config_t" where
  "config_defaults resolve cfg =
     foldl (\<lambda>cfg (k, var, dflt). if dflt \<noteq> [] then snd (keyword_handler resolve var dflt cfg) else cfg) cfg config_keywords"

section \<open>The file\<close>

definition blanks :: string where "blanks = [CHR '' '', CHR 0x09]"

text \<open>Keyword and value of a line; lines without a value are skipped.\<close>

definition parse_line :: "string \<Rightarrow> (string \<times> string) option" where
  "parse_line buffer =
     (let b = takeWhile (\<lambda>c. c \<noteq> CHR ''#'') (takeWhile (\<lambda>c. c \<noteq> newline) (takeWhile (\<lambda>c. c \<noteq> CHR 0x00) buffer));
          token = dropWhile (\<lambda>c. c \<in> set blanks) b;
          name = takeWhile (\<lambda>c. c \<notin> set (''='' @ blanks)) token;
          line = dropWhile (\<lambda>c. c \<notin> set (''='' @ blanks)) token
      in if token = [] \<or> line = [] then None
         else Some (name, rev (dropWhile isspace (rev (dropWhile (\<lambda>c. c \<in> set (''='' @ blanks)) (tl line))))))"

function config_lines :: "(string \<Rightarrow> u32 option) \<Rightarrow> string \<Rightarrow> server_config_t \<Rightarrow> server_config_t" where
  "config_lines resolve file cfg =
     (if file = [] then cfg
      else case fgets 79 file of
        (buffer, rest) \<Rightarrow>
          (case parse_line buffer of
             None \<Rightarrow> config_lines resolve rest cfg
           | Some (token, line) \<Rightarrow> config_lines resolve rest (apply_keywords resolve token line cfg)))"
  by pat_completeness auto
termination
  by (relation "measure (\<lambda>(res, text, cfg). length text)") (auto dest: fgets_rest)

declare config_lines.simps [simp del]

definition read_config :: "(string \<Rightarrow> u32 option) \<Rightarrow> string option \<Rightarrow> server_config_t \<Rightarrow> int \<times> server_config_t" where
  "read_config resolve file cfg =
     (let cfg1 = config_defaults resolve cfg in
      case file of None \<Rightarrow> (0, cfg1) | Some text \<Rightarrow> (1, config_lines resolve text cfg1))"

section \<open>The options of a configuration\<close>

text \<open>Sorted without duplicates, each with its length, none of them the overload option, and a lease time of four bytes.\<close>

definition conf_opts_ok :: "u8 list list \<Rightarrow> bool" where
  "conf_opts_ok ds \<longleftrightarrow> sorted_opts ds \<and> list_all opt_ok ds
     \<and> (\<forall>d \<in> set ds. d ! 0 \<noteq> DHCP_OPTION_OVER \<and> (d ! 0 = DHCP_LEASE_TIME \<longrightarrow> length d = 6))"

lemma options_table:
  assumes "opt \<in> set options"
  shows "opt_code opt \<noteq> DHCP_PADDING" "opt_code opt < 128" "opt_code opt \<noteq> DHCP_OPTION_OVER"
    "opt_code opt = DHCP_LEASE_TIME \<Longrightarrow> \<not> flag_list opt \<and> opt_type opt = OPTION_U32"
proof -
  have "list_all (\<lambda>x. opt_code x \<noteq> DHCP_PADDING \<and> opt_code x < 128 \<and> opt_code x \<noteq> DHCP_OPTION_OVER
      \<and> (opt_code x = DHCP_LEASE_TIME \<longrightarrow> \<not> flag_list x \<and> opt_type x = OPTION_U32)) options"
    by (simp add: options_def mk_option_def dhcp_codes)
  then show "opt_code opt \<noteq> DHCP_PADDING" "opt_code opt < 128" "opt_code opt \<noteq> DHCP_OPTION_OVER"
    "opt_code opt = DHCP_LEASE_TIME \<Longrightarrow> \<not> flag_list opt \<and> opt_type opt = OPTION_U32"
    using assms by (auto simp: list_all_iff)
qed

lemma set_attach_option:
  assumes "d \<in> set (attach_option ds opt buffer len)" "list_all opt_ok ds" "opt_code opt < 128"
  shows "d \<in> set ds \<or> d = opt_code opt # word_of_nat len # take len buffer \<or> flag_list opt \<and> d ! 0 = opt_code opt"
proof (cases "find_option ds (opt_code opt)")
  case None
  then show ?thesis using assms(1) by (auto simp: attach_option_def set_insert_option)
next
  case (Some k)
  note k = find_option_Some [OF Some assms(3)]
  have "2 \<le> length (ds ! k)" using assms(2) k opt_ok_length by (simp add: list_all_length)
  then have "(take 1 (ds ! k) @ xs) ! 0 = opt_code opt" for xs using k by (cases "ds ! k") auto
  then show ?thesis
    using assms(1) Some
    by (auto simp: attach_option_def Let_def split: if_splits dest!: set_update_subset_insert [THEN subsetD])
qed

lemma attach_conf_opts:
  assumes "conf_opts_ok ds" "opt \<in> set options" "length buffer \<le> 255"
    and "opt_type opt = OPTION_U32 \<Longrightarrow> length buffer = 4"
  shows "conf_opts_ok (attach_option ds opt buffer (length buffer))"
proof -
  note t = options_table [OF assms(2)]
  have ds: "sorted_opts ds" "list_all opt_ok ds" using assms(1) by (simp_all add: conf_opts_ok_def)
  note a = attach_option_ok [OF ds t(1,2) assms(3) order_refl]
  have "d ! 0 \<noteq> DHCP_OPTION_OVER \<and> (d ! 0 = DHCP_LEASE_TIME \<longrightarrow> length d = 6)"
    if "d \<in> set (attach_option ds opt buffer (length buffer))" for d
    using set_attach_option [OF that ds(2) t(2)] t(3,4) assms(1,4) by (auto simp: conf_opts_ok_def)
  with a show ?thesis by (simp add: conf_opts_ok_def)
qed

lemma read_opt_val_length:
  "read_opt_val res t v r = Some (d, r') \<Longrightarrow> length d \<le> 255 \<and> (t = OPTION_U32 \<longrightarrow> length d = 4)"
  by (cases t) (auto simp: read_opt_val_def case_prod_beta bind_eq_Some_conv split: option.splits if_splits)

lemma read_opt_loop_ok:
  "conf_opts_ok ds \<Longrightarrow> opt \<in> set options \<Longrightarrow> conf_opts_ok (snd (read_opt_loop res opt line r ds))"
proof (induction res opt line r ds rule: read_opt_loop.induct)
  case (1 res opt line r ds)
  show ?case
  proof (cases "strtok ('', '' @ [CHR 0x09]) line")
    case None
    then show ?thesis using 1 by (simp add: read_opt_loop.simps)
  next
    case (Some vr)
    obtain v rest where vr: "vr = (v, rest)" by (cases vr)
    show ?thesis
    proof (cases "read_opt_val res (opt_type opt) v rest")
      case None
      then show ?thesis using 1 Some vr by (simp add: read_opt_loop.simps [of res opt line])
    next
      case b: (Some br)
      obtain d rest' where br: "br = (d, rest')" by (cases br)
      have "conf_opts_ok (attach_option ds opt d (length d))"
        using attach_conf_opts [OF "1.prems"] read_opt_val_length [of res "opt_type opt" v rest d rest'] b br by simp
      then show ?thesis
        using "1.IH" [OF Some [unfolded vr] refl b [unfolded br] refl refl] "1.prems" Some vr b br
        by (simp add: read_opt_loop.simps [of res opt line] Let_def)
    qed
  qed
qed

lemma find_name_in: "find_name opt = Some x \<Longrightarrow> x \<in> set options"
proof -
  have "foldl (\<lambda>r x. if opt_name x = opt then Some x else r) r xs = Some x \<Longrightarrow> r = Some x \<or> x \<in> set xs" for r xs
    by (induction xs arbitrary: r) (auto split: if_splits)
  then show "find_name opt = Some x \<Longrightarrow> x \<in> set options" by (fastforce simp: find_name_def)
qed

lemma read_opt_ok: "conf_opts_ok ds \<Longrightarrow> conf_opts_ok (snd (read_opt res line ds))"
  by (auto simp: read_opt_def split: option.split dest: find_name_in intro: read_opt_loop_ok)

lemma keyword_handler_ok:
  "conf_opts_ok (sc_options cfg) \<Longrightarrow> conf_opts_ok (sc_options (snd (keyword_handler res var line cfg)))"
  using read_opt_ok [of "sc_options cfg" res line]
  by (cases var) (auto simp: set_ip_def set_u32_def case_prod_beta Let_def split: option.split)

lemma set_keyword_ok:
  "conf_opts_ok (sc_options cfg) \<Longrightarrow> conf_opts_ok (sc_options (set_keyword res var dflt line cfg))"
  by (auto simp: set_keyword_def case_prod_beta Let_def intro: keyword_handler_ok)

lemma foldl_keywords:
  assumes "\<And>cfg k. conf_opts_ok (sc_options cfg) \<Longrightarrow> conf_opts_ok (sc_options (f cfg k))"
    and "conf_opts_ok (sc_options cfg)"
  shows "conf_opts_ok (sc_options (foldl f cfg ks))"
  using assms(2) by (induction ks arbitrary: cfg) (auto intro: assms(1))

lemma config_lines_ok:
  "conf_opts_ok (sc_options cfg) \<Longrightarrow> conf_opts_ok (sc_options (config_lines res content cfg))"
proof (induction res content cfg rule: config_lines.induct)
  case (1 res content cfg)
  have a: "conf_opts_ok (sc_options (apply_keywords res token line cfg))" for token line
    unfolding apply_keywords_def
    by (rule foldl_keywords) (use "1.prems" in \<open>auto intro: set_keyword_ok\<close>)
  show ?case
    using "1.IH" "1.prems" a by (subst config_lines.simps) (auto split: prod.split option.split)
qed

lemma config_defaults_options: "sc_options (config_defaults resolve cfg) = sc_options cfg"
  by (simp add: config_defaults_def config_keywords_def set_ip_def set_u32_def case_prod_beta Let_def split: option.split)

lemma read_config_ok:
  "conf_opts_ok (sc_options cfg) \<Longrightarrow> conf_opts_ok (sc_options (snd (read_config resolve file cfg)))"
  using config_lines_ok config_defaults_options [of resolve cfg] by (auto simp: read_config_def Let_def split: option.split)

text \<open>C33:
  Whatever the configuration file contains, reading it gives a list of options that is sorted by code without
  duplicates, in which every option has the length it announces, none is the overload option, and a lease time has
  its four bytes. (The reply messages are built from this list, and \<open>main\<close> copies four bytes out of the lease time.)
  Without a file the defaults are taken.
\<close>

theorem config_options_well_formed:
  assumes "conf_opts_ok (sc_options cfg)"
  shows "conf_opts_ok (sc_options (snd (read_config resolve file cfg)))
    \<and> (file = None \<longrightarrow> sc_options (snd (read_config resolve file cfg)) = sc_options cfg)"
  using assms read_config_ok config_defaults_options by (simp add: read_config_def)

theorem config_options_well_formed_witness:
  "conf_opts_ok (sc_options (snd (read_config (\<lambda>_. None) (Some (''option lease 3600'' @ [newline])) example_config)))"
proof -
  have "conf_opts_ok (sc_options example_config)" by (simp add: conf_opts_ok_def example_config_def sorted_opts_def)
  from config_options_well_formed [OF this] show ?thesis by blast
qed

end
