(* ===== verification/Dhcp_Files.thy ===== *)
theory Dhcp_Files
  imports Dhcp_Config Dhcp_Server_Inv
begin

text \<open>
  The lease file of the DHCP server: \<open>write_leases\<close> and \<open>read_leases\<close> of \<open>udhcpd-0.9.8/files.c\<close>, with the macros
  of \<open>gemtek_added_SRC/gemtek_jimmy_added_003.h\<close>. The content of a file is a list of bytes; whether a file can be
  opened is an argument, and what is written replaces the file. The round trip: a server that starts again with the
  file has every lease that it had written, with the time that was left.
\<close>

section \<open>Writing\<close>

text \<open>\<open>struct dhcpOfferedAddr\<close> as bytes.\<close>

definition lease_bytes :: "u8 list \<Rightarrow> u32 \<Rightarrow> u32 \<Rightarrow> u8 list \<Rightarrow> u8 list" where
  "lease_bytes chaddr yiaddr expires hostname = chaddr @ bytes32 yiaddr @ bytes32 expires @ hostname"

definition strstr :: "string \<Rightarrow> string \<Rightarrow> bool" where
  "strstr hay needle \<longleftrightarrow> (\<exists>k \<le> length hay. take (length needle) (drop k hay) = needle)"

lemma no_scan_rest:
  "(line, rest) = fgets 19 f \<Longrightarrow> rest = [] \<longrightarrow> length line < 19 \<longrightarrow> newline \<in> set line \<Longrightarrow> length rest < length f"
  using fgets_rest [of line rest 19 f] by (cases "f = []") auto

text \<open>The search for a client in the list of clients whose leases are not written. The buffer keeps its content
  when nothing more can be read; the end of the file is noticed when a line ends there without a line end.\<close>

function no_scan :: "string \<Rightarrow> string \<Rightarrow> string \<Rightarrow> bool \<times> string" where
  "no_scan lease_mac buf_no fp_no =
     (case fgets 19 fp_no of
        (line, rest) \<Rightarrow>
          let buf_no' = (if line = [] then buf_no else takeWhile (\<lambda>c. c \<noteq> CHR 0x00) line);
              eof = (rest = [] \<and> length line < 19 \<and> newline \<notin> set line)
          in if strstr buf_no' lease_mac then (True, buf_no')
             else if eof then (False, buf_no')
             else no_scan lease_mac buf_no' rest)"
  by pat_completeness auto
termination
  by (relation "measure (\<lambda>(m, b, f). length f)") (auto dest: no_scan_rest)

declare no_scan.simps [simp del]

definition left_time :: "u32 \<Rightarrow> dhcpOfferedAddr \<Rightarrow> dhcpd \<Rightarrow> u32" where
  "left_time cur l s =
     (if sc_remaining (server_config s) then if l_expires l < cur then 0 else l_expires l - cur
      else l_expires l)"

text \<open>The loop over the entries: the bytes written, with the variables \<open>no_write\<close> and \<open>buf_no\<close>.\<close>

fun write_loop :: "string option \<Rightarrow> u32 \<Rightarrow> dhcpd \<Rightarrow> bool \<Rightarrow> string \<Rightarrow> dhcpOfferedAddr list \<Rightarrow> u8 list" where
  "write_loop fp_no cur s no_write buf_no [] = []"
| "write_loop fp_no cur s no_write buf_no (l # ls) =
     (if l_yiaddr l = 0 \<or> l_chaddr l = blank_chaddr then write_loop fp_no cur s no_write buf_no ls
      else let (no_write', buf_no') = (case fp_no of
                                         None \<Rightarrow> (no_write, buf_no)
                                       | Some f \<Rightarrow> no_scan (mac_text (l_chaddr l)) buf_no f)
           in (if no_write' then []
               else lease_bytes (l_chaddr l) (l_yiaddr l) (left_time cur l s) (l_hostname l))
              @ write_loop fp_no cur s no_write' buf_no' ls)"

text \<open>\<open>fp_no\<close> is the content of \<open>/tmp/udhcpd.lease.no\<close>; the answer is the new content of the lease file, if it could
  be opened. The command is put together in a buffer of 255 bytes.\<close>

definition write_leases :: "bool \<Rightarrow> string option \<Rightarrow> dhcpd \<Rightarrow> (u8 list option \<times> dhcpd) option" where
  "write_leases lease_file_ok fp_no s =
     (let (cur, s1) = sys_time s in
      if \<not> lease_file_ok then Some (None, s1)
      else if max_leases s1 > length (leases s1) then None
      else let out = write_loop fp_no cur s1 False [] (take (max_leases s1) (leases s1)) in
        (case sc_notify_file (server_config s1) of
           None \<Rightarrow> Some (Some out, s1)
         | Some f \<Rightarrow>
             let cmd = f @ '' '' @ sc_lease_file (server_config s1) in
             if length cmd \<ge> 255 then None else Some (Some out, system_cmd cmd s1)))"

section \<open>Reading\<close>

definition rec_chaddr :: "u8 list \<Rightarrow> u8 list" where "rec_chaddr r = sub_buf r 0 16"
definition rec_yiaddr :: "u8 list \<Rightarrow> u32" where "rec_yiaddr r = msg32 r 16"
definition rec_expires :: "u8 list \<Rightarrow> u32" where "rec_expires r = msg32 r 20"
definition rec_hostname :: "u8 list \<Rightarrow> u8 list" where "rec_hostname r = sub_buf r 24 64"

definition put_hostname :: "nat \<Rightarrow> u8 list \<Rightarrow> dhcpd \<Rightarrow> dhcpd" where
  "put_hostname i h s =
     s\<lparr>leases := (leases s)[i := (leases s ! i)\<lparr>l_hostname := strncpy h 63 @ [0]\<rparr>]\<rparr>"

function read_leases_loop :: "nat \<Rightarrow> u8 list \<Rightarrow> dhcpd \<Rightarrow> dhcpd option" where
  "read_leases_loop i fp s =
     (if i < max_leases s \<and> 88 \<le> length fp then
        let r = take 88 fp;
            (expires, s1) = (if sc_remaining (server_config s) then (rec_expires r, s)
                             else let (t, s') = sys_time s in (rec_expires r - t, s'))
        in (case add_lease (rec_chaddr r) (rec_yiaddr r) expires s1 of
              None \<Rightarrow> None
            | Some (None, s2) \<Rightarrow> Some s2
            | Some (Some k, s2) \<Rightarrow> read_leases_loop (Suc i) (drop 88 fp) (put_hostname k (rec_hostname r) s2))
      else Some s)"
  by pat_completeness auto
termination
  by (relation "measure (\<lambda>(i, fp, s). length fp)") auto

declare read_leases_loop.simps [simp del]

definition read_leases :: "u8 list option \<Rightarrow> dhcpd \<Rightarrow> dhcpd option" where
  "read_leases fp s = (case fp of None \<Rightarrow> Some s | Some bytes \<Rightarrow> read_leases_loop 0 bytes s)"

section \<open>The list of clients that are not written\<close>

definition listed :: "string option \<Rightarrow> u8 list \<Rightarrow> bool" where
  "listed fp_no c = (case fp_no of None \<Rightarrow> False | Some f \<Rightarrow> fst (no_scan (mac_text c) [] f))"

lemma length_mac_text: "length (mac_text c) = 17"
  by (simp add: mac_text_def hex2_def)

lemma no_scan_empty: "no_scan (mac_text c) [] [] = (False, [])"
proof -
  have "\<not> strstr [] (mac_text c)" using length_mac_text [of c] by (auto simp: strstr_def)
  then show ?thesis by (simp add: no_scan.simps)
qed

lemma no_scan_buffer: "f \<noteq> [] \<Longrightarrow> no_scan m b f = no_scan m [] f"
proof -
  assume f: "f \<noteq> []"
  obtain line rest where l: "fgets 19 f = (line, rest)" by fastforce
  then have "line \<noteq> []" using f fgets_append [of 19 f] fgets_shrinks [of 19 f] by auto
  then show ?thesis unfolding no_scan.simps [of m b f] no_scan.simps [of m "[]" f] l by simp
qed

definition kept :: "string option \<Rightarrow> dhcpOfferedAddr \<Rightarrow> bool" where
  "kept fp_no l \<longleftrightarrow> l_yiaddr l \<noteq> 0 \<and> l_chaddr l \<noteq> blank_chaddr \<and> \<not> listed fp_no (l_chaddr l)"

definition lease_record :: "u32 \<Rightarrow> dhcpd \<Rightarrow> dhcpOfferedAddr \<Rightarrow> u8 list" where
  "lease_record cur s l = lease_bytes (l_chaddr l) (l_yiaddr l) (left_time cur l s) (l_hostname l)"

lemma write_loop_eq:
  "(fp_no = None \<longrightarrow> \<not> no_write) \<Longrightarrow> (fp_no = Some [] \<longrightarrow> buf_no = []) \<Longrightarrow>
   write_loop fp_no cur s no_write buf_no ls = concat (map (lease_record cur s) (filter (kept fp_no) ls))"
proof (induction ls arbitrary: no_write buf_no)
  case (Cons l ls)
  show ?case
  proof (cases fp_no)
    case None
    then show ?thesis using Cons by (auto simp: kept_def listed_def lease_record_def)
  next
    case (Some f)
    obtain nw b where nb: "no_scan (mac_text (l_chaddr l)) buf_no f = (nw, b)" by fastforce
    have nw: "nw = listed fp_no (l_chaddr l)"
    proof (cases "f = []")
      case True
      then show ?thesis using nb Some Cons.prems(2) no_scan_empty [of "l_chaddr l"] by (simp add: listed_def)
    next
      case False
      then have "no_scan (mac_text (l_chaddr l)) [] f = (nw, b)" using no_scan_buffer [of f _ buf_no] nb by simp
      then show ?thesis using Some by (simp add: listed_def)
    qed
    have b: "fp_no = Some [] \<longrightarrow> b = []"
      using nb Some Cons.prems(2) no_scan_empty [of "l_chaddr l"] by auto
    show ?thesis
    proof (cases "l_yiaddr l = 0 \<or> l_chaddr l = blank_chaddr")
      case True
      then show ?thesis using Cons.IH [OF Cons.prems] by (auto simp: kept_def)
    next
      case False
      have "write_loop fp_no cur s nw b ls = concat (map (lease_record cur s) (filter (kept fp_no) ls))"
        by (rule Cons.IH) (use Some b in simp_all)
      then show ?thesis using False Some nb nw by (simp add: kept_def [of _ l] lease_record_def [of _ _ l])
    qed
  qed
qed simp

section \<open>Loading what was written\<close>

definition host_name :: "dhcpOfferedAddr \<Rightarrow> u8 list" where
  "host_name l = takeWhile (\<lambda>b. b \<noteq> 0) (take 63 (l_hostname l))"

text \<open>The entry \<open>l'\<close> that is loaded for the entry \<open>l\<close>, with the time that was left, counted from a reading of the
  clock of the new server.\<close>

definition loaded :: "u32 \<Rightarrow> dhcpd \<Rightarrow> dhcpd \<Rightarrow> dhcpOfferedAddr \<Rightarrow> dhcpOfferedAddr \<Rightarrow> bool" where
  "loaded cur s s0 l l' \<longleftrightarrow> l_chaddr l' = l_chaddr l \<and> l_yiaddr l' = l_yiaddr l \<and> host_name l' = host_name l
     \<and> (\<exists>k. l_expires l' = os_uptime s0 k + left_time cur l s)"

lemma rec_lease_record:
  assumes "lease_ok l"
  shows "length (lease_record cur s l) = 88" "rec_chaddr (lease_record cur s l) = l_chaddr l"
    "rec_yiaddr (lease_record cur s l) = l_yiaddr l" "rec_expires (lease_record cur s l) = left_time cur l s"
    "rec_hostname (lease_record cur s l) = l_hostname l"
proof -
  let ?r = "lease_record cur s l"
  have r: "?r = l_chaddr l @ bytes32 (l_yiaddr l) @ bytes32 (left_time cur l s) @ l_hostname l"
    and len: "length (l_chaddr l) = 16" "length (l_hostname l) = 64"
    using assms by (simp_all add: lease_record_def lease_bytes_def lease_ok_def)
  show l88: "length ?r = 88" using len by (simp add: r)
  show "rec_chaddr ?r = l_chaddr l" "rec_hostname ?r = l_hostname l"
    using len by (simp_all add: r rec_chaddr_def rec_hostname_def sub_buf_def bytes32_def)
  have "sub_buf ?r 16 4 = bytes32 (l_yiaddr l)" "sub_buf ?r 20 4 = bytes32 (left_time cur l s)"
    using len by (simp_all add: r sub_buf_def bytes32_def)
  then show "rec_yiaddr ?r = l_yiaddr l" "rec_expires ?r = left_time cur l s"
    unfolding rec_yiaddr_def rec_expires_def using l88 by (auto intro!: msg32_sub_buf)
qed

lemma put_hostname_simps:
  "leases (put_hostname i h s) = (leases s)[i := (leases s ! i)\<lparr>l_hostname := strncpy h 63 @ [0]\<rparr>]"
  "max_leases (put_hostname i h s) = max_leases s" "server_config (put_hostname i h s) = server_config s"
  "same_env s0 (put_hostname i h s) = same_env s0 s" "os_uptime (put_hostname i h s) = os_uptime s"
  by (simp_all add: put_hostname_def max_leases_def same_env_def same_conf_def)

lemma dhcpd_ok_put_hostname:
  assumes "dhcpd_ok s" "i < length (leases s)"
  shows "dhcpd_ok (put_hostname i h s)"
proof -
  let ?l = "(leases s ! i)\<lparr>l_hostname := strncpy h 63 @ [0]\<rparr>"
  have t: "table_ok (leases s)" using assms(1) by (simp add: dhcpd_ok_def)
  have "lease_ok ?l" using table_ok_nth [OF t assms(2)] by (simp add: lease_ok_def)
  from table_ok_change [OF t assms(2) this] assms(1) show ?thesis
    by (simp add: dhcpd_ok_def put_hostname_simps)
qed

lemma takeWhile_strncpy: "takeWhile (\<lambda>b. b \<noteq> 0) (strncpy h n @ [0]) = takeWhile (\<lambda>b. b \<noteq> 0) (take n h)"
  by (simp add: strncpy_def Let_def takeWhile_append takeWhile_idem)

lemma host_name_put:
  "length h = 64 \<Longrightarrow> host_name (l\<lparr>l_hostname := strncpy h 63 @ [0]\<rparr>) = takeWhile (\<lambda>b. b \<noteq> 0) (take 63 h)"
proof -
  have "takeWhile (\<lambda>b. b \<noteq> 0) (take 63 (strncpy h 63 @ [0])) = takeWhile (\<lambda>b. b \<noteq> 0) (strncpy h 63 @ [0])"
    by (simp add: takeWhile_append)
  then show ?thesis by (simp add: host_name_def takeWhile_strncpy)
qed

lemma add_first_blank:
  assumes ok: "dhcpd_ok s" and ls: "leases s = ls @ replicate (Suc m) blank_lease" "\<forall>x \<in> set ls. l_expires x \<noteq> 0"
    and new: "length c = 16" "y \<noteq> 0" "c \<noteq> blank_chaddr" "\<forall>x \<in> set ls. l_yiaddr x \<noteq> y \<and> l_chaddr x \<noteq> c"
    and clock: "\<forall>k. 0 < os_uptime s k"
  obtains s' k where "add_lease c y d s = Some (Some (length ls), s')" "dhcpd_ok s'" "same_env s s'"
    "leases s' = ls @ new_lease c y (os_uptime s k + d) blank_lease # replicate m blank_lease"
proof -
  have cl: "cleared c y (leases s) = leases s"
    unfolding cleared_def by (rule map_idI) (use ls(1) new in \<open>auto simp: clears_def\<close>)
  have o: "Some (length ls) = oldest_scan (now s) None 0 (cleared c y (leases s))"
    using oldest_scan_blank [OF ls(2), of "now s" blank_lease None 0 "replicate m blank_lease"] clock ls(1) cl by simp
  have m: "max_leases s = length (leases s)" using ok by (simp add: dhcpd_ok_def)
  obtain s' where s': "add_lease c y d s = Some (Some (length ls), s')" "same_env s s'"
    "leases s' = (leases s)[length ls := new_lease c y (now1 s + d) (leases s ! length ls)]"
    by (rule add_lease_eq [OF m new(2) o, of d]) (use cl in simp)
  have "dhcpd_ok s'" using add_lease_ok [OF ok new(1), of y d] s'(1) by (metis option.inject prod.inject)
  moreover have "leases s' = ls @ new_lease c y (now1 s + d) blank_lease # replicate m blank_lease"
    using s'(3) ls(1) by (simp add: nth_append)
  ultimately show ?thesis using that s' by blast
qed

lemma read_leases_loop_records:
  assumes "dhcpd_ok s" "leases s = ls @ replicate m blank_lease" "length rs \<le> m" "sc_remaining (server_config s)"
    and "\<forall>x \<in> set ls. l_expires x \<noteq> 0" "\<forall>k. 0 < os_uptime s k"
    and "\<forall>l \<in> set rs. lease_ok l \<and> l_yiaddr l \<noteq> 0 \<and> l_chaddr l \<noteq> blank_chaddr
           \<and> (\<forall>k. os_uptime s k + left_time cur l s0 \<noteq> 0)"
    and "distinct (map l_yiaddr rs)" "distinct (map l_chaddr rs)"
    and "\<forall>x \<in> set ls. \<forall>l \<in> set rs. l_yiaddr x \<noteq> l_yiaddr l \<and> l_chaddr x \<noteq> l_chaddr l"
  shows "\<exists>s1 ls'. read_leases_loop (length ls) (concat (map (lease_record cur s0) rs)) s = Some s1 \<and> dhcpd_ok s1
    \<and> same_env s s1 \<and> leases s1 = ls @ ls' @ replicate (m - length rs) blank_lease
    \<and> list_all2 (loaded cur s0 s) rs ls'"
  using assms
proof (induction rs arbitrary: s ls m)
  case Nil
  then show ?case by (intro exI [of _ s] exI [of _ "[]"]) (simp add: read_leases_loop.simps)
next
  case (Cons r rs)
  obtain m' where m': "m = Suc m'" using Cons.prems(3) by (cases m) auto
  have r: "lease_ok r" "l_yiaddr r \<noteq> 0" "l_chaddr r \<noteq> blank_chaddr" "length (l_chaddr r) = 16" "length (l_hostname r) = 64"
    using Cons.prems(7) by (auto simp: lease_ok_def)
  note rr = rec_lease_record [OF r(1), of cur s0]
  obtain s1 k where s1: "add_lease (l_chaddr r) (l_yiaddr r) (left_time cur r s0) s = Some (Some (length ls), s1)"
    "dhcpd_ok s1" "same_env s s1"
    "leases s1 = ls @ new_lease (l_chaddr r) (l_yiaddr r) (os_uptime s k + left_time cur r s0) blank_lease
       # replicate m' blank_lease"
    by (rule add_first_blank [OF Cons.prems(1) Cons.prems(2) [unfolded m'] Cons.prems(5) r(4,2,3) _ Cons.prems(6)])
      (use Cons.prems(10) in auto)
  let ?s2 = "put_hostname (length ls) (l_hostname r) s1"
  let ?l = "(new_lease (l_chaddr r) (l_yiaddr r) (os_uptime s k + left_time cur r s0) blank_lease)
    \<lparr>l_hostname := strncpy (l_hostname r) 63 @ [0]\<rparr>"
  have l2: "leases ?s2 = (ls @ [?l]) @ replicate m' blank_lease" using s1(4) by (simp add: put_hostname_simps nth_append)
  have e2: "same_env s ?s2" using s1(3) by (simp add: put_hostname_simps)
  have ok2: "dhcpd_ok ?s2" using dhcpd_ok_put_hostname [OF s1(2)] s1(4) by simp
  have os2: "os_uptime ?s2 = os_uptime s" "server_config ?s2 = server_config s"
    using e2 by (simp_all add: same_env_def same_conf_def)
  have le: "loaded cur s0 s r ?l" using host_name_put [OF r(5)] by (auto simp: loaded_def host_name_def)
  have "\<exists>s' ls'. read_leases_loop (length (ls @ [?l])) (concat (map (lease_record cur s0) rs)) ?s2 = Some s' \<and> dhcpd_ok s'
    \<and> same_env ?s2 s' \<and> leases s' = (ls @ [?l]) @ ls' @ replicate (m' - length rs) blank_lease
    \<and> list_all2 (loaded cur s0 ?s2) rs ls'"
    by (rule Cons.IH [OF ok2 l2]) (use Cons.prems m' os2 in auto)
  then obtain s' ls' where s': "read_leases_loop (length (ls @ [?l])) (concat (map (lease_record cur s0) rs)) ?s2 = Some s'"
    "dhcpd_ok s'" "same_env ?s2 s'" "leases s' = (ls @ [?l]) @ ls' @ replicate (m' - length rs) blank_lease"
    "list_all2 (loaded cur s0 ?s2) rs ls'" by (elim exE conjE) (rule that)
  have "length ls < max_leases s" using Cons.prems(1,2) m' by (simp add: dhcpd_ok_def)
  then have "read_leases_loop (length ls) (concat (map (lease_record cur s0) (r # rs))) s = Some s'"
    using Cons.prems(4) rr s1(1) s'(1) by (simp add: read_leases_loop.simps [of "length ls"])
  moreover have "list_all2 (loaded cur s0 s) (r # rs) (?l # ls')"
    using le s'(5) os2 by (simp add: loaded_def [abs_def])
  ultimately show ?case
    using s'(2,4) same_env_trans [OF e2 s'(3)] m' by (intro exI [of _ s'] exI [of _ "?l # ls'"]) simp
qed

lemma distinct_map_filter_nth:
  "(\<And>i j. i < length xs \<Longrightarrow> j < length xs \<Longrightarrow> i \<noteq> j \<Longrightarrow> P (xs ! i) \<Longrightarrow> P (xs ! j) \<Longrightarrow> f (xs ! i) \<noteq> f (xs ! j))
   \<Longrightarrow> distinct (map f (filter P xs))"
proof (induction xs)
  case (Cons x xs)
  have "f x \<noteq> f y" if "P x" "y \<in> set xs" "P y" for y
  proof -
    obtain j where "j < length xs" "xs ! j = y" using \<open>y \<in> set xs\<close> by (auto simp: in_set_conv_nth)
    then show ?thesis using Cons.prems [of 0 "Suc j"] that by simp
  qed
  moreover have "distinct (map f (filter P xs))"
    using Cons.prems [of "Suc i" "Suc j" for i j] by (intro Cons.IH) auto
  ultimately show ?case by auto
qed simp

lemma kept_distinct:
  assumes "table_ok ls"
  shows "distinct (map l_yiaddr (filter (kept fp_no) ls))" "distinct (map l_chaddr (filter (kept fp_no) ls))"
  using table_okD [OF assms] by (auto intro!: distinct_map_filter_nth simp: kept_def)

text \<open>The table after loading, as a map.\<close>

lemma loaded_map:
  assumes t: "table_ok ls" and t': "table_ok (ls' @ replicate m blank_lease)"
    and l: "list_all2 (loaded cur s s0) (filter (kept fp_no) ls) ls'"
  shows "case lease_map ls y of
      None \<Rightarrow> lease_map (ls' @ replicate m blank_lease) y = None
    | Some (c, e) \<Rightarrow>
        if c = blank_chaddr \<or> listed fp_no c then lease_map (ls' @ replicate m blank_lease) y = None
        else \<exists>x k. x \<in> set ls \<and> l_expires x = e
          \<and> lease_map (ls' @ replicate m blank_lease) y = Some (c, os_uptime s0 k + left_time cur x s)"
proof (cases "y = 0")
  case True
  then show ?thesis by (simp add: lease_map_def)
next
  case y: False
  let ?rs = "filter (kept fp_no) ls" and ?ls = "ls' @ replicate m blank_lease"
  have len: "length ls' = length ?rs" using l by (simp add: list_all2_lengthD)
  have ld: "loaded cur s s0 (?rs ! i) (ls' ! i)" if "i < length ?rs" for i using l that by (simp add: list_all2_nthD)
  have from_rs: "\<exists>x \<in> set ls. kept fp_no x \<and> l_yiaddr x = y" if j: "j < length ?ls" "l_yiaddr (?ls ! j) = y" for j
  proof -
    have "j < length ls'" using j y by (auto simp: nth_append not_less split: if_splits)
    then have "?rs ! j \<in> set ?rs" "l_yiaddr (?rs ! j) = y"
      using ld [of j] nth_mem [of j ?rs] len j(2) by (simp_all only: loaded_def nth_append if_True)
    then show ?thesis by auto
  qed
  have in_map: "lease_map ls y = Some (l_chaddr x, l_expires x)" if "x \<in> set ls" "l_yiaddr x = y" for x
    using that lease_map_nth [OF t _ _ y] by (auto simp: in_set_conv_nth)
  show ?thesis
  proof (cases "\<exists>x \<in> set ls. kept fp_no x \<and> l_yiaddr x = y")
    case True
    then obtain x where x: "x \<in> set ls" "kept fp_no x" "l_yiaddr x = y" by blast
    then have "x \<in> set ?rs" by simp
    then obtain i where i: "i < length ?rs" "?rs ! i = x" by (auto simp only: in_set_conv_nth)
    have "lease_map ?ls y = Some (l_chaddr (?ls ! i), l_expires (?ls ! i))"
      by (rule lease_map_nth [OF t' _ _ y]) (use ld [OF i(1)] i x len in \<open>auto simp: loaded_def nth_append\<close>)
    moreover have "l_chaddr (?ls ! i) = l_chaddr x" "\<exists>k. l_expires (?ls ! i) = os_uptime s0 k + left_time cur x s"
      using ld [OF i(1)] i len by (auto simp: loaded_def nth_append)
    ultimately show ?thesis using in_map [OF x(1,3)] x by (auto simp: kept_def)
  next
    case False
    then have n: "lease_map ?ls y = None" using from_rs by (intro lease_map_NoneI) blast
    have "c = blank_chaddr \<or> listed fp_no c" if "lease_map ls y = Some (c, e)" for c e
      using lease_map_SomeD [OF that] False y by (auto simp: kept_def)
    with n show ?thesis by (auto split: option.split)
  qed
qed

text \<open>C22:
  The lease file keeps the leases over a restart. When the server writes its leases and a new server with the same
  configuration loads the file, it has exactly the leases of the old one, except for addresses that were only reserved
  and for clients of the exclusion list: the same client for the same address, with the same host name, and a lease
  time that is what was left when the file was written (nothing for an expired lease), counted from the time of
  loading.
\<close>

theorem leases_survive_restart:
  assumes ok: "dhcpd_ok s" and conf: "sc_remaining (server_config s)"
      "\<forall>f. sc_notify_file (server_config s) = Some f \<longrightarrow> length f + length (sc_lease_file (server_config s)) < 254"
    and s0: "leases s0 = replicate (length (leases s)) blank_lease" "server_config s0 = server_config s"
    and clock: "\<forall>k. 0 < os_uptime s0 k" "\<forall>k. \<forall>l \<in> set (leases s). unat (os_uptime s0 k) + unat (l_expires l) < 2 ^ 32"
  shows "\<exists>f s1 s2. write_leases True fp_no s = Some (Some f, s1) \<and> read_leases (Some f) s0 = Some s2 \<and> dhcpd_ok s2
    \<and> (\<forall>y. case lease_map (leases s) y of
          None \<Rightarrow> lease_map (leases s2) y = None
        | Some (c, e) \<Rightarrow>
            if c = blank_chaddr \<or> listed fp_no c then lease_map (leases s2) y = None
            else \<exists>k. lease_map (leases s2) y = Some (c, os_uptime s0 k + (if e < now s then 0 else e - now s)))
    \<and> (\<forall>l \<in> set (leases s). kept fp_no l \<longrightarrow>
         (\<exists>l' \<in> set (leases s2). l_yiaddr l' = l_yiaddr l \<and> host_name l' = host_name l))"
proof -
  have t: "table_ok (leases s)" and m: "max_leases s = length (leases s)" using ok by (simp_all add: dhcpd_ok_def)
  let ?u = "s\<lparr>n_uptime := Suc (n_uptime s)\<rparr>"
  let ?rs = "filter (kept fp_no) (leases s)"
  let ?f = "concat (map (lease_record (now s) ?u) ?rs)"
  have left: "left_time (now s) l ?u = (if l_expires l < now s then 0 else l_expires l - now s)" for l
    using conf(1) by (simp add: left_time_def)
  have w: "\<exists>s1. write_leases True fp_no s = Some (Some ?f, s1)"
    using conf(2) m write_loop_eq [of fp_no False "[]" "now s" ?u "leases s"]
    by (auto simp: write_leases_def sys_time_def max_leases_def Let_def split: option.split)
  have ok0: "dhcpd_ok s0" using s0 m table_ok_blank [of "length (leases s)"] by (simp add: dhcpd_ok_def max_leases_def)
  have pos: "os_uptime s0 k + left_time (now s) l ?u \<noteq> 0" if "l \<in> set (leases s)" for k l
  proof -
    have "unat (left_time (now s) l ?u) \<le> unat (l_expires l)"
      using word_sub_le [of "now s" "l_expires l"] by (auto simp: left word_le_nat_alt not_less)
    then have "unat (os_uptime s0 k) + unat (left_time (now s) l ?u) < 2 ^ 32" using clock(2) that
      by (meson add_left_mono order.strict_trans1)
    then have "unat (os_uptime s0 k + left_time (now s) l ?u) = unat (os_uptime s0 k) + unat (left_time (now s) l ?u)"
      by (intro unat_add_lem [THEN iffD1]) simp
    moreover have "0 < unat (os_uptime s0 k)" using clock(1) by (simp add: word_less_nat_alt)
    ultimately show ?thesis by (metis add_is_0 not_gr_zero unat_0)
  qed
  have "list_all lease_ok (leases s)" using t by (simp add: table_ok_def)
  then have rs: "\<forall>l \<in> set ?rs. lease_ok l \<and> l_yiaddr l \<noteq> 0 \<and> l_chaddr l \<noteq> blank_chaddr
      \<and> (\<forall>k. os_uptime s0 k + left_time (now s) l ?u \<noteq> 0)"
    using pos by (auto simp: list_all_iff kept_def)
  obtain s2 ls' where s2: "read_leases_loop 0 ?f s0 = Some s2" "dhcpd_ok s2"
    "leases s2 = ls' @ replicate (length (leases s) - length ?rs) blank_lease"
    "list_all2 (loaded (now s) ?u s0) ?rs ls'"
    using read_leases_loop_records [of s0 "[]" "length (leases s)" ?rs, OF ok0 _ _ _ _ clock(1) rs kept_distinct [OF t]]
      s0 conf(1) by auto
  have map: "case lease_map (leases s) y of
          None \<Rightarrow> lease_map (leases s2) y = None
        | Some (c, e) \<Rightarrow>
            if c = blank_chaddr \<or> listed fp_no c then lease_map (leases s2) y = None
            else \<exists>k. lease_map (leases s2) y = Some (c, os_uptime s0 k + (if e < now s then 0 else e - now s))" for y
  proof -
    have "table_ok (leases s2)" using s2(2) by (simp add: dhcpd_ok_def)
    note lm = loaded_map [OF t this [unfolded s2(3)] s2(4), of y, folded s2(3)]
    show ?thesis
    proof (cases "lease_map (leases s) y")
      case (Some ce)
      obtain c e where "ce = (c, e)" by fastforce
      with lm Some left show ?thesis by (cases "c = blank_chaddr \<or> listed fp_no c") auto
    qed (use lm in simp)
  qed
  have host: "\<exists>l' \<in> set (leases s2). l_yiaddr l' = l_yiaddr l \<and> host_name l' = host_name l"
    if "l \<in> set (leases s)" "kept fp_no l" for l
  proof -
    have "l \<in> set ?rs" using that by simp
    then obtain i where i: "i < length ?rs" "?rs ! i = l" by (auto simp only: in_set_conv_nth)
    then have "loaded (now s) ?u s0 l (ls' ! i)" "i < length ls'"
      using s2(4) by (auto simp only: list_all2_conv_all_nth)
    then show ?thesis using s2(3) by (auto simp: loaded_def intro!: bexI [of _ "ls' ! i"])
  qed
  obtain s1 where w: "write_leases True fp_no s = Some (Some ?f, s1)" using w by blast
  have r: "read_leases (Some ?f) s0 = Some s2" using s2(1) by (simp add: read_leases_def)
  show ?thesis
    by (intro exI conjI, rule w, rule r, rule s2(2)) (intro allI map, use host in blast)
qed

theorem leases_survive_restart_witness:
  "\<exists>f s1 s2. write_leases True None (example_server\<lparr>leases := [blank_lease\<lparr>l_chaddr := replicate 16 7,
       l_yiaddr := 0xC0A80102, l_expires := 500\<rparr>, blank_lease, blank_lease]\<rparr>) = Some (Some f, s1)
    \<and> read_leases (Some f) example_server = Some s2 \<and> lease_map (leases s2) 0xC0A80102 = Some (replicate 16 7, 500)"
proof -
  let ?l = "blank_lease\<lparr>l_chaddr := replicate 16 7, l_yiaddr := 0xC0A80102, l_expires := 500\<rparr>"
  let ?s = "example_server\<lparr>leases := [?l, blank_lease, blank_lease]\<rparr>"
  have "[?l, blank_lease, blank_lease] = (replicate 3 blank_lease)[0 := ?l]" by (simp add: numeral_eq_Suc)
  moreover have "table_ok ((replicate 3 blank_lease)[0 := ?l])"
    by (rule table_ok_put [OF table_ok_blank]) (auto simp: lease_ok_def blank_lease_def blank_chaddr_def)
  ultimately have ok: "dhcpd_ok ?s"
    using example_ok by (simp add: dhcpd_ok_def example_server_def max_leases_def)
  have c: "sc_remaining (server_config ?s)" "\<forall>f. sc_notify_file (server_config ?s) = Some f \<longrightarrow>
      length f + length (sc_lease_file (server_config ?s)) < 254"
    "server_config example_server = server_config ?s" "\<forall>k. 0 < os_uptime example_server k"
    "\<forall>k. \<forall>l \<in> set (leases ?s). unat (os_uptime example_server k) + unat (l_expires l) < 2 ^ 32"
    by (simp_all add: example_server_def example_config_def)
  have l: "leases example_server = replicate (length (leases ?s)) blank_lease"
    by (simp add: example_server_def numeral_eq_Suc)
  have m: "lease_map (leases ?s) 0xC0A80102 = Some (replicate 16 7, 500)" by (simp add: lease_map_def)
  have k: "replicate 16 7 \<noteq> blank_chaddr" "\<not> listed None (replicate 16 7)" "now ?s = 100"
    "os_uptime example_server = (\<lambda>_. 100)"
    by (simp_all add: blank_chaddr_def listed_def example_server_def)
  from leases_survive_restart [OF ok c(1,2) l c(3-5), of None]
  obtain f s1 s2 where f: "write_leases True None ?s = Some (Some f, s1)" "read_leases (Some f) example_server = Some s2"
    "\<forall>y. case lease_map (leases ?s) y of
          None \<Rightarrow> lease_map (leases s2) y = None
        | Some (c, e) \<Rightarrow>
            if c = blank_chaddr \<or> listed None c then lease_map (leases s2) y = None
            else \<exists>k. lease_map (leases s2) y =
              Some (c, os_uptime example_server k + (if e < now ?s then 0 else e - now ?s))"
    by (elim exE conjE) (rule that)
  from f(3) [rule_format, of "0xC0A80102"] m k have "lease_map (leases s2) 0xC0A80102 = Some (replicate 16 7, 500)"
    by simp
  with f(1,2) show ?thesis by blast
qed

end
