(* ===== verification/Dhcp_Main.thy ===== *)
theory Dhcp_Main
  imports Dhcp_Files
begin

text \<open>
  The start and the main loop of the DHCP server: \<open>main\<close> of \<open>udhcpd-0.9.8/dhcpd.c\<close> with \<open>read_interface\<close> and
  \<open>listen_socket\<close> of \<open>socket.c\<close>. The state of the lease server is extended by the files, the time of the next write and
  the state of the socket; one turn of the loop takes the answers of the operating system as its input. A turn
  that reads memory that was never set or leaves an array is \<^term>\<open>None\<close>. Process management (daemon, pid file, the
  socket pair for signals) has no effect on this state and is left out.
\<close>

section \<open>Sockets\<close>

record if_env =
  if_socket_ok :: bool
  if_addr :: "u32 option"
  if_index :: "u32 option"
  if_hwaddr :: "u8 list option"

definition read_interface :: "if_env \<Rightarrow> server_config_t \<Rightarrow> (int \<times> server_config_t) option" where
  "read_interface env cfg =
     (if \<not> if_socket_ok env then Some (-1, cfg)
      else if length (sc_interface cfg) \<ge> 16 then None
      else case if_addr env of
        None \<Rightarrow> Some (-1, cfg)
      | Some a \<Rightarrow>
          let cfg1 = cfg\<lparr>sc_server := a\<rparr> in
          (case if_index env of
             None \<Rightarrow> Some (-1, cfg1)
           | Some k \<Rightarrow>
               let cfg2 = cfg1\<lparr>sc_ifindex := k\<rparr> in
               (case if_hwaddr env of
                  None \<Rightarrow> Some (-1, cfg2)
                | Some h \<Rightarrow> Some (0, cfg2\<lparr>sc_arp := take 6 h\<rparr>))))"

record listen_env =
  le_socket_ok :: bool
  le_reuse_ok :: bool
  le_broadcast_ok :: bool
  le_device_ok :: bool
  le_bind_ok :: bool

definition listen_socket :: "listen_env \<Rightarrow> bool" where
  "listen_socket env =
     (if \<not> le_socket_ok env then False
      else if \<not> le_reuse_ok env then False
      else if \<not> le_broadcast_ok env then False
      else if \<not> le_device_ok env then False
      else le_bind_ok env)"

section \<open>State\<close>

record udhcpd =
  ud :: dhcpd
  timeout_end :: u32
  server_socket :: bool
  config_path :: "string option"
  ud_files :: "string \<Rightarrow> u8 list option"
  ud_writable :: "string \<Rightarrow> bool"
  ud_resolve :: "string \<Rightarrow> u32 option"

datatype server_run = Loop udhcpd | Exited int udhcpd

definition file_text :: "u8 list \<Rightarrow> string" where "file_text bs = map (\<lambda>b. char_of (unat b)) bs"

definition set_config :: "server_config_t \<Rightarrow> udhcpd \<Rightarrow> udhcpd" where
  "set_config cfg u = u\<lparr>ud := (ud u)\<lparr>server_config := cfg\<rparr>\<rparr>"

definition LEASE_TIME :: u32 where "LEASE_TIME = 60 * 60 * 24 * 1"
definition DHCPD_CONF_FILE :: string where "DHCPD_CONF_FILE = ''/tmp/dhcpd.conf''"
definition lease_no_file :: string where "lease_no_file = ''/tmp/udhcpd.lease.no''"

section \<open>Steps shared by the start and the loop\<close>

definition load_config :: "string \<Rightarrow> udhcpd \<Rightarrow> udhcpd" where
  "load_config path u =
     set_config (snd (read_config (ud_resolve u) (map_option file_text (ud_files u path)) (server_config (ud u)))) u"

definition set_lease_time :: "udhcpd \<Rightarrow> udhcpd option" where
  "set_lease_time u =
     (let cfg = server_config (ud u) in
      case find_option (sc_options cfg) DHCP_LEASE_TIME of
        Some k \<Rightarrow> map_option (\<lambda>t. set_config (cfg\<lparr>sc_lease := t\<rparr>) u) (rd32 (sc_options cfg ! k) 2)
      | None \<Rightarrow> Some (set_config (cfg\<lparr>sc_lease := LEASE_TIME\<rparr>) u))"

definition load_leases :: "udhcpd \<Rightarrow> udhcpd option" where
  "load_leases u =
     map_option (\<lambda>s. u\<lparr>ud := s\<rparr>) (read_leases (ud_files u (sc_lease_file (server_config (ud u)))) (ud u))"

definition save_leases :: "udhcpd \<Rightarrow> udhcpd option" where
  "save_leases u =
     (let file = sc_lease_file (server_config (ud u)) in
      do { (out, s) \<leftarrow> write_leases (ud_writable u file) (map_option file_text (ud_files u lease_no_file)) (ud u);
           Some (case out of
                   None \<Rightarrow> u\<lparr>ud := s\<rparr>
                 | Some bytes \<Rightarrow> u\<lparr>ud := s, ud_files := (ud_files u)(file \<mapsto> bytes)\<rparr>) })"

definition reset_timeout :: "udhcpd \<Rightarrow> udhcpd" where
  "reset_timeout u =
     (let (t, s) = sys_time (ud u) in u\<lparr>ud := s, timeout_end := t + sc_auto_time (server_config s)\<rparr>)"

section \<open>Start\<close>

text \<open>The domain name is copied into a buffer of 255 bytes (which is not used afterwards).\<close>

definition copy_domain :: "udhcpd \<Rightarrow> udhcpd option" where
  "copy_domain u =
     (let d = nvram_safe_get ''wan_domain'' (ud u); e = nvram_safe_get ''wan_domain_default'' (ud u) in
      if length d \<ge> 255 \<or> d = [] \<and> length e \<ge> 255 then None else Some u)"

text \<open>Without an argument \<open>config_path\<close> is never set.\<close>

definition start_server :: "string option \<Rightarrow> if_env \<Rightarrow> udhcpd \<Rightarrow> server_run option" where
  "start_server argv1 env u =
     do { u1 \<leftarrow> (case argv1 of
                 None \<Rightarrow> Some (load_config DHCPD_CONF_FILE (u\<lparr>config_path := None\<rparr>))
               | Some p \<Rightarrow> if length p \<ge> 256 then None else Some (load_config p (u\<lparr>config_path := Some p\<rparr>)));
          u2 \<leftarrow> set_lease_time u1;
          let u3 = u2\<lparr>ud := (ud u2)\<lparr>leases := replicate (max_leases (ud u2)) blank_lease\<rparr>\<rparr>;
          u4 \<leftarrow> load_leases u3;
          (r, cfg) \<leftarrow> read_interface env (server_config (ud u4));
          let u5 = set_config cfg u4;
          if r < 0 then Some (Exited 1 u5)
          else do { u6 \<leftarrow> copy_domain (reset_timeout u5); Some (Loop (u6\<lparr>server_socket := False\<rparr>)) } }"

section \<open>One turn of the loop\<close>

datatype signal = SIGUSR1 | SIGUSR2 | SIGTERM | SIG_other

text \<open>The answer of \<open>select\<close>: nothing happened in time, an error, an interruption by a signal (the set of descriptors is
  then as it was before the call), or descriptors that can be read, with the signal pipe among them or not.\<close>

datatype wake = Wake_timeout | Wake_error | Wake_eintr | Wake_ready bool

record turn_env =
  te_listen :: listen_env
  te_wake :: wake
  te_sig :: "signal option"
  te_datagram :: "u8 list option"
  te_read_eintr :: bool
  te_if :: if_env

definition timed_out :: "udhcpd \<Rightarrow> bool \<times> udhcpd" where
  "timed_out u =
     (if sc_auto_time (server_config (ud u)) \<noteq> 0
      then let (t, s) = sys_time (ud u) in (sint (timeout_end u - t) \<le> 0, u\<lparr>ud := s\<rparr>)
      else (False, u))"

definition save_and_wait :: "udhcpd \<Rightarrow> udhcpd option" where
  "save_and_wait u = map_option reset_timeout (save_leases u)"

definition clear_table :: "udhcpd \<Rightarrow> udhcpd option" where
  "clear_table u =
     (let n = max_leases (ud u) in
      if n > length (leases (ud u)) then None
      else Some (u\<lparr>ud := (ud u)\<lparr>leases := replicate n blank_lease @ drop n (leases (ud u))\<rparr>\<rparr>))"

text \<open>Reading the configuration again. The mask is not set when the setting is not an address.\<close>

definition reload :: "if_env \<Rightarrow> udhcpd \<Rightarrow> server_run option" where
  "reload env u =
     do { path \<leftarrow> config_path u;
          let u1 = set_config ((server_config (ud u))\<lparr>sc_options := snd (free_options (sc_options (server_config (ud u))))\<rparr>) u;
          let u2 = reset_timeout (load_config path u1);
          u3 \<leftarrow> set_lease_time u2;
          u4 \<leftarrow> clear_table u3;
          u5 \<leftarrow> load_leases u4;
          (r, cfg) \<leftarrow> read_interface env (server_config (ud u5));
          let u6 = set_config cfg u5;
          if r < 0 then Some (Exited 0 u6)
          else do { mask \<leftarrow> inet_aton (nvram_safe_get ''lan_netmask'' (ud u6));
                    s \<leftarrow> update_lease_by_new_ip mask (ud u6);
                    Some (Loop (u6\<lparr>ud := s\<rparr>)) } }"

definition receive :: "turn_env \<Rightarrow> udhcpd \<Rightarrow> server_run option" where
  "receive env u =
     do { s \<leftarrow> serve_datagram (te_datagram env) (ud u);
          Some (Loop (u\<lparr>ud := s, server_socket := (te_datagram env \<noteq> None \<or> te_read_eintr env)\<rparr>)) }"

definition handle_signal :: "turn_env \<Rightarrow> udhcpd \<Rightarrow> server_run option" where
  "handle_signal env u =
     (case te_sig env of
        None \<Rightarrow> Some (Loop u)
      | Some SIGUSR1 \<Rightarrow> map_option Loop (save_and_wait u)
      | Some SIGUSR2 \<Rightarrow> reload (te_if env) u
      | Some SIGTERM \<Rightarrow> map_option (Exited 0) (save_leases u)
      | Some SIG_other \<Rightarrow> receive env u)"

definition main_turn :: "turn_env \<Rightarrow> udhcpd \<Rightarrow> server_run option" where
  "main_turn env u =
     (if \<not> server_socket u \<and> \<not> listen_socket (te_listen env) then Some (Exited 0 u)
      else let (late, u1) = timed_out (u\<lparr>server_socket := True\<rparr>) in
        if late then map_option Loop (save_and_wait u1)
        else case te_wake env of
          Wake_timeout \<Rightarrow> map_option Loop (save_and_wait u1)
        | Wake_error \<Rightarrow> Some (Loop u1)
        | Wake_eintr \<Rightarrow> handle_signal env u1
        | Wake_ready sig \<Rightarrow> if sig then handle_signal env u1 else receive env u1)"

fun main_step :: "turn_env \<Rightarrow> server_run \<Rightarrow> server_run option" where
  "main_step env (Loop u) = main_turn env u"
| "main_step env (Exited c u) = Some (Exited c u)"

section \<open>The invariant of the loop\<close>

definition notify_ok :: "server_config_t \<Rightarrow> bool" where
  "notify_ok cfg \<longleftrightarrow> (\<forall>f. sc_notify_file cfg = Some f \<longrightarrow> length f + length (sc_lease_file cfg) < 254)"

definition main_ok :: "udhcpd \<Rightarrow> bool" where
  "main_ok u \<longleftrightarrow> dhcpd_ok (ud u) \<and> config_ok (ud u) \<and> notify_ok (server_config (ud u))"

fun run_ok :: "server_run \<Rightarrow> bool" where
  "run_ok (Loop u) = main_ok u"
| "run_ok (Exited c u) = main_ok u"

lemma main_ok_conf:
  "main_ok u \<Longrightarrow> same_conf (ud u) (ud u') \<Longrightarrow> dhcpd_ok (ud u') \<Longrightarrow> main_ok u'"
  by (simp add: main_ok_def config_ok_conf) (simp add: same_conf_def)

lemma sys_time_frame: "sys_time s = (t, s') \<Longrightarrow> same_conf s s' \<and> (dhcpd_ok s \<longrightarrow> dhcpd_ok s')"
  by (auto simp: sys_time_def same_conf_def dhcpd_ok_def max_leases_def)

lemma main_ok_reset_timeout: "main_ok u \<Longrightarrow> main_ok (reset_timeout u)"
proof -
  assume u: "main_ok u"
  obtain t s where "sys_time (ud u) = (t, s)" by fastforce
  with sys_time_frame [OF this] u show ?thesis
    by (intro main_ok_conf [OF u]) (simp_all add: reset_timeout_def main_ok_def)
qed

lemma main_ok_timed_out: "main_ok u \<Longrightarrow> main_ok (snd (timed_out u))"
proof -
  assume u: "main_ok u"
  obtain t s where "sys_time (ud u) = (t, s)" by fastforce
  with sys_time_frame [OF this] u show ?thesis
    by (intro main_ok_conf [OF u]) (simp_all add: timed_out_def main_ok_def)
qed

lemma write_leases_returns:
  assumes "dhcpd_ok s" "notify_ok (server_config s)"
  obtains out s' where "write_leases b fp_no s = Some (out, s')" "same_conf s s'" "dhcpd_ok s'"
proof -
  let ?u = "s\<lparr>n_uptime := Suc (n_uptime s)\<rparr>"
  have u: "dhcpd_ok ?u" "same_conf s ?u" "max_leases ?u = length (leases ?u)"
    using assms(1) by (auto simp: dhcpd_ok_def same_conf_def max_leases_def)
  have c: "dhcpd_ok (system_cmd x ?u)" "same_conf s (system_cmd x ?u)" for x
    using u by (auto simp: dhcpd_ok_def same_conf_def system_cmd_def max_leases_def)
  have "\<exists>out s'. write_leases b fp_no s = Some (out, s') \<and> same_conf s s' \<and> dhcpd_ok s'"
    using u c assms(2) by (auto simp: write_leases_def sys_time_def Let_def notify_ok_def split: option.split)
  then show ?thesis using that by blast
qed

lemma save_leases_ok:
  assumes "main_ok u"
  obtains u' where "save_leases u = Some u'" "main_ok u'"
proof -
  obtain out s where s: "write_leases (ud_writable u (sc_lease_file (server_config (ud u))))
      (map_option file_text (ud_files u lease_no_file)) (ud u) = Some (out, s)" "same_conf (ud u) s" "dhcpd_ok s"
    by (rule write_leases_returns [of "ud u"]) (use assms in \<open>auto simp: main_ok_def\<close>)
  have "main_ok u'" if "ud u' = s" for u' by (rule main_ok_conf [OF assms]) (use s that in simp_all)
  then show ?thesis using that s(1) by (cases out) (auto simp: save_leases_def Let_def)
qed

lemma save_and_wait_ok: "main_ok u \<Longrightarrow> \<exists>u'. save_and_wait u = Some u' \<and> main_ok u'"
  by (rule save_leases_ok [of u]) (auto simp: save_and_wait_def intro: main_ok_reset_timeout)

lemma receive_ok:
  assumes "main_ok u" "datagram_ok (te_datagram env)"
  shows "\<exists>u'. receive env u = Some (Loop u') \<and> main_ok u'"
proof -
  obtain s where s: "serve_datagram (te_datagram env) (ud u) = Some s" "dhcpd_ok s" "same_conf (ud u) s"
    using served_datagram [of "ud u" "te_datagram env"] assms by (auto simp: main_ok_def served_def)
  have "main_ok u'" if "ud u' = s" for u' by (rule main_ok_conf [OF assms(1)]) (use s that in simp_all)
  then show ?thesis using s(1) by (simp add: receive_def)
qed

text \<open>A turn in which a well-formed datagram (or none) can arrive and that does not ask for the configuration to be
  read again.\<close>

definition turn_ok :: "turn_env \<Rightarrow> bool" where
  "turn_ok env \<longleftrightarrow> datagram_ok (te_datagram env) \<and> te_sig env \<noteq> Some SIGUSR2"

lemma handle_signal_ok:
  assumes "main_ok u" "turn_ok env"
  shows "\<exists>r. handle_signal env u = Some r \<and> run_ok r"
proof (cases "te_sig env")
  case None
  then show ?thesis using assms by (simp add: handle_signal_def)
next
  case (Some sig)
  have d: "datagram_ok (te_datagram env)" using assms(2) by (simp add: turn_ok_def)
  obtain u1 where u1: "save_and_wait u = Some u1" "main_ok u1" using save_and_wait_ok [OF assms(1)] by blast
  obtain u2 where u2: "receive env u = Some (Loop u2)" "main_ok u2" using receive_ok [OF assms(1) d] by blast
  obtain u3 where u3: "save_leases u = Some u3" "main_ok u3" by (rule save_leases_ok [OF assms(1)])
  show ?thesis
    using Some u1 u2 u3 assms(2) by (cases sig) (simp_all add: handle_signal_def turn_ok_def)
qed

lemma main_turn_ok:
  assumes u: "main_ok u" and env: "turn_ok env"
  shows "\<exists>r. main_turn env u = Some r \<and> run_ok r"
proof (cases "\<not> server_socket u \<and> \<not> listen_socket (te_listen env)")
  case True
  then show ?thesis using u by (simp add: main_turn_def)
next
  case False
  obtain late u1 where t: "timed_out (u\<lparr>server_socket := True\<rparr>) = (late, u1)" by fastforce
  have u0: "main_ok (u\<lparr>server_socket := True\<rparr>)" using u by (simp add: main_ok_def)
  have u1: "main_ok u1" using main_ok_timed_out [OF u0] t by simp
  have d: "datagram_ok (te_datagram env)" using env by (simp add: turn_ok_def)
  obtain u2 where w: "save_and_wait u1 = Some u2" "main_ok u2" using save_and_wait_ok [OF u1] by blast
  obtain u3 where r: "receive env u1 = Some (Loop u3)" "main_ok u3" using receive_ok [OF u1 d] by blast
  have h: "\<exists>r. handle_signal env u1 = Some r \<and> run_ok r" by (rule handle_signal_ok [OF u1 env])
  have eq: "main_turn env u = (if late then map_option Loop (save_and_wait u1)
        else case te_wake env of
          Wake_timeout \<Rightarrow> map_option Loop (save_and_wait u1)
        | Wake_error \<Rightarrow> Some (Loop u1)
        | Wake_eintr \<Rightarrow> handle_signal env u1
        | Wake_ready sig \<Rightarrow> if sig then handle_signal env u1 else receive env u1)"
    using False t by (auto simp: main_turn_def)
  show ?thesis
    using u1 w r h unfolding eq by (cases "te_wake env") (auto split: if_split)
qed

interpretation udhcpd_main: total_component main_step turn_ok run_ok
proof
  show "\<exists>r. main_step env s = Some r" if "run_ok s" "turn_ok env" for s env
    using that main_turn_ok by (cases s) auto
  show "run_ok r" if "run_ok s" "turn_ok env" "main_step env s = Some r" for s env r
    using that main_turn_ok by (cases s) fastforce+
qed

section \<open>The start\<close>

text \<open>Loading a file of any content ends and keeps the table consistent.\<close>

lemma read_leases_loop_ok:
  "dhcpd_ok s \<Longrightarrow> \<exists>s'. read_leases_loop i fp s = Some s' \<and> dhcpd_ok s' \<and> same_conf s s'"
proof (induction i fp s rule: read_leases_loop.induct)
  case (1 i fp s)
  show ?case
  proof (cases "i < max_leases s \<and> 88 \<le> length fp")
    case True
    let ?r = "take 88 fp"
    obtain e s1 where e: "(if sc_remaining (server_config s) then (rec_expires ?r, s)
        else let (t, s') = sys_time s in (rec_expires ?r - t, s')) = (e, s1)" by fastforce
    have s1: "dhcpd_ok s1" "same_conf s s1"
      using e "1.prems"
      by (auto simp: sys_time_def dhcpd_ok_def same_conf_def max_leases_def split: if_splits)
    have c: "length (rec_chaddr ?r) = 16" using True by (simp add: rec_chaddr_def length_sub_buf)
    obtain r s2 where s2: "add_lease (rec_chaddr ?r) (rec_yiaddr ?r) e s1 = Some (r, s2)" "dhcpd_ok s2" "same_env s1 s2"
      "case r of None \<Rightarrow> True | Some k \<Rightarrow> k < length (leases s2)"
      by (rule add_lease_ok [OF s1(1) c, of "rec_yiaddr ?r" e]) (auto split: option.splits)
    have c2: "same_conf s s2" using same_conf_trans [OF s1(2) same_env_conf [OF s2(3)]] .
    show ?thesis
    proof (cases r)
      case None
      then show ?thesis
        using True e s2 c2 by (subst read_leases_loop.simps) (simp add: Let_def)
    next
      case (Some k)
      let ?s3 = "put_hostname k (rec_hostname ?r) s2"
      have s3: "dhcpd_ok ?s3" "same_conf s ?s3"
        using dhcpd_ok_put_hostname [of s2 k] s2(2,4) c2 Some by (auto simp: put_hostname_def same_conf_def)
      have "read_leases_loop i fp s = read_leases_loop (Suc i) (drop 88 fp) ?s3"
        using True e s2(1) Some by (subst read_leases_loop.simps) (simp add: Let_def)
      moreover have "\<exists>s'. read_leases_loop (Suc i) (drop 88 fp) ?s3 = Some s' \<and> dhcpd_ok s' \<and> same_conf ?s3 s'"
        using "1.IH" [OF True refl e [symmetric] refl] s2(1) Some s3(1) by auto
      ultimately show ?thesis using same_conf_trans [OF s3(2)] by auto
    qed
  next
    case False
    then show ?thesis using "1.prems" by (subst read_leases_loop.simps) auto
  qed
qed

lemma load_leases_ok:
  assumes "dhcpd_ok (ud u)"
  obtains s where "load_leases u = Some (u\<lparr>ud := s\<rparr>)" "dhcpd_ok s" "same_conf (ud u) s"
proof (cases "ud_files u (sc_lease_file (server_config (ud u)))")
  case None
  then show ?thesis using that [of "ud u"] assms by (simp add: load_leases_def read_leases_def)
next
  case (Some fp)
  obtain s where "read_leases_loop 0 fp (ud u) = Some s" "dhcpd_ok s" "same_conf (ud u) s"
    using read_leases_loop_ok [OF assms] by blast
  then show ?thesis using that [of s] Some by (simp add: load_leases_def read_leases_def)
qed

lemma set_lease_time_returns:
  assumes "conf_opts_ok (sc_options (server_config (ud u)))"
  obtains t where "set_lease_time u = Some (set_config ((server_config (ud u))\<lparr>sc_lease := t\<rparr>) u)"
proof (cases "find_option (sc_options (server_config (ud u))) DHCP_LEASE_TIME")
  case None
  then show ?thesis using that by (simp add: set_lease_time_def Let_def)
next
  case (Some k)
  have "DHCP_LEASE_TIME < 128" by (simp add: dhcp_codes)
  note k = find_option_Some [OF Some this]
  then have "length (sc_options (server_config (ud u)) ! k) = 6" using assms by (auto simp: conf_opts_ok_def)
  then show ?thesis using that Some by (simp add: set_lease_time_def Let_def rd32_def)
qed

lemma read_interface_returns:
  assumes "length (sc_interface cfg) < 14"
  obtains r a k h where "read_interface env cfg = Some (r, cfg\<lparr>sc_server := a, sc_ifindex := k, sc_arp := h\<rparr>)"
proof -
  have c: "cfg = cfg\<lparr>sc_server := sc_server cfg, sc_ifindex := sc_ifindex cfg, sc_arp := sc_arp cfg\<rparr>"
    "cfg\<lparr>sc_server := a\<rparr> = cfg\<lparr>sc_server := a, sc_ifindex := sc_ifindex cfg, sc_arp := sc_arp cfg\<rparr>"
    "cfg\<lparr>sc_server := a, sc_ifindex := k\<rparr> = cfg\<lparr>sc_server := a, sc_ifindex := k, sc_arp := sc_arp cfg\<rparr>" for a k
    by simp_all
  have "\<exists>r a k h. read_interface env cfg = Some (r, cfg\<lparr>sc_server := a, sc_ifindex := k, sc_arp := h\<rparr>)"
  proof (cases "if_socket_ok env")
    case False
    then have "read_interface env cfg = Some (-1, cfg)" by (simp add: read_interface_def)
    then show ?thesis using c(1) by metis
  next
    case True
    then have "read_interface env cfg = Some (-1, cfg) \<or> (\<exists>a. read_interface env cfg = Some (-1, cfg\<lparr>sc_server := a\<rparr>)) \<or>
      (\<exists>a k. read_interface env cfg = Some (-1, cfg\<lparr>sc_server := a, sc_ifindex := k\<rparr>)) \<or>
      (\<exists>a k h. read_interface env cfg = Some (0, cfg\<lparr>sc_server := a, sc_ifindex := k, sc_arp := h\<rparr>))"
      using assms by (auto simp: read_interface_def Let_def split: option.split)
    then show ?thesis using c by metis
  qed
  then show ?thesis using that by blast
qed

definition config_file :: "string option \<Rightarrow> string" where
  "config_file argv1 = (case argv1 of None \<Rightarrow> DHCPD_CONF_FILE | Some p \<Rightarrow> p)"

text \<open>What the start needs of the configuration and the surroundings.\<close>

definition startable :: "string option \<Rightarrow> udhcpd \<Rightarrow> bool" where
  "startable argv1 u \<longleftrightarrow>
     (let cfg = snd (read_config (ud_resolve u) (map_option file_text (ud_files u (config_file argv1))) (server_config (ud u)))
      in length (sc_interface cfg) < 14 \<and> sc_end cfg < - 1 \<and> notify_ok cfg)
     \<and> conf_opts_ok (sc_options (server_config (ud u))) \<and> length (config_file argv1) < 256
     \<and> length (nvram_safe_get ''wan_domain'' (ud u)) < 255 \<and> length (nvram_safe_get ''wan_domain_default'' (ud u)) < 255
     \<and> (\<forall>k. arp_ends (os_arp (ud u) k)) \<and> os_logfile_ok (ud u)"

lemma start_server_ok:
  assumes st: "startable argv1 u"
  shows "\<exists>r. start_server argv1 env u = Some r \<and> run_ok r"
proof -
  let ?cfg = "snd (read_config (ud_resolve u) (map_option file_text (ud_files u (config_file argv1))) (server_config (ud u)))"
  have o: "conf_opts_ok (sc_options ?cfg)" using st by (auto simp: startable_def intro: config_lines_ok read_config_ok)
  obtain u1 where u1: "(case argv1 of
                 None \<Rightarrow> Some (load_config DHCPD_CONF_FILE (u\<lparr>config_path := None\<rparr>))
               | Some p \<Rightarrow> if length p \<ge> 256 then None else Some (load_config p (u\<lparr>config_path := Some p\<rparr>))) = Some u1"
    "ud u1 = (ud u)\<lparr>server_config := ?cfg\<rparr>"
    using st by (cases argv1) (auto simp: startable_def config_file_def load_config_def set_config_def)
  obtain t where t: "set_lease_time u1 = Some (set_config ((server_config (ud u1))\<lparr>sc_lease := t\<rparr>) u1)"
    by (rule set_lease_time_returns [of u1]) (use u1 o in auto)
  let ?u2 = "set_config ((server_config (ud u1))\<lparr>sc_lease := t\<rparr>) u1"
  let ?u3 = "?u2\<lparr>ud := (ud ?u2)\<lparr>leases := replicate (max_leases (ud ?u2)) blank_lease\<rparr>\<rparr>"
  have u3: "dhcpd_ok (ud ?u3)" by (simp add: dhcpd_ok_def table_ok_blank max_leases_def)
  obtain s where s: "load_leases ?u3 = Some (?u3\<lparr>ud := s\<rparr>)" "dhcpd_ok s" "same_conf (ud ?u3) s"
    by (rule load_leases_ok [OF u3])
  have cs: "server_config s = ?cfg\<lparr>sc_lease := t\<rparr>" "os_arp s = os_arp (ud u)" "os_logfile_ok s = os_logfile_ok (ud u)"
    "os_nvram s = os_nvram (ud u)"
    using s(3) u1(2) by (simp_all add: same_conf_def set_config_def)
  obtain r a k h where r: "read_interface env (server_config s) =
      Some (r, (server_config s)\<lparr>sc_server := a, sc_ifindex := k, sc_arp := h\<rparr>)"
    by (rule read_interface_returns [of "server_config s" env]) (use cs st in \<open>simp_all add: startable_def Let_def\<close>)
  let ?u5 = "set_config ((server_config s)\<lparr>sc_server := a, sc_ifindex := k, sc_arp := h\<rparr>) (?u3\<lparr>ud := s\<rparr>)"
  have u5: "main_ok ?u5"
    using st o s(2) cs
    by (auto simp: main_ok_def set_config_def dhcpd_ok_def max_leases_def config_ok_def env_ok_def startable_def Let_def
        notify_ok_def conf_opts_ok_def)
  have u6: "main_ok (reset_timeout ?u5)" by (rule main_ok_reset_timeout [OF u5])
  have nv: "nvram_safe_get n (ud (reset_timeout ?u5)) = nvram_safe_get n (ud u)" for n
    using cs(4) by (simp add: nvram_safe_get_def reset_timeout_def set_config_def sys_time_def)
  have d: "copy_domain (reset_timeout ?u5) = Some (reset_timeout ?u5)"
    using st nv by (simp add: copy_domain_def startable_def)
  have "start_server argv1 env u = Some (if r < 0 then Exited 1 ?u5 else Loop ((reset_timeout ?u5)\<lparr>server_socket := False\<rparr>))"
    using u1(1) t s(1) r d by (simp add: start_server_def Let_def)
  then show ?thesis using u5 u6 by (auto simp: main_ok_def)
qed


definition zero_config :: server_config_t where
  "zero_config = \<lparr>sc_server = 0, sc_start = 0, sc_end = 0, sc_options = [], sc_interface = [], sc_ifindex = 0,
     sc_arp = replicate 6 0, sc_lease = 0, sc_max_leases = 0, sc_remaining = False, sc_auto_time = 0, sc_decline_time = 0,
     sc_conflict_time = 0, sc_offer_time = 0, sc_min_lease = 0, sc_lease_file = [], sc_pidfile = [],
     sc_notify_file = None, sc_siaddr = 0, sc_sname = None, sc_boot_file = None\<rparr>"

definition example_start :: udhcpd where
  "example_start = \<lparr>ud = example_server\<lparr>leases := [], server_config := zero_config\<rparr>, timeout_end = 0,
     server_socket = False, config_path = None, ud_files = (\<lambda>_. None), ud_writable = (\<lambda>_. True), ud_resolve = (\<lambda>_. None)\<rparr>"

definition example_turn :: turn_env where
  "example_turn = \<lparr>te_listen = \<lparr>le_socket_ok = True, le_reuse_ok = True, le_broadcast_ok = True, le_device_ok = True,
     le_bind_ok = True\<rparr>, te_wake = Wake_ready True, te_sig = Some SIGUSR1, te_datagram = None, te_read_eintr = False,
     te_if = \<lparr>if_socket_ok = True, if_addr = Some 0xC0A80101, if_index = Some 1, if_hwaddr = Some (replicate 6 1)\<rparr>\<rparr>"

lemma default_config:
  "sc_interface (config_defaults (\<lambda>_. None) zero_config) = ''eth0''"
  "sc_end (config_defaults (\<lambda>_. None) zero_config) = 0xC0A800FE"
  "sc_notify_file (config_defaults (\<lambda>_. None) zero_config) = None"
proof -
  have "inet_ntoa 0xC0A800FE = ''192.168.0.254''"
    by (simp add: inet_ntoa_def bytes32_def dotted_def dec.simps digit_def) code_simp
  then have "read_ip (\<lambda>_. None) ''192.168.0.254'' = Some 0xC0A800FE" using inet_aton_ntoa [of "0xC0A800FE"] by (simp add: read_ip_def)
  then show "sc_interface (config_defaults (\<lambda>_. None) zero_config) = ''eth0''"
    "sc_end (config_defaults (\<lambda>_. None) zero_config) = 0xC0A800FE"
    "sc_notify_file (config_defaults (\<lambda>_. None) zero_config) = None"
    by (simp_all add: config_defaults_def config_keywords_def set_ip_def set_u32_def case_prod_beta Let_def zero_config_def
        split: option.split)
qed


section \<open>Reading the configuration again\<close>

text \<open>With a larger \<open>max_leases\<close> the reload writes behind the table, which is not allocated again.\<close>

theorem reload_leaves_the_table:
  assumes "config_path u = Some p"
    and "length (leases (ud u)) < unat (sc_max_leases (snd (read_config (ud_resolve u) (map_option file_text (ud_files u p))
           ((server_config (ud u))\<lparr>sc_options := []\<rparr>))))"
  shows "reload env u = None"
proof -
  have f: "snd (free_options ds) = []" for ds by (cases ds) auto
  let ?u1 = "set_config ((server_config (ud u))\<lparr>sc_options := []\<rparr>) u"
  let ?u2 = "reset_timeout (load_config p ?u1)"
  have u2: "length (leases (ud ?u2)) < max_leases (ud ?u2)"
    using assms(2) by (simp add: reset_timeout_def load_config_def set_config_def sys_time_def max_leases_def)
  have "clear_table u3 = None" if "set_lease_time ?u2 = Some u3" for u3
    using that u2 by (auto simp: set_lease_time_def Let_def set_config_def clear_table_def max_leases_def split: option.splits)
  then show ?thesis using assms(1) f by (cases "set_lease_time ?u2") (simp_all add: reload_def Let_def)
qed

section \<open>A new network\<close>

lemma new_address_parts:
  fixes y m x :: u32
  shows "((x AND m) OR (y AND NOT m)) AND NOT m = y AND NOT m" "((x AND m) OR (y AND NOT m)) AND m = x AND m"
  by (rule bit_word_eqI; auto simp: bit_simps)+

lemma same_parts: "y AND m = z AND m \<Longrightarrow> y AND NOT m = z AND NOT m \<Longrightarrow> y = (z :: u32)"
proof (rule bit_word_eqI)
  fix n
  assume a: "y AND m = z AND m" "y AND NOT m = z AND NOT m" "n < LENGTH(32)"
  have "bit (y AND m) n = bit (z AND m) n" "bit (y AND NOT m) n = bit (z AND NOT m) n" using a by simp_all
  then show "bit y n = bit z n" using a(3) by (auto simp: bit_simps)
qed

lemma nth_move:
  "i < length ls \<Longrightarrow> map (move_lease a m) ls ! i = move_lease a m (ls ! i)"
  by simp

lemma move_lease_fields:
  "l_chaddr (move_lease a m l) = l_chaddr l" "l_expires (move_lease a m l) = l_expires l"
  "l_hostname (move_lease a m l) = l_hostname l" "lease_ok (move_lease a m l) = lease_ok l"
  "l_yiaddr (move_lease a m l) = (if l_yiaddr l = 0 then 0 else a OR (l_yiaddr l AND NOT m))"
  by (simp_all add: move_lease_def lease_ok_def)

text \<open>C34:
  When the address of the router has changed to another network, \<open>update_lease_by_new_ip\<close> moves every lease into the new
  network and keeps its host part, client and expiry: if all leases were in one network, no two of them fall together,
  and every client is found at the moved address.
\<close>

theorem network_change_keeps_leases:
  assumes ok: "dhcpd_ok s" and net: "\<forall>l \<in> set (leases s). l_yiaddr l \<noteq> 0 \<longrightarrow> l_yiaddr l AND m = old AND m"
    and new: "sc_server (server_config s) AND m \<noteq> 0"
  shows "\<exists>s'. update_lease_by_new_ip m s = Some s' \<and> dhcpd_ok s'
    \<and> (\<forall>l \<in> set (leases s'). l_yiaddr l \<noteq> 0 \<longrightarrow> l_yiaddr l AND m = sc_server (server_config s) AND m)
    \<and> (\<forall>y c e. lease_map (leases s) y = Some (c, e) \<longrightarrow>
         lease_map (leases s') ((sc_server (server_config s) AND m) OR (y AND NOT m)) = Some (c, e))"
proof -
  let ?a = "sc_server (server_config s) AND m"
  let ?ls = "map (move_lease ?a m) (leases s)"
  let ?s = "s\<lparr>leases := ?ls\<rparr>"
  have t: "table_ok (leases s)" and n: "max_leases s = length (leases s)" using ok by (simp_all add: dhcpd_ok_def)
  have pos: "?a OR (y AND NOT m) \<noteq> 0" for y
    using new new_address_parts(2) [of "sc_server (server_config s)" m y] by auto
  have inj: "l_yiaddr (leases s ! i) = l_yiaddr (leases s ! j)"
    if "i < length (leases s)" "j < length (leases s)" "l_yiaddr (leases s ! i) \<noteq> 0"
      "l_yiaddr (?ls ! i) = l_yiaddr (?ls ! j)" for i j
  proof -
    have j0: "l_yiaddr (leases s ! j) \<noteq> 0" using that pos by (auto simp: move_lease_fields split: if_splits)
    then have e: "?a OR (l_yiaddr (leases s ! i) AND NOT m) = ?a OR (l_yiaddr (leases s ! j) AND NOT m)"
      using that by (simp add: move_lease_fields)
    have "l_yiaddr (leases s ! i) AND NOT m = l_yiaddr (leases s ! j) AND NOT m"
      using arg_cong [OF e, of "\<lambda>x. x AND NOT m"] unfolding new_address_parts .
    moreover have "l_yiaddr (leases s ! i) AND m = l_yiaddr (leases s ! j) AND m" using net that j0 by simp
    ultimately show ?thesis using same_parts by blast
  qed
  have t': "table_ok ?ls"
    unfolding table_ok_def
  proof (intro conjI allI impI)
    show "list_all lease_ok ?ls" using t by (simp add: table_ok_def list_all_iff move_lease_fields)
    fix i j
    assume ij: "i < length ?ls" "j < length ?ls" "i \<noteq> j"
    show "l_yiaddr (?ls ! i) \<noteq> l_yiaddr (?ls ! j)" if "l_yiaddr (?ls ! i) \<noteq> 0"
    proof
      assume e: "l_yiaddr (?ls ! i) = l_yiaddr (?ls ! j)"
      have i0: "l_yiaddr (leases s ! i) \<noteq> 0" using that ij by (auto simp: move_lease_fields)
      with inj [OF _ _ i0 e] table_okD(1) [OF t, of i j] ij show False by simp
    qed
    show "l_chaddr (?ls ! i) \<noteq> l_chaddr (?ls ! j)" if "l_chaddr (?ls ! i) \<noteq> blank_chaddr"
      using that ij table_okD(2) [OF t, of i j] by (auto simp: move_lease_fields)
  qed
  have "update_lease_by_new_ip m s = Some ?s" using n by (simp add: update_lease_by_new_ip_def Let_def)
  moreover have "dhcpd_ok ?s" using t' n by (simp add: dhcpd_ok_def)
  moreover have "\<forall>l \<in> set (leases ?s). l_yiaddr l \<noteq> 0 \<longrightarrow> l_yiaddr l AND m = ?a"
    by (auto simp: move_lease_fields new_address_parts)
  moreover have "lease_map (leases ?s) (?a OR (y AND NOT m)) = Some (c, e)" if c: "lease_map (leases s) y = Some (c, e)" for y c e
  proof -
    obtain i where i: "i < length (leases s)" "l_yiaddr (leases s ! i) = y" "l_chaddr (leases s ! i) = c"
      "l_expires (leases s ! i) = e" "y \<noteq> 0" using lease_map_SomeD [OF c] by blast
    then show ?thesis
      using lease_map_nth [OF t', of i "?a OR (y AND NOT m)"] pos [of y] by (simp add: move_lease_fields)
  qed
  ultimately show ?thesis by blast
qed

theorem network_change_keeps_leases_witness:
  "\<exists>s'. update_lease_by_new_ip 0xFFFFFF00 (example_server\<lparr>leases := [blank_lease\<lparr>l_chaddr := replicate 16 7,
       l_yiaddr := 0xC0A80002, l_expires := 500\<rparr>, blank_lease, blank_lease]\<rparr>) = Some s'
    \<and> lease_map (leases s') 0xC0A80102 = Some (replicate 16 7, 500)"
proof -
  let ?l = "blank_lease\<lparr>l_chaddr := replicate 16 7, l_yiaddr := 0xC0A80002, l_expires := 500\<rparr>"
  let ?s = "example_server\<lparr>leases := [?l, blank_lease, blank_lease]\<rparr>"
  have "[?l, blank_lease, blank_lease] = (replicate 3 blank_lease)[0 := ?l]" by (simp add: numeral_eq_Suc)
  moreover have "table_ok ((replicate 3 blank_lease)[0 := ?l])"
    by (rule table_ok_put [OF table_ok_blank]) (auto simp: lease_ok_def blank_lease_def blank_chaddr_def)
  ultimately have ok: "dhcpd_ok ?s"
    using example_ok by (simp add: dhcpd_ok_def example_server_def max_leases_def)
  have n: "\<forall>l \<in> set (leases ?s). l_yiaddr l \<noteq> 0 \<longrightarrow> l_yiaddr l AND 0xFFFFFF00 = 0xC0A80000 AND 0xFFFFFF00"
    "sc_server (server_config ?s) AND 0xFFFFFF00 \<noteq> 0"
    by (simp_all add: example_server_def example_config_def)
  have m: "lease_map (leases ?s) 0xC0A80002 = Some (replicate 16 7, 500)" by (simp add: lease_map_def)
  have a: "(sc_server (server_config ?s) AND 0xFFFFFF00) OR (0xC0A80002 AND NOT 0xFFFFFF00) = 0xC0A80102"
    by (simp add: example_server_def example_config_def)
  from network_change_keeps_leases [OF ok n] obtain s' where s': "update_lease_by_new_ip 0xFFFFFF00 ?s = Some s'"
    "\<forall>y c e. lease_map (leases ?s) y = Some (c, e) \<longrightarrow>
       lease_map (leases s') ((sc_server (server_config ?s) AND 0xFFFFFF00) OR (y AND NOT 0xFFFFFF00)) = Some (c, e)"
    by (elim exE conjE) (rule that)
  show ?thesis using s' (1) s'(2) [rule_format, OF m] a by simp
qed

end
