(* ===== verification/Dhcpc_Packet.thy ===== *)
theory Dhcpc_Packet
  imports Dhcp_Server_Props
begin

text \<open>
  The messages of the DHCP client: \<open>udhcpc-0.9.8/clientpacket.c\<close>. Its \<open>packet.c\<close> is the one of the server; its
  \<open>options.c\<close> differs in \<open>get_option\<close>, which has no test for the vendor. \<open>get_raw_packet\<close> is the inverse of \<open>raw_packet\<close>:
  the message of a packet that was built by \<open>raw_packet\<close> is read back. It does not test the length of the packet against
  its own headers.
\<close>

section \<open>Reading options\<close>

function c_get_option_loop :: "dhcpMessage \<Rightarrow> u8 \<Rightarrow> opt_field \<Rightarrow> nat \<Rightarrow> u8 \<Rightarrow> nat option option" where
  "c_get_option_loop p code cur i over =
     (let b = field_base cur; len = field_length cur in
      if i \<ge> len then Some None
      else case rd8 p (b + i) of
        None \<Rightarrow> None
      | Some c \<Rightarrow>
          if c = code then
            do { l \<leftarrow> rd8 p (b + i + 1); Some (if i + 1 + unat l \<ge> len then None else Some (b + i + 2)) }
          else if c = DHCP_PADDING then c_get_option_loop p code cur (i + 1) over
          else if c = DHCP_OPTION_OVER then
            (case rd8 p (b + i + 1) of
               None \<Rightarrow> None
             | Some l \<Rightarrow>
                if i + 1 + unat l \<ge> len then Some None
                else (case (rd8 p (b + i + 3), rd8 p (b + 1)) of
                        (Some over', Some l1) \<Rightarrow> c_get_option_loop p code cur (i + unat l1 + 2) over'
                      | _ \<Rightarrow> None))
          else if c = DHCP_END then
            if cur = OPTION_FIELD \<and> over AND 1 \<noteq> 0 then c_get_option_loop p code FILE_FIELD 0 over
            else if cur = FILE_FIELD \<and> over AND 2 \<noteq> 0 then c_get_option_loop p code SNAME_FIELD 0 over
            else Some None
          else
            (case rd8 p (b + i + 1) of
               None \<Rightarrow> None
             | Some l \<Rightarrow> c_get_option_loop p code cur (i + unat l + 2) over))"
  by pat_completeness auto
termination
  by (relation "measure (\<lambda>(p, code, cur, i, over). field_rank cur + (field_length cur - i))") auto

declare c_get_option_loop.simps [simp del]

definition c_get_option :: "dhcpMessage \<Rightarrow> u8 \<Rightarrow> nat option option" where
  "c_get_option packet code = c_get_option_loop packet code OPTION_FIELD 0 0"

definition c_get_packet :: "u8 list option \<Rightarrow> (int \<times> dhcpMessage) option" where
  "c_get_packet r =
     (case r of
        None \<Rightarrow> Some (-1, replicate sizeof_dhcpMessage 0)
      | Some d \<Rightarrow>
          let n = min (length d) sizeof_dhcpMessage;
              p = take n d @ replicate (sizeof_dhcpMessage - n) 0 in
          if msg_cookie p \<noteq> DHCP_MAGIC then Some (-2, p)
          else if msg_op p = BOOTREQUEST then
            do { v \<leftarrow> c_get_option p DHCP_VENDOR;
                 Some (int n,
                   (case v of
                      Some k \<Rightarrow>
                        if unat (p ! (k - 1)) = length MSFT_98 \<and> sub_buf p k (unat (p ! (k - 1))) = MSFT_98
                        then buf_write p 10 (bytes16 (msg_flags p OR BROADCAST_FLAG)) else p
                    | None \<Rightarrow> p)) }
          else Some (int n, p))"

section \<open>The configuration of the client\<close>

record client_config_t =
  cc_foreground :: bool
  cc_quit_after_lease :: bool
  cc_abort_if_no_lease :: bool
  cc_background_if_no_lease :: bool
  cc_interface :: string
  cc_script :: "string option"
  cc_clientid :: "u8 list"
  cc_hostname :: "u8 list option"
  cc_ifindex :: u32
  cc_arp :: "u8 list"

section \<open>Making messages\<close>

text \<open>The vendor option with the text \<open>udhcp 0.9.8\<close>.\<close>

definition vendor_id :: "u8 list" where
  "vendor_id = DHCP_VENDOR # 11 # text_bytes ''udhcp 0.9.8''"

definition c_add :: "u8 list \<Rightarrow> u8 list \<Rightarrow> u8 list option" where
  "c_add opts str = map_option snd (add_option_string opts (Some str))"

definition c_init_packet :: "client_config_t \<Rightarrow> u8 \<Rightarrow> dhcpMessage option" where
  "c_init_packet cfg type =
     do { p \<leftarrow> init_header type;
          let p1 = buf_write p 28 (take 6 (cc_arp cfg));
          o1 \<leftarrow> c_add (msg_options p1) (cc_clientid cfg);
          o2 \<leftarrow> (case cc_hostname cfg of None \<Rightarrow> Some o1 | Some h \<Rightarrow> c_add o1 h);
          o3 \<leftarrow> c_add o2 vendor_id;
          Some (set_options p1 o3) }"

definition DHCP_PARAM_REQ :: u8 where "DHCP_PARAM_REQ = 0x37"

definition requested_codes :: "u8 list" where
  "requested_codes = map opt_code (filter flag_req options)"

text \<open>The list of parameters is written without a test whether it fits.\<close>

definition add_requests :: "dhcpMessage \<Rightarrow> dhcpMessage option" where
  "add_requests p =
     do { e \<leftarrow> end_option (msg_options p);
          let new = DHCP_PARAM_REQ # word_of_nat (length requested_codes) # requested_codes @ [DHCP_END];
          if e + length new > 308 then None
          else Some (set_options p (buf_write (msg_options p) e new)) }"

definition set_xid :: "dhcpMessage \<Rightarrow> u32 \<Rightarrow> dhcpMessage" where
  "set_xid p xid = buf_write p 4 (bytes32 xid)"

definition set_ciaddr :: "dhcpMessage \<Rightarrow> u32 \<Rightarrow> dhcpMessage" where
  "set_ciaddr p a = buf_write p 12 (bytes32 a)"

definition discover_message :: "client_config_t \<Rightarrow> u32 \<Rightarrow> u32 \<Rightarrow> dhcpMessage option" where
  "discover_message cfg xid requested =
     do { p \<leftarrow> c_init_packet cfg DHCPDISCOVER;
          let p1 = set_xid p xid;
          p2 \<leftarrow> (if requested \<noteq> 0 then add_simple p1 DHCP_REQUESTED_IP requested else Some p1);
          add_requests p2 }"

definition selecting_message :: "client_config_t \<Rightarrow> u32 \<Rightarrow> u32 \<Rightarrow> u32 \<Rightarrow> dhcpMessage option" where
  "selecting_message cfg xid server requested =
     do { p \<leftarrow> c_init_packet cfg DHCPREQUEST;
          p1 \<leftarrow> add_simple (set_xid p xid) DHCP_REQUESTED_IP requested;
          p2 \<leftarrow> add_simple p1 DHCP_SERVER_ID server;
          add_requests p2 }"

definition renew_message :: "client_config_t \<Rightarrow> u32 \<Rightarrow> u32 \<Rightarrow> dhcpMessage option" where
  "renew_message cfg xid ciaddr =
     do { p \<leftarrow> c_init_packet cfg DHCPREQUEST; add_requests (set_ciaddr (set_xid p xid) ciaddr) }"

definition release_message :: "client_config_t \<Rightarrow> u32 \<Rightarrow> u32 \<Rightarrow> u32 \<Rightarrow> dhcpMessage option" where
  "release_message cfg xid server ciaddr =
     do { p \<leftarrow> c_init_packet cfg DHCPRELEASE;
          p1 \<leftarrow> add_simple (set_ciaddr (set_xid p xid) ciaddr) DHCP_REQUESTED_IP ciaddr;
          add_simple p1 DHCP_SERVER_ID server }"

section \<open>Sending\<close>

definition broadcast :: "client_config_t \<Rightarrow> send_env \<Rightarrow> dhcpMessage \<Rightarrow> dhcp_out list" where
  "broadcast cfg env p =
     snd (raw_packet env p 0 CLIENT_PORT INADDR_BROADCAST SERVER_PORT MAC_BCAST_ADDR (cc_ifindex cfg))"

definition send_discover :: "client_config_t \<Rightarrow> send_env \<Rightarrow> u32 \<Rightarrow> u32 \<Rightarrow> dhcp_out list option" where
  "send_discover cfg env xid requested = map_option (broadcast cfg env) (discover_message cfg xid requested)"

definition send_selecting :: "client_config_t \<Rightarrow> send_env \<Rightarrow> u32 \<Rightarrow> u32 \<Rightarrow> u32 \<Rightarrow> dhcp_out list option" where
  "send_selecting cfg env xid server requested =
     map_option (broadcast cfg env) (selecting_message cfg xid server requested)"

definition send_renew :: "client_config_t \<Rightarrow> send_env \<Rightarrow> u32 \<Rightarrow> u32 \<Rightarrow> u32 \<Rightarrow> dhcp_out list option" where
  "send_renew cfg env xid server ciaddr =
     map_option (\<lambda>p. if server \<noteq> 0 then snd (kernel_packet env p ciaddr CLIENT_PORT server SERVER_PORT)
                     else broadcast cfg env p) (renew_message cfg xid ciaddr)"

definition send_release :: "client_config_t \<Rightarrow> send_env \<Rightarrow> u32 \<Rightarrow> u32 \<Rightarrow> u32 \<Rightarrow> dhcp_out list option" where
  "send_release cfg env xid server ciaddr =
     map_option (\<lambda>p. snd (kernel_packet env p ciaddr CLIENT_PORT server SERVER_PORT))
       (release_message cfg xid server ciaddr)"

section \<open>Receiving a raw packet\<close>

definition get16 :: "u8 list \<Rightarrow> nat \<Rightarrow> u16" where
  "get16 b off = mk16 (b ! off) (b ! (off + 1))"

text \<open>\<open>d\<close> is what \<open>read\<close> delivered (\<^term>\<open>None\<close> a failure), \<open>payload\<close> the message variable before the call, of which only
  the bytes received are overwritten. A copy with a length that has become negative is \<^term>\<open>None\<close>.\<close>

definition get_raw_packet :: "u8 list option \<Rightarrow> dhcpMessage \<Rightarrow> (int \<times> dhcpMessage) option" where
  "get_raw_packet d payload =
     (case d of
        None \<Rightarrow> Some (-1, payload)
      | Some r \<Rightarrow>
          let n = min (length r) 576;
              b = take n r @ replicate (576 - n) 0;
              bytes = unat (get16 b 2)
          in if n < 28 then Some (-2, payload)
             else if n < bytes then Some (-2, payload)
             else if b ! 9 \<noteq> IPPROTO_UDP \<or> drop_bit 4 (b ! 0) \<noteq> 4 \<or> b ! 0 AND 0xF \<noteq> 5 \<or> get16 b 22 \<noteq> CLIENT_PORT
               \<or> bytes > 576 \<or> int (unat (get16 b 24)) \<noteq> int bytes - 20 then Some (-2, payload)
             else let b1 = buf_write b 10 [0, 0] in
               if get16 b 10 \<noteq> checksum (take 20 b1) then Some (-1, payload)
               else let src = sub_buf b 12 8;
                        b2 = [0, 0] @ sub_buf b 24 2 @ [0, 0, 0, 0, 0, IPPROTO_UDP, 0, 0] @ src
                             @ sub_buf b 20 6 @ [0, 0] @ drop 28 b
                    in if get16 b 26 \<noteq> 0 \<and> get16 b 26 \<noteq> checksum (take bytes b2) then Some (-2, payload)
                       else if bytes < 28 then None
                       else let payload' = buf_write payload 0 (take (bytes - 28) (drop 28 b)) in
                         if msg_cookie payload' \<noteq> DHCP_MAGIC then Some (-2, payload')
                         else Some (int bytes - 28, payload'))"

section \<open>Options of a message\<close>

text \<open>On a message that the server's \<open>get_option\<close> can read the client's finds the same.\<close>

lemma c_get_option_loop_eq:
  "get_option_loop p code cur i over viz = Some (k, v) \<Longrightarrow> c_get_option_loop p code cur i over = Some k"
proof (induction p code cur i over viz arbitrary: k v rule: get_option_loop.induct)
  case (1 p code cur i over viz)
  let ?b = "field_base cur" and ?len = "field_length cur"
  note loop = "1.prems" [unfolded get_option_loop.simps [of p code cur i over viz] Let_def]
  note IH = "1.IH" [OF refl refl]
  show ?case
  proof (cases "i \<ge> ?len")
    case True
    then show ?thesis using loop by (simp add: c_get_option_loop.simps [of p code cur i over])
  next
    case in_field: False
    obtain c where c: "rd8 p (?b + i) = Some c" using loop in_field by (cases "rd8 p (?b + i)") simp_all
    note loop = loop [unfolded if_not_P [OF in_field] c option.case]
    note unfold = c_get_option_loop.simps [of p code cur i over, unfolded Let_def if_not_P [OF in_field] c option.case]
    note IH = IH [OF in_field c]
    consider (hit) "c = code" | (vendor) "c \<noteq> code" "c = DHCP_VENDOR"
      | (pad) "c \<noteq> code" "c = DHCP_PADDING" | (over) "c \<noteq> code" "c = DHCP_OPTION_OVER"
      | (end_mark) "c \<noteq> code" "c = DHCP_END"
      | (other) "c \<notin> {code, DHCP_VENDOR, DHCP_PADDING, DHCP_OPTION_OVER, DHCP_END}" by blast
    then show ?thesis
    proof cases
      case hit
      then show ?thesis using loop by (cases "rd8 p (?b + i + 1)") (simp_all add: unfold)
    next
      case vendor
      then have d: "c \<noteq> DHCP_PADDING" "c \<noteq> DHCP_OPTION_OVER" "c \<noteq> DHCP_END" by (simp_all add: dhcp_codes)
      show ?thesis using loop IH(1) [OF vendor] vendor d by (simp add: unfold split: option.splits)
    next
      case pad
      then have d: "c \<noteq> DHCP_VENDOR" by (simp add: dhcp_codes)
      show ?thesis using loop IH(2) [OF pad(1) d pad(2)] pad d by (simp add: unfold)
    next
      case over
      then have d: "c \<noteq> DHCP_VENDOR" "c \<noteq> DHCP_PADDING" by (simp_all add: dhcp_codes)
      show ?thesis using loop IH(3) [OF over(1) d over(2)] over d by (auto simp: unfold split: option.splits if_splits)
    next
      case end_mark
      then have d: "c \<noteq> DHCP_VENDOR" "c \<noteq> DHCP_PADDING" "c \<noteq> DHCP_OPTION_OVER" by (simp_all add: dhcp_codes)
      show ?thesis using loop IH(4,5) [OF end_mark(1) d end_mark(2)] end_mark d by (auto simp: unfold split: if_splits)
    next
      case other
      then show ?thesis using loop IH(6) by (simp add: unfold split: option.splits)
    qed
  qed
qed

lemma c_get_option_ok:
  assumes p: "msg_ok p ds" and code: "code \<noteq> DHCP_PADDING" "code \<noteq> DHCP_END"
  obtains k where "c_get_option p code = Some k" "k = None \<longleftrightarrow> opt_data ds code = None"
    "\<And>j. k = Some j \<Longrightarrow> \<exists>b. opt_data ds code = Some b
        \<and> (code \<in> {DHCP_REQUESTED_IP, DHCP_LEASE_TIME, DHCP_SERVER_ID} \<longrightarrow> rd32 p j = Some (be32 b))
        \<and> (code = DHCP_MESSAGE_TYPE \<longrightarrow> rd8 p j = Some (b ! 0))"
proof -
  fix s :: dhcpd
  obtain k s' where k: "get_opt p code s = Some (k, s')" "k = None \<longleftrightarrow> opt_data ds code = None"
    "\<And>j. k = Some j \<Longrightarrow> \<exists>b. opt_data ds code = Some b
        \<and> (code \<in> {DHCP_REQUESTED_IP, DHCP_LEASE_TIME, DHCP_SERVER_ID} \<longrightarrow> rd32 p j = Some (be32 b))
        \<and> (code = DHCP_MESSAGE_TYPE \<longrightarrow> rd8 p j = Some (b ! 0))"
    by (rule get_opt_ok [OF p code, of s]) metis
  then show ?thesis
    by (intro that [of k]) (auto simp: get_opt_def c_get_option_def get_option_def dest: c_get_option_loop_eq)
qed

section \<open>A packet that was sent is read back\<close>

lemma get16_append: "length xs = off \<Longrightarrow> get16 (xs @ bytes16 w @ ys) off = w"
  by (simp add: get16_def nth_append bytes16_def)

lemma udp_frame_eq:
  "udp_dhcp_packet p si sp di dp =
     [0x45, 0] @ bytes16 576 @ [0, 0, 0, 0, IPDEFTTL, IPPROTO_UDP] @ bytes16 (checksum (ip_header 0 si di))
     @ bytes32 si @ bytes32 di @ bytes16 sp @ bytes16 dp @ bytes16 556
     @ bytes16 (checksum (pseudo_packet p si sp di dp)) @ p"
  by (simp add: udp_dhcp_packet_eq ip_header_def udp_datagram_def)

lemma get_raw_packet_sent:
  assumes p: "length p = 548" "msg_cookie p = DHCP_MAGIC" and old: "length old = 548"
  shows "get_raw_packet (Some (udp_dhcp_packet p si sp di CLIENT_PORT)) old = Some (548, p)"
proof -
  let ?f = "udp_dhcp_packet p si sp di CLIENT_PORT"
  have len: "length ?f = 576" using p(1) by (simp add: udp_frame_eq)
  have b: "take (min (length ?f) 576) ?f @ replicate (576 - min (length ?f) 576) 0 = ?f" by (simp add: len)
  have z: "bytes16 0 = [0, 0]" by (simp add: bytes16_def hi8_def lo8_def)
  have w: "unat (mk16 (hi8 576) (lo8 576)) = 576" "unat (mk16 (hi8 556) (lo8 556)) = 556" by simp_all
  have f: "get16 ?f 2 = 576" "get16 ?f 22 = CLIENT_PORT" "get16 ?f 24 = 556" "get16 ?f 10 = checksum (ip_header 0 si di)"
    "get16 ?f 26 = checksum (pseudo_packet p si sp di CLIENT_PORT)" "?f ! 0 = 0x45" "?f ! 9 = IPPROTO_UDP"
    by (simp_all add: udp_frame_eq get16_def bytes16_def bytes32_def)
  have h: "take 20 (buf_write ?f 10 [0, 0]) = ip_header 0 si di"
    by (simp add: udp_frame_eq buf_write_def ip_header_def z)
  have u: "[0, 0] @ sub_buf ?f 24 2 @ [0, 0, 0, 0, 0, IPPROTO_UDP, 0, 0] @ sub_buf ?f 12 8
      @ sub_buf ?f 20 6 @ [0, 0] @ drop 28 ?f = pseudo_packet p si sp di CLIENT_PORT"
    by (simp add: udp_frame_eq sub_buf_def pseudo_packet_def bytes16_def bytes32_def)
  have t: "take 576 (pseudo_packet p si sp di CLIENT_PORT) = pseudo_packet p si sp di CLIENT_PORT"
    using p(1) by (simp add: pseudo_packet_def)
  have d: "take 548 (drop 28 ?f) = p" using p(1) by (simp add: out_message_raw)
  have c: "buf_write old 0 p = p" using p(1) old by (simp add: buf_write_def)
  show ?thesis
    unfolding get_raw_packet_def option.case Let_def b f h u
    using p(2) by (simp add: len t d c)
qed

section \<open>The messages are well-formed\<close>

text \<open>The first 240 bytes of a message of the client, and the options in front of those of the type.\<close>

definition client_head :: "client_config_t \<Rightarrow> u8 \<Rightarrow> u32 \<Rightarrow> u32 \<Rightarrow> u8 list" where
  "client_head cfg type xid ciaddr =
     [header_op type, ETH_10MB, ETH_10MB_LEN, 0] @ bytes32 xid @ replicate 4 0 @ bytes32 ciaddr @ replicate 12 0
     @ take 6 (cc_arp cfg) @ replicate 202 0 @ bytes32 DHCP_MAGIC"

definition client_options :: "client_config_t \<Rightarrow> u8 \<Rightarrow> u8 list list" where
  "client_options cfg type =
     [simple_option DHCP_MESSAGE_TYPE (ucast type), cc_clientid cfg] @ case_option [] (\<lambda>h. [h]) (cc_hostname cfg) @ [vendor_id]"

definition request_list :: "u8 list" where
  "request_list = DHCP_PARAM_REQ # word_of_nat (length requested_codes) # requested_codes"

definition client_message :: "client_config_t \<Rightarrow> u8 \<Rightarrow> u32 \<Rightarrow> u32 \<Rightarrow> u8 list list \<Rightarrow> dhcpMessage \<Rightarrow> bool" where
  "client_message cfg type xid ciaddr ds p \<longleftrightarrow> length p = 548 \<and> take 240 p = client_head cfg type xid ciaddr
     \<and> field_is (msg_options p) (client_options cfg type @ ds)"

text \<open>A configuration with which the messages fit: the two options of the command line have together at most 270 bytes.\<close>

definition client_ok :: "client_config_t \<Rightarrow> bool" where
  "client_ok cfg \<longleftrightarrow> length (cc_arp cfg) = 6 \<and> opt_ok (cc_clientid cfg) \<and> cc_clientid cfg ! 0 = 0x3d
     \<and> (\<forall>h. cc_hostname cfg = Some h \<longrightarrow> opt_ok h \<and> h ! 0 = DHCP_HOST_NAME)
     \<and> length (cc_clientid cfg) + length (concat (case_option [] (\<lambda>h. [h]) (cc_hostname cfg))) \<le> 270"

lemma requested_codes_eq: "requested_codes = [1, 3, 6, 0x0c, 0x0f, 0x1c, 0x2c]"
  by (simp add: requested_codes_def options_def mk_option_def)

lemma request_list_eq: "request_list = [0x37, 7, 1, 3, 6, 0x0c, 0x0f, 0x1c, 0x2c]"
  by (simp add: request_list_def DHCP_PARAM_REQ_def requested_codes_eq)

lemma vendor_id_ok: "opt_ok vendor_id" "length vendor_id = 13" "vendor_id ! 0 = DHCP_VENDOR"
  by (simp_all add: vendor_id_def opt_ok_def text_bytes_def dhcp_codes)

lemma type_option_length: "length (simple_option DHCP_MESSAGE_TYPE x) = 3"
  by (simp add: simple_option_def simple_data_def)

lemma client_options_length:
  "client_ok cfg \<Longrightarrow> length (concat (client_options cfg type)) \<le> 286"
  by (simp add: client_options_def client_ok_def vendor_id_ok type_option_length)

lemma c_add_field:
  assumes "field_is b ds" "opt_ok d" "length (concat ds) + length d + 1 < 308"
  obtains b' where "c_add b d = Some b'" "field_is b' (ds @ [d])"
  using add_option_string_field [OF assms(1,2)] assms(3) by (auto simp: c_add_def)

lemma take_set_options: "240 \<le> length p \<Longrightarrow> take 240 (set_options p opts) = take 240 p"
  by (simp add: set_options_def)

lemma c_init_packet_ok:
  assumes cfg: "client_ok cfg"
  obtains p where "c_init_packet cfg type = Some p" "client_message cfg type 0 0 [] p"
proof -
  obtain p where p: "init_header type = Some p" "length p = 548"
    "field_is (msg_options p) [simple_option DHCP_MESSAGE_TYPE (ucast type)]"
    by (rule init_header_ok) blast
  let ?p1 = "buf_write p 28 (take 6 (cc_arp cfg))" and ?t = "simple_option DHCP_MESSAGE_TYPE (ucast type)"
  have a: "length (cc_arp cfg) = 6" "opt_ok (cc_clientid cfg)" using cfg by (auto simp: client_ok_def)
  have p1: "length ?p1 = 548" "msg_options ?p1 = msg_options p"
    using p(2) a(1) by (simp_all add: length_buf_write msg_options_def drop_buf_write)
  have head: "take 240 ?p1 = client_head cfg type 0 0"
  proof -
    have "take 240 ?p1 = buf_write (take 240 p) 28 (take 6 (cc_arp cfg))"
      using p(2) a(1) by (simp add: buf_write_def drop_take)
    also have "\<dots> = client_head cfg type 0 0"
      unfolding init_header_head [OF p(1)] client_head_def using a(1)
      by (simp add: buf_write_def bytes32_def numeral_eq_Suc)
    finally show ?thesis .
  qed
  have l: "length (cc_clientid cfg) + length (concat (case_option [] (\<lambda>h. [h]) (cc_hostname cfg))) \<le> 270"
    using cfg by (simp add: client_ok_def)
  obtain o1 where o1: "c_add (msg_options ?p1) (cc_clientid cfg) = Some o1" "field_is o1 ([?t] @ [cc_clientid cfg])"
    using c_add_field [OF p(3) a(2)] l p1(2) by (auto simp: type_option_length)
  obtain o2 where o2: "(case cc_hostname cfg of None \<Rightarrow> Some o1 | Some h \<Rightarrow> c_add o1 h) = Some o2"
    "field_is o2 ([?t, cc_clientid cfg] @ case_option [] (\<lambda>h. [h]) (cc_hostname cfg))"
  proof (cases "cc_hostname cfg")
    case None
    then show ?thesis using that o1 by simp
  next
    case (Some h)
    then have "opt_ok h" using cfg by (simp add: client_ok_def)
    then show ?thesis using c_add_field [OF o1(2), of h] l Some that by (auto simp: type_option_length)
  qed
  obtain o3 where o3: "c_add o2 vendor_id = Some o3" "field_is o3 (client_options cfg type)"
    using c_add_field [OF o2(2) vendor_id_ok(1)] l by (auto simp: type_option_length vendor_id_ok(2) client_options_def)
  have "length o3 = 308" using o3(2) by (simp add: field_is_def)
  then have "client_message cfg type 0 0 [] (set_options ?p1 o3)"
    using p1 head o3(2) by (simp add: client_message_def length_set_options take_set_options)
  then show ?thesis
    using that p(1) o1(1) o2(1) o3(1) by (simp add: c_init_packet_def Let_def)
qed

lemma set_xid_message:
  "client_message cfg type 0 0 ds p \<Longrightarrow> client_ok cfg \<Longrightarrow> client_message cfg type xid 0 ds (set_xid p xid)"
  "client_message cfg type xid 0 ds p \<Longrightarrow> client_ok cfg \<Longrightarrow> client_message cfg type xid a ds (set_ciaddr p a)"
proof -
  have t: "take 240 (buf_write q k (bytes32 w)) = buf_write (take 240 q) k (bytes32 w)" if "length q = 548" "k < 200" for q k w
    using that by (simp add: buf_write_def drop_take)
  show "client_message cfg type 0 0 ds p \<Longrightarrow> client_ok cfg \<Longrightarrow> client_message cfg type xid 0 ds (set_xid p xid)"
    by (simp add: client_message_def set_xid_def t msg_options_def drop_buf_write length_buf_write)
      (simp add: client_head_def client_ok_def buf_write_def bytes32_def)
  show "client_message cfg type xid 0 ds p \<Longrightarrow> client_ok cfg \<Longrightarrow> client_message cfg type xid a ds (set_ciaddr p a)"
    by (simp add: client_message_def set_ciaddr_def t msg_options_def drop_buf_write length_buf_write)
      (simp add: client_head_def client_ok_def buf_write_def bytes32_def)
qed

definition addr_option :: "u8 \<Rightarrow> u32 \<Rightarrow> u8 list" where
  "addr_option code a = code # 4 # bytes32 a"

lemma addr_option_ok:
  assumes "code \<in> {DHCP_REQUESTED_IP, DHCP_SERVER_ID}"
  shows "opt_ok (addr_option code a)" "length (addr_option code a) = 6" "addr_option code a ! 0 = code"
    "add_simple_option b code a = add_option_string b (Some (addr_option code a))"
  using assms
  by (auto simp: addr_option_def opt_ok_def add_simple_option_def simple_length_def options_def mk_option_def
      dhcp_codes simple_data_def)

lemma client_add_simple:
  assumes m: "client_message cfg type xid c ds p" and code: "code \<in> {DHCP_REQUESTED_IP, DHCP_SERVER_ID}"
    and fits: "length (concat (client_options cfg type @ ds)) < 301"
  obtains p' where "add_simple p code a = Some p'" "client_message cfg type xid c (ds @ [addr_option code a]) p'"
proof -
  have p: "length p = 548" "field_is (msg_options p) (client_options cfg type @ ds)"
    using m by (simp_all add: client_message_def)
  obtain b n where b: "add_option_string (msg_options p) (Some (addr_option code a)) = Some (n, b)"
    "field_is b ((client_options cfg type @ ds) @ [addr_option code a])"
    using add_option_string_field [OF p(2) addr_option_ok(1) [OF code, of a]] fits
    by (auto simp: addr_option_ok(2) [OF code])
  then have "length b = 308" by (simp add: field_is_def)
  then have "client_message cfg type xid c (ds @ [addr_option code a]) (set_options p b)"
    using m b(2) p(1) by (simp add: client_message_def length_set_options take_set_options)
  moreover have "add_simple p code a = Some (set_options p b)"
    using b(1) by (simp add: add_simple_def addr_option_ok(4) [OF code])
  ultimately show ?thesis using that by blast
qed

lemma add_requests_ok:
  assumes m: "client_message cfg type xid c ds p" and fits: "length (concat (client_options cfg type @ ds)) \<le> 298"
  obtains p' where "add_requests p = Some p'" "client_message cfg type xid c (ds @ [request_list]) p'"
proof -
  let ?ds = "client_options cfg type @ ds"
  obtain post where p: "length p = 548" "msg_options p = concat ?ds @ DHCP_END # post" "list_all opt_ok ?ds"
    using m by (auto simp: client_message_def field_is_def)
  have l: "length post + length (concat ?ds) = 307" using arg_cong [OF p(2), of length] p(1) by (simp add: msg_options_def)
  let ?b = "buf_write (msg_options p) (length (concat ?ds)) (request_list @ [DHCP_END])"
  have b: "?b = concat (?ds @ [request_list]) @ DHCP_END # drop 9 post"
    unfolding p(2) by (simp add: buf_write_def request_list_eq)
  have "length ?b = 308" unfolding b using l fits by (simp add: request_list_eq)
  moreover have "opt_ok request_list" by (simp add: request_list_eq opt_ok_def dhcp_codes)
  ultimately have f: "field_is ?b (?ds @ [request_list])" using p(3) b by (auto simp: field_is_def)
  have "length ?b = 308" using f by (simp add: field_is_def)
  then have "client_message cfg type xid c (ds @ [request_list]) (set_options p ?b)"
    using m f p(1) by (simp add: client_message_def length_set_options take_set_options)
  moreover have "add_requests p = Some (set_options p ?b)"
  proof -
    have "end_option (msg_options p) = Some (length (concat ?ds))" unfolding p(2) by (rule end_option_field [OF p(3)])
    then show ?thesis using fits by (simp add: add_requests_def Let_def requested_codes_eq request_list_eq DHCP_PARAM_REQ_def)
  qed
  ultimately show ?thesis using that by blast
qed

text \<open>What the four messages of the client contain.\<close>

lemma client_messages:
  assumes cfg: "client_ok cfg"
  shows "\<exists>p. discover_message cfg xid req = Some p
      \<and> client_message cfg DHCPDISCOVER xid 0 ((if req \<noteq> 0 then [addr_option DHCP_REQUESTED_IP req] else []) @ [request_list]) p"
    and "\<exists>p. selecting_message cfg xid server req = Some p
      \<and> client_message cfg DHCPREQUEST xid 0
          [addr_option DHCP_REQUESTED_IP req, addr_option DHCP_SERVER_ID server, request_list] p"
    and "\<exists>p. renew_message cfg xid ciaddr = Some p \<and> client_message cfg DHCPREQUEST xid ciaddr [request_list] p"
    and "\<exists>p. release_message cfg xid server ciaddr = Some p
      \<and> client_message cfg DHCPRELEASE xid ciaddr
          [addr_option DHCP_REQUESTED_IP ciaddr, addr_option DHCP_SERVER_ID server] p"
proof -
  have l: "length (concat (client_options cfg type)) \<le> 286" for type by (rule client_options_length [OF cfg])
  have init: "\<exists>p. c_init_packet cfg type = Some p \<and> client_message cfg type xid 0 [] (set_xid p xid)
      \<and> client_message cfg type xid a [] (set_ciaddr (set_xid p xid) a)" for type a
    by (rule c_init_packet_ok [OF cfg]) (use set_xid_message cfg in blast)
  have simple: "\<exists>p'. add_simple p code a = Some p' \<and> client_message cfg type xid c (ds @ [addr_option code a]) p'"
    if "client_message cfg type xid c ds p" "code \<in> {DHCP_REQUESTED_IP, DHCP_SERVER_ID}"
      "length (concat ds) \<le> 6" for type c ds p code a
    by (rule client_add_simple [OF that(1,2)]) (use l [of type] that(3) in auto)
  have reqs: "\<exists>p'. add_requests p = Some p' \<and> client_message cfg type xid c (ds @ [request_list]) p'"
    if "client_message cfg type xid c ds p" "length (concat ds) \<le> 12" for type c ds p
    by (rule add_requests_ok [OF that(1)]) (use l [of type] that(2) in auto)
  show "\<exists>p. discover_message cfg xid req = Some p
      \<and> client_message cfg DHCPDISCOVER xid 0 ((if req \<noteq> 0 then [addr_option DHCP_REQUESTED_IP req] else []) @ [request_list]) p"
  proof -
    obtain p where p: "c_init_packet cfg DHCPDISCOVER = Some p" "client_message cfg DHCPDISCOVER xid 0 [] (set_xid p xid)"
      using init [of DHCPDISCOVER] by blast
    show ?thesis
    proof (cases "req = 0")
      case True
      then show ?thesis using p reqs [OF p(2)] by (auto simp: discover_message_def Let_def)
    next
      case False
      obtain p1 where "add_simple (set_xid p xid) DHCP_REQUESTED_IP req = Some p1"
        "client_message cfg DHCPDISCOVER xid 0 ([] @ [addr_option DHCP_REQUESTED_IP req]) p1"
        using simple [OF p(2), of DHCP_REQUESTED_IP req] by auto
      then show ?thesis using False p reqs [of DHCPDISCOVER 0 "[addr_option DHCP_REQUESTED_IP req]" p1]
        by (auto simp: discover_message_def Let_def addr_option_def)
    qed
  qed
  show "\<exists>p. selecting_message cfg xid server req = Some p
      \<and> client_message cfg DHCPREQUEST xid 0
          [addr_option DHCP_REQUESTED_IP req, addr_option DHCP_SERVER_ID server, request_list] p"
  proof -
    obtain p where p: "c_init_packet cfg DHCPREQUEST = Some p" "client_message cfg DHCPREQUEST xid 0 [] (set_xid p xid)"
      using init [of DHCPREQUEST] by blast
    obtain p1 where p1: "add_simple (set_xid p xid) DHCP_REQUESTED_IP req = Some p1"
      "client_message cfg DHCPREQUEST xid 0 ([] @ [addr_option DHCP_REQUESTED_IP req]) p1"
      using simple [OF p(2), of DHCP_REQUESTED_IP req] by auto
    obtain p2 where p2: "add_simple p1 DHCP_SERVER_ID server = Some p2"
      "client_message cfg DHCPREQUEST xid 0 (([] @ [addr_option DHCP_REQUESTED_IP req]) @ [addr_option DHCP_SERVER_ID server]) p2"
      using simple [OF p1(2), of DHCP_SERVER_ID server] by (auto simp: addr_option_def)
    show ?thesis using p(1) p1(1) p2(1) reqs [OF p2(2)] by (auto simp: selecting_message_def addr_option_def)
  qed
  show "\<exists>p. renew_message cfg xid ciaddr = Some p \<and> client_message cfg DHCPREQUEST xid ciaddr [request_list] p"
  proof -
    obtain p where "c_init_packet cfg DHCPREQUEST = Some p"
      "client_message cfg DHCPREQUEST xid ciaddr [] (set_ciaddr (set_xid p xid) ciaddr)"
      using init [of DHCPREQUEST ciaddr] by blast
    then show ?thesis using reqs [of DHCPREQUEST ciaddr "[]"] by (auto simp: renew_message_def)
  qed
  show "\<exists>p. release_message cfg xid server ciaddr = Some p
      \<and> client_message cfg DHCPRELEASE xid ciaddr
          [addr_option DHCP_REQUESTED_IP ciaddr, addr_option DHCP_SERVER_ID server] p"
  proof -
    obtain p where p: "c_init_packet cfg DHCPRELEASE = Some p"
      "client_message cfg DHCPRELEASE xid ciaddr [] (set_ciaddr (set_xid p xid) ciaddr)"
      using init [of DHCPRELEASE ciaddr] by blast
    obtain p1 where p1: "add_simple (set_ciaddr (set_xid p xid) ciaddr) DHCP_REQUESTED_IP ciaddr = Some p1"
      "client_message cfg DHCPRELEASE xid ciaddr ([] @ [addr_option DHCP_REQUESTED_IP ciaddr]) p1"
      using simple [OF p(2), of DHCP_REQUESTED_IP ciaddr] by auto
    show ?thesis using p(1) p1(1) simple [OF p1(2), of DHCP_SERVER_ID server]
      by (auto simp: release_message_def addr_option_def)
  qed
qed

lemma client_message_ok:
  assumes "client_ok cfg" "client_message cfg type xid c ds p" "client_opts ds"
  shows "msg_ok p (client_options cfg type @ ds)"
proof -
  have "client_opts (client_options cfg type)"
    using assms(1) vendor_id_ok(3) type_option_length
    by (auto simp: client_opts_def client_options_def client_ok_def simple_option_def dhcp_codes split: option.splits)
  then show ?thesis using assms(2,3) by (auto simp: msg_ok_def client_message_def client_opts_def)
qed

lemma client_head_fields:
  assumes "client_ok cfg" "client_message cfg type xid c ds p"
  shows "msg_op p = header_op type" "msg_xid p = bytes32 xid" "msg_flags p = 0" "msg_ciaddr p = c" "msg_giaddr p = 0"
    "msg_chaddr p = cc_arp cfg @ replicate 10 0" "msg_cookie p = DHCP_MAGIC"
proof -
  have p: "length p = 548" "p = client_head cfg type xid c @ drop 240 p"
    using assms(2) append_take_drop_id [of 240 p] by (simp_all add: client_message_def)
  have a: "length (cc_arp cfg) = 6" using assms(1) by (simp add: client_ok_def)
  have sub: "sub_buf p off n = sub_buf (client_head cfg type xid c) off n" if "off + n \<le> 240" for off n
  proof -
    have "sub_buf p off n = sub_buf (take 240 p) off n" using that by (simp add: sub_buf_def drop_take)
    then show ?thesis using assms(2) by (simp add: client_message_def)
  qed
  have m32: "msg32 p off = w" if "sub_buf (client_head cfg type xid c) off 4 = bytes32 w" "off \<le> 236" for off w
    using that sub [of off 4] p(1) by (intro msg32_sub_buf) simp_all
  have z: "bytes32 0 = [0, 0, 0, 0]" "bytes16 0 = [0, 0]" by (simp_all add: bytes32_def bytes16_def hi8_def lo8_def)
  show "msg_op p = header_op type" by (subst p(2)) (simp add: msg_op_def client_head_def)
  show "msg_xid p = bytes32 xid" by (simp add: msg_xid_def sub client_head_def) (simp add: sub_buf_def)
  show "msg_ciaddr p = c" unfolding msg_ciaddr_def by (rule m32) (simp_all add: client_head_def sub_buf_def)
  show "msg_giaddr p = 0" unfolding msg_giaddr_def by (rule m32) (simp_all add: client_head_def sub_buf_def z numeral_eq_Suc)
  show "msg_cookie p = DHCP_MAGIC" unfolding msg_cookie_def by (rule m32) (simp_all add: client_head_def sub_buf_def a)
  show "msg_chaddr p = cc_arp cfg @ replicate 10 0"
    by (simp add: msg_chaddr_def sub client_head_def) (simp add: sub_buf_def a)
  have "bytes16 (msg_flags p) = bytes16 0"
    using p(1) by (simp add: bytes16_flags sub) (simp add: client_head_def sub_buf_def z numeral_eq_Suc)
  then show "msg_flags p = 0" by (simp add: bytes16_inj)
qed

section \<open>A frame that the client does not survive\<close>

text \<open>A frame whose IP header gives the total length \<open>n\<close>, otherwise correct and without a UDP checksum.\<close>

definition short_header :: "u16 \<Rightarrow> u16 \<Rightarrow> u32 \<Rightarrow> u32 \<Rightarrow> u8 list" where
  "short_header n check source_ip dest_ip =
     [0x45, 0] @ bytes16 n @ [0, 0, 0, 0, IPDEFTTL, IPPROTO_UDP] @ bytes16 check @ bytes32 source_ip @ bytes32 dest_ip"

definition short_frame :: "u16 \<Rightarrow> u32 \<Rightarrow> u32 \<Rightarrow> u16 \<Rightarrow> u8 list \<Rightarrow> u8 list" where
  "short_frame n source_ip dest_ip source_port rest =
     short_header n (checksum (short_header n 0 source_ip dest_ip)) source_ip dest_ip
     @ bytes16 source_port @ bytes16 CLIENT_PORT @ bytes16 (n - 20) @ [0, 0] @ rest"

lemma mk16_zero: "mk16 0 0 = 0"
  by (simp add: mk16_def)

text \<open>C36:
  \<open>get_raw_packet\<close> does not test that the total length of the IP header covers the UDP header. A frame with a total length
  of 20 to 27, sent by anyone on the network, passes all tests, and the length of the copy into the message becomes
  negative, an overrun of the stack.
\<close>

theorem short_frame_overruns_message:
  assumes "20 \<le> n" "n < 28"
  shows "get_raw_packet (Some (short_frame n source_ip dest_ip source_port rest)) payload = None"
proof -
  let ?f = "short_frame n source_ip dest_ip source_port rest"
  let ?k = "min (length ?f) 576"
  let ?b = "take ?k ?f @ replicate (576 - ?k) 0"
  have n: "20 \<le> unat n" "unat n < 28" using assms by (simp_all add: word_le_nat_alt word_less_nat_alt)
  then have u: "unat (n - 20) = unat n - 20" using assms(1) by (simp add: unat_sub)
  have len: "28 \<le> ?k" by (simp add: short_frame_def short_header_def)
  let ?c = "checksum (short_header n 0 source_ip dest_ip)"
  have z: "bytes16 0 = [0, 0]" by (simp add: bytes16_def hi8_def lo8_def)
  obtain tail where b: "?b = short_header n ?c source_ip dest_ip @ bytes16 source_port @ bytes16 CLIENT_PORT
      @ bytes16 (n - 20) @ [0, 0] @ tail"
  proof -
    let ?h = "short_header n ?c source_ip dest_ip @ bytes16 source_port @ bytes16 CLIENT_PORT @ bytes16 (n - 20) @ [0, 0]"
    have "?f = ?h @ rest" "length ?h = 28" by (simp_all add: short_frame_def short_header_def)
    then have "take ?k ?f = ?h @ take (?k - 28) rest" using len by (metis take_all take_append)
    then show ?thesis using that by simp
  qed
  have f: "get16 ?b 2 = n" "get16 ?b 22 = CLIENT_PORT" "get16 ?b 24 = n - 20" "get16 ?b 10 = ?c" "get16 ?b 26 = 0"
    "?b ! 0 = 0x45" "?b ! 9 = IPPROTO_UDP"
    unfolding b by (simp_all add: short_header_def get16_def bytes16_def bytes32_def mk16_zero)
  have h: "take 20 (buf_write ?b 10 [0, 0]) = short_header n 0 source_ip dest_ip"
    unfolding b by (simp add: buf_write_def short_header_def z)
  show ?thesis
    unfolding get_raw_packet_def option.case Let_def f h using n len by (simp add: u)
qed

theorem short_frame_overruns_message_witness:
  "get_raw_packet (Some (short_frame 20 0xC0A80101 0xFFFFFFFF 67 [])) (replicate 548 0) = None"
  using short_frame_overruns_message [of 20] by simp

end
