(* ===== verification/Dhcpc_Main.thy ===== *)
theory Dhcpc_Main
  imports Dhcpc_Packet Dhcp_Main
begin

text \<open>
  The DHCP client on the WAN side of the router: \<open>udhcpc-0.9.8/dhcpc.c\<close>, with \<open>raw_socket\<close> and \<open>read_interface\<close> of its
  \<open>socket.c\<close>. The static variables and the locals of \<open>main\<close> are one record; a variable that is not set at first
  (\<open>lease\<close>) is an option, and a read before it is set is \<^term>\<open>None\<close>. One turn of the loop takes the answers of the
  operating system as its input. What the client does outside is a list: packets, scripts that are run, and
  settings. A script runs in a child process, so it has no effect on the state.
\<close>

section \<open>State\<close>

datatype client_state = INIT_SELECTING | REQUESTING | BOUND | RENEWING | REBINDING | RENEW_REQUESTED | RELEASED

datatype listen = LISTEN_NONE | LISTEN_KERNEL | LISTEN_RAW

datatype client_out =
    Net dhcp_out
  | Script string "dhcpMessage option"
  | Nvram_set string string

record udhcpc =
  client_config :: client_config_t
  c_state :: client_state
  requested_ip :: u32
  server_addr :: u32
  c_timeout :: u32
  packet_num :: int
  c_fd :: bool
  listen_mode :: listen
  bootp_cnt_offer :: int
  c_t1 :: u32
  c_t2 :: u32
  c_xid :: u32
  c_start :: u32
  c_lease :: "u32 option"
  c_packet :: dhcpMessage
  os_xid :: "nat \<Rightarrow> u32"
  n_xid :: nat
  os_csend :: "nat \<Rightarrow> send_env"
  n_csend :: nat
  c_out :: "client_out list"

datatype client_run = C_loop udhcpc | C_exit int udhcpc

text \<open>The answers of the operating system in one turn. \<open>select\<close> may fail or be interrupted, see nothing in time, or
  report the socket and the signal pipe.\<close>

datatype client_wake = Cw_failed | Cw_timeout | Cw_ready bool bool

record client_turn =
  ct_uptime :: u32
  ct_listen :: listen_env
  ct_raw_socket :: bool
  ct_raw_bind :: bool
  ct_wake :: client_wake
  ct_now :: u32
  ct_datagram :: "u8 list option"
  ct_frame :: "u8 list option"
  ct_eintr :: bool
  ct_sig :: "signal option"
  ct_log_ok :: bool
  ct_daemon_ok :: bool

section \<open>Helpers\<close>

definition change_mode :: "listen \<Rightarrow> udhcpc \<Rightarrow> udhcpc" where
  "change_mode new_mode u = u\<lparr>c_fd := False, listen_mode := new_mode\<rparr>"

definition run_script :: "dhcpMessage option \<Rightarrow> string \<Rightarrow> udhcpc \<Rightarrow> udhcpc" where
  "run_script packet name u =
     (if cc_script (client_config u) = None then u else u\<lparr>c_out := c_out u @ [Script name packet]\<rparr>)"

definition random_xid :: "udhcpc \<Rightarrow> u32 \<times> udhcpc" where
  "random_xid u = (os_xid u (n_xid u), u\<lparr>n_xid := Suc (n_xid u)\<rparr>)"

definition transmit :: "(send_env \<Rightarrow> dhcp_out list option) \<Rightarrow> udhcpc \<Rightarrow> udhcpc option" where
  "transmit send u =
     map_option (\<lambda>out. u\<lparr>n_csend := Suc (n_csend u), c_out := c_out u @ map Net out\<rparr>) (send (os_csend u (n_csend u)))"

text \<open>What \<open>sprintf\<close> writes for \<open>%d\<close>, and the buffer of ten bytes for it in \<open>exit_client\<close>.\<close>

definition int_text :: "int \<Rightarrow> string" where
  "int_text k = (if k < 0 then CHR ''-'' # dec (nat (- k)) else dec (nat k))"

definition exit_client :: "int \<Rightarrow> udhcpc \<Rightarrow> client_run option" where
  "exit_client retval u =
     (let buf = int_text (bootp_cnt_offer u) in
      if length buf \<ge> 10 then None
      else Some (C_exit retval (u\<lparr>c_out := c_out u @ [Nvram_set ''bootp_cnt_offer'' buf]\<rparr>)))"

definition background :: "bool \<Rightarrow> udhcpc \<Rightarrow> client_run option" where
  "background daemon_ok u =
     (if \<not> daemon_ok then exit_client 1 u
      else Some (C_loop (u\<lparr>client_config := (client_config u)\<lparr>cc_foreground := True\<rparr>\<rparr>)))"

fun and_then :: "(udhcpc \<Rightarrow> udhcpc) \<Rightarrow> client_run \<Rightarrow> client_run" where
  "and_then f (C_loop u) = C_loop (f u)"
| "and_then f (C_exit k u) = C_exit k u"

section \<open>Signals\<close>

text \<open>The log file is not tested before it is written.\<close>

definition perform_renew :: "bool \<Rightarrow> udhcpc \<Rightarrow> udhcpc option" where
  "perform_renew log_ok u =
     (if \<not> log_ok then None
      else let u1 =
        (case c_state u of
           BOUND \<Rightarrow> (change_mode LISTEN_KERNEL u)\<lparr>c_state := RENEW_REQUESTED\<rparr>
         | RENEWING \<Rightarrow> u\<lparr>c_state := RENEW_REQUESTED\<rparr>
         | REBINDING \<Rightarrow> u\<lparr>c_state := RENEW_REQUESTED\<rparr>
         | RENEW_REQUESTED \<Rightarrow> (change_mode LISTEN_RAW (run_script None ''deconfig'' u))\<lparr>c_state := INIT_SELECTING\<rparr>
         | REQUESTING \<Rightarrow> (change_mode LISTEN_RAW u)\<lparr>c_state := INIT_SELECTING\<rparr>
         | RELEASED \<Rightarrow> (change_mode LISTEN_RAW u)\<lparr>c_state := INIT_SELECTING\<rparr>
         | INIT_SELECTING \<Rightarrow> u)
      in Some (u1\<lparr>packet_num := 0, c_timeout := 0\<rparr>))"

definition perform_release :: "bool \<Rightarrow> udhcpc \<Rightarrow> udhcpc option" where
  "perform_release log_ok u =
     (if \<not> log_ok then None
      else do {
        u1 \<leftarrow> (if c_state u \<in> {BOUND, RENEWING, REBINDING} then
                let (xid, u0) = random_xid u in
                map_option (run_script None ''deconfig'')
                  (transmit (\<lambda>env. send_release (client_config u) env xid (server_addr u) (requested_ip u)) u0)
              else Some u);
        Some ((change_mode LISTEN_NONE u1)\<lparr>c_state := RELEASED, c_timeout := 0x7FFFFFFF\<rparr>) })"

section \<open>Time-outs\<close>

definition timeout_selecting :: "client_turn \<Rightarrow> udhcpc \<Rightarrow> client_run option" where
  "timeout_selecting env u =
     (if packet_num u < 3 then
        do { let u1 = (if packet_num u = 0 then let (xid, u0) = random_xid u in u0\<lparr>c_xid := xid\<rparr> else u);
             u2 \<leftarrow> transmit (\<lambda>e. send_discover (client_config u1) e (c_xid u1) (requested_ip u1)) u1;
             Some (C_loop (u2\<lparr>c_timeout := ct_now env + (if packet_num u2 = 2 then 4 else 2),
                              packet_num := packet_num u2 + 1\<rparr>)) }
      else do { r \<leftarrow> (if cc_background_if_no_lease (client_config u) then background (ct_daemon_ok env) u
                      else if cc_abort_if_no_lease (client_config u) then exit_client 1 u
                      else Some (C_loop u));
                Some (and_then (\<lambda>u. u\<lparr>packet_num := 0, c_timeout := ct_now env + 60\<rparr>) r) })"

definition timeout_requesting :: "client_turn \<Rightarrow> udhcpc \<Rightarrow> udhcpc option" where
  "timeout_requesting env u =
     (if packet_num u < 3 then
        do { u1 \<leftarrow> (if c_state u = RENEW_REQUESTED
                  then transmit (\<lambda>e. send_renew (client_config u) e (c_xid u) (server_addr u) (requested_ip u)) u
                  else transmit (\<lambda>e. send_selecting (client_config u) e (c_xid u) (server_addr u) (requested_ip u)) u);
             Some (u1\<lparr>c_timeout := ct_now env + (if packet_num u1 = 2 then 10 else 2), packet_num := packet_num u1 + 1\<rparr>) }
      else let u1 = (if c_state u = RENEW_REQUESTED then run_script None ''deconfig'' u else u) in
        Some (change_mode LISTEN_RAW (u1\<lparr>c_state := INIT_SELECTING, c_timeout := ct_now env, packet_num := 0\<rparr>)))"

definition timeout_renewing :: "client_turn \<Rightarrow> udhcpc \<Rightarrow> udhcpc option" where
  "timeout_renewing env u =
     do { lease \<leftarrow> c_lease u;
          if c_t2 u - c_t1 u \<le> lease div 14400 + 1
          then Some (u\<lparr>c_state := REBINDING, c_timeout := ct_now env + (c_t2 u - c_t1 u)\<rparr>)
          else do {
            u1 \<leftarrow> transmit (\<lambda>e. send_renew (client_config u) e (c_xid u) (server_addr u) (requested_ip u)) u;
            let t1 = (c_t2 u - c_t1 u) div 2 + c_t1 u;
            Some (u1\<lparr>c_t1 := t1, c_timeout := t1 + c_start u\<rparr>) } }"

definition timeout_rebinding :: "client_turn \<Rightarrow> udhcpc \<Rightarrow> udhcpc option" where
  "timeout_rebinding env u =
     do { lease \<leftarrow> c_lease u;
          if lease - c_t2 u \<le> lease div 14400 + 1
          then Some (change_mode LISTEN_RAW
                 ((run_script None ''deconfig'' (u\<lparr>c_state := INIT_SELECTING\<rparr>))\<lparr>c_timeout := ct_now env, packet_num := 0\<rparr>))
          else do {
            u1 \<leftarrow> transmit (\<lambda>e. send_renew (client_config u) e (c_xid u) 0 (requested_ip u)) u;
            let t2 = (lease - c_t2 u) div 2 + c_t2 u;
            Some (u1\<lparr>c_t2 := t2, c_timeout := t2 + c_start u\<rparr>) } }"

definition timeout_turn :: "client_turn \<Rightarrow> udhcpc \<Rightarrow> client_run option" where
  "timeout_turn env u =
     (case c_state u of
        INIT_SELECTING \<Rightarrow> timeout_selecting env u
      | RENEW_REQUESTED \<Rightarrow> map_option C_loop (timeout_requesting env u)
      | REQUESTING \<Rightarrow> map_option C_loop (timeout_requesting env u)
      | BOUND \<Rightarrow> map_option C_loop (timeout_renewing env (change_mode LISTEN_KERNEL (u\<lparr>c_state := RENEWING\<rparr>)))
      | RENEWING \<Rightarrow> map_option C_loop (timeout_renewing env u)
      | REBINDING \<Rightarrow> map_option C_loop (timeout_rebinding env u)
      | RELEASED \<Rightarrow> Some (C_loop (u\<lparr>c_timeout := 0x7FFFFFFF\<rparr>)))"

section \<open>Answers of servers\<close>

text \<open>\<open>strlen\<close> of a field of the message; without an end mark it runs out of the message.\<close>

definition c_strlen :: "dhcpMessage \<Rightarrow> nat \<Rightarrow> nat option" where
  "c_strlen p off =
     (if 0 \<in> set (drop off p) then Some (length (takeWhile (\<lambda>b. b \<noteq> 0) (drop off p))) else None)"

definition has_bootp_data :: "dhcpMessage \<Rightarrow> bool option" where
  "has_bootp_data p =
     do { n \<leftarrow> c_strlen p 44; if n \<noteq> 0 then Some True else map_option (\<lambda>m. m \<noteq> 0) (c_strlen p 108) }"

definition accept_offer :: "client_turn \<Rightarrow> udhcpc \<Rightarrow> udhcpc option" where
  "accept_offer env u =
     do { temp \<leftarrow> c_get_option (c_packet u) DHCP_SERVER_ID;
          case temp of
            None \<Rightarrow> Some u
          | Some k \<Rightarrow>
              do { addr \<leftarrow> rd32 (c_packet u) k;
                   Some (u\<lparr>server_addr := addr, c_xid := msg32 (c_packet u) 4, requested_ip := msg_yiaddr (c_packet u),
                           c_state := REQUESTING, c_timeout := ct_now env, packet_num := 0\<rparr>) } }"

definition for_us :: "udhcpc \<Rightarrow> bool" where
  "for_us u \<longleftrightarrow> sub_buf (c_packet u) 28 6 = take 6 (cc_arp (client_config u))"

text \<open>An offer with a server name or a boot file is ignored the first time.\<close>

definition handle_offer :: "client_turn \<Rightarrow> udhcpc \<Rightarrow> udhcpc option" where
  "handle_offer env u =
     (if \<not> for_us u then Some u
      else do {
        bootp \<leftarrow> has_bootp_data (c_packet u);
        if bootp then
          if bootp_cnt_offer u = 2 ^ 31 - 1 then None
          else if bootp_cnt_offer u + 1 \<ge> 2 then accept_offer env (u\<lparr>bootp_cnt_offer := 0\<rparr>)
          else Some (u\<lparr>bootp_cnt_offer := bootp_cnt_offer u + 1, c_timeout := c_timeout u + 2\<rparr>)
        else accept_offer env (u\<lparr>bootp_cnt_offer := 0\<rparr>) })"

definition ack_lease :: "dhcpMessage \<Rightarrow> u32 option" where
  "ack_lease p =
     do { temp \<leftarrow> c_get_option p DHCP_LEASE_TIME;
          case temp of None \<Rightarrow> Some (60 * 60) | Some k \<Rightarrow> rd32 p k }"

definition handle_ack :: "client_turn \<Rightarrow> udhcpc \<Rightarrow> client_run option" where
  "handle_ack env u =
     (if \<not> for_us u then Some (C_loop u)
      else do {
        lease \<leftarrow> ack_lease (c_packet u);
        let t1 = lease div 2;
        let u1 = u\<lparr>c_lease := Some lease, c_t1 := t1, c_t2 := drop_bit 3 (lease * 7), c_start := ct_now env,
                   c_timeout := t1 + ct_now env, requested_ip := msg_yiaddr (c_packet u)\<rparr>;
        let u2 = run_script (Some (c_packet u)) (if c_state u \<in> {RENEWING, REBINDING} then ''renew'' else ''bound'') u1;
        let u3 = change_mode LISTEN_NONE (u2\<lparr>c_state := BOUND\<rparr>);
        if cc_quit_after_lease (client_config u3) then exit_client 0 u3
        else if \<not> cc_foreground (client_config u3) then background (ct_daemon_ok env) u3
        else Some (C_loop u3) })"

definition handle_nak :: "client_turn \<Rightarrow> udhcpc \<Rightarrow> udhcpc" where
  "handle_nak env u =
     (let u1 = run_script (Some (c_packet u)) ''nak'' u;
          u2 = (if c_state u1 \<noteq> REQUESTING then run_script None ''deconfig'' u1 else u1)
      in change_mode LISTEN_RAW (u2\<lparr>c_state := INIT_SELECTING, c_timeout := ct_now env, requested_ip := 0, packet_num := 0\<rparr>))"

definition handle_answer :: "u8 \<Rightarrow> client_turn \<Rightarrow> udhcpc \<Rightarrow> client_run option" where
  "handle_answer message env u =
     (if c_state u = INIT_SELECTING then
        if message = DHCPOFFER then map_option C_loop (handle_offer env u) else Some (C_loop u)
      else if c_state u \<in> {RENEW_REQUESTED, REQUESTING, RENEWING, REBINDING} then
        if message = DHCPACK then handle_ack env u
        else if message = DHCPNAK then Some (C_loop (handle_nak env u))
        else Some (C_loop u)
      else Some (C_loop u))"

definition receive_turn :: "client_turn \<Rightarrow> udhcpc \<Rightarrow> client_run option" where
  "receive_turn env u =
     do { (len, p) \<leftarrow> (if listen_mode u = LISTEN_KERNEL then c_get_packet (ct_datagram env)
                       else get_raw_packet (ct_frame env) (c_packet u));
          let u1 = u\<lparr>c_packet := p\<rparr>;
          let u2 = (if len = -1 \<and> \<not> ct_eintr env then change_mode (listen_mode u1) u1 else u1);
          if len < 0 then Some (C_loop u2)
          else if msg32 p 4 \<noteq> c_xid u2 then Some (C_loop u2)
          else do {
            temp \<leftarrow> c_get_option p DHCP_MESSAGE_TYPE;
            case temp of
              None \<Rightarrow> Some (C_loop u2)
            | Some k \<Rightarrow> do { message \<leftarrow> rd8 p k; handle_answer message env u2 } } }"

definition signal_turn :: "client_turn \<Rightarrow> udhcpc \<Rightarrow> client_run option" where
  "signal_turn env u =
     (case ct_sig env of
        None \<Rightarrow> Some (C_loop u)
      | Some SIGUSR1 \<Rightarrow> map_option C_loop (perform_renew (ct_log_ok env) u)
      | Some SIGUSR2 \<Rightarrow> map_option C_loop (perform_release (ct_log_ok env) u)
      | Some SIGTERM \<Rightarrow> exit_client 0 u
      | Some SIG_other \<Rightarrow> Some (C_loop u))"

section \<open>One turn of the loop\<close>

definition raw_socket :: "client_turn \<Rightarrow> bool" where
  "raw_socket env = (if \<not> ct_raw_socket env then False else ct_raw_bind env)"

definition open_ok :: "client_turn \<Rightarrow> udhcpc \<Rightarrow> bool" where
  "open_ok env u = (if listen_mode u = LISTEN_KERNEL then listen_socket (ct_listen env) else raw_socket env)"

definition turn_client :: "client_turn \<Rightarrow> udhcpc \<Rightarrow> client_run option" where
  "turn_client env u =
     (let tv_sec = sint (c_timeout u - ct_uptime env);
          open = listen_mode u \<noteq> LISTEN_NONE \<and> \<not> c_fd u in
      if open \<and> \<not> open_ok env u then exit_client 0 u
      else
        let u1 = (if open then u\<lparr>c_fd := True\<rparr> else u) in
        case (if tv_sec > 0 then ct_wake env else Cw_timeout) of
          Cw_timeout \<Rightarrow> timeout_turn env u1
        | Cw_failed \<Rightarrow> Some (C_loop u1)
        | Cw_ready sock pipe \<Rightarrow>
            if listen_mode u1 \<noteq> LISTEN_NONE \<and> sock then receive_turn env u1
            else if pipe then signal_turn env u1
            else Some (C_loop u1))"

fun client_step :: "client_turn \<Rightarrow> client_run \<Rightarrow> client_run option" where
  "client_step env (C_loop u) = turn_client env u"
| "client_step env (C_exit k u) = Some (C_exit k u)"

section \<open>Start\<close>

datatype client_arg =
    Arg_clientid string | Arg_foreground | Arg_background | Arg_hostname string | Arg_interface string | Arg_now
  | Arg_pidfile string | Arg_quit | Arg_request string | Arg_script string | Arg_version | Arg_usage

text \<open>An option of the command line with at most 255 characters of its text.\<close>

definition client_option :: "u8 \<Rightarrow> string \<Rightarrow> u8 list" where
  "client_option code optarg =
     (let len = (if length optarg > 255 then 255 else length optarg) in
      code # word_of_nat len # text_bytes (take len optarg))"

definition DHCP_CLIENT_ID :: u8 where "DHCP_CLIENT_ID = 0x3d"

definition inet_addr :: "string \<Rightarrow> u32" where
  "inet_addr cs = (case inet_aton cs of None \<Rightarrow> - 1 | Some a \<Rightarrow> a)"

definition set_client_config :: "(client_config_t \<Rightarrow> client_config_t) \<Rightarrow> udhcpc \<Rightarrow> udhcpc" where
  "set_client_config f u = u\<lparr>client_config := f (client_config u)\<rparr>"

text \<open>For an empty identifier the third byte of a block of two is written. \<open>show_usage\<close> leaves with \<open>exit\<close>.\<close>

fun client_args :: "client_arg list \<Rightarrow> udhcpc \<Rightarrow> client_run option" where
  "client_args [] u = Some (C_loop u)"
| "client_args (a # as) u =
     (case a of
        Arg_clientid s \<Rightarrow>
          if s = [] then None
          else client_args as (set_client_config (\<lambda>c. c\<lparr>cc_clientid := client_option DHCP_CLIENT_ID s\<rparr>) u)
      | Arg_foreground \<Rightarrow> client_args as (set_client_config (\<lambda>c. c\<lparr>cc_foreground := True\<rparr>) u)
      | Arg_background \<Rightarrow> client_args as (set_client_config (\<lambda>c. c\<lparr>cc_background_if_no_lease := True\<rparr>) u)
      | Arg_hostname s \<Rightarrow> client_args as (set_client_config (\<lambda>c. c\<lparr>cc_hostname := Some (client_option DHCP_HOST_NAME s)\<rparr>) u)
      | Arg_interface s \<Rightarrow> client_args as (set_client_config (\<lambda>c. c\<lparr>cc_interface := s\<rparr>) u)
      | Arg_now \<Rightarrow> client_args as (set_client_config (\<lambda>c. c\<lparr>cc_abort_if_no_lease := True\<rparr>) u)
      | Arg_pidfile s \<Rightarrow> client_args as u
      | Arg_quit \<Rightarrow> client_args as (set_client_config (\<lambda>c. c\<lparr>cc_quit_after_lease := True\<rparr>) u)
      | Arg_request s \<Rightarrow> client_args as (u\<lparr>requested_ip := inet_addr s\<rparr>)
      | Arg_script s \<Rightarrow> client_args as (set_client_config (\<lambda>c. c\<lparr>cc_script := Some s\<rparr>) u)
      | Arg_version \<Rightarrow> exit_client 0 u
      | Arg_usage \<Rightarrow> Some (C_exit 0 u))"

definition atoi :: "string \<Rightarrow> int" where
  "atoi cs =
     (let (neg, t) = split_sign (dropWhile isspace cs); n = int (fst (digits 10 t)) in
      if neg then max (- (2 ^ 31)) (- n) else min (2 ^ 31 - 1) n)"

definition c_read_interface :: "if_env \<Rightarrow> client_config_t \<Rightarrow> (int \<times> client_config_t) option" where
  "c_read_interface env cfg =
     (if \<not> if_socket_ok env then Some (-1, cfg)
      else if length (cc_interface cfg) \<ge> 16 then None
      else case if_index env of
        None \<Rightarrow> Some (-1, cfg)
      | Some k \<Rightarrow>
          let cfg1 = cfg\<lparr>cc_ifindex := k\<rparr> in
          (case if_hwaddr env of
             None \<Rightarrow> Some (-1, cfg1)
           | Some h \<Rightarrow> Some (0, cfg1\<lparr>cc_arp := take 6 h\<rparr>)))"

text \<open>The identifier made from the hardware address when there was none on the command line (a null pointer, here the empty
  list).\<close>

definition default_clientid :: "client_config_t \<Rightarrow> client_config_t" where
  "default_clientid cfg =
     (if cc_clientid cfg = [] then cfg\<lparr>cc_clientid := [DHCP_CLIENT_ID, 7, 1] @ take 6 (cc_arp cfg)\<rparr> else cfg)"

definition DEFAULT_SCRIPT :: string where "DEFAULT_SCRIPT = ''/usr/share/udhcpc/default.script''"

definition initial_config :: client_config_t where
  "initial_config =
     \<lparr>cc_foreground = False, cc_quit_after_lease = False, cc_abort_if_no_lease = False, cc_background_if_no_lease = False,
      cc_interface = ''eth0'', cc_script = Some DEFAULT_SCRIPT, cc_clientid = [], cc_hostname = None, cc_ifindex = 0,
      cc_arp = replicate 6 0\<rparr>"

text \<open>The variables before \<open>main\<close>; the stack variable \<open>packet\<close> has any content.\<close>

definition initial_client :: "dhcpMessage \<Rightarrow> (nat \<Rightarrow> u32) \<Rightarrow> (nat \<Rightarrow> send_env) \<Rightarrow> udhcpc" where
  "initial_client garbage xids sends =
     \<lparr>client_config = initial_config, c_state = INIT_SELECTING, requested_ip = 0, server_addr = 0, c_timeout = 0,
      packet_num = 0, c_fd = True, listen_mode = LISTEN_NONE, bootp_cnt_offer = 0, c_t1 = 0, c_t2 = 0, c_xid = 0,
      c_start = 0, c_lease = None, c_packet = garbage, os_xid = xids, n_xid = 0, os_csend = sends, n_csend = 0, c_out = []\<rparr>"

definition start_client :: "client_arg list \<Rightarrow> string option \<Rightarrow> if_env \<Rightarrow> udhcpc \<Rightarrow> client_run option" where
  "start_client args nvram env u =
     do { r \<leftarrow> client_args args u;
          case r of
            C_exit k u1 \<Rightarrow> Some (C_exit k u1)
          | C_loop u1 \<Rightarrow>
              do { let u2 = u1\<lparr>bootp_cnt_offer := (case nvram of None \<Rightarrow> 0 | Some s \<Rightarrow> atoi s)\<rparr>;
                   (ret, cfg) \<leftarrow> c_read_interface env (client_config u2);
                   if ret < 0 then exit_client 1 (u2\<lparr>client_config := cfg\<rparr>)
                   else let u3 = u2\<lparr>client_config := default_clientid cfg, c_state := INIT_SELECTING\<rparr> in
                     Some (C_loop (change_mode LISTEN_RAW (run_script None ''deconfig'' u3))) } }"

end
