(* ===== verification/Dhcpc_Inv.thy ===== *)
theory Dhcpc_Inv
  imports Dhcpc_Main Dhcp_Properties
begin

text \<open>
  The invariant of the DHCP client, and the theorem that it survives every sequence of turns in which no malformed
  message arrives: every send succeeds in building its message, no variable is read before it is set, and the socket
  that is open is the one for the state.
\<close>

section \<open>The invariant\<close>

fun mode_of :: "client_state \<Rightarrow> listen" where
  "mode_of INIT_SELECTING = LISTEN_RAW"
| "mode_of REQUESTING = LISTEN_RAW"
| "mode_of BOUND = LISTEN_NONE"
| "mode_of RELEASED = LISTEN_NONE"
| "mode_of RENEWING = LISTEN_KERNEL"
| "mode_of REBINDING = LISTEN_KERNEL"
| "mode_of RENEW_REQUESTED = LISTEN_KERNEL"

definition client_inv :: "udhcpc \<Rightarrow> bool" where
  "client_inv u \<longleftrightarrow> client_ok (client_config u) \<and> length (c_packet u) = 548 \<and> listen_mode u = mode_of (c_state u)
     \<and> (c_state u \<in> {BOUND, RENEWING, REBINDING} \<longrightarrow> c_lease u \<noteq> None)
     \<and> 0 \<le> packet_num u \<and> packet_num u \<le> 3 \<and> - 99999999 \<le> bootp_cnt_offer u \<and> bootp_cnt_offer u \<le> 999999999"

fun client_run_ok :: "client_run \<Rightarrow> bool" where
  "client_run_ok (C_loop u) = client_inv u"
| "client_run_ok (C_exit k u) = True"

text \<open>A message that can be read to the end: its options are well-formed and its strings end inside it.\<close>

definition readable :: "dhcpMessage \<Rightarrow> bool" where
  "readable p \<longleftrightarrow> (\<exists>ds. msg_ok p ds) \<and> 0 \<in> set (drop 108 p)"

definition answer_ok :: "(int \<times> dhcpMessage) option \<Rightarrow> bool" where
  "answer_ok r \<longleftrightarrow> (\<exists>n p. r = Some (n, p) \<and> length p = 548 \<and> (n < 0 \<or> readable p))"

definition client_turn_ok :: "client_turn \<Rightarrow> bool" where
  "client_turn_ok env \<longleftrightarrow> ct_log_ok env \<and> answer_ok (c_get_packet (ct_datagram env))
     \<and> (\<forall>old. length old = 548 \<longrightarrow> answer_ok (get_raw_packet (ct_frame env) old))"

section \<open>Sending\<close>

lemma sends_return:
  assumes "client_ok cfg"
  shows "\<exists>out. send_discover cfg env xid req = Some out" "\<exists>out. send_selecting cfg env xid server req = Some out"
    "\<exists>out. send_renew cfg env xid server ciaddr = Some out" "\<exists>out. send_release cfg env xid server ciaddr = Some out"
  using client_messages(1) [OF assms, of xid req] client_messages(2) [OF assms, of xid server req]
    client_messages(3) [OF assms, of xid ciaddr] client_messages(4) [OF assms, of xid server ciaddr]
  by (auto simp: send_discover_def send_selecting_def send_renew_def send_release_def)

text \<open>A send changes nothing but the output.\<close>

definition sent_from :: "udhcpc \<Rightarrow> udhcpc \<Rightarrow> bool" where
  "sent_from u u' \<longleftrightarrow> (\<exists>n out. u' = u\<lparr>n_csend := n, c_out := out\<rparr>)"

lemma transmit_returns:
  "\<exists>out. send (os_csend u (n_csend u)) = Some out \<Longrightarrow> \<exists>u'. transmit send u = Some u' \<and> sent_from u u'"
  by (auto simp: transmit_def sent_from_def)

lemma run_script_frame: "sent_from u (run_script packet name u)"
proof -
  have "u = u\<lparr>n_csend := n_csend u, c_out := c_out u\<rparr>"
    "u\<lparr>c_out := x\<rparr> = u\<lparr>n_csend := n_csend u, c_out := x\<rparr>" for x by simp_all
  then show ?thesis unfolding run_script_def sent_from_def by metis
qed

lemma sent_from_inv: "sent_from u u' \<Longrightarrow> client_inv u' = client_inv u"
  by (auto simp: sent_from_def client_inv_def)

lemma sent_from_simps:
  assumes "sent_from u u'"
  shows "client_config u' = client_config u" "c_state u' = c_state u" "packet_num u' = packet_num u"
    "c_packet u' = c_packet u" "listen_mode u' = listen_mode u" "c_lease u' = c_lease u" "bootp_cnt_offer u' = bootp_cnt_offer u"
    "c_t1 u' = c_t1 u" "c_t2 u' = c_t2 u" "c_start u' = c_start u" "c_timeout u' = c_timeout u"
    "requested_ip u' = requested_ip u" "server_addr u' = server_addr u" "c_xid u' = c_xid u" "c_fd u' = c_fd u"
  using assms by (auto simp: sent_from_def)

lemmas run_script_simps [simp] = sent_from_simps [OF run_script_frame]

lemma int_text_length: "- 99999999 \<le> k \<Longrightarrow> k \<le> 999999999 \<Longrightarrow> length (int_text k) < 10"
proof (cases "k < 0")
  case True
  assume "- 99999999 \<le> k"
  then have "nat (- k) < 10 ^ 8" by (simp add: nat_less_iff)
  from dec_length_bound [OF this] True show ?thesis by (simp add: int_text_def)
next
  case False
  assume "k \<le> 999999999"
  with False have "nat k < 10 ^ 9" by (simp add: nat_less_iff)
  from dec_length_bound [OF this] False show ?thesis by (simp add: int_text_def)
qed

lemma exit_client_returns: "client_inv u \<Longrightarrow> \<exists>r. exit_client k u = Some r \<and> client_run_ok r"
  using int_text_length [of "bootp_cnt_offer u"] by (simp add: exit_client_def Let_def client_inv_def)

lemma background_returns: "client_inv u \<Longrightarrow> \<exists>r. background b u = Some r \<and> client_run_ok r"
  using exit_client_returns [of u 1] by (auto simp: background_def client_inv_def client_ok_def)

section \<open>Every handler returns and keeps the invariant\<close>

text \<open>States that differ in variables that the invariant does not restrict.\<close>

lemma client_inv_upd [simp]:
  "client_inv (u\<lparr>c_timeout := a\<rparr>) = client_inv u" "client_inv (u\<lparr>c_xid := a\<rparr>) = client_inv u"
  "client_inv (u\<lparr>requested_ip := a\<rparr>) = client_inv u" "client_inv (u\<lparr>server_addr := a\<rparr>) = client_inv u"
  "client_inv (u\<lparr>c_t1 := a\<rparr>) = client_inv u" "client_inv (u\<lparr>c_t2 := a\<rparr>) = client_inv u"
  "client_inv (u\<lparr>n_xid := n\<rparr>) = client_inv u" "client_inv (u\<lparr>c_fd := b\<rparr>) = client_inv u"
  by (simp_all add: client_inv_def)

lemma timeout_selecting_ok:
  assumes u: "client_inv u"
  shows "\<exists>r. timeout_selecting env u = Some r \<and> client_run_ok r"
proof (cases "packet_num u < 3")
  case True
  define u1 where "u1 = (if packet_num u = 0 then let (xid, u0) = random_xid u in u0\<lparr>c_xid := xid\<rparr> else u)"
  have u1: "client_inv u1" "packet_num u1 = packet_num u"
    using u by (simp_all add: u1_def random_xid_def)
  then have "client_ok (client_config u1)" by (simp add: client_inv_def)
  then obtain u2 where u2: "transmit (\<lambda>e. send_discover (client_config u1) e (c_xid u1) (requested_ip u1)) u1 = Some u2"
    "sent_from u1 u2" using transmit_returns sends_return(1) by metis
  have "client_inv u2" "packet_num u2 < 3"
    using sent_from_inv [OF u2(2)] sent_from_simps(3) [OF u2(2)] u1 True by simp_all
  then have "client_inv (u2\<lparr>c_timeout := t, packet_num := packet_num u2 + 1\<rparr>)" for t
    by (simp add: client_inv_def)
  then show ?thesis using True u2(1) by (simp add: timeout_selecting_def u1_def [symmetric])
next
  case False
  let ?f = "\<lambda>u. u\<lparr>packet_num := 0, c_timeout := ct_now env + 60\<rparr>"
  have ok: "client_run_ok r \<Longrightarrow> client_run_ok (and_then ?f r)" for r by (cases r) (auto simp: client_inv_def)
  obtain r where "(if cc_background_if_no_lease (client_config u) then background (ct_daemon_ok env) u
      else if cc_abort_if_no_lease (client_config u) then exit_client 1 u else Some (C_loop u)) = Some r" "client_run_ok r"
    using background_returns [OF u, of "ct_daemon_ok env"] exit_client_returns [OF u, of 1] u
    by (cases "cc_background_if_no_lease (client_config u)"; cases "cc_abort_if_no_lease (client_config u)") auto
  then show ?thesis using False ok by (simp add: timeout_selecting_def)
qed

lemma timeout_requesting_ok:
  assumes u: "client_inv u" and st: "c_state u \<in> {REQUESTING, RENEW_REQUESTED}"
  shows "\<exists>u'. timeout_requesting env u = Some u' \<and> client_inv u'"
proof (cases "packet_num u < 3")
  case True
  have cfg: "client_ok (client_config u)" using u by (simp add: client_inv_def)
  obtain u1 where u1: "(if c_state u = RENEW_REQUESTED
      then transmit (\<lambda>e. send_renew (client_config u) e (c_xid u) (server_addr u) (requested_ip u)) u
      else transmit (\<lambda>e. send_selecting (client_config u) e (c_xid u) (server_addr u) (requested_ip u)) u) = Some u1"
    "sent_from u u1"
    using transmit_returns sends_return(2,3) [OF cfg] by (cases "c_state u = RENEW_REQUESTED") (metis)+
  have "client_inv u1" "packet_num u1 < 3"
    using sent_from_inv [OF u1(2)] sent_from_simps(3) [OF u1(2)] u True by simp_all
  then have "client_inv (u1\<lparr>c_timeout := t, packet_num := packet_num u1 + 1\<rparr>)" for t
    by (simp add: client_inv_def)
  then show ?thesis using True u1(1) by (simp add: timeout_requesting_def)
next
  case False
  let ?u1 = "if c_state u = RENEW_REQUESTED then run_script None ''deconfig'' u else u"
  have "client_inv ?u1" using u sent_from_inv [OF run_script_frame] by simp
  then have "client_inv (change_mode LISTEN_RAW (?u1\<lparr>c_state := INIT_SELECTING, c_timeout := t, packet_num := 0\<rparr>))" for t
    by (simp add: client_inv_def change_mode_def)
  then show ?thesis using False by (simp add: timeout_requesting_def Let_def)
qed

lemma timeout_renewing_ok:
  assumes u: "client_inv u" and st: "c_state u = RENEWING"
  shows "\<exists>u'. timeout_renewing env u = Some u' \<and> client_inv u'"
proof -
  have cfg: "client_ok (client_config u)" using u by (simp add: client_inv_def)
  obtain lease where l: "c_lease u = Some lease" using u st by (auto simp: client_inv_def)
  obtain u1 where u1: "transmit (\<lambda>e. send_renew (client_config u) e (c_xid u) (server_addr u) (requested_ip u)) u = Some u1"
    "sent_from u u1" using transmit_returns sends_return(3) [OF cfg] by metis
  have "client_inv (u\<lparr>c_state := REBINDING, c_timeout := t\<rparr>)" for t using u st by (auto simp: client_inv_def)
  then show ?thesis using l u1 sent_from_inv [OF u1(2)] u by (simp add: timeout_renewing_def Let_def)
qed

lemma timeout_rebinding_ok:
  assumes u: "client_inv u" and st: "c_state u = REBINDING"
  shows "\<exists>u'. timeout_rebinding env u = Some u' \<and> client_inv u'"
proof -
  have cfg: "client_ok (client_config u)" using u by (simp add: client_inv_def)
  obtain lease where l: "c_lease u = Some lease" using u st by (auto simp: client_inv_def)
  obtain u1 where u1: "transmit (\<lambda>e. send_renew (client_config u) e (c_xid u) 0 (requested_ip u)) u = Some u1"
    "sent_from u u1" using transmit_returns sends_return(3) [OF cfg] by metis
  have "client_inv (change_mode LISTEN_RAW
      ((run_script None ''deconfig'' (u\<lparr>c_state := INIT_SELECTING\<rparr>))\<lparr>c_timeout := t, packet_num := 0\<rparr>))" for t
    using u by (simp add: client_inv_def change_mode_def)
  then show ?thesis using l u1 sent_from_inv [OF u1(2)] u by (simp add: timeout_rebinding_def Let_def)
qed

lemma timeout_turn_ok:
  assumes u: "client_inv u"
  shows "\<exists>r. timeout_turn env u = Some r \<and> client_run_ok r"
proof (cases "c_state u")
  case INIT_SELECTING
  then show ?thesis using timeout_selecting_ok [OF u] by (simp add: timeout_turn_def)
next
  case REQUESTING
  then show ?thesis using timeout_requesting_ok [OF u, of env] by (auto simp: timeout_turn_def)
next
  case BOUND
  then have "client_inv (change_mode LISTEN_KERNEL (u\<lparr>c_state := RENEWING\<rparr>))"
    using u by (auto simp: client_inv_def change_mode_def)
  from timeout_renewing_ok [OF this, of env] BOUND show ?thesis by (auto simp: timeout_turn_def change_mode_def)
next
  case RENEWING
  then show ?thesis using timeout_renewing_ok [OF u, of env] by (auto simp: timeout_turn_def)
next
  case REBINDING
  then show ?thesis using timeout_rebinding_ok [OF u, of env] by (auto simp: timeout_turn_def)
next
  case RENEW_REQUESTED
  then show ?thesis using timeout_requesting_ok [OF u, of env] by (auto simp: timeout_turn_def)
next
  case RELEASED
  then show ?thesis using u by (simp add: timeout_turn_def)
qed

lemma perform_renew_ok:
  "client_inv u \<Longrightarrow> \<exists>u'. perform_renew True u = Some u' \<and> client_inv u'"
  by (cases "c_state u") (auto simp: perform_renew_def Let_def client_inv_def change_mode_def)

lemma perform_release_ok:
  assumes u: "client_inv u"
  shows "\<exists>u'. perform_release True u = Some u' \<and> client_inv u'"
proof -
  have cfg: "client_ok (client_config u)" using u by (simp add: client_inv_def)
  obtain xid u0 where x: "random_xid u = (xid, u0)" "client_inv u0" using u by (simp add: random_xid_def)
  obtain u1 where u1: "transmit (\<lambda>env. send_release (client_config u) env xid (server_addr u) (requested_ip u)) u0 = Some u1"
    "sent_from u0 u1" using transmit_returns sends_return(4) [OF cfg] by metis
  have "client_inv (run_script None ''deconfig'' u1)"
    using x(2) sent_from_inv [OF u1(2)] sent_from_inv [OF run_script_frame] by simp
  then have "client_inv ((change_mode LISTEN_NONE (run_script None ''deconfig'' u1))\<lparr>c_state := RELEASED, c_timeout := t\<rparr>)" for t
    by (simp add: client_inv_def change_mode_def)
  moreover have "client_inv ((change_mode LISTEN_NONE u)\<lparr>c_state := RELEASED, c_timeout := t\<rparr>)" for t
    using u by (simp add: client_inv_def change_mode_def)
  ultimately show ?thesis using x u1 by (simp add: perform_release_def)
qed

lemma signal_turn_ok:
  assumes u: "client_inv u" and env: "client_turn_ok env"
  shows "\<exists>r. signal_turn env u = Some r \<and> client_run_ok r"
proof (cases "ct_sig env")
  case None
  then show ?thesis using u by (simp add: signal_turn_def)
next
  case (Some sig)
  have "ct_log_ok env" using env by (simp add: client_turn_ok_def)
  then show ?thesis
    using Some u perform_renew_ok [OF u] perform_release_ok [OF u] exit_client_returns [OF u, of 0]
    by (cases sig) (auto simp: signal_turn_def)
qed

lemma accept_offer_ok:
  assumes u: "client_inv u" "c_state u = INIT_SELECTING" and p: "msg_ok (c_packet u) ds"
  shows "\<exists>u'. accept_offer env u = Some u' \<and> client_inv u'"
proof (rule c_get_option_ok [OF p, of DHCP_SERVER_ID])
  fix k
  assume k: "c_get_option (c_packet u) DHCP_SERVER_ID = Some k"
    "\<And>j. k = Some j \<Longrightarrow> \<exists>b. opt_data ds DHCP_SERVER_ID = Some b
        \<and> (DHCP_SERVER_ID \<in> {DHCP_REQUESTED_IP, DHCP_LEASE_TIME, DHCP_SERVER_ID} \<longrightarrow> rd32 (c_packet u) j = Some (be32 b))
        \<and> (DHCP_SERVER_ID = DHCP_MESSAGE_TYPE \<longrightarrow> rd8 (c_packet u) j = Some (b ! 0))"
  show ?thesis
  proof (cases k)
    case None
    then show ?thesis using k(1) u by (simp add: accept_offer_def)
  next
    case (Some j)
    then obtain a where "rd32 (c_packet u) j = Some a" using k(2) by blast
    moreover have "client_inv (u\<lparr>server_addr := a, c_xid := x, requested_ip := y, c_state := REQUESTING, c_timeout := t,
        packet_num := 0\<rparr>)" for a x y t using u by (simp add: client_inv_def)
    ultimately show ?thesis using k(1) Some by (simp add: accept_offer_def)
  qed
qed (simp_all add: dhcp_codes)

lemma has_bootp_data_returns: "readable p \<Longrightarrow> \<exists>b. has_bootp_data p = Some b"
proof -
  assume "readable p"
  then have "0 \<in> set (drop 108 p)" by (simp add: readable_def)
  moreover then have "0 \<in> set (drop 44 p)" using set_drop_subset_set_drop [of 44 108 p] by auto
  ultimately show ?thesis by (auto simp: has_bootp_data_def c_strlen_def)
qed

lemma handle_offer_ok:
  assumes u: "client_inv u" "c_state u = INIT_SELECTING" and p: "readable (c_packet u)"
  shows "\<exists>u'. handle_offer env u = Some u' \<and> client_inv u'"
proof -
  obtain ds where ds: "msg_ok (c_packet u) ds" using p by (auto simp: readable_def)
  obtain b where b: "has_bootp_data (c_packet u) = Some b" using has_bootp_data_returns [OF p] by blast
  let ?u = "u\<lparr>bootp_cnt_offer := 0\<rparr>"
  have "client_inv ?u" using u by (simp add: client_inv_def)
  then obtain u1 where u1: "accept_offer env ?u = Some u1" "client_inv u1"
    using accept_offer_ok [of ?u ds env] u(2) ds by auto
  have n: "bootp_cnt_offer u \<noteq> 2 ^ 31 - 1" using u(1) by (auto simp: client_inv_def)
  have i: "client_inv (u\<lparr>bootp_cnt_offer := bootp_cnt_offer u + 1, c_timeout := t\<rparr>)" if "\<not> bootp_cnt_offer u + 1 \<ge> 2" for t
    using u(1) that by (simp add: client_inv_def)
  show ?thesis using b u1 n i u(1) by (auto simp: handle_offer_def)
qed

lemma ack_lease_returns: "msg_ok p ds \<Longrightarrow> \<exists>l. ack_lease p = Some l"
  by (rule c_get_option_ok [of p ds DHCP_LEASE_TIME])
    (auto simp: ack_lease_def dhcp_codes split: option.split)

text \<open>The state in which an acknowledgement for a lease of length \<open>l\<close> leaves the client.\<close>

definition acked :: "client_turn \<Rightarrow> u32 \<Rightarrow> udhcpc \<Rightarrow> udhcpc" where
  "acked env l u = change_mode LISTEN_NONE ((run_script (Some (c_packet u))
      (if c_state u \<in> {RENEWING, REBINDING} then ''renew'' else ''bound'')
      (u\<lparr>c_lease := Some l, c_t1 := l div 2, c_t2 := drop_bit 3 (l * 7), c_start := ct_now env,
         c_timeout := l div 2 + ct_now env, requested_ip := msg_yiaddr (c_packet u)\<rparr>))\<lparr>c_state := BOUND\<rparr>)"

lemma handle_ack_eq:
  "ack_lease (c_packet u) = Some l \<Longrightarrow> handle_ack env u =
      (if \<not> for_us u then Some (C_loop u)
       else if cc_quit_after_lease (client_config u) then exit_client 0 (acked env l u)
       else if \<not> cc_foreground (client_config u) then background (ct_daemon_ok env) (acked env l u)
       else Some (C_loop (acked env l u)))"
  unfolding acked_def by (simp add: handle_ack_def Let_def change_mode_def)

lemma acked_simps:
  "c_state (acked env l u) = BOUND" "c_lease (acked env l u) = Some l" "c_t1 (acked env l u) = l div 2"
  "c_t2 (acked env l u) = drop_bit 3 (l * 7)" "c_start (acked env l u) = ct_now env"
  "c_timeout (acked env l u) = l div 2 + ct_now env" "requested_ip (acked env l u) = msg_yiaddr (c_packet u)"
  "client_config (acked env l u) = client_config u" "c_packet (acked env l u) = c_packet u"
  by (simp_all add: acked_def change_mode_def)

lemma acked_inv: "client_inv u \<Longrightarrow> client_inv (acked env l u)"
  by (simp add: acked_def client_inv_def change_mode_def)

lemma handle_ack_ok:
  assumes u: "client_inv u" and p: "msg_ok (c_packet u) ds"
  shows "\<exists>r. handle_ack env u = Some r \<and> client_run_ok r"
proof -
  obtain l where l: "ack_lease (c_packet u) = Some l" using ack_lease_returns [OF p] by blast
  note u3 = acked_inv [OF u, of env l]
  show ?thesis
    unfolding handle_ack_eq [OF l]
    using u u3 exit_client_returns [OF u3, of 0] background_returns [OF u3, of "ct_daemon_ok env"] by auto
qed

lemma handle_nak_ok: "client_inv u \<Longrightarrow> client_inv (handle_nak env u)"
  by (simp add: handle_nak_def Let_def client_inv_def change_mode_def)

lemma handle_answer_ok:
  assumes u: "client_inv u" and p: "readable (c_packet u)"
  shows "\<exists>r. handle_answer m env u = Some r \<and> client_run_ok r"
proof -
  obtain ds where "msg_ok (c_packet u) ds" using p by (auto simp: readable_def)
  then have a: "\<exists>r. handle_ack env u = Some r \<and> client_run_ok r" by (rule handle_ack_ok [OF u])
  have "\<exists>u'. handle_offer env u = Some u' \<and> client_inv u'" if "c_state u = INIT_SELECTING"
    using handle_offer_ok [OF u that p] .
  then show ?thesis using a u handle_nak_ok [OF u] by (auto simp: handle_answer_def)
qed

lemma receive_turn_ok:
  assumes u: "client_inv u" and env: "client_turn_ok env"
  shows "\<exists>r. receive_turn env u = Some r \<and> client_run_ok r"
proof -
  have "answer_ok (if listen_mode u = LISTEN_KERNEL then c_get_packet (ct_datagram env)
      else get_raw_packet (ct_frame env) (c_packet u))"
    using env u by (simp add: client_turn_ok_def client_inv_def)
  then obtain n p where p: "(if listen_mode u = LISTEN_KERNEL then c_get_packet (ct_datagram env)
      else get_raw_packet (ct_frame env) (c_packet u)) = Some (n, p)" "length p = 548" "n < 0 \<or> readable p"
    by (auto simp: answer_ok_def)
  define u2 where "u2 = (if n = -1 \<and> \<not> ct_eintr env then change_mode (listen_mode u) (u\<lparr>c_packet := p\<rparr>) else u\<lparr>c_packet := p\<rparr>)"
  have u2: "client_inv u2" "c_packet u2 = p" using u p(2) by (auto simp: u2_def client_inv_def change_mode_def)
  have eq: "receive_turn env u =
      (if n < 0 then Some (C_loop u2)
       else if msg32 p 4 \<noteq> c_xid u2 then Some (C_loop u2)
       else do {
         temp \<leftarrow> c_get_option p DHCP_MESSAGE_TYPE;
         case temp of
           None \<Rightarrow> Some (C_loop u2)
         | Some k \<Rightarrow> do { message \<leftarrow> rd8 p k; handle_answer message env u2 } })"
    unfolding receive_turn_def p(1) by (simp add: Let_def u2_def)
  show ?thesis
  proof (cases "n < 0")
    case True
    then show ?thesis using u2 eq by simp
  next
    case False
    then have r: "readable p" using p(3) by simp
    then obtain ds where "msg_ok p ds" by (auto simp: readable_def)
    then obtain k where k: "c_get_option p DHCP_MESSAGE_TYPE = Some k" "\<And>j. k = Some j \<Longrightarrow> \<exists>b. rd8 p j = Some b"
      by (rule c_get_option_ok [of p ds DHCP_MESSAGE_TYPE]) (auto simp: dhcp_codes)
    then show ?thesis using False eq u2 handle_answer_ok [OF u2(1)] r by (cases k) fastforce+
  qed
qed

lemma turn_client_ok:
  assumes u: "client_inv u" and env: "client_turn_ok env"
  shows "\<exists>r. turn_client env u = Some r \<and> client_run_ok r"
proof -
  define u1 where "u1 = (if listen_mode u \<noteq> LISTEN_NONE \<and> \<not> c_fd u then u\<lparr>c_fd := True\<rparr> else u)"
  have u1: "client_inv u1" using u by (simp add: u1_def)
  show ?thesis
    using exit_client_returns [OF u, of 0] u1 timeout_turn_ok [OF u1, of env] receive_turn_ok [OF u1 env]
      signal_turn_ok [OF u1 env]
    by (auto simp: turn_client_def Let_def u1_def [symmetric] split: client_wake.split)
qed

interpretation udhcpc_main: total_component client_step client_turn_ok client_run_ok
proof
  show "\<exists>r. client_step env s = Some r" if "client_run_ok s" "client_turn_ok env" for s env
    using that turn_client_ok by (cases s) auto
  show "client_run_ok r" if "client_run_ok s" "client_turn_ok env" "client_step env s = Some r" for s env r
    using that turn_client_ok by (cases s) fastforce+
qed

section \<open>From the command line on\<close>

text \<open>Arguments with which the messages fit: the identifier is not empty, and when both an identifier and a host name are
  given they have together at most 266 characters. Interface names have the length that the kernel allows.\<close>

definition args_fit :: "client_arg list \<Rightarrow> bool" where
  "args_fit args \<longleftrightarrow> Arg_clientid [] \<notin> set args
     \<and> (\<forall>c h. Arg_clientid c \<in> set args \<and> Arg_hostname h \<in> set args \<longrightarrow> length c + length h \<le> 266)
     \<and> (\<forall>s. Arg_interface s \<in> set args \<longrightarrow> length s < 16)"

definition args_inv :: "client_arg list \<Rightarrow> udhcpc \<Rightarrow> bool" where
  "args_inv args u \<longleftrightarrow> length (c_packet u) = 548 \<and> packet_num u = 0 \<and> bootp_cnt_offer u = 0
     \<and> length (cc_interface (client_config u)) < 16
     \<and> (cc_clientid (client_config u) = []
        \<or> (\<exists>s. Arg_clientid s \<in> set args \<and> cc_clientid (client_config u) = client_option DHCP_CLIENT_ID s))
     \<and> (cc_hostname (client_config u) = None
        \<or> (\<exists>s. Arg_hostname s \<in> set args \<and> cc_hostname (client_config u) = Some (client_option DHCP_HOST_NAME s)))"

lemma client_option_ok:
  assumes "code \<noteq> DHCP_PADDING" "code \<noteq> DHCP_END"
  shows "opt_ok (client_option code s)" "client_option code s ! 0 = code" "length (client_option code s) \<le> length s + 2"
    "length (client_option code s) \<le> 257"
proof -
  have "unat (word_of_nat (min 255 (length s)) :: u8) = min 255 (length s)" by (rule unat_u8) simp
  then show "opt_ok (client_option code s)" "client_option code s ! 0 = code"
    "length (client_option code s) \<le> length s + 2" "length (client_option code s) \<le> 257"
    using assms by (auto simp: client_option_def opt_ok_def text_bytes_def Let_def min_def split: if_splits)
qed

lemma client_args_ok:
  assumes fit: "args_fit args" and u: "args_inv args u" "set as \<subseteq> set args"
  shows "\<exists>r. client_args as u = Some r \<and> (\<forall>u'. r = C_loop u' \<longrightarrow> args_inv args u')"
  using u
proof (induction "as" arbitrary: u)
  case Nil
  then show ?case by simp
next
  case (Cons a "as")
  have step: "\<exists>r. client_args as u' = Some r \<and> (\<forall>u'. r = C_loop u' \<longrightarrow> args_inv args u')" if "args_inv args u'" for u'
    using Cons.IH [OF that] Cons.prems(2) by simp
  have a: "a \<in> set args" using Cons.prems(2) by simp
  have "length (int_text 0) < 10" by (simp add: int_text_def dec.simps)
  then have v: "\<exists>r. exit_client 0 u = Some r \<and> (\<forall>u'. r = C_loop u' \<longrightarrow> args_inv args u')"
    using Cons.prems(1) by (simp add: exit_client_def args_inv_def)
  have upd: "args_inv args (set_client_config f u)"
    if "cc_interface (f (client_config u)) = cc_interface (client_config u)
        \<or> Arg_interface (cc_interface (f (client_config u))) \<in> set args"
      "cc_clientid (f (client_config u)) = cc_clientid (client_config u)
        \<or> (\<exists>s. Arg_clientid s \<in> set args \<and> cc_clientid (f (client_config u)) = client_option DHCP_CLIENT_ID s)"
      "cc_hostname (f (client_config u)) = cc_hostname (client_config u)
        \<or> (\<exists>s. Arg_hostname s \<in> set args \<and> cc_hostname (f (client_config u)) = Some (client_option DHCP_HOST_NAME s))" for f
    using that Cons.prems(1) fit by (auto simp: args_inv_def set_client_config_def args_fit_def)
  show ?case
  proof (cases a)
    case (Arg_clientid s)
    then have "s \<noteq> []" using a fit by (auto simp: args_fit_def)
    then show ?thesis using Arg_clientid a by (auto intro!: step upd)
  next
    case (Arg_request s)
    have "args_inv args (u\<lparr>requested_ip := inet_addr s\<rparr>)" using Cons.prems(1) by (simp add: args_inv_def)
    then show ?thesis using Arg_request step by simp
  qed (use a v step Cons.prems(1) in \<open>auto intro!: step upd\<close>)
qed

lemma default_config_ok:
  assumes fit: "args_fit args" and u: "args_inv args u" and h: "length h = 6"
  shows "client_ok (default_clientid ((client_config u)\<lparr>cc_ifindex := k, cc_arp := h\<rparr>))"
proof -
  let ?cfg = "client_config u"
  have codes: "DHCP_CLIENT_ID \<noteq> DHCP_PADDING" "DHCP_CLIENT_ID \<noteq> DHCP_END" "DHCP_HOST_NAME \<noteq> DHCP_PADDING"
    "DHCP_HOST_NAME \<noteq> DHCP_END" "DHCP_CLIENT_ID = 0x3d" by (simp_all add: DHCP_CLIENT_ID_def dhcp_codes)
  note c = client_option_ok [OF codes(1,2)] and n = client_option_ok [OF codes(3,4)]
  have host: "cc_hostname ?cfg = None \<or> (\<exists>s. Arg_hostname s \<in> set args \<and> cc_hostname ?cfg = Some (client_option DHCP_HOST_NAME s))"
    using u by (simp add: args_inv_def)
  have id: "opt_ok ([DHCP_CLIENT_ID, 7, 1] @ h)" using h codes by (simp add: opt_ok_def)
  consider "cc_clientid ?cfg = []"
    | s where "Arg_clientid s \<in> set args" "cc_clientid ?cfg = client_option DHCP_CLIENT_ID s"
    using u by (auto simp: args_inv_def)
  then show ?thesis
  proof cases
    case 1
    then show ?thesis
      using host h id codes(5) n(1,2) order_trans [OF n(4), of 261] by (auto simp: client_ok_def default_clientid_def)
  next
    case (2 s)
    then have ne: "cc_clientid ?cfg \<noteq> []" using opt_ok_length [OF c(1), of s] by auto
    have sum: "length s + length t \<le> 266" if "Arg_hostname t \<in> set args" for t
      using fit 2(1) that by (auto simp: args_fit_def)
    show ?thesis
      using host
    proof (elim disjE exE conjE)
      assume "cc_hostname ?cfg = None"
      then show ?thesis using 2(2) ne h c [of s] codes(5) by (simp add: client_ok_def default_clientid_def)
    next
      fix t
      assume t: "Arg_hostname t \<in> set args" "cc_hostname ?cfg = Some (client_option DHCP_HOST_NAME t)"
      then show ?thesis using 2(2) ne h c [of s] n [of t] codes(5) sum [OF t(1)]
        by (simp add: client_ok_def default_clientid_def)
    qed
  qed
qed

lemma c_read_interface_fails:
  assumes "\<not> (if_socket_ok env \<and> if_index env \<noteq> None \<and> if_hwaddr env \<noteq> None)" "length (cc_interface cfg) < 16"
  obtains cfg' where "c_read_interface env cfg = Some (-1, cfg')"
proof (cases "if_socket_ok env")
  case False
  then have "c_read_interface env cfg = Some (-1, cfg)" by (simp add: c_read_interface_def)
  then show ?thesis by (rule that)
next
  case sock: True
  show ?thesis
  proof (cases "if_index env")
    case None
    then have "c_read_interface env cfg = Some (-1, cfg)" using sock assms(2) by (simp add: c_read_interface_def)
    then show ?thesis by (rule that)
  next
    case (Some k)
    then have "if_hwaddr env = None" using sock assms(1) by simp
    then have "c_read_interface env cfg = Some (-1, cfg\<lparr>cc_ifindex := k\<rparr>)"
      using sock Some assms(2) by (simp add: c_read_interface_def)
    then show ?thesis by (rule that)
  qed
qed

lemma start_client_ok:
  assumes fit: "args_fit args" and g: "length garbage = 548" and hw: "\<And>h. if_hwaddr env = Some h \<Longrightarrow> 6 \<le> length h"
    and nv: "\<And>s. nvram = Some s \<Longrightarrow> - 99999999 \<le> atoi s \<and> atoi s \<le> 999999999"
  shows "\<exists>r. start_client args nvram env (initial_client garbage xids sends) = Some r \<and> client_run_ok r"
proof -
  let ?u = "initial_client garbage xids sends"
  have "args_inv args ?u" using g by (simp add: args_inv_def initial_client_def initial_config_def)
  then obtain r where r: "client_args args ?u = Some r" "\<And>u'. r = C_loop u' \<Longrightarrow> args_inv args u'"
    using client_args_ok [OF fit] by blast
  show ?thesis
  proof (cases r)
    case (C_exit k u1)
    then show ?thesis using r(1) by (simp add: start_client_def)
  next
    case (C_loop u1)
    then have u1: "args_inv args u1" using r(2) by blast
    define b where "b = (case nvram of None \<Rightarrow> 0 | Some s \<Rightarrow> atoi s)"
    have b: "- 99999999 \<le> b" "b \<le> 999999999" using nv by (auto simp: b_def split: option.splits)
    define cfg where "cfg = client_config u1"
    have iface: "length (cc_interface cfg) < 16" using u1 by (simp add: args_inv_def cfg_def)
    show ?thesis
    proof (cases "if_socket_ok env \<and> if_index env \<noteq> None \<and> if_hwaddr env \<noteq> None")
      case True
      then obtain k h where kh: "if_socket_ok env" "if_index env = Some k" "if_hwaddr env = Some h" by auto
      let ?cfg = "default_clientid (cfg\<lparr>cc_ifindex := k, cc_arp := take 6 h\<rparr>)"
      have "client_ok ?cfg"
        unfolding cfg_def by (rule default_config_ok [OF fit u1]) (use hw [OF kh(3)] in simp)
      then have "client_inv (change_mode LISTEN_RAW (run_script None ''deconfig''
          (u1\<lparr>bootp_cnt_offer := b, client_config := ?cfg, c_state := INIT_SELECTING\<rparr>)))"
        using u1 b by (simp add: client_inv_def change_mode_def args_inv_def)
      then show ?thesis
        using r(1) C_loop kh iface by (simp add: start_client_def c_read_interface_def b_def [symmetric] cfg_def [symmetric])
    next
      case False
      obtain cfg' where cfg': "c_read_interface env cfg = Some (-1, cfg')"
        by (rule c_read_interface_fails [OF False iface])
      have "length (int_text b) < 10" using b by (rule int_text_length)
      then show ?thesis
        using r(1) C_loop cfg' by (simp add: start_client_def b_def [symmetric] cfg_def [symmetric] exit_client_def)
    qed
  qed
qed


section \<open>An example\<close>

text \<open>A packet from a server is an admissible answer.\<close>

lemma frame_answer_ok:
  assumes "readable p" "msg_cookie p = DHCP_MAGIC" "length old = 548"
  shows "answer_ok (get_raw_packet (Some (udp_dhcp_packet p si sp di CLIENT_PORT)) old)"
proof -
  have "length p = 548" using assms(1) by (auto simp: readable_def msg_ok_def)
  then show ?thesis using get_raw_packet_sent [OF _ assms(2,3)] assms(1) by (simp add: answer_ok_def)
qed

definition client_turn_at :: "client_wake \<Rightarrow> u32 \<Rightarrow> u8 list option \<Rightarrow> client_turn" where
  "client_turn_at wake t frame =
     \<lparr>ct_uptime = t, ct_listen = \<lparr>le_socket_ok = True, le_reuse_ok = True, le_broadcast_ok = True, le_device_ok = True,
        le_bind_ok = True\<rparr>, ct_raw_socket = True, ct_raw_bind = True, ct_wake = wake, ct_now = t, ct_datagram = None,
      ct_frame = frame, ct_eintr = False, ct_sig = None, ct_log_ok = True, ct_daemon_ok = True\<rparr>"

definition wan_if :: if_env where
  "wan_if = \<lparr>if_socket_ok = True, if_addr = None, if_index = Some 2, if_hwaddr = Some [2, 0, 0, 0, 0, 7]\<rparr>"

lemma client_turn_at_ok:
  assumes "frame = None \<or> (\<exists>p si sp di. frame = Some (udp_dhcp_packet p si sp di CLIENT_PORT)
    \<and> readable p \<and> msg_cookie p = DHCP_MAGIC)"
  shows "client_turn_ok (client_turn_at wake t frame)"
  using assms frame_answer_ok
  by (auto simp: client_turn_ok_def client_turn_at_def answer_ok_def c_get_packet_def get_raw_packet_def
      sizeof_dhcpMessage_def)


end
