(* ===== verification/Dhcpc_Lease.thy ===== *)
theory Dhcpc_Lease
  imports Dhcpc_Inv
begin

text \<open>
  The end of a lease: a DHCP client that no longer gets answers tries to renew its lease at shorter and shorter
  intervals, and gives the address up before the lease is over.
\<close>

section \<open>Arithmetic of the timers\<close>

lemma unat_midpoint: "a \<le> b \<Longrightarrow> unat ((b - a) div 2 + a) = unat a + (unat b - unat a) div 2" for a b :: u32
proof -
  assume "a \<le> b"
  then have d: "unat (b - a) = unat b - unat a" "unat a \<le> unat b" by (simp_all add: unat_sub word_le_nat_alt)
  have h: "unat ((b - a) div 2) = (unat b - unat a) div 2" by (simp add: unat_div d(1))
  have "unat b < 2 ^ 32" using unsigned_less [of b, where ?'a = nat] by simp
  then have "unat ((b - a) div 2) + unat a < 2 ^ 32" using d(2) h by linarith
  then show ?thesis using h unat_add_lem [of "(b - a) div 2" a] by simp
qed

lemma unat_slack: "unat (l div 14400 + 1 :: u32) = unat l div 14400 + 1"
proof -
  have "unat l < 2 ^ 32" using unsigned_less [of l, where ?'a = nat] by simp
  then have "unat l div 14400 + 1 < 2 ^ 32" by simp
  then show ?thesis by (simp add: unat_word_ariths unat_div)
qed

lemma unat_seven_eighths: "unat l * 7 < 2 ^ 32 \<Longrightarrow> unat (drop_bit 3 (l * 7) :: u32) = unat l * 7 div 8" for l :: u32
  by (simp add: unat_drop_bit_eq drop_bit_eq_div unat_word_ariths)

lemma halved: "g \<le> m * 2 ^ Suc k \<Longrightarrow> g - g div 2 \<le> m * 2 ^ k" for g m :: nat
  by simp

lemma timer_gaps:
  "l * 7 div 8 - l div 2 \<le> (l div 14400 + 1) * 2 ^ 13" "l - l * 7 div 8 \<le> (l div 14400 + 1) * 2 ^ 11" for l :: nat
proof -
  have "l = l div 14400 * 14400 + l mod 14400" "l mod 14400 < 14400" by simp_all
  moreover have "8 * (l * 7 div 8) \<le> l * 7" "l * 7 < 8 * (l * 7 div 8) + 8" "l \<le> 2 * (l div 2) + 1" by linarith+
  ultimately show "l * 7 div 8 - l div 2 \<le> (l div 14400 + 1) * 2 ^ 13" "l - l * 7 div 8 \<le> (l div 14400 + 1) * 2 ^ 11"
    by (simp_all add: add_mult_distrib)
qed

section \<open>Turns without an answer\<close>

text \<open>Nothing arrives, sockets can be opened, and the client wakes up when the time is over.\<close>

definition silent :: "client_turn \<Rightarrow> bool" where
  "silent env \<longleftrightarrow> ct_wake env = Cw_timeout \<and> listen_socket (ct_listen env) \<and> raw_socket env"

fun on_time :: "client_turn list \<Rightarrow> udhcpc \<Rightarrow> bool" where
  "on_time [] u = True"
| "on_time (env # envs) u \<longleftrightarrow> silent env \<and> ct_now env = c_timeout u
     \<and> (\<forall>u'. turn_client env u = Some (C_loop u') \<longrightarrow> on_time envs u')"

lemma silent_turn:
  "silent env \<Longrightarrow> turn_client env u = timeout_turn env (if listen_mode u \<noteq> LISTEN_NONE \<and> \<not> c_fd u then u\<lparr>c_fd := True\<rparr> else u)"
  by (simp add: turn_client_def silent_def open_ok_def Let_def)

text \<open>The client has given its address up, at a time when the lease was not yet over.\<close>

definition given_up :: "u32 \<Rightarrow> u32 \<Rightarrow> udhcpc \<Rightarrow> bool" where
  "given_up lease start u \<longleftrightarrow> c_state u = INIT_SELECTING \<and> last (c_out u) = Script ''deconfig'' None
     \<and> c_start u = start \<and> c_timeout u - start \<le> lease"

definition ends_with :: "client_turn list \<Rightarrow> udhcpc \<Rightarrow> nat \<Rightarrow> (udhcpc \<Rightarrow> bool) \<Rightarrow> bool" where
  "ends_with envs u k Q \<longleftrightarrow> (\<exists>n \<le> k. \<exists>u'. run client_step (take n envs) (C_loop u) = Some (C_loop u') \<and> Q u')"

lemma ends_with_now: "turn_client env u = Some (C_loop u') \<Longrightarrow> Q u' \<Longrightarrow> ends_with (env # envs) u (Suc k) Q"
  unfolding ends_with_def by (rule exI [of _ 1]) simp

lemma ends_with_later:
  assumes "turn_client env u = Some (C_loop u')" "ends_with envs u' k Q"
  shows "ends_with (env # envs) u (Suc k) Q"
proof -
  obtain n v where "n \<le> k" "run client_step (take n envs) (C_loop u') = Some (C_loop v)" "Q v"
    using assms(2) by (auto simp: ends_with_def)
  then show ?thesis unfolding ends_with_def using assms(1) by (intro exI [of _ "Suc n"]) simp
qed

lemma ends_with_mono: "ends_with envs u k Q \<Longrightarrow> k \<le> m \<Longrightarrow> ends_with envs u m Q"
  by (auto simp: ends_with_def intro: order_trans)

section \<open>Rebinding\<close>

text \<open>The states of a client that holds a lease, with the timer of its state running.\<close>

definition holds :: "client_state \<Rightarrow> u32 \<Rightarrow> u32 \<Rightarrow> udhcpc \<Rightarrow> bool" where
  "holds st l start u \<longleftrightarrow> client_inv u \<and> c_state u = st \<and> c_lease u = Some l \<and> cc_script (client_config u) \<noteq> None
     \<and> c_start u = start \<and> c_t2 u \<le> l
     \<and> (if st = REBINDING then c_timeout u = c_t2 u + start else c_t1 u \<le> c_t2 u \<and> c_timeout u = c_t1 u + start)"

lemma holds_fd: "holds st l start (u\<lparr>c_fd := b\<rparr>) = holds st l start u"
  by (simp add: holds_def)

lemma rebinding_turn:
  assumes u: "holds REBINDING l start u" and now: "ct_now env = c_timeout u"
  shows "unat l - unat (c_t2 u) \<le> unat l div 14400 + 1 \<Longrightarrow>
      \<exists>u'. timeout_turn env u = Some (C_loop u') \<and> given_up l start u'"
    and "\<not> unat l - unat (c_t2 u) \<le> unat l div 14400 + 1 \<Longrightarrow>
      \<exists>u'. timeout_turn env u = Some (C_loop u') \<and> holds REBINDING l start u'
        \<and> unat l - unat (c_t2 u') = (unat l - unat (c_t2 u)) - (unat l - unat (c_t2 u)) div 2"
proof -
  have f: "client_inv u" "c_state u = REBINDING" "c_lease u = Some l" "cc_script (client_config u) \<noteq> None"
    "c_start u = start" "c_t2 u \<le> l" "c_timeout u = c_t2 u + start" using u by (simp_all add: holds_def)
  have t2: "unat (c_t2 u) \<le> unat l" "unat (l - c_t2 u) = unat l - unat (c_t2 u)"
    using f(6) by (simp_all add: word_le_nat_alt unat_sub)
  have test: "l - c_t2 u \<le> l div 14400 + 1 \<longleftrightarrow> unat l - unat (c_t2 u) \<le> unat l div 14400 + 1"
    using t2(2) by (simp add: word_le_nat_alt unat_slack)
  show "\<exists>u'. timeout_turn env u = Some (C_loop u') \<and> given_up l start u'"
    if "unat l - unat (c_t2 u) \<le> unat l div 14400 + 1"
  proof -
    let ?u = "change_mode LISTEN_RAW ((run_script None ''deconfig'' (u\<lparr>c_state := INIT_SELECTING\<rparr>))
        \<lparr>c_timeout := ct_now env, packet_num := 0\<rparr>)"
    have "timeout_turn env u = Some (C_loop ?u)" using f that test by (simp add: timeout_turn_def timeout_rebinding_def)
    moreover have "given_up l start ?u"
      using f now by (auto simp: given_up_def change_mode_def run_script_def)
    ultimately show ?thesis by blast
  qed
  show "\<exists>u'. timeout_turn env u = Some (C_loop u') \<and> holds REBINDING l start u'
        \<and> unat l - unat (c_t2 u') = (unat l - unat (c_t2 u)) - (unat l - unat (c_t2 u)) div 2"
    if long: "\<not> unat l - unat (c_t2 u) \<le> unat l div 14400 + 1"
  proof -
    have cfg: "client_ok (client_config u)" using f(1) by (simp add: client_inv_def)
    obtain u1 where u1: "transmit (\<lambda>e. send_renew (client_config u) e (c_xid u) 0 (requested_ip u)) u = Some u1"
      "sent_from u u1" using transmit_returns sends_return(3) [OF cfg] by metis
    let ?t = "(l - c_t2 u) div 2 + c_t2 u"
    have m: "unat ?t = unat (c_t2 u) + (unat l - unat (c_t2 u)) div 2" by (rule unat_midpoint [OF f(6)])
    then have "?t \<le> l" using t2(1) by (simp add: word_le_nat_alt)
    then have "holds REBINDING l start (u1\<lparr>c_t2 := ?t, c_timeout := ?t + c_start u\<rparr>)"
      using f sent_from_inv [OF u1(2)] sent_from_simps [OF u1(2)] by (simp add: holds_def)
    moreover have "timeout_turn env u = Some (C_loop (u1\<lparr>c_t2 := ?t, c_timeout := ?t + c_start u\<rparr>))"
      using f long test u1(1) by (simp add: timeout_turn_def timeout_rebinding_def Let_def)
    ultimately show ?thesis using m by (intro exI conjI) auto
  qed
qed

lemma on_time_turn:
  assumes "on_time envs u" "0 < length envs" "holds st l start u"
  obtains env es u1 where "envs = env # es" "ct_now env = c_timeout u1" "turn_client env u = timeout_turn env u1"
    "\<And>u'. turn_client env u = Some (C_loop u') \<Longrightarrow> on_time es u'"
    "holds st l start u1" "c_t1 u1 = c_t1 u" "c_t2 u1 = c_t2 u"
proof -
  obtain env es where e: "envs = env # es" using assms(2) by (cases envs) auto
  let ?u = "if listen_mode u \<noteq> LISTEN_NONE \<and> \<not> c_fd u then u\<lparr>c_fd := True\<rparr> else u"
  show ?thesis
    by (rule that [of env es ?u]) (use assms e silent_turn [of env u] in \<open>simp_all add: holds_fd\<close>)
qed

lemma rebinding_ends:
  assumes "holds REBINDING l start u" "unat l - unat (c_t2 u) \<le> (unat l div 14400 + 1) * 2 ^ k"
    and "on_time envs u" "k < length envs"
  shows "ends_with envs u (Suc k) (given_up l start)"
  using assms
proof (induction k arbitrary: u envs)
  case 0
  obtain env es u1 where e: "envs = env # es" "ct_now env = c_timeout u1" "turn_client env u = timeout_turn env u1"
    "holds REBINDING l start u1" "c_t2 u1 = c_t2 u"
    by (rule on_time_turn [OF "0.prems"(3,4,1)]) blast
  then show ?case using rebinding_turn(1) [OF e(4,2)] "0.prems"(2) by (auto intro: ends_with_now)
next
  case (Suc k)
  have "0 < length envs" using Suc.prems(4) by linarith
  then obtain env es u1 where e: "envs = env # es" "ct_now env = c_timeout u1" "turn_client env u = timeout_turn env u1"
    "\<And>u'. turn_client env u = Some (C_loop u') \<Longrightarrow> on_time es u'" "holds REBINDING l start u1" "c_t2 u1 = c_t2 u"
    by (rule on_time_turn [OF Suc.prems(3) _ Suc.prems(1)]) blast
  show ?case
  proof (cases "unat l - unat (c_t2 u) \<le> unat l div 14400 + 1")
    case True
    then show ?thesis using rebinding_turn(1) [OF e(5,2)] e(1,3,6) by (auto intro: ends_with_now)
  next
    case False
    then obtain u' where u': "turn_client env u = Some (C_loop u')" "holds REBINDING l start u'"
      "unat l - unat (c_t2 u') = (unat l - unat (c_t2 u)) - (unat l - unat (c_t2 u)) div 2"
      using rebinding_turn(2) [OF e(5,2)] e(3,6) by auto
    have "ends_with es u' (Suc k) (given_up l start)"
      by (rule Suc.IH [OF u'(2)]) (use u'(3) halved [OF Suc.prems(2)] e(1) e(4) [OF u'(1)] Suc.prems(4) in simp_all)
    then show ?thesis unfolding e(1) by (rule ends_with_later [OF u'(1)])
  qed
qed

section \<open>Renewing\<close>

lemma renewing_turn:
  assumes u: "holds st l start u" "st \<in> {BOUND, RENEWING}" and now: "ct_now env = c_timeout u"
  shows "unat (c_t2 u) - unat (c_t1 u) \<le> unat l div 14400 + 1 \<Longrightarrow>
      \<exists>u'. timeout_turn env u = Some (C_loop u') \<and> holds REBINDING l start u' \<and> c_t2 u' = c_t2 u"
    and "\<not> unat (c_t2 u) - unat (c_t1 u) \<le> unat l div 14400 + 1 \<Longrightarrow>
      \<exists>u'. timeout_turn env u = Some (C_loop u') \<and> holds RENEWING l start u' \<and> c_t2 u' = c_t2 u
        \<and> unat (c_t2 u) - unat (c_t1 u') = (unat (c_t2 u) - unat (c_t1 u)) - (unat (c_t2 u) - unat (c_t1 u)) div 2"
proof -
  define v where "v = (if st = BOUND then change_mode LISTEN_KERNEL (u\<lparr>c_state := RENEWING\<rparr>) else u)"
  have turn: "timeout_turn env u = map_option C_loop (timeout_renewing env v)"
    using u by (auto simp: holds_def timeout_turn_def v_def)
  have v: "holds RENEWING l start v" "c_t1 v = c_t1 u" "c_t2 v = c_t2 u" "c_timeout v = c_timeout u"
    using u by (auto simp: holds_def v_def client_inv_def change_mode_def)
  have f: "client_inv v" "c_state v = RENEWING" "c_lease v = Some l" "cc_script (client_config v) \<noteq> None"
    "c_start v = start" "c_t2 v \<le> l" "c_timeout v = c_t1 v + start" "c_t1 v \<le> c_t2 v" using v(1) by (simp_all add: holds_def)
  have t: "unat (c_t1 v) \<le> unat (c_t2 v)" "unat (c_t2 v - c_t1 v) = unat (c_t2 v) - unat (c_t1 v)"
    using f(8) by (simp_all add: word_le_nat_alt unat_sub)
  have test: "c_t2 v - c_t1 v \<le> l div 14400 + 1 \<longleftrightarrow> unat (c_t2 u) - unat (c_t1 u) \<le> unat l div 14400 + 1"
    using t(2) v by (simp add: word_le_nat_alt unat_slack)
  show "\<exists>u'. timeout_turn env u = Some (C_loop u') \<and> holds REBINDING l start u' \<and> c_t2 u' = c_t2 u"
    if "unat (c_t2 u) - unat (c_t1 u) \<le> unat l div 14400 + 1"
  proof -
    let ?u = "v\<lparr>c_state := REBINDING, c_timeout := ct_now env + (c_t2 v - c_t1 v)\<rparr>"
    have "timeout_turn env u = Some (C_loop ?u)" using f(3) that test turn by (simp add: timeout_renewing_def)
    moreover have "holds REBINDING l start ?u"
      using f now v(4) by (auto simp: holds_def client_inv_def)
    ultimately show ?thesis using v(3) by (intro exI [of _ ?u]) simp
  qed
  show "\<exists>u'. timeout_turn env u = Some (C_loop u') \<and> holds RENEWING l start u' \<and> c_t2 u' = c_t2 u
        \<and> unat (c_t2 u) - unat (c_t1 u') = (unat (c_t2 u) - unat (c_t1 u)) - (unat (c_t2 u) - unat (c_t1 u)) div 2"
    if long: "\<not> unat (c_t2 u) - unat (c_t1 u) \<le> unat l div 14400 + 1"
  proof -
    have cfg: "client_ok (client_config v)" using f(1) by (simp add: client_inv_def)
    obtain u1 where u1: "transmit (\<lambda>e. send_renew (client_config v) e (c_xid v) (server_addr v) (requested_ip v)) v = Some u1"
      "sent_from v u1" using transmit_returns sends_return(3) [OF cfg] by metis
    let ?t = "(c_t2 v - c_t1 v) div 2 + c_t1 v"
    let ?u = "u1\<lparr>c_t1 := ?t, c_timeout := ?t + c_start v\<rparr>"
    have m: "unat ?t = unat (c_t1 v) + (unat (c_t2 v) - unat (c_t1 v)) div 2" by (rule unat_midpoint [OF f(8)])
    then have "?t \<le> c_t2 v" using t(1) by (simp add: word_le_nat_alt)
    then have "holds RENEWING l start ?u"
      using f sent_from_inv [OF u1(2)] sent_from_simps [OF u1(2)] by (simp add: holds_def)
    moreover have "timeout_turn env u = Some (C_loop ?u)"
      using f(3) long test u1(1) turn by (simp add: timeout_renewing_def Let_def)
    moreover have "unat (c_t2 u) - unat ?t = (unat (c_t2 u) - unat (c_t1 u)) - (unat (c_t2 u) - unat (c_t1 u)) div 2"
      unfolding m using v(2,3) by simp
    ultimately show ?thesis using v(3) sent_from_simps(9) [OF u1(2)] by (intro exI [of _ ?u]) simp
  qed
qed

lemma renewing_ends:
  assumes "holds st l start u" "st \<in> {BOUND, RENEWING}"
    and "unat (c_t2 u) - unat (c_t1 u) \<le> (unat l div 14400 + 1) * 2 ^ k"
    and "unat l - unat (c_t2 u) \<le> (unat l div 14400 + 1) * 2 ^ j"
    and "on_time envs u" "k + j + 1 < length envs"
  shows "ends_with envs u (k + j + 2) (given_up l start)"
  using assms
proof (induction k arbitrary: u envs st)
  case 0
  have "0 < length envs" using "0.prems"(6) by linarith
  then obtain env es u1 where e: "envs = env # es" "ct_now env = c_timeout u1" "turn_client env u = timeout_turn env u1"
    "\<And>u'. turn_client env u = Some (C_loop u') \<Longrightarrow> on_time es u'"
    "holds st l start u1" "c_t1 u1 = c_t1 u" "c_t2 u1 = c_t2 u"
    by (rule on_time_turn [OF "0.prems"(5) _ "0.prems"(1)]) blast
  obtain u' where u': "turn_client env u = Some (C_loop u')" "holds REBINDING l start u'" "c_t2 u' = c_t2 u"
    using renewing_turn(1) [OF e(5) "0.prems"(2) e(2)] "0.prems"(3) e by auto
  have "ends_with es u' (Suc j) (given_up l start)"
    by (rule rebinding_ends [OF u'(2)]) (use u' "0.prems"(4,6) e(1) e(4) [OF u'(1)] in simp_all)
  from ends_with_later [OF u'(1) this] show ?case using e(1) by simp
next
  case (Suc k)
  have "0 < length envs" using Suc.prems(6) by linarith
  then obtain env es u1 where e: "envs = env # es" "ct_now env = c_timeout u1" "turn_client env u = timeout_turn env u1"
    "\<And>u'. turn_client env u = Some (C_loop u') \<Longrightarrow> on_time es u'"
    "holds st l start u1" "c_t1 u1 = c_t1 u" "c_t2 u1 = c_t2 u"
    by (rule on_time_turn [OF Suc.prems(5) _ Suc.prems(1)]) blast
  show ?case
  proof (cases "unat (c_t2 u) - unat (c_t1 u) \<le> unat l div 14400 + 1")
    case True
    then obtain u' where u': "turn_client env u = Some (C_loop u')" "holds REBINDING l start u'" "c_t2 u' = c_t2 u"
      using renewing_turn(1) [OF e(5) Suc.prems(2) e(2)] e by auto
    have "ends_with es u' (Suc j) (given_up l start)"
      by (rule rebinding_ends [OF u'(2)]) (use u' Suc.prems(4,6) e(1) e(4) [OF u'(1)] in simp_all)
    from ends_with_mono [OF ends_with_later [OF u'(1) this]] show ?thesis using e(1) by simp
  next
    case False
    then obtain u' where u': "turn_client env u = Some (C_loop u')" "holds RENEWING l start u'" "c_t2 u' = c_t2 u"
      "unat (c_t2 u) - unat (c_t1 u') = (unat (c_t2 u) - unat (c_t1 u)) - (unat (c_t2 u) - unat (c_t1 u)) div 2"
      using renewing_turn(2) [OF e(5) Suc.prems(2) e(2)] e by auto
    have "ends_with es u' (k + j + 2) (given_up l start)"
      by (rule Suc.IH [OF u'(2)])
        (use u' halved [OF Suc.prems(3)] Suc.prems(4,6) e(1) e(4) [OF u'(1)] in simp_all)
    from ends_with_later [OF u'(1) this] show ?thesis using e(1) by simp
  qed
qed

section \<open>A lease is given up in time\<close>

text \<open>The state after an acknowledgement.\<close>

lemma ack_holds:
  assumes u: "client_inv u" "for_us u" "ack_lease (c_packet u) = Some l" "cc_script (client_config u) \<noteq> None"
    and ack: "handle_ack env u = Some (C_loop u')" and l: "unat l * 7 < 2 ^ 32"
  shows "holds BOUND l (ct_now env) u'" "c_t1 u' = l div 2" "c_t2 u' = drop_bit 3 (l * 7)"
proof -
  have "u' = acked env l u \<or> u' = (acked env l u)\<lparr>client_config := (client_config u)\<lparr>cc_foreground := True\<rparr>\<rparr>"
    using ack u(2) unfolding handle_ack_eq [OF u(3)]
    by (auto simp: background_def exit_client_def Let_def acked_simps split: if_splits)
  then have f: "c_t1 u' = l div 2" "c_t2 u' = drop_bit 3 (l * 7)" "c_start u' = ct_now env" "c_lease u' = Some l"
    "c_timeout u' = l div 2 + ct_now env" "c_state u' = BOUND" "cc_script (client_config u') \<noteq> None" "client_inv u'"
    using u(4) acked_inv [OF u(1), of env l] by (auto simp: acked_simps client_inv_def client_ok_def)
  have n: "unat (l div 2) = unat l div 2" "unat (drop_bit 3 (l * 7)) = unat l * 7 div 8"
    using unat_seven_eighths [OF l] by (simp_all add: unat_div)
  have "l div 2 \<le> drop_bit 3 (l * 7)" "drop_bit 3 (l * 7) \<le> l"
    unfolding word_le_nat_alt n by linarith+
  with f show "holds BOUND l (ct_now env) u'" "c_t1 u' = l div 2" "c_t2 u' = drop_bit 3 (l * 7)"
    by (simp_all add: holds_def)
qed

text \<open>C7:
  A client that got a lease and then hears nothing more gives its address up: after at most 26 time-outs it is back in the
  state where it looks for a server and has run the script that takes the address from the interface, and this is not
  later than the end of the lease. The condition on the length of the lease is needed: from 613566757 seconds on the
  product with 7 wraps around, and the time for rebinding lies before the time for renewing.
\<close>

theorem silent_client_gives_address_up:
  assumes "client_inv u" "for_us u" "ack_lease (c_packet u) = Some l" "cc_script (client_config u) \<noteq> None"
    and "handle_ack env u = Some (C_loop u')" "unat l * 7 < 2 ^ 32"
    and "on_time envs u'" "26 \<le> length envs"
  shows "\<exists>n \<le> 26. \<exists>u''. run client_step (take n envs) (C_loop u') = Some (C_loop u'')
    \<and> c_state u'' = INIT_SELECTING \<and> last (c_out u'') = Script ''deconfig'' None \<and> c_timeout u'' - ct_now env \<le> l"
proof -
  note h = ack_holds [OF assms(1-6)]
  have n: "unat (c_t1 u') = unat l div 2" "unat (c_t2 u') = unat l * 7 div 8"
    using unat_seven_eighths [OF assms(6)] h by (simp_all add: unat_div)
  have g: "unat (c_t2 u') - unat (c_t1 u') \<le> (unat l div 14400 + 1) * 2 ^ 13"
    "unat l - unat (c_t2 u') \<le> (unat l div 14400 + 1) * 2 ^ 11" unfolding n by (rule timer_gaps)+
  have "ends_with envs u' (13 + 11 + 2) (given_up l (ct_now env))"
    by (rule renewing_ends [OF h(1) _ g assms(7)]) (use assms(8) in simp_all)
  then show ?thesis by (auto simp: ends_with_def given_up_def)
qed

section \<open>An example\<close>

definition example_client_config :: client_config_t where
  "example_client_config =
     \<lparr>cc_foreground = True, cc_quit_after_lease = False, cc_abort_if_no_lease = False, cc_background_if_no_lease = False,
      cc_interface = ''eth1'', cc_script = Some DEFAULT_SCRIPT, cc_clientid = [0x3d, 7, 1, 2, 0, 0, 0, 0, 7],
      cc_hostname = None, cc_ifindex = 2, cc_arp = [2, 0, 0, 0, 0, 7]\<rparr>"

definition example_client :: "client_state \<Rightarrow> dhcpMessage \<Rightarrow> udhcpc" where
  "example_client st p =
     \<lparr>client_config = example_client_config, c_state = st, requested_ip = 0, server_addr = 0, c_timeout = 0,
      packet_num = 0, c_fd = False, listen_mode = mode_of st, bootp_cnt_offer = 0, c_t1 = 0, c_t2 = 0, c_xid = 5,
      c_start = 0, c_lease = None, c_packet = p, os_xid = (\<lambda>n. 5), n_xid = 0, os_csend = (\<lambda>n. good_send), n_csend = 0,
      c_out = []\<rparr>"

lemma example_client_inv:
  "length p = 548 \<Longrightarrow> st \<notin> {BOUND, RENEWING, REBINDING} \<Longrightarrow> client_inv (example_client st p)"
  by (simp add: client_inv_def example_client_def example_client_config_def client_ok_def opt_ok_def dhcp_codes)

definition hour_ack :: dhcpMessage where
  "hour_ack = example_message [[53, 1, 5], [51, 4, 0, 0, 0x0E, 0x10]]"

lemma hour_ack_ok: "msg_ok hour_ack [[53, 1, 5], [51, 4, 0, 0, 0x0E, 0x10]]" "sub_buf hour_ack 28 6 = [2, 0, 0, 0, 0, 7]"
  "length hour_ack = 548"
proof -
  have "list_all opt_ok [[53, 1, 5], [51, 4, 0, 0, 0x0E, 0x10]]" "client_opts [[53, 1, 5], [51, 4, 0, 0, 0x0E, 0x10]]"
    by (simp_all add: opt_ok_def client_opts_def dhcp_codes)
  from example_message_ok [OF this] show "msg_ok hour_ack [[53, 1, 5], [51, 4, 0, 0, 0x0E, 0x10]]" by (simp add: hour_ack_def)
  then show "length hour_ack = 548" by (rule msg_ok_length)
  show "sub_buf hour_ack 28 6 = [2, 0, 0, 0, 0, 7]" by (simp add: hour_ack_def example_message_def example_mac_def sub_buf_def)
qed

lemma hour_ack_lease: "ack_lease hour_ack = Some 3600"
proof (rule c_get_option_ok [OF hour_ack_ok(1), of DHCP_LEASE_TIME])
  fix k
  assume k: "c_get_option hour_ack DHCP_LEASE_TIME = Some k"
    "k = None \<longleftrightarrow> opt_data [[53, 1, 5], [51, 4, 0, 0, 0x0E, 0x10]] DHCP_LEASE_TIME = None"
    "\<And>j. k = Some j \<Longrightarrow> \<exists>b. opt_data [[53, 1, 5], [51, 4, 0, 0, 0x0E, 0x10]] DHCP_LEASE_TIME = Some b
        \<and> (DHCP_LEASE_TIME \<in> {DHCP_REQUESTED_IP, DHCP_LEASE_TIME, DHCP_SERVER_ID} \<longrightarrow> rd32 hour_ack j = Some (be32 b))
        \<and> (DHCP_LEASE_TIME = DHCP_MESSAGE_TYPE \<longrightarrow> rd8 hour_ack j = Some (b ! 0))"
  have d: "opt_data [[53, 1, 5], [51, 4, 0, 0, 0x0E, 0x10]] DHCP_LEASE_TIME = Some [0, 0, 0x0E, 0x10]"
    by (simp add: opt_data_def dhcp_codes)
  obtain j where j: "k = Some j" using k(2) d by (cases k) auto
  have "be32 [0, 0, 0x0E, 0x10] = 3600" by (simp add: be32_def mk32_def)
  then show ?thesis using k(1) k(3) [OF j] d j by (simp add: ack_lease_def)
qed (simp_all add: dhcp_codes)

lemma on_time_exists: "\<exists>envs. length envs = n \<and> on_time envs u"
proof (induction n arbitrary: u)
  case 0
  then show ?case by simp
next
  case (Suc n)
  let ?env = "client_turn_at Cw_timeout (c_timeout u) None"
  have s: "silent ?env" by (simp add: silent_def client_turn_at_def listen_socket_def raw_socket_def)
  define u1 where "u1 = (case turn_client ?env u of Some (C_loop v) \<Rightarrow> v | _ \<Rightarrow> u)"
  obtain envs where "length envs = n" "on_time envs u1" using Suc.IH by blast
  then show ?case
    using s by (intro exI [of _ "?env # envs"]) (auto simp: u1_def client_turn_at_def)
qed

theorem silent_client_gives_address_up_witness:
  "\<exists>u' envs n u''. handle_ack (client_turn_at (Cw_ready True False) 100 None) (example_client REQUESTING hour_ack) = Some (C_loop u')
    \<and> on_time envs u' \<and> n \<le> 26 \<and> run client_step (take n envs) (C_loop u') = Some (C_loop u'')
    \<and> c_state u'' = INIT_SELECTING \<and> c_timeout u'' - 100 \<le> 3600"
proof -
  let ?env = "client_turn_at (Cw_ready True False) 100 None" and ?u = "example_client REQUESTING hour_ack"
  have inv: "client_inv ?u" using hour_ack_ok(3) by (simp add: example_client_inv)
  have u: "for_us ?u" "ack_lease (c_packet ?u) = Some 3600" "cc_script (client_config ?u) \<noteq> None"
    using hour_ack_ok(2) hour_ack_lease by (simp_all add: for_us_def example_client_def example_client_config_def)
  have a: "handle_ack ?env ?u = Some (C_loop (acked ?env 3600 ?u))"
    using u(1) by (simp add: handle_ack_eq [OF u(2)]) (simp add: example_client_def example_client_config_def)
  obtain envs where e: "length envs = 26" "on_time envs (acked ?env 3600 ?u)" using on_time_exists by blast
  have t: "ct_now ?env = 100" by (simp add: client_turn_at_def)
  have "unat (3600 :: u32) * 7 < 2 ^ 32" "26 \<le> length envs" using e(1) by simp_all
  from silent_client_gives_address_up [OF inv u a this(1) e(2) this(2)] show ?thesis
    unfolding t using a e(2) by blast
qed

end
