(* ===== verification/Dhcp_Handshake.thy ===== *)
theory Dhcp_Handshake
  imports Dhcpc_Lease
begin

text \<open>
  The DHCP client and the DHCP server together: a network that delivers the messages of the client to the server and
  the replies of the server to the client, and the four steps in which a client gets an address.
\<close>

section \<open>The network\<close>

definition net_messages :: "client_out list \<Rightarrow> dhcpMessage list" where
  "net_messages outs = List.map_filter (\<lambda>x. case x of Net d \<Rightarrow> out_message d | _ \<Rightarrow> None) outs"

fun run_messages :: "client_run \<Rightarrow> dhcpMessage list" where
  "run_messages (C_loop u) = net_messages (c_out u)"
| "run_messages (C_exit k u) = net_messages (c_out u)"

record network =
  n_client :: client_run
  n_server :: dhcpd
  n_wire :: "dhcpMessage list"

text \<open>The packet that carries a reply of the server, as \<open>send_packet_to_client\<close> builds it.\<close>

definition frame_of :: "dhcpd \<Rightarrow> dhcpMessage \<Rightarrow> u8 list" where
  "frame_of s p =
     udp_dhcp_packet p (sc_server (server_config s)) SERVER_PORT (fst (client_addr p False)) CLIENT_PORT"

text \<open>A turn of the client: it gets the next reply that is on the wire, or nothing until its time is over. The server then
  handles what the client has sent in this turn, and its replies are put on the wire.\<close>

definition wired_turn :: "client_turn \<Rightarrow> network \<Rightarrow> client_turn" where
  "wired_turn env n =
     (case n_wire n of
        [] \<Rightarrow> env\<lparr>ct_wake := Cw_timeout\<rparr>
      | p # ps \<Rightarrow> env\<lparr>ct_wake := Cw_ready True False, ct_frame := Some (frame_of (n_server n) p)\<rparr>)"

definition network_turn :: "client_turn \<Rightarrow> network \<Rightarrow> network option" where
  "network_turn env n =
     do { r \<leftarrow> client_step (wired_turn env n) (n_client n);
          let sent = drop (length (run_messages (n_client n))) (run_messages r);
          s \<leftarrow> run serve_datagram (map Some sent) (n_server n);
          Some \<lparr>n_client = r, n_server = s,
                n_wire = drop 1 (n_wire n) @ drop (length (replies (n_server n))) (replies s)\<rparr> }"

section \<open>The server on a message of the client\<close>

lemma net_messages_append [simp]: "net_messages (xs @ ys) = net_messages xs @ net_messages ys"
  by (simp add: net_messages_def List.map_filter_def)

lemma net_messages_simps [simp]:
  "net_messages [] = []" "net_messages (map Net ds) = List.map_filter out_message ds"
  "net_messages [Script name p] = []" "net_messages [Nvram_set a b] = []"
  by (simp_all add: net_messages_def List.map_filter_def comp_def filter_map)

text \<open>The vendor option of the client is not one that the server works around.\<close>

lemma get_client_packet:
  assumes cfg: "client_ok cfg" and m: "client_message cfg type xid c ds p" "client_opts ds"
    and type: "type \<in> {DHCPDISCOVER, DHCPREQUEST, DHCPRELEASE}"
  obtains viz' where "get_packet (Some p) viz = Some (548, p, viz')"
proof -
  have ok: "msg_ok p (client_options cfg type @ ds)" by (rule client_message_ok [OF cfg m])
  then have len: "length p = 548" by (rule msg_ok_length)
  then have "as_message p = p" by (simp add: as_message_def)
  note msg = get_packet_message [of p viz, unfolded this Let_def]
  have head: "msg_cookie p = DHCP_MAGIC" "msg_op p = BOOTREQUEST"
    using client_head_fields(1,7) [OF cfg m(1)] type by (auto simp: header_op_def dhcp_types)
  have v: "find (\<lambda>d. d ! 0 = DHCP_VENDOR) (client_options cfg type @ ds) = Some vendor_id"
    using cfg by (auto simp: client_options_def client_ok_def simple_option_def vendor_id_ok(3) dhcp_codes split: option.split)
  have f: "field_is (drop 240 p) (client_options cfg type @ ds)" "\<forall>d \<in> set (client_options cfg type @ ds). d ! 0 \<noteq> DHCP_OPTION_OVER"
    using ok by (auto simp: msg_ok_def msg_options_def client_opts_def)
  have vc: "DHCP_VENDOR \<noteq> DHCP_PADDING" "DHCP_VENDOR \<noteq> DHCP_END" by (simp_all add: dhcp_codes)
  obtain k v' j where k: "get_option p DHCP_VENDOR viz = Some (k, v')" "k = Some j" "p ! (j - 1) = vendor_id ! 1"
    using get_option_any [OF len f vc, of viz] v by auto
  have "unat (p ! (j - 1)) = 11" using k(3) by (simp add: vendor_id_def)
  then have "get_packet (Some p) viz = Some (548, p, v')"
    using msg head k(1,2) len by (simp add: MSFT_98_def)
  then show ?thesis by (rule that)
qed

lemma serve_client_message:
  assumes cfg: "client_ok cfg" and m: "client_message cfg type xid c ds p" "client_opts ds"
    and type: "type \<in> {DHCPDISCOVER, DHCPREQUEST, DHCPRELEASE}" and ok: "dhcpd_ok s"
  obtains s2 where "same_env s s2" "leases s2 = leases s" "dhcpd_ok s2"
    "serve_datagram (Some p) s =
      do { (l, s3) \<leftarrow> find_lease_by_chaddr (msg_chaddr p) s2; handle_message type l p s3 }"
proof -
  obtain viz where g: "get_packet (Some p) (vizio_device s) = Some (548, p, viz)"
    by (rule get_client_packet [OF cfg m type])
  let ?s1 = "s\<lparr>vizio_device := viz\<rparr>"
  have s1: "dhcpd_ok ?s1" "same_env s ?s1" "leases ?s1 = leases s"
    using ok by (simp_all add: dhcpd_ok_def same_env_def same_conf_def max_leases_def)
  have mo: "msg_ok p (client_options cfg type @ ds)" by (rule client_message_ok [OF cfg m])
  have u: "ucast (ucast type :: u32) = type" by (rule bit_word_eqI) (auto simp: bit_simps)
  have d: "opt_data (client_options cfg type @ ds) DHCP_MESSAGE_TYPE = Some [type]"
    by (simp add: opt_data_def client_options_def simple_option_def simple_data_def u)
  obtain k s2 where k: "get_opt p DHCP_MESSAGE_TYPE ?s1 = Some (k, s2)" "dhcpd_ok ?s1 \<Longrightarrow> dhcpd_ok s2" "same_env ?s1 s2"
    "leases s2 = leases ?s1" "k = None \<longleftrightarrow> opt_data (client_options cfg type @ ds) DHCP_MESSAGE_TYPE = None"
    "\<And>j. k = Some j \<Longrightarrow> \<exists>b. opt_data (client_options cfg type @ ds) DHCP_MESSAGE_TYPE = Some b \<and> rd8 p j = Some (b ! 0)"
    by (rule get_opt_ok [OF mo, of DHCP_MESSAGE_TYPE ?s1]) (auto simp: dhcp_codes)
  obtain j where j: "k = Some j" "rd8 p j = Some type" using k(5,6) d by (cases k) auto
  show ?thesis
    by (rule that [of s2])
      (use k s1 j g same_env_trans [OF s1(2) k(3)] in \<open>simp_all add: serve_datagram_def Let_def\<close>)
qed

lemma client_opts_requests: "client_opts [request_list]"
  "client_opts [addr_option DHCP_REQUESTED_IP a, request_list]"
  "client_opts [addr_option DHCP_REQUESTED_IP a, addr_option DHCP_SERVER_ID b, request_list]"
  by (simp_all add: client_opts_def request_list_eq addr_option_def dhcp_codes)

text \<open>When sending works, an offer is sent exactly when \<open>sendOffer\<close> does not report a failure.\<close>

lemma sendOffer_good:
  assumes ok: "dhcpd_ok s" and conf: "config_ok s" and m: "msg_ok old ds" and send: "sends_ok s"
    and r: "sendOffer old s = Some (r, s')"
  shows "0 \<le> r \<or> replies s' = replies s"
proof -
  obtain y lt0 s1 where s1: "offer_address old s = Some (y, lt0, s1)" "dhcpd_ok s1" "same_env s s1"
    by (rule offer_address_ok [OF ok conf m])
  obtain p where p: "init_packet old DHCPOFFER s = Some p" "reply_to old p"
    using init_packet_ok [OF msg_ok_length [OF m], of DHCPOFFER s] by blast
  have "length (msg_chaddr p) = 16" using p(2) chaddr_length [OF m] by (simp add: reply_to_def)
  then obtain k s2 where s2: "add_lease (msg_chaddr p) y (sc_offer_time (server_config s1)) s1 = Some (k, s2)" "same_env s1 s2"
    by (rule add_lease_ok [OF s1(2), of _ y "sc_offer_time (server_config s1)"])
  obtain lt s3 where s3: "offer_lease_time old lt0 s2 = Some (lt, s3)" "same_env s2 s3"
    by (rule offer_lease_time_ok [OF m, of lt0 s2])
  have e: "replies s1 = replies s" "replies s2 = replies s"
    using s1(3) same_env_trans [OF s1(3) s2(2)] by (simp_all add: same_env_def)
  have "same_conf s s3" using same_env_conf [OF same_env_trans [OF same_env_trans [OF s1(3) s2(2)] s3(2)]] .
  then have good: "0 \<le> q" if "send_packet x b s3 = (q, t)" for x b q t
    using send send_packet_good [OF _ that] by (simp add: sends_ok_conf)
  show ?thesis
    using r p(1) s1(1) s2(1) s3(1) e good unfolding sendOffer_def
    by (auto split: if_splits Option.bind_splits)
qed

text \<open>When the server answers a DISCOVER with one message, this is an offer of an address that is in the table for the client
  afterwards.\<close>

lemma discover_answered:
  assumes ok: "dhcpd_ok s" and conf: "config_ok s" and m: "msg_ok old ds" and send: "sends_ok s"
    and s': "handle_discover old s = Some s'" "replies s' = replies s @ [p]"
  obtains y lt e where "reply DHCPOFFER old y [simple_option DHCP_LEASE_TIME lt] s p" "y \<noteq> 0"
    "lease_map (leases s') y = Some (msg_chaddr old, e)" "dhcpd_ok s'" "same_conf s s'"
proof -
  have one: "\<exists>y lt e. reply DHCPOFFER old y [simple_option DHCP_LEASE_TIME lt] s p \<and> y \<noteq> 0
      \<and> lease_map (leases s') y = Some (msg_chaddr old, e) \<and> dhcpd_ok s' \<and> same_conf s s'"
    if a: "offered old sa y s1 r s'" "same_conf s sa" "replies sa = replies s" for sa y s1 r
  proof -
    have y: "\<not> (y = 0 \<or> lease_map (leases s') y = None)"
    proof
      assume "y = 0 \<or> lease_map (leases s') y = None"
      then have "replies s' = replies sa" using a(1) by (simp add: offered_def)
      then show False using s'(2) a(3) by simp
    qed
    note o = a(1) [unfolded offered_def if_not_P [OF y]]
    obtain q lt where q: "reply DHCPOFFER old y [simple_option DHCP_LEASE_TIME lt] sa q"
      "replies s' = replies sa @ [q] \<or> r < 0 \<and> replies s' = replies sa" using o by blast
    then have "q = p" using s'(2) a(3) by auto
    then show ?thesis using q(1) o y reply_conf [OF a(2)] same_conf_trans [OF a(2)] by blast
  qed
  obtain y1 lt1 s1 r1 sb where s1: "sendOffer old s = Some (r1, sb)" "offered old s y1 s1 r1 sb"
    by (rule sendOffer_ok [OF ok conf m]) blast
  have "\<exists>y lt e. reply DHCPOFFER old y [simple_option DHCP_LEASE_TIME lt] s p \<and> y \<noteq> 0
      \<and> lease_map (leases s') y = Some (msg_chaddr old, e) \<and> dhcpd_ok s' \<and> same_conf s s'"
  proof (cases "r1 < 0")
    case False
    then have "sb = s'" using s1(1) s'(1) by (simp add: handle_discover_def)
    then show ?thesis using one [of s y1 s1 r1] s1(2) by simp
  next
    case True
    have b: "dhcpd_ok sb" "same_conf s sb" using s1(2) by (auto simp: offered_def)
    then have "config_ok sb" using conf by (simp add: config_ok_conf)
    then obtain y2 lt2 s2 r2 sc where s2: "sendOffer old sb = Some (r2, sc)" "offered old sb y2 s2 r2 sc"
      by (rule sendOffer_ok [OF b(1) _ m]) blast
    have c: "sc = s'" using True s1(1) s2(1) s'(1) by (simp add: handle_discover_def)
    have "replies sb = replies s"
    proof (cases "y1 = 0 \<or> lease_map (leases sb) y1 = None")
      case True
      then show ?thesis using s1(2) by (simp add: offered_def)
    next
      case False
      have "0 \<le> r1 \<or> replies sb = replies s" by (rule sendOffer_good [OF ok conf m send s1(1)])
      then show ?thesis using True by simp
    qed
    then show ?thesis using one [of sb y2 s2 r2] s2(2) c b(2) by simp
  qed
  then show ?thesis using that by blast
qed

section \<open>The server on a request\<close>

text \<open>A client with an entry in the table is found there, when no entry of another client begins with the same six bytes.\<close>

definition one_entry :: "u8 list \<Rightarrow> dhcpd \<Rightarrow> bool" where
  "one_entry c s \<longleftrightarrow> take 6 c \<noteq> replicate 6 0 \<and> (\<forall>l \<in> set (leases s). take 6 (l_chaddr l) = take 6 c \<longrightarrow> l_chaddr l = c)"

lemma find_client:
  assumes ok: "dhcpd_ok s" and l: "lease_map (leases s) y = Some (c, e)" and one: "one_entry c s"
    and lan: "nvram_safe_get ''lan_ipaddr'' s \<noteq> inet_ntoa y"
  obtains i where "find_lease_by_chaddr c s = Some (Some i, s)" "i < length (leases s)" "l_yiaddr (leases s ! i) = y"
proof -
  have m: "max_leases s = length (leases s)" and t: "table_ok (leases s)" using ok by (simp_all add: dhcpd_ok_def)
  obtain k where k: "k < length (leases s)" "l_yiaddr (leases s ! k) = y" "l_chaddr (leases s ! k) = c"
    using lease_map_SomeD [OF l] by blast
  let ?P = "\<lambda>l. take 6 (l_chaddr l) = take 6 c"
  obtain r where r: "scan ?P (length (leases s)) (leases s) = Some r"
    "case r of None \<Rightarrow> \<forall>l \<in> set (leases s). \<not> ?P l
     | Some i \<Rightarrow> i < length (leases s) \<and> ?P (leases s ! i) \<and> (\<forall>j < i. \<not> ?P (leases s ! j))"
    using scan_spec [of ?P "leases s"] by blast
  obtain i where i: "r = Some i" "i < length (leases s)" "?P (leases s ! i)"
    using r(2) k nth_mem [OF k(1)] by (cases r) auto
  have "l_chaddr (leases s ! i) = c" using one i(2,3) nth_mem [OF i(2)] by (auto simp: one_entry_def)
  moreover have "c \<noteq> blank_chaddr" using one by (auto simp: one_entry_def blank_chaddr_def)
  ultimately have "i = k" using table_okD(2) [OF t i(2) k(1)] k(3) by simp
  then have y: "l_yiaddr (leases s ! i) = y" using k(2) by simp
  obtain s' where "IsLanIPAddr y s = Some (False, s')" "s' = s"
    by (rule IsLanIPAddr_ok [OF ok, of y]) (use lan in auto)
  then have "find_lease_by_chaddr c s = Some (Some i, s)" using r(1) i m y by (simp add: find_lease_by_chaddr_def)
  then show ?thesis using that i(2) y by blast
qed

lemma handle_request_known:
  assumes ok: "dhcpd_ok s" and conf: "config_ok s" and send: "sends_ok s" and m: "msg_ok p ds"
    and i: "i < length (leases s)" "l_yiaddr (leases s ! i) = y" "lease_map (leases s) y \<noteq> None" "y \<noteq> 0"
    and opts: "opt_data ds DHCP_REQUESTED_IP = Some (bytes32 y)"
      "opt_data ds DHCP_SERVER_ID = Some (bytes32 (sc_server (server_config s)))"
  shows "\<exists>s' q t. handle_request (Some i) p s = Some s' \<and> dhcpd_ok s' \<and> same_conf s s' \<and> replies s' = replies s @ [q]
    \<and> reply DHCPACK p y [simple_option DHCP_LEASE_TIME (ack_time ds s)] s q
    \<and> lease_map (leases s') y = Some (msg_chaddr p, t)"
proof -
  obtain k1 s1 where s1: "get_opt p DHCP_REQUESTED_IP s = Some (k1, s1)" "dhcpd_ok s \<Longrightarrow> dhcpd_ok s1" "same_env s s1"
    "leases s1 = leases s" "\<exists>j. k1 = Some j \<and> rd32 p j = Some y"
    by (rule get_opt_ok [OF m, of DHCP_REQUESTED_IP s]) (use opts(1) in \<open>auto simp: dhcp_codes\<close>)
  obtain k2 s2 where s2: "get_opt p DHCP_SERVER_ID s1 = Some (k2, s2)" "dhcpd_ok s1 \<Longrightarrow> dhcpd_ok s2" "same_env s1 s2"
    "leases s2 = leases s1" "\<exists>j. k2 = Some j \<and> rd32 p j = Some (sc_server (server_config s))"
    by (rule get_opt_ok [OF m, of DHCP_SERVER_ID s1]) (use opts(2) in \<open>auto simp: dhcp_codes\<close>)
  obtain k3 s3 where s3: "get_opt p DHCP_HOST_NAME s2 = Some (k3, s3)" "dhcpd_ok s2 \<Longrightarrow> dhcpd_ok s3" "same_env s2 s3"
    "leases s3 = leases s2"
    by (rule get_opt_ok [OF m, of DHCP_HOST_NAME s2]) (auto simp: dhcp_codes)
  have e3: "same_env s s3" using same_env_trans [OF s1(3) same_env_trans [OF s2(3) s3(3)]] .
  note c3 = same_env_conf [OF e3] and cfg3 = same_env_config [OF e3]
  have l3: "leases s3 = leases s" "dhcpd_ok s3" "config_ok s3" "sends_ok s3"
    using s1(2,4) s2(2,4) s3(2,4) ok conf send c3 by (simp_all add: config_ok_conf sends_ok_conf)
  obtain s4 q t where s4: "sendACK p y s3 = Some (0, s4)" "dhcpd_ok s4" "same_conf s3 s4"
    "reply DHCPACK p y [simple_option DHCP_LEASE_TIME (ack_time ds s3)] s3 q" "replies s4 = replies s3 @ [q]"
    "lease_map (leases s4) y = Some (msg_chaddr p, t)"
    by (rule sendACK_granted [OF l3(2,3) m l3(4) i(4)]) (use i(3) l3(1) in auto)
  let ?s' = "set_hostname i k3 p s4"
  have eq: "handle_request (Some i) p s = Some ?s'"
    using s1 s2 s3 s4(1) i(2) l3(1) cfg3 by (auto simp: handle_request_def known_request_def)
  have "i < length (leases s4)" using i(1) l3(1) s4(3) by (simp add: same_conf_def)
  note h = set_hostname_ok [OF s4(2) this, of k3 p]
  have "ack_time ds s3 = ack_time ds s" unfolding ack_time_def cfg3 ..
  moreover have "replies ?s' = replies s @ [q]" using h(2) s4(5) e3 by (simp add: same_env_def)
  ultimately show ?thesis
    using eq h(1,3) same_conf_trans [OF same_conf_trans [OF c3 s4(3)] same_env_conf [OF h(2)]] s4(4,6) reply_conf [OF c3]
    by auto
qed

text \<open>The request that \<open>send_selecting\<close> sends for an offered address is acknowledged.\<close>

lemma request_acknowledged:
  assumes cfg: "client_ok cfg" and ok: "dhcpd_ok s" and conf: "config_ok s" and send: "sends_ok s"
    and m: "client_message cfg DHCPREQUEST xid 0 [addr_option DHCP_REQUESTED_IP y,
        addr_option DHCP_SERVER_ID (sc_server (server_config s)), request_list] p"
    and l: "lease_map (leases s) y = Some (cc_arp cfg @ replicate 10 0, e)"
    and one: "one_entry (cc_arp cfg @ replicate 10 0) s" "nvram_safe_get ''lan_ipaddr'' s \<noteq> inet_ntoa y"
  obtains s' q t where "serve_datagram (Some p) s = Some s'" "dhcpd_ok s'" "same_conf s s'" "replies s' = replies s @ [q]"
    "reply DHCPACK p y [simple_option DHCP_LEASE_TIME (sc_lease (server_config s))] s q"
    "lease_map (leases s') y = Some (cc_arp cfg @ replicate 10 0, t)"
proof -
  let ?c = "cc_arp cfg @ replicate 10 0" and ?ds = "client_options cfg DHCPREQUEST @ [addr_option DHCP_REQUESTED_IP y,
        addr_option DHCP_SERVER_ID (sc_server (server_config s)), request_list]"
  have mo: "msg_ok p ?ds" by (rule client_message_ok [OF cfg m client_opts_requests(3)])
  have c: "msg_chaddr p = ?c" by (rule client_head_fields(6) [OF cfg m])
  have z: "cc_clientid cfg ! 0 = 0x3d" "\<And>h. cc_hostname cfg = Some h \<Longrightarrow> h ! 0 = DHCP_HOST_NAME"
    using cfg by (auto simp: client_ok_def)
  have o: "opt_data ?ds DHCP_REQUESTED_IP = Some (bytes32 y)"
    "opt_data ?ds DHCP_SERVER_ID = Some (bytes32 (sc_server (server_config s)))" "opt_data ?ds DHCP_LEASE_TIME = None"
    using z by (auto simp: opt_data_def client_options_def simple_option_def addr_option_def vendor_id_def request_list_eq
        dhcp_codes split: option.split)
  obtain s2 where s2: "same_env s s2" "leases s2 = leases s" "dhcpd_ok s2" "serve_datagram (Some p) s =
      do { (l, s3) \<leftarrow> find_lease_by_chaddr ?c s2; handle_message DHCPREQUEST l p s3 }"
    by (rule serve_client_message [OF cfg m client_opts_requests(3) _ ok]) (auto simp: c)
  note c2 = same_env_conf [OF s2(1)] and cfg2 = same_env_config [OF s2(1)]
  have f2: "config_ok s2" "sends_ok s2" using conf send c2 by (simp_all add: config_ok_conf sends_ok_conf)
  obtain i where i: "find_lease_by_chaddr ?c s2 = Some (Some i, s2)" "i < length (leases s2)" "l_yiaddr (leases s2 ! i) = y"
    by (rule find_client [OF s2(3), of y ?c e]) (use l one s2(2) nvram_same_env [OF s2(1)] in \<open>auto simp: one_entry_def\<close>)
  have y: "y \<noteq> 0" "lease_map (leases s2) y \<noteq> None" using lease_map_SomeD [OF l] l s2(2) by auto
  obtain s' q t where s': "handle_request (Some i) p s2 = Some s'" "dhcpd_ok s'" "same_conf s2 s'" "replies s' = replies s2 @ [q]"
    "reply DHCPACK p y [simple_option DHCP_LEASE_TIME (ack_time ?ds s2)] s2 q" "lease_map (leases s') y = Some (?c, t)"
    using handle_request_known [OF s2(3) f2 mo i(2,3) y(2,1) o(1)] o(2) cfg2 c by auto
  have "ack_time ?ds s2 = sc_lease (server_config s)" using o(3) cfg2 by (simp add: ack_time_def)
  moreover have "serve_datagram (Some p) s = Some s'" using s2(4) i(1) s'(1) by (simp add: handle_message_def dhcp_types)
  moreover have "replies s2 = replies s" using s2(1) by (simp add: same_env_def)
  ultimately show ?thesis using that s' same_conf_trans [OF c2 s'(3)] reply_conf [OF c2] by auto
qed

section \<open>The client's turns\<close>

definition client_sends :: "udhcpc \<Rightarrow> bool" where
  "client_sends u \<longleftrightarrow> (\<forall>k. se_socket_ok (os_csend u k) \<and> se_bind_ok (os_csend u k))"

text \<open>A turn of a client that listens on its raw socket.\<close>

lemma raw_turn:
  assumes "listen_mode u = LISTEN_RAW" "c_fd u \<or> raw_socket env"
  shows "ct_wake env = Cw_timeout \<Longrightarrow> turn_client env u = timeout_turn env (u\<lparr>c_fd := True\<rparr>)"
    and "ct_wake env = Cw_ready True b \<Longrightarrow> 0 < sint (c_timeout u - ct_uptime env) \<Longrightarrow>
      turn_client env u = receive_turn env (u\<lparr>c_fd := True\<rparr>)"
proof -
  have "c_fd u \<Longrightarrow> u\<lparr>c_fd := True\<rparr> = u" by (cases u) simp
  then have "(if listen_mode u \<noteq> LISTEN_NONE \<and> \<not> c_fd u then u\<lparr>c_fd := True\<rparr> else u) = u\<lparr>c_fd := True\<rparr>"
    using assms(1) by (metis listen.distinct(3))
  note turn = turn_client_def [of env u, unfolded Let_def this]
  have "\<not> ((listen_mode u \<noteq> LISTEN_NONE \<and> \<not> c_fd u) \<and> \<not> open_ok env u)" using assms by (auto simp: open_ok_def)
  note turn = turn [unfolded if_not_P [OF this]]
  show "ct_wake env = Cw_timeout \<Longrightarrow> turn_client env u = timeout_turn env (u\<lparr>c_fd := True\<rparr>)"
    "ct_wake env = Cw_ready True b \<Longrightarrow> 0 < sint (c_timeout u - ct_uptime env) \<Longrightarrow>
      turn_client env u = receive_turn env (u\<lparr>c_fd := True\<rparr>)"
    unfolding turn using assms(1) by simp_all
qed

lemma transmit_broadcast:
  assumes "client_sends u" "send (os_csend u (n_csend u)) = Some (broadcast cfg (os_csend u (n_csend u)) p)"
  obtains u' where "transmit send u = Some u'" "sent_from u u'" "net_messages (c_out u') = net_messages (c_out u) @ [p]"
    "os_csend u' = os_csend u"
proof -
  let ?e = "os_csend u (n_csend u)"
  have "List.map_filter out_message (broadcast cfg ?e p) = [p]"
    using assms(1) by (simp add: client_sends_def broadcast_def raw_packet_def List.map_filter_simps out_message_raw)
  then show ?thesis
    by (intro that [of "u\<lparr>n_csend := Suc (n_csend u), c_out := c_out u @ map Net (broadcast cfg ?e p)\<rparr>"])
      (use assms(2) in \<open>auto simp: transmit_def sent_from_def\<close>)
qed

lemma discover_turn:
  assumes u: "client_inv u" "c_state u = INIT_SELECTING" "packet_num u = 0" "client_sends u"
    and env: "ct_wake env = Cw_timeout" "c_fd u \<or> raw_socket env"
  obtains u' p ds where "turn_client env u = Some (C_loop u')" "client_inv u'" "c_state u' = INIT_SELECTING"
    "client_config u' = client_config u" "c_fd u'" "client_sends u'" "c_timeout u' = ct_now env + 2"
    "net_messages (c_out u') = net_messages (c_out u) @ [p]"
    "client_message (client_config u) DHCPDISCOVER (c_xid u') 0 ds p" "client_opts ds"
proof -
  have cfg: "client_ok (client_config u)" and mode: "listen_mode u = LISTEN_RAW" using u by (simp_all add: client_inv_def)
  define u1 where "u1 = (snd (random_xid (u\<lparr>c_fd := True\<rparr>)))\<lparr>c_xid := fst (random_xid (u\<lparr>c_fd := True\<rparr>))\<rparr>"
  let ?ds = "(if requested_ip u \<noteq> 0 then [addr_option DHCP_REQUESTED_IP (requested_ip u)] else []) @ [request_list]"
  have u1: "client_inv u1" "client_sends u1" "packet_num u1 = 0" "client_config u1 = client_config u" "c_out u1 = c_out u"
    "requested_ip u1 = requested_ip u" "c_state u1 = INIT_SELECTING" "c_fd u1"
    using u by (simp_all add: u1_def random_xid_def client_sends_def)
  obtain p where p: "discover_message (client_config u) (c_xid u1) (requested_ip u) = Some p"
    "client_message (client_config u) DHCPDISCOVER (c_xid u1) 0 ?ds p"
    using client_messages(1) [OF cfg] by blast
  obtain u2 where u2: "transmit (\<lambda>e. send_discover (client_config u1) e (c_xid u1) (requested_ip u1)) u1 = Some u2"
    "sent_from u1 u2" "net_messages (c_out u2) = net_messages (c_out u1) @ [p]" "os_csend u2 = os_csend u1"
    by (rule transmit_broadcast [OF u1(2), of _ "client_config u" p]) (use p u1 in \<open>simp_all add: send_discover_def\<close>)
  note f = sent_from_simps [OF u2(2)] and i = sent_from_inv [OF u2(2)]
  let ?u' = "u2\<lparr>c_timeout := ct_now env + 2, packet_num := 1\<rparr>"
  have "turn_client env u = Some (C_loop ?u')"
    using raw_turn(1) [OF mode env(2,1)] u u2(1) f(3) u1(3)
    by (simp add: timeout_turn_def timeout_selecting_def u1_def [symmetric] case_prod_unfold)
  moreover have "client_inv ?u'" using i u1(1) by (simp add: client_inv_def)
  moreover have "client_opts ?ds" by (simp add: client_opts_requests)
  ultimately show ?thesis
    using u1 u2(3,4) p(2) f by (intro that [of ?u' p ?ds]) (simp_all add: client_sends_def)
qed

lemma request_turn:
  assumes u: "client_inv u" "c_state u = REQUESTING" "packet_num u = 0" "client_sends u" "c_fd u"
    and env: "ct_wake env = Cw_timeout"
  obtains u' p where "turn_client env u = Some (C_loop u')" "client_inv u'" "c_state u' = REQUESTING"
    "client_config u' = client_config u" "c_fd u'" "c_timeout u' = ct_now env + 2" "c_xid u' = c_xid u"
    "server_addr u' = server_addr u" "net_messages (c_out u') = net_messages (c_out u) @ [p]"
    "client_message (client_config u) DHCPREQUEST (c_xid u) 0
       [addr_option DHCP_REQUESTED_IP (requested_ip u), addr_option DHCP_SERVER_ID (server_addr u), request_list] p"
proof -
  have cfg: "client_ok (client_config u)" and mode: "listen_mode u = LISTEN_RAW" using u by (simp_all add: client_inv_def)
  have fd: "u\<lparr>c_fd := True\<rparr> = u" using u(5) by (cases u) simp
  obtain p where p: "selecting_message (client_config u) (c_xid u) (server_addr u) (requested_ip u) = Some p"
    "client_message (client_config u) DHCPREQUEST (c_xid u) 0
       [addr_option DHCP_REQUESTED_IP (requested_ip u), addr_option DHCP_SERVER_ID (server_addr u), request_list] p"
    using client_messages(2) [OF cfg] by blast
  obtain u2 where u2: "transmit (\<lambda>e. send_selecting (client_config u) e (c_xid u) (server_addr u) (requested_ip u)) u = Some u2"
    "sent_from u u2" "net_messages (c_out u2) = net_messages (c_out u) @ [p]" "os_csend u2 = os_csend u"
    by (rule transmit_broadcast [OF u(4), of _ "client_config u" p]) (use p in \<open>simp_all add: send_selecting_def\<close>)
  note f = sent_from_simps [OF u2(2)] and i = sent_from_inv [OF u2(2)]
  let ?u' = "u2\<lparr>c_timeout := ct_now env + 2, packet_num := 1\<rparr>"
  have "turn_client env u = Some (C_loop ?u')"
    using raw_turn(1) [OF mode _ env] fd u u2(1) f(3) by (simp add: timeout_turn_def timeout_requesting_def)
  moreover have "client_inv ?u'" using i u(1) by (simp add: client_inv_def)
  ultimately show ?thesis
    using u u2(3,4) p(2) f by (intro that [of ?u' p]) simp_all
qed

section \<open>The client on a reply of the server\<close>

lemma c_reads:
  assumes p: "length p = 548" "field_is (msg_options p) ds" "\<forall>d \<in> set ds. d ! 0 \<noteq> DHCP_OPTION_OVER"
    and code: "code \<noteq> DHCP_PADDING" "code \<noteq> DHCP_END" and d: "find (\<lambda>d. d ! 0 = code) ds = Some d"
  obtains j where "c_get_option p code = Some (Some j)" "sub_buf p j (length d - 2) = drop 2 d" "j + (length d - 2) \<le> 548"
proof -
  have f: "field_is (drop 240 p) ds" using p(2) by (simp add: msg_options_def)
  obtain k v j where "get_option p code False = Some (k, v)"
    "k = Some j" "sub_buf p j (length d - 2) = drop 2 d" "j + (length d - 2) \<le> 548"
    using get_option_any [OF p(1) f p(3) code, of False] d by auto
  then show ?thesis
    by (intro that [of j]) (auto simp: c_get_option_def get_option_def dest: c_get_option_loop_eq)
qed

lemma rd_sub_buf:
  "length p = 548 \<Longrightarrow> sub_buf p j 4 = bytes32 w \<Longrightarrow> j + 4 \<le> 548 \<Longrightarrow> rd32 p j = Some w"
  "length p = 548 \<Longrightarrow> sub_buf p j 1 = [b] \<Longrightarrow> j + 1 \<le> 548 \<Longrightarrow> rd8 p j = Some b"
  using msg32_sub_buf [of j p w] by (auto simp: rd32_def msg32_def rd8_def sub_buf_def take_Suc hd_drop_conv_nth)

lemma c_reads_reply:
  assumes r: "reply type old y [simple_option DHCP_LEASE_TIME lt] s p" and conf: "config_ok s"
  obtains i j k where "c_get_option p DHCP_MESSAGE_TYPE = Some (Some i)" "rd8 p i = Some type"
    "c_get_option p DHCP_SERVER_ID = Some (Some j)" "rd32 p j = Some (sc_server (server_config s))"
    "c_get_option p DHCP_LEASE_TIME = Some (Some k)" "rd32 p k = Some lt"
proof -
  let ?pre = "[simple_option DHCP_MESSAGE_TYPE (ucast type), simple_option DHCP_SERVER_ID (sc_server (server_config s)),
    simple_option DHCP_LEASE_TIME lt]"
  obtain cds where c: "field_is (msg_options p) (?pre @ cds)" "set cds \<subseteq> set (sc_options (server_config s))"
    and l: "length p = 548"
    using r by (auto simp: reply_def reply_to_def)
  have n: "\<forall>d \<in> set (?pre @ cds). d ! 0 \<noteq> DHCP_OPTION_OVER"
    using c(2) conf by (auto simp: config_ok_def simple_option_def dhcp_codes)
  note rd = c_reads [OF l c(1) n]
  have u: "ucast (ucast type :: u32) = type" by (rule bit_word_eqI) (auto simp: bit_simps)
  have f: "find (\<lambda>d. d ! 0 = DHCP_MESSAGE_TYPE) (?pre @ cds) = Some [DHCP_MESSAGE_TYPE, 1, type]"
    "find (\<lambda>d. d ! 0 = DHCP_SERVER_ID) (?pre @ cds) = Some (DHCP_SERVER_ID # 4 # bytes32 (sc_server (server_config s)))"
    "find (\<lambda>d. d ! 0 = DHCP_LEASE_TIME) (?pre @ cds) = Some (DHCP_LEASE_TIME # 4 # bytes32 lt)"
    by (simp_all add: simple_option_def simple_data_def u) (simp_all add: dhcp_codes)
  obtain i where i: "c_get_option p DHCP_MESSAGE_TYPE = Some (Some i)" "rd8 p i = Some type"
    by (rule rd [OF codes_proper(1,2) f(1)]) (use rd_sub_buf(2) [OF l] in auto)
  obtain j where j: "c_get_option p DHCP_SERVER_ID = Some (Some j)" "rd32 p j = Some (sc_server (server_config s))"
    by (rule rd [OF codes_proper(3,4) f(2)]) (use rd_sub_buf(1) [OF l] in auto)
  obtain k where k: "c_get_option p DHCP_LEASE_TIME = Some (Some k)" "rd32 p k = Some lt"
    by (rule rd [OF codes_proper(5,6) f(3)]) (use rd_sub_buf(1) [OF l] in auto)
  show ?thesis using that i j k by blast
qed

text \<open>A reply to the client's own message is for the client.\<close>

lemma reply_for_us:
  assumes r: "reply type m y ds s p" and cfg: "client_ok cfg" and m: "client_message cfg t xid 0 ds' m"
  shows "msg32 p 4 = xid" "sub_buf p 28 6 = take 6 (cc_arp cfg)" "length p = 548" "msg_cookie p = DHCP_MAGIC"
proof -
  have p: "length p = 548" "msg_xid p = bytes32 xid" "msg_chaddr p = cc_arp cfg @ replicate 10 0" "msg_cookie p = DHCP_MAGIC"
    using r client_head_fields [OF cfg m] by (simp_all add: reply_def reply_to_def)
  then show "length p = 548" "msg_cookie p = DHCP_MAGIC" by simp_all
  show "msg32 p 4 = xid" using p(1,2) by (intro msg32_sub_buf) (simp_all add: msg_xid_def)
  have "take 6 (sub_buf p 28 16) = sub_buf p 28 6" by (simp add: sub_buf_def)
  moreover have "take 6 (cc_arp cfg @ replicate 10 0) = take 6 (cc_arp cfg)" using cfg by (simp add: client_ok_def)
  ultimately show "sub_buf p 28 6 = take 6 (cc_arp cfg)" using p(3) by (simp add: msg_chaddr_def)
qed

lemma reply_turn:
  assumes u: "client_inv u" "listen_mode u = LISTEN_RAW" "c_fd u" and s: "config_ok s"
    and r: "reply type m y [simple_option DHCP_LEASE_TIME lt] s p" "client_message (client_config u) t (c_xid u) 0 ds m"
    and env: "ct_wake env = Cw_ready True False" "ct_frame env = Some (frame_of s' p)" "0 < sint (c_timeout u - ct_uptime env)"
  shows "turn_client env u = handle_answer type env (u\<lparr>c_packet := p\<rparr>)"
proof -
  have cfg: "client_ok (client_config u)" "length (c_packet u) = 548" using u by (simp_all add: client_inv_def)
  note p = reply_for_us [OF r(1) cfg(1) r(2)]
  have fd: "u\<lparr>c_fd := True\<rparr> = u" using u(3) by (cases u) simp
  have g: "get_raw_packet (ct_frame env) (c_packet u) = Some (548, p)"
    unfolding env(2) frame_of_def by (rule get_raw_packet_sent [OF p(3,4) cfg(2)])
  obtain i where i: "c_get_option p DHCP_MESSAGE_TYPE = Some (Some i)" "rd8 p i = Some type"
    by (rule c_reads_reply [OF r(1) s]) blast
  have "turn_client env u = receive_turn env u" using raw_turn(2) [OF u(2) _ env(1,3)] u(3) fd by simp
  then show ?thesis using g i p(1) u(2) by (simp add: receive_turn_def)
qed

lemma no_bootp_data:
  assumes "length p = 548" "sub_buf p 44 192 = replicate 192 0"
  shows "has_bootp_data p = Some False"
proof -
  have n: "p ! (44 + i) = 0" if "i < 192" for i
    using arg_cong [OF assms(2), of "\<lambda>xs. xs ! i"] that assms(1) by (simp add: sub_buf_def)
  have z: "drop k p = 0 # drop (Suc k) p" if "k = 44 \<or> k = 108" for k
    using n [of 0] n [of 64] that assms(1) Cons_nth_drop_Suc [of k p] by auto
  show ?thesis using z [of 44] z [of 108] by (simp add: has_bootp_data_def c_strlen_def)
qed

lemma offer_turn:
  assumes u: "client_inv u" "c_state u = INIT_SELECTING" "c_fd u" and s: "config_ok s" "no_bootp s"
    and r: "reply DHCPOFFER m y [simple_option DHCP_LEASE_TIME lt] s p" "client_message (client_config u) t (c_xid u) 0 ds m"
    and env: "ct_wake env = Cw_ready True False" "ct_frame env = Some (frame_of s' p)" "0 < sint (c_timeout u - ct_uptime env)"
  obtains u' where "turn_client env u = Some (C_loop u')" "client_inv u'" "c_state u' = REQUESTING" "requested_ip u' = y"
    "server_addr u' = sc_server (server_config s)" "packet_num u' = 0" "c_fd u'" "client_config u' = client_config u"
    "c_out u' = c_out u" "os_csend u' = os_csend u"
proof -
  have cfg: "client_ok (client_config u)" and mode: "listen_mode u = LISTEN_RAW" using u by (simp_all add: client_inv_def)
  note p = reply_for_us [OF r(1) cfg r(2)]
  let ?u = "u\<lparr>c_packet := p\<rparr>"
  obtain j where j: "c_get_option p DHCP_SERVER_ID = Some (Some j)" "rd32 p j = Some (sc_server (server_config s))"
    by (rule c_reads_reply [OF r(1) s(1)]) blast
  have b: "has_bootp_data p = Some False" using no_bootp_data [OF p(3)] r(1) s(2) by (simp add: reply_def)
  let ?u' = "u\<lparr>c_packet := p, bootp_cnt_offer := 0, server_addr := sc_server (server_config s), c_xid := msg32 p 4,
      requested_ip := y, c_state := REQUESTING, c_timeout := ct_now env, packet_num := 0\<rparr>"
  have "turn_client env u = Some (C_loop ?u')"
    unfolding reply_turn [OF u(1) mode u(3) s(1) r env]
    using u(2) b j p(2) r(1) by (simp add: handle_answer_def handle_offer_def accept_offer_def for_us_def reply_def)
  moreover have "client_inv ?u'" using u p(3) by (simp add: client_inv_def)
  ultimately show ?thesis using u(3) by (intro that [of ?u']) simp_all
qed

lemma ack_turn:
  assumes u: "client_inv u" "c_state u = REQUESTING" "c_fd u" "\<not> cc_quit_after_lease (client_config u)" and s: "config_ok s"
    and r: "reply DHCPACK m y [simple_option DHCP_LEASE_TIME lt] s p" "client_message (client_config u) t (c_xid u) 0 ds m"
    and env: "ct_wake env = Cw_ready True False" "ct_frame env = Some (frame_of s' p)" "0 < sint (c_timeout u - ct_uptime env)"
      "ct_daemon_ok env"
  obtains u' where "turn_client env u = Some (C_loop u')" "c_state u' = BOUND" "requested_ip u' = y"
    "c_lease u' = Some lt" "c_timeout u' = lt div 2 + ct_now env" "net_messages (c_out u') = net_messages (c_out u)"
proof -
  have cfg: "client_ok (client_config u)" and mode: "listen_mode u = LISTEN_RAW" using u by (simp_all add: client_inv_def)
  note p = reply_for_us [OF r(1) cfg r(2)]
  define v where "v = u\<lparr>c_packet := p\<rparr>"
  have v: "c_state v = REQUESTING" "c_packet v = p" "for_us v" "client_config v = client_config u" "c_out v = c_out u"
    using u p(2) by (simp_all add: v_def for_us_def)
  obtain k where k: "c_get_option p DHCP_LEASE_TIME = Some (Some k)" "rd32 p k = Some lt"
    by (rule c_reads_reply [OF r(1) s(1)]) blast
  then have l: "ack_lease (c_packet v) = Some lt" using v(2) by (simp add: ack_lease_def)
  define w where "w = (if cc_foreground (client_config u) then acked env lt v
      else (acked env lt v)\<lparr>client_config := (client_config u)\<lparr>cc_foreground := True\<rparr>\<rparr>)"
  have "turn_client env u = Some (C_loop w)"
    unfolding reply_turn [OF u(1) mode u(3) s(1) r env(1-3)] v_def [symmetric] w_def
    using v u(4) env(4) by (simp add: handle_answer_def handle_ack_eq [OF l] background_def acked_simps dhcp_types)
  moreover have "net_messages (c_out (acked env lt v)) = net_messages (c_out u)"
    using v by (simp add: acked_def change_mode_def run_script_def)
  moreover have "msg_yiaddr p = y" using r(1) by (simp add: reply_def)
  ultimately show ?thesis using v by (intro that [of w]) (simp_all add: w_def acked_simps)
qed

section \<open>The four steps\<close>

lemma offered_extends: "offered old s y s1 r s' \<Longrightarrow> \<exists>qs. replies s' = replies s @ qs"
  by (auto simp: offered_def split: if_splits)

lemma discover_extends:
  assumes ok: "dhcpd_ok s" and conf: "config_ok s" and m: "msg_ok old ds" and s': "handle_discover old s = Some s'"
  shows "\<exists>qs. replies s' = replies s @ qs"
proof -
  obtain y1 s1 r1 sb where b: "sendOffer old s = Some (r1, sb)" "offered old s y1 s1 r1 sb"
    by (rule sendOffer_ok [OF ok conf m]) blast
  obtain qs where qs: "replies sb = replies s @ qs" using offered_extends [OF b(2)] by blast
  show ?thesis
  proof (cases "r1 < 0")
    case False
    then show ?thesis using b(1) s' qs by (simp add: handle_discover_def)
  next
    case True
    have "dhcpd_ok sb" "config_ok sb" using b(2) conf by (auto simp: offered_def config_ok_conf)
    then obtain y2 s2 r2 sc where c: "sendOffer old sb = Some (r2, sc)" "offered old sb y2 s2 r2 sc"
      by (rule sendOffer_ok [OF _ _ m]) blast
    then have "sc = s'" using True b(1) s' by (simp add: handle_discover_def)
    then show ?thesis using offered_extends [OF c(2)] qs by auto
  qed
qed

lemma network_sends:
  assumes n: "n_client n = C_loop u" "n_wire n = []"
    and t: "turn_client (env\<lparr>ct_wake := Cw_timeout\<rparr>) u = Some (C_loop u')"
      "net_messages (c_out u') = net_messages (c_out u) @ [m]"
  shows "network_turn env n = do { s \<leftarrow> serve_datagram (Some m) (n_server n);
      Some \<lparr>n_client = C_loop u', n_server = s, n_wire = drop (length (replies (n_server n))) (replies s)\<rparr> }"
  using assms by (cases "serve_datagram (Some m) (n_server n)") (simp_all add: network_turn_def wired_turn_def)

lemma network_delivers:
  assumes n: "n_client n = C_loop u" "n_wire n = [p]"
    and t: "turn_client (env\<lparr>ct_wake := Cw_ready True False, ct_frame := Some (frame_of (n_server n) p)\<rparr>) u = Some (C_loop u')"
      "net_messages (c_out u') = net_messages (c_out u)"
  shows "network_turn env n = Some \<lparr>n_client = C_loop u', n_server = n_server n, n_wire = []\<rparr>"
  using assms by (simp add: network_turn_def wired_turn_def)

text \<open>The first step, when the server answers: the address on offer is in its table under the client.\<close>

lemma first_step:
  assumes u: "client_inv u" "c_state u = INIT_SELECTING" "packet_num u = 0" "client_sends u"
    and s: "dhcpd_ok s" "config_ok s" "sends_ok s" and e1: "raw_socket e1"
    and n1: "network_turn e1 \<lparr>n_client = C_loop u, n_server = s, n_wire = []\<rparr> = Some n1" "n_wire n1 = [p]"
  obtains u1 m ds lt e where "n_client n1 = C_loop u1" "client_inv u1" "c_state u1 = INIT_SELECTING"
    "client_config u1 = client_config u" "c_fd u1" "client_sends u1" "c_timeout u1 = ct_now e1 + 2"
    "client_message (client_config u) DHCPDISCOVER (c_xid u1) 0 ds m"
    "reply DHCPOFFER m (msg_yiaddr p) [simple_option DHCP_LEASE_TIME lt] s p"
    "lease_map (leases (n_server n1)) (msg_yiaddr p) = Some (cc_arp (client_config u) @ replicate 10 0, e)"
    "dhcpd_ok (n_server n1)" "same_conf s (n_server n1)"
proof -
  have cfg: "client_ok (client_config u)" using u(1) by (simp add: client_inv_def)
  let ?e = "e1\<lparr>ct_wake := Cw_timeout\<rparr>"
  have e: "ct_wake ?e = Cw_timeout" "c_fd u \<or> raw_socket ?e" using e1 by (simp_all add: raw_socket_def split: if_splits)
  obtain u1 m ds where u1: "turn_client ?e u = Some (C_loop u1)" "client_inv u1" "c_state u1 = INIT_SELECTING"
    "client_config u1 = client_config u" "c_fd u1" "client_sends u1" "c_timeout u1 = ct_now ?e + 2"
    "net_messages (c_out u1) = net_messages (c_out u) @ [m]"
    "client_message (client_config u) DHCPDISCOVER (c_xid u1) 0 ds m" "client_opts ds"
    by (rule discover_turn [OF u e])
  have mo: "msg_ok m (client_options (client_config u) DHCPDISCOVER @ ds)" by (rule client_message_ok [OF cfg u1(9,10)])
  have c: "msg_chaddr m = cc_arp (client_config u) @ replicate 10 0" by (rule client_head_fields(6) [OF cfg u1(9)])
  obtain s2 where s2: "same_env s s2" "dhcpd_ok s2" "serve_datagram (Some m) s =
      do { (l, s3) \<leftarrow> find_lease_by_chaddr (msg_chaddr m) s2; handle_message DHCPDISCOVER l m s3 }"
    by (rule serve_client_message [OF cfg u1(9,10) _ s(1)]) auto
  obtain l s3 where s3: "find_lease_by_chaddr (msg_chaddr m) s2 = Some (l, s3)" "dhcpd_ok s3" "same_env s2 s3"
    by (rule find_lease_by_chaddr_ok [OF s2(2)])
  have e3: "same_env s s3" by (rule same_env_trans [OF s2(1) s3(3)])
  note c3 = same_env_conf [OF e3]
  have f3: "config_ok s3" "sends_ok s3" using s(2,3) c3 by (simp_all add: config_ok_conf sends_ok_conf)
  have serve: "serve_datagram (Some m) s = handle_discover m s3"
    using s2(3) s3(1) by (simp add: handle_message_def)
  have "network_turn e1 \<lparr>n_client = C_loop u, n_server = s, n_wire = []\<rparr> = do { s' \<leftarrow> handle_discover m s3;
      Some \<lparr>n_client = C_loop u1, n_server = s', n_wire = drop (length (replies s)) (replies s')\<rparr> }"
    unfolding serve [symmetric] using network_sends [of "\<lparr>n_client = C_loop u, n_server = s, n_wire = []\<rparr>", OF _ _ u1(1,8)] by simp
  with n1 obtain s' where s': "handle_discover m s3 = Some s'" "drop (length (replies s)) (replies s') = [p]"
    "n1 = \<lparr>n_client = C_loop u1, n_server = s', n_wire = [p]\<rparr>"
    by (cases "handle_discover m s3") auto
  have "replies s3 = replies s" using e3 by (simp add: same_env_def)
  then have "replies s' = replies s3 @ [p]"
    using discover_extends [OF s3(2) f3(1) mo s'(1)] s'(2) by auto
  then obtain y lt e where y: "reply DHCPOFFER m y [simple_option DHCP_LEASE_TIME lt] s3 p"
    "lease_map (leases s') y = Some (msg_chaddr m, e)" "dhcpd_ok s'" "same_conf s3 s'"
    by (rule discover_answered [OF s3(2) f3(1) mo f3(2) s'(1)])
  have "msg_yiaddr p = y" using y(1) by (simp add: reply_def)
  then show ?thesis
    using u1 y s'(3) c reply_conf [OF c3] same_conf_trans [OF c3 y(4)] by (intro that [of u1 ds m lt e]) auto
qed

text \<open>C6:
  The DHCP client and the DHCP server together. When the server answers the DISCOVER of a client with an offer, the client
  is configured three steps later: it takes the offer, asks for the address, and the server, which has kept the address
  for it, acknowledges. Then both agree: the client uses the address that was offered and will renew it after half of
  the lease time of the server, and the table of the server has this address under the hardware address of the client.
  The client and the server have read each other's messages from the bytes that were sent.
\<close>

theorem handshake_gives_address:
  assumes u: "client_inv u" "c_state u = INIT_SELECTING" "packet_num u = 0" "client_sends u"
      "\<not> cc_quit_after_lease (client_config u)"
    and s: "dhcpd_ok s" "config_ok s" "sends_ok s" "no_bootp s"
    and n1: "network_turn e1 \<lparr>n_client = C_loop u, n_server = s, n_wire = []\<rparr> = Some n1" "n_wire n1 = [p]"
    and one: "one_entry (cc_arp (client_config u) @ replicate 10 0) (n_server n1)"
      "nvram_safe_get ''lan_ipaddr'' s \<noteq> inet_ntoa (msg_yiaddr p)"
    and turns: "raw_socket e1" "0 < sint (ct_now e1 + 2 - ct_uptime e2)" "0 < sint (ct_now e3 + 2 - ct_uptime e4)"
      "ct_daemon_ok e4"
  shows "\<exists>u' s' t. run network_turn [e2, e3, e4] n1 = Some \<lparr>n_client = C_loop u', n_server = s', n_wire = []\<rparr>
    \<and> c_state u' = BOUND \<and> requested_ip u' = msg_yiaddr p \<and> c_lease u' = Some (sc_lease (server_config s))
    \<and> c_timeout u' = sc_lease (server_config s) div 2 + ct_now e4
    \<and> lease_map (leases s') (msg_yiaddr p) = Some (cc_arp (client_config u) @ replicate 10 0, t)"
proof -
  let ?y = "msg_yiaddr p" and ?c = "cc_arp (client_config u) @ replicate 10 0" and ?s1 = "n_server n1"
  obtain u1 m ds lt e where u1: "n_client n1 = C_loop u1" "client_inv u1" "c_state u1 = INIT_SELECTING"
    "client_config u1 = client_config u" "c_fd u1" "client_sends u1" "c_timeout u1 = ct_now e1 + 2"
    "client_message (client_config u) DHCPDISCOVER (c_xid u1) 0 ds m"
    "reply DHCPOFFER m ?y [simple_option DHCP_LEASE_TIME lt] s p" "lease_map (leases ?s1) ?y = Some (?c, e)"
    "dhcpd_ok ?s1" "same_conf s ?s1"
    by (rule first_step [OF u(1-4) s(1-3) turns(1) n1])
  have s1: "config_ok ?s1" "sends_ok ?s1" "server_config ?s1 = server_config s"
    "nvram_safe_get ''lan_ipaddr'' ?s1 \<noteq> inet_ntoa ?y"
    using u1(12) s(2,3) one(2) by (simp_all add: config_ok_conf sends_ok_conf nvram_safe_get_def) (simp_all add: same_conf_def)
  let ?e2 = "e2\<lparr>ct_wake := Cw_ready True False, ct_frame := Some (frame_of ?s1 p)\<rparr>"
  obtain u2 where u2: "turn_client ?e2 u1 = Some (C_loop u2)" "client_inv u2" "c_state u2 = REQUESTING"
    "requested_ip u2 = ?y" "server_addr u2 = sc_server (server_config s)" "packet_num u2 = 0" "c_fd u2"
    "client_config u2 = client_config u1" "c_out u2 = c_out u1" "os_csend u2 = os_csend u1"
    by (rule offer_turn [OF u1(2,3,5) s(2,4) u1(9), of DHCPDISCOVER ds ?e2]) (use u1 turns in simp_all)
  let ?n2 = "\<lparr>n_client = C_loop u2, n_server = ?s1, n_wire = []\<rparr>"
  have n2: "network_turn e2 n1 = Some ?n2" by (rule network_delivers [OF u1(1) n1(2) u2(1)]) (simp add: u2(9))
  have cs: "client_sends u2" using u1(6) u2(10) by (simp add: client_sends_def)
  let ?e3 = "e3\<lparr>ct_wake := Cw_timeout\<rparr>"
  obtain u3 m3 where u3: "turn_client ?e3 u2 = Some (C_loop u3)" "client_inv u3" "c_state u3 = REQUESTING"
    "client_config u3 = client_config u2" "c_fd u3" "c_timeout u3 = ct_now ?e3 + 2" "c_xid u3 = c_xid u2"
    "net_messages (c_out u3) = net_messages (c_out u2) @ [m3]"
    "client_message (client_config u2) DHCPREQUEST (c_xid u2) 0
       [addr_option DHCP_REQUESTED_IP (requested_ip u2), addr_option DHCP_SERVER_ID (server_addr u2), request_list] m3"
    by (rule request_turn [OF u2(2,3,6) cs u2(7), of ?e3]) simp_all
  have cfg: "client_ok (client_config u)" using u(1) by (simp add: client_inv_def)
  obtain s3 q t where s3: "serve_datagram (Some m3) ?s1 = Some s3" "dhcpd_ok s3" "same_conf ?s1 s3" "replies s3 = replies ?s1 @ [q]"
    "reply DHCPACK m3 ?y [simple_option DHCP_LEASE_TIME (sc_lease (server_config ?s1))] ?s1 q"
    "lease_map (leases s3) ?y = Some (?c, t)"
    by (rule request_acknowledged [OF cfg u1(11) s1(1,2) _ u1(10) one(1) s1(4)]) (use u3(9) u2 u1(4) s1(3) in auto)
  let ?n3 = "\<lparr>n_client = C_loop u3, n_server = s3, n_wire = [q]\<rparr>"
  have n3: "network_turn e3 ?n2 = Some ?n3"
    using network_sends [of ?n2, OF _ _ u3(1,8)] s3(1,4) by simp
  let ?e4 = "e4\<lparr>ct_wake := Cw_ready True False, ct_frame := Some (frame_of s3 q)\<rparr>"
  obtain u4 where u4: "turn_client ?e4 u3 = Some (C_loop u4)" "c_state u4 = BOUND" "requested_ip u4 = ?y"
    "c_lease u4 = Some (sc_lease (server_config ?s1))" "c_timeout u4 = sc_lease (server_config ?s1) div 2 + ct_now ?e4"
    "net_messages (c_out u4) = net_messages (c_out u3)"
    by (rule ack_turn [OF u3(2,3,5) _ s1(1) s3(5), of DHCPREQUEST _ ?e4]) (use u3 u2(8) u1(4) u(5) turns in simp_all)
  have "network_turn e4 ?n3 = Some \<lparr>n_client = C_loop u4, n_server = s3, n_wire = []\<rparr>"
    using network_delivers [of ?n3 u3 q e4 u4] u4(1,6) by simp
  then show ?thesis using n2 n3 u4 s3(6) s1(3) by simp
qed

section \<open>A client that the server remembers\<close>

lemma one_entry_add:
  assumes "max_leases s = length (leases s)" "y \<noteq> 0" "one_entry c s" "add_lease c y d s = Some (r, s')"
  shows "one_entry c s'"
proof -
  obtain s2 where s2: "add_lease c y d s = Some (oldest_scan (now s) None 0 (cleared c y (leases s)), s2)"
    "leases s2 = (case oldest_scan (now s) None 0 (cleared c y (leases s)) of None \<Rightarrow> cleared c y (leases s)
       | Some i \<Rightarrow> (cleared c y (leases s))[i := new_lease c y (now1 s + d) (cleared c y (leases s) ! i)])"
    by (rule add_lease_eq [OF assms(1,2) refl, of c d])
  have "l_chaddr l = c" if "l \<in> set (leases s')" "take 6 (l_chaddr l) = take 6 c" for l
  proof -
    have "l \<in> set (cleared c y (leases s)) \<or> l_chaddr l = c"
      using that s2 assms(4) by (auto split: option.splits dest!: set_update_subset_insert [THEN subsetD])
    moreover have "blank_lease \<noteq> l" using that(2) assms(3) by (auto simp: one_entry_def blank_lease_def blank_chaddr_def)
    ultimately show ?thesis using that(2) assms(3) by (auto simp: cleared_def one_entry_def)
  qed
  then show ?thesis using assms(3) by (auto simp: one_entry_def)
qed

lemma remembered_address:
  assumes ok: "dhcpd_ok s" and l: "lease_map (leases s) y = Some (msg_chaddr old, e)" "one_entry (msg_chaddr old) s"
    "nvram_safe_get ''lan_ipaddr'' s \<noteq> inet_ntoa y"
  obtains lt s1 where "offer_address old s = Some (y, lt, s1)" "leases s1 = leases s" "same_env s s1" "dhcpd_ok s1"
proof -
  obtain i where i: "find_lease_by_chaddr (msg_chaddr old) s = Some (Some i, s)" "i < length (leases s)"
    "l_yiaddr (leases s ! i) = y"
    by (rule find_client [OF ok l])
  obtain b s2 where s2: "lease_expired i s = (b, s2)" "dhcpd_ok s2" "same_env s s2" "leases s2 = leases s"
    by (rule lease_expired_ok [OF ok])
  let ?s1 = "if b then s2 else s2\<lparr>n_uptime := Suc (n_uptime s2)\<rparr>"
  have "same_env s2 ?s1" "dhcpd_ok ?s1" using s2(2) by (auto simp: same_env_def same_conf_def dhcpd_ok_def max_leases_def)
  then show ?thesis
    using i s2 same_env_trans [OF s2(3)]
    by (intro that [of "if b then sc_lease (server_config s2) else l_expires (leases s ! i) - now s2" ?s1])
      (auto simp: offer_address_def sys_time_def)
qed

lemma remembered_offer:
  assumes ok: "dhcpd_ok s" and conf: "config_ok s" and send: "sends_ok s" and m: "msg_ok old ds"
    and l: "lease_map (leases s) y = Some (msg_chaddr old, e)" "one_entry (msg_chaddr old) s"
      "nvram_safe_get ''lan_ipaddr'' s \<noteq> inet_ntoa y"
  obtains s' p where "handle_discover old s = Some s'" "replies s' = replies s @ [p]" "msg_yiaddr p = y"
    "one_entry (msg_chaddr old) s'"
proof -
  obtain lt s1 where s1: "offer_address old s = Some (y, lt, s1)" "leases s1 = leases s" "same_env s s1" "dhcpd_ok s1"
    by (rule remembered_address [OF ok l])
  have y: "y \<noteq> 0" using lease_map_SomeD [OF l(1)] by blast
  obtain p0 where p0: "init_packet old DHCPOFFER s = Some p0" "msg_chaddr p0 = msg_chaddr old"
    using init_packet_ok [OF msg_ok_length [OF m], of DHCPOFFER s] by (auto simp: reply_to_def)
  let ?d = "sc_offer_time (server_config s1)"
  obtain r s2 where s2: "add_lease (msg_chaddr old) y ?d s1 = Some (r, s2)" "dhcpd_ok s2" "same_env s1 s2"
    "lease_map (leases s2) y = (if r = None then None else Some (msg_chaddr old, now1 s1 + ?d))"
    "r = None \<Longrightarrow> 0 < now s1 \<Longrightarrow> leases s2 = leases s1"
    by (rule add_lease_refines [OF s1(4) chaddr_length [OF m] y, of ?d]) blast
  have "0 < now s1" using send s1(3) by (simp add: sends_ok_def same_env_def same_conf_def)
  then have r: "r \<noteq> None" using s2(4,5) l(1) s1(2) by (metis option.distinct(1))
  have one: "one_entry (msg_chaddr old) s2"
    by (rule one_entry_add [OF _ y _ s2(1)]) (use s1(2,4) l(2) in \<open>auto simp: dhcpd_ok_def one_entry_def\<close>)
  obtain lt' s3 where s3: "offer_lease_time old lt s2 = Some (lt', s3)" "same_env s2 s3" "leases s3 = leases s2"
    by (rule offer_lease_time_ok [OF m, of lt s2])
  have s3': "sends_ok s3"
    using send same_env_conf [OF same_env_trans [OF same_env_trans [OF s1(3) s2(3)] s3(2)]] by (simp add: sends_ok_conf)
  obtain y' lt0 s1' q s' where o: "offer_address old s = Some (y', lt0, s1')" "sendOffer old s = Some (q, s')"
    "offered old s y' s1' q s'"
    by (rule sendOffer_ok [OF ok conf m]) blast
  obtain p2 where p2: "send_packet p2 False s3 = (q, s')"
    using o(2) p0 s1(1) s2(1) s3(1) y r unfolding sendOffer_def by (auto split: Option.bind_splits if_splits)
  have q: "0 \<le> q" "leases s' = leases s3"
    using send_packet_good [OF s3' p2] send_packet_ok [of p2 False s3] p2 by auto
  have "lease_map (leases s') y \<noteq> None" using q(2) s3(3) s2(4) r by simp
  then obtain p where "msg_yiaddr p = y" "replies s' = replies s @ [p]"
    using o(1,3) s1(1) y q(1) by (auto simp: offered_def reply_def)
  moreover have "handle_discover old s = Some s'" using o(2) q(1) by (simp add: handle_discover_def)
  moreover have "one_entry (msg_chaddr old) s'" using one q(2) s3(3) by (simp add: one_entry_def)
  ultimately show ?thesis using that by blast
qed

definition remembering_server :: dhcpd where
  "remembering_server = example_server\<lparr>leases := [blank_lease, blank_lease\<lparr>l_chaddr := example_mac, l_yiaddr := 0xC0A80103,
     l_expires := 50\<rparr>, blank_lease]\<rparr>"

lemma remembering_server_ok:
  "dhcpd_ok remembering_server" "config_ok remembering_server" "sends_ok remembering_server" "no_bootp remembering_server"
  "one_entry example_mac remembering_server" "lease_map (leases remembering_server) 0xC0A80103 = Some (example_mac, 50)"
  "nvram_safe_get ''lan_ipaddr'' remembering_server \<noteq> inet_ntoa 0xC0A80103"
proof -
  let ?l = "blank_lease\<lparr>l_chaddr := example_mac, l_yiaddr := 0xC0A80103, l_expires := 50\<rparr>"
  have "leases remembering_server = (replicate 3 blank_lease)[1 := ?l]"
    by (simp add: remembering_server_def numeral_eq_Suc)
  moreover have "table_ok ((replicate 3 blank_lease)[1 := ?l])"
    by (rule table_ok_put [OF table_ok_blank]) (auto simp: lease_ok_def blank_lease_def blank_chaddr_def example_mac_def)
  ultimately show "dhcpd_ok remembering_server"
    by (simp add: dhcpd_ok_def max_leases_def) (simp add: remembering_server_def example_server_def example_config_def)
  show "config_ok remembering_server"
    using example_config_ok by (simp add: remembering_server_def config_ok_def env_ok_def)
  show "sends_ok remembering_server"
    by (simp add: sends_ok_def remembering_server_def example_server_def good_send_def)
  show "no_bootp remembering_server"
    by (simp add: no_bootp_def remembering_server_def example_server_def example_config_def)
  show "one_entry example_mac remembering_server"
    by (simp add: one_entry_def remembering_server_def example_mac_def blank_lease_def blank_chaddr_def numeral_eq_Suc)
  show "lease_map (leases remembering_server) 0xC0A80103 = Some (example_mac, 50)"
    by (simp add: remembering_server_def lease_map_def)
  have "nvram_safe_get ''lan_ipaddr'' remembering_server = inet_ntoa 0xC0A80101"
    by (simp add: remembering_server_def example_server_def nvram_safe_get_def inet_ntoa_def bytes32_def dotted_def
        dec.simps digit_def) code_simp
  then show "nvram_safe_get ''lan_ipaddr'' remembering_server \<noteq> inet_ntoa 0xC0A80103" by simp
qed

lemma example_discover:
  obtains n1 p where "network_turn (client_turn_at Cw_timeout 100 None)
      \<lparr>n_client = C_loop (example_client INIT_SELECTING (replicate 548 0)), n_server = remembering_server, n_wire = []\<rparr> = Some n1"
    "n_wire n1 = [p]" "msg_yiaddr p = 0xC0A80103" "one_entry example_mac (n_server n1)"
proof -
  let ?u = "example_client INIT_SELECTING (replicate 548 0)" and ?s = "remembering_server"
  let ?e = "client_turn_at Cw_timeout 100 None" let ?e1 = "?e\<lparr>ct_wake := Cw_timeout\<rparr>"
  have u: "client_inv ?u" by (simp add: example_client_inv)
  have cfg: "client_ok (client_config ?u)" using u by (simp add: client_inv_def)
  have "client_sends ?u" by (simp add: client_sends_def example_client_def good_send_def)
  then obtain u1 m ds where u1: "turn_client ?e1 ?u = Some (C_loop u1)"
    "net_messages (c_out u1) = net_messages (c_out ?u) @ [m]"
    "client_message (client_config ?u) DHCPDISCOVER (c_xid u1) 0 ds m" "client_opts ds"
    by (rule discover_turn [OF u, of ?e1, rotated 2])
      (simp_all add: example_client_def client_turn_at_def raw_socket_def)
  have mo: "msg_ok m (client_options (client_config ?u) DHCPDISCOVER @ ds)" by (rule client_message_ok [OF cfg u1(3,4)])
  have c: "msg_chaddr m = example_mac"
    using client_head_fields(6) [OF cfg u1(3)] by (simp add: example_client_def example_client_config_def example_mac_def)
  obtain s2 where s2: "same_env ?s s2" "leases s2 = leases ?s" "dhcpd_ok s2" "serve_datagram (Some m) ?s =
      do { (l, s3) \<leftarrow> find_lease_by_chaddr (msg_chaddr m) s2; handle_message DHCPDISCOVER l m s3 }"
    by (rule serve_client_message [OF cfg u1(3,4) _ remembering_server_ok(1)]) auto
  have f2: "config_ok s2" "sends_ok s2" "one_entry (msg_chaddr m) s2" "lease_map (leases s2) 0xC0A80103 = Some (msg_chaddr m, 50)"
    "nvram_safe_get ''lan_ipaddr'' s2 \<noteq> inet_ntoa 0xC0A80103"
    using remembering_server_ok same_env_conf [OF s2(1)] s2(2) c nvram_same_env [OF s2(1)]
    by (simp_all add: config_ok_conf sends_ok_conf one_entry_def)
  obtain i where i: "find_lease_by_chaddr (msg_chaddr m) s2 = Some (Some i, s2)"
    by (rule find_client [OF s2(3) f2(4,3,5)])
  obtain s' p where s': "handle_discover m s2 = Some s'" "replies s' = replies s2 @ [p]" "msg_yiaddr p = 0xC0A80103"
    "one_entry (msg_chaddr m) s'"
    by (rule remembered_offer [OF s2(3) f2(1,2) mo f2(4,3,5)])
  have "serve_datagram (Some m) ?s = Some s'" using s2(4) i s'(1) by (simp add: handle_message_def)
  moreover have "replies s2 = replies ?s" using s2(1) by (simp add: same_env_def)
  ultimately have "network_turn ?e \<lparr>n_client = C_loop ?u, n_server = ?s, n_wire = []\<rparr> =
      Some \<lparr>n_client = C_loop u1, n_server = s', n_wire = [p]\<rparr>"
    using network_sends [of "\<lparr>n_client = C_loop ?u, n_server = ?s, n_wire = []\<rparr>", OF _ _ u1(1,2)] s'(2) by simp
  then show ?thesis by (rule that) (use s' c in simp_all)
qed

theorem handshake_gives_address_witness:
  "\<exists>n1 u' s' t. network_turn (client_turn_at Cw_timeout 100 None)
      \<lparr>n_client = C_loop (example_client INIT_SELECTING (replicate 548 0)), n_server = remembering_server, n_wire = []\<rparr> = Some n1
    \<and> run network_turn (replicate 3 (client_turn_at Cw_timeout 100 None)) n1 =
        Some \<lparr>n_client = C_loop u', n_server = s', n_wire = []\<rparr>
    \<and> c_state u' = BOUND \<and> requested_ip u' = 0xC0A80103 \<and> c_lease u' = Some 86400
    \<and> lease_map (leases s') 0xC0A80103 = Some (example_mac, t)"
proof -
  let ?u = "example_client INIT_SELECTING (replicate 548 0)" and ?e = "client_turn_at Cw_timeout 100 None"
  obtain n1 p where n1: "network_turn ?e \<lparr>n_client = C_loop ?u, n_server = remembering_server, n_wire = []\<rparr> = Some n1"
    "n_wire n1 = [p]" "msg_yiaddr p = 0xC0A80103" "one_entry example_mac (n_server n1)"
    by (rule example_discover)
  have c: "cc_arp (client_config ?u) @ replicate 10 0 = example_mac"
    by (simp add: example_client_def example_client_config_def example_mac_def)
  have u: "client_inv ?u" "c_state ?u = INIT_SELECTING" "packet_num ?u = 0" "client_sends ?u"
    "\<not> cc_quit_after_lease (client_config ?u)"
    by (simp_all add: example_client_inv)
      (simp_all add: example_client_def client_sends_def good_send_def example_client_config_def)
  have o: "one_entry (cc_arp (client_config ?u) @ replicate 10 0) (n_server n1)"
    "nvram_safe_get ''lan_ipaddr'' remembering_server \<noteq> inet_ntoa (msg_yiaddr p)"
    unfolding c n1(3) using n1(4) remembering_server_ok(7) by simp_all
  have t: "raw_socket ?e" "0 < sint (ct_now ?e + 2 - ct_uptime ?e)" "ct_daemon_ok ?e"
    by (simp_all add: client_turn_at_def raw_socket_def)
  have l: "sc_lease (server_config remembering_server) = 86400"
    by (simp add: remembering_server_def example_server_def example_config_def)
  have r: "replicate 3 ?e = [?e, ?e, ?e]" by (simp add: numeral_eq_Suc)
  from handshake_gives_address [OF u remembering_server_ok(1-4) n1(1,2) o t(1,2,2,3)] n1(1)
  show ?thesis unfolding c n1(3) l r by blast
qed

end
