(* ===== verification/Igmp_Groups.thy ===== *)
theory Igmp_Groups
  imports Net_Text Dhcp_Packet
begin

text \<open>
  The tables of the IGMP proxy (\<open>igmp\<close>): the members and sources of a group and the groups of an interface
  (\<open>igmprt.c\<close>, \<open>igmpv2.c\<close>), and the membership database (\<open>proxy.c\<close>).

  A linked list is a list, and a pointer to one of its elements is the position of the element. \<open>malloc\<close> is the
  operating system: \<open>os_malloc\<close> says which allocations succeed. A null pointer that is used is \<^term>\<open>None\<close>.
\<close>

section \<open>Data\<close>

datatype fmode = IGMP_FMODE_EXCLUDE | IGMP_FMODE_INCLUDE

abbreviation "IGMP_TIMER_SCALE \<equiv> 10 :: int"
abbreviation "IGMP_DEF_QI \<equiv> 125 :: int"
abbreviation "IGMP_DEF_QRI \<equiv> 10 :: int"
abbreviation "IGMP_DEF_RV \<equiv> 2 :: int"

definition IGMP_OQPI :: int where "IGMP_OQPI = IGMP_DEF_RV * IGMP_DEF_QI + IGMP_DEF_QRI div 2"
definition IGMP_GMI :: int where "IGMP_GMI = IGMP_DEF_RV * IGMP_DEF_QI + IGMP_DEF_QRI"

definition IGMP_VERSION_1 :: int where "IGMP_VERSION_1 = 0x12"
definition IGMP_VERSION_2 :: int where "IGMP_VERSION_2 = 0x16"
definition IGMP_VERSION_3 :: int where "IGMP_VERSION_3 = 0x22"

record igmp_src_t =
  igmps_source :: u32
  igmps_timer :: int
  igmps_fstate :: bool

record igmp_group_t =
  igmpg_addr :: u32
  igmpg_timer :: int
  igmpg_fmode :: fmode
  igmpg_version :: int
  igmpg_members :: "u32 list"
  igmpg_sources :: "igmp_src_t list"

datatype if_type = UPSTREAM | DOWNSTREAM

record igmp_interface_t =
  igmpi_addr :: u32
  igmpi_name :: string
  igmpi_index :: nat
  igmpi_type :: if_type
  igmpi_groups :: "igmp_group_t list"
  igmpi_version :: int
  igmpi_isquerier :: bool
  igmpi_qi :: int
  igmpi_qri :: int
  igmpi_gmi :: int
  igmpi_oqp :: "int option"
  igmpi_rv :: int
  igmpi_ti_qi :: int
  igmpi_save_flags :: "u16 option"
  igmpi_bufsize :: int

text \<open>The array \<open>sources\<close> of 500 addresses; the first \<open>db_numsources\<close> of them are in use.\<close>

record membership_db =
  db_group :: u32
  db_fmode :: fmode
  db_numsources :: nat
  db_sources :: "u32 list"

definition MAX_ADDRS :: nat where "MAX_ADDRS = 500"

text \<open>What the proxy asks of the kernel and of the shell.\<close>

datatype igmp_out =
    Add_membership u32 u32
  | Drop_membership u32 u32
  | System string
  | Add_mfc u32 u32 nat nat bool
  | Del_mfc u32 u32
  | Send_query u32 u32 "u8 list"
  | Add_vif u32 nat
  | Del_vif u32 nat
  | Join_routers u32
  | Mrt_init u32
  | Set_flags string u16

record igmp_router =
  igmprt_interfaces :: "igmp_interface_t list"
  igmprt_membership_db :: "membership_db list"
  igmprt_flag_timer :: bool
  igmprt_flag_input :: bool
  igmprt_running :: bool
  downstream :: "nat option"
  upstream_interface :: string
  os_malloc :: "nat \<Rightarrow> bool"
  n_malloc :: nat
  os_mfc :: "nat \<Rightarrow> bool"
  n_mfc :: nat
  os_junk :: "u32 list"
  freed_readable :: bool
  rt_out :: "igmp_out list"

definition emit :: "igmp_out \<Rightarrow> igmp_router \<Rightarrow> igmp_router" where
  "emit x s = s\<lparr>rt_out := rt_out s @ [x]\<rparr>"

definition malloc :: "igmp_router \<Rightarrow> bool \<times> igmp_router" where
  "malloc s = (os_malloc s (n_malloc s), s\<lparr>n_malloc := Suc (n_malloc s)\<rparr>)"

definition iface :: "nat \<Rightarrow> igmp_router \<Rightarrow> igmp_interface_t" where
  "iface i s = igmprt_interfaces s ! i"

definition upd_iface :: "nat \<Rightarrow> (igmp_interface_t \<Rightarrow> igmp_interface_t) \<Rightarrow> igmp_router \<Rightarrow> igmp_router" where
  "upd_iface i f s = s\<lparr>igmprt_interfaces := (igmprt_interfaces s)[i := f (iface i s)]\<rparr>"

definition group :: "nat \<Rightarrow> nat \<Rightarrow> igmp_router \<Rightarrow> igmp_group_t" where
  "group i j s = igmpi_groups (iface i s) ! j"

definition upd_group :: "nat \<Rightarrow> nat \<Rightarrow> (igmp_group_t \<Rightarrow> igmp_group_t) \<Rightarrow> igmp_router \<Rightarrow> igmp_router" where
  "upd_group i j f s =
     upd_iface i (\<lambda>ifp. ifp\<lparr>igmpi_groups := (igmpi_groups ifp)[j := f (igmpi_groups ifp ! j)]\<rparr>) s"

text \<open>The position of the first element with a property, and the list without the element at a position.\<close>

definition position :: "('a \<Rightarrow> bool) \<Rightarrow> 'a list \<Rightarrow> nat option" where
  "position P xs = (let k = length (takeWhile (\<lambda>x. \<not> P x) xs) in if k < length xs then Some k else None)"

definition unlink :: "nat \<Rightarrow> 'a list \<Rightarrow> 'a list option" where
  "unlink k xs = (if k < length xs then Some (take k xs @ drop (Suc k) xs) else None)"

section \<open>Members of a group\<close>

definition igmp_rep_count :: "igmp_group_t \<Rightarrow> nat" where
  "igmp_rep_count gp = length (igmpg_members gp)"

definition igmp_rep_cleanup :: "igmp_group_t \<Rightarrow> nat \<Rightarrow> igmp_group_t option" where
  "igmp_rep_cleanup gp rep = map_option (\<lambda>ms. gp\<lparr>igmpg_members := ms\<rparr>) (unlink rep (igmpg_members gp))"

definition igmp_group_rep_lookup :: "igmp_group_t \<Rightarrow> u32 \<Rightarrow> nat option" where
  "igmp_group_rep_lookup gp srcaddr = position (\<lambda>r. r = srcaddr) (igmpg_members gp)"

definition igmp_group_rep_add :: "nat \<Rightarrow> nat \<Rightarrow> u32 \<Rightarrow> igmp_router \<Rightarrow> nat option \<times> igmp_router" where
  "igmp_group_rep_add i j srcaddr s =
     (case igmp_group_rep_lookup (group i j s) srcaddr of
        Some rep \<Rightarrow> (Some rep, s)
      | None \<Rightarrow>
          let (ok, s1) = malloc s in
          if ok then (Some 0, upd_group i j (\<lambda>gp. gp\<lparr>igmpg_members := srcaddr # igmpg_members gp\<rparr>) s1)
          else (None, s1))"

section \<open>Sources of a group\<close>

definition igmp_src_create :: "u32 \<Rightarrow> igmp_src_t" where
  "igmp_src_create srcaddr = \<lparr>igmps_source = srcaddr, igmps_timer = 0, igmps_fstate = True\<rparr>"

definition igmp_src_cleanup :: "igmp_group_t \<Rightarrow> nat \<Rightarrow> igmp_group_t option" where
  "igmp_src_cleanup gp src = map_option (\<lambda>xs. gp\<lparr>igmpg_sources := xs\<rparr>) (unlink src (igmpg_sources gp))"

definition igmp_group_src_lookup :: "igmp_group_t \<Rightarrow> u32 \<Rightarrow> nat option" where
  "igmp_group_src_lookup gp srcaddr = position (\<lambda>x. igmps_source x = srcaddr) (igmpg_sources gp)"

definition igmp_group_src_add :: "nat \<Rightarrow> nat \<Rightarrow> u32 \<Rightarrow> igmp_router \<Rightarrow> nat option \<times> igmp_router" where
  "igmp_group_src_add i j srcaddr s =
     (case igmp_group_src_lookup (group i j s) srcaddr of
        Some src \<Rightarrow> (Some src, s)
      | None \<Rightarrow>
          let (ok, s1) = malloc s in
          if ok then (Some 0, upd_group i j (\<lambda>gp. gp\<lparr>igmpg_sources := igmp_src_create srcaddr # igmpg_sources gp\<rparr>) s1)
          else (None, s1))"

definition check_src_set :: "u32 \<Rightarrow> igmp_src_t list \<Rightarrow> bool" where
  "check_src_set src srcs \<longleftrightarrow> src \<in> igmps_source ` set srcs"

definition check_src :: "u32 \<Rightarrow> u32 list \<Rightarrow> bool" where
  "check_src src sources \<longleftrightarrow> src \<in> set sources"

section \<open>Groups of an interface\<close>

definition igmp_group_create :: "u32 \<Rightarrow> igmp_group_t" where
  "igmp_group_create groupaddr =
     \<lparr>igmpg_addr = groupaddr, igmpg_timer = 0, igmpg_fmode = IGMP_FMODE_EXCLUDE, igmpg_version = IGMP_VERSION_2,
      igmpg_members = [], igmpg_sources = []\<rparr>"

definition igmp_interface_group_lookup :: "igmp_interface_t \<Rightarrow> u32 \<Rightarrow> nat option" where
  "igmp_interface_group_lookup ifp groupaddr = position (\<lambda>gp. igmpg_addr gp = groupaddr) (igmpi_groups ifp)"

definition igmprt_interface_lookup :: "igmp_router \<Rightarrow> u32 \<Rightarrow> nat option" where
  "igmprt_interface_lookup s ifaddr = position (\<lambda>ifp. igmpi_addr ifp = ifaddr) (igmprt_interfaces s)"

definition igmprt_interface_lookup_index :: "igmp_router \<Rightarrow> nat \<Rightarrow> nat option" where
  "igmprt_interface_lookup_index s ifp_index = position (\<lambda>ifp. igmpi_index ifp = ifp_index) (igmprt_interfaces s)"

definition igmprt_group_lookup :: "igmp_router \<Rightarrow> u32 \<Rightarrow> u32 \<Rightarrow> nat option" where
  "igmprt_group_lookup s ifaddr groupaddr =
     (case igmprt_interface_lookup s ifaddr of
        Some i \<Rightarrow> igmp_interface_group_lookup (iface i s) groupaddr | None \<Rightarrow> None)"

definition INADDR_ALLRTRS_GROUP :: u32 where "INADDR_ALLRTRS_GROUP = 0xE0000002"
definition INADDR_ALLHOSTS_GROUP :: u32 where "INADDR_ALLHOSTS_GROUP = 0xE0000001"
definition INADDR_ALLRTRS_IGMPV3_GROUP :: u32 where "INADDR_ALLRTRS_IGMPV3_GROUP = 0xE0000016"
definition INADDR_DVMPR :: u32 where "INADDR_DVMPR = 0xE0000004"
definition INADDR_PIM :: u32 where "INADDR_PIM = 0xE0000009"

definition VALID_ADDR :: "u32 \<Rightarrow> bool" where
  "VALID_ADDR x \<longleftrightarrow> x \<noteq> INADDR_ALLRTRS_GROUP \<and> x \<noteq> INADDR_ALLHOSTS_GROUP \<and> x \<noteq> INADDR_ALLRTRS_IGMPV3_GROUP
     \<and> x \<noteq> INADDR_DVMPR \<and> x \<noteq> INADDR_PIM"

definition IN_MULTICAST :: "u32 \<Rightarrow> bool" where "IN_MULTICAST a \<longleftrightarrow> a AND 0xF0000000 = 0xE0000000"

text \<open>The names of the upstream interfaces are ten fields of eight characters in a row.\<close>

definition upstream_name :: "nat \<Rightarrow> igmp_router \<Rightarrow> string" where
  "upstream_name i s = takeWhile (\<lambda>c. c \<noteq> CHR 0x00) (drop (8 * i) (upstream_interface s))"

definition CLI_MAX_BUF_SZ :: nat where "CLI_MAX_BUF_SZ = 128"

text \<open>A command in a buffer of \<open>CLI_MAX_BUF_SZ\<close> characters, run by the shell.\<close>

definition run_command :: "string \<Rightarrow> igmp_router \<Rightarrow> igmp_router option" where
  "run_command cmd s = (if length cmd \<ge> CLI_MAX_BUF_SZ then None else Some (emit (System cmd) s))"

definition insert_rule :: "string \<Rightarrow> u32 \<Rightarrow> string" where
  "insert_rule name g =
     ''/bin/iptables -t filter -I FORWARD 1 -i '' @ name @ '' -d '' @ inet_ntoa g @ '' -j ACCEPT 2>/dev/null''"

definition delete_rule :: "string \<Rightarrow> u32 \<Rightarrow> string" where
  "delete_rule name g =
     ''/bin/iptables -t filter -D FORWARD -i '' @ name @ '' -d '' @ inet_ntoa g @ '' -j ACCEPT 2>/dev/null''"

definition igmp_group_cleanup :: "nat \<Rightarrow> nat \<Rightarrow> igmp_router \<Rightarrow> igmp_router option" where
  "igmp_group_cleanup i j s =
     do { s1 \<leftarrow> run_command (delete_rule (upstream_name 0 s) (igmpg_addr (group i j s))) s;
          gs \<leftarrow> unlink j (igmpi_groups (iface i s1));
          Some (upd_iface i (\<lambda>ifp. ifp\<lparr>igmpi_groups := gs\<rparr>) s1) }"

text \<open>Every upstream interface joins a new group.\<close>

fun join_upstream :: "u32 \<Rightarrow> igmp_interface_t list \<Rightarrow> igmp_router \<Rightarrow> igmp_router option" where
  "join_upstream g [] s = Some s"
| "join_upstream g (ifp # ifps) s =
     (if igmpi_type ifp = UPSTREAM \<and> VALID_ADDR g then
        do { u \<leftarrow> igmprt_interface_lookup s (igmpi_addr ifp);
             if igmp_interface_group_lookup (iface u s) g = None
             then do { s1 \<leftarrow> run_command (insert_rule (igmpi_name ifp) g) (emit (Add_membership g (igmpi_addr ifp)) s);
                       join_upstream g ifps s1 }
             else join_upstream g ifps s }
      else join_upstream g ifps s)"

definition igmp_interface_group_add :: "nat \<Rightarrow> u32 \<Rightarrow> igmp_router \<Rightarrow> (nat option \<times> igmp_router) option" where
  "igmp_interface_group_add i groupaddr s =
     (case igmp_interface_group_lookup (iface i s) groupaddr of
        Some gp \<Rightarrow> Some (Some gp, s)
      | None \<Rightarrow>
          let (ok, s1) = malloc s in
          if ok then
            let s2 = upd_iface i (\<lambda>ifp. ifp\<lparr>igmpi_groups := igmp_group_create groupaddr # igmpi_groups ifp\<rparr>) s1 in
            map_option (\<lambda>s3. (Some 0, s3)) (join_upstream groupaddr (igmprt_interfaces s2) s2)
          else Some (None, s1))"

text \<open>The null test of \<open>igmprt_group_add\<close> is the wrong way round: with an interface it does nothing, without one it fails
  an assertion. It is not called.\<close>

definition igmprt_group_add :: "u32 \<Rightarrow> u32 \<Rightarrow> igmp_router \<Rightarrow> (nat option \<times> igmp_router) option" where
  "igmprt_group_add ifaddr groupaddr s =
     (case igmprt_interface_lookup s ifaddr of Some i \<Rightarrow> Some (None, s) | None \<Rightarrow> None)"

fun leave_upstream :: "u32 \<Rightarrow> igmp_interface_t list \<Rightarrow> igmp_router \<Rightarrow> igmp_router" where
  "leave_upstream g [] s = s"
| "leave_upstream g (ifp # ifps) s =
     leave_upstream g ifps
       (if igmpi_type ifp = UPSTREAM \<and> VALID_ADDR g then emit (Drop_membership g (igmpi_addr ifp)) s else s)"

section \<open>The membership database\<close>

definition create_membership :: "u32 \<Rightarrow> fmode \<Rightarrow> u32 list \<Rightarrow> u32 list \<Rightarrow> membership_db option" where
  "create_membership g mode sources junk =
     (if length sources > MAX_ADDRS then None
      else Some \<lparr>db_group = g, db_fmode = mode, db_numsources = length sources,
                 db_sources = sources @ drop (length sources) junk\<rparr>)"

definition find_membership :: "membership_db list \<Rightarrow> u32 \<Rightarrow> nat option" where
  "find_membership db g = position (\<lambda>m. db_group m = g) db"

definition find_source :: "u32 \<Rightarrow> u32 list \<Rightarrow> bool" where
  "find_source sr sources \<longleftrightarrow> sr \<in> set sources"

text \<open>The addresses that \<open>numsources\<close> covers.\<close>

definition db_used :: "membership_db \<Rightarrow> u32 list" where
  "db_used m = take (db_numsources m) (db_sources m)"

text \<open>The loop that adds sources: the count is raised before the address is stored under it.\<close>

fun add_sources :: "u32 list \<Rightarrow> membership_db \<Rightarrow> membership_db option" where
  "add_sources [] m = Some m"
| "add_sources (x # xs) m =
     (if find_source x (db_used m) then add_sources xs m
      else let n = db_numsources m + 1 in
        if n \<ge> MAX_ADDRS then None
        else add_sources xs (m\<lparr>db_numsources := n, db_sources := (db_sources m)[n := x]\<rparr>))"

definition set_sources :: "u32 list \<Rightarrow> membership_db \<Rightarrow> membership_db option" where
  "set_sources xs m =
     (if length xs > MAX_ADDRS then None
      else Some (m\<lparr>db_numsources := length xs, db_sources := xs @ drop (length xs) (db_sources m)\<rparr>))"

definition merge_membership :: "fmode \<Rightarrow> u32 list \<Rightarrow> membership_db \<Rightarrow> membership_db option" where
  "merge_membership mode sources m =
     (let merged = (if db_fmode m = IGMP_FMODE_INCLUDE \<and> mode = IGMP_FMODE_INCLUDE
                    then IGMP_FMODE_INCLUDE else IGMP_FMODE_EXCLUDE);
          m1 = m\<lparr>db_fmode := merged\<rparr> in
      if merged = IGMP_FMODE_INCLUDE then
        if mode = IGMP_FMODE_INCLUDE then add_sources sources m1
        else set_sources (filter (\<lambda>x. \<not> find_source x (db_used m1)) sources) m1
      else if mode = IGMP_FMODE_INCLUDE
        then set_sources (filter (\<lambda>x. \<not> find_source x sources) (db_used m1)) m1
        else set_sources (filter (\<lambda>x. find_source x sources) (db_used m1)) m1)"

text \<open>\<open>os_junk\<close> is what the array of a new entry holds.\<close>

definition update_multi :: "u32 \<Rightarrow> fmode \<Rightarrow> u32 list \<Rightarrow> igmp_router \<Rightarrow> igmp_router option" where
  "update_multi g mode sources s =
     (case find_membership (igmprt_membership_db s) g of
        Some k \<Rightarrow>
          map_option (\<lambda>m. s\<lparr>igmprt_membership_db := (igmprt_membership_db s)[k := m]\<rparr>)
            (merge_membership mode sources (igmprt_membership_db s ! k))
      | None \<Rightarrow>
          let (ok, s1) = malloc s in
          if \<not> ok then None
          else map_option (\<lambda>m. s1\<lparr>igmprt_membership_db := m # igmprt_membership_db s1\<rparr>)
                 (create_membership g mode sources (os_junk s1)))"

end
