(* ===== verification/Igmp_Router.thy ===== *)
theory Igmp_Router
  imports Igmp_Groups
begin

text \<open>
  The operations of the IGMP proxy: membership reports, leaves and queries, the timers, the reception of a message, and
  \<open>main\<close> (\<open>igmprt.c\<close>, \<open>igmpv2.c\<close>, \<open>proxy.c\<close>, \<open>util.c\<close>). Results of the operating system are inputs. A loop over the groups
  of an interface goes on from a group that it has just freed: \<open>freed_readable\<close> says whether the freed block still holds
  the pointer to the next group; when it does not, the run is lost.
\<close>

section \<open>Queries\<close>

text \<open>\<open>in_cksum\<close> folds the carry only once.\<close>

definition in_cksum :: "u8 list \<Rightarrow> u16" where
  "in_cksum bs = (let n = sum16 bs in NOT (word_of_nat (n div 65536 + n mod 65536)))"

definition IGMP_MEMBERSHIP_QUERY :: u8 where "IGMP_MEMBERSHIP_QUERY = 0x11"
definition IGMP_V1_MEMBERSHIP_REPORT :: u8 where "IGMP_V1_MEMBERSHIP_REPORT = 0x12"
definition IGMP_V2_MEMBERSHIP_REPORT :: u8 where "IGMP_V2_MEMBERSHIP_REPORT = 0x16"
definition IGMP_V2_MEMBERSHIP_LEAVE :: u8 where "IGMP_V2_MEMBERSHIP_LEAVE = 0x17"

definition query_message :: "u8 \<Rightarrow> u32 \<Rightarrow> u8 list" where
  "query_message code g =
     (let q = [IGMP_MEMBERSHIP_QUERY, code, 0, 0] @ bytes32 g in buf_write q 2 (bytes16 (in_cksum q)))"

text \<open>For version 3 the program waits for a key and sends a byte that was never set.\<close>

definition igmprt_membership_query :: "nat \<Rightarrow> u32 \<Rightarrow> igmp_router \<Rightarrow> igmp_router option" where
  "igmprt_membership_query i g s =
     (let ifp = iface i s; dest = (if g = 0 then INADDR_ALLHOSTS_GROUP else g) in
      if igmpi_version ifp = IGMP_VERSION_1 then Some (emit (Send_query (igmpi_addr ifp) dest (query_message 0 g)) s)
      else if igmpi_version ifp = IGMP_VERSION_2
        then Some (emit (Send_query (igmpi_addr ifp) dest (query_message (word_of_int (igmpi_qri ifp)) g)) s)
      else if igmpi_version ifp = IGMP_VERSION_3 then None
      else Some s)"

fun lower_sources :: "u32 list \<Rightarrow> nat \<Rightarrow> nat \<Rightarrow> igmp_router \<Rightarrow> igmp_router" where
  "lower_sources [] i j s = s"
| "lower_sources (x # xs) i j s =
     lower_sources xs i j
       (case igmp_group_src_lookup (group i j s) x of
          Some k \<Rightarrow> upd_group i j (\<lambda>gp. gp\<lparr>igmpg_sources := (igmpg_sources gp)
                      [k := (igmpg_sources gp ! k)\<lparr>igmps_timer := IGMP_TIMER_SCALE\<rparr>]\<rparr>) s
        | None \<Rightarrow> s)"

definition receive_membership_query :: "nat \<Rightarrow> u32 \<Rightarrow> u32 list \<Rightarrow> u32 \<Rightarrow> bool \<Rightarrow> igmp_router \<Rightarrow> igmp_router" where
  "receive_membership_query i gp sources src_query srsp s =
     (let s1 = (if src_query < igmpi_addr (iface i s)
                then upd_iface i (\<lambda>ifp. ifp\<lparr>igmpi_oqp := Some IGMP_OQPI, igmpi_isquerier := False\<rparr>) s else s) in
      if srsp then s1
      else case igmp_interface_group_lookup (iface i s1) gp of
        None \<Rightarrow> s1
      | Some j \<Rightarrow> if sources = [] then upd_group i j (\<lambda>gr. gr\<lparr>igmpg_timer := IGMP_TIMER_SCALE\<rparr>) s1
                  else lower_sources sources i j s1)"

section \<open>Reports\<close>

definition k_proxy_del_mfc :: "u32 \<Rightarrow> u32 \<Rightarrow> igmp_router \<Rightarrow> igmp_router" where
  "k_proxy_del_mfc source g s = emit (Del_mfc source g) s"

abbreviation "MAXVIFS \<equiv> 32 :: nat"

fun k_proxy_chg_mfc :: "u32 \<Rightarrow> u32 \<Rightarrow> nat \<Rightarrow> bool \<Rightarrow> igmp_interface_t list \<Rightarrow> igmp_router \<Rightarrow> (bool \<times> igmp_router) option" where
  "k_proxy_chg_mfc source g outvif fstate [] s = Some (True, s)"
| "k_proxy_chg_mfc source g outvif fstate (ifp # ifps) s =
     (if igmpi_type ifp = UPSTREAM then
        if outvif \<ge> MAXVIFS then None
        else let ok = os_mfc s (n_mfc s);
                 s1 = emit (Add_mfc source g (igmpi_index ifp) outvif fstate) (s\<lparr>n_mfc := Suc (n_mfc s)\<rparr>) in
          if ok then k_proxy_chg_mfc source g outvif fstate ifps s1 else Some (False, s1)
      else k_proxy_chg_mfc source g outvif fstate ifps s)"

definition set_source :: "nat \<Rightarrow> nat \<Rightarrow> nat \<Rightarrow> (igmp_src_t \<Rightarrow> igmp_src_t) \<Rightarrow> igmp_router \<Rightarrow> igmp_router" where
  "set_source i j k f s =
     upd_group i j (\<lambda>gp. gp\<lparr>igmpg_sources := (igmpg_sources gp)[k := f (igmpg_sources gp ! k)]\<rparr>) s"

fun isex_exclude :: "nat \<Rightarrow> nat \<Rightarrow> igmp_src_t list \<Rightarrow> u32 list \<Rightarrow> u32 list \<Rightarrow> igmp_router \<Rightarrow> igmp_router option" where
  "isex_exclude i j old sources [] s = Some s"
| "isex_exclude i j old sources (x # xs) s =
     (case igmp_group_src_add i j x s of
        (None, s1) \<Rightarrow> None
      | (Some k, s1) \<Rightarrow>
          isex_exclude i j old sources xs
            (if \<not> check_src_set x old \<and> check_src x sources
             then set_source i j k (\<lambda>src. src\<lparr>igmps_timer := IGMP_GMI, igmps_fstate := False\<rparr>) s1 else s1))"

fun isex_include :: "nat \<Rightarrow> nat \<Rightarrow> igmp_src_t list \<Rightarrow> u32 list \<Rightarrow> u32 list \<Rightarrow> igmp_router \<Rightarrow> igmp_router option" where
  "isex_include i j old sources [] s = Some s"
| "isex_include i j old sources (x # xs) s =
     (case igmp_group_src_add i j x s of
        (None, s1) \<Rightarrow> None
      | (Some k, s1) \<Rightarrow>
          if \<not> check_src_set x old \<and> check_src x sources
          then isex_include i j old sources xs (set_source i j k (\<lambda>src. src\<lparr>igmps_timer := 0\<rparr>) s1)
          else if \<not> check_src x sources \<and> check_src_set x old
          then do { gp \<leftarrow> igmp_src_cleanup (group i j s1) k;
                    if \<not> freed_readable s1 then None
                    else isex_include i j old sources xs
                           (k_proxy_del_mfc x (igmpg_addr gp) (upd_group i j (\<lambda>_. gp) s1)) }
          else isex_include i j old sources xs s1)"

definition igmp_group_handle_isex :: "nat \<Rightarrow> nat \<Rightarrow> u32 list \<Rightarrow> igmp_router \<Rightarrow> igmp_router option" where
  "igmp_group_handle_isex i j sources s =
     do { let s1 = upd_group i j (\<lambda>gp. gp\<lparr>igmpg_timer := IGMP_GMI\<rparr>) s;
          let old = igmpg_sources (group i j s1);
          s2 \<leftarrow> (if igmpg_fmode (group i j s1) = IGMP_FMODE_EXCLUDE then isex_exclude i j old sources sources s1
                else isex_include i j old sources sources s1);
          let s3 = upd_group i j (\<lambda>gp. gp\<lparr>igmpg_fmode := IGMP_FMODE_EXCLUDE\<rparr>) s2;
          let g = igmpg_addr (group i j s3);
          if igmpi_type (iface i s3) \<noteq> UPSTREAM then
            do { s4 \<leftarrow> update_multi g IGMP_FMODE_EXCLUDE sources s3;
                 if VALID_ADDR g
                 then map_option snd
                   (k_proxy_chg_mfc 0 g (igmpi_index (iface i s4)) True (igmprt_interfaces s4) s4)
                 else Some s4 }
          else Some s3 }"

definition igmp_interface_membership_report_v12 :: "nat \<Rightarrow> u32 \<Rightarrow> u32 \<Rightarrow> igmp_router \<Rightarrow> igmp_router option" where
  "igmp_interface_membership_report_v12 i src g s =
     (if \<not> IN_MULTICAST g then Some s
      else do {
        (gp, s1) \<leftarrow> igmp_interface_group_add i g s;
        case gp of
          None \<Rightarrow> Some s1
        | Some j \<Rightarrow> do { let (rep, s2) = igmp_group_rep_add i j src s1;
                         igmp_group_handle_isex i j [] s2 } })"

section \<open>Leaves and timers\<close>

lemma upd_iface_simps [simp]:
  "length (igmprt_interfaces (upd_iface i f s)) = length (igmprt_interfaces s)"
  "i < length (igmprt_interfaces s) \<Longrightarrow> iface i (upd_iface i f s) = f (iface i s)"
  "k \<noteq> i \<Longrightarrow> iface k (upd_iface i f s) = iface k s"
  by (simp_all add: upd_iface_def iface_def)

lemma cleanup_shortens:
  assumes "igmp_group_cleanup i j s = Some s'" "i < length (igmprt_interfaces s)"
  shows "length (igmpi_groups (iface i s')) < length (igmpi_groups (iface i s))" "j < length (igmpi_groups (iface i s))"
    "length (igmprt_interfaces s') = length (igmprt_interfaces s)"
  using assms
  by (auto simp: igmp_group_cleanup_def run_command_def emit_def unlink_def iface_def upd_iface_def
      split: Option.bind_splits if_splits)

text \<open>The groups of interface \<open>i\<close> from position \<open>j\<close> on, for a leave of \<open>src\<close> from the group \<open>g\<close>. After a group was freed
  its successor, read from the freed block, is at the same position.\<close>

function leave_groups :: "u32 \<Rightarrow> u32 \<Rightarrow> nat \<Rightarrow> nat \<Rightarrow> bool \<Rightarrow> igmp_router \<Rightarrow> (bool \<times> igmp_router) option" where
  "leave_groups src g i j needdrop s =
     (if i \<ge> length (igmprt_interfaces s) \<or> j \<ge> length (igmpi_groups (iface i s)) then Some (needdrop, s)
      else if igmpg_addr (group i j s) \<noteq> g then leave_groups src g i (Suc j) needdrop s
      else let gp = (case igmp_group_rep_lookup (group i j s) src of
                       None \<Rightarrow> Some (group i j s) | Some rep \<Rightarrow> igmp_rep_cleanup (group i j s) rep) in
        (case gp of
           None \<Rightarrow> None
         | Some gp' \<Rightarrow>
             let s1 = upd_group i j (\<lambda>_. gp') s in
             if igmp_rep_count gp' = 0 then
               (case igmp_group_cleanup i j s1 of
                  None \<Rightarrow> None
                | Some s2 \<Rightarrow> if \<not> freed_readable s2 then None else leave_groups src g i j True s2)
             else leave_groups src g i (Suc j) needdrop s1))"
  by pat_completeness auto
termination
proof (relation "measure (\<lambda>(src, g, i, j, nd, s). length (igmpi_groups (iface i s)) - j)", goal_cases)
  case (3 src g i j nd s gp gp' s1 s2)
  then have i: "i < length (igmprt_interfaces s)" "j < length (igmpi_groups (iface i s))" by auto
  then have l: "length (igmpi_groups (iface i s1)) = length (igmpi_groups (iface i s))" "i < length (igmprt_interfaces s1)"
    using 3 by (simp_all add: upd_group_def)
  have c: "igmp_group_cleanup i j s1 = Some s2" using 3 by simp
  show ?case using cleanup_shortens [OF c l(2)] l(1) i by simp
qed (auto simp: upd_group_def)

declare leave_groups.simps [simp del]

fun leave_interfaces :: "u32 \<Rightarrow> u32 \<Rightarrow> nat list \<Rightarrow> bool \<Rightarrow> igmp_router \<Rightarrow> (bool \<times> igmp_router) option" where
  "leave_interfaces src g [] needdrop s = Some (needdrop, s)"
| "leave_interfaces src g (i # is) needdrop s =
     (if igmpi_type (iface i s) = DOWNSTREAM
      then do { (nd, s1) \<leftarrow> leave_groups src g i 0 needdrop s; leave_interfaces src g is nd s1 }
      else leave_interfaces src g is needdrop s)"

definition igmp_interface_membership_leave_v2 :: "u32 \<Rightarrow> u32 \<Rightarrow> igmp_router \<Rightarrow> igmp_router option" where
  "igmp_interface_membership_leave_v2 src g s =
     (if \<not> IN_MULTICAST g then Some s
      else do { (needdrop, s1) \<leftarrow> leave_interfaces src g [0..<length (igmprt_interfaces s)] False s;
                Some (if needdrop then leave_upstream g (igmprt_interfaces s1) s1 else s1) })"

definition igmprt_timer_querier :: "nat \<Rightarrow> igmp_router \<Rightarrow> igmp_router option" where
  "igmprt_timer_querier i s =
     do { oqp \<leftarrow> igmpi_oqp (iface i s);
          let oqp' = (if oqp > 0 then oqp - 1 else oqp);
          Some (upd_iface i (\<lambda>ifp. ifp\<lparr>igmpi_oqp := Some oqp',
                  igmpi_isquerier := (if oqp' = 0 then True else igmpi_isquerier ifp)\<rparr>) s) }"

function igmprt_timer_group :: "nat \<Rightarrow> nat \<Rightarrow> igmp_router \<Rightarrow> igmp_router option" where
  "igmprt_timer_group i j s =
     (if i \<ge> length (igmprt_interfaces s) \<or> j \<ge> length (igmpi_groups (iface i s)) then Some s
      else let gp = group i j s in
        if igmpg_addr gp = INADDR_ALLRTRS_GROUP then igmprt_timer_group i (Suc j) s
        else let t = (if igmpg_timer gp > 0 then igmpg_timer gp - 1 else igmpg_timer gp);
                 s1 = upd_group i j (\<lambda>gp. gp\<lparr>igmpg_timer := t\<rparr>) s in
          if t \<noteq> 0 then igmprt_timer_group i (Suc j) s1
          else (case igmp_group_cleanup i j s1 of
                  None \<Rightarrow> None
                | Some s2 \<Rightarrow>
                    if \<not> freed_readable s2 then None
                    else igmprt_timer_group i j (leave_upstream (igmpg_addr gp) (igmprt_interfaces s2) s2)))"
  by pat_completeness auto
termination
proof (relation "measure (\<lambda>(i, j, s). length (igmpi_groups (iface i s)) - j)", goal_cases)
  case (4 i j s gp t s1 s2)
  then have i: "i < length (igmprt_interfaces s)" "j < length (igmpi_groups (iface i s))" by auto
  then have l: "length (igmpi_groups (iface i s1)) = length (igmpi_groups (iface i s))" "i < length (igmprt_interfaces s1)"
    using 4 by (simp_all add: upd_group_def)
  have "igmprt_interfaces (leave_upstream g ifps s) = igmprt_interfaces s" for g ifps and s :: igmp_router
    by (induction ifps arbitrary: s) (auto simp: emit_def)
  then have "iface i (leave_upstream g ifps s2) = iface i s2" for g ifps by (simp add: iface_def)
  moreover have c: "igmp_group_cleanup i j s1 = Some s2" using 4 by simp
  ultimately show ?case using cleanup_shortens [OF c l(2)] l(1) i by simp
qed (auto simp: upd_group_def)

declare igmprt_timer_group.simps [simp del]

definition igmprt_timer_interface :: "nat \<Rightarrow> igmp_router \<Rightarrow> igmp_router option" where
  "igmprt_timer_interface i s =
     (if igmpi_type (iface i s) = DOWNSTREAM then
        do { s1 \<leftarrow> (if igmpi_isquerier (iface i s) then
                      let t = igmpi_ti_qi (iface i s) - 1 in
                      if t \<le> 0
                      then igmprt_membership_query i 0 (upd_iface i (\<lambda>ifp. ifp\<lparr>igmpi_ti_qi := igmpi_qi ifp\<rparr>) s)
                      else Some (upd_iface i (\<lambda>ifp. ifp\<lparr>igmpi_ti_qi := t\<rparr>) s)
                    else igmprt_timer_querier i s);
             igmprt_timer_group i 0 s1 }
      else Some s)"

fun timer_interfaces :: "nat list \<Rightarrow> igmp_router \<Rightarrow> igmp_router option" where
  "timer_interfaces [] s = Some s"
| "timer_interfaces (i # is) s = do { s1 \<leftarrow> igmprt_timer_interface i s; timer_interfaces is s1 }"

definition igmprt_timer :: "igmp_router \<Rightarrow> igmp_router option" where
  "igmprt_timer s = timer_interfaces [0..<length (igmprt_interfaces s)] s"

definition igmprt_timer_thread :: "igmp_router \<Rightarrow> igmp_router option" where
  "igmprt_timer_thread s = (if igmprt_flag_timer s then igmprt_timer s else Some s)"

section \<open>Reception\<close>

text \<open>What \<open>recvmsg\<close> delivers: the packet, and the control messages, each with the index of the interface when it is of
  type \<open>IP_PKTINFO\<close>. A failure is \<^term>\<open>None\<close>: the length \<open>-1\<close> passes the unsigned comparison with the size of a header, and
  the control messages that are read next were never set.\<close>

record igmp_msg =
  im_data :: "u8 list option"
  im_cmsgs :: "nat option list"

text \<open>The control messages: \<^term>\<open>None\<close> is the early return for a packet of another interface; otherwise the index (0 when
  there was none) and whether there was a message of another type.\<close>

fun scan_cmsgs :: "nat \<Rightarrow> nat option list \<Rightarrow> nat \<Rightarrow> bool \<Rightarrow> (nat \<times> bool) option" where
  "scan_cmsgs index [] if_index badmsg = Some (if_index, badmsg)"
| "scan_cmsgs index (Some k # ms) if_index badmsg = (if k \<noteq> index then None else scan_cmsgs index ms k badmsg)"
| "scan_cmsgs index (None # ms) if_index badmsg = scan_cmsgs index ms if_index True"

definition handle_igmp :: "nat \<Rightarrow> u8 list \<Rightarrow> nat \<Rightarrow> u32 \<Rightarrow> igmp_router \<Rightarrow> igmp_router option" where
  "handle_igmp i d hl src s =
     do { ptype \<leftarrow> rd8 d hl;
          code \<leftarrow> rd8 d (hl + 1);
          g \<leftarrow> rd32 d (hl + 4);
          if ptype = IGMP_MEMBERSHIP_QUERY then
            if code = 0 then Some (receive_membership_query i g [] src True s)
            else if length d - hl = 8 then Some (receive_membership_query i g [] src True s)
            else Some s
          else if ptype = IGMP_V1_MEMBERSHIP_REPORT \<or> ptype = IGMP_V2_MEMBERSHIP_REPORT then
            if igmpi_type (iface i s) = UPSTREAM then Some s
            else igmp_interface_membership_report_v12 i src g s
          else if ptype = IGMP_V2_MEMBERSHIP_LEAVE then
            if igmpi_type (iface i s) \<noteq> UPSTREAM then igmp_interface_membership_leave_v2 src g s else Some s
          else Some s }"

definition igmprt_input :: "nat \<Rightarrow> igmp_msg \<Rightarrow> igmp_router \<Rightarrow> igmp_router option" where
  "igmprt_input i msg s =
     do { packet \<leftarrow> im_data msg;
          let d = take (nat (igmpi_bufsize (iface i s))) packet;
          if length d \<le> 20 then Some s
          else case scan_cmsgs (igmpi_index (iface i s)) (im_cmsgs msg) 0 False of
            None \<Rightarrow> Some s
          | Some (if_index, badmsg) \<Rightarrow>
              if badmsg then
                do { k \<leftarrow> downstream s;
                     Some (upd_iface k (\<lambda>ifp. ifp\<lparr>igmpi_ti_qi := 10, igmpi_isquerier := True\<rparr>) s) }
              else let hl = unat (d ! 0 AND 0xF) * 4 in
                if length d < hl + 8 then Some s
                else do {
                  src \<leftarrow> rd32 d 12;
                  case igmprt_interface_lookup_index s if_index of
                    None \<Rightarrow> Some s
                  | Some k \<Rightarrow> handle_igmp k d hl src s } }"

text \<open>The outcome of \<open>select\<close>: its result, the interfaces whose socket is in the set, and what can be read from each.\<close>

record igmp_select =
  sel_n :: int
  sel_ready :: "nat \<Rightarrow> bool"
  sel_msg :: "nat \<Rightarrow> igmp_msg"

fun input_interfaces :: "nat list \<Rightarrow> int \<Rightarrow> igmp_select \<Rightarrow> igmp_router \<Rightarrow> igmp_router option" where
  "input_interfaces [] n sel s = Some s"
| "input_interfaces (i # is) n sel s =
     (if igmpi_type (iface i s) = DOWNSTREAM then
        do { s1 \<leftarrow> (if sel_ready sel i then igmprt_input i (sel_msg sel i) s else Some s);
             if n - 1 = 0 then Some s1 else input_interfaces is (n - 1) sel s1 }
      else input_interfaces is n sel s)"

definition igmprt_input_thread :: "igmp_select \<Rightarrow> igmp_router \<Rightarrow> igmp_router option" where
  "igmprt_input_thread sel s =
     (if \<forall>ifp \<in> set (igmprt_interfaces s). igmpi_type ifp \<noteq> DOWNSTREAM then Some s
      else input_interfaces [0..<length (igmprt_interfaces s)] (sel_n sel) sel s)"

section \<open>Start and end\<close>

text \<open>The interfaces that the kernel has, by their number.\<close>

record igmp_env =
  ie_up_socket :: bool
  ie_raw_socket :: bool
  ie_list_socket :: bool
  ie_name :: "nat \<Rightarrow> string option"
  ie_addr :: "nat \<Rightarrow> u32"
  ie_mtu :: "nat \<Rightarrow> int"
  ie_if_socket :: "nat \<Rightarrow> bool"
  ie_flags :: "nat \<Rightarrow> u16"
  ie_new_flags :: "nat \<Rightarrow> u16"

datatype igmp_run = Igmp_loop igmp_router | Igmp_exit int igmp_router

text \<open>\<open>strcpy\<close> into the rows of \<open>upstream_interface\<close>, 80 characters in all.\<close>

fun upstream_args :: "nat \<Rightarrow> string list \<Rightarrow> igmp_router \<Rightarrow> igmp_router option" where
  "upstream_args i [] s = Some s"
| "upstream_args i (a # as) s =
     (if 8 * i + length a + 1 > 80 then None
      else upstream_args (Suc i) as
             (s\<lparr>upstream_interface := buf_write (upstream_interface s) (8 * i) (a @ [CHR 0x00])\<rparr>))"

definition upstream_interface_lookup :: "string \<Rightarrow> igmp_router \<Rightarrow> bool" where
  "upstream_interface_lookup name s \<longleftrightarrow> (\<exists>i < 10. name = upstream_name i s)"

definition starts_with :: "string \<Rightarrow> string \<Rightarrow> bool" where
  "starts_with p cs \<longleftrightarrow> take (length p) cs = p"

fun interface_list :: "nat list \<Rightarrow> igmp_env \<Rightarrow> igmp_router \<Rightarrow> (nat \<times> string) list \<times> igmp_router" where
  "interface_list [] env s = ([], s)"
| "interface_list (i # is) env s =
     (case ie_name env i of
        None \<Rightarrow> interface_list is env s
      | Some p \<Rightarrow>
          if starts_with ''eth2'' p \<or> starts_with ''usb'' p
            \<or> \<not> upstream_interface_lookup p s \<and> \<not> starts_with ''br'' p then interface_list is env s
          else let (ok, s1) = malloc s; (l, s2) = interface_list is env s1 in
            (if ok then (i, p) # l else l, s2))"

definition get_interface_list :: "igmp_env \<Rightarrow> igmp_router \<Rightarrow> (nat \<times> string) list \<times> igmp_router" where
  "get_interface_list env s = (if \<not> ie_list_socket env then ([], s) else interface_list [2..<33] env s)"

definition MAX_MSGBUFSIZE :: int where "MAX_MSGBUFSIZE = 9180"
definition IFF_ALLMULTI :: u16 where "IFF_ALLMULTI = 0x200"
definition IFF_PROMISC :: u16 where "IFF_PROMISC = 0x100"

text \<open>The flags -1 stand for a failure. The field \<open>igmpi_oqp\<close> is not set.\<close>

definition all_multicast :: "string \<Rightarrow> nat \<Rightarrow> igmp_env \<Rightarrow> igmp_router \<Rightarrow> igmp_router" where
  "all_multicast name k env s =
     (if ie_flags env k = - 1 then s
      else let s1 = emit (Set_flags name (ie_flags env k OR IFF_ALLMULTI)) s in
        if ie_new_flags env k AND IFF_ALLMULTI \<noteq> IFF_ALLMULTI
        then emit (Set_flags name (ie_flags env k OR IFF_PROMISC)) s1 else s1)"

definition igmp_interface_create ::
    "u32 \<Rightarrow> string \<Rightarrow> nat \<Rightarrow> igmp_env \<Rightarrow> igmp_router \<Rightarrow> igmp_interface_t option \<times> igmp_router" where
  "igmp_interface_create ifaddr name k env s =
     (let (ok, s1) = malloc s in
      if \<not> ok then (None, s1)
      else let (ok', s2) = malloc s1 in
        if \<not> ok' then (None, s2)
        else if \<not> ie_if_socket env k then (None, s2)
        else let type = (if starts_with ''br'' name then DOWNSTREAM else UPSTREAM);
                 s3 = (if type = DOWNSTREAM then emit (Mrt_init ifaddr) (emit (Join_routers ifaddr) s2) else s2) in
          (Some \<lparr>igmpi_addr = ifaddr, igmpi_name = take 16 name, igmpi_index = k, igmpi_type = type, igmpi_groups = [],
             igmpi_version = 22, igmpi_isquerier = True, igmpi_qi = IGMP_DEF_QI, igmpi_qri = IGMP_DEF_QRI,
             igmpi_gmi = IGMP_DEF_RV * IGMP_DEF_QI + IGMP_DEF_QRI, igmpi_oqp = None, igmpi_rv = IGMP_DEF_RV,
             igmpi_ti_qi = 0, igmpi_save_flags = (if ie_flags env k = - 1 then None else Some (ie_flags env k)),
             igmpi_bufsize = (if ie_mtu env k = - 1 then MAX_MSGBUFSIZE else ie_mtu env k)\<rparr>,
           all_multicast name k env s3))"

definition igmprt_interface_add :: "u32 \<Rightarrow> string \<Rightarrow> nat \<Rightarrow> igmp_env \<Rightarrow> igmp_router \<Rightarrow> igmp_router" where
  "igmprt_interface_add ifaddr name k env s =
     (if igmprt_interface_lookup s ifaddr \<noteq> None then s
      else case igmp_interface_create ifaddr name k env s of
        (None, s1) \<Rightarrow> s1
      | (Some ifp, s1) \<Rightarrow> s1\<lparr>igmprt_interfaces := ifp # igmprt_interfaces s1\<rparr>)"

fun add_interfaces :: "(nat \<times> string) list \<Rightarrow> igmp_env \<Rightarrow> igmp_router \<Rightarrow> igmp_router" where
  "add_interfaces [] env s = s"
| "add_interfaces ((k, name) # l) env s =
     add_interfaces l env (emit (Add_vif (ie_addr env k) k) (igmprt_interface_add (ie_addr env k) name k env s))"

definition igmprt_start :: "igmp_router \<Rightarrow> igmp_router" where
  "igmprt_start s =
     (if igmprt_running s then s else s\<lparr>igmprt_flag_timer := True, igmprt_flag_input := True, igmprt_running := True\<rparr>)"

definition igmprt_stop :: "igmp_router \<Rightarrow> igmp_router" where
  "igmprt_stop s =
     (if \<not> igmprt_running s then s
      else s\<lparr>igmprt_flag_timer := False, igmprt_flag_input := False, igmprt_running := False\<rparr>)"

definition igmp_interface_cleanup :: "igmp_interface_t \<Rightarrow> igmp_router \<Rightarrow> igmp_router" where
  "igmp_interface_cleanup ifp s =
     (case igmpi_save_flags ifp of None \<Rightarrow> s | Some f \<Rightarrow> emit (Set_flags (igmpi_name ifp) f) s)"

fun destroy_interfaces :: "igmp_interface_t list \<Rightarrow> igmp_router \<Rightarrow> igmp_router" where
  "destroy_interfaces [] s = s"
| "destroy_interfaces (ifp # ifps) s =
     destroy_interfaces ifps (igmp_interface_cleanup ifp (emit (Del_vif (igmpi_addr ifp) (igmpi_index ifp)) s))"

definition igmprt_destroy :: "igmp_router \<Rightarrow> igmp_router" where
  "igmprt_destroy s = igmprt_stop (destroy_interfaces (igmprt_interfaces s) s)"

definition igmp_main :: "string list \<Rightarrow> igmp_env \<Rightarrow> igmp_router \<Rightarrow> igmp_run option" where
  "igmp_main args env s =
     do { s1 \<leftarrow> upstream_args 0 args s;
          if \<not> ie_up_socket env \<or> \<not> ie_raw_socket env then Some (Igmp_exit 1 s1)
          else let (ifl, s2) = get_interface_list env s1;
                   s3 = igmprt_start (add_interfaces ifl env (s2\<lparr>igmprt_interfaces := []\<rparr>)) in
            Some (Igmp_loop (s3\<lparr>downstream := position (\<lambda>ifp. igmpi_type ifp = DOWNSTREAM) (igmprt_interfaces s3)\<rparr>)) }"

text \<open>One turn of the loop, or a signal that ends the program.\<close>

datatype igmp_event = Igmp_turn igmp_select | Igmp_signal

fun igmp_step :: "igmp_event \<Rightarrow> igmp_run \<Rightarrow> igmp_run option" where
  "igmp_step ev (Igmp_exit k s) = Some (Igmp_exit k s)"
| "igmp_step (Igmp_turn sel) (Igmp_loop s) =
     do { s1 \<leftarrow> igmprt_timer_thread s; map_option Igmp_loop (igmprt_input_thread sel s1) }"
| "igmp_step Igmp_signal (Igmp_loop s) = Some (Igmp_exit 0 (igmprt_destroy s))"

end
