(* ===== verification/Igmp_Spec.thy ===== *)
theory Igmp_Spec
  imports Igmp_Router
begin

text \<open>
  What the operations of the IGMP proxy do, in closed form: the groups of one interface as a list function, and what is
  sent to the kernel and the shell.
\<close>

section \<open>States up to groups and output\<close>

definition groups :: "nat \<Rightarrow> igmp_router \<Rightarrow> igmp_group_t list" where
  "groups i s = igmpi_groups (iface i s)"

definition set_groups :: "nat \<Rightarrow> igmp_group_t list \<Rightarrow> igmp_router \<Rightarrow> igmp_router" where
  "set_groups i gs s = upd_iface i (\<lambda>ifp. ifp\<lparr>igmpi_groups := gs\<rparr>) s"

definition emits :: "igmp_out list \<Rightarrow> igmp_router \<Rightarrow> igmp_router" where
  "emits xs s = s\<lparr>rt_out := rt_out s @ xs\<rparr>"

lemma emits_simps [simp]:
  "emits [] s = s" "emits xs (emits ys s) = emits (ys @ xs) s" "igmprt_interfaces (emits xs s) = igmprt_interfaces s"
  "iface i (emits xs s) = iface i s" "groups i (emits xs s) = groups i s" "upstream_name k (emits xs s) = upstream_name k s"
  "freed_readable (emits xs s) = freed_readable s" "upd_iface i f (emits xs s) = emits xs (upd_iface i f s)"
  "set_groups i gs (emits xs s) = emits xs (set_groups i gs s)" "rt_out (emits xs s) = rt_out s @ xs"
  "group i j (emits xs s) = group i j s" "os_malloc (emits xs s) = os_malloc s" "os_mfc (emits xs s) = os_mfc s"
  by (simp_all add: emits_def iface_def groups_def upstream_name_def upd_iface_def set_groups_def group_def)

lemma emit_emits: "emit x s = emits [x] s"
  by (simp add: emit_def emits_def)

lemma set_groups_twice [simp]: "set_groups i gs (set_groups i gs' s) = set_groups i gs s"
  by (cases "i < length (igmprt_interfaces s)") (simp_all add: set_groups_def upd_iface_def iface_def list_update_beyond not_less)

lemma set_groups_simps [simp]:
  "i < length (igmprt_interfaces s) \<Longrightarrow> groups i (set_groups i gs s) = gs"
  "length (igmprt_interfaces (set_groups i gs s)) = length (igmprt_interfaces s)"
  "upstream_name k (set_groups i gs s) = upstream_name k s" "freed_readable (set_groups i gs s) = freed_readable s"
  "rt_out (set_groups i gs s) = rt_out s" "k \<noteq> i \<Longrightarrow> iface k (set_groups i gs s) = iface k s"
  "k \<noteq> i \<Longrightarrow> groups k (set_groups i gs s) = groups k s"
  by (simp_all add: set_groups_def groups_def upstream_name_def upd_iface_def iface_def)

lemma set_groups_same [simp]: "set_groups i (groups i s) s = s"
  by (simp add: set_groups_def upd_iface_def groups_def iface_def)

lemma upd_group_eq: "upd_group i j f s = set_groups i ((groups i s)[j := f (groups i s ! j)]) s"
  by (simp add: upd_group_def set_groups_def upd_iface_def groups_def)

lemma group_eq: "group i j s = groups i s ! j"
  by (simp add: group_def groups_def)

lemma iface_set_groups [simp]:
  "i < length (igmprt_interfaces s) \<Longrightarrow> iface i (set_groups i gs s) = (iface i s)\<lparr>igmpi_groups := gs\<rparr>"
  by (simp add: set_groups_def upd_iface_def iface_def)

lemma fold_set_groups: "igmpi_groups (iface i s) = groups i s"
  by (simp add: groups_def)

section \<open>Lists\<close>

lemma position_cases:
  "position P xs = None \<longleftrightarrow> (\<forall>x \<in> set xs. \<not> P x)"
  "position P xs = Some k \<Longrightarrow> k < length xs \<and> P (xs ! k) \<and> (\<forall>j < k. \<not> P (xs ! j))"
proof -
  show "position P xs = None \<longleftrightarrow> (\<forall>x \<in> set xs. \<not> P x)"
    by (induction xs) (auto simp: position_def Let_def)
  show "k < length xs \<and> P (xs ! k) \<and> (\<forall>j < k. \<not> P (xs ! j))" if k: "position P xs = Some k"
  proof -
    have l: "k = length (takeWhile (\<lambda>x. \<not> P x) xs)" "k < length xs" using k by (auto simp: position_def Let_def split: if_splits)
    then have "P (xs ! k)" using nth_length_takeWhile [of "\<lambda>x. \<not> P x" xs] by simp
    moreover have "\<not> P (xs ! j)" if "j < k" for j
      using that l(1) takeWhile_nth [of j "\<lambda>x. \<not> P x" xs] nth_mem [of j "takeWhile (\<lambda>x. \<not> P x) xs"] set_takeWhileD by metis
    ultimately show ?thesis using l(2) by simp
  qed
qed

lemma unlink_remove1: "position (\<lambda>r. r = x) xs = Some k \<Longrightarrow> unlink k xs = Some (remove1 x xs)"
proof (induction xs arbitrary: k)
  case (Cons y xs)
  show ?case
  proof (cases "y = x")
    case True
    then show ?thesis using Cons.prems by (simp add: position_def unlink_def)
  next
    case False
    then obtain k' where "k = Suc k'" "position (\<lambda>r. r = x) xs = Some k'"
      using Cons.prems by (auto simp: position_def Let_def split: if_splits)
    then show ?thesis using Cons.IH False by (auto simp: unlink_def split: if_splits)
  qed
qed (simp add: position_def)

lemma drop_upd_Cons: "j < length xs \<Longrightarrow> take j xs @ drop (Suc j) xs = take j (xs[j := y]) @ drop (Suc j) (xs[j := y])"
  by simp

section \<open>Commands fit their buffer\<close>

definition names_fit :: "igmp_router \<Rightarrow> bool" where
  "names_fit s \<longleftrightarrow> length (upstream_name 0 s) \<le> 15 \<and> (\<forall>ifp \<in> set (igmprt_interfaces s). length (igmpi_name ifp) \<le> 15)"

lemma dec_byte_length: "n < 256 \<Longrightarrow> length (dec n) \<le> 3"
  by (simp add: dec.simps [of n] dec.simps [of "n div 10"] dec.simps [of "n div 10 div 10"])

lemma inet_ntoa_length: "length (inet_ntoa a) \<le> 15"
proof -
  have b: "length (dec (unat (x :: u8))) \<le> 3" for x by (rule dec_byte_length) simp
  show ?thesis
    using b [of "ucast (drop_bit 24 a)"] b [of "ucast (drop_bit 16 a)"] b [of "ucast (drop_bit 8 a)"] b [of "ucast a"]
    by (simp add: inet_ntoa_def dotted_def bytes32_def)
qed

lemma run_command_fits:
  "length name \<le> 15 \<Longrightarrow> run_command (insert_rule name g) s = Some (emits [System (insert_rule name g)] s)"
  "length name \<le> 15 \<Longrightarrow> run_command (delete_rule name g) s = Some (emits [System (delete_rule name g)] s)"
  using inet_ntoa_length [of g]
  by (simp_all add: run_command_def CLI_MAX_BUF_SZ_def insert_rule_def delete_rule_def emit_emits)

lemma group_cleanup_eq:
  assumes "j < length (groups i s)" "length (upstream_name 0 s) \<le> 15"
  shows "igmp_group_cleanup i j s = Some (emits [System (delete_rule (upstream_name 0 s) (igmpg_addr (groups i s ! j)))]
      (set_groups i (take j (groups i s) @ drop (Suc j) (groups i s)) s))"
  using assms run_command_fits(2) by (simp add: igmp_group_cleanup_def group_eq unlink_def fold_set_groups set_groups_def)

section \<open>A leave\<close>

text \<open>What a leave of \<open>src\<close> makes of a group: nothing, when no member is left.\<close>

definition left :: "u32 \<Rightarrow> u32 \<Rightarrow> igmp_group_t \<Rightarrow> igmp_group_t list" where
  "left src g gp =
     (if igmpg_addr gp \<noteq> g then [gp]
      else let ms = remove1 src (igmpg_members gp) in if ms = [] then [] else [gp\<lparr>igmpg_members := ms\<rparr>])"

definition rules_deleted :: "string \<Rightarrow> (igmp_group_t \<Rightarrow> igmp_group_t list) \<Rightarrow> igmp_group_t list \<Rightarrow> igmp_out list" where
  "rules_deleted name f gs =
     concat (map (\<lambda>gp. if f gp = [] then [System (delete_rule name (igmpg_addr gp))] else []) gs)"

lemma rep_removed:
  "(case igmp_group_rep_lookup gp src of None \<Rightarrow> Some gp | Some rep \<Rightarrow> igmp_rep_cleanup gp rep) =
     Some (gp\<lparr>igmpg_members := remove1 src (igmpg_members gp)\<rparr>)"
proof (cases "igmp_group_rep_lookup gp src")
  case None
  then have "src \<notin> set (igmpg_members gp)" by (auto simp: igmp_group_rep_lookup_def position_cases)
  then show ?thesis using None by (simp add: remove1_idem)
next
  case (Some rep)
  then have "unlink rep (igmpg_members gp) = Some (remove1 src (igmpg_members gp))"
    unfolding igmp_group_rep_lookup_def by (rule unlink_remove1)
  then show ?thesis using Some by (simp add: igmp_rep_cleanup_def)
qed

lemma leave_groups_eq:
  assumes "i < length (igmprt_interfaces s)" "freed_readable s" "length (upstream_name 0 s) \<le> 15"
  shows "leave_groups src g i j nd s =
     Some (nd \<or> (\<exists>gp \<in> set (drop j (groups i s)). left src g gp = []),
       emits (rules_deleted (upstream_name 0 s) (left src g) (drop j (groups i s)))
         (set_groups i (take j (groups i s) @ concat (map (left src g) (drop j (groups i s)))) s))"
  using assms
proof (induction "length (groups i s) - j" arbitrary: j nd s)
  case 0
  then have "length (groups i s) \<le> j" by simp
  then show ?case by (simp add: leave_groups.simps [of src g i j nd s] fold_set_groups rules_deleted_def)
next
  case (Suc n)
  let ?gs = "groups i s" let ?gp = "?gs ! j" let ?ms = "remove1 src (igmpg_members ?gp)"
  have j: "j < length ?gs" using Suc.hyps(2) by simp
  have d: "drop j ?gs = ?gp # drop (Suc j) ?gs" "take (Suc j) ?gs = take j ?gs @ [?gp]"
    using j by (simp_all add: Cons_nth_drop_Suc take_Suc_conv_app_nth)
  note unfold = leave_groups.simps [of src g i j nd s, unfolded fold_set_groups group_eq rep_removed Let_def option.case]
  show ?case
  proof (cases "igmpg_addr ?gp = g")
    case False
    then have "leave_groups src g i j nd s = leave_groups src g i (Suc j) nd s" using unfold j Suc.prems(1) by simp
    moreover have "n = length ?gs - Suc j" using Suc.hyps(2) by simp
    ultimately show ?thesis using Suc.hyps(1) [of s "Suc j" nd] Suc.prems False unfolding d
      by (simp add: left_def rules_deleted_def)
  next
    case True
    let ?gp' = "?gp\<lparr>igmpg_members := ?ms\<rparr>" let ?s1 = "set_groups i (?gs[j := ?gp']) s"
    have s1: "groups i ?s1 = ?gs[j := ?gp']" "i < length (igmprt_interfaces ?s1)" using Suc.prems(1) by simp_all
    show ?thesis
    proof (cases "?ms = []")
      case empty: True
      let ?s2 = "emits [System (delete_rule (upstream_name 0 s) g)] (set_groups i (take j ?gs @ drop (Suc j) ?gs) s)"
      have "igmp_group_cleanup i j ?s1 = Some ?s2"
        using group_cleanup_eq [of j i ?s1] s1 j Suc.prems(3) True by simp
      then have "leave_groups src g i j nd s = leave_groups src g i j True ?s2"
        using unfold j Suc.prems True empty by (simp add: upd_group_eq igmp_rep_count_def)
      moreover have g2: "groups i ?s2 = take j ?gs @ drop (Suc j) ?gs" "drop j (take j ?gs @ drop (Suc j) ?gs) = drop (Suc j) ?gs"
        using Suc.prems(1) j by simp_all
      moreover have "n = length (groups i ?s2) - j" unfolding g2(1) using Suc.hyps(2) j by simp
      ultimately show ?thesis using Suc.hyps(1) [of ?s2 j True] Suc.prems True empty j unfolding d
        by (simp add: left_def rules_deleted_def)
    next
      case False
      then have "leave_groups src g i j nd s = leave_groups src g i (Suc j) nd ?s1"
        using unfold j Suc.prems True by (simp add: upd_group_eq igmp_rep_count_def)
      moreover have "n = length (groups i ?s1) - Suc j" using Suc.hyps(2) by (simp add: s1(1))
      moreover have "take (Suc j) (?gs[j := ?gp']) = take j ?gs @ [?gp']" using j by (simp add: take_Suc_conv_app_nth)
      ultimately show ?thesis using Suc.hyps(1) [of ?s1 "Suc j" nd] Suc.prems True False s1 j unfolding d
        by (simp add: left_def rules_deleted_def)
    qed
  qed
qed

section \<open>The upstream side\<close>

definition upstream_addrs :: "igmp_router \<Rightarrow> u32 list" where
  "upstream_addrs s = map igmpi_addr (filter (\<lambda>ifp. igmpi_type ifp = UPSTREAM) (igmprt_interfaces s))"

definition drops :: "u32 \<Rightarrow> igmp_router \<Rightarrow> igmp_out list" where
  "drops g s = (if VALID_ADDR g then map (Drop_membership g) (upstream_addrs s) else [])"

lemma leave_upstream_eq: "leave_upstream g (igmprt_interfaces s) s = emits (drops g s) s"
proof -
  have "leave_upstream g ifps t = emits (if VALID_ADDR g then
      map (Drop_membership g) (map igmpi_addr (filter (\<lambda>ifp. igmpi_type ifp = UPSTREAM) ifps)) else []) t" for ifps t
    by (induction ifps arbitrary: t) (auto simp: emit_emits)
  then show ?thesis by (simp add: drops_def upstream_addrs_def)
qed

lemma upstream_addrs_simps [simp]:
  "upstream_addrs (emits xs s) = upstream_addrs s" "drops g (emits xs s) = drops g s"
  "upstream_addrs (set_groups i gs s) = upstream_addrs s" "drops g (set_groups i gs s) = drops g s"
proof -
  show e: "upstream_addrs (emits xs s) = upstream_addrs s" by (simp add: upstream_addrs_def)
  then show "drops g (emits xs s) = drops g s" by (simp add: drops_def)
  have f: "map igmpi_addr (filter (\<lambda>ifp. igmpi_type ifp = UPSTREAM) (xs[i := (xs ! i)\<lparr>igmpi_groups := gs\<rparr>])) =
      map igmpi_addr (filter (\<lambda>ifp. igmpi_type ifp = UPSTREAM) xs)" for xs i
    by (induction xs arbitrary: i) (auto split: nat.split)
  show g: "upstream_addrs (set_groups i gs s) = upstream_addrs s"
    by (simp add: upstream_addrs_def set_groups_def upd_iface_def iface_def f)
  show "drops g (set_groups i gs s) = drops g s" by (simp only: drops_def g)
qed

section \<open>One second for the groups\<close>

text \<open>What a second makes of a group.\<close>

definition ticked :: "igmp_group_t \<Rightarrow> igmp_group_t list" where
  "ticked gp =
     (if igmpg_addr gp = INADDR_ALLRTRS_GROUP then [gp]
      else let t = (if igmpg_timer gp > 0 then igmpg_timer gp - 1 else igmpg_timer gp) in
        if t = 0 then [] else [gp\<lparr>igmpg_timer := t\<rparr>])"

definition expiry_outs :: "igmp_router \<Rightarrow> igmp_group_t list \<Rightarrow> igmp_out list" where
  "expiry_outs s gs =
     concat (map (\<lambda>gp. if ticked gp = [] then System (delete_rule (upstream_name 0 s) (igmpg_addr gp)) # drops (igmpg_addr gp) s
                       else []) gs)"

lemma expiry_outs_simps [simp]:
  "expiry_outs (emits xs s) gs = expiry_outs s gs" "expiry_outs (set_groups i gs' s) gs = expiry_outs s gs"
  unfolding expiry_outs_def emits_simps set_groups_simps upstream_addrs_simps by (rule refl)+

lemma expiry_outs_rec:
  "expiry_outs s [] = []"
  "expiry_outs s (gp # gs) =
     (if ticked gp = [] then System (delete_rule (upstream_name 0 s) (igmpg_addr gp)) # drops (igmpg_addr gp) s else [])
     @ expiry_outs s gs"
  by (simp_all add: expiry_outs_def)

lemma timer_group_eq:
  assumes "i < length (igmprt_interfaces s)" "freed_readable s" "length (upstream_name 0 s) \<le> 15"
  shows "igmprt_timer_group i j s =
     Some (emits (expiry_outs s (drop j (groups i s)))
       (set_groups i (take j (groups i s) @ concat (map ticked (drop j (groups i s)))) s))"
  using assms
proof (induction "length (groups i s) - j" arbitrary: j s)
  case 0
  then have "length (groups i s) \<le> j" by simp
  then show ?case by (simp add: igmprt_timer_group.simps [of i j s] fold_set_groups expiry_outs_rec)
next
  case (Suc n)
  let ?gs = "groups i s" let ?gp = "?gs ! j"
  let ?t = "if igmpg_timer ?gp > 0 then igmpg_timer ?gp - 1 else igmpg_timer ?gp"
  have j: "j < length ?gs" using Suc.hyps(2) by simp
  have d: "drop j ?gs = ?gp # drop (Suc j) ?gs" "take (Suc j) ?gs = take j ?gs @ [?gp]"
    using j by (simp_all add: Cons_nth_drop_Suc take_Suc_conv_app_nth)
  note unfold = igmprt_timer_group.simps [of i j s, unfolded fold_set_groups group_eq Let_def]
  show ?case
  proof (cases "igmpg_addr ?gp = INADDR_ALLRTRS_GROUP")
    case True
    then have "igmprt_timer_group i j s = igmprt_timer_group i (Suc j) s" using unfold j Suc.prems(1) by simp
    moreover have "n = length ?gs - Suc j" using Suc.hyps(2) by simp
    ultimately show ?thesis using Suc.hyps(1) [of s "Suc j"] Suc.prems True unfolding d
      by (simp add: ticked_def expiry_outs_rec)
  next
    case other: False
    let ?gp' = "?gp\<lparr>igmpg_timer := ?t\<rparr>" let ?s1 = "set_groups i (?gs[j := ?gp']) s"
    have s1: "groups i ?s1 = ?gs[j := ?gp']" "i < length (igmprt_interfaces ?s1)" using Suc.prems(1) by simp_all
    show ?thesis
    proof (cases "?t = 0")
      case zero: True
      have tick: "ticked ?gp = []" using other zero by (simp add: ticked_def)
      let ?rest = "take j ?gs @ drop (Suc j) ?gs"
      let ?s2 = "emits (System (delete_rule (upstream_name 0 s) (igmpg_addr ?gp)) # drops (igmpg_addr ?gp) s)
          (set_groups i ?rest s)"
      have "igmp_group_cleanup i j ?s1 = Some (emits [System (delete_rule (upstream_name 0 s) (igmpg_addr ?gp))]
          (set_groups i ?rest s))"
        using group_cleanup_eq [of j i ?s1] s1 j Suc.prems(3) by simp
      then have "igmprt_timer_group i j s = igmprt_timer_group i j ?s2"
        using unfold j Suc.prems other zero leave_upstream_eq [of "igmpg_addr ?gp"
            "emits [System (delete_rule (upstream_name 0 s) (igmpg_addr ?gp))] (set_groups i ?rest s)"]
        by (simp add: upd_group_eq)
      moreover have g2: "groups i ?s2 = ?rest" "drop j ?rest = drop (Suc j) ?gs" using Suc.prems(1) j by simp_all
      moreover have "n = length (groups i ?s2) - j" unfolding g2(1) using Suc.hyps(2) j by simp
      ultimately show ?thesis using Suc.hyps(1) [of ?s2 j] Suc.prems tick j unfolding d
        by (simp add: expiry_outs_rec)
    next
      case False
      then have "igmprt_timer_group i j s = igmprt_timer_group i (Suc j) ?s1"
        using unfold j Suc.prems other by (simp add: upd_group_eq)
      moreover have "n = length (groups i ?s1) - Suc j" using Suc.hyps(2) by (simp add: s1(1))
      moreover have "take (Suc j) (?gs[j := ?gp']) = take j ?gs @ [?gp']" using j by (simp add: take_Suc_conv_app_nth)
      moreover have "ticked ?gp = [?gp']" using False other by (simp add: ticked_def)
      ultimately show ?thesis using Suc.hyps(1) [of ?s1 "Suc j"] Suc.prems s1 j unfolding d
        by (simp add: expiry_outs_rec)
    qed
  qed
qed

section \<open>A report\<close>

text \<open>What every operation leaves as it is.\<close>

definition same_router :: "igmp_router \<Rightarrow> igmp_router \<Rightarrow> bool" where
  "same_router s s' \<longleftrightarrow> upstream_interface s' = upstream_interface s \<and> os_malloc s' = os_malloc s \<and> os_mfc s' = os_mfc s
     \<and> freed_readable s' = freed_readable s \<and> downstream s' = downstream s \<and> igmprt_flag_timer s' = igmprt_flag_timer s
     \<and> igmprt_running s' = igmprt_running s"

lemma same_router_refl [simp]: "same_router s s"
  by (simp add: same_router_def)

lemma same_router_trans: "same_router s s' \<Longrightarrow> same_router s' s'' \<Longrightarrow> same_router s s''"
  by (simp add: same_router_def)

lemma same_router_simps [simp]: "same_router s (emits xs t) = same_router s t" "same_router s (upd_iface i f t) = same_router s t"
  "same_router s (set_groups i gs t) = same_router s t"
  by (simp_all add: same_router_def emits_def upd_iface_def set_groups_def)

definition joins :: "u32 \<Rightarrow> igmp_router \<Rightarrow> igmp_out list" where
  "joins g s =
     (if VALID_ADDR g then
        concat (map (\<lambda>ifp. [Add_membership g (igmpi_addr ifp), System (insert_rule (igmpi_name ifp) g)])
          (filter (\<lambda>ifp. igmpi_type ifp = UPSTREAM) (igmprt_interfaces s)))
      else [])"

lemma join_upstream_eq:
  assumes "names_fit s" "\<forall>ifp \<in> set (igmprt_interfaces s). igmpi_type ifp = UPSTREAM \<longrightarrow> igmpi_groups ifp = []"
    "distinct (map igmpi_addr (igmprt_interfaces s))"
  shows "join_upstream g (igmprt_interfaces s) s = Some (emits (joins g s) s)"
proof -
  have u: "\<exists>u. igmprt_interface_lookup s (igmpi_addr ifp) = Some u \<and> iface u s = ifp" if mem: "ifp \<in> set (igmprt_interfaces s)" for ifp
  proof -
    obtain u where u: "igmprt_interface_lookup s (igmpi_addr ifp) = Some u"
      using mem position_cases(1) [of "\<lambda>x. igmpi_addr x = igmpi_addr ifp" "igmprt_interfaces s"]
      by (cases "igmprt_interface_lookup s (igmpi_addr ifp)") (auto simp: igmprt_interface_lookup_def)
    then have "u < length (igmprt_interfaces s)" "igmpi_addr (igmprt_interfaces s ! u) = igmpi_addr ifp"
      using position_cases(2) by (auto simp: igmprt_interface_lookup_def)
    then have "igmprt_interfaces s ! u = ifp" using assms(3) mem by (metis in_set_conv_nth distinct_map inj_on_eq_iff nth_mem)
    then show ?thesis using u by (simp add: iface_def)
  qed
  have "join_upstream g ifps (emits xs s) = Some (emits (xs @ (if VALID_ADDR g then
      concat (map (\<lambda>ifp. [Add_membership g (igmpi_addr ifp), System (insert_rule (igmpi_name ifp) g)])
          (filter (\<lambda>ifp. igmpi_type ifp = UPSTREAM) ifps)) else [])) s)" if "set ifps \<subseteq> set (igmprt_interfaces s)" for ifps xs
    using that
  proof (induction ifps arbitrary: xs)
    case (Cons ifp ifps)
    have i: "ifp \<in> set (igmprt_interfaces s)" "set ifps \<subseteq> set (igmprt_interfaces s)" using Cons.prems by auto
    note IH = Cons.IH [OF i(2)]
    show ?case
    proof (cases "igmpi_type ifp = UPSTREAM \<and> VALID_ADDR g")
      case True
      obtain u where u1: "igmprt_interface_lookup s (igmpi_addr ifp) = Some u" "iface u s = ifp" using u [OF i(1)] by blast
      have l: "igmprt_interface_lookup (emits xs s) = igmprt_interface_lookup s" by (rule ext) (simp add: igmprt_interface_lookup_def)
      have n: "length (igmpi_name ifp) \<le> 15" "igmpi_groups ifp = []" using assms(1,2) i(1) True by (simp_all add: names_fit_def)
      then have "igmp_interface_group_lookup ifp g = None" by (simp add: igmp_interface_group_lookup_def position_def)
      then show ?thesis using True u1 l IH run_command_fits(1) [OF n(1)] by (simp add: emit_emits)
    next
      case False
      then show ?thesis using IH by auto
    qed
  qed simp
  from this [of "igmprt_interfaces s" "[]"] show ?thesis by (simp add: joins_def)
qed

lemma chg_mfc_returns:
  assumes "outvif < MAXVIFS"
  shows "\<exists>b ms n. k_proxy_chg_mfc source g outvif fstate ifps s = Some (b, emits ms (s\<lparr>n_mfc := n\<rparr>))
    \<and> (\<forall>x \<in> set ms. \<exists>p. x = Add_mfc source g p outvif fstate)
    \<and> ((\<forall>k. os_mfc s k) \<longrightarrow> ms = map (\<lambda>ifp. Add_mfc source g (igmpi_index ifp) outvif fstate)
          (filter (\<lambda>ifp. igmpi_type ifp = UPSTREAM) ifps))"
proof (induction ifps arbitrary: s)
  case Nil
  have "s = emits [] (s\<lparr>n_mfc := n_mfc s\<rparr>)" by simp
  then show ?case by (intro exI [of _ True] exI [of _ "[]"] exI [of _ "n_mfc s"]) simp
next
  case (Cons ifp ifps)
  show ?case
  proof (cases "igmpi_type ifp = UPSTREAM")
    case False
    then show ?thesis using Cons.IH [of s] by simp
  next
    case True
    let ?x = "Add_mfc source g (igmpi_index ifp) outvif fstate" let ?s1 = "emits [?x] (s\<lparr>n_mfc := Suc (n_mfc s)\<rparr>)"
    have m: "(emits xs t)\<lparr>n_mfc := n\<rparr> = emits xs (t\<lparr>n_mfc := n\<rparr>)" "os_mfc (emits xs t) = os_mfc t" for xs t n
      by (simp_all add: emits_def)
    obtain b ms n where ms: "k_proxy_chg_mfc source g outvif fstate ifps ?s1 = Some (b, emits ms (?s1\<lparr>n_mfc := n\<rparr>))"
      "\<forall>x \<in> set ms. \<exists>p. x = Add_mfc source g p outvif fstate"
      "(\<forall>k. os_mfc ?s1 k) \<longrightarrow> ms = map (\<lambda>ifp. Add_mfc source g (igmpi_index ifp) outvif fstate)
          (filter (\<lambda>ifp. igmpi_type ifp = UPSTREAM) ifps)"
      using Cons.IH [of ?s1] by blast
    show ?thesis
    proof (cases "os_mfc s (n_mfc s)")
      case ok: True
      show ?thesis
        by (rule exI [of _ b], rule exI [of _ "?x # ms"], rule exI [of _ n])
          (use True ok assms ms m in \<open>auto simp: emit_emits Let_def\<close>)
    next
      case False
      show ?thesis
        by (rule exI [of _ False], rule exI [of _ "[?x]"], rule exI [of _ "Suc (n_mfc s)"])
          (use True False assms in \<open>auto simp: emit_emits Let_def\<close>)
    qed
  qed
qed

lemma update_multi_returns:
  assumes "\<forall>n. os_malloc s n"
  shows "\<exists>s'. update_multi g IGMP_FMODE_EXCLUDE [] s = Some s' \<and> same_router s s'
    \<and> igmprt_interfaces s' = igmprt_interfaces s \<and> rt_out s' = rt_out s"
proof (cases "find_membership (igmprt_membership_db s) g")
  case None
  then show ?thesis
    using assms by (simp add: update_multi_def malloc_def create_membership_def same_router_def)
next
  case (Some k)
  have "filter (\<lambda>x. find_source x []) xs = []" for xs by (simp add: find_source_def)
  then show ?thesis
    using Some by (simp add: update_multi_def merge_membership_def set_sources_def same_router_def)
qed

definition mfc_entries :: "nat \<Rightarrow> u32 \<Rightarrow> igmp_router \<Rightarrow> igmp_out list" where
  "mfc_entries i g s = map (\<lambda>ifp. Add_mfc 0 g (igmpi_index ifp) (igmpi_index (iface i s)) True)
     (filter (\<lambda>ifp. igmpi_type ifp = UPSTREAM) (igmprt_interfaces s))"

lemma mfc_entries_set_groups [simp]:
  "i < length (igmprt_interfaces s) \<Longrightarrow> mfc_entries i g (set_groups i gs s) = mfc_entries i g s"
proof -
  assume i: "i < length (igmprt_interfaces s)"
  have f: "map (\<lambda>ifp. h (igmpi_index ifp)) (filter (\<lambda>ifp. igmpi_type ifp = UPSTREAM) (xs[i := (xs ! i)\<lparr>igmpi_groups := gs\<rparr>])) =
      map (\<lambda>ifp. h (igmpi_index ifp)) (filter (\<lambda>ifp. igmpi_type ifp = UPSTREAM) xs)" for h :: "nat \<Rightarrow> igmp_out" and xs i
    by (induction xs arbitrary: i) (auto split: nat.split)
  have "igmprt_interfaces (set_groups i gs s) = (igmprt_interfaces s)[i := (igmprt_interfaces s ! i)\<lparr>igmpi_groups := gs\<rparr>]"
    by (simp add: set_groups_def upd_iface_def iface_def)
  then show ?thesis
    using i f [of "\<lambda>k. Add_mfc 0 g k (igmpi_index (iface i s)) True"] by (simp add: mfc_entries_def)
qed

text \<open>The refreshed group \<open>j\<close>, as a report without sources leaves it, and the forwarding entries that are asked for.\<close>

lemma isex_eq:
  assumes i: "i < length (igmprt_interfaces s)" "igmpi_type (iface i s) = DOWNSTREAM" "igmpi_index (iface i s) < MAXVIFS"
    and m: "\<forall>n. os_malloc s n" and j: "j < length (groups i s)"
  shows "\<exists>s' ms. igmp_group_handle_isex i j [] s = Some s' \<and> same_router s s'
    \<and> igmprt_interfaces s' = igmprt_interfaces (set_groups i ((groups i s)[j := (groups i s ! j)
          \<lparr>igmpg_timer := IGMP_GMI, igmpg_fmode := IGMP_FMODE_EXCLUDE\<rparr>]) s)
    \<and> rt_out s' = rt_out s @ ms \<and> (\<forall>x \<in> set ms. \<exists>p. x = Add_mfc 0 (igmpg_addr (groups i s ! j)) p (igmpi_index (iface i s)) True)
    \<and> ((\<forall>k. os_mfc s k) \<longrightarrow> VALID_ADDR (igmpg_addr (groups i s ! j)) \<longrightarrow> ms = mfc_entries i (igmpg_addr (groups i s ! j)) s)"
proof -
  let ?g = "igmpg_addr (groups i s ! j)" let ?gs = "(groups i s)[j := (groups i s ! j)
          \<lparr>igmpg_timer := IGMP_GMI, igmpg_fmode := IGMP_FMODE_EXCLUDE\<rparr>]"
  define s3 where "s3 = set_groups i ?gs s"
  have s3: "groups i s3 = ?gs" "iface i s3 = (iface i s)\<lparr>igmpi_groups := ?gs\<rparr>" "same_router s s3" "rt_out s3 = rt_out s"
    "mfc_entries i ?g s3 = mfc_entries i ?g s"
    using i(1) by (simp_all add: s3_def)
  have m3: "\<forall>n. os_malloc s3 n" using m s3(3) by (simp add: same_router_def)
  obtain s4 where s4: "update_multi ?g IGMP_FMODE_EXCLUDE [] s3 = Some s4" "same_router s3 s4"
    "igmprt_interfaces s4 = igmprt_interfaces s3" "rt_out s4 = rt_out s3"
    using update_multi_returns [OF m3] by blast
  have i4: "iface i s4 = iface i s3" using s4(3) by (simp add: iface_def)
  obtain b ms n where c: "k_proxy_chg_mfc 0 ?g (igmpi_index (iface i s4)) True (igmprt_interfaces s4) s4 = Some (b, emits ms (s4\<lparr>n_mfc := n\<rparr>))"
    "\<forall>x \<in> set ms. \<exists>p. x = Add_mfc 0 ?g p (igmpi_index (iface i s4)) True"
    "(\<forall>k. os_mfc s4 k) \<longrightarrow> ms = map (\<lambda>ifp. Add_mfc 0 ?g (igmpi_index ifp) (igmpi_index (iface i s4)) True)
          (filter (\<lambda>ifp. igmpi_type ifp = UPSTREAM) (igmprt_interfaces s4))"
    using chg_mfc_returns [of "igmpi_index (iface i s4)" 0 ?g True "igmprt_interfaces s4" s4] i(3) i4 s3(2) by auto
  have eq: "igmp_group_handle_isex i j [] s = (if VALID_ADDR ?g then Some (emits ms (s4\<lparr>n_mfc := n\<rparr>)) else Some s4)"
    using i j s3 s4(1) c(1) by (simp add: igmp_group_handle_isex_def upd_group_eq group_eq Let_def s3_def [symmetric])
  have r: "same_router s4 (s4\<lparr>n_mfc := n\<rparr>)" "same_router s s4" using same_router_trans [OF s3(3) s4(2)] by (simp_all add: same_router_def)
  have e: "ms = mfc_entries i ?g s" if "\<forall>k. os_mfc s k"
    using c(3) that s4(3) i4 s3(5) r(2) by (simp add: same_router_def mfc_entries_def)
  show ?thesis
  proof (cases "VALID_ADDR ?g")
    case True
    then show ?thesis
      using eq c(2) e i4 s3 s4(3,4) same_router_trans [OF r(2,1)]
      by (intro exI [of _ "emits ms (s4\<lparr>n_mfc := n\<rparr>)"] exI [of _ ms]) (auto simp: s3_def)
  next
    case False
    then show ?thesis using eq r(2) s3(4) s4(3,4) by (intro exI [of _ s4] exI [of _ "[]"]) (simp add: s3_def)
  qed
qed

text \<open>What a report of \<open>src\<close> for \<open>g\<close> makes of the groups.\<close>

definition refreshed :: "u32 \<Rightarrow> igmp_group_t \<Rightarrow> igmp_group_t" where
  "refreshed src gp = gp\<lparr>igmpg_members := (if src \<in> set (igmpg_members gp) then igmpg_members gp else src # igmpg_members gp),
     igmpg_timer := IGMP_GMI, igmpg_fmode := IGMP_FMODE_EXCLUDE\<rparr>"

definition reported :: "u32 \<Rightarrow> u32 \<Rightarrow> igmp_group_t list \<Rightarrow> igmp_group_t list" where
  "reported src g gs =
     (case position (\<lambda>gp. igmpg_addr gp = g) gs of
        Some j \<Rightarrow> gs[j := refreshed src (gs ! j)] | None \<Rightarrow> refreshed src (igmp_group_create g) # gs)"

text \<open>Interfaces that the proxy can work with.\<close>

definition upstreams_ok :: "igmp_router \<Rightarrow> bool" where
  "upstreams_ok s \<longleftrightarrow> names_fit s \<and> distinct (map igmpi_addr (igmprt_interfaces s))
     \<and> (\<forall>ifp \<in> set (igmprt_interfaces s). igmpi_type ifp = UPSTREAM \<longrightarrow> igmpi_groups ifp = [])"

lemma rep_add_eq:
  assumes "i < length (igmprt_interfaces s)" "\<forall>n. os_malloc s n" "j < length (groups i s)"
  obtains r s' where "igmp_group_rep_add i j src s = (r, s')" "same_router s s'" "rt_out s' = rt_out s"
    "igmprt_interfaces s' = igmprt_interfaces (set_groups i ((groups i s)[j := (groups i s ! j)
       \<lparr>igmpg_members := (if src \<in> set (igmpg_members (groups i s ! j)) then igmpg_members (groups i s ! j)
          else src # igmpg_members (groups i s ! j))\<rparr>]) s)"
proof (cases "igmp_group_rep_lookup (group i j s) src")
  case None
  then have n: "src \<notin> set (igmpg_members (groups i s ! j))" by (auto simp: igmp_group_rep_lookup_def position_cases group_eq)
  let ?s1 = "s\<lparr>n_malloc := Suc (n_malloc s)\<rparr>"
  have g: "groups i ?s1 = groups i s" "same_router s ?s1" by (simp_all add: groups_def iface_def same_router_def)
  show ?thesis
    by (rule that [of "Some 0" "set_groups i ((groups i s)[j := (groups i s ! j)
          \<lparr>igmpg_members := src # igmpg_members (groups i s ! j)\<rparr>]) ?s1"])
      (use None n assms g in \<open>simp_all add: igmp_group_rep_add_def malloc_def upd_group_eq\<close>,
       simp add: set_groups_def upd_iface_def iface_def)
next
  case (Some r)
  then have "src \<in> set (igmpg_members (groups i s ! j))"
    using position_cases(1) [of "\<lambda>r. r = src" "igmpg_members (groups i s ! j)"]
    by (auto simp: igmp_group_rep_lookup_def group_eq)
  then show ?thesis using that [of "Some r" s] Some by (simp add: igmp_group_rep_add_def)
qed

text \<open>The interfaces without their groups.\<close>

definition skeleton :: "igmp_router \<Rightarrow> igmp_interface_t list" where
  "skeleton s = map (\<lambda>ifp. ifp\<lparr>igmpi_groups := []\<rparr>) (igmprt_interfaces s)"

lemma skeleton_simps [simp]: "skeleton (set_groups i gs s) = skeleton s" "skeleton (emits xs s) = skeleton s"
proof -
  have "map (\<lambda>ifp. ifp\<lparr>igmpi_groups := []\<rparr>) (xs[i := (xs ! i)\<lparr>igmpi_groups := gs\<rparr>]) = map (\<lambda>ifp. ifp\<lparr>igmpi_groups := []\<rparr>) xs" for xs
    by (induction xs arbitrary: i) (auto split: nat.split)
  then show "skeleton (set_groups i gs s) = skeleton s" by (simp add: skeleton_def set_groups_def upd_iface_def iface_def)
qed (simp add: skeleton_def)

lemma skeleton_cong:
  assumes "skeleton t = skeleton s"
  shows "joins g t = joins g s" "upstream_addrs t = upstream_addrs s" "map igmpi_addr (igmprt_interfaces t) = map igmpi_addr (igmprt_interfaces s)"
    "upstream_interface t = upstream_interface s \<Longrightarrow> names_fit t = names_fit s" "length (igmprt_interfaces t) = length (igmprt_interfaces s)"
    "i < length (igmprt_interfaces s) \<Longrightarrow> (iface i t)\<lparr>igmpi_groups := []\<rparr> = (iface i s)\<lparr>igmpi_groups := []\<rparr>"
proof -
  have j: "joins g s = (if VALID_ADDR g then
        concat (map (\<lambda>ifp. [Add_membership g (igmpi_addr ifp), System (insert_rule (igmpi_name ifp) g)])
          (filter (\<lambda>ifp. igmpi_type ifp = UPSTREAM) (skeleton s))) else [])" for s
    by (simp add: joins_def skeleton_def filter_map comp_def)
  show "joins g t = joins g s" unfolding j assms ..
  have a: "upstream_addrs s = map igmpi_addr (filter (\<lambda>ifp. igmpi_type ifp = UPSTREAM) (skeleton s))" for s
    by (simp add: upstream_addrs_def skeleton_def filter_map comp_def)
  show "upstream_addrs t = upstream_addrs s" unfolding a assms ..
  have m: "map igmpi_addr (igmprt_interfaces s) = map igmpi_addr (skeleton s)" for s by (simp add: skeleton_def)
  show "map igmpi_addr (igmprt_interfaces t) = map igmpi_addr (igmprt_interfaces s)" unfolding m assms ..
  have "(\<forall>ifp \<in> set (igmprt_interfaces s). length (igmpi_name ifp) \<le> 15) \<longleftrightarrow> (\<forall>ifp \<in> set (skeleton s). length (igmpi_name ifp) \<le> 15)" for s
    by (simp add: skeleton_def)
  then show "upstream_interface t = upstream_interface s \<Longrightarrow> names_fit t = names_fit s"
    using assms by (simp add: names_fit_def upstream_name_def)
  show l: "length (igmprt_interfaces t) = length (igmprt_interfaces s)"
    using arg_cong [OF assms, of length] by (simp add: skeleton_def)
  show "(iface i t)\<lparr>igmpi_groups := []\<rparr> = (iface i s)\<lparr>igmpi_groups := []\<rparr>" if "i < length (igmprt_interfaces s)"
    using arg_cong [OF assms, of "\<lambda>xs. xs ! i"] that l by (simp add: skeleton_def iface_def)
qed

lemma set_groups_cong:
  assumes "igmprt_interfaces t = igmprt_interfaces s"
  shows "igmprt_interfaces (set_groups i gs t) = igmprt_interfaces (set_groups i gs s)" "groups i t = groups i s" "iface i t = iface i s"
  using assms by (simp_all add: set_groups_def upd_iface_def iface_def groups_def)

text \<open>The steps of a report once the group is at position \<open>j\<close>.\<close>

lemma refresh_eq:
  assumes t: "i < length (igmprt_interfaces t)" "igmpi_type (iface i t) = DOWNSTREAM" "igmpi_index (iface i t) < MAXVIFS"
      "\<forall>n. os_malloc t n" "j < length (groups i t)" "igmpg_addr (groups i t ! j) = g"
  shows "\<exists>s' ms. (case igmp_group_rep_add i j src t of (rep, s2) \<Rightarrow> igmp_group_handle_isex i j [] s2) = Some s' \<and> same_router t s'
    \<and> igmprt_interfaces s' = igmprt_interfaces (set_groups i ((groups i t)[j := refreshed src (groups i t ! j)]) t)
    \<and> rt_out s' = rt_out t @ ms \<and> (\<forall>x \<in> set ms. \<exists>p. x = Add_mfc 0 g p (igmpi_index (iface i t)) True)
    \<and> ((\<forall>k. os_mfc t k) \<longrightarrow> VALID_ADDR g \<longrightarrow> ms = mfc_entries i g t)"
proof -
  let ?gp = "(groups i t ! j)\<lparr>igmpg_members := (if src \<in> set (igmpg_members (groups i t ! j)) then igmpg_members (groups i t ! j)
        else src # igmpg_members (groups i t ! j))\<rparr>"
  define t1 where "t1 = set_groups i ((groups i t)[j := ?gp]) t"
  obtain r s2 where s2: "igmp_group_rep_add i j src t = (r, s2)" "same_router t s2" "rt_out s2 = rt_out t"
    "igmprt_interfaces s2 = igmprt_interfaces t1"
    unfolding t1_def by (rule rep_add_eq [OF t(1,4,5), of src])
  note c = set_groups_cong [OF s2(4), of i]
  have t1: "groups i t1 = (groups i t)[j := ?gp]" "iface i t1 = (iface i t)\<lparr>igmpi_groups := (groups i t)[j := ?gp]\<rparr>"
    "mfc_entries i g t1 = mfc_entries i g t" using t(1) by (simp_all add: t1_def)
  have e: "mfc_entries i g s2 = mfc_entries i g t" using s2(4) c(3) t1(3) by (simp add: mfc_entries_def)
  have pre: "i < length (igmprt_interfaces s2)" "igmpi_type (iface i s2) = DOWNSTREAM" "igmpi_index (iface i s2) < MAXVIFS"
    "\<forall>n. os_malloc s2 n" "j < length (groups i s2)"
    using t s2(2,4) c t1 by (simp_all add: same_router_def t1_def)
  have gp: "groups i s2 ! j = ?gp" "igmpg_addr ?gp = g" using c(2) t1(1) t(5,6) by simp_all
  have l: "(groups i s2)[j := ?gp\<lparr>igmpg_timer := IGMP_GMI, igmpg_fmode := IGMP_FMODE_EXCLUDE\<rparr>] =
      (groups i t)[j := refreshed src (groups i t ! j)]" using c(2) t1(1) by (simp add: refreshed_def)
  obtain s' ms where s': "igmp_group_handle_isex i j [] s2 = Some s'" "same_router s2 s'"
    "igmprt_interfaces s' = igmprt_interfaces (set_groups i ((groups i t)[j := refreshed src (groups i t ! j)]) s2)"
    "rt_out s' = rt_out s2 @ ms" "\<forall>x \<in> set ms. \<exists>p. x = Add_mfc 0 g p (igmpi_index (iface i s2)) True"
    "(\<forall>k. os_mfc s2 k) \<longrightarrow> VALID_ADDR g \<longrightarrow> ms = mfc_entries i g s2"
    using isex_eq [OF pre] unfolding gp l by blast
  have "igmprt_interfaces s' = igmprt_interfaces (set_groups i ((groups i t)[j := refreshed src (groups i t ! j)]) t)"
    unfolding s'(3) c(1) by (simp add: t1_def)
  then show ?thesis
    using s2(1,2,3) s'(1,2,4,5,6) same_router_trans [OF s2(2) s'(2)] c(3) t1(2) e by (auto simp: same_router_def)
qed

lemma report_eq:
  assumes i: "i < length (igmprt_interfaces s)" "igmpi_type (iface i s) = DOWNSTREAM" "igmpi_index (iface i s) < MAXVIFS"
    and m: "\<forall>n. os_malloc s n" and u: "upstreams_ok s" and g: "IN_MULTICAST g"
  shows "\<exists>s' ms. igmp_interface_membership_report_v12 i src g s = Some s' \<and> same_router s s'
    \<and> igmprt_interfaces s' = igmprt_interfaces (set_groups i (reported src g (groups i s)) s)
    \<and> rt_out s' = rt_out s @ (if g \<in> igmpg_addr ` set (groups i s) then [] else joins g s) @ ms
    \<and> (\<forall>x \<in> set ms. \<exists>p. x = Add_mfc 0 g p (igmpi_index (iface i s)) True)
    \<and> ((\<forall>k. os_mfc s k) \<longrightarrow> VALID_ADDR g \<longrightarrow> ms = mfc_entries i g s)"
proof (cases "position (\<lambda>gp. igmpg_addr gp = g) (groups i s)")
  case (Some j)
  then have j: "j < length (groups i s)" "igmpg_addr (groups i s ! j) = g" using position_cases(2) by fast+
  then have "g \<in> igmpg_addr ` set (groups i s)" by force
  moreover have "igmp_interface_group_add i g s = Some (Some j, s)"
    using Some by (simp add: igmp_interface_group_add_def igmp_interface_group_lookup_def fold_set_groups)
  ultimately show ?thesis
    using refresh_eq [OF i m j] Some g by (auto simp: igmp_interface_membership_report_v12_def reported_def)
next
  case None
  then have new: "g \<notin> igmpg_addr ` set (groups i s)" by (auto simp: position_cases)
  let ?s1 = "s\<lparr>n_malloc := Suc (n_malloc s)\<rparr>" let ?gs = "igmp_group_create g # groups i s"
  define t where "t = set_groups i ?gs ?s1"
  have c: "groups i ?s1 = groups i s" "iface i ?s1 = iface i s" by (simp_all add: groups_def iface_def)
  have ti: "igmprt_interfaces t = igmprt_interfaces (set_groups i ?gs s)" unfolding t_def by (rule set_groups_cong) simp
  have t: "groups i t = ?gs" "iface i t = (iface i s)\<lparr>igmpi_groups := ?gs\<rparr>" "same_router s t" "rt_out t = rt_out s"
    using i(1) c by (simp_all add: t_def) (simp add: same_router_def)
  have nodown: "igmpi_type ifp = UPSTREAM \<longrightarrow> igmpi_groups ifp = []" if "ifp \<in> set (igmprt_interfaces t)" for ifp
    using that ti i u by (auto simp: set_groups_def upd_iface_def upstreams_ok_def iface_def dest!: set_update_subset_insert [THEN subsetD])
  have "skeleton ?s1 = skeleton s" by (simp add: skeleton_def)
  then have sk: "skeleton t = skeleton s" unfolding t_def by simp
  have "upstreams_ok t"
    using u nodown skeleton_cong(3,4) [OF sk] t(3) by (simp add: upstreams_ok_def same_router_def)
  then have "join_upstream g (igmprt_interfaces t) t = Some (emits (joins g t) t)"
    by (intro join_upstream_eq) (auto simp: upstreams_ok_def)
  moreover have "igmp_interface_group_lookup (iface i s) g = None"
    using None by (simp add: igmp_interface_group_lookup_def fold_set_groups)
  ultimately have add: "igmp_interface_group_add i g s = Some (Some 0, emits (joins g s) t)"
    using m skeleton_cong(1) [OF sk] c
    by (simp add: igmp_interface_group_add_def malloc_def t_def set_groups_def upd_iface_def fold_set_groups)
  let ?t = "emits (joins g s) t"
  have pre: "i < length (igmprt_interfaces ?t)" "igmpi_type (iface i ?t) = DOWNSTREAM" "igmpi_index (iface i ?t) < MAXVIFS"
    "\<forall>n. os_malloc ?t n" "0 < length (groups i ?t)" "igmpg_addr (groups i ?t ! 0) = g"
    using i m t ti skeleton_cong(5) [OF sk] by (simp_all add: igmp_group_create_def same_router_def)
  obtain s' ms where s': "(case igmp_group_rep_add i 0 src ?t of (rep, s2) \<Rightarrow> igmp_group_handle_isex i 0 [] s2) = Some s'"
    "same_router ?t s'" "igmprt_interfaces s' = igmprt_interfaces (set_groups i ((groups i ?t)[0 := refreshed src (groups i ?t ! 0)]) ?t)"
    "rt_out s' = rt_out ?t @ ms" "\<forall>x \<in> set ms. \<exists>p. x = Add_mfc 0 g p (igmpi_index (iface i ?t)) True"
    "(\<forall>k. os_mfc ?t k) \<longrightarrow> VALID_ADDR g \<longrightarrow> ms = mfc_entries i g ?t"
    using refresh_eq [OF pre] by blast
  have r: "same_router s ?t" using t(3) by simp
  have "igmprt_interfaces s' = igmprt_interfaces (set_groups i (reported src g (groups i s)) s)"
    using s'(3) t(1) None c by (simp add: reported_def t_def) (simp add: set_groups_def upd_iface_def iface_def)
  moreover have "mfc_entries i g ?t = mfc_entries i g s"
    using i(1) ti mfc_entries_set_groups [OF i(1), of g ?gs] set_groups_cong(3) [OF ti] by (simp add: mfc_entries_def)
  ultimately show ?thesis
    using add g new s'(1,4,5,6) t(2,4) r same_router_trans [OF r s'(2)]
    by (intro exI [of _ s'] exI [of _ ms]) (auto simp: igmp_interface_membership_report_v12_def same_router_def)
qed

end
