(* ===== verification/Igmp_Inv.thy ===== *)
theory Igmp_Inv
  imports Igmp_Spec Libc_Text
begin

text \<open>
  The invariant of the IGMP proxy, the table of memberships as an abstract map, and the theorems on whole runs: the proxy
  survives, and the memberships it holds upstream are those of its clients.
\<close>

section \<open>The table of an interface\<close>

text \<open>The members and the remaining time of each group.\<close>

definition table :: "igmp_group_t list \<Rightarrow> u32 \<Rightarrow> (u32 set \<times> int) option" where
  "table gs g = map_option (\<lambda>gp. (set (igmpg_members gp), igmpg_timer gp)) (find (\<lambda>gp. igmpg_addr gp = g) gs)"

definition members :: "igmp_group_t list \<Rightarrow> u32 \<Rightarrow> u32 set" where
  "members gs g = (case table gs g of None \<Rightarrow> {} | Some (m, t) \<Rightarrow> m)"

definition group_ok :: "igmp_group_t \<Rightarrow> bool" where
  "group_ok gp \<longleftrightarrow> 0 < igmpg_timer gp \<and> igmpg_timer gp \<le> IGMP_GMI \<and> igmpg_members gp \<noteq> [] \<and> distinct (igmpg_members gp)
     \<and> igmpg_fmode gp = IGMP_FMODE_EXCLUDE \<and> igmpg_sources gp = [] \<and> IN_MULTICAST (igmpg_addr gp)"

definition groups_ok :: "igmp_group_t list \<Rightarrow> bool" where
  "groups_ok gs \<longleftrightarrow> distinct (map igmpg_addr gs) \<and> list_all group_ok gs"

lemma table_simps [simp]: "table [] g = None"
  "table (gp # gs) g = (if igmpg_addr gp = g then Some (set (igmpg_members gp), igmpg_timer gp) else table gs g)"
  by (simp_all add: table_def)

lemma table_None: "table gs g = None \<longleftrightarrow> g \<notin> igmpg_addr ` set gs"
  by (induction gs) auto

lemma find_group:
  assumes "table gs g \<noteq> None"
  obtains gp where "find (\<lambda>gp. igmpg_addr gp = g) gs = Some gp" "gp \<in> set gs" "igmpg_addr gp = g"
proof -
  obtain gp where gp: "find (\<lambda>gp. igmpg_addr gp = g) gs = Some gp" using assms by (auto simp: table_def)
  then have "gp \<in> set gs" "igmpg_addr gp = g" by (auto simp: find_Some_iff)
  with gp show ?thesis by (rule that)
qed

lemma find_group_unique:
  fixes gs :: "igmp_group_t list"
  assumes "distinct (map igmpg_addr gs)" "gp \<in> set gs" "igmpg_addr gp = g"
  shows "find (\<lambda>gp. igmpg_addr gp = g) gs = Some gp"
proof -
  have "table gs g \<noteq> None" using assms(2,3) by (auto simp: table_None)
  then obtain gp' where f: "find (\<lambda>gp. igmpg_addr gp = g) gs = Some gp'" "gp' \<in> set gs" "igmpg_addr gp' = g"
    by (rule find_group)
  then have "gp' = gp" using assms by (metis distinct_map inj_on_eq_iff)
  with f(1) show ?thesis by simp
qed

text \<open>Operations that work on each group alone.\<close>

lemma table_each:
  assumes f: "\<And>gp. f gp = [] \<or> (\<exists>gp'. f gp = [gp'] \<and> igmpg_addr gp' = igmpg_addr gp)" and d: "distinct (map igmpg_addr gs)"
  shows "table (concat (map f gs)) g = (case find (\<lambda>gp. igmpg_addr gp = g) gs of None \<Rightarrow> None | Some gp \<Rightarrow> table (f gp) g)"
    "distinct (map igmpg_addr (concat (map f gs)))"
proof -
  have sub: "igmpg_addr ` set (concat (map f gs)) \<subseteq> igmpg_addr ` set gs" for gs
  proof
    fix a
    assume "a \<in> igmpg_addr ` set (concat (map f gs))"
    then obtain gp gp' where "gp \<in> set gs" "gp' \<in> set (f gp)" "a = igmpg_addr gp'" by auto
    then show "a \<in> igmpg_addr ` set gs" using f [of gp] by auto
  qed
  show "table (concat (map f gs)) g = (case find (\<lambda>gp. igmpg_addr gp = g) gs of None \<Rightarrow> None | Some gp \<Rightarrow> table (f gp) g)"
    using d
  proof (induction gs)
    case (Cons gp gs)
    have "table (concat (map f gs)) (igmpg_addr gp) = None"
      using Cons.prems sub [of gs] unfolding table_None by auto
    then show ?case using Cons f [of gp] by auto
  qed simp
  show "distinct (map igmpg_addr (concat (map f gs)))"
    using d
  proof (induction gs)
    case (Cons gp gs)
    have "igmpg_addr gp \<notin> igmpg_addr ` set (concat (map f gs))" using Cons.prems sub [of gs] by auto
    then show ?case using f [of gp] Cons by (elim disjE exE conjE) simp_all
  qed simp
qed

lemma table_reported:
  assumes "groups_ok gs" "IN_MULTICAST g"
  shows "groups_ok (reported src g gs)" "table (reported src g gs) = (table gs)(g \<mapsto> (insert src (members gs g), IGMP_GMI))"
proof -
  have upd: "table (gs[j := gp']) a = (if a = igmpg_addr gp' then Some (set (igmpg_members gp'), igmpg_timer gp') else table gs a)"
    if "j < length gs" "igmpg_addr (gs ! j) = igmpg_addr gp'" "\<forall>k < j. igmpg_addr (gs ! k) \<noteq> igmpg_addr gp'" for gs j gp' a
    using that
  proof (induction gs arbitrary: j)
    case (Cons gp gs)
    show ?case
    proof (cases j)
      case 0
      then show ?thesis using Cons.prems by simp
    next
      case (Suc k)
      have "\<forall>l < k. igmpg_addr (gs ! l) \<noteq> igmpg_addr gp'" using Cons.prems(3) Suc by auto
      moreover have "igmpg_addr gp \<noteq> igmpg_addr gp'" using Cons.prems(3) Suc by fastforce
      ultimately show ?thesis using Cons.IH [of k] Cons.prems(1,2) Suc by auto
    qed
  qed simp
  have nth: "table gs g = Some (set (igmpg_members (gs ! j)), igmpg_timer (gs ! j))"
    if "j < length gs" "igmpg_addr (gs ! j) = g" "\<forall>k < j. igmpg_addr (gs ! k) \<noteq> g" for j
    using upd [OF that(1) refl, of g] that by auto
  show "groups_ok (reported src g gs)"
  proof (cases "position (\<lambda>gp. igmpg_addr gp = g) gs")
    case None
    then have "g \<notin> igmpg_addr ` set gs" by (auto simp: position_cases)
    then show ?thesis
      using None assms by (auto simp: reported_def groups_ok_def group_ok_def refreshed_def igmp_group_create_def IGMP_GMI_def)
  next
    case (Some j)
    then have "j < length gs" using position_cases(2) by fast
    moreover have "map igmpg_addr (gs[j := refreshed src (gs ! j)]) = map igmpg_addr gs"
      using \<open>j < length gs\<close> by (intro nth_equalityI) (auto simp: nth_list_update refreshed_def)
    moreover have "group_ok (refreshed src (gs ! j))"
      using assms(1) \<open>j < length gs\<close> by (auto simp: groups_ok_def list_all_length group_ok_def refreshed_def IGMP_GMI_def)
    ultimately show ?thesis
      using Some assms(1) by (auto simp: reported_def groups_ok_def list_all_length nth_list_update)
  qed
  show "table (reported src g gs) = (table gs)(g \<mapsto> (insert src (members gs g), IGMP_GMI))"
  proof (cases "position (\<lambda>gp. igmpg_addr gp = g) gs")
    case None
    then have "table gs g = None" by (auto simp: position_cases table_None)
    then show ?thesis using None by (auto simp: fun_eq_iff reported_def refreshed_def igmp_group_create_def members_def)
  next
    case (Some j)
    then have j: "j < length gs" "igmpg_addr (gs ! j) = g" "\<forall>k < j. igmpg_addr (gs ! k) \<noteq> g" using position_cases(2) by fast+
    have "set (igmpg_members (refreshed src (gs ! j))) = insert src (members gs g)"
      using nth [OF j] by (auto simp: refreshed_def members_def)
    then show ?thesis
      using Some upd [OF j(1), of "refreshed src (gs ! j)"] j by (auto simp: fun_eq_iff reported_def refreshed_def)
  qed
qed

lemma table_left:
  assumes "groups_ok gs"
  shows "groups_ok (concat (map (left src g) gs))"
    "table (concat (map (left src g) gs)) =
      (if members gs g \<subseteq> {src} then (table gs)(g := None)
       else (table gs)(g := map_option (\<lambda>(m, t). (m - {src}, t)) (table gs g)))"
    "(\<exists>gp \<in> set gs. left src g gp = []) \<longleftrightarrow> table gs g \<noteq> None \<and> members gs g \<subseteq> {src}"
proof -
  have d: "distinct (map igmpg_addr gs)" and ok: "\<And>gp. gp \<in> set gs \<Longrightarrow> group_ok gp"
    using assms by (auto simp: groups_ok_def list_all_iff)
  have each: "left src g gp = [] \<or> (\<exists>gp'. left src g gp = [gp'] \<and> igmpg_addr gp' = igmpg_addr gp)" for gp
    by (simp add: left_def Let_def)
  have empty: "remove1 src ms = [] \<longleftrightarrow> set ms \<subseteq> {src}" if "distinct ms" "ms \<noteq> []" for ms
    using that set_remove1_eq [OF that(1), of src] by (metis Diff_eq_empty_iff set_empty)
  have "group_ok gp'" if "gp \<in> set gs" "gp' \<in> set (left src g gp)" for gp gp'
    using that ok [OF that(1)] by (auto simp: left_def Let_def group_ok_def split: if_splits)
  then show "groups_ok (concat (map (left src g) gs))"
    using table_each(2) [of "left src g", OF each d] by (auto simp: groups_ok_def list_all_iff)
  show "table (concat (map (left src g) gs)) =
      (if members gs g \<subseteq> {src} then (table gs)(g := None)
       else (table gs)(g := map_option (\<lambda>(m, t). (m - {src}, t)) (table gs g)))"
  proof
    fix a
    show "table (concat (map (left src g) gs)) a =
      (if members gs g \<subseteq> {src} then (table gs)(g := None)
       else (table gs)(g := map_option (\<lambda>(m, t). (m - {src}, t)) (table gs g))) a"
    proof (cases "find (\<lambda>gp. igmpg_addr gp = a) gs")
      case None
      then show ?thesis using table_each(1) [of "left src g", OF each d] by (auto simp: table_def)
    next
      case (Some gp)
      then have gp: "gp \<in> set gs" "igmpg_addr gp = a" by (auto simp: find_Some_iff)
      have m: "distinct (igmpg_members gp)" "igmpg_members gp \<noteq> []" using ok [OF gp(1)] by (simp_all add: group_ok_def)
      have t: "table (concat (map (left src g) gs)) a = table (left src g gp) a"
        using table_each(1) [of "left src g", OF each d, of a] Some by simp
      have a: "table gs a = Some (set (igmpg_members gp), igmpg_timer gp)" using Some by (simp add: table_def)
      show ?thesis
      proof (cases "a = g")
        case True
        then have "members gs g = set (igmpg_members gp)" using a by (simp add: members_def)
        then show ?thesis
          unfolding t using True a gp(2) empty [OF m] set_remove1_eq [OF m(1), of src] by (simp add: left_def Let_def)
      qed (use t a gp(2) in \<open>simp add: left_def\<close>)
    qed
  qed
  show "(\<exists>gp \<in> set gs. left src g gp = []) \<longleftrightarrow> table gs g \<noteq> None \<and> members gs g \<subseteq> {src}"
  proof
    assume "\<exists>gp \<in> set gs. left src g gp = []"
    then obtain gp where gp: "gp \<in> set gs" "igmpg_addr gp = g" "remove1 src (igmpg_members gp) = []"
      by (auto simp: left_def Let_def split: if_splits)
    have f: "find (\<lambda>gp. igmpg_addr gp = g) gs = Some gp" by (rule find_group_unique [OF d gp(1,2)])
    then show "table gs g \<noteq> None \<and> members gs g \<subseteq> {src}"
      using f gp(3) ok [OF gp(1)] empty [of "igmpg_members gp"] by (auto simp: table_def members_def group_ok_def)
  next
    assume a: "table gs g \<noteq> None \<and> members gs g \<subseteq> {src}"
    then obtain gp where f: "find (\<lambda>gp. igmpg_addr gp = g) gs = Some gp" "gp \<in> set gs" "igmpg_addr gp = g"
      using find_group by blast
    then show "\<exists>gp \<in> set gs. left src g gp = []"
      using a ok [OF f(2)] empty [of "igmpg_members gp"]
      by (intro bexI [of _ gp]) (auto simp: table_def members_def group_ok_def left_def)
  qed
qed

lemma table_ticked:
  assumes "groups_ok gs"
  shows "groups_ok (concat (map ticked gs))"
    "table (concat (map ticked gs)) g =
      (case table gs g of None \<Rightarrow> None
       | Some (m, t) \<Rightarrow> if g = INADDR_ALLRTRS_GROUP then Some (m, t) else if t = 1 then None else Some (m, t - 1))"
    "(\<exists>gp \<in> set gs. igmpg_addr gp = g \<and> ticked gp = []) \<longleftrightarrow> table gs g \<noteq> None \<and> table (concat (map ticked gs)) g = None"
proof -
  have d: "distinct (map igmpg_addr gs)" and ok: "\<And>gp. gp \<in> set gs \<Longrightarrow> group_ok gp"
    using assms by (auto simp: groups_ok_def list_all_iff)
  have each: "ticked gp = [] \<or> (\<exists>gp'. ticked gp = [gp'] \<and> igmpg_addr gp' = igmpg_addr gp)" for gp
    by (simp add: ticked_def Let_def)
  have "group_ok gp'" if "gp \<in> set gs" "gp' \<in> set (ticked gp)" for gp gp'
    using that ok [OF that(1)] by (auto simp: ticked_def Let_def group_ok_def split: if_splits)
  then show "groups_ok (concat (map ticked gs))"
    using table_each(2) [of ticked, OF each d] by (auto simp: groups_ok_def list_all_iff)
  note t = table_each(1) [of ticked, OF each d, of g]
  show "table (concat (map ticked gs)) g =
      (case table gs g of None \<Rightarrow> None
       | Some (m, t) \<Rightarrow> if g = INADDR_ALLRTRS_GROUP then Some (m, t) else if t = 1 then None else Some (m, t - 1))"
  proof (cases "find (\<lambda>gp. igmpg_addr gp = g) gs")
    case (Some gp)
    then have "gp \<in> set gs" "igmpg_addr gp = g" by (auto simp: find_Some_iff)
    then show ?thesis using t Some ok [of gp] by (auto simp: table_def ticked_def Let_def group_ok_def)
  qed (use t in \<open>simp add: table_def\<close>)
  show "(\<exists>gp \<in> set gs. igmpg_addr gp = g \<and> ticked gp = []) \<longleftrightarrow> table gs g \<noteq> None \<and> table (concat (map ticked gs)) g = None"
  proof
    assume "\<exists>gp \<in> set gs. igmpg_addr gp = g \<and> ticked gp = []"
    then obtain gp where "gp \<in> set gs" "igmpg_addr gp = g" "ticked gp = []" by blast
    then show "table gs g \<noteq> None \<and> table (concat (map ticked gs)) g = None" using t find_group_unique [OF d, of gp g] by (simp add: table_def)
  next
    assume a: "table gs g \<noteq> None \<and> table (concat (map ticked gs)) g = None"
    then obtain gp where f: "find (\<lambda>gp. igmpg_addr gp = g) gs = Some gp" "gp \<in> set gs" "igmpg_addr gp = g"
      using find_group by blast
    then show "\<exists>gp \<in> set gs. igmpg_addr gp = g \<and> ticked gp = []"
      using a t each [of gp] by (intro bexI [of _ gp]) auto
  qed
qed

section \<open>What the kernel has been told\<close>

text \<open>The groups that the kernel has joined on the interface with address \<open>a\<close>.\<close>

fun joined_step :: "u32 \<Rightarrow> igmp_out \<Rightarrow> u32 set \<Rightarrow> u32 set" where
  "joined_step a (Add_membership g b) m = (if b = a then insert g m else m)"
| "joined_step a (Drop_membership g b) m = (if b = a then m - {g} else m)"
| "joined_step a _ m = m"

definition joined :: "u32 \<Rightarrow> igmp_out list \<Rightarrow> u32 set" where
  "joined a xs = fold (joined_step a) xs {}"

fun neutral :: "igmp_out \<Rightarrow> bool" where
  "neutral (Add_membership g b) = False"
| "neutral (Drop_membership g b) = False"
| "neutral _ = True"

lemma fold_neutral: "list_all neutral xs \<Longrightarrow> fold (joined_step a) xs m = m"
proof (induction xs arbitrary: m)
  case (Cons x xs)
  then show ?case by (cases x) auto
qed simp

lemma fold_drops: "fold (joined_step a) (drops g s) m = (if VALID_ADDR g \<and> a \<in> set (upstream_addrs s) then m - {g} else m)"
proof -
  have "fold (joined_step a) (map (Drop_membership g) as) m = (if a \<in> set as then m - {g} else m)" for "as"
    by (induction "as" arbitrary: m) auto
  then show ?thesis by (simp add: drops_def)
qed

lemma fold_joins: "fold (joined_step a) (joins g s) m = (if VALID_ADDR g \<and> a \<in> set (upstream_addrs s) then insert g m else m)"
proof -
  have "fold (joined_step a) (concat (map (\<lambda>ifp. [Add_membership g (igmpi_addr ifp), System (insert_rule (igmpi_name ifp) g)]) ifps)) m =
      (if a \<in> igmpi_addr ` set ifps then insert g m else m)" for ifps :: "igmp_interface_t list"
    by (induction ifps arbitrary: m) auto
  then show ?thesis by (auto simp: joins_def upstream_addrs_def)
qed

lemma fold_expiry:
  "a \<in> set (upstream_addrs s) \<Longrightarrow>
   fold (joined_step a) (expiry_outs s gs) m = m - {g. VALID_ADDR g \<and> (\<exists>gp \<in> set gs. igmpg_addr gp = g \<and> ticked gp = [])}"
proof (induction gs arbitrary: m)
  case (Cons gp gs)
  then show ?case by (auto simp: expiry_outs_rec fold_drops)
qed (simp add: expiry_outs_rec)

section \<open>The invariant\<close>

definition if_ok :: "igmp_interface_t \<Rightarrow> bool" where
  "if_ok ifp \<longleftrightarrow> igmpi_version ifp = 22 \<and> igmpi_index ifp < MAXVIFS \<and> groups_ok (igmpi_groups ifp)
     \<and> (igmpi_isquerier ifp \<or> (\<exists>t. igmpi_oqp ifp = Some t \<and> 0 < t))"

definition router_ok :: "igmp_router \<Rightarrow> bool" where
  "router_ok s \<longleftrightarrow> upstreams_ok s \<and> freed_readable s \<and> (\<forall>n. os_malloc s n) \<and> (\<forall>ifp \<in> set (igmprt_interfaces s). if_ok ifp)
     \<and> ((\<exists>ifp \<in> set (igmprt_interfaces s). igmpi_type ifp = DOWNSTREAM) \<longrightarrow>
          (\<exists>k < length (igmprt_interfaces s). downstream s = Some k))"

text \<open>One downstream interface, and the memberships upstream are those of its table.\<close>

definition one_down :: "nat \<Rightarrow> igmp_router \<Rightarrow> bool" where
  "one_down i s \<longleftrightarrow> i < length (igmprt_interfaces s)
     \<and> (\<forall>k < length (igmprt_interfaces s). igmpi_type (iface k s) = DOWNSTREAM \<longleftrightarrow> k = i)"

definition mirrors :: "nat \<Rightarrow> igmp_router \<Rightarrow> bool" where
  "mirrors i s \<longleftrightarrow> (\<forall>a \<in> set (upstream_addrs s). joined a (rt_out s) = {g. VALID_ADDR g \<and> table (groups i s) g \<noteq> None})"

text \<open>The type, the number and the size of the buffer of each interface.\<close>

definition kinds :: "igmp_router \<Rightarrow> (if_type \<times> nat \<times> int) list" where
  "kinds s = map (\<lambda>ifp. (igmpi_type ifp, igmpi_index ifp, igmpi_bufsize ifp)) (igmprt_interfaces s)"

definition keeps :: "igmp_router \<Rightarrow> igmp_router \<Rightarrow> bool" where
  "keeps s s' \<longleftrightarrow> router_ok s' \<and> kinds s' = kinds s
     \<and> upstream_addrs s' = upstream_addrs s \<and> same_router s s' \<and> (\<forall>i. one_down i s \<and> mirrors i s \<longrightarrow> mirrors i s')"

lemma kinds_types: "kinds s' = kinds s \<Longrightarrow> map igmpi_type (igmprt_interfaces s') = map igmpi_type (igmprt_interfaces s)"
  by (drule arg_cong [of _ _ "map fst"]) (simp add: kinds_def comp_def)

lemma kinds_length: "kinds s' = kinds s \<Longrightarrow> length (igmprt_interfaces s') = length (igmprt_interfaces s)"
  using kinds_types map_eq_imp_length_eq by blast

lemma one_down_types:
  "kinds s' = kinds s \<Longrightarrow> one_down i s' = one_down i s"
proof -
  assume "kinds s' = kinds s"
  then have t: "map igmpi_type (igmprt_interfaces s') = map igmpi_type (igmprt_interfaces s)" by (rule kinds_types)
  then have l: "length (igmprt_interfaces s') = length (igmprt_interfaces s)" by (rule map_eq_imp_length_eq)
  have "igmpi_type (iface k s') = igmpi_type (iface k s)" if "k < length (igmprt_interfaces s)" for k
    using arg_cong [OF t, of "\<lambda>xs. xs ! k"] that l by (simp add: iface_def)
  then show ?thesis using l by (simp add: one_down_def)
qed

lemma keeps_trans: "keeps s s' \<Longrightarrow> keeps s' s'' \<Longrightarrow> keeps s s''"
  unfolding keeps_def using one_down_types same_router_trans by metis

lemma keeps_refl: "router_ok s \<Longrightarrow> keeps s s"
  by (simp add: keeps_def)

lemma keeps_length: "keeps s s' \<Longrightarrow> length (igmprt_interfaces s') = length (igmprt_interfaces s)"
  unfolding keeps_def using kinds_length by blast

lemma keeps_type: "keeps s s' \<Longrightarrow> i < length (igmprt_interfaces s) \<Longrightarrow> igmpi_type (iface i s') = igmpi_type (iface i s)"
proof -
  assume k: "keeps s s'" and i: "i < length (igmprt_interfaces s)"
  have "map igmpi_type (igmprt_interfaces s') ! i = map igmpi_type (igmprt_interfaces s) ! i"
    using k kinds_types [of s' s] by (simp add: keeps_def)
  then show ?thesis using i keeps_length [OF k] by (simp add: iface_def)
qed

lemma kinds_simps [simp]: "kinds (set_groups i gs s) = kinds s" "kinds (emits xs s) = kinds s"
proof -
  have "map (\<lambda>ifp. (igmpi_type ifp, igmpi_index ifp, igmpi_bufsize ifp)) (xs[i := (xs ! i)\<lparr>igmpi_groups := gs\<rparr>]) =
      map (\<lambda>ifp. (igmpi_type ifp, igmpi_index ifp, igmpi_bufsize ifp)) xs" for xs
    by (induction xs arbitrary: i) (auto split: nat.split)
  then show "kinds (set_groups i gs s) = kinds s" by (simp add: kinds_def set_groups_def upd_iface_def iface_def)
qed (simp add: kinds_def)

lemma router_if: "router_ok s \<Longrightarrow> i < length (igmprt_interfaces s) \<Longrightarrow> if_ok (iface i s)"
  by (simp add: router_ok_def iface_def)

text \<open>The invariant after the groups of a downstream interface have changed.\<close>

lemma router_ok_groups:
  assumes s: "router_ok s" and i: "i < length (igmprt_interfaces s)" "igmpi_type (iface i s) = DOWNSTREAM" and gs: "groups_ok gs"
    and s': "igmprt_interfaces s' = igmprt_interfaces (set_groups i gs s)" "same_router s s'"
  shows "router_ok s'" "kinds s' = kinds s"
    "upstream_addrs s' = upstream_addrs s" "groups i s' = gs"
proof -
  have l: "igmprt_interfaces s' = (igmprt_interfaces s)[i := (iface i s)\<lparr>igmpi_groups := gs\<rparr>]"
    using s'(1) by (simp add: set_groups_def upd_iface_def)
  have "skeleton s' = skeleton (set_groups i gs s)" using s'(1) by (simp add: skeleton_def)
  then have sk: "skeleton s' = skeleton s" by simp
  have "if_ok ((iface i s)\<lparr>igmpi_groups := gs\<rparr>)" using router_if [OF s i(1)] gs by (simp add: if_ok_def)
  then have ifs: "\<forall>ifp \<in> set (igmprt_interfaces s'). if_ok ifp \<and> (igmpi_type ifp = UPSTREAM \<longrightarrow> igmpi_groups ifp = [])"
    using s i(2) unfolding l by (auto simp: router_ok_def upstreams_ok_def dest!: set_update_subset_insert [THEN subsetD])
  have "kinds s' = kinds (set_groups i gs s)" using s'(1) by (simp add: kinds_def)
  then show "kinds s' = kinds s" by simp
  have "DOWNSTREAM \<in> set (map igmpi_type (igmprt_interfaces s))"
    unfolding set_map using i(2) nth_mem [OF i(1)] by (metis iface_def image_eqI)
  then have "\<exists>k < length (igmprt_interfaces s). downstream s = Some k" using s by (force simp: router_ok_def)
  then show "router_ok s'"
    using s s'(2) ifs skeleton_cong(3,4,5) [OF sk] by (auto simp: router_ok_def upstreams_ok_def same_router_def)
  show "upstream_addrs s' = upstream_addrs s" by (rule skeleton_cong(2) [OF sk])
  show "groups i s' = gs" using l i(1) by (simp add: groups_def iface_def)
qed

text \<open>Changes of an interface that do not touch its groups.\<close>

lemma keeps_upd_iface:
  assumes s: "router_ok s" and k: "k < length (igmprt_interfaces s)"
    and f: "if_ok (f (iface k s))" "igmpi_groups (f (iface k s)) = igmpi_groups (iface k s)"
      "igmpi_type (f (iface k s)) = igmpi_type (iface k s)" "igmpi_addr (f (iface k s)) = igmpi_addr (iface k s)"
      "igmpi_name (f (iface k s)) = igmpi_name (iface k s)" "igmpi_index (f (iface k s)) = igmpi_index (iface k s)"
      "igmpi_bufsize (f (iface k s)) = igmpi_bufsize (iface k s)"
  shows "keeps s (upd_iface k f s)"
proof -
  let ?s' = "upd_iface k f s"
  have l: "igmprt_interfaces ?s' = (igmprt_interfaces s)[k := f (iface k s)]" by (simp add: upd_iface_def)
  have same: "map h (igmprt_interfaces ?s') = map h (igmprt_interfaces s)" if "h (f (iface k s)) = h (iface k s)"
    for h :: "igmp_interface_t \<Rightarrow> 'a"
    unfolding l using that k by (simp add: map_update iface_def list_update_same_conv)
  have a: "map igmpi_addr (igmprt_interfaces ?s') = map igmpi_addr (igmprt_interfaces s)"
    and t: "map igmpi_type (igmprt_interfaces ?s') = map igmpi_type (igmprt_interfaces s)" using f by (auto intro: same)
  have kinds: "kinds ?s' = kinds s" unfolding kinds_def using f by (intro same) simp
  have at: "map (\<lambda>x. (igmpi_type x, igmpi_addr x)) (igmprt_interfaces ?s') = map (\<lambda>x. (igmpi_type x, igmpi_addr x)) (igmprt_interfaces s)"
    using f by (intro same) simp
  have e: "map igmpi_addr (filter (\<lambda>x. igmpi_type x = UPSTREAM) xs) =
      map snd (filter (\<lambda>p. fst p = UPSTREAM) (map (\<lambda>x. (igmpi_type x, igmpi_addr x)) xs))" for xs :: "igmp_interface_t list"
    by (simp add: filter_map comp_def)
  have ua: "upstream_addrs ?s' = upstream_addrs s" unfolding upstream_addrs_def e at ..
  have ifs: "\<forall>ifp \<in> set (igmprt_interfaces ?s'). if_ok ifp \<and> length (igmpi_name ifp) \<le> 15 \<and> (igmpi_type ifp = UPSTREAM \<longrightarrow> igmpi_groups ifp = [])"
    using s f k unfolding l
    by (auto simp: router_ok_def upstreams_ok_def names_fit_def iface_def dest!: set_update_subset_insert [THEN subsetD])
  have im: "(\<exists>ifp \<in> set xs. igmpi_type ifp = DOWNSTREAM) \<longleftrightarrow> DOWNSTREAM \<in> set (map igmpi_type xs)" for xs :: "igmp_interface_t list"
    by (simp add: image_iff eq_commute [of DOWNSTREAM])
  have dn: "(\<exists>ifp \<in> set (igmprt_interfaces ?s'). igmpi_type ifp = DOWNSTREAM) \<longleftrightarrow>
      (\<exists>ifp \<in> set (igmprt_interfaces s). igmpi_type ifp = DOWNSTREAM)" unfolding im t ..
  have "upstreams_ok ?s'"
    using s ifs a by (simp add: router_ok_def upstreams_ok_def names_fit_def upstream_name_def) (simp add: upd_iface_def)
  moreover have "\<forall>n. os_malloc s n" using s by (simp add: router_ok_def)
  ultimately have "router_ok ?s'"
    using s ifs dn by (auto simp: router_ok_def) (auto simp: upd_iface_def)
  moreover have "groups i ?s' = groups i s" for i
    using f(2) k by (cases "i = k") (simp_all add: groups_def)
  moreover have "rt_out ?s' = rt_out s" by (simp add: upd_iface_def)
  ultimately show ?thesis using kinds ua by (simp add: keeps_def mirrors_def)
qed

end
