(* ===== verification/Igmp_Run.thy ===== *)
theory Igmp_Run
  imports Igmp_Inv
begin

text \<open>
  Every operation of the IGMP proxy returns and keeps the invariant; what it makes of the tables of memberships.
\<close>

section \<open>Reports and leaves\<close>

lemma joined_append: "joined a (xs @ ys) = fold (joined_step a) ys (joined a xs)"
  by (simp add: joined_def)

lemma one_down_eq: "one_down k s \<Longrightarrow> i < length (igmprt_interfaces s) \<Longrightarrow> igmpi_type (iface i s) = DOWNSTREAM \<Longrightarrow> k = i"
  by (auto simp: one_down_def)

text \<open>An operation on the groups of the interface \<open>i\<close> whose output follows the table.\<close>

lemma keeps_groups:
  assumes s: "router_ok s" and i: "i < length (igmprt_interfaces s)" "igmpi_type (iface i s) = DOWNSTREAM" and gs: "groups_ok gs"
    and s': "igmprt_interfaces s' = igmprt_interfaces (set_groups i gs s)" "same_router s s'" "rt_out s' = rt_out s @ xs"
    and xs: "\<And>a. a \<in> set (upstream_addrs s) \<Longrightarrow> fold (joined_step a) xs {g. VALID_ADDR g \<and> table (groups i s) g \<noteq> None} =
      {g. VALID_ADDR g \<and> table gs g \<noteq> None}"
  shows "keeps s s'"
proof -
  note r = router_ok_groups [OF s i gs s'(1,2)]
  have "mirrors k s'" if k: "one_down k s" "mirrors k s" for k
  proof -
    have "k = i" using one_down_eq [OF k(1) i] .
    then have "joined a (rt_out s') = {g. VALID_ADDR g \<and> table (groups k s') g \<noteq> None}" if a: "a \<in> set (upstream_addrs s)" for a
      using k(2) xs [OF a] a r(4) by (simp add: mirrors_def s'(3) joined_append)
    then show ?thesis using r(3) by (simp add: mirrors_def)
  qed
  then show ?thesis using r(1-3) s'(2) by (simp add: keeps_def)
qed

lemma report_keeps:
  assumes s: "router_ok s" and i: "i < length (igmprt_interfaces s)" "igmpi_type (iface i s) = DOWNSTREAM"
  shows "\<exists>s'. igmp_interface_membership_report_v12 i src g s = Some s' \<and> keeps s s'
    \<and> (if IN_MULTICAST g then igmprt_interfaces s' = igmprt_interfaces (set_groups i (reported src g (groups i s)) s) else s' = s)"
proof (cases "IN_MULTICAST g")
  case False
  then show ?thesis using s by (simp add: igmp_interface_membership_report_v12_def keeps_refl)
next
  case g: True
  have ok: "if_ok (iface i s)" by (rule router_if [OF s i(1)])
  then have gs: "groups_ok (groups i s)" and ix: "igmpi_index (iface i s) < MAXVIFS" by (simp_all add: if_ok_def groups_def)
  have m: "\<forall>n. os_malloc s n" "upstreams_ok s" using s by (simp_all add: router_ok_def)
  let ?gs = "reported src g (groups i s)"
  obtain s' ms where s': "igmp_interface_membership_report_v12 i src g s = Some s'" "same_router s s'"
    "igmprt_interfaces s' = igmprt_interfaces (set_groups i ?gs s)"
    "rt_out s' = rt_out s @ (if g \<in> igmpg_addr ` set (groups i s) then [] else joins g s) @ ms"
    "\<forall>x \<in> set ms. \<exists>p. x = Add_mfc 0 g p (igmpi_index (iface i s)) True"
    using report_eq [OF i ix m g, of src] by blast
  have "list_all neutral ms" using s'(5) by (auto simp: list_all_iff)
  note ms = fold_neutral [OF this]
  have "keeps s s'"
  proof (rule keeps_groups [OF s i _ s'(3,2,4)])
    show "groups_ok ?gs" by (rule table_reported(1) [OF gs g])
    show "fold (joined_step a) ((if g \<in> igmpg_addr ` set (groups i s) then [] else joins g s) @ ms)
        {g. VALID_ADDR g \<and> table (groups i s) g \<noteq> None} = {g. VALID_ADDR g \<and> table ?gs g \<noteq> None}"
      if "a \<in> set (upstream_addrs s)" for a
      unfolding table_reported(2) [OF gs g] using that table_None [of "groups i s" g] by (auto simp: ms fold_joins)
  qed
  then show ?thesis using s'(1,3) g by auto
qed

text \<open>A leave goes through every downstream interface.\<close>

definition left_at :: "u32 \<Rightarrow> u32 \<Rightarrow> nat \<Rightarrow> igmp_router \<Rightarrow> bool" where
  "left_at src g k s \<longleftrightarrow> igmpi_type (iface k s) = DOWNSTREAM \<and> (\<exists>gp \<in> set (groups k s). left src g gp = [])"

definition after_leave :: "u32 \<Rightarrow> u32 \<Rightarrow> nat \<Rightarrow> igmp_router \<Rightarrow> igmp_group_t list" where
  "after_leave src g k s =
     (if igmpi_type (iface k s) = DOWNSTREAM then concat (map (left src g) (groups k s)) else groups k s)"

lemma rules_deleted_neutral: "list_all neutral (rules_deleted name f gs)"
  by (induction gs) (auto simp: rules_deleted_def)

lemma leave_interfaces_eq:
  assumes "router_ok s" "distinct is" "set is \<subseteq> {..<length (igmprt_interfaces s)}"
  shows "\<exists>s' ms. leave_interfaces src g is nd s = Some (nd \<or> (\<exists>k \<in> set is. left_at src g k s), s') \<and> router_ok s' \<and> same_router s s'
    \<and> kinds s' = kinds s \<and> upstream_addrs s' = upstream_addrs s
    \<and> rt_out s' = rt_out s @ ms \<and> list_all neutral ms
    \<and> (\<forall>k. groups k s' = (if k \<in> set is then after_leave src g k s else groups k s))"
  using assms
proof (induction "is" arbitrary: nd s)
  case Nil
  then show ?case by simp
next
  case (Cons i "is")
  have i: "i < length (igmprt_interfaces s)" "i \<notin> set is" "distinct is" using Cons.prems by auto
  show ?case
  proof (cases "igmpi_type (iface i s) = DOWNSTREAM")
    case False
    then have "left_at src g i s = False" "after_leave src g i s = groups i s" by (simp_all add: left_at_def after_leave_def)
    then show ?thesis using Cons.IH [of s nd] Cons.prems False by (auto split: if_splits)
  next
    case down: True
    have ok: "freed_readable s" "length (upstream_name 0 s) \<le> 15"
      using Cons.prems(1) by (simp_all add: router_ok_def upstreams_ok_def names_fit_def)
    let ?gs = "concat (map (left src g) (groups i s))"
    let ?ms = "rules_deleted (upstream_name 0 s) (left src g) (groups i s)" let ?s1 = "emits ?ms (set_groups i ?gs s)"
    have lg: "leave_groups src g i 0 nd s = Some (nd \<or> left_at src g i s, ?s1)"
      using leave_groups_eq [OF i(1) ok, of src g 0 nd] down by (simp add: left_at_def)
    have gs: "groups_ok ?gs" using router_if [OF Cons.prems(1) i(1)] by (intro table_left(1)) (simp add: if_ok_def groups_def)
    note r = router_ok_groups [OF Cons.prems(1) i(1) down gs, of ?s1, simplified]
    have same: "groups k ?s1 = groups k s" "iface k ?s1 = iface k s" if "k \<noteq> i" for k using that by simp_all
    have at: "left_at src g k ?s1 = left_at src g k s" "after_leave src g k ?s1 = after_leave src g k s" if "k \<noteq> i" for k
      using same [OF that] by (simp_all add: left_at_def after_leave_def)
    have "set is \<subseteq> {..<length (igmprt_interfaces ?s1)}" using Cons.prems(3) by simp
    then obtain s' ms where s': "leave_interfaces src g is (nd \<or> left_at src g i s) ?s1 =
        Some ((nd \<or> left_at src g i s) \<or> (\<exists>k \<in> set is. left_at src g k ?s1), s')" "router_ok s'" "same_router ?s1 s'"
      "kinds s' = kinds ?s1" "upstream_addrs s' = upstream_addrs ?s1"
      "rt_out s' = rt_out ?s1 @ ms" "list_all neutral ms"
      "\<forall>k. groups k s' = (if k \<in> set is then after_leave src g k ?s1 else groups k ?s1)"
      using Cons.IH [of ?s1 "nd \<or> left_at src g i s"] r(1) i(3) by blast
    have ex: "(\<exists>k \<in> set is. left_at src g k ?s1) \<longleftrightarrow> (\<exists>k \<in> set is. left_at src g k s)" using at(1) i(2) by metis
    have "groups k s' = (if k \<in> set (i # is) then after_leave src g k s else groups k s)" for k
      using s'(8) i(1,2) at(2) [of k] same(1) [of k] down by (cases "k = i") (auto simp: after_leave_def)
    moreover have "leave_interfaces src g (i # is) nd s = Some (nd \<or> (\<exists>k \<in> set (i # is). left_at src g k s), s')"
      using down lg s'(1) ex by simp
    moreover have "same_router s s'" using same_router_trans [of s ?s1 s'] s'(3) by simp
    moreover have "rt_out s' = rt_out s @ (?ms @ ms)" "list_all neutral (?ms @ ms)"
      using s'(6,7) rules_deleted_neutral by simp_all
    ultimately show ?thesis using s'(2,4,5) r(2,3) by fastforce
  qed
qed

lemma router_ok_emits: "router_ok s \<Longrightarrow> router_ok (emits xs s)"
  by (simp add: router_ok_def upstreams_ok_def names_fit_def) (simp add: emits_def)

lemma groups_beyond: "one_down i s \<Longrightarrow> i < length (igmprt_interfaces s)"
  by (simp add: one_down_def)

lemma leave_keeps:
  assumes s: "router_ok s"
  shows "\<exists>s'. igmp_interface_membership_leave_v2 src g s = Some s' \<and> keeps s s'
    \<and> (if IN_MULTICAST g then \<forall>k < length (igmprt_interfaces s). groups k s' = after_leave src g k s else s' = s)
    \<and> (\<forall>a. (\<exists>k < length (igmprt_interfaces s). left_at src g k s) \<longrightarrow> IN_MULTICAST g \<longrightarrow> VALID_ADDR g \<longrightarrow>
         a \<in> set (upstream_addrs s) \<longrightarrow> g \<notin> joined a (rt_out s'))"
proof (cases "IN_MULTICAST g")
  case False
  then show ?thesis using s by (simp add: igmp_interface_membership_leave_v2_def keeps_refl)
next
  case g: True
  let ?is = "[0..<length (igmprt_interfaces s)]"
  define nd where "nd \<longleftrightarrow> (\<exists>k \<in> set ?is. left_at src g k s)"
  have "set ?is \<subseteq> {..<length (igmprt_interfaces s)}" by auto
  then obtain s1 ms where s1: "leave_interfaces src g ?is False s = Some (nd, s1)" "router_ok s1" "same_router s s1"
    "kinds s1 = kinds s" "upstream_addrs s1 = upstream_addrs s"
    "rt_out s1 = rt_out s @ ms" "list_all neutral ms"
    "\<forall>k. groups k s1 = (if k \<in> set ?is then after_leave src g k s else groups k s)"
    using leave_interfaces_eq [OF s distinct_upt, of 0 "length (igmprt_interfaces s)" src g False] by (fastforce simp: nd_def)
  define s' where "s' = (if nd then emits (drops g s1) s1 else s1)"
  have eq: "igmp_interface_membership_leave_v2 src g s = Some s'"
    using g s1(1) by (simp add: igmp_interface_membership_leave_v2_def s'_def leave_upstream_eq)
  have gs: "groups k s' = after_leave src g k s" if "k < length (igmprt_interfaces s)" for k
    using s1(8) that by (simp add: s'_def)
  have joined': "joined a (rt_out s') = (if nd \<and> VALID_ADDR g then joined a (rt_out s) - {g} else joined a (rt_out s))"
    if "a \<in> set (upstream_addrs s)" for a
    using that s1(5,6) fold_neutral [OF s1(7)] by (auto simp: s'_def joined_append fold_drops)
  have "mirrors i s'" if i: "one_down i s" "mirrors i s" for i
  proof -
    have ii: "i < length (igmprt_interfaces s)" "igmpi_type (iface i s) = DOWNSTREAM" using i(1) by (auto simp: one_down_def)
    have ok: "groups_ok (groups i s)" using router_if [OF s ii(1)] by (simp add: if_ok_def groups_def)
    have nd: "nd \<longleftrightarrow> table (groups i s) g \<noteq> None \<and> members (groups i s) g \<subseteq> {src}"
      using i(1) ii table_left(3) [OF ok, of src g] by (auto simp: nd_def left_at_def one_down_def)
    have t: "table (groups i s') = (if members (groups i s) g \<subseteq> {src} then (table (groups i s))(g := None)
       else (table (groups i s))(g := map_option (\<lambda>(m, t). (m - {src}, t)) (table (groups i s) g)))"
      using gs [OF ii(1)] ii(2) table_left(2) [OF ok, of src g] by (simp add: after_leave_def)
    have "upstream_addrs s' = upstream_addrs s" using s1(5) by (simp add: s'_def)
    then show ?thesis
      using i(2) joined' unfolding mirrors_def t by (auto simp: nd)
  qed
  then have "keeps s s'" using s1(2-5) by (auto simp: keeps_def s'_def router_ok_emits)
  moreover have "nd \<longleftrightarrow> (\<exists>k < length (igmprt_interfaces s). left_at src g k s)" by (auto simp: nd_def)
  ultimately show ?thesis using eq gs joined' g by auto
qed

section \<open>Timers\<close>

lemma querier_keeps:
  assumes s: "router_ok s" and i: "i < length (igmprt_interfaces s)"
  shows "\<exists>s'. (if igmpi_isquerier (iface i s) then
       let t = igmpi_ti_qi (iface i s) - 1 in
       if t \<le> 0 then igmprt_membership_query i 0 (upd_iface i (\<lambda>ifp. ifp\<lparr>igmpi_ti_qi := igmpi_qi ifp\<rparr>) s)
       else Some (upd_iface i (\<lambda>ifp. ifp\<lparr>igmpi_ti_qi := t\<rparr>) s)
     else igmprt_timer_querier i s) = Some s' \<and> keeps s s' \<and> (\<forall>k. groups k s' = groups k s)"
proof -
  have ok: "if_ok (iface i s)" by (rule router_if [OF s i])
  have g: "groups k (upd_iface i f s) = groups k s" if "igmpi_groups (f (iface i s)) = igmpi_groups (iface i s)" for f k
    using that i by (cases "k = i") (simp_all add: groups_def)
  show ?thesis
  proof (cases "igmpi_isquerier (iface i s)")
    case True
    have k: "keeps s (upd_iface i (\<lambda>ifp. ifp\<lparr>igmpi_ti_qi := t ifp\<rparr>) s)" for t
      using ok by (intro keeps_upd_iface [OF s i]) (simp_all add: if_ok_def)
    have q: "\<exists>xs. igmprt_membership_query i 0 t = Some (emits xs t) \<and> list_all neutral xs" if "igmpi_version (iface i t) = 22" for t
      using that by (auto simp: igmprt_membership_query_def IGMP_VERSION_1_def IGMP_VERSION_2_def emit_emits Let_def
          intro!: exI [of _ "[Send_query x y z]" for x y z])
    show ?thesis
    proof (cases "igmpi_ti_qi (iface i s) - 1 \<le> 0")
      case zero: True
      let ?t = "upd_iface i (\<lambda>ifp. ifp\<lparr>igmpi_ti_qi := igmpi_qi ifp\<rparr>) s"
      obtain xs where xs: "igmprt_membership_query i 0 ?t = Some (emits xs ?t)" "list_all neutral xs"
        using q [of ?t] ok i by (auto simp: if_ok_def)
      have "keeps ?t (emits xs ?t)"
        using k [of igmpi_qi] fold_neutral [OF xs(2)] by (simp add: keeps_def router_ok_emits mirrors_def joined_append)
      then have "keeps s (emits xs ?t)" using keeps_trans [OF k] by blast
      then show ?thesis using True zero xs(1) g by simp
    next
      case False
      then show ?thesis using True k [of "\<lambda>_. igmpi_ti_qi (iface i s) - 1"] g by simp
    qed
  next
    case False
    then obtain t where t: "igmpi_oqp (iface i s) = Some t" "0 < t" using ok by (auto simp: if_ok_def)
    let ?f = "\<lambda>ifp. ifp\<lparr>igmpi_oqp := Some (t - 1), igmpi_isquerier := (if t - 1 = 0 then True else igmpi_isquerier ifp)\<rparr>"
    have "keeps s (upd_iface i ?f s)"
      using ok t by (intro keeps_upd_iface [OF s i]) (auto simp: if_ok_def)
    then show ?thesis using False t g [of ?f] by (simp add: igmprt_timer_querier_def)
  qed
qed

text \<open>What a second makes of the groups of an interface.\<close>

definition after_tick :: "nat \<Rightarrow> igmp_router \<Rightarrow> igmp_group_t list" where
  "after_tick k s = (if igmpi_type (iface k s) = DOWNSTREAM then concat (map ticked (groups k s)) else groups k s)"

lemma timer_interface_keeps:
  assumes s: "router_ok s" and i: "i < length (igmprt_interfaces s)"
  shows "\<exists>s'. igmprt_timer_interface i s = Some s' \<and> keeps s s' \<and> (\<forall>k. groups k s' = (if k = i then after_tick i s else groups k s))"
proof (cases "igmpi_type (iface i s) = DOWNSTREAM")
  case False
  then show ?thesis using s by (simp add: igmprt_timer_interface_def keeps_refl after_tick_def)
next
  case down: True
  obtain s1 where s1: "(if igmpi_isquerier (iface i s) then
       let t = igmpi_ti_qi (iface i s) - 1 in
       if t \<le> 0 then igmprt_membership_query i 0 (upd_iface i (\<lambda>ifp. ifp\<lparr>igmpi_ti_qi := igmpi_qi ifp\<rparr>) s)
       else Some (upd_iface i (\<lambda>ifp. ifp\<lparr>igmpi_ti_qi := t\<rparr>) s)
     else igmprt_timer_querier i s) = Some s1" "keeps s s1" "\<forall>k. groups k s1 = groups k s"
    using querier_keeps [OF s i] by blast
  have ok: "router_ok s1" using s1(2) by (simp add: keeps_def)
  have i1: "i < length (igmprt_interfaces s1)" "igmpi_type (iface i s1) = DOWNSTREAM"
    using keeps_length [OF s1(2)] keeps_type [OF s1(2) i] i down by simp_all
  have fr: "freed_readable s1" "length (upstream_name 0 s1) \<le> 15" using ok by (simp_all add: router_ok_def upstreams_ok_def names_fit_def)
  let ?gs = "concat (map ticked (groups i s1))"
  let ?s2 = "emits (expiry_outs s1 (groups i s1)) (set_groups i ?gs s1)"
  have t: "igmprt_timer_group i 0 s1 = Some ?s2" using timer_group_eq [OF i1(1) fr, of 0] by simp
  have gs: "groups_ok (groups i s1)" using router_if [OF ok i1(1)] by (simp add: if_ok_def groups_def)
  have sub: "table ?gs g = None" if "table (groups i s1) g = None" for g using that by (simp add: table_ticked(2) [OF gs])
  have "keeps s1 ?s2"
  proof (rule keeps_groups [OF ok i1])
    show "groups_ok ?gs" by (rule table_ticked(1) [OF gs])
    show "fold (joined_step a) (expiry_outs s1 (groups i s1)) {g. VALID_ADDR g \<and> table (groups i s1) g \<noteq> None} =
        {g. VALID_ADDR g \<and> table ?gs g \<noteq> None}" if "a \<in> set (upstream_addrs s1)" for a
      unfolding fold_expiry [OF that] table_ticked(3) [OF gs] set_eq_iff mem_Collect_eq Diff_iff using sub by metis
  qed simp_all
  then have "keeps s ?s2" by (rule keeps_trans [OF s1(2)])
  moreover have "igmprt_timer_interface i s = Some ?s2" using down s1(1) t by (simp add: igmprt_timer_interface_def)
  moreover have "groups k ?s2 = (if k = i then after_tick i s else groups k s)" for k
    using s1(3) i1(1) down by (simp add: after_tick_def)
  ultimately show ?thesis by blast
qed

lemma timer_interfaces_keeps:
  "router_ok s \<Longrightarrow> distinct is \<Longrightarrow> set is \<subseteq> {..<length (igmprt_interfaces s)} \<Longrightarrow>
   \<exists>s'. timer_interfaces is s = Some s' \<and> keeps s s' \<and> (\<forall>k. groups k s' = (if k \<in> set is then after_tick k s else groups k s))"
proof (induction "is" arbitrary: s)
  case Nil
  then show ?case by (simp add: keeps_refl)
next
  case (Cons i "is")
  then have i: "i < length (igmprt_interfaces s)" "i \<notin> set is" by auto
  obtain s1 where s1: "igmprt_timer_interface i s = Some s1" "keeps s s1" "\<forall>k. groups k s1 = (if k = i then after_tick i s else groups k s)"
    using timer_interface_keeps [OF Cons.prems(1) i(1)] by blast
  have "router_ok s1" "set is \<subseteq> {..<length (igmprt_interfaces s1)}"
    using s1(2) keeps_length [OF s1(2)] Cons.prems(3) by (simp_all add: keeps_def)
  then obtain s' where s': "timer_interfaces is s1 = Some s'" "keeps s1 s'"
    "\<forall>k. groups k s' = (if k \<in> set is then after_tick k s1 else groups k s1)"
    using Cons.IH [of s1] Cons.prems(2) by auto
  have "after_tick k s1 = after_tick k s" if "k \<in> set is" for k
    using that i(2) s1(3) keeps_type [OF s1(2), of k] Cons.prems(3) by (auto simp: after_tick_def)
  then have "groups k s' = (if k \<in> set (i # is) then after_tick k s else groups k s)" for k
    using s'(3) s1(3) i(2) by auto
  then show ?case using s1(1) s'(1) keeps_trans [OF s1(2) s'(2)] by auto
qed

lemma timer_keeps:
  assumes s: "router_ok s"
  shows "\<exists>s'. igmprt_timer s = Some s' \<and> keeps s s' \<and> (\<forall>k < length (igmprt_interfaces s). groups k s' = after_tick k s)"
proof -
  have "set [0..<length (igmprt_interfaces s)] \<subseteq> {..<length (igmprt_interfaces s)}" by auto
  from timer_interfaces_keeps [OF s distinct_upt this] show ?thesis unfolding igmprt_timer_def by force
qed

section \<open>Reception\<close>

lemma query_keeps:
  assumes s: "router_ok s" and i: "i < length (igmprt_interfaces s)"
  shows "keeps s (receive_membership_query i g [] src True s)"
proof -
  have "keeps s (upd_iface i (\<lambda>ifp. ifp\<lparr>igmpi_oqp := Some IGMP_OQPI, igmpi_isquerier := False\<rparr>) s)"
    using router_if [OF s i] by (intro keeps_upd_iface [OF s i]) (auto simp: if_ok_def IGMP_OQPI_def)
  then show ?thesis using s by (simp add: receive_membership_query_def keeps_refl Let_def)
qed

lemma handle_keeps:
  assumes s: "router_ok s" and i: "i < length (igmprt_interfaces s)" and d: "length d \<ge> hl + 8"
  shows "\<exists>s'. handle_igmp i d hl src s = Some s' \<and> keeps s s'"
proof -
  obtain p c g where r: "rd8 d hl = Some p" "rd8 d (hl + 1) = Some c" "rd32 d (hl + 4) = Some g"
    using d by (simp add: rd8_def rd32_def)
  have t: "igmpi_type (iface i s) \<noteq> UPSTREAM \<longleftrightarrow> igmpi_type (iface i s) = DOWNSTREAM" by (cases "igmpi_type (iface i s)") simp_all
  note rep = report_keeps [OF s i, of src g] and lv = leave_keeps [OF s, of src g] and q = query_keeps [OF s i, of g src]
    and refl = keeps_refl [OF s]
  show ?thesis
    unfolding handle_igmp_def r using rep lv q refl t by auto
qed

lemma input_keeps:
  assumes s: "router_ok s" and i: "i < length (igmprt_interfaces s)" "igmpi_type (iface i s) = DOWNSTREAM" and m: "im_data msg \<noteq> None"
  shows "\<exists>s'. igmprt_input i msg s = Some s' \<and> keeps s s'"
proof -
  obtain packet where p: "im_data msg = Some packet" using m by blast
  define d where "d = take (nat (igmpi_bufsize (iface i s))) packet"
  define hl where "hl = unat (d ! 0 AND 0xF) * 4"
  show ?thesis
  proof (cases "scan_cmsgs (igmpi_index (iface i s)) (im_cmsgs msg) 0 False")
    case None
    then show ?thesis using p keeps_refl [OF s] by (simp add: igmprt_input_def Let_def)
  next
    case (Some x)
    obtain if_index badmsg where x: "x = (if_index, badmsg)" by (cases x)
    have eq: "igmprt_input i msg s = (if length d \<le> 20 then Some s
       else if badmsg then map_option (\<lambda>k. upd_iface k (\<lambda>ifp. ifp\<lparr>igmpi_ti_qi := 10, igmpi_isquerier := True\<rparr>) s) (downstream s)
       else if length d < hl + 8 then Some s
       else Option.bind (rd32 d 12) (\<lambda>src. case igmprt_interface_lookup_index s if_index of
              None \<Rightarrow> Some s | Some k \<Rightarrow> handle_igmp k d hl src s))"
      unfolding igmprt_input_def p bind.bind_lunit Let_def d_def [symmetric] hl_def [symmetric] Some x
      by (simp add: map_option_case split: option.split)
    have "iface i s \<in> set (igmprt_interfaces s)" using i(1) by (simp add: iface_def)
    then obtain k where k: "k < length (igmprt_interfaces s)" "downstream s = Some k" using s i(2) by (auto simp: router_ok_def)
    have "keeps s (upd_iface k (\<lambda>ifp. ifp\<lparr>igmpi_ti_qi := 10, igmpi_isquerier := True\<rparr>) s)"
      using router_if [OF s k(1)] by (intro keeps_upd_iface [OF s k(1)]) (auto simp: if_ok_def)
    moreover have "\<exists>src. rd32 d 12 = Some src" if "length d > 20" using that by (simp add: rd32_def)
    moreover have "k' < length (igmprt_interfaces s)" if "igmprt_interface_lookup_index s if_index = Some k'" for k'
      using that position_cases(2) unfolding igmprt_interface_lookup_index_def by blast
    ultimately show ?thesis
      unfolding eq using k(2) keeps_refl [OF s] handle_keeps [OF s, of _ hl d] by (auto split: option.split)
  qed
qed

lemma input_interfaces_keeps:
  "router_ok s \<Longrightarrow> set is \<subseteq> {..<length (igmprt_interfaces s)} \<Longrightarrow> \<forall>i. im_data (sel_msg sel i) \<noteq> None \<Longrightarrow>
   \<exists>s'. input_interfaces is n sel s = Some s' \<and> keeps s s'"
proof (induction "is" arbitrary: n s)
  case Nil
  then show ?case by (simp add: keeps_refl)
next
  case (Cons i "is")
  have i: "i < length (igmprt_interfaces s)" "set is \<subseteq> {..<length (igmprt_interfaces s)}" using Cons.prems(2) by auto
  show ?case
  proof (cases "igmpi_type (iface i s) = DOWNSTREAM")
    case False
    then show ?thesis using Cons.IH [OF Cons.prems(1) i(2) Cons.prems(3)] by simp
  next
    case True
    obtain s1 where s1: "(if sel_ready sel i then igmprt_input i (sel_msg sel i) s else Some s) = Some s1" "keeps s s1"
      using input_keeps [OF Cons.prems(1) i(1) True, of "sel_msg sel i"] Cons.prems(1,3) keeps_refl by (cases "sel_ready sel i") auto
    then have "router_ok s1" "set is \<subseteq> {..<length (igmprt_interfaces s1)}" using i(2) keeps_length [OF s1(2)] by (simp_all add: keeps_def)
    then obtain s' where "input_interfaces is (n - 1) sel s1 = Some s'" "keeps s1 s'" using Cons.IH Cons.prems(3) by blast
    then show ?thesis using True s1 keeps_trans [OF s1(2)] by auto
  qed
qed

lemma input_thread_keeps:
  assumes s: "router_ok s" and sel: "\<forall>i. im_data (sel_msg sel i) \<noteq> None"
  shows "\<exists>s'. igmprt_input_thread sel s = Some s' \<and> keeps s s'"
proof -
  have "set [0..<length (igmprt_interfaces s)] \<subseteq> {..<length (igmprt_interfaces s)}" by auto
  from input_interfaces_keeps [OF s this sel] show ?thesis using keeps_refl [OF s] by (simp add: igmprt_input_thread_def)
qed

lemma timer_thread_keeps: "router_ok s \<Longrightarrow> \<exists>s'. igmprt_timer_thread s = Some s' \<and> keeps s s'"
  using timer_keeps [of s] keeps_refl by (auto simp: igmprt_timer_thread_def)

section \<open>Runs\<close>

text \<open>Reads from a socket that \<open>select\<close> reports as ready do not fail.\<close>

fun event_ok :: "igmp_event \<Rightarrow> bool" where
  "event_ok (Igmp_turn sel) \<longleftrightarrow> (\<forall>i. im_data (sel_msg sel i) \<noteq> None)"
| "event_ok Igmp_signal \<longleftrightarrow> True"

text \<open>The invariant of a run that began in \<open>s0\<close>; with one downstream interface the memberships upstream are those of its table.\<close>

fun run_ok :: "igmp_router \<Rightarrow> igmp_run \<Rightarrow> bool" where
  "run_ok s0 (Igmp_loop s) \<longleftrightarrow> keeps s0 s"
| "run_ok s0 (Igmp_exit k s) \<longleftrightarrow> True"

lemma step_keeps:
  assumes "run_ok s0 r" "event_ok ev"
  shows "\<exists>r'. igmp_step ev r = Some r' \<and> run_ok s0 r'"
proof (cases r)
  case (Igmp_loop s)
  show ?thesis
  proof (cases ev)
    case (Igmp_turn sel)
    have k: "keeps s0 s" "router_ok s" using assms(1) Igmp_loop by (simp_all add: keeps_def)
    obtain s1 where s1: "igmprt_timer_thread s = Some s1" "keeps s s1" using timer_thread_keeps [OF k(2)] by blast
    then obtain s2 where s2: "igmprt_input_thread sel s1 = Some s2" "keeps s1 s2"
      using input_thread_keeps [of s1 sel] assms(2) Igmp_turn by (auto simp: keeps_def)
    have "keeps s0 s2" using k(1) s1(2) s2(2) keeps_trans by blast
    then show ?thesis using Igmp_loop Igmp_turn s1(1) s2(1) by simp
  qed (use Igmp_loop in simp)
qed simp

interpretation proxy: total_component igmp_step event_ok "run_ok s0" for s0
proof
  fix r ev
  assume a: "run_ok s0 r" "event_ok ev"
  then show "\<exists>r'. igmp_step ev r = Some r'" using step_keeps by blast
  show "run_ok s0 r'" if "igmp_step ev r = Some r'" for r' using step_keeps [OF a] that by auto
qed

end
