(* ===== verification/Igmp_Start.thy ===== *)
theory Igmp_Start
  imports Igmp_Run
begin

text \<open>
  The start of the IGMP proxy establishes its invariant.
\<close>

section \<open>The arguments\<close>

definition name_ends :: "igmp_router \<Rightarrow> bool" where
  "name_ends s \<longleftrightarrow> length (upstream_interface s) = 80 \<and> (\<exists>j < 8. upstream_interface s ! j = CHR 0x00)"

lemma name_ends_short: "name_ends s \<Longrightarrow> length (upstream_name 0 s) \<le> 15"
proof -
  assume "name_ends s"
  then obtain j where j: "j < 8" "upstream_interface s ! j = CHR 0x00" "length (upstream_interface s) = 80" by (auto simp: name_ends_def)
  have "length (takeWhile (\<lambda>c. c \<noteq> CHR 0x00) (upstream_interface s)) \<le> j"
  proof (rule ccontr)
    assume "\<not> ?thesis"
    then have l: "j < length (takeWhile (\<lambda>c. c \<noteq> CHR 0x00) (upstream_interface s))" by simp
    then show False using takeWhile_nth [OF l] nth_mem [OF l] j(2) set_takeWhileD by metis
  qed
  then show ?thesis using j(1) by (simp add: upstream_name_def)
qed

lemma upstream_args_tail:
  "name_ends s \<Longrightarrow> 0 < i \<Longrightarrow> i + length as \<le> 10 \<Longrightarrow> list_all (\<lambda>a. length a \<le> 7) as \<Longrightarrow>
   \<exists>u. upstream_args i as s = Some (s\<lparr>upstream_interface := u\<rparr>) \<and> name_ends (s\<lparr>upstream_interface := u\<rparr>)"
proof (induction "as" arbitrary: i s)
  case Nil
  then show ?case by (intro exI [of _ "upstream_interface s"]) simp
next
  case (Cons a "as")
  let ?u = "buf_write (upstream_interface s) (8 * i) (a @ [CHR 0x00])"
  have l: "8 * i + length (a @ [CHR 0x00]) \<le> length (upstream_interface s)" using Cons.prems by (simp add: name_ends_def)
  obtain j where j: "j < 8" "upstream_interface s ! j = CHR 0x00" using Cons.prems(1) by (auto simp: name_ends_def)
  have "?u ! j = CHR 0x00" using nth_buf_write [OF l, of j] j Cons.prems(1,2) by (simp add: name_ends_def)
  then have e: "name_ends (s\<lparr>upstream_interface := ?u\<rparr>)"
    using l j(1) Cons.prems(1) by (auto simp: name_ends_def length_buf_write)
  obtain u where "upstream_args (Suc i) as (s\<lparr>upstream_interface := ?u\<rparr>) = Some (s\<lparr>upstream_interface := u\<rparr>)"
    "name_ends (s\<lparr>upstream_interface := u\<rparr>)"
    using Cons.IH [OF e, of "Suc i"] Cons.prems by auto
  then show ?case using l Cons.prems(1) by (auto simp: name_ends_def)
qed

lemma upstream_args_ok:
  assumes "upstream_interface s = replicate 80 (CHR 0x00)" "length as \<le> 10" "list_all (\<lambda>a. length a \<le> 7) as"
  shows "\<exists>u. upstream_args 0 as s = Some (s\<lparr>upstream_interface := u\<rparr>) \<and> name_ends (s\<lparr>upstream_interface := u\<rparr>)"
proof (cases "as")
  case Nil
  then show ?thesis using assms(1) by (intro exI [of _ "upstream_interface s"]) (auto simp: name_ends_def intro!: exI [of _ 0])
next
  case (Cons a as')
  let ?u = "buf_write (upstream_interface s) 0 (a @ [CHR 0x00])"
  have l: "0 + length (a @ [CHR 0x00]) \<le> length (upstream_interface s)" using assms Cons by simp
  have "?u ! length a = CHR 0x00" using nth_buf_write [OF l, of "length a"] l by simp
  then have e: "name_ends (s\<lparr>upstream_interface := ?u\<rparr>)"
    using l assms Cons by (auto simp: name_ends_def length_buf_write intro!: exI [of _ "length a"])
  show ?thesis using upstream_args_tail [OF e, of 1 as'] assms Cons by auto
qed

section \<open>The interfaces\<close>

definition env_ok :: "igmp_env \<Rightarrow> bool" where
  "env_ok env \<longleftrightarrow> (\<forall>k p. ie_name env k = Some p \<longrightarrow> length p \<le> 15) \<and> ie_name env 32 = None"

lemma interface_list_ok:
  assumes "env_ok env"
  shows "\<exists>l n. interface_list is env s = (l, s\<lparr>n_malloc := n\<rparr>) \<and> (distinct is \<longrightarrow> distinct (map fst l)) \<and> (\<forall>(k, p) \<in> set l. k \<in> set is \<and> k \<noteq> 32 \<and> length p \<le> 15)"
proof (induction "is" arbitrary: s)
  case Nil
  have "s = s\<lparr>n_malloc := n_malloc s\<rparr>" by simp
  then show ?case by (intro exI [of _ "[]"] exI [of _ "n_malloc s"]) simp
next
  case (Cons i "is")
  obtain l n where l: "interface_list is env (snd (malloc s)) = (l, (snd (malloc s))\<lparr>n_malloc := n\<rparr>)"
    "distinct is \<longrightarrow> distinct (map fst l)" "\<forall>(k, p) \<in> set l. k \<in> set is \<and> k \<noteq> 32 \<and> length p \<le> 15" using Cons.IH by blast
  obtain l' n' where l': "interface_list is env s = (l', s\<lparr>n_malloc := n'\<rparr>)"
    "distinct is \<longrightarrow> distinct (map fst l')" "\<forall>(k, p) \<in> set l'. k \<in> set is \<and> k \<noteq> 32 \<and> length p \<le> 15" using Cons.IH by blast
  show ?case
  proof (cases "ie_name env i")
    case None
    then show ?thesis using l' by (intro exI [of _ l'] exI [of _ n']) auto
  next
    case (Some p)
    then have p: "length p \<le> 15" "i \<noteq> 32" using assms by (auto simp: env_ok_def)
    show ?thesis
    proof (cases "starts_with ''eth2'' p \<or> starts_with ''usb'' p \<or> \<not> upstream_interface_lookup p s \<and> \<not> starts_with ''br'' p")
      case True
      then show ?thesis using Some l' by (intro exI [of _ l'] exI [of _ n']) auto
    next
      case False
      then show ?thesis using Some l p
        by (intro exI [of _ "if os_malloc s (n_malloc s) then (i, p) # l else l"] exI [of _ n]) (auto simp: malloc_def)
    qed
  qed
qed

text \<open>What holds while interfaces are added.\<close>

definition fresh_if :: "igmp_interface_t \<Rightarrow> bool" where
  "fresh_if ifp \<longleftrightarrow> length (igmpi_name ifp) \<le> 15 \<and> igmpi_groups ifp = [] \<and> if_ok ifp"

definition building :: "igmp_router \<Rightarrow> igmp_router \<Rightarrow> bool" where
  "building s0 s \<longleftrightarrow> distinct (map igmpi_addr (igmprt_interfaces s)) \<and> distinct (map igmpi_index (igmprt_interfaces s)) \<and> list_all fresh_if (igmprt_interfaces s)
     \<and> same_router s0 s \<and> list_all neutral (rt_out s)"

lemma building_emit: "building s0 s \<Longrightarrow> neutral x \<Longrightarrow> building s0 (emit x s)"
  by (simp add: building_def emit_emits)

lemma interface_add_ok:
  assumes b: "building s0 s" and k: "k < MAXVIFS" "length name \<le> 15" "k \<notin> igmpi_index ` set (igmprt_interfaces s)"
  shows "building s0 (igmprt_interface_add ifaddr name k env s)"
    "igmpi_index ` set (igmprt_interfaces (igmprt_interface_add ifaddr name k env s)) \<subseteq> insert k (igmpi_index ` set (igmprt_interfaces s))"
proof -
  let ?s' = "igmprt_interface_add ifaddr name k env s"
  have "building s0 ?s' \<and> igmpi_index ` set (igmprt_interfaces ?s') \<subseteq> insert k (igmpi_index ` set (igmprt_interfaces s))"
  proof (cases "igmprt_interface_lookup s ifaddr")
    case (Some u)
    then show ?thesis using b by (auto simp: igmprt_interface_add_def)
  next
    case None
    then have new: "ifaddr \<notin> igmpi_addr ` set (igmprt_interfaces s)"
      by (auto simp: igmprt_interface_lookup_def position_cases)
    have m: "building s0 (snd (malloc t))" "igmprt_interfaces (snd (malloc t)) = igmprt_interfaces t" if "building s0 t" for t
      using that by (simp_all add: building_def malloc_def same_router_def)
    define s2 where "s2 = snd (malloc (snd (malloc s)))"
    define s3 where "s3 = (if starts_with ''br'' name then emit (Mrt_init ifaddr) (emit (Join_routers ifaddr) s2) else s2)"
    define s4 where "s4 = all_multicast name k env s3"
    have s2: "building s0 s2" "igmprt_interfaces s2 = igmprt_interfaces s" using m b by (simp_all add: s2_def)
    have s3: "building s0 s3" "igmprt_interfaces s3 = igmprt_interfaces s"
      using s2 by (simp_all add: s3_def building_emit) (simp_all add: emit_def)
    have s4: "building s0 s4" "igmprt_interfaces s4 = igmprt_interfaces s"
      using s3 by (simp_all add: s4_def all_multicast_def Let_def building_emit) (simp_all add: emit_def)
    obtain ifp t where c: "igmp_interface_create ifaddr name k env s = (ifp, t)" by fastforce
    have "t = snd (malloc s) \<or> t = s2 \<or> t = s4"
      using c unfolding igmp_interface_create_def s4_def s3_def s2_def by (auto simp: Let_def split_beta split: if_splits)
    then have t: "building s0 t" "igmprt_interfaces t = igmprt_interfaces s" using b m s2 s4 by auto
    show ?thesis
    proof (cases ifp)
      case None
      then show ?thesis using t \<open>igmprt_interface_lookup s ifaddr = None\<close> c by (auto simp: igmprt_interface_add_def)
    next
      case (Some x)
      then have "igmpi_addr x = ifaddr" "igmpi_index x = k" "fresh_if x"
        using c k unfolding igmp_interface_create_def
        by (auto simp: Let_def split_beta fresh_if_def if_ok_def groups_ok_def split: if_splits)
      then show ?thesis
        using t new k(3) Some \<open>igmprt_interface_lookup s ifaddr = None\<close> c by (auto simp: igmprt_interface_add_def building_def same_router_def)
    qed
  qed
  then show "building s0 ?s'" "igmpi_index ` set (igmprt_interfaces ?s') \<subseteq> insert k (igmpi_index ` set (igmprt_interfaces s))" by blast+
qed

lemma add_interfaces_ok:
  "building s0 s \<Longrightarrow> \<forall>(k, p) \<in> set l. k < MAXVIFS \<and> length p \<le> 15 \<Longrightarrow> distinct (map fst l) \<Longrightarrow>
   fst ` set l \<inter> igmpi_index ` set (igmprt_interfaces s) = {} \<Longrightarrow> building s0 (add_interfaces l env s)"
proof (induction l env s rule: add_interfaces.induct)
  case (2 k name l env s)
  let ?s1 = "igmprt_interface_add (ie_addr env k) name k env s"
  have "k < MAXVIFS" "length name \<le> 15" "k \<notin> igmpi_index ` set (igmprt_interfaces s)" using 2(3-5) by auto
  note add = interface_add_ok [OF 2(2) this, of "ie_addr env k" env]
  have e: "igmprt_interfaces (emit (Add_vif (ie_addr env k) k) ?s1) = igmprt_interfaces ?s1" by (simp add: emit_def)
  have "k \<notin> fst ` set l" "fst ` set l \<inter> igmpi_index ` set (igmprt_interfaces s) = {}" using 2(4,5) by auto
  then have "fst ` set l \<inter> igmpi_index ` set (igmprt_interfaces (emit (Add_vif (ie_addr env k) k) ?s1)) = {}"
    unfolding e using add(2) by blast
  then show ?case using 2 add(1) by (simp add: building_emit)
qed simp

section \<open>The start\<close>

text \<open>How the proxy is started: at most ten upstream interfaces with names of at most seven characters, the interfaces of the
  system have numbers below 32, every allocation succeeds, and a block that was just freed can still be read.\<close>

definition igmp_start_ok :: "string list \<Rightarrow> igmp_env \<Rightarrow> igmp_router \<Rightarrow> bool" where
  "igmp_start_ok args env s \<longleftrightarrow> length args \<le> 10 \<and> list_all (\<lambda>a. length a \<le> 7) args \<and> env_ok env
     \<and> upstream_interface s = replicate 80 (CHR 0x00) \<and> (\<forall>n. os_malloc s n) \<and> freed_readable s \<and> \<not> igmprt_running s \<and> rt_out s = []"

lemma start_keeps:
  assumes "igmp_start_ok args env s"
  shows "\<exists>r. igmp_main args env s = Some r \<and> (\<exists>s'. r = Igmp_exit 1 s' \<or> r = Igmp_loop s' \<and> router_ok s'
    \<and> (\<forall>i < length (igmprt_interfaces s'). mirrors i s') \<and> distinct (map igmpi_index (igmprt_interfaces s')) \<and> igmprt_flag_timer s')"
proof -
  note ok = assms [unfolded igmp_start_ok_def]
  obtain u where u: "upstream_args 0 args s = Some (s\<lparr>upstream_interface := u\<rparr>)" "name_ends (s\<lparr>upstream_interface := u\<rparr>)"
    using upstream_args_ok [of s args] ok by blast
  let ?s1 = "s\<lparr>upstream_interface := u\<rparr>"
  show ?thesis
  proof (cases "\<not> ie_up_socket env \<or> \<not> ie_raw_socket env")
    case True
    then show ?thesis using u(1) by (auto simp: igmp_main_def)
  next
    case sockets: False
    have "\<exists>l n. get_interface_list env ?s1 = (l, ?s1\<lparr>n_malloc := n\<rparr>) \<and> distinct (map fst l)
        \<and> (\<forall>(k, p) \<in> set l. k < MAXVIFS \<and> length p \<le> 15)"
    proof (cases "ie_list_socket env")
      case True
      obtain l n where l: "interface_list [2..<33] env ?s1 = (l, ?s1\<lparr>n_malloc := n\<rparr>)"
        "distinct (map fst l)" "\<forall>(k, p) \<in> set l. k \<in> set [2..<33] \<and> k \<noteq> 32 \<and> length p \<le> 15"
        using interface_list_ok [of env "[2..<33]" ?s1] ok distinct_upt [of 2 33] by blast
      then have "\<forall>(k, p) \<in> set l. k < MAXVIFS \<and> length p \<le> 15" by fastforce
      then show ?thesis using l(1,2) True by (auto simp: get_interface_list_def simp del: upt_Suc)
    next
      case False
      then show ?thesis by (intro exI [of _ "[]"] exI [of _ "n_malloc ?s1"]) (simp add: get_interface_list_def)
    qed
    then obtain l n where l: "get_interface_list env ?s1 = (l, ?s1\<lparr>n_malloc := n\<rparr>)" "distinct (map fst l)" "\<forall>(k, p) \<in> set l. k < MAXVIFS \<and> length p \<le> 15"
      by blast
    let ?s2 = "?s1\<lparr>n_malloc := n, igmprt_interfaces := []\<rparr>"
    define s3 where "s3 = add_interfaces l env ?s2"
    have "building ?s1 ?s2" using ok by (simp add: building_def same_router_def)
    then have b: "building ?s1 s3" using l(2,3) unfolding s3_def by (intro add_interfaces_ok) simp_all
    define s4 where "s4 = (igmprt_start s3)\<lparr>downstream := position (\<lambda>ifp. igmpi_type ifp = DOWNSTREAM) (igmprt_interfaces (igmprt_start s3))\<rparr>"
    have m: "igmp_main args env s = Some (Igmp_loop s4)"
      using u(1) sockets l(1) by (simp add: igmp_main_def s3_def s4_def Let_def)
    have f: "igmprt_interfaces s4 = igmprt_interfaces s3" "rt_out s4 = rt_out s3" "upstream_interface s4 = u" "os_malloc s4 = os_malloc s"
      "freed_readable s4 = freed_readable s" "downstream s4 = position (\<lambda>ifp. igmpi_type ifp = DOWNSTREAM) (igmprt_interfaces s3)"
      "igmprt_flag_timer s4"
      using b ok by (auto simp: s4_def igmprt_start_def building_def same_router_def)
    have "upstream_name 0 s4 = upstream_name 0 ?s1" using f(3) by (simp add: upstream_name_def)
    then have "length (upstream_name 0 s4) \<le> 15" using name_ends_short [OF u(2)] by simp
    then have "upstreams_ok s4" using b f(1) by (simp add: upstreams_ok_def names_fit_def building_def list_all_iff fresh_if_def)
    moreover have "\<exists>k < length (igmprt_interfaces s4). downstream s4 = Some k"
      if "\<exists>ifp \<in> set (igmprt_interfaces s4). igmpi_type ifp = DOWNSTREAM"
      using that f(1,6) position_cases [of "\<lambda>ifp. igmpi_type ifp = DOWNSTREAM" "igmprt_interfaces s3"]
      by (cases "downstream s4") auto
    ultimately have "router_ok s4" using ok b f(1,4,5) by (auto simp: router_ok_def building_def list_all_iff fresh_if_def)
    moreover have "mirrors i s4" if "i < length (igmprt_interfaces s4)" for i
    proof -
      have "groups i s4 = []" using that b f(1) by (simp add: groups_def iface_def building_def list_all_length fresh_if_def)
      moreover have "joined a (rt_out s4) = {}" for a using b f(2) fold_neutral [of "rt_out s4" a "{}"] by (simp add: joined_def building_def)
      ultimately show ?thesis by (simp add: mirrors_def)
    qed
    moreover have "distinct (map igmpi_index (igmprt_interfaces s4))" using b f(1) by (simp add: building_def)
    ultimately show ?thesis using m f(7) by auto
  qed
qed

end
