(* ===== verification/Igmp_Turns.thy ===== *)
theory Igmp_Turns
  imports Igmp_Start
begin

text \<open>
  The abstract table of the IGMP proxy, the states that it reaches, and its turns with one downstream interface as operations
  on the abstract table.
\<close>

section \<open>The abstract table\<close>

text \<open>A group that has members has a set of them and the seconds that are left to it.\<close>

type_synonym membership_table = "u32 \<Rightarrow> (u32 set \<times> int) option"

definition spec_members :: "membership_table \<Rightarrow> u32 \<Rightarrow> u32 set" where
  "spec_members T g = (case T g of None \<Rightarrow> {} | Some (m, t) \<Rightarrow> m)"

definition spec_report :: "u32 \<Rightarrow> u32 \<Rightarrow> membership_table \<Rightarrow> membership_table" where
  "spec_report src g T = T(g \<mapsto> (insert src (spec_members T g), 260))"

definition spec_leave :: "u32 \<Rightarrow> u32 \<Rightarrow> membership_table \<Rightarrow> membership_table" where
  "spec_leave src g T =
     (case T g of None \<Rightarrow> T | Some (m, t) \<Rightarrow> if m \<subseteq> {src} then T(g := None) else T(g \<mapsto> (m - {src}, t)))"

definition spec_tick :: "membership_table \<Rightarrow> membership_table" where
  "spec_tick T g =
     (case T g of None \<Rightarrow> None
      | Some (m, t) \<Rightarrow> if g = INADDR_ALLRTRS_GROUP then Some (m, t) else if t = 1 then None else Some (m, t - 1))"

locale group_table =
  fixes inv :: "'t \<Rightarrow> bool" and abs :: "'t \<Rightarrow> membership_table"
    and report :: "u32 \<Rightarrow> u32 \<Rightarrow> 't \<Rightarrow> 't" and leave :: "u32 \<Rightarrow> u32 \<Rightarrow> 't \<Rightarrow> 't" and tick :: "'t \<Rightarrow> 't"
  assumes positive: "inv x \<Longrightarrow> abs x g = Some (m, t) \<Longrightarrow> 0 < t \<and> m \<noteq> {}"
    and report_refines: "inv x \<Longrightarrow> IN_MULTICAST g \<Longrightarrow> inv (report src g x) \<and> abs (report src g x) = spec_report src g (abs x)"
    and leave_refines: "inv x \<Longrightarrow> inv (leave src g x) \<and> abs (leave src g x) = spec_leave src g (abs x)"
    and tick_refines: "inv x \<Longrightarrow> inv (tick x) \<and> abs (tick x) = spec_tick (abs x)"
begin

lemma ticks_inv: "inv x \<Longrightarrow> inv ((tick ^^ n) x)"
  by (induction n) (auto simp: tick_refines)

lemma ticks_refine: "inv x \<Longrightarrow> abs ((tick ^^ n) x) = (spec_tick ^^ n) (abs x)"
  by (induction n) (auto simp: tick_refines ticks_inv)

lemma ticks:
  assumes "inv x" "abs x g = Some (m, t)" "g \<noteq> INADDR_ALLRTRS_GROUP"
  shows "abs ((tick ^^ n) x) g = (if int n < t then Some (m, t - int n) else None)"
proof (induction n)
  case 0
  then show ?case using positive [OF assms(1,2)] assms(2) by simp
next
  case (Suc n)
  have "abs (tick ((tick ^^ n) x)) = spec_tick (abs ((tick ^^ n) x))" using tick_refines ticks_inv [OF assms(1)] by blast
  then show ?case using Suc assms(3) by (auto simp: spec_tick_def)
qed

lemma report_expires:
  assumes "inv x" "IN_MULTICAST g" "g \<noteq> INADDR_ALLRTRS_GROUP"
  shows "abs ((tick ^^ n) (report src g x)) g =
     (if n < 260 then Some (insert src (spec_members (abs x) g), 260 - int n) else None)"
proof -
  have "inv (report src g x)" "abs (report src g x) g = Some (insert src (spec_members (abs x) g), 260)"
    using report_refines [OF assms(1,2), of src] by (auto simp: spec_report_def)
  from ticks [OF this assms(3), of n] show ?thesis by simp
qed

end

lemma members_eq: "members gs g = spec_members (table gs) g"
  by (simp add: members_def spec_members_def)

interpretation gt: group_table groups_ok table reported "\<lambda>src g gs. concat (map (left src g) gs)" "\<lambda>gs. concat (map ticked gs)"
proof
  fix gs g src m t
  assume ok: "groups_ok gs"
  show "groups_ok (reported src g gs) \<and> table (reported src g gs) = spec_report src g (table gs)" if "IN_MULTICAST g"
    using table_reported [OF ok that, of src] by (simp add: spec_report_def members_eq IGMP_GMI_def)
  show "groups_ok (concat (map (left src g) gs)) \<and> table (concat (map (left src g) gs)) = spec_leave src g (table gs)"
    using table_left(1,2) [OF ok, of src g]
    by (auto simp: spec_leave_def members_def fun_eq_iff split: option.split prod.split)
  show "groups_ok (concat (map ticked gs)) \<and> table (concat (map ticked gs)) = spec_tick (table gs)"
    using table_ticked(1,2) [OF ok] by (auto simp: spec_tick_def fun_eq_iff)
  show "0 < t \<and> m \<noteq> {}" if tab: "table gs g = Some (m, t)"
  proof -
    obtain gp where "find (\<lambda>gp. igmpg_addr gp = g) gs = Some gp" "gp \<in> set gs" by (rule find_group [of gs g]) (simp add: tab)
    then show ?thesis using tab ok by (auto simp: table_def groups_ok_def list_all_iff group_ok_def)
  qed
qed

section \<open>Reachable states\<close>

inductive reachable_proxy :: "igmp_run \<Rightarrow> bool" where
  start: "igmp_start_ok args env s \<Longrightarrow> igmp_main args env s = Some r \<Longrightarrow> reachable_proxy r"
| step: "reachable_proxy r \<Longrightarrow> event_ok ev \<Longrightarrow> igmp_step ev r = Some r' \<Longrightarrow> reachable_proxy r'"

lemma one_down_length: "one_down i s \<Longrightarrow> i < length (igmprt_interfaces s)"
  by (simp add: one_down_def)

text \<open>What a run keeps of the state in which it starts.\<close>

definition started :: "igmp_router \<Rightarrow> bool" where
  "started s0 \<longleftrightarrow> (\<forall>i. one_down i s0 \<longrightarrow> mirrors i s0) \<and> distinct (map igmpi_index (igmprt_interfaces s0)) \<and> igmprt_flag_timer s0"

lemma reachable_run_ok: "reachable_proxy r \<Longrightarrow> \<exists>s0. run_ok s0 r \<and> started s0"
proof (induction rule: reachable_proxy.induct)
  case (start args env s r)
  from start_keeps [OF start(1)] obtain s' where
    "r = Igmp_exit 1 s' \<or> r = Igmp_loop s' \<and> router_ok s' \<and> (\<forall>i < length (igmprt_interfaces s'). mirrors i s')
      \<and> distinct (map igmpi_index (igmprt_interfaces s')) \<and> igmprt_flag_timer s'"
    using start(2) by auto
  then show ?case
  proof
    assume "r = Igmp_exit 1 s'"
    then show ?case by (intro exI [of _ "s'\<lparr>igmprt_interfaces := [], igmprt_flag_timer := True\<rparr>"]) (simp add: one_down_def started_def)
  next
    assume "r = Igmp_loop s' \<and> router_ok s' \<and> (\<forall>i < length (igmprt_interfaces s'). mirrors i s')
      \<and> distinct (map igmpi_index (igmprt_interfaces s')) \<and> igmprt_flag_timer s'"
    then show ?case using keeps_refl [of s'] one_down_length [of _ s'] by (intro exI [of _ s']) (auto simp: started_def)
  qed
next
  case (step r ev r')
  then obtain s0 where "run_ok s0 r" "started s0" by blast
  then show ?case using step_keeps [of s0 r ev] step(2,3) by auto
qed

lemma kinds_index: "kinds s' = kinds s \<Longrightarrow> map igmpi_index (igmprt_interfaces s') = map igmpi_index (igmprt_interfaces s)"
  by (drule arg_cong [of _ _ "map (\<lambda>(t, k, b). k)"]) (simp add: kinds_def comp_def)

lemma reachable_ok:
  assumes "reachable_proxy (Igmp_loop s)"
  shows "router_ok s" "one_down i s \<Longrightarrow> mirrors i s" "distinct (map igmpi_index (igmprt_interfaces s))"
    "igmprt_flag_timer s"
proof -
  obtain s0 where k: "keeps s0 s" "started s0" using reachable_run_ok [OF assms] by auto
  then show "router_ok s" "one_down i s \<Longrightarrow> mirrors i s" using one_down_types [of s s0 i] by (auto simp: keeps_def started_def)
  show "distinct (map igmpi_index (igmprt_interfaces s))" using k kinds_index [of s s0] by (simp add: keeps_def started_def)
  show "igmprt_flag_timer s" using k by (simp add: keeps_def started_def same_router_def)
qed

lemma lookup_index:
  assumes "distinct (map igmpi_index (igmprt_interfaces s))" "i < length (igmprt_interfaces s)"
  shows "igmprt_interface_lookup_index s (igmpi_index (iface i s)) = Some i"
proof -
  let ?P = "\<lambda>ifp. igmpi_index ifp = igmpi_index (iface i s)"
  obtain k where k: "position ?P (igmprt_interfaces s) = Some k"
    using position_cases(1) [of ?P "igmprt_interfaces s"] nth_mem [OF assms(2)] by (cases "position ?P (igmprt_interfaces s)") (auto simp: iface_def)
  then have "k < length (igmprt_interfaces s)" "igmpi_index (igmprt_interfaces s ! k) = igmpi_index (iface i s)"
    using position_cases(2) by fast+
  then have "k = i" using assms nth_eq_iff_index_eq [OF assms(1), of k i] by (simp add: iface_def)
  with k show ?thesis by (simp add: igmprt_interface_lookup_index_def)
qed

section \<open>One turn with one downstream interface\<close>

lemma input_skips: "\<forall>k \<in> set is. igmpi_type (iface k s) \<noteq> DOWNSTREAM \<Longrightarrow> input_interfaces (is @ js) n sel s = input_interfaces js n sel s"
  by (induction "is") simp_all

lemma input_thread_one:
  assumes "router_ok s" "one_down i s" "\<forall>k. im_data (sel_msg sel k) \<noteq> None"
  shows "igmprt_input_thread sel s = (if sel_ready sel i then igmprt_input i (sel_msg sel i) s else Some s)"
proof -
  let ?n = "length (igmprt_interfaces s)"
  have i: "i < ?n" "igmpi_type (iface i s) = DOWNSTREAM" and others: "\<And>k. k < ?n \<Longrightarrow> k \<noteq> i \<Longrightarrow> igmpi_type (iface k s) \<noteq> DOWNSTREAM"
    using assms(2) by (auto simp: one_down_def)
  have mem: "iface i s \<in> set (igmprt_interfaces s)" using i(1) by (simp add: iface_def)
  have u: "[0..<?n] = [0..<i] @ i # [Suc i..<?n]" using i(1) by (metis less_imp_le_nat upt_conv_Cons upt_add_eq_append zero_le le_add_diff_inverse)
  have "input_interfaces [0..<?n] (sel_n sel) sel s = input_interfaces (i # [Suc i..<?n]) (sel_n sel) sel s"
    unfolding u using i(1) by (intro input_skips) (auto simp: others)
  moreover have "input_interfaces [Suc i..<?n] n sel s1 = Some s1" if "keeps s s1" for s1 n
    using input_skips [of "[Suc i..<?n]" s1 "[]" n sel] keeps_type [OF that] others by auto
  moreover obtain s1 where "igmprt_input i (sel_msg sel i) s = Some s1" "keeps s s1"
    using input_keeps [OF assms(1) i, of "sel_msg sel i"] assms(3) by blast
  ultimately have "input_interfaces [0..<?n] (sel_n sel) sel s = (if sel_ready sel i then igmprt_input i (sel_msg sel i) s else Some s)"
    using i(2) keeps_refl [OF assms(1)] by simp
  then show ?thesis using mem i(2) by (auto simp: igmprt_input_thread_def)
qed

text \<open>A received message is an IGMP message of type \<open>ty\<close> from \<open>src\<close> for the group \<open>g\<close>, from the interface with this number.\<close>

definition carries :: "igmp_msg \<Rightarrow> igmp_interface_t \<Rightarrow> u8 \<Rightarrow> u32 \<Rightarrow> u32 \<Rightarrow> bool" where
  "carries msg ifp ty src g \<longleftrightarrow> im_cmsgs msg = [Some (igmpi_index ifp)] \<and>
     (case im_data msg of None \<Rightarrow> False
      | Some d \<Rightarrow> let hl = unat (d ! 0 AND 0xF) * 4 in
          20 < length d \<and> hl + 8 \<le> length d \<and> int (length d) \<le> igmpi_bufsize ifp
          \<and> rd8 d hl = Some ty \<and> rd32 d 12 = Some src \<and> rd32 d (hl + 4) = Some g)"

definition spec_message :: "u8 \<Rightarrow> u32 \<Rightarrow> u32 \<Rightarrow> membership_table \<Rightarrow> membership_table" where
  "spec_message ty src g T =
     (if \<not> IN_MULTICAST g then T
      else if ty = IGMP_V1_MEMBERSHIP_REPORT \<or> ty = IGMP_V2_MEMBERSHIP_REPORT then spec_report src g T
      else if ty = IGMP_V2_MEMBERSHIP_LEAVE then spec_leave src g T else T)"

lemma table_receive_query: "groups k (receive_membership_query i g [] src True s) = groups k s" if "i < length (igmprt_interfaces s)"
  using that by (cases "k = i") (simp_all add: receive_membership_query_def groups_def Let_def)

lemma handle_refines:
  assumes s: "router_ok s" "one_down i s" and d: "hl + 8 \<le> length d" "rd8 d hl = Some ty" "rd32 d (hl + 4) = Some g"
    and r: "handle_igmp i d hl src s = Some s'"
  shows "table (groups i s') = spec_message ty src g (table (groups i s))"
proof -
  have i: "i < length (igmprt_interfaces s)" "igmpi_type (iface i s) = DOWNSTREAM" using s(2) by (auto simp: one_down_def)
  have gs: "groups_ok (groups i s)" using router_if [OF s(1) i(1)] by (simp add: if_ok_def groups_def)
  obtain c where c: "rd8 d (hl + 1) = Some c" using d(1) by (simp add: rd8_def)
  note h = r [unfolded handle_igmp_def d c bind.bind_lunit]
  obtain s1 where s1: "igmp_interface_membership_report_v12 i src g s = Some s1"
    "if IN_MULTICAST g then igmprt_interfaces s1 = igmprt_interfaces (set_groups i (reported src g (groups i s)) s) else s1 = s"
    using report_keeps [OF s(1) i, of src g] by blast
  obtain s2 where s2: "igmp_interface_membership_leave_v2 src g s = Some s2"
    "if IN_MULTICAST g then \<forall>k < length (igmprt_interfaces s). groups k s2 = after_leave src g k s else s2 = s"
    using leave_keeps [OF s(1), of src g] by blast
  have rep: "table (groups i s1) = spec_report src g (table (groups i s))" if "IN_MULTICAST g"
    using s1(2) that gt.report_refines [OF gs that, of src] set_groups_cong(2) [of s1 "set_groups i (reported src g (groups i s)) s" i] i(1)
    by simp
  have lv: "table (groups i s2) = spec_leave src g (table (groups i s))" if "IN_MULTICAST g"
    using s2(2) that gt.leave_refines [OF gs, of src g] i by (simp add: after_leave_def)
  consider "ty = IGMP_MEMBERSHIP_QUERY" | "ty = IGMP_V1_MEMBERSHIP_REPORT \<or> ty = IGMP_V2_MEMBERSHIP_REPORT" | "ty = IGMP_V2_MEMBERSHIP_LEAVE"
    | "ty \<notin> {IGMP_MEMBERSHIP_QUERY, IGMP_V1_MEMBERSHIP_REPORT, IGMP_V2_MEMBERSHIP_REPORT, IGMP_V2_MEMBERSHIP_LEAVE}" by blast
  then show ?thesis
  proof cases
    case 1
    then have "s' = s \<or> s' = receive_membership_query i g [] src True s" using h by (auto split: if_splits)
    then show ?thesis using 1 table_receive_query [OF i(1)]
      by (auto simp: spec_message_def IGMP_MEMBERSHIP_QUERY_def IGMP_V1_MEMBERSHIP_REPORT_def IGMP_V2_MEMBERSHIP_REPORT_def IGMP_V2_MEMBERSHIP_LEAVE_def)
  next
    case 2
    then have "s' = s1" using h s1(1) i(2)
      by (auto simp: IGMP_MEMBERSHIP_QUERY_def IGMP_V1_MEMBERSHIP_REPORT_def IGMP_V2_MEMBERSHIP_REPORT_def)
    then show ?thesis using 2 rep s1(2) by (auto simp: spec_message_def)
  next
    case 3
    then have "s' = s2" using h s2(1) i(2)
      by (auto simp: IGMP_MEMBERSHIP_QUERY_def IGMP_V1_MEMBERSHIP_REPORT_def IGMP_V2_MEMBERSHIP_REPORT_def IGMP_V2_MEMBERSHIP_LEAVE_def)
    then show ?thesis using 3 lv s2(2)
      by (auto simp: spec_message_def IGMP_V1_MEMBERSHIP_REPORT_def IGMP_V2_MEMBERSHIP_REPORT_def IGMP_V2_MEMBERSHIP_LEAVE_def)
  next
    case 4
    then show ?thesis using h by (simp add: spec_message_def)
  qed
qed

text \<open>The timers of a turn.\<close>

lemma timer_refines:
  assumes s: "router_ok s" "one_down i s" "igmprt_flag_timer s"
  obtains s' where "igmprt_timer_thread s = Some s'" "keeps s s'" "table (groups i s') = spec_tick (table (groups i s))"
proof -
  have i: "i < length (igmprt_interfaces s)" "igmpi_type (iface i s) = DOWNSTREAM" using s(2) by (auto simp: one_down_def)
  have gs: "groups_ok (groups i s)" using router_if [OF s(1) i(1)] by (simp add: if_ok_def groups_def)
  obtain s' where "igmprt_timer s = Some s'" "keeps s s'" "\<forall>k < length (igmprt_interfaces s). groups k s' = after_tick k s"
    using timer_keeps [OF s(1)] by blast
  moreover from this(3) have "table (groups i s') = spec_tick (table (groups i s))"
    using i gt.tick_refines [OF gs] by (simp add: after_tick_def)
  ultimately show ?thesis using that s(3) by (simp add: igmprt_timer_thread_def)
qed

lemma keeps_iface:
  assumes k: "keeps s s'" and i: "i < length (igmprt_interfaces s)"
  shows "igmpi_index (iface i s') = igmpi_index (iface i s)" "igmpi_bufsize (iface i s') = igmpi_bufsize (iface i s)"
proof -
  have "kinds s' ! i = kinds s ! i" using k by (simp add: keeps_def)
  then show "igmpi_index (iface i s') = igmpi_index (iface i s)" "igmpi_bufsize (iface i s') = igmpi_bufsize (iface i s)"
    using i keeps_length [OF k] by (simp_all add: kinds_def iface_def)
qed

lemma input_carries:
  assumes i: "i < length (igmprt_interfaces s)" and ix: "distinct (map igmpi_index (igmprt_interfaces s))" and c: "carries msg (iface i s) ty src g"
  obtains d hl where "igmprt_input i msg s = handle_igmp i d hl src s" "hl + 8 \<le> length d" "rd8 d hl = Some ty" "rd32 d (hl + 4) = Some g"
proof -
  obtain d where d: "im_data msg = Some d" using c by (auto simp: carries_def split: option.splits)
  define hl where "hl = unat (d ! 0 AND 0xF) * 4"
  have l: "20 < length d" "hl + 8 \<le> length d" "int (length d) \<le> igmpi_bufsize (iface i s)" "rd8 d hl = Some ty" "rd32 d 12 = Some src"
    "rd32 d (hl + 4) = Some g" "im_cmsgs msg = [Some (igmpi_index (iface i s))]"
    using c d by (simp_all add: carries_def hl_def Let_def)
  have t: "take (nat (igmpi_bufsize (iface i s))) d = d" using l(3) by (intro take_all) simp
  have "igmprt_input i msg s = handle_igmp i d hl src s"
    unfolding igmprt_input_def d bind.bind_lunit Let_def t hl_def [symmetric] using l lookup_index [OF ix i] by simp
  then show ?thesis using that l by blast
qed

lemma turn_refines:
  assumes s: "router_ok s" "one_down i s" "igmprt_flag_timer s" "distinct (map igmpi_index (igmprt_interfaces s))"
    and sel: "event_ok (Igmp_turn sel)" "sel_ready sel i" "carries (sel_msg sel i) (iface i s) ty src g"
  shows "\<exists>s'. igmp_step (Igmp_turn sel) (Igmp_loop s) = Some (Igmp_loop s') \<and> keeps s s'
    \<and> table (groups i s') = spec_message ty src g (spec_tick (table (groups i s)))"
proof -
  have i: "i < length (igmprt_interfaces s)" by (rule one_down_length [OF s(2)])
  obtain s1 where s1: "igmprt_timer_thread s = Some s1" "keeps s s1" "table (groups i s1) = spec_tick (table (groups i s))"
    by (rule timer_refines [OF s(1,2,3)])
  have ok: "router_ok s1" "one_down i s1" "distinct (map igmpi_index (igmprt_interfaces s1))"
    using s1(2) s(2,4) one_down_types [of s1 s i] kinds_index [of s1 s] by (simp_all add: keeps_def)
  have "carries (sel_msg sel i) (iface i s1) ty src g" using sel(3) keeps_iface [OF s1(2) i] by (simp add: carries_def cong: option.case_cong)
  then obtain d hl where d: "igmprt_input i (sel_msg sel i) s1 = handle_igmp i d hl src s1" "hl + 8 \<le> length d" "rd8 d hl = Some ty"
    "rd32 d (hl + 4) = Some g" using input_carries [OF one_down_length [OF ok(2)] ok(3)] by blast
  have t: "igmprt_input_thread sel s1 = handle_igmp i d hl src s1"
    using input_thread_one [OF ok(1,2), of sel] sel(1,2) d(1) by simp
  obtain s2 where s2: "handle_igmp i d hl src s1 = Some s2" "keeps s1 s2"
    using handle_keeps [OF ok(1) one_down_length [OF ok(2)] d(2)] by blast
  have "table (groups i s2) = spec_message ty src g (spec_tick (table (groups i s)))"
    using handle_refines [OF ok(1,2) d(2,3,4) s2(1)] s1(3) by simp
  moreover have "igmp_step (Igmp_turn sel) (Igmp_loop s) = Some (Igmp_loop s2)" using s1(1) t s2(1) by simp
  moreover have "keeps s s2" by (rule keeps_trans [OF s1(2) s2(2)])
  ultimately show ?thesis by blast
qed

lemma quiet_turn_refines:
  assumes s: "router_ok s" "one_down i s" "igmprt_flag_timer s" and sel: "event_ok (Igmp_turn sel)" "\<not> sel_ready sel i"
  shows "\<exists>s'. igmp_step (Igmp_turn sel) (Igmp_loop s) = Some (Igmp_loop s') \<and> keeps s s' \<and> table (groups i s') = spec_tick (table (groups i s))"
proof -
  obtain s1 where s1: "igmprt_timer_thread s = Some s1" "keeps s s1" "table (groups i s1) = spec_tick (table (groups i s))"
    by (rule timer_refines [OF s])
  have "igmprt_input_thread sel s1 = Some s1"
    using input_thread_one [of s1 i sel] s1(2) s(2) one_down_types [of s1 s i] sel by (simp add: keeps_def)
  then show ?thesis using s1 by auto
qed

lemma quiet_turns:
  assumes s: "router_ok s" "one_down i s" "igmprt_flag_timer s" and sel: "event_ok (Igmp_turn sel)" "\<not> sel_ready sel i"
  shows "\<exists>s'. run igmp_step (replicate n (Igmp_turn sel)) (Igmp_loop s) = Some (Igmp_loop s') \<and> keeps s s'
    \<and> table (groups i s') = (spec_tick ^^ n) (table (groups i s))"
proof (induction n)
  case 0
  then show ?case using keeps_refl [OF s(1)] by simp
next
  case (Suc n)
  then obtain s1 where s1: "run igmp_step (replicate n (Igmp_turn sel)) (Igmp_loop s) = Some (Igmp_loop s1)" "keeps s s1"
    "table (groups i s1) = (spec_tick ^^ n) (table (groups i s))" by blast
  have "router_ok s1" "one_down i s1" "igmprt_flag_timer s1"
    using s1(2) s(2,3) one_down_types [of s1 s i] by (simp_all add: keeps_def same_router_def)
  from quiet_turn_refines [OF this sel] obtain s2 where s2: "igmp_step (Igmp_turn sel) (Igmp_loop s1) = Some (Igmp_loop s2)"
    "keeps s1 s2" "table (groups i s2) = spec_tick (table (groups i s1))" by blast
  have last: "replicate (Suc n) (Igmp_turn sel) = replicate n (Igmp_turn sel) @ [Igmp_turn sel]" by (simp add: replicate_append_same)
  have "run igmp_step (replicate (Suc n) (Igmp_turn sel)) (Igmp_loop s) = Some (Igmp_loop s2)"
    unfolding last run_append using s1(1) s2(1) by simp
  then show ?case using s2(3) s1(3) keeps_trans [OF s1(2) s2(2)] by simp
qed

end
