(* ===== verification/Igmp_Properties.thy ===== *)
theory Igmp_Properties
  imports Igmp_Turns
begin

text \<open>
  Properties of the IGMP proxy: it survives every sequence of messages, its turns refine an abstract table of members and
  times, and the kernel has joined upstream what has members downstream. Four theorems show where it goes wrong.
\<close>

section \<open>An example\<close>

definition demo_env :: igmp_env where
  "demo_env = \<lparr>ie_up_socket = True, ie_raw_socket = True, ie_list_socket = True,
     ie_name = (\<lambda>k. if k = 2 then Some ''br0'' else if k = 3 then Some ''vlan2'' else None),
     ie_addr = (\<lambda>k. if k = 2 then 0xC0A80101 else 0x0A000002), ie_mtu = (\<lambda>_. 1500), ie_if_socket = (\<lambda>_. True),
     ie_flags = (\<lambda>_. 0), ie_new_flags = (\<lambda>_. 0x200)\<rparr>"

definition demo_router :: igmp_router where
  "demo_router = \<lparr>igmprt_interfaces = [], igmprt_membership_db = [], igmprt_flag_timer = False, igmprt_flag_input = False,
     igmprt_running = False, downstream = None, upstream_interface = replicate 80 (CHR 0x00), os_malloc = (\<lambda>_. True), n_malloc = 0,
     os_mfc = (\<lambda>_. True), n_mfc = 0, os_junk = [], freed_readable = True, rt_out = []\<rparr>"

text \<open>A message of type \<open>ty\<close> from 192.168.1.50 for the group 239.1.2.3, received on the bridge.\<close>

definition demo_message :: "u8 \<Rightarrow> igmp_select" where
  "demo_message ty = \<lparr>sel_n = 1, sel_ready = (\<lambda>i. i = 1),
     sel_msg = (\<lambda>_. \<lparr>im_data = Some ([0x45, 0, 0, 28, 0, 0, 0, 0, 1, 2, 0, 0, 192, 168, 1, 50, 239, 1, 2, 3, ty, 0, 0, 0, 239, 1, 2, 3]),
       im_cmsgs = [Some 2]\<rparr>)\<rparr>"

definition demo_group :: u32 where "demo_group = 0xEF010203"

lemma demo_start_ok: "igmp_start_ok [''vlan2''] demo_env demo_router"
  by (simp add: igmp_start_ok_def env_ok_def demo_env_def demo_router_def)

lemma demo_message_ok: "event_ok (Igmp_turn (demo_message ty))"
  by (simp add: demo_message_def)

definition demo_if :: "nat \<Rightarrow> igmp_interface_t" where
  "demo_if k = \<lparr>igmpi_addr = (if k = 2 then 0xC0A80101 else 0x0A000002), igmpi_name = (if k = 2 then ''br0'' else ''vlan2''), igmpi_index = k,
     igmpi_type = (if k = 2 then DOWNSTREAM else UPSTREAM), igmpi_groups = [], igmpi_version = 22, igmpi_isquerier = True, igmpi_qi = 125,
     igmpi_qri = 10, igmpi_gmi = 260, igmpi_oqp = None, igmpi_rv = 2, igmpi_ti_qi = 0, igmpi_save_flags = Some 0, igmpi_bufsize = 1500\<rparr>"

definition demo_started :: igmp_router where
  "demo_started = \<lparr>igmprt_interfaces = [demo_if 3, demo_if 2], igmprt_membership_db = [], igmprt_flag_timer = True, igmprt_flag_input = True,
     igmprt_running = True, downstream = Some 1, upstream_interface = ''vlan2'' @ replicate 75 (CHR 0x00), os_malloc = (\<lambda>_. True), n_malloc = 6,
     os_mfc = (\<lambda>_. True), n_mfc = 0, os_junk = [], freed_readable = True,
     rt_out = [Join_routers 0xC0A80101, Mrt_init 0xC0A80101, Set_flags ''br0'' 0x200, Add_vif 0xC0A80101 2, Set_flags ''vlan2'' 0x200,
       Add_vif 0x0A000002 3]\<rparr>"

lemma demo_args: "upstream_args 0 [''vlan2''] demo_router = Some (demo_router\<lparr>upstream_interface := ''vlan2'' @ replicate 75 (CHR 0x00)\<rparr>)"
proof -
  have "CHR 0x00 # replicate 74 (CHR 0x00) = replicate 75 (CHR 0x00)" by (simp add: replicate_Suc [symmetric] del: replicate_Suc)
  then show ?thesis by (simp add: demo_router_def buf_write_def)
qed

lemma demo_upstream: "upstream_interface_lookup ''vlan2'' (demo_router\<lparr>upstream_interface := ''vlan2'' @ replicate 75 (CHR 0x00), n_malloc := n\<rparr>)"
  by (auto simp: upstream_interface_lookup_def upstream_name_def takeWhile_append1 numeral_eq_Suc intro!: exI [of _ 0])

lemma demo_list: "get_interface_list demo_env (demo_router\<lparr>upstream_interface := ''vlan2'' @ replicate 75 (CHR 0x00)\<rparr>) =
  ([(2, ''br0''), (3, ''vlan2'')], demo_router\<lparr>upstream_interface := ''vlan2'' @ replicate 75 (CHR 0x00), n_malloc := 2\<rparr>)"
proof -
  have u: "[2..<33] = 2 # 3 # [4..<33]" by (simp add: upt_rec)
  have none: "interface_list is demo_env s = ([], s)" if "\<forall>i \<in> set is. 4 \<le> i" for "is" s
    using that by (induction "is") (auto simp: demo_env_def)
  have n: "interface_list [4..<33] demo_env s = ([], s)" for s by (rule none) auto
  show ?thesis
    unfolding get_interface_list_def u interface_list.simps n
    using demo_upstream [of 1] by (simp add: demo_env_def demo_router_def starts_with_def malloc_def)
qed

lemma demo_main: "igmp_main [''vlan2''] demo_env demo_router = Some (Igmp_loop demo_started)"
  unfolding igmp_main_def demo_args bind.bind_lunit demo_list Let_def prod.case
  by (simp add: demo_env_def demo_router_def demo_started_def demo_if_def starts_with_def malloc_def igmprt_start_def
      igmprt_interface_add_def igmprt_interface_lookup_def igmp_interface_create_def all_multicast_def position_def emit_def IFF_ALLMULTI_def)

lemma demo_reachable: "reachable_proxy (Igmp_loop demo_started)"
  using reachable_proxy.start demo_start_ok demo_main by blast

lemma demo_one_down: "one_down 1 demo_started"
  by (simp add: one_down_def demo_started_def demo_if_def iface_def less_Suc_eq numeral_2_eq_2)

lemma demo_carries: "carries (sel_msg (demo_message ty) 1) (iface 1 demo_started) ty 0xC0A80132 demo_group"
  by (simp add: carries_def demo_message_def demo_started_def demo_if_def iface_def demo_group_def rd8_def rd32_def) code_simp

section \<open>Properties\<close>



text \<open>C11: Every turn of a proxy with one downstream interface refines a step of the abstract table: the second that passes, and
  then the message that was received, a report, a leave or anything else.\<close>

theorem turn_refines_table:
  assumes "reachable_proxy (Igmp_loop s)" "one_down i s" "event_ok (Igmp_turn sel)"
    and "sel_ready sel i \<Longrightarrow> carries (sel_msg sel i) (iface i s) ty src g"
  shows "\<exists>s'. igmp_step (Igmp_turn sel) (Igmp_loop s) = Some (Igmp_loop s') \<and> one_down i s'
    \<and> table (groups i s') =
        (if sel_ready sel i then spec_message ty src g (spec_tick (table (groups i s))) else spec_tick (table (groups i s)))"
proof -
  note ok = reachable_ok [OF assms(1)]
  have down: "one_down i s'" if "keeps s s'" for s' using that assms(2) one_down_types [of s' s i] by (simp add: keeps_def)
  show ?thesis
  proof (cases "sel_ready sel i")
    case True
    then show ?thesis using turn_refines [OF ok(1) assms(2) ok(4,3) assms(3) True assms(4) [OF True]] down by auto
  next
    case False
    then show ?thesis using quiet_turn_refines [OF ok(1) assms(2) ok(4) assms(3) False] down by auto
  qed
qed

theorem turn_refines_table_witness:
  "\<exists>s'. igmp_step (Igmp_turn (demo_message 0x16)) (Igmp_loop demo_started) = Some (Igmp_loop s') \<and> one_down 1 s'
    \<and> table (groups 1 s') = spec_message 0x16 0xC0A80132 demo_group (spec_tick (table (groups 1 demo_started)))"
  using turn_refines_table [OF demo_reachable demo_one_down demo_message_ok demo_carries, of "0x16"]
  by (simp add: demo_message_def)

text \<open>A state of the example in which a group has a member.\<close>

lemma demo_member:
  "\<exists>s. reachable_proxy (Igmp_loop s) \<and> one_down 1 s \<and> upstream_addrs s = [0x0A000002] \<and> members (groups 1 s) demo_group = {0xC0A80132}"
proof -
  note ok = reachable_ok [OF demo_reachable]
  have ready: "sel_ready (demo_message 0x16) 1" by (simp add: demo_message_def)
  obtain s where s: "igmp_step (Igmp_turn (demo_message 0x16)) (Igmp_loop demo_started) = Some (Igmp_loop s)" "keeps demo_started s"
    "table (groups 1 s) = spec_message 0x16 0xC0A80132 demo_group (spec_tick (table (groups 1 demo_started)))"
    using turn_refines [OF ok(1) demo_one_down ok(4,3) demo_message_ok ready demo_carries] by blast
  have "groups 1 demo_started = []" by (simp add: groups_def iface_def demo_started_def demo_if_def)
  then have "members (groups 1 s) demo_group = {0xC0A80132}"
    using s(3) by (simp add: members_eq spec_message_def spec_members_def spec_report_def spec_tick_def demo_group_def IN_MULTICAST_def
        IGMP_V1_MEMBERSHIP_REPORT_def IGMP_V2_MEMBERSHIP_REPORT_def)
  moreover have "upstream_addrs s = [0x0A000002]" using s(2) by (simp add: keeps_def upstream_addrs_def demo_started_def demo_if_def)
  moreover have "one_down 1 s" using s(2) demo_one_down one_down_types [of s demo_started 1] by (simp add: keeps_def)
  ultimately show ?thesis using reachable_proxy.step [OF demo_reachable demo_message_ok s(1)] by blast
qed

text \<open>C12: In every state that a proxy with one downstream interface reaches, the groups that the kernel has joined on an
  upstream interface are exactly those that have a member downstream, the reserved groups of routers and hosts left out: what
  was joined for a report is left after the last leave or the time-out, and not before.\<close>

theorem upstream_mirrors_members:
  assumes "reachable_proxy (Igmp_loop s)" "one_down i s" "a \<in> set (upstream_addrs s)"
  shows "joined a (rt_out s) = {g. VALID_ADDR g \<and> members (groups i s) g \<noteq> {}}"
proof -
  note ok = reachable_ok [OF assms(1)]
  have "groups_ok (groups i s)"
    using router_if [OF ok(1) one_down_length [OF assms(2)]] by (simp add: if_ok_def groups_def)
  then have "table (groups i s) g \<noteq> None \<longleftrightarrow> members (groups i s) g \<noteq> {}" for g
    using gt.positive [of "groups i s" g] by (auto simp: members_def split: option.splits)
  moreover have "joined a (rt_out s) = {g. VALID_ADDR g \<and> table (groups i s) g \<noteq> None}"
    using ok(2) [OF assms(2)] assms(3) by (simp add: mirrors_def)
  ultimately show ?thesis by simp
qed

theorem upstream_mirrors_members_witness: "\<exists>s. reachable_proxy (Igmp_loop s) \<and> demo_group \<in> joined 0x0A000002 (rt_out s)"
proof -
  obtain s where s: "reachable_proxy (Igmp_loop s)" "one_down 1 s" "upstream_addrs s = [0x0A000002]"
    "members (groups 1 s) demo_group = {0xC0A80132}" using demo_member by blast
  have "VALID_ADDR demo_group"
    by (simp add: VALID_ADDR_def demo_group_def INADDR_ALLRTRS_GROUP_def INADDR_ALLHOSTS_GROUP_def INADDR_ALLRTRS_IGMPV3_GROUP_def
        INADDR_DVMPR_def INADDR_PIM_def)
  then have "demo_group \<in> joined 0x0A000002 (rt_out s)" using upstream_mirrors_members [OF s(1,2), of "0x0A000002"] s(3,4) by simp
  then show ?thesis using s(1) by blast
qed

text \<open>C13: A group for which a report was received and then nothing more stays for exactly 260 turns, which are seconds, and is then
  gone; the kernel has joined it upstream exactly that long.\<close>

theorem unreported_group_expires:
  assumes s: "reachable_proxy (Igmp_loop s)" "one_down i s"
    and sel: "event_ok (Igmp_turn sel)" "sel_ready sel i" "carries (sel_msg sel i) (iface i s) IGMP_V2_MEMBERSHIP_REPORT src g"
    and quiet: "event_ok (Igmp_turn quiet)" "\<not> sel_ready quiet i"
    and g: "IN_MULTICAST g" "VALID_ADDR g"
  shows "\<exists>s'. run igmp_step (Igmp_turn sel # replicate n (Igmp_turn quiet)) (Igmp_loop s) = Some (Igmp_loop s')
    \<and> (src \<in> members (groups i s') g \<longleftrightarrow> n < 260) \<and> (members (groups i s') g \<noteq> {} \<longleftrightarrow> n < 260)
    \<and> (\<forall>a \<in> set (upstream_addrs s'). g \<in> joined a (rt_out s') \<longleftrightarrow> n < 260)"
proof -
  note ok = reachable_ok [OF s(1)]
  let ?T = "spec_tick (table (groups i s))"
  obtain s1 where s1: "igmp_step (Igmp_turn sel) (Igmp_loop s) = Some (Igmp_loop s1)" "keeps s s1"
    "table (groups i s1) = spec_message IGMP_V2_MEMBERSHIP_REPORT src g ?T"
    using turn_refines [OF ok(1) s(2) ok(4,3) sel] by blast
  have k1: "router_ok s1" "one_down i s1" "igmprt_flag_timer s1"
    using s1(2) s(2) ok(4) one_down_types [of s1 s i] by (simp_all add: keeps_def same_router_def)
  obtain s2 where s2: "run igmp_step (replicate n (Igmp_turn quiet)) (Igmp_loop s1) = Some (Igmp_loop s2)" "keeps s1 s2"
    "table (groups i s2) = (spec_tick ^^ n) (table (groups i s1))" using quiet_turns [OF k1 quiet] by blast
  have gs: "groups_ok (groups i s1)" using router_if [OF k1(1) one_down_length [OF k1(2)]] by (simp add: if_ok_def groups_def)
  have t1: "table (groups i s1) g = Some (insert src (spec_members ?T g), 260)"
    using s1(3) g(1) by (simp add: spec_message_def spec_report_def)
  have "g \<noteq> INADDR_ALLRTRS_GROUP" using g(2) by (simp add: VALID_ADDR_def)
  from gt.ticks [OF gs t1 this, of n] have t2: "table (groups i s2) g = (if n < 260 then Some (insert src (spec_members ?T g), 260 - int n) else None)"
    using s2(3) gt.ticks_refine [OF gs, of n] by simp
  have "mirrors i s1" using s1(2) s(2) ok(2) by (simp add: keeps_def)
  then have m2: "mirrors i s2" using s2(2) k1(2) by (simp add: keeps_def)
  have "g \<in> joined a (rt_out s2) \<longleftrightarrow> n < 260" if "a \<in> set (upstream_addrs s2)" for a
    using m2 that t2 g(2) by (auto simp: mirrors_def)
  then show ?thesis using s1(1) s2(1) t2 by (intro exI [of _ s2]) (auto simp: members_def)
qed

definition demo_quiet :: igmp_select where
  "demo_quiet = (demo_message 0)\<lparr>sel_n := 0, sel_ready := (\<lambda>_. False)\<rparr>"

lemma demo_group_ok: "IN_MULTICAST demo_group" "VALID_ADDR demo_group"
  by (simp_all add: VALID_ADDR_def demo_group_def IN_MULTICAST_def INADDR_ALLRTRS_GROUP_def INADDR_ALLHOSTS_GROUP_def
      INADDR_ALLRTRS_IGMPV3_GROUP_def INADDR_DVMPR_def INADDR_PIM_def)

theorem unreported_group_expires_witness:
  "\<exists>s'. run igmp_step (Igmp_turn (demo_message 0x16) # replicate 260 (Igmp_turn demo_quiet)) (Igmp_loop demo_started) = Some (Igmp_loop s')
    \<and> members (groups 1 s') demo_group = {}"
proof -
  have q: "event_ok (Igmp_turn demo_quiet)" "\<not> sel_ready demo_quiet 1" by (simp_all add: demo_quiet_def demo_message_def)
  have m: "sel_ready (demo_message 0x16) 1" by (simp add: demo_message_def)
  have c: "carries (sel_msg (demo_message 0x16) 1) (iface 1 demo_started) IGMP_V2_MEMBERSHIP_REPORT 0xC0A80132 demo_group"
    using demo_carries by (simp add: IGMP_V2_MEMBERSHIP_REPORT_def)
  show ?thesis
    using unreported_group_expires [OF demo_reachable demo_one_down demo_message_ok m c q demo_group_ok, of 260] by blast
qed

text \<open>\<open>in_cksum\<close> folds the carries of its sum only once: for every message it gives the Internet checksum, as the DHCP programs
  compute it, exactly when the first folding does not carry again.\<close>

theorem in_cksum_is_checksum:
  assumes "length bs \<le> 65536"
  shows "in_cksum bs = checksum bs \<longleftrightarrow> sum16 bs div 65536 + sum16 bs mod 65536 < 65536"
proof -
  let ?n = "sum16 bs" let ?f = "?n div 65536 + ?n mod 65536"
  have eq: "in_cksum bs = checksum bs \<longleftrightarrow> ?f mod 65536 = fold16 ?n"
  proof -
    have "in_cksum bs = checksum bs \<longleftrightarrow> (word_of_nat ?f :: u16) = word_of_nat (fold16 ?n)" by (simp add: in_cksum_def checksum_def Let_def)
    also have "\<dots> \<longleftrightarrow> ?f mod 65536 = fold16 ?n mod 65536"
      unfolding word_of_nat_eq_iff by (simp add: take_bit_eq_mod)
    finally show ?thesis using fold16_lt [of ?n] by simp
  qed
  have once: "fold16 ?n = fold16 ?f"
    by (cases "?n div 65536 = 0") (simp_all add: fold16.simps [of ?n] add.commute)
  show ?thesis
  proof (cases "?f < 65536")
    case True
    then have "fold16 ?f = ?f" by (simp add: fold16.simps [of ?f])
    then show ?thesis using eq once True by simp
  next
    case False
    have "(length bs + 1) div 2 \<le> 32768" using assms by simp
    then have "?n < 65536 * 65536" using sum16_bound [of bs] by linarith
    then have "?n div 65536 < 65536" by (simp add: less_mult_imp_div_less)
    then have f: "?f < 131072" using mod_less_divisor [of 65536 ?n] by linarith
    have "x div 65536 = 1" "x mod 65536 = x - 65536" if "\<not> x < 65536" "x < 131072" for x :: nat
      using that by (simp_all add: div_nat_eqI le_mod_geq)
    note this [OF False f]
    moreover from this have "fold16 ?f = fold16 (?f - 65536 + 1)" by (simp add: fold16.simps [of ?f])
    moreover have "fold16 (?f - 65536 + 1) = ?f - 65536 + 1"
    proof -
      have "?f - 65536 + 1 < 65536" using mod_less_divisor [of 65536 ?n] \<open>?n div 65536 < 65536\<close> False by linarith
      moreover have "fold16 x = x" if "x < 65536" for x using that by (simp add: fold16.simps [of x])
      ultimately show ?thesis by blast
    qed
    ultimately show ?thesis using eq once False by simp
  qed
qed

theorem in_cksum_is_checksum_witness:
  "in_cksum [0x11, 0x0A, 0, 0, 0, 0, 0, 0] = checksum [0x11, 0x0A, 0, 0, 0, 0, 0, 0]
    \<and> in_cksum [0xFF, 0xFF, 0xFF, 0xFF, 0, 1] \<noteq> checksum [0xFF, 0xFF, 0xFF, 0xFF, 0, 1]"
proof -
  have "sum16 [0x11, 0x0A, 0, 0, 0, 0, 0, 0] = 4362" "sum16 [0xFF, 0xFF, 0xFF, 0xFF, 0, 1] = 131071" by (simp_all add: mk16_def)
  then show ?thesis
    using in_cksum_is_checksum [of "[0x11, 0x0A, 0, 0, 0, 0, 0, 0]"] in_cksum_is_checksum [of "[0xFF, 0xFF, 0xFF, 0xFF, 0, 1]"] by simp
qed

section \<open>Where the proxy goes wrong\<close>

lemma leave_groups_lost:
  assumes "i < length (igmprt_interfaces s)" "\<not> freed_readable s" "length (upstream_name 0 s) \<le> 15"
    "\<exists>gp \<in> set (drop j (groups i s)). left src g gp = []"
  shows "leave_groups src g i j nd s = None"
  using assms
proof (induction "length (groups i s) - j" arbitrary: j nd s)
  case 0
  then show ?case by simp
next
  case (Suc n)
  let ?gs = "groups i s" let ?gp = "?gs ! j" let ?ms = "remove1 src (igmpg_members ?gp)"
  have j: "j < length ?gs" using Suc.hyps(2) by simp
  have d: "drop j ?gs = ?gp # drop (Suc j) ?gs" using j by (simp add: Cons_nth_drop_Suc)
  note unfold = leave_groups.simps [of src g i j nd s, unfolded fold_set_groups group_eq rep_removed Let_def option.case]
  let ?gp' = "?gp\<lparr>igmpg_members := ?ms\<rparr>" let ?s1 = "set_groups i (?gs[j := ?gp']) s"
  show ?case
  proof (cases "left src g ?gp = []")
    case True
    then have g: "igmpg_addr ?gp = g" "?ms = []" by (auto simp: left_def Let_def split: if_splits)
    have "igmp_group_cleanup i j ?s1 = Some (emits [System (delete_rule (upstream_name 0 s) g)] (set_groups i (take j ?gs @ drop (Suc j) ?gs) s))"
      using group_cleanup_eq [of j i ?s1] Suc.prems(1,3) j g by simp
    then show ?thesis using unfold j Suc.prems g by (simp add: upd_group_eq igmp_rep_count_def)
  next
    case False
    then have rest: "\<exists>gp \<in> set (drop (Suc j) ?gs). left src g gp = []" using Suc.prems(4) unfolding d by auto
    show ?thesis
    proof (cases "igmpg_addr ?gp = g")
      case True
      then have "?ms \<noteq> []" using False by (auto simp: left_def Let_def)
      then have "leave_groups src g i j nd s = leave_groups src g i (Suc j) nd ?s1"
        using unfold j Suc.prems(1) True by (simp add: upd_group_eq igmp_rep_count_def)
      moreover have "groups i ?s1 = ?gs[j := ?gp']" using Suc.prems(1) by simp
      moreover have "n = length (?gs[j := ?gp']) - Suc j" using Suc.hyps(2) by simp
      ultimately show ?thesis using Suc.hyps(1) [of ?s1 "Suc j" nd] Suc.prems rest by simp
    next
      case False
      then have "leave_groups src g i j nd s = leave_groups src g i (Suc j) nd s" using unfold j Suc.prems(1) by simp
      moreover have "n = length ?gs - Suc j" using Suc.hyps(2) by simp
      ultimately show ?thesis using Suc.hyps(1) [of s "Suc j" nd] Suc.prems rest by simp
    qed
  qed
qed

lemma leave_skips: "\<forall>k \<in> set is. igmpi_type (iface k s) \<noteq> DOWNSTREAM \<Longrightarrow> leave_interfaces src g (is @ js) nd s = leave_interfaces src g js nd s"
  by (induction "is") simp_all

text \<open>The loop of a leave goes on from a group that it has just freed: when the freed block no longer holds the pointer to
  the next group, the leave of the last member of any group ends the run.\<close>

theorem last_leave_uses_freed_group:
  assumes "one_down i s" "\<not> freed_readable s" "length (upstream_name 0 s) \<le> 15" "IN_MULTICAST g"
    and gp: "gp \<in> set (groups i s)" "igmpg_addr gp = g" "igmpg_members gp = [src]"
  shows "igmp_interface_membership_leave_v2 src g s = None"
proof -
  let ?n = "length (igmprt_interfaces s)"
  have i: "i < ?n" "igmpi_type (iface i s) = DOWNSTREAM" using assms(1) by (auto simp: one_down_def)
  have u: "[0..<?n] = [0..<i] @ i # [Suc i..<?n]" using i(1) by (metis less_imp_le_nat upt_conv_Cons upt_add_eq_append zero_le le_add_diff_inverse)
  have "leave_interfaces src g [0..<?n] False s = leave_interfaces src g (i # [Suc i..<?n]) False s"
    unfolding u using assms(1) i(1) by (intro leave_skips) (auto simp: one_down_def)
  moreover have "left src g gp = []" using gp(2,3) by (simp add: left_def)
  then have "leave_groups src g i 0 False s = None" using leave_groups_lost [OF i(1) assms(2,3), of 0 src g] gp(1) by auto
  ultimately show ?thesis using assms(4) i(2) by (simp add: igmp_interface_membership_leave_v2_def)
qed

definition demo_entry :: "u32 \<Rightarrow> igmp_group_t" where
  "demo_entry m = \<lparr>igmpg_addr = demo_group, igmpg_timer = 100, igmpg_fmode = IGMP_FMODE_EXCLUDE, igmpg_version = 22, igmpg_members = [m],
     igmpg_sources = []\<rparr>"

theorem last_leave_uses_freed_group_witness:
  "igmp_interface_membership_leave_v2 7 demo_group ((set_groups 1 [demo_entry 7] demo_started)\<lparr>freed_readable := False\<rparr>) = None"
proof -
  let ?s = "(set_groups 1 [demo_entry 7] demo_started)\<lparr>freed_readable := False\<rparr>"
  have ifs: "igmprt_interfaces ?s = [demo_if 3, (demo_if 2)\<lparr>igmpi_groups := [demo_entry 7]\<rparr>]"
    by (simp add: set_groups_def upd_iface_def iface_def demo_started_def)
  have "one_down 1 ?s" unfolding one_down_def iface_def ifs by (auto simp: demo_if_def less_Suc_eq)
  moreover have "demo_entry 7 \<in> set (groups 1 ?s)" unfolding groups_def iface_def ifs by simp
  moreover have "length (upstream_name 0 ?s) \<le> 15"
    by (simp add: upstream_name_def set_groups_def upd_iface_def demo_started_def takeWhile_append1)
  ultimately show ?thesis
    using last_leave_uses_freed_group [of 1 ?s demo_group "demo_entry 7" 7] demo_group_ok by (simp add: demo_entry_def)
qed

text \<open>The number of ready sockets is counted down for every downstream interface, ready or not: when one message has arrived
  and it is not for the first downstream interface, it is not read, in this turn or any other like it.\<close>

theorem second_downstream_is_starved:
  assumes "i < length (igmprt_interfaces s)" "igmpi_type (iface i s) = DOWNSTREAM" "\<forall>k < i. igmpi_type (iface k s) \<noteq> DOWNSTREAM"
    and "sel_n sel = 1" "\<not> sel_ready sel i"
  shows "igmprt_input_thread sel s = Some s"
proof -
  let ?n = "length (igmprt_interfaces s)"
  have u: "[0..<?n] = [0..<i] @ i # [Suc i..<?n]" using assms(1) by (metis less_imp_le_nat upt_conv_Cons upt_add_eq_append zero_le le_add_diff_inverse)
  have "input_interfaces [0..<?n] (sel_n sel) sel s = input_interfaces (i # [Suc i..<?n]) (sel_n sel) sel s"
    unfolding u using assms(3) by (intro input_skips) auto
  then show ?thesis using assms by (simp add: igmprt_input_thread_def)
qed

definition two_lans :: igmp_router where
  "two_lans = demo_started\<lparr>igmprt_interfaces := [demo_if 3, (demo_if 2)\<lparr>igmpi_groups := [demo_entry 7]\<rparr>,
     (demo_if 2)\<lparr>igmpi_addr := 0xC0A80201, igmpi_name := ''br1'', igmpi_index := 4, igmpi_groups := [demo_entry 8]\<rparr>]\<rparr>"

theorem second_downstream_is_starved_witness:
  "igmprt_input_thread ((demo_message 0x16)\<lparr>sel_ready := (\<lambda>i. i = 2)\<rparr>) two_lans = Some two_lans"
  using second_downstream_is_starved [of 1 two_lans "(demo_message 0x16)\<lparr>sel_ready := (\<lambda>i. i = 2)\<rparr>"]
  by (simp add: two_lans_def demo_message_def demo_started_def demo_if_def iface_def)

text \<open>C37: With two downstream interfaces, the leave of the last member of a group on one of them drops the group upstream although
  it still has members on the other.\<close>

theorem leave_drops_group_of_other_lan:
  assumes s: "router_ok s" and k: "k < length (igmprt_interfaces s)" "igmpi_type (iface k s) = DOWNSTREAM"
    and gp: "gp \<in> set (groups k s)" "igmpg_addr gp = g" "igmpg_members gp = [src]"
    and k': "k' < length (igmprt_interfaces s)" "src \<notin> members (groups k' s) g"
    and g: "IN_MULTICAST g" "VALID_ADDR g" and a: "a \<in> set (upstream_addrs s)"
  shows "\<exists>s'. igmp_interface_membership_leave_v2 src g s = Some s' \<and> members (groups k' s') g = members (groups k' s) g
    \<and> g \<notin> joined a (rt_out s')"
proof -
  have "left src g gp = []" using gp(2,3) by (simp add: left_def)
  then have at: "left_at src g k s" using k(2) gp(1) by (auto simp: left_at_def)
  obtain s' where s': "igmp_interface_membership_leave_v2 src g s = Some s'"
    "\<forall>k < length (igmprt_interfaces s). groups k s' = after_leave src g k s"
    "\<forall>a. (\<exists>k < length (igmprt_interfaces s). left_at src g k s) \<longrightarrow> IN_MULTICAST g \<longrightarrow> VALID_ADDR g \<longrightarrow>
         a \<in> set (upstream_addrs s) \<longrightarrow> g \<notin> joined a (rt_out s')"
    using leave_keeps [OF s, of src g] g(1) by auto
  have gs: "groups_ok (groups k' s)" using router_if [OF s k'(1)] by (simp add: if_ok_def groups_def)
  have "table (concat (map (left src g) (groups k' s))) = spec_leave src g (table (groups k' s))"
    using gt.leave_refines [OF gs, of src g] by simp
  moreover have "spec_members (spec_leave src g T) g = spec_members T g" if "src \<notin> spec_members T g" "\<And>m t. T g = Some (m, t) \<Longrightarrow> m \<noteq> {}" for T
  proof (cases "T g")
    case (Some p)
    obtain m t where p: "p = (m, t)" by (cases p)
    then have "src \<notin> m" "m \<noteq> {}" using that Some by (auto simp: spec_members_def)
    then have "\<not> m \<subseteq> {src}" "m - {src} = m" by auto
    then show ?thesis using Some p by (simp add: spec_leave_def spec_members_def)
  qed (simp add: spec_leave_def)
  ultimately have "members (groups k' s') g = members (groups k' s) g"
    using s'(2) k' gt.positive [OF gs, of g] by (auto simp: after_leave_def members_eq)
  then show ?thesis using s'(1,3) at k(1) g a by blast
qed

theorem leave_drops_group_of_other_lan_witness:
  "\<exists>s'. igmp_interface_membership_leave_v2 7 demo_group two_lans = Some s' \<and> members (groups 2 s') demo_group = {8}
    \<and> demo_group \<notin> joined 0x0A000002 (rt_out s')"
proof -
  have ifs: "igmprt_interfaces two_lans = [demo_if 3, (demo_if 2)\<lparr>igmpi_groups := [demo_entry 7]\<rparr>,
     (demo_if 2)\<lparr>igmpi_addr := 0xC0A80201, igmpi_name := ''br1'', igmpi_index := 4, igmpi_groups := [demo_entry 8]\<rparr>]"
    by (simp add: two_lans_def)
  have n: "length (upstream_name 0 two_lans) \<le> 15"
    by (simp add: upstream_name_def two_lans_def demo_started_def takeWhile_append1)
  have "groups_ok [demo_entry m]" for m using demo_group_ok by (simp add: groups_ok_def group_ok_def demo_entry_def IGMP_GMI_def)
  then have "if_ok ifp" if "ifp \<in> set (igmprt_interfaces two_lans)" for ifp
    using that unfolding ifs by (auto simp: if_ok_def demo_if_def groups_ok_def)
  moreover have "upstreams_ok two_lans" using n unfolding upstreams_ok_def names_fit_def ifs by (simp add: demo_if_def)
  moreover have "downstream two_lans = Some 1" "length (igmprt_interfaces two_lans) = 3" "freed_readable two_lans" "\<forall>n. os_malloc two_lans n"
    by (simp_all add: two_lans_def demo_started_def)
  ultimately have ok: "router_ok two_lans" by (auto simp: router_ok_def)
  have "members (groups 2 two_lans) demo_group = {8}" by (simp add: members_def groups_def iface_def ifs demo_entry_def)
  then show ?thesis
    using leave_drops_group_of_other_lan [OF ok, of 1 "demo_entry 7" demo_group 7 2 "0x0A000002"] demo_group_ok
    by (simp add: groups_def iface_def ifs demo_if_def upstream_addrs_def) (simp add: demo_entry_def)
qed

end
