(* ===== verification/Igd_List.thy ===== *)
theory Igd_List
  imports Libc_Text
begin

text \<open>
  The port mappings of the UPnP gateway (\<open>linuxigd-0.95\<close>): the list of mappings and the firewall rules of each
  (\<open>pmlist.c\<close>), and the timers that end a mapping (\<open>gatedevice.c\<close>, and the queue of \<open>TimerThread.c\<close> of the UPnP library).

  The doubly linked list is a list; a pointer to a mapping is the number of its block, and a pointer to a block that was
  freed finds nothing. \<open>gd_malloc\<close> says which allocations succeed, \<open>gd_junk\<close> what the event number of a new block holds,
  and \<open>gd_freed_ok\<close> whether a block can still be written after it was freed.
\<close>

section \<open>Data\<close>

record igd_globals =
  extInterfaceName :: string
  iptables_path :: string
  upstreamBitrate :: string
  downstreamBitrate :: string
  forwardChainName :: string
  preroutingChainName :: string
  forwardRules :: bool
  g_duration :: int
  configureAllowed :: bool
  disableAllowed :: bool

record portMap =
  m_PortMappingEnabled :: int
  m_PortMappingLeaseDuration :: int
  m_RemoteHost :: string
  m_ExternalPort :: string
  m_InternalPort :: string
  m_PortMappingProtocol :: string
  m_InternalClient :: string
  m_PortMappingDescription :: string
  expirationEventId :: int
  expirationTime :: int
  pm_addr :: nat

record expiration_event =
  eventId :: int
  ev_DevUDN :: string
  ev_ServiceID :: string
  ev_mapping :: nat
  ev_time :: int

text \<open>What the gateway does outside: programs it runs, notifications, accepted subscriptions, and commands of the shell.\<close>

datatype igd_out =
    Execv "string list"
  | Notify string string "(string \<times> string) list"
  | Accept string string "(string \<times> string) list"
  | Shell string

datatype sched_result = Sched_ok | Sched_no_event | Sched_no_node

record igd =
  gd_vars :: igd_globals
  pmlist :: "portMap list"
  eventQ :: "expiration_event list"
  lastEventId :: int
  gd_pool :: "expiration_event list"
  n_block :: nat
  gd_malloc :: "nat \<Rightarrow> bool"
  gd_junk :: "nat \<Rightarrow> int"
  n_sched :: nat
  gd_sched :: "nat \<Rightarrow> sched_result"
  gd_freed_ok :: bool
  gd_out :: "igd_out list"

definition out :: "igd_out \<Rightarrow> igd \<Rightarrow> igd" where
  "out x s = s\<lparr>gd_out := gd_out s @ [x]\<rparr>"

text \<open>A block of memory: its number, or \<^term>\<open>None\<close>.\<close>

definition new_block :: "igd \<Rightarrow> nat option \<times> igd" where
  "new_block s = (if gd_malloc s (n_block s) then Some (n_block s) else None, s\<lparr>n_block := Suc (n_block s)\<rparr>)"

definition deref :: "nat \<Rightarrow> igd \<Rightarrow> portMap option" where
  "deref a s = find (\<lambda>m. pm_addr m = a) (pmlist s)"

definition upd_map :: "nat \<Rightarrow> (portMap \<Rightarrow> portMap) \<Rightarrow> igd \<Rightarrow> igd" where
  "upd_map a f s = s\<lparr>pmlist := map (\<lambda>m. if pm_addr m = a then f m else m) (pmlist s)\<rparr>"

text \<open>A number in 32 bits, and numbers in decimal.\<close>

definition wrap32 :: "int \<Rightarrow> int" where
  "wrap32 x = sint (word_of_int x :: u32)"

definition show_int :: "int \<Rightarrow> string" where
  "show_int x = (if x < 0 then ''-'' @ dec (nat (- x)) else dec (nat x))"

definition atol :: "string \<Rightarrow> int" where
  "atol cs =
     (let (neg, t) = split_sign (dropWhile isspace cs); n = int (fst (digits 10 t)) in
      if neg then max (- n) (- (2 ^ 31)) else min n (2 ^ 31 - 1))"

text \<open>\<open>sprintf\<close> into a buffer of \<open>n\<close> characters.\<close>

definition sprintf :: "nat \<Rightarrow> string \<Rightarrow> string option" where
  "sprintf n cs = (if length cs < n then Some cs else None)"

section \<open>The list\<close>

definition fit :: "nat \<Rightarrow> string \<Rightarrow> string" where
  "fit n cs = (if length cs < n then cs else [])"

definition pmlist_NewNode ::
    "int \<Rightarrow> int \<Rightarrow> string option \<Rightarrow> string \<Rightarrow> string \<Rightarrow> string \<Rightarrow> string \<Rightarrow> string \<Rightarrow> igd \<Rightarrow> (portMap \<times> igd) option" where
  "pmlist_NewNode enabled duration remoteHost externalPort internalPort protocol internalClient desc s =
     (case new_block s of
        (None, s1) \<Rightarrow> None
      | (Some a, s1) \<Rightarrow>
          Some (\<lparr>m_PortMappingEnabled = enabled, m_PortMappingLeaseDuration = duration,
                 m_RemoteHost = (case remoteHost of None \<Rightarrow> [] | Some h \<Rightarrow> fit 16 h), m_ExternalPort = fit 6 externalPort,
                 m_InternalPort = fit 6 internalPort, m_PortMappingProtocol = fit 4 protocol,
                 m_InternalClient = fit 16 internalClient, m_PortMappingDescription = fit 50 desc,
                 expirationEventId = gd_junk s a, expirationTime = 0, pm_addr = a\<rparr>, s1))"

definition pmlist_Find :: "string \<Rightarrow> string \<Rightarrow> string \<Rightarrow> igd \<Rightarrow> portMap option" where
  "pmlist_Find externalPort proto internalClient s =
     find (\<lambda>m. m_ExternalPort m = externalPort \<and> m_PortMappingProtocol m = proto \<and> m_InternalClient m = internalClient) (pmlist s)"

definition pmlist_Find_SameExtPort :: "string \<Rightarrow> string \<Rightarrow> string \<Rightarrow> igd \<Rightarrow> portMap option" where
  "pmlist_Find_SameExtPort externalPort proto internalClient s =
     find (\<lambda>m. m_ExternalPort m = externalPort \<and> m_PortMappingProtocol m = proto \<and> m_InternalClient m \<noteq> internalClient) (pmlist s)"

definition pmlist_FindByIndex :: "int \<Rightarrow> igd \<Rightarrow> portMap option" where
  "pmlist_FindByIndex index s = (if 0 \<le> index \<and> nat index < length (pmlist s) then Some (pmlist s ! nat index) else None)"

definition pmlist_FindSpecific :: "string \<Rightarrow> string \<Rightarrow> igd \<Rightarrow> portMap option" where
  "pmlist_FindSpecific externalPort protocol s =
     find (\<lambda>m. m_ExternalPort m = externalPort \<and> m_PortMappingProtocol m = protocol) (pmlist s)"

definition pmlist_IsEmtpy :: "igd \<Rightarrow> bool" where
  "pmlist_IsEmtpy s \<longleftrightarrow> pmlist s = []"

definition pmlist_Size :: "igd \<Rightarrow> nat" where
  "pmlist_Size s = length (pmlist s)"

section \<open>Firewall rules\<close>

definition source_args :: "string \<Rightarrow> string list" where
  "source_args remoteHost = (if remoteHost = [] then [] else [''-s'', remoteHost])"

definition prerouting_args :: "string \<Rightarrow> igd_globals \<Rightarrow> string \<Rightarrow> string \<Rightarrow> string \<Rightarrow> string \<Rightarrow> string list" where
  "prerouting_args op g remoteHost protocol externalPort dest =
     [''iptables'', ''-t'', ''nat'', op, preroutingChainName g, ''-i'', extInterfaceName g] @ source_args remoteHost
     @ [''-p'', protocol, ''--dport'', externalPort, ''-j'', ''DNAT'', ''--to-destination'', dest]"

definition accept_args :: "string \<Rightarrow> string \<Rightarrow> string \<Rightarrow> string \<Rightarrow> string \<Rightarrow> string \<Rightarrow> string list" where
  "accept_args op chain remoteHost protocol internalClient internalPort =
     [''iptables'', op, chain] @ source_args remoteHost
     @ [''-p'', protocol, ''-d'', internalClient, ''--dport'', internalPort, ''-j'', ''ACCEPT'']"

definition port_fw_args :: "string \<Rightarrow> string \<Rightarrow> igd_globals \<Rightarrow> string \<Rightarrow> string \<Rightarrow> string \<Rightarrow> string \<Rightarrow> string list" where
  "port_fw_args op to g remoteHost protocol internalClient internalPort =
     [''iptables'', ''-t'', ''nat'', op, ''PORT_FW'', ''-i'', extInterfaceName g, ''-p'', protocol] @ source_args remoteHost
     @ [''--dport'', internalPort, ''-j'', ''DNAT'', to, internalClient]"

definition dest_text :: "string \<Rightarrow> string \<Rightarrow> string" where
  "dest_text internalClient internalPort = internalClient @ '':'' @ internalPort"

text \<open>The texts that \<open>sprintf\<close> puts into \<open>command\<close> before the programs are run.\<close>

definition nat_command :: "igd_globals \<Rightarrow> string \<Rightarrow> string \<Rightarrow> string \<Rightarrow> string \<Rightarrow> string" where
  "nat_command g protocol externalPort internalClient internalPort =
     iptables_path g @ '' -t nat -I '' @ preroutingChainName g @ '' -i '' @ extInterfaceName g @ '' -p '' @ protocol
     @ '' --dport '' @ externalPort @ '' -j DNAT --to '' @ internalClient @ '':'' @ internalPort"

definition forward_command :: "igd_globals \<Rightarrow> string \<Rightarrow> string \<Rightarrow> string \<Rightarrow> string" where
  "forward_command g protocol internalClient internalPort =
     iptables_path g @ '' -A '' @ forwardChainName g @ '' -p '' @ protocol @ '' -d '' @ internalClient
     @ '' --dport '' @ internalPort @ '' -j ACCEPT''"

definition pmlist_AddPortMapping ::
    "int \<Rightarrow> string \<Rightarrow> string \<Rightarrow> string \<Rightarrow> string \<Rightarrow> string \<Rightarrow> igd \<Rightarrow> igd option" where
  "pmlist_AddPortMapping enabled remoteHost protocol externalPort internalClient internalPort s =
     (if enabled = 0 then Some s
      else let g = gd_vars s in
        do { dest \<leftarrow> sprintf 100 (dest_text internalClient internalPort);
             (if remoteHost = [] then sprintf 500 (nat_command g protocol externalPort internalClient internalPort) else Some []);
             (if forwardRules g \<and> remoteHost = [] then sprintf 500 (forward_command g protocol internalClient internalPort) else Some []);
             let s1 = out (Execv (prerouting_args ''-I'' g remoteHost protocol externalPort dest)) s;
             let s2 = (if forwardRules g
                       then out (Execv (accept_args ''-A'' (forwardChainName g) remoteHost protocol internalClient internalPort)) s1
                       else s1);
             let s3 = out (Execv (port_fw_args ''-A'' ''--to-destination'' g remoteHost protocol internalClient internalPort)) s2;
             Some (out (Execv (accept_args ''-A'' ''PORT_FW'' remoteHost protocol internalClient internalPort)) s3) })"

definition pmlist_DeletePortMapping ::
    "int \<Rightarrow> string \<Rightarrow> string \<Rightarrow> string \<Rightarrow> string \<Rightarrow> string \<Rightarrow> igd \<Rightarrow> igd option" where
  "pmlist_DeletePortMapping enabled remoteHost protocol externalPort internalClient internalPort s =
     (if enabled = 0 then Some s
      else let g = gd_vars s in
        do { dest \<leftarrow> sprintf 100 (dest_text internalClient internalPort);
             let s1 = out (Execv (prerouting_args ''-D'' g remoteHost protocol externalPort dest)) s;
             let s2 = (if forwardRules g
                       then out (Execv (accept_args ''-D'' (forwardChainName g) remoteHost protocol internalClient internalPort)) s1
                       else s1);
             let to = (if remoteHost = [] then ''--to'' else ''--to-destination'');
             let s3 = out (Execv (port_fw_args ''-D'' to g remoteHost protocol internalClient internalPort)) s2;
             Some (out (Execv (accept_args ''-D'' ''PORT_FW'' remoteHost protocol internalClient internalPort)) s3) })"

section \<open>Timers\<close>

text \<open>The queue of the timer thread is ordered by time.\<close>

fun queue_event :: "expiration_event \<Rightarrow> expiration_event list \<Rightarrow> expiration_event list" where
  "queue_event e [] = [e]"
| "queue_event e (x # xs) = (if ev_time x \<ge> ev_time e then e # x # xs else x # queue_event e xs)"

definition TimerThreadSchedule :: "expiration_event \<Rightarrow> igd \<Rightarrow> int option \<times> igd" where
  "TimerThreadSchedule e s =
     (let s1 = s\<lparr>n_sched := Suc (n_sched s)\<rparr> in
      case gd_sched s (n_sched s) of
        Sched_no_event \<Rightarrow> (None, s1)
      | Sched_no_node \<Rightarrow> (None, s1\<lparr>lastEventId := lastEventId s + 1\<rparr>)
      | Sched_ok \<Rightarrow> (Some (lastEventId s),
          s1\<lparr>eventQ := queue_event (e\<lparr>eventId := lastEventId s\<rparr>) (eventQ s), lastEventId := lastEventId s + 1\<rparr>))"

definition TimerThreadRemove :: "int \<Rightarrow> igd \<Rightarrow> expiration_event option \<times> igd" where
  "TimerThreadRemove i s =
     (case find (\<lambda>e. eventId e = i) (eventQ s) of
        None \<Rightarrow> (None, s) | Some e \<Rightarrow> (Some e, s\<lparr>eventQ := remove1 e (eventQ s)\<rparr>))"

definition free_expiration_event :: "expiration_event \<Rightarrow> igd \<Rightarrow> igd option" where
  "free_expiration_event e s =
     (case deref (ev_mapping e) s of
        None \<Rightarrow> if gd_freed_ok s then Some s else None
      | Some m \<Rightarrow> Some (upd_map (ev_mapping e) (\<lambda>m. m\<lparr>expirationEventId := - 1\<rparr>) s))"

definition CancelMappingExpiration :: "int \<Rightarrow> igd \<Rightarrow> igd option" where
  "CancelMappingExpiration i s =
     (if i < 0 then Some s
      else case TimerThreadRemove i s of
        (None, s1) \<Rightarrow> Some s1 | (Some e, s1) \<Rightarrow> free_expiration_event e s1)"

text \<open>When a mapping that is added at \<open>curtime\<close> ends; \<open>clock\<close> is the second of the day.\<close>

definition expiration_time :: "int \<Rightarrow> int \<Rightarrow> int \<Rightarrow> int \<Rightarrow> int option" where
  "expiration_time lease dflt curtime clock =
     (if lease > 0 then Some (wrap32 (curtime + lease))
      else if dflt = 0 then None
      else if dflt > 0 then Some (wrap32 (curtime + dflt))
      else let diff = - dflt - clock in Some (wrap32 (curtime + (if diff < 60 then diff + 24 * 60 * 60 else diff))))"

definition ScheduleMappingExpiration :: "nat \<Rightarrow> string \<Rightarrow> string \<Rightarrow> int \<Rightarrow> int \<Rightarrow> igd \<Rightarrow> (int \<times> igd) option" where
  "ScheduleMappingExpiration a DevUDN ServiceID curtime clock s =
     do { m \<leftarrow> deref a s;
          case expiration_time (m_PortMappingLeaseDuration m) (g_duration (gd_vars s)) curtime clock of
            None \<Rightarrow> Some (1, s)
          | Some t \<Rightarrow>
              let s1 = upd_map a (\<lambda>m. m\<lparr>expirationTime := t\<rparr>) s in
              (case new_block s1 of
                 (None, s2) \<Rightarrow> Some (0, s2)
               | (Some b, s2) \<Rightarrow>
                   (case TimerThreadSchedule \<lparr>eventId = 0, ev_DevUDN = fit 256 DevUDN, ev_ServiceID = fit 256 ServiceID,
                          ev_mapping = a, ev_time = t\<rparr> s2 of
                      (None, s3) \<Rightarrow> Some (0, upd_map a (\<lambda>m. m\<lparr>expirationEventId := - 1\<rparr>) s3)
                    | (Some i, s3) \<Rightarrow> Some (i, upd_map a (\<lambda>m. m\<lparr>expirationEventId := i\<rparr>) s3))) }"

section \<open>Changes of the list\<close>

definition pmlist_PushBack :: "portMap \<Rightarrow> igd \<Rightarrow> igd option" where
  "pmlist_PushBack item s =
     pmlist_AddPortMapping (m_PortMappingEnabled item) (m_RemoteHost item) (m_PortMappingProtocol item) (m_ExternalPort item)
       (m_InternalClient item) (m_InternalPort item) (s\<lparr>pmlist := pmlist s @ [item]\<rparr>)"

text \<open>The mapping that is unlinked is the first with the ports and the client of \<open>item\<close>; the rules that are deleted are those
  of \<open>item\<close>.\<close>

definition pmlist_Delete :: "nat \<Rightarrow> igd \<Rightarrow> (bool \<times> igd) option" where
  "pmlist_Delete a s =
     do { item \<leftarrow> deref a s;
          case pmlist_Find (m_ExternalPort item) (m_PortMappingProtocol item) (m_InternalClient item) s of
            None \<Rightarrow> Some (False, s)
          | Some temp \<Rightarrow>
              do { s1 \<leftarrow> CancelMappingExpiration (expirationEventId temp) s;
                   s2 \<leftarrow> pmlist_DeletePortMapping (m_PortMappingEnabled item) (m_RemoteHost item) (m_PortMappingProtocol item)
                          (m_ExternalPort item) (m_InternalClient item) (m_InternalPort item) s1;
                   Some (True, s2\<lparr>pmlist := filter (\<lambda>m. pm_addr m \<noteq> pm_addr temp) (pmlist s2)\<rparr>) } }"

text \<open>The loop frees the mappings one after the other; the list is cleared at the end.\<close>

fun free_mappings :: "portMap list \<Rightarrow> igd \<Rightarrow> igd option" where
  "free_mappings [] s = Some s"
| "free_mappings (m # ms) s =
     do { m' \<leftarrow> deref (pm_addr m) s;
          s1 \<leftarrow> CancelMappingExpiration (expirationEventId m') s;
          s2 \<leftarrow> pmlist_DeletePortMapping (m_PortMappingEnabled m) (m_RemoteHost m) (m_PortMappingProtocol m) (m_ExternalPort m)
                 (m_InternalClient m) (m_InternalPort m) s1;
          free_mappings ms (s2\<lparr>pmlist := filter (\<lambda>x. pm_addr x \<noteq> pm_addr m) (pmlist s2)\<rparr>) }"

definition pmlist_FreeList :: "igd \<Rightarrow> igd option" where
  "pmlist_FreeList s = map_option (\<lambda>s1. s1\<lparr>pmlist := []\<rparr>) (free_mappings (pmlist s) s)"

end
