(* ===== verification/Igd_Device.thy ===== *)
theory Igd_Device
  imports Igd_List
begin

text \<open>
  The actions of the UPnP gateway (\<open>gatedevice.c\<close>), their dispatch, the end of a mapping, and the signals (\<open>main.c\<close>).

  The request of a control point is the text of each of its items (\<open>GetFirstDocumentItem\<close>); what the system answers (time,
  addresses, files, whether the XML library accepts a text) is the environment of the action. The result of an action is
  the error code, the error text and the text that is parsed into the answer.
\<close>

section \<open>Data\<close>

record igd_request =
  ActionName :: string
  DevUDN :: string
  ServiceID :: string
  rq_item :: "string \<Rightarrow> string option"

record igd_reply =
  ErrCode :: int
  ErrStr :: string
  ActionResult :: "string option"

record igd_env =
  e_time :: int
  e_clock :: int
  e_ip :: "string option"
  e_wan_connect :: "int option"
  e_ip_forward :: "int option"
  e_net_dev :: "(string \<times> nat list) list option"
  e_xml :: "string \<Rightarrow> bool"

record gate =
  gm :: igd
  gateUDN :: string
  gateicfgSCPDUDN :: string
  gateconnSCPDUDN :: string
  startup_time :: int
  ConnectionStatus :: string
  LastConnectionError :: string
  ExternalIPAddress :: string
  GMTK_ExternalIPAddress :: string

definition gate_out :: "igd_out \<Rightarrow> gate \<Rightarrow> gate" where
  "gate_out x t = t\<lparr>gm := out x (gm t)\<rparr>"

definition err :: "int \<Rightarrow> string \<Rightarrow> igd_reply" where
  "err c txt = \<lparr>ErrCode = c, ErrStr = txt, ActionResult = None\<rparr>"

definition dq :: string where "dq = [CHR 0x22]"
definition nl :: string where "nl = [newline]"

definition WANIP :: string where "WANIP = ''urn:schemas-upnp-org:service:WANIPConnection:1''"
definition WANCOMMON :: string where "WANCOMMON = ''urn:schemas-upnp-org:service:WANCommonInterfaceConfig:1''"

text \<open>\<open>ixmlParseBuffer\<close>, with the code 402 when it fails, and without.\<close>

definition parsed :: "igd_env \<Rightarrow> string \<Rightarrow> igd_reply" where
  "parsed env txt = (if e_xml env txt then \<lparr>ErrCode = 0, ErrStr = [], ActionResult = Some txt\<rparr> else err 402 [])"

definition answered :: "igd_env \<Rightarrow> string \<Rightarrow> igd_reply" where
  "answered env txt = \<lparr>ErrCode = 0, ErrStr = [], ActionResult = (if e_xml env txt then Some txt else None)\<rparr>"

definition element :: "string \<Rightarrow> string \<Rightarrow> string" where
  "element tag body = ''<'' @ tag @ ''>'' @ body @ ''</'' @ tag @ ''>''"

definition open_tag :: "string \<Rightarrow> string \<Rightarrow> string \<Rightarrow> string" where
  "open_tag p name urn = ''<'' @ p @ '':'' @ name @ ''Response xmlns:'' @ p @ ''='' @ dq @ urn @ dq @ ''>'' @ nl"

definition close_tag :: "string \<Rightarrow> string \<Rightarrow> string" where
  "close_tag p name = ''</'' @ p @ '':'' @ name @ ''Response>''"

definition response :: "string \<Rightarrow> string \<Rightarrow> string \<Rightarrow> string" where
  "response p name body = open_tag p name WANIP @ body @ nl @ close_tag p name"

section \<open>Actions that only answer\<close>

definition SetDefaultConnectionService :: "gate \<Rightarrow> (igd_reply \<times> gate) option" where
  "SetDefaultConnectionService t = Some (\<lparr>ErrCode = 0, ErrStr = [], ActionResult = None\<rparr>, t)"

definition GetDefaultConnectionService :: "igd_env \<Rightarrow> gate \<Rightarrow> (igd_reply \<times> gate) option" where
  "GetDefaultConnectionService env t =
     do { txt \<leftarrow> sprintf 500 (open_tag ''u'' ''GetDefaultConnectionService'' ''urn:schemas-upnp-org:service:Layer3Forwarding:1''
            @ element ''NewDefaultConnectionService'' ''Unknown'' @ close_tag ''u'' ''GetDefaultConnectionService'');
          Some (parsed env txt, t) }"

definition InvalidAction :: "gate \<Rightarrow> (igd_reply \<times> gate) option" where
  "InvalidAction t = Some (err 401 ''Invalid Action'', t)"

definition GetConnectionTypeInfo :: "igd_env \<Rightarrow> gate \<Rightarrow> (igd_reply \<times> gate) option" where
  "GetConnectionTypeInfo env t =
     do { txt \<leftarrow> sprintf 500 (open_tag ''u'' ''GetConnectionTypeInfo'' WANIP @ element ''NewConnectionType'' ''IP_Routed'' @ nl
            @ element ''NewPossibleConnectionTypes'' ''IP_Routed'' @ close_tag ''u'' ''GetConnectionTypeInfo'');
          Some (parsed env txt, t) }"

definition GetNATRSIPStatus :: "igd_env \<Rightarrow> gate \<Rightarrow> (igd_reply \<times> gate) option" where
  "GetNATRSIPStatus env t =
     do { txt \<leftarrow> sprintf 500 (open_tag ''u'' ''GetNATRSIPStatus'' WANIP @ element ''NewRSIPAvailable'' ''0'' @ nl
            @ element ''NewNATEnabled'' ''1'' @ nl @ close_tag ''u'' ''GetNATRSIPStatus'');
          Some (parsed env txt, t) }"

definition SetConnectionType :: "gate \<Rightarrow> (igd_reply \<times> gate) option" where
  "SetConnectionType t = Some (\<lparr>ErrCode = 0, ErrStr = [], ActionResult = None\<rparr>, t)"

definition GetCommonLinkProperties :: "igd_env \<Rightarrow> gate \<Rightarrow> (igd_reply \<times> gate) option" where
  "GetCommonLinkProperties env t =
     do { txt \<leftarrow> sprintf 500 (open_tag ''u'' ''GetCommonLinkProperties'' WANCOMMON @ element ''NewWANAccessType'' ''Cable'' @ nl
            @ element ''NewLayer1UpstreamMaxBitRate'' (upstreamBitrate (gd_vars (gm t))) @ nl
            @ element ''NewLayer1DownstreamMaxBitRate'' (downstreamBitrate (gd_vars (gm t))) @ nl
            @ element ''NewPhysicalLinkStatus'' ''Up'' @ nl @ close_tag ''u'' ''GetCommonLinkProperties'');
          Some (parsed env txt, t) }"

text \<open>The sum of one column of \<open>/proc/net/dev\<close> over the rows of an interface; a name is read into 15 characters.\<close>

fun net_total :: "nat \<Rightarrow> string \<Rightarrow> (string \<times> nat list) list \<Rightarrow> u32 option" where
  "net_total col ext [] = Some 0"
| "net_total col ext ((dev, cs) # rows) =
     (if length dev \<ge> 15 then None
      else map_option (\<lambda>n. (if dev = ext then word_of_nat (cs ! col) else 0) + n) (net_total col ext rows))"

definition total_reply :: "string \<Rightarrow> string \<Rightarrow> nat \<Rightarrow> igd_env \<Rightarrow> gate \<Rightarrow> (igd_reply \<times> gate) option" where
  "total_reply action tag col env t =
     do { n \<leftarrow> (case e_net_dev env of None \<Rightarrow> Some 1 | Some rows \<Rightarrow> net_total col (extInterfaceName (gd_vars (gm t))) rows);
          txt \<leftarrow> sprintf 500 (open_tag ''u'' action WANCOMMON @ element tag (dec (unat n)) @ nl @ close_tag ''u'' action);
          Some (parsed env txt, t) }"

definition GetTotalBytesSent :: "igd_env \<Rightarrow> gate \<Rightarrow> (igd_reply \<times> gate) option" where
  "GetTotalBytesSent = total_reply ''GetTotalBytesSent'' ''NewTotalBytesSent'' 8"

definition GetTotalBytesReceived :: "igd_env \<Rightarrow> gate \<Rightarrow> (igd_reply \<times> gate) option" where
  "GetTotalBytesReceived = total_reply ''GetTotalBytesReceived'' ''NewTotalBytesReceived'' 0"

definition GetTotalPacketsSent :: "igd_env \<Rightarrow> gate \<Rightarrow> (igd_reply \<times> gate) option" where
  "GetTotalPacketsSent = total_reply ''GetTotalPacketsSent'' ''NewTotalPacketsSent'' 9"

definition GetTotalPacketsReceived :: "igd_env \<Rightarrow> gate \<Rightarrow> (igd_reply \<times> gate) option" where
  "GetTotalPacketsReceived = total_reply ''GetTotalPacketsReceived'' ''NewTotalPacketsReceived'' 1"

definition GetStatusInfo :: "igd_env \<Rightarrow> gate \<Rightarrow> (igd_reply \<times> gate) option" where
  "GetStatusInfo env t =
     do { txt \<leftarrow> sprintf 500 (open_tag ''u'' ''GetStatusInfo'' ''urn:schemas-upnp-org:service:GetStatusInfo:1''
            @ element ''NewConnectionStatus'' ''Connected'' @ nl @ element ''NewLastConnectionError'' ''ERROR_NONE'' @ nl
            @ element ''NewUptime'' (show_int (wrap32 (e_time env - startup_time t))) @ nl @ close_tag ''u'' ''GetStatusInfo'');
          Some (parsed env txt, t) }"

definition GetExternalIPAddress :: "igd_env \<Rightarrow> gate \<Rightarrow> (igd_reply \<times> gate) option" where
  "GetExternalIPAddress env t =
     (let t1 = (case e_ip env of None \<Rightarrow> t | Some a \<Rightarrow> t\<lparr>ExternalIPAddress := a\<rparr>);
          a = (case e_ip env of None \<Rightarrow> GMTK_ExternalIPAddress t | Some a \<Rightarrow> a) in
      do { txt \<leftarrow> sprintf 500 (open_tag ''u'' ''GetExternalIPAddress'' WANIP @ element ''NewExternalIPAddress'' a @ nl
             @ close_tag ''u'' ''GetExternalIPAddress'');
           Some (parsed env txt, t1) })"

section \<open>The connection\<close>

definition GTK_get_wan_connection_status :: "igd_env \<Rightarrow> gate \<Rightarrow> bool \<times> gate" where
  "GTK_get_wan_connection_status env t =
     (let t1 = gate_out (Shell ''nvram get wan_connect > /tmp/upnp_wan_connect'') t in
      case e_wan_connect env of
        None \<Rightarrow> (False, gate_out (Shell ''echo wan_fail >> /tmp/ipforward_value'') t1)
      | Some c \<Rightarrow>
          if c \<noteq> 1 then (False, gate_out (Shell ''echo nowan >> /tmp/ipforward_value'') t1)
          else (e_ip_forward env = Some 1, t1))"

definition RequestConnection :: "igd_request \<Rightarrow> igd_env \<Rightarrow> gate \<Rightarrow> (igd_reply \<times> gate) option" where
  "RequestConnection rq env t =
     (if \<not> disableAllowed (gd_vars (gm t)) then Some (err 501 ''Action Failed'', t)
      else let (up, t1) = GTK_get_wan_connection_status env (gate_out (Shell ''echo 1 > /proc/sys/net/ipv4/ip_forward'') t) in
        if \<not> up then Some (err 501 ''Action Failed'', t1\<lparr>ConnectionStatus := ''Disconnected''\<rparr>)
        else let t2 = gate_out (Notify (DevUDN rq) (ServiceID rq) [(''ConnectionStatus'', ''Connected'')])
                        (t1\<lparr>ConnectionStatus := ''Connected'', LastConnectionError := ''ERROR_NONE''\<rparr>) in
          do { txt \<leftarrow> sprintf 500 (response ''m'' (ActionName rq) []); Some (answered env txt, t2) })"

definition ForceTermination :: "igd_request \<Rightarrow> igd_env \<Rightarrow> gate \<Rightarrow> (igd_reply \<times> gate) option" where
  "ForceTermination rq env t =
     (if \<not> disableAllowed (gd_vars (gm t)) then Some (err 501 ''Action Failed'', t)
      else let (up, t1) = GTK_get_wan_connection_status env (gate_out (Shell ''echo 0 > /proc/sys/net/ipv4/ip_forward'') t);
               t2 = gate_out (Notify (DevUDN rq) (ServiceID rq)
                      [(''ConnectionStatus'', if up then ''Connected'' else ''Disconnected'')]) t1 in
        do { txt \<leftarrow> sprintf 500 (response ''m'' (ActionName rq) []); Some (answered env txt, t2) })"

section \<open>Port mappings\<close>

text \<open>The number of mappings is printed into five characters.\<close>

definition notify_size :: "string \<Rightarrow> string \<Rightarrow> igd \<Rightarrow> igd option" where
  "notify_size udn sid s =
     do { num \<leftarrow> sprintf 5 (dec (pmlist_Size s)); Some (out (Notify udn sid [(''PortMappingNumberOfEntries'', num)]) s) }"

text \<open>The items of a request to add a mapping, when all that are needed are there.\<close>

record add_items =
  ai_ext_port :: string
  ai_proto :: string
  ai_int_port :: string
  ai_int_ip :: string
  ai_int_duration :: string
  ai_bool_enabled :: string
  ai_desc :: string

definition add_request :: "igd_request \<Rightarrow> add_items option" where
  "add_request rq =
     do { e \<leftarrow> rq_item rq ''NewExternalPort'';
          p \<leftarrow> rq_item rq ''NewProtocol'';
          i \<leftarrow> rq_item rq ''NewInternalPort'';
          c \<leftarrow> rq_item rq ''NewInternalClient'';
          l \<leftarrow> rq_item rq ''NewLeaseDuration'';
          b \<leftarrow> rq_item rq ''NewEnabled'';
          d \<leftarrow> rq_item rq ''NewPortMappingDescription'';
          Some \<lparr>ai_ext_port = e, ai_proto = p, ai_int_port = i, ai_int_ip = c, ai_int_duration = l, ai_bool_enabled = b, ai_desc = d\<rparr> }"

text \<open>The mapping is replaced or added at the end of the list, and its end is scheduled.\<close>

definition add_mapping :: "add_items \<Rightarrow> igd_request \<Rightarrow> igd_env \<Rightarrow> igd \<Rightarrow> igd option" where
  "add_mapping x rq env s =
     do { s1 \<leftarrow> (case pmlist_Find (ai_ext_port x) (ai_proto x) (ai_int_ip x) s of
                   Some ret \<Rightarrow> map_option snd (pmlist_Delete (pm_addr ret) s) | None \<Rightarrow> Some s);
          (new, s2) \<leftarrow> pmlist_NewNode (atol (ai_bool_enabled x)) (atol (ai_int_duration x)) (rq_item rq ''NewRemoteHost'') (ai_ext_port x)
                         (ai_int_port x) (ai_proto x) (ai_int_ip x) (ai_desc x) s1;
          s3 \<leftarrow> pmlist_PushBack new s2;
          (i, s4) \<leftarrow> ScheduleMappingExpiration (pm_addr new) (DevUDN rq) (ServiceID rq) (e_time env) (e_clock env) s3;
          notify_size (DevUDN rq) (ServiceID rq) s4 }"

definition AddPortMapping :: "igd_request \<Rightarrow> igd_env \<Rightarrow> gate \<Rightarrow> (igd_reply \<times> gate) option" where
  "AddPortMapping rq env t =
     (let s = gm t in
      if \<not> configureAllowed (gd_vars s) then Some (err 501 ''Action Failed'', t)
      else case add_request rq of
        None \<Rightarrow> Some (err 402 ''Invalid Args'', t)
      | Some x \<Rightarrow>
          if pmlist_Find_SameExtPort (ai_ext_port x) (ai_proto x) (ai_int_ip x) s \<noteq> None then Some (err 718 ''ConflictInMappingEntry'', t)
          else do { s1 \<leftarrow> add_mapping x rq env s;
                    txt \<leftarrow> sprintf 500 (response ''u'' (ActionName rq) []);
                    Some (answered env txt, t\<lparr>gm := s1\<rparr>) })"

definition entry_text :: "portMap \<Rightarrow> string" where
  "entry_text m =
     element ''NewInternalPort'' (m_InternalPort m) @ element ''NewInternalClient'' (m_InternalClient m)
     @ element ''NewEnabled'' (show_int (m_PortMappingEnabled m))
     @ element ''NewPortMappingDescription'' (m_PortMappingDescription m)
     @ element ''NewLeaseDuration'' (show_int (m_PortMappingLeaseDuration m))"

definition generic_text :: "portMap \<Rightarrow> string" where
  "generic_text m =
     element ''NewRemoteHost'' (m_RemoteHost m) @ element ''NewExternalPort'' (m_ExternalPort m)
     @ element ''NewProtocol'' (m_PortMappingProtocol m) @ entry_text m"

definition GetGenericPortMappingEntry :: "igd_request \<Rightarrow> igd_env \<Rightarrow> gate \<Rightarrow> (igd_reply \<times> gate) option" where
  "GetGenericPortMappingEntry rq env t =
     (case rq_item rq ''NewPortMappingIndex'' of
        None \<Rightarrow> Some (err 402 ''Invalid Args'', t)
      | Some mapindex \<Rightarrow>
          (case pmlist_FindByIndex (atol mapindex) (gm t) of
             None \<Rightarrow> Some (err 713 ''SpecifiedArrayIndexInvalid'', t)
           | Some temp \<Rightarrow>
               do { param \<leftarrow> sprintf 500 (generic_text temp);
                    txt \<leftarrow> sprintf 500 (response ''u'' (ActionName rq) param);
                    Some (answered env txt, t) }))"

definition GetSpecificPortMappingEntry :: "igd_request \<Rightarrow> igd_env \<Rightarrow> gate \<Rightarrow> (igd_reply \<times> gate) option" where
  "GetSpecificPortMappingEntry rq env t =
     (case (rq_item rq ''NewExternalPort'', rq_item rq ''NewProtocol'') of
        (Some ext_port, Some proto) \<Rightarrow>
          if proto = ''TCP'' \<or> proto = ''UDP'' then
            (case pmlist_FindSpecific ext_port proto (gm t) of
               None \<Rightarrow> Some (err 714 ''NoSuchEntryInArray'', t)
             | Some temp \<Rightarrow>
                 do { param \<leftarrow> sprintf 500 (entry_text temp);
                      txt \<leftarrow> sprintf 500 (response ''u'' (ActionName rq) param);
                      Some (answered env txt, t) })
          else Some (err 402 ''Invalid Args'', t)
      | _ \<Rightarrow> Some (err 402 ''Invalid Args'', t))"

definition DeletePortMapping :: "igd_request \<Rightarrow> igd_env \<Rightarrow> gate \<Rightarrow> (igd_reply \<times> gate) option" where
  "DeletePortMapping rq env t =
     (let s = gm t in
      if \<not> configureAllowed (gd_vars s) then Some (err 501 ''Action Failed'', t)
      else case (rq_item rq ''NewExternalPort'', rq_item rq ''NewProtocol'') of
        (Some ext_port, Some proto) \<Rightarrow>
          if proto = ''TCP'' \<or> proto = ''UDP'' then
            do { (result, s1) \<leftarrow> (case pmlist_FindSpecific ext_port proto s of
                                     Some temp \<Rightarrow> pmlist_Delete (pm_addr temp) s | None \<Rightarrow> Some (False, s));
                 if result then
                   do { s2 \<leftarrow> notify_size (DevUDN rq) (ServiceID rq) s1;
                        txt \<leftarrow> sprintf 500 (response ''u'' (ActionName rq) []);
                        Some (answered env txt, t\<lparr>gm := s2\<rparr>) }
                 else Some (err 714 ''NoSuchEntryInArray'', t\<lparr>gm := s1\<rparr>) }
          else Some (err 402 ''Invalid Args'', t)
      | _ \<Rightarrow> Some (err 402 ''Invalid Args'', t))"

section \<open>Dispatch\<close>

definition wanip_action :: "igd_request \<Rightarrow> igd_env \<Rightarrow> gate \<Rightarrow> (igd_reply \<times> gate) option" where
  "wanip_action rq env t =
     (let a = ActionName rq in
      if a = ''GetConnectionTypeInfo'' then GetConnectionTypeInfo env t
      else if a = ''GetNATRSIPStatus'' then GetNATRSIPStatus env t
      else if a = ''SetConnectionType'' then SetConnectionType t
      else if a = ''RequestConnection'' then RequestConnection rq env t
      else if a = ''AddPortMapping'' then AddPortMapping rq env t
      else if a = ''GetGenericPortMappingEntry'' then GetGenericPortMappingEntry rq env t
      else if a = ''GetSpecificPortMappingEntry'' then GetSpecificPortMappingEntry rq env t
      else if a = ''GetExternalIPAddress'' then GetExternalIPAddress env t
      else if a = ''DeletePortMapping'' then DeletePortMapping rq env t
      else if a = ''GetStatusInfo'' then GetStatusInfo env t
      else if a = ''ForceTermination'' then ForceTermination rq env t
      else InvalidAction t)"

definition wancommon_action :: "igd_request \<Rightarrow> igd_env \<Rightarrow> gate \<Rightarrow> (igd_reply \<times> gate) option" where
  "wancommon_action rq env t =
     (let a = ActionName rq in
      if a = ''GetTotalBytesSent'' then GetTotalBytesSent env t
      else if a = ''GetTotalBytesReceived'' then GetTotalBytesReceived env t
      else if a = ''GetTotalPacketsSent'' then GetTotalPacketsSent env t
      else if a = ''GetTotalPacketsReceived'' then GetTotalPacketsReceived env t
      else if a = ''GetCommonLinkProperties'' then GetCommonLinkProperties env t
      else InvalidAction t)"

text \<open>A request for another service or device is left as it came.\<close>

definition HandleActionRequest :: "igd_request \<Rightarrow> igd_env \<Rightarrow> gate \<Rightarrow> (igd_reply \<times> gate) option" where
  "HandleActionRequest rq env t =
     (let untouched = \<lparr>ErrCode = 0, ErrStr = [], ActionResult = None\<rparr>;
          icfg = DevUDN rq = gateicfgSCPDUDN t \<or> DevUDN rq = gateUDN t in
      if ServiceID rq = ''urn:upnp-org:serviceId:WANIPConn1'' \<and> (DevUDN rq = gateconnSCPDUDN t \<or> DevUDN rq = gateUDN t)
      then wanip_action rq env t
      else if ServiceID rq = ''urn:upnp-org:serviceId:WANCommonIFC1'' \<and> icfg then wancommon_action rq env t
      else if ServiceID rq = ''urn:upnp-org:serviceId:Layer3Forwarding1'' \<and> icfg then
        if ActionName rq = ''SetDefaultConnectionService'' then SetDefaultConnectionService t
        else if ActionName rq = ''GetDefaultConnectionService'' then GetDefaultConnectionService env t
        else Some (untouched, t)
      else Some (untouched, t))"

definition HandleSubscriptionRequest :: "string \<Rightarrow> string \<Rightarrow> igd_env \<Rightarrow> gate \<Rightarrow> gate" where
  "HandleSubscriptionRequest udn sid env t =
     (if sid = ''urn:upnp-org:serviceId:WANCommonIFC1'' \<and> (udn = gateicfgSCPDUDN t \<or> udn = gateUDN t)
      then gate_out (Accept udn sid [(''PhysicalLinkStatus'', ''Up'')]) t
      else if sid = ''urn:upnp-org:serviceId:WANIPConn1'' \<and> (udn = gateconnSCPDUDN t \<or> udn = gateUDN t)
      then let t1 = (case e_ip env of None \<Rightarrow> t | Some a \<Rightarrow> t\<lparr>ExternalIPAddress := a\<rparr>);
               a = (case e_ip env of None \<Rightarrow> GMTK_ExternalIPAddress t | Some a \<Rightarrow> a) in
        gate_out (Accept udn sid [(''PossibleConnectionTypes'', ''IP_Routed''), (''ConnectionStatus'', ''Connected''),
          (''ExternalIPAddress'', a), (''PortMappingNumberOfEntries'', ''0'')]) t1
      else t)"

section \<open>The end of a mapping\<close>

definition ExpireMapping :: "expiration_event \<Rightarrow> igd \<Rightarrow> igd option" where
  "ExpireMapping e s =
     do { m \<leftarrow> deref (ev_mapping e) s;
          let s1 = upd_map (ev_mapping e) (\<lambda>m. m\<lparr>expirationEventId := - 1\<rparr>) s;
          (b, s2) \<leftarrow> pmlist_Delete (ev_mapping e) s1;
          s3 \<leftarrow> notify_size (ev_DevUDN e) (ev_ServiceID e) s2;
          free_expiration_event e s3 }"

definition DeleteAllPortMappings :: "gate \<Rightarrow> gate option" where
  "DeleteAllPortMappings t =
     do { s \<leftarrow> pmlist_FreeList (gm t);
          Some (gate_out (Notify (gateicfgSCPDUDN t) ''urn:upnp-org:serviceId:WANIPConn1'' [(''PortMappingNumberOfEntries'', ''0'')])
                 (t\<lparr>gm := s\<rparr>)) }"

section \<open>The program\<close>

text \<open>The numbers of the devices, built from the setting \<open>device_uuid\<close>, and the state after the start.\<close>

definition device_udn :: "string \<Rightarrow> string \<Rightarrow> string" where
  "device_udn uuid suffix = take 29 (''uuid:'' @ uuid) @ suffix"

definition gate_start :: "string \<Rightarrow> string \<Rightarrow> string option \<Rightarrow> int \<Rightarrow> igd \<Rightarrow> gate" where
  "gate_start uuid udn ip curtime s =
     \<lparr>gm = s\<lparr>pmlist := [], eventQ := [], lastEventId := 0, gd_pool := []\<rparr>, gateUDN = udn,
      gateicfgSCPDUDN = device_udn uuid ''fa195ecce13e'', gateconnSCPDUDN = device_udn uuid ''fa295ecce13e'', startup_time = curtime,
      ConnectionStatus = [], LastConnectionError = [], ExternalIPAddress = [],
      GMTK_ExternalIPAddress = (case ip of None \<Rightarrow> [] | Some a \<Rightarrow> a)\<rparr>"

text \<open>The threads take the mutex in turn: a request, a subscription, the timer that hands its first event over when it is due,
  a job of the pool that ends a mapping, and the main thread that waits for signals.\<close>

datatype igd_event =
    Igd_action igd_request igd_env
  | Igd_subscribe string string igd_env
  | Igd_timer int
  | Igd_job
  | Igd_usr1
  | Igd_term

datatype igd_run = Igd_loop gate | Igd_exit gate

definition timer_due :: "int \<Rightarrow> igd \<Rightarrow> igd" where
  "timer_due curtime s =
     (case eventQ s of
        [] \<Rightarrow> s
      | e # es \<Rightarrow> if ev_time e \<le> curtime then s\<lparr>eventQ := es, gd_pool := gd_pool s @ [e]\<rparr> else s)"

definition pool_job :: "igd \<Rightarrow> igd option" where
  "pool_job s = (case gd_pool s of [] \<Rightarrow> Some s | e # es \<Rightarrow> ExpireMapping e (s\<lparr>gd_pool := es\<rparr>))"

fun igd_step :: "igd_event \<Rightarrow> igd_run \<Rightarrow> igd_run option" where
  "igd_step ev (Igd_exit t) = Some (Igd_exit t)"
| "igd_step (Igd_action rq env) (Igd_loop t) = map_option (\<lambda>(r, t'). Igd_loop t') (HandleActionRequest rq env t)"
| "igd_step (Igd_subscribe udn sid env) (Igd_loop t) = Some (Igd_loop (HandleSubscriptionRequest udn sid env t))"
| "igd_step (Igd_timer curtime) (Igd_loop t) = Some (Igd_loop (t\<lparr>gm := timer_due curtime (gm t)\<rparr>))"
| "igd_step Igd_job (Igd_loop t) = map_option (\<lambda>s. Igd_loop (t\<lparr>gm := s\<rparr>)) (pool_job (gm t))"
| "igd_step Igd_usr1 (Igd_loop t) = map_option Igd_loop (DeleteAllPortMappings t)"
| "igd_step Igd_term (Igd_loop t) = map_option Igd_exit (DeleteAllPortMappings t)"

fun igd_steps :: "igd_event list \<Rightarrow> igd_run \<Rightarrow> igd_run option" where
  "igd_steps [] r = Some r"
| "igd_steps (ev # evs) r = do { r1 \<leftarrow> igd_step ev r; igd_steps evs r1 }"

end
