(* ===== verification/Igd_Inv.thy ===== *)
theory Igd_Inv
  imports Igd_Device "HOL-Library.Multiset"
begin

text \<open>
  The invariant of the UPnP gateway and the rules that the firewall has: a port of the router is mapped to one client, the
  timers belong to mappings of the list, and the rules in the firewall are those of the mappings.
\<close>

section \<open>The firewall\<close>

text \<open>A rule is its table, its chain and its parameters; \<open>--to\<close> is short for \<open>--to-destination\<close>. The options \<open>-I\<close> and \<open>-A\<close>
  add a rule, \<open>-D\<close> takes one away that is equal.\<close>

definition canon :: "string list \<Rightarrow> string list" where
  "canon = map (\<lambda>x. if x = ''--to'' then ''--to-destination'' else x)"

definition rule_of :: "string list \<Rightarrow> string \<times> string list" where
  "rule_of args =
     (case args of
        a # b # c # d # e # spec \<Rightarrow> if b = ''-t'' then (d, c # e # canon spec) else (b, ''filter'' # c # canon (d # e # spec))
      | _ \<Rightarrow> ([], []))"

fun fw_step :: "igd_out \<Rightarrow> string list multiset \<Rightarrow> string list multiset" where
  "fw_step (Execv args) M = (case rule_of args of (op, r) \<Rightarrow> if op = ''-D'' then M - {#r#} else add_mset r M)"
| "fw_step _ M = M"

definition firewall :: "igd_out list \<Rightarrow> string list multiset" where
  "firewall xs = fold fw_step xs {#}"

text \<open>The rules of a mapping.\<close>

definition map_rules :: "igd_globals \<Rightarrow> portMap \<Rightarrow> string list multiset" where
  "map_rules g m =
     (if m_PortMappingEnabled m = 0 then {#}
      else {#snd (rule_of (prerouting_args ''-I'' g (m_RemoteHost m) (m_PortMappingProtocol m) (m_ExternalPort m)
               (dest_text (m_InternalClient m) (m_InternalPort m)))),
             snd (rule_of (port_fw_args ''-A'' ''--to-destination'' g (m_RemoteHost m) (m_PortMappingProtocol m) (m_InternalClient m)
               (m_InternalPort m))),
             snd (rule_of (accept_args ''-A'' ''PORT_FW'' (m_RemoteHost m) (m_PortMappingProtocol m) (m_InternalClient m) (m_InternalPort m)))#}
        + (if forwardRules g
           then {#snd (rule_of (accept_args ''-A'' (forwardChainName g) (m_RemoteHost m) (m_PortMappingProtocol m) (m_InternalClient m)
                   (m_InternalPort m)))#}
           else {#}))"

definition outs :: "igd_out list \<Rightarrow> igd \<Rightarrow> igd" where
  "outs xs s = s\<lparr>gd_out := gd_out s @ xs\<rparr>"

lemma outs_simps [simp]:
  "outs [] s = s" "outs xs (outs ys s) = outs (ys @ xs) s" "pmlist (outs xs s) = pmlist s" "gd_vars (outs xs s) = gd_vars s"
  "eventQ (outs xs s) = eventQ s" "gd_out (outs xs s) = gd_out s @ xs" "deref a (outs xs s) = deref a s"
  "n_block (outs xs s) = n_block s" "lastEventId (outs xs s) = lastEventId s" "gd_malloc (outs xs s) = gd_malloc s"
  "gd_freed_ok (outs xs s) = gd_freed_ok s" "gd_pool (outs xs s) = gd_pool s"
  by (simp_all add: outs_def deref_def)

lemma out_outs: "out x s = outs [x] s"
  by (simp add: out_def outs_def)

lemma firewall_append: "firewall (xs @ ys) = fold fw_step ys (firewall xs)"
  by (simp add: firewall_def)

text \<open>The programs that are run for a mapping.\<close>

definition add_programs :: "igd_globals \<Rightarrow> portMap \<Rightarrow> igd_out list" where
  "add_programs g m =
     (if m_PortMappingEnabled m = 0 then []
      else [Execv (prerouting_args ''-I'' g (m_RemoteHost m) (m_PortMappingProtocol m) (m_ExternalPort m)
               (dest_text (m_InternalClient m) (m_InternalPort m)))]
        @ (if forwardRules g
           then [Execv (accept_args ''-A'' (forwardChainName g) (m_RemoteHost m) (m_PortMappingProtocol m) (m_InternalClient m) (m_InternalPort m))]
           else [])
        @ [Execv (port_fw_args ''-A'' ''--to-destination'' g (m_RemoteHost m) (m_PortMappingProtocol m) (m_InternalClient m) (m_InternalPort m)),
           Execv (accept_args ''-A'' ''PORT_FW'' (m_RemoteHost m) (m_PortMappingProtocol m) (m_InternalClient m) (m_InternalPort m))])"

definition delete_programs :: "igd_globals \<Rightarrow> portMap \<Rightarrow> igd_out list" where
  "delete_programs g m =
     (if m_PortMappingEnabled m = 0 then []
      else [Execv (prerouting_args ''-D'' g (m_RemoteHost m) (m_PortMappingProtocol m) (m_ExternalPort m)
               (dest_text (m_InternalClient m) (m_InternalPort m)))]
        @ (if forwardRules g
           then [Execv (accept_args ''-D'' (forwardChainName g) (m_RemoteHost m) (m_PortMappingProtocol m) (m_InternalClient m) (m_InternalPort m))]
           else [])
        @ [Execv (port_fw_args ''-D'' (if m_RemoteHost m = [] then ''--to'' else ''--to-destination'') g (m_RemoteHost m)
              (m_PortMappingProtocol m) (m_InternalClient m) (m_InternalPort m)),
           Execv (accept_args ''-D'' ''PORT_FW'' (m_RemoteHost m) (m_PortMappingProtocol m) (m_InternalClient m) (m_InternalPort m))])"

lemma rule_of_prerouting:
  "rule_of (prerouting_args op g h p e d) = (op, snd (rule_of (prerouting_args ''-I'' g h p e d)))"
  by (simp add: rule_of_def prerouting_args_def)

lemma rule_of_accept:
  assumes "op \<noteq> ''-t''"
  shows "rule_of (accept_args op chain h p c i) = (op, snd (rule_of (accept_args ''-A'' chain h p c i)))"
  using assms by (auto simp: rule_of_def accept_args_def source_args_def)

lemma rule_of_port_fw:
  assumes "to = ''--to'' \<or> to = ''--to-destination''"
  shows "rule_of (port_fw_args op to g h p c i) = (op, snd (rule_of (port_fw_args ''-A'' ''--to-destination'' g h p c i)))"
  using assms by (auto simp: rule_of_def port_fw_args_def canon_def)

lemma fw_step_rule: "rule_of args = (op, r) \<Longrightarrow> fw_step (Execv args) M = (if op = ''-D'' then M - {#r#} else add_mset r M)"
  by simp

lemma fw_prerouting [simp]:
  "fw_step (Execv (prerouting_args ''-D'' g h p e d)) M = M - {#snd (rule_of (prerouting_args ''-I'' g h p e d))#}"
  "fw_step (Execv (prerouting_args ''-I'' g h p e d)) M = add_mset (snd (rule_of (prerouting_args ''-I'' g h p e d))) M"
  by (simp_all add: fw_step_rule [OF rule_of_prerouting] del: fw_step.simps)

lemma fw_accept [simp]:
  "fw_step (Execv (accept_args ''-D'' chain h p c i)) M = M - {#snd (rule_of (accept_args ''-A'' chain h p c i))#}"
  "fw_step (Execv (accept_args ''-A'' chain h p c i)) M = add_mset (snd (rule_of (accept_args ''-A'' chain h p c i))) M"
  by (simp_all add: fw_step_rule [OF rule_of_accept] del: fw_step.simps)

lemma fw_port_fw [simp]:
  "to = ''--to'' \<or> to = ''--to-destination'' \<Longrightarrow>
   fw_step (Execv (port_fw_args ''-D'' to g h p c i)) M = M - {#snd (rule_of (port_fw_args ''-A'' ''--to-destination'' g h p c i))#}"
  "fw_step (Execv (port_fw_args ''-A'' ''--to-destination'' g h p c i)) M =
     add_mset (snd (rule_of (port_fw_args ''-A'' ''--to-destination'' g h p c i))) M"
  by (simp_all add: fw_step_rule [OF rule_of_port_fw] del: fw_step.simps)

lemma fw_add: "fold fw_step (add_programs g m) M = M + map_rules g m"
  by (simp add: add_programs_def map_rules_def del: fw_step.simps)

lemma fw_delete: "fold fw_step (delete_programs g m) M = M - map_rules g m"
  by (simp add: delete_programs_def map_rules_def add_mset_commute del: fw_step.simps)

declare fw_step.simps(1) [simp del]

section \<open>Sizes of texts\<close>

lemma wrap32_range: "- (2 ^ 31) \<le> wrap32 x" "wrap32 x < 2 ^ 31"
  using sint_ge [of "word_of_int x :: u32"] sint_lt [of "word_of_int x :: u32"] by (simp_all add: wrap32_def)

lemma atol_range: "- (2 ^ 31) \<le> atol cs" "atol cs < 2 ^ 31"
  by (auto simp: atol_def Let_def split: prod.split)

lemma show_int_length:
  assumes "- (2 ^ 31) \<le> x" "x < 2 ^ 31"
  shows "length (show_int x) \<le> 11"
proof (cases "x < 0")
  case True
  then have "nat (- x) < 10 ^ 10" using assms by (simp add: nat_less_iff)
  from dec_length_bound [OF this] True show ?thesis by (simp add: show_int_def)
next
  case False
  then have "nat x < 10 ^ 10" using assms by (simp add: nat_less_iff)
  from dec_length_bound [OF this] False show ?thesis by (simp add: show_int_def)
qed

lemma sprintf_fits: "length cs < n \<Longrightarrow> sprintf n cs = Some cs"
  by (simp add: sprintf_def)

lemma element_length [simp]: "length (element tag body) = 5 + 2 * length tag + length body"
  by (simp add: element_def)

lemma open_tag_length [simp]: "length (open_tag p name urn) = 22 + 2 * length p + length name + length urn"
  by (simp add: open_tag_def dq_def nl_def)

lemma close_tag_length [simp]: "length (close_tag p name) = 12 + length p + length name"
  by (simp add: close_tag_def)

lemma response_length [simp]: "length (response p name body) = 81 + 3 * length p + 2 * length name + length body"
  by (simp add: response_def WANIP_def nl_def)

section \<open>The invariant\<close>

definition igd_names_fit :: "igd_globals \<Rightarrow> bool" where
  "igd_names_fit g \<longleftrightarrow>
     length (iptables_path g) < 50 \<and> length (extInterfaceName g) < 16 \<and> length (forwardChainName g) < 20
     \<and> length (preroutingChainName g) < 20 \<and> length (upstreamBitrate g) < 12 \<and> length (downstreamBitrate g) < 12"

text \<open>The texts of a mapping fit its fields, and the description is short enough for the answers.\<close>

definition fields_fit :: "portMap \<Rightarrow> bool" where
  "fields_fit m \<longleftrightarrow>
     length (m_RemoteHost m) < 16 \<and> length (m_ExternalPort m) < 6 \<and> length (m_InternalPort m) < 6
     \<and> length (m_PortMappingProtocol m) < 4 \<and> length (m_InternalClient m) < 16 \<and> length (m_PortMappingDescription m) < 15
     \<and> - (2 ^ 31) \<le> m_PortMappingEnabled m \<and> m_PortMappingEnabled m < 2 ^ 31
     \<and> - (2 ^ 31) \<le> m_PortMappingLeaseDuration m \<and> m_PortMappingLeaseDuration m < 2 ^ 31"

text \<open>A mapping without its timer and its place in the memory, and the port that it maps.\<close>

definition core :: "portMap \<Rightarrow> portMap" where
  "core m = m\<lparr>expirationEventId := 0, expirationTime := 0, pm_addr := 0\<rparr>"

definition port_key :: "portMap \<Rightarrow> string \<times> string" where
  "port_key m = (m_ExternalPort m, m_PortMappingProtocol m)"

lemma core_simps [simp]:
  "m_PortMappingEnabled (core m) = m_PortMappingEnabled m" "m_PortMappingLeaseDuration (core m) = m_PortMappingLeaseDuration m"
  "m_RemoteHost (core m) = m_RemoteHost m" "m_ExternalPort (core m) = m_ExternalPort m" "m_InternalPort (core m) = m_InternalPort m"
  "m_PortMappingProtocol (core m) = m_PortMappingProtocol m" "m_InternalClient (core m) = m_InternalClient m"
  "m_PortMappingDescription (core m) = m_PortMappingDescription m" "port_key (core m) = port_key m" "core (core m) = core m"
  "map_rules g (core m) = map_rules g m" "fields_fit (core m) = fields_fit m"
  by (simp_all add: core_def port_key_def map_rules_def fields_fit_def)

lemma core_fields:
  "core m = core m' \<Longrightarrow> m_PortMappingEnabled m = m_PortMappingEnabled m' \<and> m_RemoteHost m = m_RemoteHost m'
     \<and> m_ExternalPort m = m_ExternalPort m' \<and> m_InternalPort m = m_InternalPort m' \<and> m_PortMappingProtocol m = m_PortMappingProtocol m'
     \<and> m_InternalClient m = m_InternalClient m' \<and> port_key m = port_key m' \<and> fields_fit m = fields_fit m'"
  by (metis core_simps)

definition rules :: "igd \<Rightarrow> string list multiset" where
  "rules s = (\<Sum>m\<in>#mset (pmlist s). map_rules (gd_vars s) m)"

text \<open>The list, and the timers.\<close>

definition list_inv :: "igd \<Rightarrow> bool" where
  "list_inv s \<longleftrightarrow>
     distinct (map pm_addr (pmlist s)) \<and> distinct (map port_key (pmlist s))
     \<and> (\<forall>m\<in>set (pmlist s). pm_addr m < n_block s \<and> fields_fit m)"

definition event_inv :: "igd \<Rightarrow> bool" where
  "event_inv s \<longleftrightarrow>
     distinct (map eventId (eventQ s))
     \<and> (\<forall>e\<in>set (eventQ s). 0 \<le> eventId e \<and> eventId e < lastEventId s
          \<and> (\<exists>m\<in>set (pmlist s). pm_addr m = ev_mapping e \<and> expirationEventId m = eventId e))"

definition igd_inv :: "igd \<Rightarrow> bool" where
  "igd_inv s \<longleftrightarrow>
     igd_names_fit (gd_vars s) \<and> gd_malloc s = (\<lambda>n. True) \<and> gd_freed_ok s \<and> 0 \<le> lastEventId s
     \<and> list_inv s \<and> event_inv s \<and> firewall (gd_out s) = rules s"

section \<open>Changes of timers\<close>

lemma find_key: "distinct (map f xs) \<Longrightarrow> m \<in> set xs \<Longrightarrow> find (\<lambda>x. f x = f m) xs = Some m"
  by (induction xs) auto

lemma deref_in: "list_inv s \<Longrightarrow> m \<in> set (pmlist s) \<Longrightarrow> deref (pm_addr m) s = Some m"
  by (simp add: list_inv_def deref_def find_key)

lemma addr_inj: "list_inv s \<Longrightarrow> m \<in> set (pmlist s) \<Longrightarrow> m' \<in> set (pmlist s) \<Longrightarrow> pm_addr m = pm_addr m' \<Longrightarrow> m = m'"
  by (metis deref_in option.inject)

lemma key_inj: "list_inv s \<Longrightarrow> m \<in> set (pmlist s) \<Longrightarrow> m' \<in> set (pmlist s) \<Longrightarrow> port_key m = port_key m' \<Longrightarrow> m = m'"
  by (auto simp: list_inv_def distinct_map inj_on_def)

text \<open>Two states that differ in timers only.\<close>

definition retimed :: "igd \<Rightarrow> igd \<Rightarrow> bool" where
  "retimed s s' \<longleftrightarrow>
     map pm_addr (pmlist s') = map pm_addr (pmlist s) \<and> map core (pmlist s') = map core (pmlist s) \<and> gd_vars s' = gd_vars s
     \<and> gd_out s' = gd_out s \<and> gd_malloc s' = gd_malloc s \<and> gd_freed_ok s' = gd_freed_ok s \<and> gd_pool s' = gd_pool s
     \<and> n_block s \<le> n_block s'"

lemma retimed_refl [simp]: "retimed s s"
  by (simp add: retimed_def)

lemma retimed_trans: "retimed s s' \<Longrightarrow> retimed s' s'' \<Longrightarrow> retimed s s''"
  by (simp add: retimed_def)

lemma retimed_member:
  assumes "retimed s s'"
  shows "m' \<in> set (pmlist s') \<Longrightarrow> \<exists>m\<in>set (pmlist s). pm_addr m = pm_addr m' \<and> core m = core m'"
    "m \<in> set (pmlist s) \<Longrightarrow> \<exists>m'\<in>set (pmlist s'). pm_addr m' = pm_addr m \<and> core m' = core m"
proof -
  have "map (\<lambda>m. (pm_addr m, core m)) (pmlist s') = map (\<lambda>m. (pm_addr m, core m)) (pmlist s)"
    using assms by (auto simp: retimed_def list_eq_iff_nth_eq dest!: map_eq_imp_length_eq)
  then have eq: "(\<lambda>m. (pm_addr m, core m)) ` set (pmlist s') = (\<lambda>m. (pm_addr m, core m)) ` set (pmlist s)"
    by (metis list.set_map)
  show "\<exists>m\<in>set (pmlist s). pm_addr m = pm_addr m' \<and> core m = core m'" if m': "m' \<in> set (pmlist s')"
    using imageI [OF m', of "\<lambda>m. (pm_addr m, core m)"] unfolding eq by auto
  show "\<exists>m'\<in>set (pmlist s'). pm_addr m' = pm_addr m \<and> core m' = core m" if m: "m \<in> set (pmlist s)"
    using imageI [OF m, of "\<lambda>m. (pm_addr m, core m)"] unfolding eq [symmetric] by auto
qed

lemma retimed_keys:
  assumes "map core L' = map core L"
  shows "map port_key L' = map port_key L"
proof -
  have "map port_key L = map port_key (map core L)" for L by simp
  then show ?thesis using assms by metis
qed

lemma retimed_rules:
  assumes "retimed s s'"
  shows "rules s' = rules s"
proof -
  have "image_mset (map_rules g) (mset L) = image_mset (map_rules g) (mset (map core L))" for g L
    by (simp add: multiset.map_comp comp_def)
  then have "image_mset (map_rules g) (mset (pmlist s')) = image_mset (map_rules g) (mset (pmlist s))" for g
    using assms by (metis retimed_def)
  then show ?thesis using assms by (simp add: rules_def retimed_def)
qed

lemma retimed_list_inv:
  assumes "retimed s s'" "list_inv s"
  shows "list_inv s'"
proof -
  have "pm_addr m' < n_block s' \<and> fields_fit m'" if m': "m' \<in> set (pmlist s')" for m'
  proof -
    obtain m where "m \<in> set (pmlist s)" "pm_addr m = pm_addr m'" "core m = core m'"
      using retimed_member(1) [OF assms(1) m'] by blast
    moreover have "n_block s \<le> n_block s'" using assms(1) by (simp add: retimed_def)
    ultimately show ?thesis using assms(2) core_fields [of m m'] by (fastforce simp: list_inv_def)
  qed
  then show ?thesis using assms retimed_keys [of "pmlist s'" "pmlist s"] by (simp add: list_inv_def retimed_def)
qed

lemma retimed_inv:
  assumes "retimed s s'" "igd_inv s" "event_inv s'" "0 \<le> lastEventId s'"
  shows "igd_inv s'"
  using assms retimed_rules [OF assms(1)] retimed_list_inv [OF assms(1)] by (simp add: igd_inv_def retimed_def)

lemma retimed_upd:
  assumes "\<And>m. core (f m) = core m" "\<And>m. pm_addr (f m) = pm_addr m"
  shows "retimed s (upd_map a f s)"
  using assms by (simp add: retimed_def upd_map_def)

lemma retimed_update [simp]:
  "retimed s (s'\<lparr>eventQ := q\<rparr>) = retimed s s'" "retimed s (s'\<lparr>lastEventId := i\<rparr>) = retimed s s'"
  "retimed s (s'\<lparr>n_sched := k\<rparr>) = retimed s s'"
  by (simp_all add: retimed_def)

lemma core_timer [simp]: "core (m\<lparr>expirationEventId := i\<rparr>) = core m" "core (m\<lparr>expirationTime := t\<rparr>) = core m"
  by (simp_all add: core_def)

lemma upd_map_simps [simp]:
  "eventQ (upd_map a f s) = eventQ s" "lastEventId (upd_map a f s) = lastEventId s" "n_block (upd_map a f s) = n_block s"
  "set (pmlist (upd_map a f s)) = (\<lambda>m. if pm_addr m = a then f m else m) ` set (pmlist s)" "gd_vars (upd_map a f s) = gd_vars s"
  "gd_malloc (upd_map a f s) = gd_malloc s" "gd_sched (upd_map a f s) = gd_sched s" "n_sched (upd_map a f s) = n_sched s"
  "gd_pool (upd_map a f s) = gd_pool s"
  by (simp_all add: upd_map_def)

lemma remove1_event:
  assumes "distinct (map eventId q)" "e \<in> set q"
  shows "distinct (map eventId (remove1 e q))" "set (remove1 e q) = {x \<in> set q. eventId x \<noteq> eventId e}"
proof -
  have "distinct q" using assms(1) by (simp add: distinct_map)
  moreover have "inj_on eventId (set q)" using assms(1) by (simp add: distinct_map)
  ultimately show "set (remove1 e q) = {x \<in> set q. eventId x \<noteq> eventId e}" using assms(2) by (auto simp: inj_on_def)
  show "distinct (map eventId (remove1 e q))"
    using \<open>distinct q\<close> \<open>inj_on eventId (set q)\<close> by (auto simp: distinct_map intro: inj_on_subset)
qed

text \<open>The event of a mapping is taken out of the queue, and the mapping forgets it.\<close>

lemma forget_event:
  assumes inv: "event_inv s" "list_inv s" and e: "e \<in> set (eventQ s)"
    and s': "s' = upd_map (ev_mapping e) (\<lambda>m. m\<lparr>expirationEventId := i\<rparr>) (s\<lparr>eventQ := remove1 e (eventQ s)\<rparr>)"
  shows "event_inv s'"
proof -
  note r = remove1_event [OF _ e]
  have d: "distinct (map eventId (eventQ s))" using inv(1) by (simp add: event_inv_def)
  have "\<exists>m\<in>set (pmlist s'). pm_addr m = ev_mapping x \<and> expirationEventId m = eventId x" if x: "x \<in> set (eventQ s')" for x
  proof -
    have x': "x \<in> set (eventQ s)" "eventId x \<noteq> eventId e" using x r(2) [OF d] by (auto simp: s')
    obtain m where m: "m \<in> set (pmlist s)" "pm_addr m = ev_mapping x" "expirationEventId m = eventId x"
      using inv(1) x'(1) by (auto simp: event_inv_def)
    obtain n where n: "n \<in> set (pmlist s)" "pm_addr n = ev_mapping e" "expirationEventId n = eventId e"
      using inv(1) e by (auto simp: event_inv_def)
    have "ev_mapping x \<noteq> ev_mapping e" using addr_inj [OF inv(2) m(1) n(1)] m n x'(2) by auto
    then have "m \<in> set (pmlist s')" using m by (auto simp: s' image_iff intro!: bexI [of _ m])
    then show ?thesis using m by blast
  qed
  moreover have "set (eventQ s') \<subseteq> set (eventQ s)" using r(2) [OF d] by (auto simp: s')
  ultimately show ?thesis using r(1) [OF d] inv(1) by (auto simp: event_inv_def s')
qed

lemma cancel_inv:
  assumes inv: "igd_inv s"
  shows "\<exists>s'. CancelMappingExpiration i s = Some s' \<and> retimed s s' \<and> igd_inv s'
           \<and> (\<forall>e\<in>set (eventQ s'). e \<in> set (eventQ s) \<and> eventId e \<noteq> i)"
proof (cases "i < 0")
  case True
  moreover have "eventId e \<ge> 0" if "e \<in> set (eventQ s)" for e using inv that by (auto simp: igd_inv_def event_inv_def)
  ultimately show ?thesis using inv by (auto simp: CancelMappingExpiration_def) force
next
  case False
  show ?thesis
  proof (cases "find (\<lambda>e. eventId e = i) (eventQ s)")
    case None
    then have "\<forall>e\<in>set (eventQ s). eventId e \<noteq> i" by (simp add: find_None_iff)
    then show ?thesis using None False inv by (simp add: CancelMappingExpiration_def TimerThreadRemove_def)
  next
    case (Some e)
    then have e: "e \<in> set (eventQ s)" "eventId e = i" by (auto simp: find_Some_iff)
    have l: "list_inv s" "event_inv s" using inv by (simp_all add: igd_inv_def)
    obtain m where m: "m \<in> set (pmlist s)" "pm_addr m = ev_mapping e" using l(2) e by (auto simp: event_inv_def)
    define s' where "s' = upd_map (ev_mapping e) (\<lambda>m. m\<lparr>expirationEventId := - 1\<rparr>) (s\<lparr>eventQ := remove1 e (eventQ s)\<rparr>)"
    have "deref (ev_mapping e) (s\<lparr>eventQ := remove1 e (eventQ s)\<rparr>) = Some m"
      using deref_in [OF l(1) m(1)] m(2) by (simp add: deref_def)
    then have "CancelMappingExpiration i s = Some s'"
      using False Some by (simp add: CancelMappingExpiration_def TimerThreadRemove_def free_expiration_event_def s'_def)
    moreover have rt: "retimed s s'" unfolding s'_def
      by (rule retimed_trans [OF _ retimed_upd]) simp_all
    moreover have "igd_inv s'"
      using retimed_inv [OF rt inv forget_event [OF l(2) l(1) e(1) s'_def]] inv by (simp add: s'_def igd_inv_def)
    moreover have "\<forall>x\<in>set (eventQ s'). x \<in> set (eventQ s) \<and> eventId x \<noteq> i"
      using remove1_event(2) [OF _ e(1)] l(2) e(2) by (simp add: s'_def event_inv_def)
    ultimately show ?thesis by blast
  qed
qed

section \<open>A mapping is deleted\<close>

definition port_table :: "igd \<Rightarrow> portMap list" where
  "port_table s = map core (pmlist s)"

lemma port_table_simps [simp]: "port_table (outs xs s) = port_table s" "length (port_table s) = length (pmlist s)"
  by (simp_all add: port_table_def)

lemma retimed_table: "retimed s s' \<Longrightarrow> port_table s' = port_table s"
  by (simp add: port_table_def retimed_def)

lemma delete_rules:
  assumes "fields_fit m"
  shows "pmlist_DeletePortMapping (m_PortMappingEnabled m) (m_RemoteHost m) (m_PortMappingProtocol m) (m_ExternalPort m)
           (m_InternalClient m) (m_InternalPort m) s = Some (outs (delete_programs (gd_vars s) m) s)"
proof -
  have "sprintf 100 (dest_text (m_InternalClient m) (m_InternalPort m)) = Some (dest_text (m_InternalClient m) (m_InternalPort m))"
    using assms by (intro sprintf_fits) (simp add: dest_text_def fields_fit_def)
  then show ?thesis by (simp add: pmlist_DeletePortMapping_def delete_programs_def out_outs Let_def)
qed

lemma add_rules:
  assumes "fields_fit m" "igd_names_fit (gd_vars s)"
  shows "pmlist_AddPortMapping (m_PortMappingEnabled m) (m_RemoteHost m) (m_PortMappingProtocol m) (m_ExternalPort m)
           (m_InternalClient m) (m_InternalPort m) s = Some (outs (add_programs (gd_vars s) m) s)"
proof -
  let ?g = "gd_vars s"
  have "sprintf 100 (dest_text (m_InternalClient m) (m_InternalPort m)) = Some (dest_text (m_InternalClient m) (m_InternalPort m))"
    using assms by (intro sprintf_fits) (simp add: dest_text_def fields_fit_def)
  moreover have "length (nat_command ?g (m_PortMappingProtocol m) (m_ExternalPort m) (m_InternalClient m) (m_InternalPort m)) < 500"
    "length (forward_command ?g (m_PortMappingProtocol m) (m_InternalClient m) (m_InternalPort m)) < 500"
    using assms by (simp_all add: nat_command_def forward_command_def fields_fit_def igd_names_fit_def)
  ultimately show ?thesis
    by (simp add: pmlist_AddPortMapping_def add_programs_def out_outs Let_def sprintf_fits)
qed

lemma mset_without:
  "distinct (map f xs) \<Longrightarrow> m \<in> set xs \<Longrightarrow> mset xs = add_mset m (mset (filter (\<lambda>x. f x \<noteq> f m) xs))"
proof (induction xs)
  case (Cons x xs)
  show ?case
  proof (cases "x = m")
    case True
    then have "filter (\<lambda>x. f x \<noteq> f m) xs = xs" using Cons.prems(1) by (intro filter_True ballI) (auto simp: image_iff)
    then show ?thesis using True by simp
  qed (use Cons in auto)
qed simp

text \<open>The mapping leaves the list, with its rules, when no timer is left that points to it.\<close>

lemma unlink_inv:
  assumes inv: "igd_inv s" and m: "m \<in> set (pmlist s)" and e: "\<forall>e\<in>set (eventQ s). ev_mapping e \<noteq> pm_addr m"
    and c: "core n = core m"
    and s': "s' = (outs (delete_programs (gd_vars s) n) s)\<lparr>pmlist := filter (\<lambda>x. pm_addr x \<noteq> pm_addr m) (pmlist s)\<rparr>"
  shows "igd_inv s'" "port_table s' = filter (\<lambda>x. port_key x \<noteq> port_key m) (port_table s)"
proof -
  have l: "list_inv s" "event_inv s" using inv by (simp_all add: igd_inv_def)
  have f: "eventQ s' = eventQ s" "lastEventId s' = lastEventId s" "gd_vars s' = gd_vars s" "n_block s' = n_block s"
    "gd_malloc s' = gd_malloc s" "gd_freed_ok s' = gd_freed_ok s" by (simp_all add: s' outs_def)
  have rn: "map_rules g n = map_rules g m" for g using c by (metis core_simps(11))
  have "\<exists>x\<in>set (pmlist s'). pm_addr x = ev_mapping y \<and> expirationEventId x = eventId y" if y: "y \<in> set (eventQ s)" for y
  proof -
    obtain x where "x \<in> set (pmlist s)" "pm_addr x = ev_mapping y" "expirationEventId x = eventId y"
      using l(2) y by (auto simp: event_inv_def)
    moreover have "ev_mapping y \<noteq> pm_addr m" using e y by blast
    ultimately show ?thesis by (auto simp: s' intro!: bexI [of _ x])
  qed
  then have "event_inv s'" using l(2) by (auto simp: event_inv_def f)
  moreover have "list_inv s'" using l(1) by (auto simp: list_inv_def f s' distinct_map intro: inj_on_subset)
  moreover have "mset (pmlist s) = add_mset m (mset (pmlist s'))"
    using mset_without [OF _ m, of pm_addr] l(1) by (simp add: list_inv_def s')
  then have "rules s = rules s' + map_rules (gd_vars s) m" by (simp add: rules_def f union_commute)
  then have "firewall (gd_out s') = rules s'"
    using inv by (simp add: s' firewall_append fw_delete igd_inv_def rn)
  ultimately show "igd_inv s'" using inv by (simp add: igd_inv_def f)
  have "port_key x \<noteq> port_key m \<longleftrightarrow> pm_addr x \<noteq> pm_addr m" if "x \<in> set (pmlist s)" for x
    using addr_inj [OF l(1) that m] key_inj [OF l(1) that m] by blast
  then show "port_table s' = filter (\<lambda>x. port_key x \<noteq> port_key m) (port_table s)"
    by (simp add: port_table_def s' filter_map comp_def cong: filter_cong)
qed

text \<open>What deleting a mapping does, in \<open>pmlist_Delete\<close> and in \<open>pmlist_FreeList\<close>.\<close>

lemma drop_mapping:
  assumes inv: "igd_inv s" and m: "m \<in> set (pmlist s)" and c: "core n = core m"
  shows "\<exists>s1 s'. CancelMappingExpiration (expirationEventId m) s = Some s1
           \<and> pmlist_DeletePortMapping (m_PortMappingEnabled n) (m_RemoteHost n) (m_PortMappingProtocol n) (m_ExternalPort n)
               (m_InternalClient n) (m_InternalPort n) s1 = Some (outs (delete_programs (gd_vars s) n) s1)
           \<and> s' = (outs (delete_programs (gd_vars s) n) s1)\<lparr>pmlist := filter (\<lambda>x. pm_addr x \<noteq> pm_addr m) (pmlist s1)\<rparr>
           \<and> igd_inv s' \<and> port_table s' = filter (\<lambda>x. port_key x \<noteq> port_key m) (port_table s) \<and> gd_vars s' = gd_vars s \<and> gd_pool s' = gd_pool s
           \<and> map pm_addr (pmlist s') = filter (\<lambda>a. a \<noteq> pm_addr m) (map pm_addr (pmlist s)) \<and> deref (pm_addr m) s' = None"
proof -
  obtain s1 where s1: "CancelMappingExpiration (expirationEventId m) s = Some s1" "retimed s s1" "igd_inv s1"
    and e: "\<forall>e\<in>set (eventQ s1). e \<in> set (eventQ s) \<and> eventId e \<noteq> expirationEventId m"
    using cancel_inv [OF inv] by blast
  have l: "list_inv s" "event_inv s" "list_inv s1" using inv s1(3) by (simp_all add: igd_inv_def)
  have fr: "gd_vars s1 = gd_vars s" "gd_pool s1 = gd_pool s" "map pm_addr (pmlist s1) = map pm_addr (pmlist s)"
    using s1(2) by (simp_all add: retimed_def)
  obtain m1 where m1: "m1 \<in> set (pmlist s1)" "pm_addr m1 = pm_addr m" "core m1 = core m"
    using retimed_member(2) [OF s1(2) m] by blast
  have "ev_mapping y \<noteq> pm_addr m1" if y: "y \<in> set (eventQ s1)" for y
  proof
    assume a: "ev_mapping y = pm_addr m1"
    obtain x where x: "x \<in> set (pmlist s)" "pm_addr x = ev_mapping y" "expirationEventId x = eventId y"
      using l(2) e y by (auto simp: event_inv_def)
    then have "x = m" using addr_inj [OF l(1) x(1) m] a m1(2) by simp
    then show False using x(3) e y by metis
  qed
  then have ev: "\<forall>y\<in>set (eventQ s1). ev_mapping y \<noteq> pm_addr m1" by blast
  let ?s = "(outs (delete_programs (gd_vars s) n) s1)\<lparr>pmlist := filter (\<lambda>x. pm_addr x \<noteq> pm_addr m) (pmlist s1)\<rparr>"
  have "core n = core m1" using c m1(3) by simp
  note u = unlink_inv [OF s1(3) m1(1) ev this, of ?s]
  have "fields_fit n" using core_fields [OF c] l(1) m by (simp add: list_inv_def)
  then have "pmlist_DeletePortMapping (m_PortMappingEnabled n) (m_RemoteHost n) (m_PortMappingProtocol n) (m_ExternalPort n)
      (m_InternalClient n) (m_InternalPort n) s1 = Some (outs (delete_programs (gd_vars s) n) s1)"
    using delete_rules [of n s1] fr by simp
  moreover have "igd_inv ?s" "port_table ?s = filter (\<lambda>x. port_key x \<noteq> port_key m) (port_table s)"
    using u m1 fr core_fields [OF m1(3)] retimed_table [OF s1(2)] by simp_all
  moreover have "gd_vars ?s = gd_vars s" "gd_pool ?s = gd_pool s" using fr by (simp_all add: outs_def)
  moreover have "map pm_addr (pmlist ?s) = filter (\<lambda>a. a \<noteq> pm_addr m) (map pm_addr (pmlist s))"
    by (simp add: fr(3) [symmetric] filter_map comp_def)
  moreover have "deref (pm_addr m) ?s = None" by (simp add: deref_def find_None_iff)
  ultimately show ?thesis using s1(1) by blast
qed

end
