(* ===== verification/Igd_Spec.thy ===== *)
theory Igd_Spec
  imports Igd_Inv
begin

text \<open>
  What the operations of the gateway do to the list of mappings, seen as a table without memory and timers: each keeps the
  invariant, and adding, deleting and expiring a mapping are the operations of the table.
\<close>

section \<open>The table\<close>

definition new_entry :: "add_items \<Rightarrow> string option \<Rightarrow> portMap" where
  "new_entry x host =
     \<lparr>m_PortMappingEnabled = atol (ai_bool_enabled x), m_PortMappingLeaseDuration = atol (ai_int_duration x),
      m_RemoteHost = (case host of None \<Rightarrow> [] | Some h \<Rightarrow> h), m_ExternalPort = ai_ext_port x, m_InternalPort = ai_int_port x,
      m_PortMappingProtocol = ai_proto x, m_InternalClient = ai_int_ip x, m_PortMappingDescription = ai_desc x,
      expirationEventId = 0, expirationTime = 0, pm_addr = 0\<rparr>"

definition table_del :: "string \<times> string \<Rightarrow> portMap list \<Rightarrow> portMap list" where
  "table_del k tab = filter (\<lambda>m. port_key m \<noteq> k) tab"

definition taken :: "add_items \<Rightarrow> portMap list \<Rightarrow> bool" where
  "taken x tab \<longleftrightarrow> (\<exists>m\<in>set tab. port_key m = (ai_ext_port x, ai_proto x) \<and> m_InternalClient m \<noteq> ai_int_ip x)"

definition table_add :: "add_items \<Rightarrow> string option \<Rightarrow> portMap list \<Rightarrow> portMap list" where
  "table_add x host tab =
     (if taken x tab then tab else table_del (ai_ext_port x, ai_proto x) tab @ [new_entry x host])"

text \<open>The interface of the table that the actions use: an entry is looked up, put and deleted by its key. What is found for a key
  depends only on the operations for that key.\<close>

locale keyed_table =
  fixes key :: "'m \<Rightarrow> 'k" and look :: "'k \<Rightarrow> 't \<Rightarrow> 'm option" and put :: "'m \<Rightarrow> 't \<Rightarrow> 't" and del :: "'k \<Rightarrow> 't \<Rightarrow> 't"
  assumes look_put: "look (key m) (put m tab) = Some m"
    and look_put_other: "k \<noteq> key m \<Longrightarrow> look k (put m tab) = look k tab"
    and look_del: "look k (del k tab) = None"
    and look_del_other: "k \<noteq> k' \<Longrightarrow> look k (del k' tab) = look k tab"
begin

lemma put_del: "look (key m) (del (key m) (put m tab)) = None"
  by (rule look_del)

lemma put_twice: "key m' = key m \<Longrightarrow> look (key m) (put m' (put m tab)) = Some m'"
  using look_put [of m'] by simp

lemma puts_and_dels_of_others:
  "\<forall>x\<in>set xs. (case x of Inl m \<Rightarrow> key m | Inr k' \<Rightarrow> k') \<noteq> k \<Longrightarrow>
   look k (fold (\<lambda>x. case x of Inl m \<Rightarrow> put m | Inr k' \<Rightarrow> del k') xs tab) = look k tab"
  by (induction xs arbitrary: tab) (auto simp: look_put_other look_del_other split: sum.splits)

end

definition table_look :: "string \<times> string \<Rightarrow> portMap list \<Rightarrow> portMap option" where
  "table_look k tab = find (\<lambda>m. port_key m = k) tab"

definition table_put :: "portMap \<Rightarrow> portMap list \<Rightarrow> portMap list" where
  "table_put m tab = table_del (port_key m) tab @ [m]"

lemma find_append: "find P (xs @ ys) = (case find P xs of None \<Rightarrow> find P ys | Some x \<Rightarrow> Some x)"
  by (induction xs) auto

lemma look_table_del: "table_look k (table_del k' tab) = (if k = k' then None else table_look k tab)"
  by (induction tab) (auto simp: table_look_def table_del_def)

interpretation ports: keyed_table port_key table_look table_put table_del
proof unfold_locales
  fix m k k' and tab :: "portMap list"
  have s: "table_look k (xs @ [m]) = (case table_look k xs of None \<Rightarrow> if port_key m = k then Some m else None | Some x \<Rightarrow> Some x)" for k xs
    by (simp add: table_look_def find_append split: option.split)
  show "table_look (port_key m) (table_put m tab) = Some m" by (simp add: table_put_def s look_table_del)
  show "k \<noteq> port_key m \<Longrightarrow> table_look k (table_put m tab) = table_look k tab" by (simp add: table_put_def s look_table_del split: option.split)
  show "table_look k (table_del k tab) = None" by (simp add: look_table_del)
  show "k \<noteq> k' \<Longrightarrow> table_look k (table_del k' tab) = table_look k tab" by (simp add: look_table_del)
qed

lemma new_entry_key [simp]: "port_key (new_entry x host) = (ai_ext_port x, ai_proto x)"
  by (simp add: new_entry_def port_key_def)

lemma table_add_put: "table_add x host tab = (if taken x tab then tab else table_put (new_entry x host) tab)"
  by (simp add: table_add_def table_put_def)

section \<open>Deleting\<close>

definition same_rest :: "igd \<Rightarrow> igd \<Rightarrow> bool" where
  "same_rest s s' \<longleftrightarrow> igd_inv s' \<and> gd_vars s' = gd_vars s \<and> gd_pool s' = gd_pool s"

lemma same_rest_trans: "same_rest s s' \<Longrightarrow> same_rest s' s'' \<Longrightarrow> same_rest s s''"
  by (simp add: same_rest_def)

lemma Find_member:
  assumes "list_inv s" "m \<in> set (pmlist s)"
  shows "pmlist_Find (m_ExternalPort m) (m_PortMappingProtocol m) (m_InternalClient m) s = Some m"
proof -
  let ?p = "\<lambda>x. m_ExternalPort x = m_ExternalPort m \<and> m_PortMappingProtocol x = m_PortMappingProtocol m \<and> m_InternalClient x = m_InternalClient m"
  obtain x where x: "find ?p (pmlist s) = Some x"
    using assms(2) by (cases "find ?p (pmlist s)") (auto simp: find_None_iff)
  then have "x \<in> set (pmlist s)" "port_key x = port_key m" by (auto simp: find_Some_iff port_key_def)
  then have "x = m" using key_inj [OF assms(1) _ assms(2)] by blast
  then show ?thesis using x by (simp add: pmlist_Find_def)
qed

lemma Delete_refines:
  assumes inv: "igd_inv s" and m: "m \<in> set (pmlist s)"
  shows "\<exists>s'. pmlist_Delete (pm_addr m) s = Some (True, s') \<and> same_rest s s' \<and> port_table s' = table_del (port_key m) (port_table s)
           \<and> deref (pm_addr m) s' = None"
proof -
  have l: "list_inv s" using inv by (simp add: igd_inv_def)
  obtain s1 s' where c: "CancelMappingExpiration (expirationEventId m) s = Some s1"
      "pmlist_DeletePortMapping (m_PortMappingEnabled m) (m_RemoteHost m) (m_PortMappingProtocol m) (m_ExternalPort m)
               (m_InternalClient m) (m_InternalPort m) s1 = Some (outs (delete_programs (gd_vars s) m) s1)"
    and s': "s' = (outs (delete_programs (gd_vars s) m) s1)\<lparr>pmlist := filter (\<lambda>x. pm_addr x \<noteq> pm_addr m) (pmlist s1)\<rparr>"
    and i: "igd_inv s'" "port_table s' = filter (\<lambda>x. port_key x \<noteq> port_key m) (port_table s)" "gd_vars s' = gd_vars s" "gd_pool s' = gd_pool s"
      "deref (pm_addr m) s' = None"
    using drop_mapping [OF inv m refl] by blast
  have "pmlist_Delete (pm_addr m) s = Some (True, s')"
    using c deref_in [OF l m] Find_member [OF l m] by (simp add: pmlist_Delete_def s')
  then show ?thesis using i by (simp add: same_rest_def table_del_def)
qed

lemma free_mappings_all:
  "igd_inv s \<Longrightarrow> map pm_addr (pmlist s) = map pm_addr ms \<Longrightarrow> port_table s = map core ms \<Longrightarrow>
   \<exists>s'. free_mappings ms s = Some s' \<and> same_rest s s' \<and> pmlist s' = []"
proof (induction ms arbitrary: s)
  case Nil
  then show ?case by (simp add: same_rest_def)
next
  case (Cons n ns)
  obtain m ms where p: "pmlist s = m # ms" "pm_addr m = pm_addr n" "core m = core n" "map pm_addr ms = map pm_addr ns" "map core ms = map core ns"
    using Cons.prems by (cases "pmlist s") (auto simp: port_table_def)
  have l: "list_inv s" using Cons.prems(1) by (simp add: igd_inv_def)
  have m: "m \<in> set (pmlist s)" using p by simp
  obtain s1 s' where c: "CancelMappingExpiration (expirationEventId m) s = Some s1"
      "pmlist_DeletePortMapping (m_PortMappingEnabled n) (m_RemoteHost n) (m_PortMappingProtocol n) (m_ExternalPort n)
               (m_InternalClient n) (m_InternalPort n) s1 = Some (outs (delete_programs (gd_vars s) n) s1)"
    and s': "s' = (outs (delete_programs (gd_vars s) n) s1)\<lparr>pmlist := filter (\<lambda>x. pm_addr x \<noteq> pm_addr m) (pmlist s1)\<rparr>"
    and i: "igd_inv s'" "port_table s' = filter (\<lambda>x. port_key x \<noteq> port_key m) (port_table s)" "gd_vars s' = gd_vars s" "gd_pool s' = gd_pool s"
      "map pm_addr (pmlist s') = filter (\<lambda>a. a \<noteq> pm_addr m) (map pm_addr (pmlist s))"
    using drop_mapping [OF Cons.prems(1) m p(3) [symmetric]] by blast
  have "\<forall>x\<in>set ms. pm_addr x \<noteq> pm_addr m \<and> port_key x \<noteq> port_key m" using l p(1) by (auto simp: list_inv_def image_iff)
  then have "filter (\<lambda>a. a \<noteq> pm_addr m) (map pm_addr ms) = map pm_addr ms"
    "filter (\<lambda>x. port_key x \<noteq> port_key m) (map core ms) = map core ms" by (auto intro!: filter_True)
  then have "map pm_addr (pmlist s') = map pm_addr ns" "port_table s' = map core ns" using i(2,5) p core_fields [OF p(3)] by (simp_all add: port_table_def)
  then obtain s'' where "free_mappings ns s' = Some s''" "same_rest s' s''" "pmlist s'' = []" using Cons.IH [OF i(1)] by blast
  moreover have "free_mappings (n # ns) s = free_mappings ns s'"
    using c deref_in [OF l m] p(2) by (simp add: s')
  moreover have "same_rest s s'" using i by (simp add: same_rest_def)
  ultimately show ?case using same_rest_trans by metis
qed

lemma FreeList_empties:
  assumes "igd_inv s"
  shows "\<exists>s'. pmlist_FreeList s = Some s' \<and> same_rest s s' \<and> pmlist s' = []"
proof -
  obtain s' where s': "free_mappings (pmlist s) s = Some s'" "same_rest s s'" "pmlist s' = []"
    using free_mappings_all [OF assms refl] by (auto simp: port_table_def)
  have "s'\<lparr>pmlist := []\<rparr> = s'" using s'(3) by simp
  then have "pmlist_FreeList s = Some s'" using s'(1) by (simp only: pmlist_FreeList_def option.map)
  then show ?thesis using s' by blast
qed

section \<open>Adding\<close>

lemma event_inv_upd:
  assumes "event_inv s" "\<forall>e\<in>set (eventQ s). ev_mapping e \<noteq> a"
  shows "event_inv (upd_map a f s)"
proof -
  have "\<exists>x\<in>set (pmlist (upd_map a f s)). pm_addr x = ev_mapping y \<and> expirationEventId x = eventId y" if y: "y \<in> set (eventQ s)" for y
  proof -
    obtain x where x: "x \<in> set (pmlist s)" "pm_addr x = ev_mapping y" "expirationEventId x = eventId y"
      using assms(1) y by (auto simp: event_inv_def)
    then have "pm_addr x \<noteq> a" using assms(2) y by metis
    then show ?thesis using x by (auto simp: image_iff intro!: bexI [of _ x])
  qed
  then show ?thesis using assms(1) by (auto simp: event_inv_def)
qed

lemma queue_event_set [simp]: "set (queue_event e q) = insert e (set q)"
  by (induction q) auto

lemma queue_event_distinct: "distinct (map eventId (queue_event e q)) \<longleftrightarrow> eventId e \<notin> eventId ` set q \<and> distinct (map eventId q)"
  by (induction q) auto

text \<open>The end of a new mapping is scheduled.\<close>

lemma scheduled_inv:
  assumes inv: "event_inv s" "0 \<le> lastEventId s" and a: "a \<in> pm_addr ` set (pmlist s)" and e: "\<forall>e\<in>set (eventQ s). ev_mapping e \<noteq> a"
    and x: "ev_mapping x = a" "eventId x = lastEventId s"
  shows "event_inv (upd_map a (\<lambda>m. m\<lparr>expirationEventId := lastEventId s\<rparr>)
           (s\<lparr>n_sched := k, eventQ := queue_event x (eventQ s), lastEventId := lastEventId s + 1\<rparr>))" (is "event_inv ?s")
proof -
  have old: "event_inv (upd_map a (\<lambda>m. m\<lparr>expirationEventId := lastEventId s\<rparr>) s)" using inv(1) e by (rule event_inv_upd)
  have "set (pmlist ?s) = set (pmlist (upd_map a (\<lambda>m. m\<lparr>expirationEventId := lastEventId s\<rparr>) s))" by simp
  moreover have "\<exists>m\<in>set (pmlist ?s). pm_addr m = a \<and> expirationEventId m = lastEventId s"
    using a by (auto simp: image_iff intro!: bexI [of _ "_\<lparr>expirationEventId := lastEventId s\<rparr>"])
  moreover have "eventId x \<notin> eventId ` set (eventQ s)" using inv(1) x by (auto simp: event_inv_def)
  ultimately show ?thesis using old inv(2) x
    by (fastforce simp: event_inv_def queue_event_distinct simp del: upd_map_simps(4))
qed

lemma schedule_inv:
  assumes inv: "igd_inv s" and m: "m \<in> set (pmlist s)" and e: "\<forall>e\<in>set (eventQ s). ev_mapping e \<noteq> pm_addr m"
  shows "\<exists>i s'. ScheduleMappingExpiration (pm_addr m) udn sid c k s = Some (i, s') \<and> retimed s s' \<and> igd_inv s'"
proof (cases "expiration_time (m_PortMappingLeaseDuration m) (g_duration (gd_vars s)) c k")
  case None
  have "list_inv s" using inv by (simp add: igd_inv_def)
  then show ?thesis using None inv m deref_in [of s m] by (simp add: ScheduleMappingExpiration_def)
next
  case (Some t)
  let ?a = "pm_addr m"
  define s2 where "s2 = (upd_map ?a (\<lambda>m. m\<lparr>expirationTime := t\<rparr>) s)\<lparr>n_block := Suc (n_block s)\<rparr>"
  define x where "x = \<lparr>eventId = 0, ev_DevUDN = fit 256 udn, ev_ServiceID = fit 256 sid, ev_mapping = ?a, ev_time = t\<rparr>"
  have i: "event_inv s" "0 \<le> lastEventId s" "list_inv s" "gd_malloc s n" for n using inv by (simp_all add: igd_inv_def)
  have r2: "retimed s s2" using retimed_upd [of "\<lambda>m. m\<lparr>expirationTime := t\<rparr>" s ?a] by (simp add: s2_def retimed_def)
  have e2: "event_inv s2" "0 \<le> lastEventId s2" "?a \<in> pm_addr ` set (pmlist s2)" "\<forall>e\<in>set (eventQ s2). ev_mapping e \<noteq> ?a"
    subgoal using event_inv_upd [OF i(1) e, of "\<lambda>m. m\<lparr>expirationTime := t\<rparr>"] by (simp add: s2_def event_inv_def)
    subgoal using i(2) by (simp add: s2_def)
    subgoal using m r2 by (metis imageI list.set_map retimed_def)
    subgoal using e by (simp add: s2_def)
    done
  have S: "ScheduleMappingExpiration ?a udn sid c k s =
      (case TimerThreadSchedule x s2 of
         (None, s3) \<Rightarrow> Some (0, upd_map ?a (\<lambda>m. m\<lparr>expirationEventId := - 1\<rparr>) s3)
       | (Some i, s3) \<Rightarrow> Some (i, upd_map ?a (\<lambda>m. m\<lparr>expirationEventId := i\<rparr>) s3))"
    using deref_in [OF i(3) m] Some i(4)
    by (simp add: ScheduleMappingExpiration_def new_block_def s2_def x_def Let_def)
  have sched_end: "\<exists>i s'. ScheduleMappingExpiration ?a udn sid c k s = Some (i, s') \<and> retimed s s' \<and> igd_inv s'"
    if S': "ScheduleMappingExpiration ?a udn sid c k s = Some (i, upd_map ?a (\<lambda>m. m\<lparr>expirationEventId := i'\<rparr>) s3)"
      and r3: "retimed s2 s3" and e3: "event_inv (upd_map ?a (\<lambda>m. m\<lparr>expirationEventId := i'\<rparr>) s3)" "0 \<le> lastEventId s3" for i i' s3
  proof -
    have "retimed s (upd_map ?a (\<lambda>m. m\<lparr>expirationEventId := i'\<rparr>) s3)"
      by (rule retimed_trans [OF retimed_trans [OF r2 r3] retimed_upd]) simp_all
    then show ?thesis using S' retimed_inv [OF _ inv e3(1)] e3(2) by simp
  qed
  show ?thesis
  proof (cases "gd_sched s2 (n_sched s2)")
    case Sched_ok
    then show ?thesis
      using S scheduled_inv [OF e2, of "x\<lparr>eventId := lastEventId s2\<rparr>"] e2(2)
      by (intro sched_end [OF S [unfolded TimerThreadSchedule_def Sched_ok Let_def, simplified]]) (simp_all add: x_def)
  next
    case Sched_no_event
    have "event_inv (s2\<lparr>n_sched := Suc (n_sched s2)\<rparr>)" using e2(1) by (simp add: event_inv_def)
    then show ?thesis using e2 event_inv_upd [of "s2\<lparr>n_sched := Suc (n_sched s2)\<rparr>" ?a]
      by (intro sched_end [OF S [unfolded TimerThreadSchedule_def Sched_no_event Let_def, simplified]]) simp_all
  next
    case Sched_no_node
    let ?s = "s2\<lparr>n_sched := Suc (n_sched s2), lastEventId := lastEventId s2 + 1\<rparr>"
    have "event_inv ?s" using e2(1) by (force simp: event_inv_def)
    then show ?thesis using e2 event_inv_upd [of ?s ?a]
      by (intro sched_end [OF S [unfolded TimerThreadSchedule_def Sched_no_node Let_def, simplified]]) simp_all
  qed
qed

text \<open>A new mapping goes to the end of the list, with its rules.\<close>

lemma push_inv:
  assumes inv: "igd_inv s" and n: "fields_fit n" "pm_addr n = n_block s" "port_key n \<notin> port_key ` set (pmlist s)"
  shows "\<exists>s'. pmlist_PushBack n (s\<lparr>n_block := Suc (n_block s)\<rparr>) = Some s' \<and> same_rest s s' \<and> pmlist s' = pmlist s @ [n]
           \<and> eventQ s' = eventQ s"
proof -
  let ?s = "s\<lparr>n_block := Suc (n_block s), pmlist := pmlist s @ [n]\<rparr>"
  let ?s' = "outs (add_programs (gd_vars s) n) ?s"
  have i: "list_inv s" "event_inv s" "igd_names_fit (gd_vars s)" "firewall (gd_out s) = rules s" using inv by (simp_all add: igd_inv_def)
  have "pmlist_PushBack n (s\<lparr>n_block := Suc (n_block s)\<rparr>) = Some ?s'"
    using add_rules [OF n(1), of ?s] i(3) by (simp add: pmlist_PushBack_def)
  moreover have "list_inv ?s'" using i(1) n by (force simp: list_inv_def)
  moreover have "event_inv ?s'" using i(2) by (auto simp: event_inv_def)
  moreover have "firewall (gd_out ?s') = rules ?s'" using i(4) by (simp add: firewall_append fw_add rules_def union_commute)
  ultimately show ?thesis using inv by (simp add: same_rest_def igd_inv_def)
qed

section \<open>Requests\<close>

text \<open>The items of a request fit the fields of a mapping.\<close>

definition item_fits :: "nat \<Rightarrow> string option \<Rightarrow> bool" where
  "item_fits n x = (case x of None \<Rightarrow> True | Some v \<Rightarrow> length v < n)"

definition request_fits :: "igd_request \<Rightarrow> bool" where
  "request_fits rq \<longleftrightarrow>
     item_fits 6 (rq_item rq ''NewExternalPort'') \<and> item_fits 4 (rq_item rq ''NewProtocol'')
     \<and> item_fits 6 (rq_item rq ''NewInternalPort'') \<and> item_fits 16 (rq_item rq ''NewInternalClient'')
     \<and> item_fits 15 (rq_item rq ''NewPortMappingDescription'') \<and> item_fits 16 (rq_item rq ''NewRemoteHost'')"

definition items_fit :: "add_items \<Rightarrow> bool" where
  "items_fit x \<longleftrightarrow> length (ai_ext_port x) < 6 \<and> length (ai_proto x) < 4 \<and> length (ai_int_port x) < 6 \<and> length (ai_int_ip x) < 16
     \<and> length (ai_desc x) < 15"

lemma request_items: "request_fits rq \<Longrightarrow> add_request rq = Some x \<Longrightarrow> items_fit x"
  by (auto simp: request_fits_def item_fits_def add_request_def items_fit_def bind_eq_Some_conv split: option.splits)

lemma NewNode_entry:
  assumes "items_fit x" "item_fits 16 host" "gd_malloc s = (\<lambda>n. True)"
  shows "\<exists>n. pmlist_NewNode (atol (ai_bool_enabled x)) (atol (ai_int_duration x)) host (ai_ext_port x) (ai_int_port x) (ai_proto x)
               (ai_int_ip x) (ai_desc x) s = Some (n, s\<lparr>n_block := Suc (n_block s)\<rparr>)
           \<and> core n = new_entry x host \<and> pm_addr n = n_block s \<and> fields_fit n"
  using assms atol_range [of "ai_bool_enabled x"] atol_range [of "ai_int_duration x"]
  by (auto simp: pmlist_NewNode_def new_block_def core_def new_entry_def fields_fit_def items_fit_def item_fits_def fit_def split: option.splits)

lemma notify_size_fits:
  assumes "length (pmlist s) < 10000"
  shows "notify_size udn sid s = Some (out (Notify udn sid [(''PortMappingNumberOfEntries'', dec (length (pmlist s)))]) s)"
proof -
  have "length (dec (length (pmlist s))) \<le> 4" using assms by (intro dec_length_bound) simp_all
  then show ?thesis by (simp add: notify_size_def pmlist_Size_def sprintf_fits)
qed

lemma firewall_other [simp]: "firewall (xs @ [Notify u i v]) = firewall xs" "firewall (xs @ [Accept u i v]) = firewall xs"
  "firewall (xs @ [Shell c]) = firewall xs"
  by (simp_all add: firewall_append)

lemma out_inv:
  assumes "igd_inv s" "firewall (gd_out s @ [x]) = firewall (gd_out s)"
  shows "same_rest s (out x s)" "port_table (out x s) = port_table s" "pmlist (out x s) = pmlist s" "eventQ (out x s) = eventQ s"
  using assms by (simp_all add: same_rest_def igd_inv_def out_def list_inv_def event_inv_def rules_def port_table_def)

lemma key_in_table: "port_key ` set (pmlist s) = port_key ` set (port_table s)"
  by (simp add: port_table_def image_image)

lemma taken_same: "taken x (port_table s) \<longleftrightarrow> pmlist_Find_SameExtPort (ai_ext_port x) (ai_proto x) (ai_int_ip x) s \<noteq> None"
  by (auto simp: taken_def port_table_def pmlist_Find_SameExtPort_def port_key_def find_None_iff)

lemma table_del_none: "k \<notin> port_key ` set tab \<Longrightarrow> table_del k tab = tab"
  by (auto simp: table_del_def intro!: filter_True)

lemma replaced_refines:
  assumes inv: "igd_inv s" and t: "\<not> taken x (port_table s)"
  shows "\<exists>s1. (case pmlist_Find (ai_ext_port x) (ai_proto x) (ai_int_ip x) s of
                   Some ret \<Rightarrow> map_option snd (pmlist_Delete (pm_addr ret) s) | None \<Rightarrow> Some s) = Some s1
           \<and> same_rest s s1 \<and> port_table s1 = table_del (ai_ext_port x, ai_proto x) (port_table s)"
proof (cases "pmlist_Find (ai_ext_port x) (ai_proto x) (ai_int_ip x) s")
  case None
  then have "(ai_ext_port x, ai_proto x) \<notin> port_key ` set (port_table s)"
    using t by (auto simp: pmlist_Find_def find_None_iff taken_def port_key_def port_table_def)
  then show ?thesis using None inv by (simp add: table_del_none same_rest_def)
next
  case (Some m)
  then have m: "m \<in> set (pmlist s)" "port_key m = (ai_ext_port x, ai_proto x)" by (auto simp: pmlist_Find_def find_Some_iff port_key_def)
  then show ?thesis using Some Delete_refines [OF inv m(1)] by auto
qed

lemma new_mapping_unwatched:
  assumes "igd_inv s" "e \<in> set (eventQ s)"
  shows "ev_mapping e \<noteq> n_block s"
proof -
  obtain m where "m \<in> set (pmlist s)" "pm_addr m = ev_mapping e" using assms by (auto simp: igd_inv_def event_inv_def)
  then show ?thesis using assms(1) by (auto simp: igd_inv_def list_inv_def)
qed

lemma add_mapping_refines:
  assumes inv: "igd_inv s" and t: "\<not> taken x (port_table s)" and x: "items_fit x" "item_fits 16 (rq_item rq ''NewRemoteHost'')"
    and len: "length (pmlist s) < 9999"
  shows "\<exists>s'. add_mapping x rq env s = Some s' \<and> same_rest s s' \<and> port_table s' = table_add x (rq_item rq ''NewRemoteHost'') (port_table s)"
proof -
  let ?host = "rq_item rq ''NewRemoteHost''" and ?k = "(ai_ext_port x, ai_proto x)"
  obtain s1 where s1: "(case pmlist_Find (ai_ext_port x) (ai_proto x) (ai_int_ip x) s of
        Some ret \<Rightarrow> map_option snd (pmlist_Delete (pm_addr ret) s) | None \<Rightarrow> Some s) = Some s1"
      "same_rest s s1" "port_table s1 = table_del ?k (port_table s)"
    using replaced_refines [OF inv t] by blast
  have i1: "igd_inv s1" "gd_malloc s1 = (\<lambda>n. True)" using s1(2) by (auto simp: same_rest_def igd_inv_def)
  obtain n where n: "pmlist_NewNode (atol (ai_bool_enabled x)) (atol (ai_int_duration x)) ?host (ai_ext_port x) (ai_int_port x) (ai_proto x)
               (ai_int_ip x) (ai_desc x) s1 = Some (n, s1\<lparr>n_block := Suc (n_block s1)\<rparr>)"
      "core n = new_entry x ?host" "pm_addr n = n_block s1" "fields_fit n"
    using NewNode_entry [OF x i1(2)] by blast
  have "port_key n = ?k" using n(2) by (metis core_simps(9) new_entry_def port_key_def portMap.select_convs(4,6))
  then have "port_key n \<notin> port_key ` set (pmlist s1)" by (auto simp: key_in_table s1(3) table_del_def)
  then obtain s3 where s3: "pmlist_PushBack n (s1\<lparr>n_block := Suc (n_block s1)\<rparr>) = Some s3" "same_rest s1 s3" "pmlist s3 = pmlist s1 @ [n]"
      "eventQ s3 = eventQ s1"
    using push_inv [OF i1(1) n(4,3)] by blast
  have "\<forall>e\<in>set (eventQ s3). ev_mapping e \<noteq> pm_addr n" using new_mapping_unwatched [OF i1(1)] s3(4) n(3) by simp
  moreover have "igd_inv s3" "n \<in> set (pmlist s3)" using s3 by (simp_all add: same_rest_def)
  ultimately obtain i s4 where s4: "ScheduleMappingExpiration (pm_addr n) (DevUDN rq) (ServiceID rq) (e_time env) (e_clock env) s3 = Some (i, s4)"
      "retimed s3 s4" "igd_inv s4"
    using schedule_inv [of s3 n "DevUDN rq" "ServiceID rq" "e_time env" "e_clock env"] by blast
  have t4: "port_table s4 = table_add x ?host (port_table s)"
    using retimed_table [OF s4(2)] s1(3) s3(3) n(2) t by (simp add: port_table_def table_add_def)
  have "length (table_del ?k (port_table s)) \<le> length (pmlist s)" unfolding port_table_simps(2) [symmetric] table_del_def by (rule length_filter_le)
  then have "length (pmlist s4) < 10000" using t4 len t by (simp add: port_table_simps(2) [symmetric] table_add_def del: port_table_simps)
  note q = notify_size_fits [OF this]
  have "same_rest s s4" using s1(2) s3(2) s4(2,3) by (simp add: same_rest_def retimed_def)
  then show ?thesis
    using s1(1) n(1) s3(1) s4(1) q t4 out_inv [OF s4(3)] by (auto simp: add_mapping_def intro: same_rest_trans)
qed

end
