(* ===== verification/Igd_Run.thy ===== *)
theory Igd_Run
  imports Igd_Spec
begin

text \<open>
  The requests, the timers and the signals of the gateway one after the other: each step returns, keeps the invariant and is
  the step of the table of port mappings.
\<close>

section \<open>The table's view of a request\<close>

definition for_wanip :: "igd_request \<Rightarrow> gate \<Rightarrow> bool" where
  "for_wanip rq t \<longleftrightarrow> ServiceID rq = ''urn:upnp-org:serviceId:WANIPConn1'' \<and> (DevUDN rq = gateconnSCPDUDN t \<or> DevUDN rq = gateUDN t)"

text \<open>The error code and the table after a request to add or to delete a mapping.\<close>

definition table_add_request :: "igd_request \<Rightarrow> portMap list \<Rightarrow> int \<times> portMap list" where
  "table_add_request rq tab =
     (case add_request rq of
        None \<Rightarrow> (402, tab)
      | Some x \<Rightarrow> (if taken x tab then 718 else 0, table_add x (rq_item rq ''NewRemoteHost'') tab))"

definition table_del_request :: "igd_request \<Rightarrow> portMap list \<Rightarrow> int \<times> portMap list" where
  "table_del_request rq tab =
     (case (rq_item rq ''NewExternalPort'', rq_item rq ''NewProtocol'') of
        (Some e, Some p) \<Rightarrow>
          if p = ''TCP'' \<or> p = ''UDP'' then (if (e, p) \<in> port_key ` set tab then 0 else 714, table_del (e, p) tab) else (402, tab)
      | _ \<Rightarrow> (402, tab))"

definition table_action :: "igd_request \<Rightarrow> gate \<Rightarrow> portMap list \<Rightarrow> portMap list" where
  "table_action rq t tab =
     (if \<not> for_wanip rq t \<or> \<not> configureAllowed (gd_vars (gm t)) then tab
      else if ActionName rq = ''AddPortMapping'' then snd (table_add_request rq tab)
      else if ActionName rq = ''DeletePortMapping'' then snd (table_del_request rq tab)
      else tab)"

section \<open>Actions\<close>

definition gate_inv :: "gate \<Rightarrow> bool" where
  "gate_inv t \<longleftrightarrow> igd_inv (gm t) \<and> length (GMTK_ExternalIPAddress t) < 16"

definition env_fits :: "igd_env \<Rightarrow> bool" where
  "env_fits env \<longleftrightarrow> item_fits 16 (e_ip env) \<and> (case e_net_dev env of None \<Rightarrow> True | Some rows \<Rightarrow> list_all (\<lambda>r. length (fst r) < 15) rows)"

definition gate_rest :: "gate \<Rightarrow> gate \<Rightarrow> bool" where
  "gate_rest t t' \<longleftrightarrow>
     same_rest (gm t) (gm t') \<and> gate_inv t' \<and> gateUDN t' = gateUDN t \<and> gateconnSCPDUDN t' = gateconnSCPDUDN t
     \<and> gateicfgSCPDUDN t' = gateicfgSCPDUDN t"

definition answers :: "gate \<Rightarrow> (igd_reply \<times> gate) option \<Rightarrow> bool" where
  "answers t r \<longleftrightarrow> (\<exists>rep t'. r = Some (rep, t') \<and> gate_rest t t' \<and> port_table (gm t') = port_table (gm t))"

lemma gate_rest_refl: "gate_inv t \<Longrightarrow> gate_rest t t"
  by (simp add: gate_rest_def same_rest_def gate_inv_def)

lemma answers_same: "gate_inv t \<Longrightarrow> answers t (Some (rep, t))"
  by (simp add: answers_def gate_rest_refl)

lemma igd_inv_rest: "igd_inv s \<Longrightarrow> same_rest s s"
  by (simp add: same_rest_def)

lemma gate_out_table [simp]: "port_table (gm (gate_out x t)) = port_table (gm t)"
  by (simp add: gate_out_def out_def port_table_def)

lemma gate_out_rest:
  assumes "gate_rest t t'" "\<And>as. x \<noteq> Execv as"
  shows "gate_rest t (gate_out x t')"
proof -
  have i: "igd_inv (gm t')" using assms(1) by (simp add: gate_rest_def gate_inv_def)
  have "firewall (gd_out (gm t') @ [x]) = firewall (gd_out (gm t'))" using assms(2) by (cases x) auto
  note u = out_inv [OF i this]
  show ?thesis
    using assms(1) u by (auto simp: gate_rest_def gate_out_def gate_inv_def same_rest_def)
qed

lemma status_rest:
  assumes "gate_rest t t'"
  shows "gate_rest t (snd (GTK_get_wan_connection_status env t'))"
    "port_table (gm (snd (GTK_get_wan_connection_status env t'))) = port_table (gm t')"
  using assms by (auto simp: GTK_get_wan_connection_status_def Let_def gate_out_rest split: option.split)

lemma fixed_texts:
  assumes "gate_inv t"
  shows "answers t (GetDefaultConnectionService env t)" "answers t (GetConnectionTypeInfo env t)"
    "answers t (GetNATRSIPStatus env t)" "answers t (GetCommonLinkProperties env t)" "answers t (GetStatusInfo env t)"
    "answers t (SetDefaultConnectionService t)" "answers t (InvalidAction t)" "answers t (SetConnectionType t)"
proof -
  have n: "igd_names_fit (gd_vars (gm t))" using assms by (simp add: gate_inv_def igd_inv_def)
  have u: "length (show_int (wrap32 (e_time env - startup_time t))) \<le> 11" by (rule show_int_length) (rule wrap32_range)+
  show "answers t (GetDefaultConnectionService env t)" "answers t (GetConnectionTypeInfo env t)"
    "answers t (GetNATRSIPStatus env t)" "answers t (GetCommonLinkProperties env t)" "answers t (GetStatusInfo env t)"
    using assms n u
    by (simp_all add: GetDefaultConnectionService_def GetConnectionTypeInfo_def GetNATRSIPStatus_def GetCommonLinkProperties_def
        GetStatusInfo_def sprintf_fits WANIP_def WANCOMMON_def nl_def answers_same igd_names_fit_def)
  show "answers t (SetDefaultConnectionService t)" "answers t (InvalidAction t)" "answers t (SetConnectionType t)"
    using assms by (simp_all add: SetDefaultConnectionService_def InvalidAction_def SetConnectionType_def answers_same)
qed

lemma net_total_some: "list_all (\<lambda>r. length (fst r) < 15) rows \<Longrightarrow> \<exists>n. net_total col ext rows = Some n"
  by (induction col ext rows rule: net_total.induct) auto

lemma total_answers:
  assumes "gate_inv t" "env_fits env" "length action < 50" "length tag < 50"
  shows "answers t (total_reply action tag col env t)"
proof -
  have d: "length (dec (unat n)) \<le> 10" for n :: u32
    using unsigned_less [of n, where 'a = nat] by (intro dec_length_bound) simp_all
  obtain n where n: "(case e_net_dev env of None \<Rightarrow> Some 1 | Some rows \<Rightarrow> net_total col (extInterfaceName (gd_vars (gm t))) rows) = Some n"
  proof (cases "e_net_dev env")
    case (Some rows)
    then have "list_all (\<lambda>r. length (fst r) < 15) rows" using assms(2) by (simp add: env_fits_def)
    then show thesis using net_total_some [of rows col "extInterfaceName (gd_vars (gm t))"] Some that by auto
  qed simp
  have "length (open_tag ''u'' action WANCOMMON @ element tag (dec (unat n)) @ nl @ close_tag ''u'' action) < 500"
    using assms(3,4) d [of n] by (simp add: WANCOMMON_def nl_def)
  then show ?thesis using assms(1) n by (simp add: total_reply_def sprintf_fits answers_same)
qed

lemma external_answers:
  assumes "gate_inv t" "env_fits env"
  shows "answers t (GetExternalIPAddress env t)"
  using assms gate_rest_refl [OF assms(1)]
  by (auto simp: GetExternalIPAddress_def Let_def sprintf_fits WANIP_def nl_def answers_def gate_inv_def gate_rest_def env_fits_def
      item_fits_def igd_inv_rest split: option.splits)

lemma connection_answers:
  assumes "gate_inv t" "length (ActionName rq) < 50"
  shows "answers t (RequestConnection rq env t)" "answers t (ForceTermination rq env t)"
proof -
  have f: "sprintf 500 (response ''m'' (ActionName rq) []) = Some (response ''m'' (ActionName rq) [])"
    using assms(2) by (simp add: sprintf_fits)
  have u: "gate_rest t (t'\<lparr>ConnectionStatus := c\<rparr>) = gate_rest t t'" "gate_rest t (t'\<lparr>LastConnectionError := c\<rparr>) = gate_rest t t'" for t' c
    by (simp_all add: gate_rest_def gate_inv_def)
  have s: "gate_rest t (gate_out (Shell c) t)" for c using gate_out_rest [OF gate_rest_refl [OF assms(1)]] by simp
  show "answers t (RequestConnection rq env t)" "answers t (ForceTermination rq env t)"
    using assms(1) gate_rest_refl [OF assms(1)] status_rest [OF s]
    by (auto simp: RequestConnection_def ForceTermination_def f Let_def answers_same case_prod_beta answers_def gate_out_rest u)
qed

lemma entry_answers:
  assumes "gate_inv t"
  shows "length (ActionName rq) < 27 \<Longrightarrow> answers t (GetGenericPortMappingEntry rq env t)"
    "length (ActionName rq) < 28 \<Longrightarrow> answers t (GetSpecificPortMappingEntry rq env t)"
proof -
  have fit: "fields_fit m" if "m \<in> set (pmlist (gm t))" for m using assms(1) that by (simp add: gate_inv_def igd_inv_def list_inv_def)
  have len: "length (show_int (m_PortMappingEnabled m)) \<le> 11" "length (show_int (m_PortMappingLeaseDuration m)) \<le> 11" if "fields_fit m" for m
    using that by (auto simp: fields_fit_def intro!: show_int_length)
  have g: "sprintf 500 (generic_text m) = Some (generic_text m)" "sprintf 500 (entry_text m) = Some (entry_text m)"
    "length (ActionName rq) < 27 \<Longrightarrow>
       sprintf 500 (response ''u'' (ActionName rq) (generic_text m)) = Some (response ''u'' (ActionName rq) (generic_text m))"
    "length (ActionName rq) < 28 \<Longrightarrow>
       sprintf 500 (response ''u'' (ActionName rq) (entry_text m)) = Some (response ''u'' (ActionName rq) (entry_text m))"
    if m: "m \<in> set (pmlist (gm t))" for m
    using fit [OF m] len [OF fit [OF m]] by (auto simp: generic_text_def entry_text_def fields_fit_def intro!: sprintf_fits)
  show "answers t (GetGenericPortMappingEntry rq env t)" if "length (ActionName rq) < 27"
    using assms(1) g that by (auto simp: GetGenericPortMappingEntry_def pmlist_FindByIndex_def answers_same split: option.splits)
  have "m \<in> set (pmlist (gm t))" if "pmlist_FindSpecific e p (gm t) = Some m" for e p m
    using that by (auto simp: pmlist_FindSpecific_def find_Some_iff)
  then show "answers t (GetSpecificPortMappingEntry rq env t)" if "length (ActionName rq) < 28"
    using assms(1) g that by (auto simp: GetSpecificPortMappingEntry_def answers_same split: option.splits)
qed

lemma gate_rest_gm:
  assumes "gate_inv t" "same_rest (gm t) s"
  shows "gate_rest t (t\<lparr>gm := s\<rparr>)"
  using assms by (simp add: gate_rest_def gate_inv_def same_rest_def)

lemma add_refines:
  assumes inv: "gate_inv t" and rq: "request_fits rq" "length (ActionName rq) < 50" and len: "length (pmlist (gm t)) < 9999"
    and conf: "configureAllowed (gd_vars (gm t))"
  shows "\<exists>r t'. AddPortMapping rq env t = Some (r, t') \<and> gate_rest t t' \<and> (ErrCode r, port_table (gm t')) = table_add_request rq (port_table (gm t))"
proof (cases "add_request rq")
  case None
  then show ?thesis using inv conf gate_rest_refl by (simp add: AddPortMapping_def table_add_request_def err_def Let_def)
next
  case (Some x)
  have i: "igd_inv (gm t)" using inv by (simp add: gate_inv_def)
  show ?thesis
  proof (cases "taken x (port_table (gm t))")
    case True
    then show ?thesis
      using Some inv conf gate_rest_refl taken_same [of x "gm t"]
      by (auto simp: AddPortMapping_def table_add_request_def err_def Let_def table_add_def)
  next
    case False
    have "items_fit x" using request_items [OF rq(1) Some] .
    moreover have "item_fits 16 (rq_item rq ''NewRemoteHost'')" using rq(1) by (simp add: request_fits_def)
    ultimately obtain s' where s': "add_mapping x rq env (gm t) = Some s'" "same_rest (gm t) s'"
        "port_table s' = table_add x (rq_item rq ''NewRemoteHost'') (port_table (gm t))"
      using add_mapping_refines [OF i False _ _ len] by blast
    have "pmlist_Find_SameExtPort (ai_ext_port x) (ai_proto x) (ai_int_ip x) (gm t) = None" using False taken_same by blast
    then show ?thesis
      using Some conf s' False rq(2) gate_rest_gm [OF inv s'(2)]
      by (simp add: AddPortMapping_def table_add_request_def sprintf_fits answered_def Let_def)
  qed
qed

lemma del_refines:
  assumes inv: "gate_inv t" and rq: "length (ActionName rq) < 50" and len: "length (pmlist (gm t)) < 9999"
    and conf: "configureAllowed (gd_vars (gm t))"
  shows "\<exists>r t'. DeletePortMapping rq env t = Some (r, t') \<and> gate_rest t t' \<and> (ErrCode r, port_table (gm t')) = table_del_request rq (port_table (gm t))"
proof (cases "\<exists>e p. rq_item rq ''NewExternalPort'' = Some e \<and> rq_item rq ''NewProtocol'' = Some p \<and> (p = ''TCP'' \<or> p = ''UDP'')")
  case False
  then show ?thesis
    using inv conf gate_rest_refl by (auto simp: DeletePortMapping_def table_del_request_def err_def Let_def split: option.splits)
next
  case True
  then obtain e p where q: "rq_item rq ''NewExternalPort'' = Some e" "rq_item rq ''NewProtocol'' = Some p" "p = ''TCP'' \<or> p = ''UDP''" by blast
  have i: "igd_inv (gm t)" using inv by (simp add: gate_inv_def)
  show ?thesis
  proof (cases "pmlist_FindSpecific e p (gm t)")
    case None
    then have "(e, p) \<notin> port_key ` set (port_table (gm t))"
      unfolding key_in_table [symmetric] by (auto simp: pmlist_FindSpecific_def find_None_iff port_key_def)
    then show ?thesis
      using None q conf inv gate_rest_gm [OF inv igd_inv_rest [OF i]]
      by (simp add: DeletePortMapping_def table_del_request_def err_def Let_def table_del_none)
  next
    case (Some m)
    then have m: "m \<in> set (pmlist (gm t))" "port_key m = (e, p)" by (auto simp: pmlist_FindSpecific_def find_Some_iff port_key_def)
    then have k: "(e, p) \<in> port_key ` set (port_table (gm t))" unfolding key_in_table [symmetric] by force
    obtain s' where s': "pmlist_Delete (pm_addr m) (gm t) = Some (True, s')" "same_rest (gm t) s'" "port_table s' = table_del (e, p) (port_table (gm t))"
      using Delete_refines [OF i m(1)] m(2) by auto
    have "length (pmlist s') \<le> length (pmlist (gm t))"
      unfolding port_table_simps(2) [symmetric] s'(3) table_del_def by (rule length_filter_le)
    then have n: "notify_size (DevUDN rq) (ServiceID rq) s' =
        Some (out (Notify (DevUDN rq) (ServiceID rq) [(''PortMappingNumberOfEntries'', dec (length (pmlist s')))]) s')"
      using len by (intro notify_size_fits) simp
    have i': "igd_inv s'" using s'(2) by (simp add: same_rest_def)
    note o' = out_inv [OF i' firewall_other(1)]
    show ?thesis
      using Some q conf s'(1) n rq o' s'(3) k gate_rest_gm [OF inv same_rest_trans [OF s'(2) o'(1)]]
      by (auto simp: DeletePortMapping_def table_del_request_def sprintf_fits answered_def Let_def)
  qed
qed

text \<open>Every request is answered, and changes the table as the table's own operations do.\<close>

lemma action_refines:
  assumes inv: "gate_inv t" and rq: "request_fits rq" "env_fits env" and len: "length (pmlist (gm t)) < 9999"
  shows "\<exists>r t'. HandleActionRequest rq env t = Some (r, t') \<and> gate_rest t t' \<and> port_table (gm t') = table_action rq t (port_table (gm t))"
proof -
  have A: "\<exists>r t'. f = Some (r, t') \<and> gate_rest t t' \<and> port_table (gm t') = port_table (gm t)" if "answers t f" for f
    using that by (auto simp: answers_def)
  have nc: "answers t (AddPortMapping rq env t)" "answers t (DeletePortMapping rq env t)" if "\<not> configureAllowed (gd_vars (gm t))"
    using that answers_same [OF inv] by (simp_all add: AddPortMapping_def DeletePortMapping_def Let_def)
  have tot: "answers t (GetTotalBytesSent env t)" "answers t (GetTotalBytesReceived env t)" "answers t (GetTotalPacketsSent env t)"
    "answers t (GetTotalPacketsReceived env t)"
    unfolding GetTotalBytesSent_def GetTotalBytesReceived_def GetTotalPacketsSent_def GetTotalPacketsReceived_def
    by (rule total_answers [OF inv rq(2)]; simp)+
  note I = fixed_texts [OF inv] tot external_answers [OF inv rq(2)] connection_answers [OF inv] entry_answers [OF inv] answers_same [OF inv]
  show ?thesis
  proof (cases "for_wanip rq t")
    case True
    then have h: "HandleActionRequest rq env t = wanip_action rq env t" by (simp add: HandleActionRequest_def for_wanip_def)
    consider (add) "ActionName rq = ''AddPortMapping''" "configureAllowed (gd_vars (gm t))"
      | (del) "ActionName rq = ''DeletePortMapping''" "configureAllowed (gd_vars (gm t))"
      | (rest) "(ActionName rq = ''AddPortMapping'' \<or> ActionName rq = ''DeletePortMapping'') \<longrightarrow> \<not> configureAllowed (gd_vars (gm t))" by blast
    then show ?thesis
    proof cases
      case add
      then have "HandleActionRequest rq env t = AddPortMapping rq env t" by (simp add: h wanip_action_def)
      moreover obtain r t' where "AddPortMapping rq env t = Some (r, t')" "gate_rest t t'" "port_table (gm t') = snd (table_add_request rq (port_table (gm t)))"
        using add_refines [OF inv rq(1) _ len add(2), of env] add(1) by (auto simp: prod_eq_iff)
      ultimately show ?thesis using add True by (simp add: table_action_def)
    next
      case del
      then have "HandleActionRequest rq env t = DeletePortMapping rq env t" by (simp add: h wanip_action_def)
      moreover obtain r t' where "DeletePortMapping rq env t = Some (r, t')" "gate_rest t t'" "port_table (gm t') = snd (table_del_request rq (port_table (gm t)))"
        using del_refines [OF inv _ len del(2), of rq env] del(1) by (auto simp: prod_eq_iff)
      ultimately show ?thesis using del True by (simp add: table_action_def)
    next
      case rest
      then have "table_action rq t (port_table (gm t)) = port_table (gm t)" by (auto simp: table_action_def)
      moreover have "answers t (wanip_action rq env t)" using rest by (simp add: wanip_action_def I nc Let_def)
      ultimately show ?thesis using A h by simp
    qed
  next
    case False
    have w: "answers t (wancommon_action rq env t)" by (simp add: wancommon_action_def I Let_def)
    have "answers t (HandleActionRequest rq env t)"
      using False w I unfolding HandleActionRequest_def for_wanip_def Let_def by auto
    then show ?thesis using A False by (simp add: table_action_def)
  qed
qed

text \<open>A request for another port leaves what the table has for a port.\<close>

definition names_port :: "igd_request \<Rightarrow> string \<times> string \<Rightarrow> bool" where
  "names_port rq k \<longleftrightarrow> rq_item rq ''NewExternalPort'' = Some (fst k) \<and> rq_item rq ''NewProtocol'' = Some (snd k)"

lemma table_action_other:
  assumes "\<not> names_port rq k"
  shows "table_look k (table_action rq t tab) = table_look k tab"
proof -
  have "(ai_ext_port x, ai_proto x) \<noteq> k" if "add_request rq = Some x" for x
    using that assms by (auto simp: add_request_def names_port_def bind_eq_Some_conv)
  then have "table_look k (snd (table_add_request rq tab)) = table_look k tab"
    by (auto simp: table_add_request_def table_add_put ports.look_put_other split: option.split)
  moreover have "table_look k (snd (table_del_request rq tab)) = table_look k tab"
    using assms by (auto simp: table_del_request_def names_port_def intro!: ports.look_del_other split: option.split)
  ultimately show ?thesis by (simp add: table_action_def)
qed

lemma look_port_table: "table_look (e, p) (port_table s) = map_option core (pmlist_FindSpecific e p s)"
proof -
  have "find (\<lambda>m. port_key m = (e, p)) (map core xs) = map_option core (find (\<lambda>m. m_ExternalPort m = e \<and> m_PortMappingProtocol m = p) xs)" for xs
    by (induction xs) (auto simp: port_key_def)
  then show ?thesis by (simp add: table_look_def port_table_def pmlist_FindSpecific_def)
qed

section \<open>Timers and signals\<close>

text \<open>The timer hands its first event over, and the job ends the mapping before anything else runs.\<close>

definition table_tick :: "int \<Rightarrow> igd \<Rightarrow> portMap list \<Rightarrow> portMap list" where
  "table_tick curtime s tab =
     (case eventQ s of
        [] \<Rightarrow> tab
      | e # es \<Rightarrow> if ev_time e \<le> curtime then (case deref (ev_mapping e) s of None \<Rightarrow> tab | Some m \<Rightarrow> table_del (port_key m) tab) else tab)"

lemma expire_refines:
  assumes inv: "igd_inv s" and q: "eventQ s = e # es" and len: "length (pmlist s) < 9999"
  shows "\<exists>m s'. deref (ev_mapping e) s = Some m \<and> ExpireMapping e (s\<lparr>eventQ := es\<rparr>) = Some s' \<and> same_rest s s'
           \<and> port_table s' = table_del (port_key m) (port_table s)"
proof -
  have l: "list_inv s" "event_inv s" "0 \<le> lastEventId s" using inv by (simp_all add: igd_inv_def)
  obtain m where m: "m \<in> set (pmlist s)" "pm_addr m = ev_mapping e" using l(2) q by (auto simp: event_inv_def)
  have d: "deref (ev_mapping e) s = Some m" using deref_in [OF l(1) m(1)] m(2) by simp
  define s1 where "s1 = upd_map (ev_mapping e) (\<lambda>m. m\<lparr>expirationEventId := - 1\<rparr>) (s\<lparr>eventQ := es\<rparr>)"
  have s1': "s1 = upd_map (ev_mapping e) (\<lambda>m. m\<lparr>expirationEventId := - 1\<rparr>) (s\<lparr>eventQ := remove1 e (eventQ s)\<rparr>)"
    by (simp add: s1_def q)
  have r: "retimed s s1" unfolding s1_def by (rule retimed_trans [OF _ retimed_upd]) simp_all
  have i1: "igd_inv s1"
    using retimed_inv [OF r inv forget_event [OF l(2,1) _ s1']] l(3) q by (simp add: s1_def)
  obtain m1 where m1: "m1 \<in> set (pmlist s1)" "pm_addr m1 = pm_addr m" "core m1 = core m" using retimed_member(2) [OF r m(1)] by blast
  obtain s2 where s2: "pmlist_Delete (pm_addr m1) s1 = Some (True, s2)" "same_rest s1 s2" "port_table s2 = table_del (port_key m) (port_table s)"
      "deref (pm_addr m1) s2 = None"
    using Delete_refines [OF i1 m1(1)] retimed_table [OF r] core_fields [OF m1(3)] by auto
  have "length (pmlist s2) \<le> length (pmlist s)" unfolding port_table_simps(2) [symmetric] s2(3) table_del_def by (rule length_filter_le)
  then have n: "length (pmlist s2) < 10000" using len by simp
  have i2: "igd_inv s2" using s2(2) by (simp add: same_rest_def)
  let ?s3 = "out (Notify (ev_DevUDN e) (ev_ServiceID e) [(''PortMappingNumberOfEntries'', dec (length (pmlist s2)))]) s2"
  note o' = out_inv [OF i2 firewall_other(1)]
  have "deref (ev_mapping e) ?s3 = None" "gd_freed_ok ?s3" using s2(4) m m1(2) i2 by (simp_all add: deref_def out_def igd_inv_def)
  then have "ExpireMapping e (s\<lparr>eventQ := es\<rparr>) = Some ?s3"
    using d s2(1) m m1(2) notify_size_fits [OF n]
    by (simp add: ExpireMapping_def s1_def [symmetric] free_expiration_event_def) (simp add: deref_def)
  moreover have "same_rest s ?s3" using r s2(2) same_rest_trans [OF s2(2) o'(1)] by (simp add: same_rest_def retimed_def)
  ultimately show ?thesis using d s2(3) o' by auto
qed

text \<open>A turn is a request, a signal, or the timer with the job that it starts.\<close>

fun turn_fits :: "igd_event list \<Rightarrow> bool" where
  "turn_fits [Igd_action rq env] = (request_fits rq \<and> env_fits env)"
| "turn_fits [Igd_timer c, Igd_job] = True"
| "turn_fits [Igd_subscribe u i env] = True"
| "turn_fits [Igd_usr1] = True"
| "turn_fits [Igd_term] = True"
| "turn_fits _ = False"

fun run_gate :: "igd_run \<Rightarrow> gate" where
  "run_gate (Igd_loop t) = t"
| "run_gate (Igd_exit t) = t"

definition run_inv :: "nat \<Rightarrow> igd_run \<Rightarrow> bool" where
  "run_inv n r \<longleftrightarrow>
     gate_inv (run_gate r) \<and> gd_pool (gm (run_gate r)) = [] \<and> length (pmlist (gm (run_gate r))) \<le> n
     \<and> (\<forall>t. r = Igd_exit t \<longrightarrow> pmlist (gm t) = [])"

lemma table_del_length: "length (table_del k tab) \<le> length tab"
  by (simp add: table_del_def)

lemma table_action_length: "length (table_action rq t tab) \<le> Suc (length tab)"
  by (auto simp: table_action_def table_add_request_def table_add_def table_del_request_def table_del_length le_SucI [OF table_del_length]
      split: option.splits)

lemma timer_turn:
  assumes inv: "gate_inv t" "gd_pool (gm t) = []" "length (pmlist (gm t)) < 9999"
  shows "\<exists>t'. igd_steps [Igd_timer c, Igd_job] (Igd_loop t) = Some (Igd_loop t') \<and> gate_rest t t'
           \<and> port_table (gm t') = table_tick c (gm t) (port_table (gm t))"
proof (cases "\<exists>e es. eventQ (gm t) = e # es \<and> ev_time e \<le> c")
  case False
  then have "timer_due c (gm t) = gm t" "table_tick c (gm t) (port_table (gm t)) = port_table (gm t)"
    by (auto simp: timer_due_def table_tick_def split: list.splits)
  then show ?thesis using inv gate_rest_refl by (simp add: pool_job_def)
next
  case True
  then obtain e es where q: "eventQ (gm t) = e # es" "ev_time e \<le> c" by blast
  have i: "igd_inv (gm t)" using inv(1) by (simp add: gate_inv_def)
  obtain m s' where m: "deref (ev_mapping e) (gm t) = Some m" "ExpireMapping e (gm t\<lparr>eventQ := es\<rparr>) = Some s'" "same_rest (gm t) s'"
      "port_table s' = table_del (port_key m) (port_table (gm t))"
    using expire_refines [OF i q(1) inv(3)] by blast
  have "timer_due c (gm t) = gm t\<lparr>eventQ := es, gd_pool := [e]\<rparr>" using q inv(2) by (simp add: timer_due_def)
  moreover have "gm t\<lparr>eventQ := es, gd_pool := []\<rparr> = gm t\<lparr>eventQ := es\<rparr>" using inv(2) by simp
  then have "ExpireMapping e (gm t\<lparr>eventQ := es, gd_pool := []\<rparr>) = Some s'" using m(2) by (simp only:)
  ultimately have "igd_steps [Igd_timer c, Igd_job] (Igd_loop t) = Some (Igd_loop (t\<lparr>gm := s'\<rparr>))"
    by (simp add: pool_job_def)
  then show ?thesis using gate_rest_gm [OF inv(1) m(3)] m(1,4) q by (simp add: table_tick_def)
qed

lemma DeleteAll_empties:
  assumes "gate_inv t"
  shows "\<exists>t'. DeleteAllPortMappings t = Some t' \<and> gate_rest t t' \<and> pmlist (gm t') = []"
proof -
  have "igd_inv (gm t)" using assms by (simp add: gate_inv_def)
  then obtain s where s: "pmlist_FreeList (gm t) = Some s" "same_rest (gm t) s" "pmlist s = []" using FreeList_empties by blast
  note r = gate_out_rest [OF gate_rest_gm [OF assms s(2)]]
  show ?thesis using s r by (simp add: DeleteAllPortMappings_def) (simp add: gate_out_def out_def)
qed

lemma subscription_rest:
  assumes "gate_inv t"
  shows "gate_rest t (HandleSubscriptionRequest u i env t)" "port_table (gm (HandleSubscriptionRequest u i env t)) = port_table (gm t)"
proof -
  have e: "gate_rest t (t\<lparr>ExternalIPAddress := a\<rparr>)" for a using gate_rest_refl [OF assms] by (simp add: gate_rest_def gate_inv_def)
  show "gate_rest t (HandleSubscriptionRequest u i env t)" "port_table (gm (HandleSubscriptionRequest u i env t)) = port_table (gm t)"
    using gate_rest_refl [OF assms] e
    by (auto simp: HandleSubscriptionRequest_def Let_def gate_out_rest split: option.split)
qed

lemma turn_inv:
  assumes inv: "run_inv n r" "n < 9999" and evs: "turn_fits evs"
  shows "\<exists>r'. igd_steps evs r = Some r' \<and> run_inv (Suc n) r'"
proof (cases r)
  case (Igd_exit t)
  have "igd_steps evs (Igd_exit t) = Some (Igd_exit t)" for evs by (induction evs) auto
  then show ?thesis using Igd_exit inv by (auto simp: run_inv_def)
next
  case (Igd_loop t)
  have i: "gate_inv t" "gd_pool (gm t) = []" "length (pmlist (gm t)) \<le> n" using inv Igd_loop by (simp_all add: run_inv_def)
  have len: "length (pmlist (gm t)) < 9999" using i(3) inv(2) by simp
  have R: "run_inv (Suc n) r'" if "gate_rest t (run_gate r')" "length (port_table (gm (run_gate r'))) \<le> Suc n"
      "\<And>t'. r' = Igd_exit t' \<Longrightarrow> pmlist (gm t') = []" for r'
    using that i by (simp add: run_inv_def gate_rest_def same_rest_def)
  show ?thesis using evs
  proof (cases rule: turn_fits.cases [of evs])
    case (1 rq env)
    obtain a t' where t': "HandleActionRequest rq env t = Some (a, t')" "gate_rest t t'" "port_table (gm t') = table_action rq t (port_table (gm t))"
      using action_refines [OF i(1) _ _ len, of rq env] evs 1 by auto
    have "length (port_table (gm t')) \<le> Suc n" using table_action_length [of rq t "port_table (gm t)"] i(3) unfolding t'(3) by simp
    then show ?thesis using 1 Igd_loop t' by (auto intro!: R)
  next
    case (2 c)
    obtain t' where t': "igd_steps [Igd_timer c, Igd_job] (Igd_loop t) = Some (Igd_loop t')" "gate_rest t t'"
        "port_table (gm t') = table_tick c (gm t) (port_table (gm t))" using timer_turn [OF i(1,2) len] by blast
    have "length (port_table (gm t')) \<le> length (port_table (gm t))"
      unfolding t'(3) table_tick_def using table_del_length [of _ "port_table (gm t)"] by (simp split: list.split option.split)
    then show ?thesis using 2 Igd_loop t' i(3) by (auto intro!: R)
  next
    case (3 u j env)
    have "length (port_table (gm (HandleSubscriptionRequest u j env t))) \<le> Suc n" unfolding subscription_rest [OF i(1)] using i(3) by simp
    then show ?thesis using 3 Igd_loop subscription_rest [OF i(1)] by (auto intro!: R)
  next
    case 4
    obtain t' where "DeleteAllPortMappings t = Some t'" "gate_rest t t'" "pmlist (gm t') = []" using DeleteAll_empties [OF i(1)] by blast
    then show ?thesis using 4 Igd_loop by (auto intro!: R)
  next
    case 5
    obtain t' where "DeleteAllPortMappings t = Some t'" "gate_rest t t'" "pmlist (gm t') = []" using DeleteAll_empties [OF i(1)] by blast
    then show ?thesis using 5 Igd_loop by (auto intro!: R)
  qed simp_all
qed

lemma igd_steps_append: "igd_steps (xs @ ys) r = do { r1 \<leftarrow> igd_steps xs r; igd_steps ys r1 }"
  by (induction xs arbitrary: r) (auto split: Option.bind_splits)

lemma turns_inv:
  "run_inv n r \<Longrightarrow> list_all turn_fits turns \<Longrightarrow> n + length turns \<le> 9999 \<Longrightarrow>
   \<exists>r'. igd_steps (concat turns) r = Some r' \<and> run_inv (n + length turns) r'"
proof (induction turns arbitrary: n r)
  case (Cons evs turns)
  then obtain r1 where "igd_steps evs r = Some r1" "run_inv (Suc n) r1" using turn_inv [of n r evs] by auto
  then show ?case using Cons.IH [of "Suc n" r1] Cons.prems by (simp add: igd_steps_append)
qed simp

text \<open>The state with which the program starts.\<close>

definition igd_ready :: "igd \<Rightarrow> bool" where
  "igd_ready s \<longleftrightarrow> igd_names_fit (gd_vars s) \<and> gd_malloc s = (\<lambda>n. True) \<and> gd_freed_ok s \<and> gd_out s = []"

lemma start_inv:
  assumes "igd_ready s" "item_fits 16 ip"
  shows "run_inv 0 (Igd_loop (gate_start uuid udn ip c s))"
  using assms by (auto simp: run_inv_def gate_start_def gate_inv_def igd_inv_def list_inv_def event_inv_def rules_def firewall_def
      igd_ready_def item_fits_def split: option.splits)

end
