(* ===== verification/Igd_Properties.thy ===== *)
theory Igd_Properties
  imports Igd_Run
begin

text \<open>The properties of the UPnP gateway, with a witness for each that has hypotheses.\<close>

section \<open>A gateway for the witnesses\<close>

definition demo_vars :: igd_globals where
  "demo_vars = \<lparr>extInterfaceName = ''vlan2'', iptables_path = ''/usr/sbin/iptables'', upstreamBitrate = ''0'', downstreamBitrate = ''0'',
     forwardChainName = ''FORWARD'', preroutingChainName = ''PREROUTING'', forwardRules = True, g_duration = - 3600,
     configureAllowed = True, disableAllowed = True\<rparr>"

definition demo_igd :: igd where
  "demo_igd = \<lparr>gd_vars = demo_vars, pmlist = [], eventQ = [], lastEventId = 0, gd_pool = [], n_block = 0, gd_malloc = (\<lambda>n. True),
     gd_junk = (\<lambda>n. 0), n_sched = 0, gd_sched = (\<lambda>n. Sched_ok), gd_freed_ok = True, gd_out = []\<rparr>"

definition demo_item :: "string \<Rightarrow> string option" where
  "demo_item = map_of [(''NewExternalPort'', ''3074''), (''NewProtocol'', ''UDP''), (''NewInternalPort'', ''3074''),
     (''NewInternalClient'', ''192.168.1.7''), (''NewLeaseDuration'', ''0''), (''NewEnabled'', ''1''),
     (''NewPortMappingDescription'', ''Xbox''), (''NewPortMappingIndex'', ''0'')]"

definition demo_rq :: "string \<Rightarrow> igd_request" where
  "demo_rq action = \<lparr>ActionName = action, DevUDN = ''uuid:1'', ServiceID = ''urn:upnp-org:serviceId:WANIPConn1'', rq_item = demo_item\<rparr>"

definition demo_igd_env :: igd_env where
  "demo_igd_env = \<lparr>e_time = 1000000, e_clock = 7200, e_ip = Some ''10.0.0.2'', e_wan_connect = Some 1, e_ip_forward = Some 1, e_net_dev = None,
     e_xml = (\<lambda>x. True)\<rparr>"

definition demo_gate :: gate where
  "demo_gate = gate_start ''1'' ''uuid:1'' None 0 demo_igd"

lemma demo_ready [simp]: "igd_ready demo_igd" "item_fits 16 None"
  by (simp_all add: igd_ready_def demo_igd_def igd_names_fit_def demo_vars_def item_fits_def)

lemma demo_fits [simp]: "request_fits (demo_rq action)" "env_fits demo_igd_env"
  by (simp_all add: request_fits_def demo_rq_def demo_item_def item_fits_def env_fits_def demo_igd_env_def)

lemma demo_inv [simp]: "gate_inv demo_gate" "gd_pool (gm demo_gate) = []" "pmlist (gm demo_gate) = []"
  using start_inv [OF demo_ready, of "''1''" "''uuid:1''" 0] by (simp_all add: run_inv_def demo_gate_def gate_start_def)

lemma demo_rq_simps [simp]: "ActionName (demo_rq action) = action" "rq_item (demo_rq action) = demo_item"
  by (simp_all add: demo_rq_def)

lemma demo_items [simp]: "demo_item ''NewExternalPort'' = Some ''3074''" "demo_item ''NewProtocol'' = Some ''UDP''"
  "demo_item ''NewPortMappingIndex'' = Some ''0''"
  by (simp_all add: demo_item_def)

lemma demo_for_wanip [simp]: "for_wanip (demo_rq action) demo_gate" "configureAllowed (gd_vars (gm demo_gate))"
  by (simp_all add: for_wanip_def demo_rq_def demo_gate_def gate_start_def demo_igd_def demo_vars_def)

text \<open>The gateway with one mapping, whose timer runs.\<close>

definition demo_map :: portMap where
  "demo_map = \<lparr>m_PortMappingEnabled = 1, m_PortMappingLeaseDuration = 0, m_RemoteHost = [], m_ExternalPort = ''3074'', m_InternalPort = ''3074'',
     m_PortMappingProtocol = ''UDP'', m_InternalClient = ''192.168.1.7'', m_PortMappingDescription = ''Xbox'', expirationEventId = 0,
     expirationTime = 1082800, pm_addr = 0\<rparr>"

definition demo_event :: expiration_event where
  "demo_event = \<lparr>eventId = 0, ev_DevUDN = ''uuid:1'', ev_ServiceID = ''urn:upnp-org:serviceId:WANIPConn1'', ev_mapping = 0, ev_time = 1082800\<rparr>"

definition demo_due :: gate where
  "demo_due = demo_gate\<lparr>gm := demo_igd\<lparr>pmlist := [demo_map], eventQ := [demo_event], lastEventId := 1, n_block := 2, n_sched := 1,
     gd_out := add_programs demo_vars demo_map\<rparr>\<rparr>"

lemma demo_due_inv [simp]:
  "gate_inv demo_due" "gd_pool (gm demo_due) = []" "pmlist (gm demo_due) = [demo_map]" "eventQ (gm demo_due) = [demo_event]"
proof -
  have "firewall (add_programs g m) = map_rules g m" for g m by (simp add: firewall_def fw_add)
  then show "gate_inv demo_due"
    by (simp add: gate_inv_def demo_due_def igd_inv_def demo_igd_def list_inv_def event_inv_def rules_def demo_map_def demo_event_def
        fields_fit_def igd_names_fit_def demo_vars_def demo_gate_def gate_start_def)
qed (simp_all add: demo_due_def demo_igd_def)

section \<open>Safety\<close>



text \<open>C9: The firewall mirrors the mappings: after every such sequence the rules in the firewall are exactly the rules of the
  mappings in the list, and no port of the router is mapped twice for the same protocol.\<close>

theorem firewall_mirrors_mappings:
  assumes "igd_ready s" "item_fits 16 ip" "list_all turn_fits turns" "length turns \<le> 9999"
  shows "\<exists>r. igd_steps (concat turns) (Igd_loop (gate_start uuid udn ip c s)) = Some r
           \<and> firewall (gd_out (gm (run_gate r))) = (\<Sum>m\<in>#mset (pmlist (gm (run_gate r))). map_rules (gd_vars (gm (run_gate r))) m)
           \<and> distinct (map port_key (pmlist (gm (run_gate r))))"
  using turns_inv [OF start_inv [OF assms(1,2)] assms(3), of uuid udn c] assms(4)
  by (auto simp: run_inv_def gate_inv_def igd_inv_def list_inv_def rules_def)

theorem firewall_mirrors_mappings_witness:
  "\<exists>r. igd_steps [Igd_action (demo_rq ''AddPortMapping'') demo_igd_env] (Igd_loop demo_gate) = Some r
     \<and> firewall (gd_out (gm (run_gate r))) = (\<Sum>m\<in>#mset (pmlist (gm (run_gate r))). map_rules (gd_vars (gm (run_gate r))) m)"
  using firewall_mirrors_mappings [of demo_igd None "[[Igd_action (demo_rq ''AddPortMapping'') demo_igd_env]]" "''1''" "''uuid:1''" 0]
  by (auto simp: demo_gate_def)

text \<open>C16: When the gateway is terminated, it takes all its rules out of the firewall, and no mapping and no timer is left.\<close>

theorem termination_clears_firewall:
  assumes "igd_ready s" "item_fits 16 ip" "list_all turn_fits turns" "length turns < 9999"
  shows "\<exists>t. igd_steps (concat turns @ [Igd_term]) (Igd_loop (gate_start uuid udn ip c s)) = Some (Igd_exit t)
           \<and> firewall (gd_out (gm t)) = {#} \<and> pmlist (gm t) = [] \<and> eventQ (gm t) = []"
proof -
  let ?r0 = "Igd_loop (gate_start uuid udn ip c s)"
  obtain r1 where r1: "igd_steps (concat turns) ?r0 = Some r1" "run_inv (length turns) r1"
    using turns_inv [OF start_inv [OF assms(1,2)] assms(3), of uuid udn c] assms(4) by auto
  obtain r where r: "igd_steps [Igd_term] r1 = Some r" "run_inv (Suc (length turns)) r" using turn_inv [OF r1(2) assms(4), of "[Igd_term]"] by auto
  obtain t where t: "r = Igd_exit t" using r(1) by (cases r1) (auto simp: bind_eq_Some_conv)
  have "pmlist (gm t) = []" "igd_inv (gm t)" using r(2) t by (simp_all add: run_inv_def gate_inv_def)
  moreover from this have "eventQ (gm t) = []" "firewall (gd_out (gm t)) = {#}"
    by (auto simp: igd_inv_def event_inv_def rules_def)
  moreover have "igd_steps (concat turns @ [Igd_term]) ?r0 = Some (Igd_exit t)" using r1(1) r(1) t by (simp add: igd_steps_append)
  ultimately show ?thesis by blast
qed

theorem termination_clears_firewall_witness:
  "\<exists>t. igd_steps [Igd_action (demo_rq ''AddPortMapping'') demo_igd_env, Igd_term] (Igd_loop demo_gate) = Some (Igd_exit t)
     \<and> firewall (gd_out (gm t)) = {#}"
  using termination_clears_firewall [of demo_igd None "[[Igd_action (demo_rq ''AddPortMapping'') demo_igd_env]]" "''1''" "''uuid:1''" 0]
  by (auto simp: demo_gate_def)

section \<open>The table of mappings\<close>

text \<open>C10: A request to add or to delete a mapping is answered with the code of the table, and changes the list as the table
  changes: 718 when the port belongs to another client, else the mapping of the client is replaced by the new one at the end;
  714 when the mapping to delete is not there.\<close>

theorem mapping_request_refines_table:
  assumes "gate_inv t" "request_fits rq" "env_fits env" "length (pmlist (gm t)) < 9999" "for_wanip rq t" "configureAllowed (gd_vars (gm t))"
    and "ActionName rq = ''AddPortMapping'' \<or> ActionName rq = ''DeletePortMapping''"
  shows "\<exists>r t'. HandleActionRequest rq env t = Some (r, t') \<and> gate_inv t'
           \<and> (ErrCode r, port_table (gm t')) =
               (if ActionName rq = ''AddPortMapping'' then table_add_request rq (port_table (gm t)) else table_del_request rq (port_table (gm t)))"
proof (cases "ActionName rq = ''AddPortMapping''")
  case True
  then have "HandleActionRequest rq env t = AddPortMapping rq env t"
    using assms(5) by (simp add: HandleActionRequest_def for_wanip_def wanip_action_def)
  then show ?thesis using add_refines [OF assms(1,2) _ assms(4,6), of env] True by (auto simp: gate_rest_def)
next
  case False
  then have "HandleActionRequest rq env t = DeletePortMapping rq env t"
    using assms(5,7) by (auto simp: HandleActionRequest_def for_wanip_def wanip_action_def)
  then show ?thesis using del_refines [OF assms(1) _ assms(4,6), of rq env] False assms(7) by (auto simp: gate_rest_def)
qed

theorem mapping_request_refines_table_witness:
  "\<exists>r t'. HandleActionRequest (demo_rq ''AddPortMapping'') demo_igd_env demo_gate = Some (r, t') \<and> ErrCode r = 0 \<and> length (port_table (gm t')) = 1"
proof -
  have "table_add_request (demo_rq ''AddPortMapping'') [] = (0, [new_entry \<lparr>ai_ext_port = ''3074'', ai_proto = ''UDP'', ai_int_port = ''3074'',
      ai_int_ip = ''192.168.1.7'', ai_int_duration = ''0'', ai_bool_enabled = ''1'', ai_desc = ''Xbox''\<rparr> None])"
    by (simp add: table_add_request_def add_request_def demo_rq_def demo_item_def taken_def table_add_def table_del_def)
  then show ?thesis
    using mapping_request_refines_table [of demo_gate "demo_rq ''AddPortMapping''" demo_igd_env] by (auto simp: port_table_def)
qed

lemma last_entry_found:
  assumes inv: "igd_inv s" and t: "port_table s = tab @ [n]" and k: "port_key n = (e, p)"
  shows "\<exists>m\<in>set (pmlist s). pmlist_FindSpecific e p s = Some m \<and> core m = n"
proof -
  have "n \<in> set (port_table s)" using t by simp
  then obtain m where m: "m \<in> set (pmlist s)" "core m = n" by (auto simp: port_table_def)
  have "distinct (map port_key (pmlist s))" using inv by (simp add: igd_inv_def list_inv_def)
  from find_key [OF this m(1)] have "find (\<lambda>x. port_key x = (e, p)) (pmlist s) = Some m" using m(2) k by auto
  then show ?thesis using m by (auto simp: pmlist_FindSpecific_def port_key_def)
qed

lemma GetSpecific_entry:
  assumes "gate_inv t" "m \<in> set (pmlist (gm t))" "pmlist_FindSpecific e p (gm t) = Some m" "p = ''TCP'' \<or> p = ''UDP''"
    and "rq_item rq ''NewExternalPort'' = Some e" "rq_item rq ''NewProtocol'' = Some p" "length (ActionName rq) < 28"
  shows "GetSpecificPortMappingEntry rq env t = Some (answered env (response ''u'' (ActionName rq) (entry_text (core m))), t)"
proof -
  have e: "entry_text (core m) = entry_text m" by (simp add: entry_text_def)
  show ?thesis
    using entry_answers(2) [OF assms(1,7), of env] assms(3-6)
    by (auto simp: GetSpecificPortMappingEntry_def answers_def e bind_eq_Some_conv sprintf_def split: if_splits)
qed

text \<open>C14: A mapping that was added is the one that is returned for its port and protocol.\<close>

theorem added_mapping_is_returned:
  assumes "gate_inv t" "request_fits rq" "length (pmlist (gm t)) < 9999" "configureAllowed (gd_vars (gm t))"
    and "ActionName rq = ''AddPortMapping''" "add_request rq = Some x" "\<not> taken x (port_table (gm t))" "ai_proto x = ''TCP'' \<or> ai_proto x = ''UDP''"
    and "rq_item rq' ''NewExternalPort'' = Some (ai_ext_port x)" "rq_item rq' ''NewProtocol'' = Some (ai_proto x)"
    and "ActionName rq' = ''GetSpecificPortMappingEntry''"
  shows "\<exists>r t'. AddPortMapping rq env t = Some (r, t') \<and> ErrCode r = 0
           \<and> GetSpecificPortMappingEntry rq' env' t' =
               Some (answered env' (response ''u'' ''GetSpecificPortMappingEntry'' (entry_text (new_entry x (rq_item rq ''NewRemoteHost'')))), t')"
proof -
  obtain r t' where r: "AddPortMapping rq env t = Some (r, t')" "gate_inv t'" "ErrCode r = 0"
      "port_table (gm t') = table_del (ai_ext_port x, ai_proto x) (port_table (gm t)) @ [new_entry x (rq_item rq ''NewRemoteHost'')]"
    using add_refines [OF assms(1,2) _ assms(3,4), of env] assms(5-7) by (auto simp: gate_rest_def table_add_request_def table_add_def)
  have "igd_inv (gm t')" using r(2) by (simp add: gate_inv_def)
  then obtain m where "m \<in> set (pmlist (gm t'))" "pmlist_FindSpecific (ai_ext_port x) (ai_proto x) (gm t') = Some m"
      "core m = new_entry x (rq_item rq ''NewRemoteHost'')"
    using last_entry_found [OF _ r(4)] by (auto simp: port_key_def new_entry_def)
  then show ?thesis using r GetSpecific_entry [OF r(2) _ _ assms(8-10), of m env'] assms(11) by simp
qed

theorem added_mapping_is_returned_witness:
  "\<exists>r t'. AddPortMapping (demo_rq ''AddPortMapping'') demo_igd_env demo_gate = Some (r, t') \<and> ErrCode r = 0
     \<and> GetSpecificPortMappingEntry (demo_rq ''GetSpecificPortMappingEntry'') demo_igd_env t' \<noteq> None"
proof -
  let ?x = "\<lparr>ai_ext_port = ''3074'', ai_proto = ''UDP'', ai_int_port = ''3074'', ai_int_ip = ''192.168.1.7'', ai_int_duration = ''0'',
    ai_bool_enabled = ''1'', ai_desc = ''Xbox''\<rparr>"
  have "add_request (demo_rq ''AddPortMapping'') = Some ?x" "\<not> taken ?x (port_table (gm demo_gate))"
    by (simp_all add: add_request_def demo_rq_def demo_item_def taken_def port_table_def)
  from added_mapping_is_returned [OF _ _ _ _ _ this, of "demo_rq ''GetSpecificPortMappingEntry''" demo_igd_env demo_igd_env]
  show ?thesis by auto
qed

lemma actions_of_others:
  "gate_inv t \<Longrightarrow> \<forall>(rq, env)\<in>set as. request_fits rq \<and> env_fits env \<and> \<not> names_port rq k \<Longrightarrow> length (pmlist (gm t)) + length as \<le> 9999 \<Longrightarrow>
   \<exists>t'. igd_steps (map (\<lambda>(rq, env). Igd_action rq env) as) (Igd_loop t) = Some (Igd_loop t')
      \<and> table_look k (port_table (gm t')) = table_look k (port_table (gm t))"
proof (induction as arbitrary: t)
  case (Cons a as)
  obtain rq env where a: "a = (rq, env)" by (cases a)
  have "request_fits rq" "env_fits env" "length (pmlist (gm t)) < 9999" and k: "\<not> names_port rq k" using Cons.prems a by auto
  from action_refines [OF Cons.prems(1) this(1-3)] obtain r t1 where t1: "HandleActionRequest rq env t = Some (r, t1)" "gate_rest t t1"
      "port_table (gm t1) = table_action rq t (port_table (gm t))" by blast
  have "length (port_table (gm t1)) \<le> Suc (length (port_table (gm t)))" unfolding t1(3) by (rule table_action_length)
  then have "length (pmlist (gm t1)) + length as \<le> 9999" using Cons.prems(3) by simp
  moreover have "gate_inv t1" using t1(2) by (simp add: gate_rest_def)
  ultimately obtain t' where "igd_steps (map (\<lambda>(rq, env). Igd_action rq env) as) (Igd_loop t1) = Some (Igd_loop t')"
      "table_look k (port_table (gm t')) = table_look k (port_table (gm t1))"
    using Cons.IH [of t1] Cons.prems(2) by auto
  moreover have "table_look k (port_table (gm t1)) = table_look k (port_table (gm t))" unfolding t1(3) by (rule table_action_other [OF k])
  ultimately show ?case using a t1(1) by simp
qed simp



section \<open>Timers\<close>

lemma wrap32_id: "- (2 ^ 31) \<le> x \<Longrightarrow> x < 2 ^ 31 \<Longrightarrow> wrap32 x = x"
  by (simp add: wrap32_def sint_sbintrunc' signed_take_bit_int_eq_self)



text \<open>The comment says that less than a minute ahead is put off by a day; over midnight it is not.\<close>

lemma near_midnight_ends_at_once: "expiration_time 0 (- 1) 1000000 86399 = Some 1000002"
  by (simp add: expiration_time_def wrap32_def)

text \<open>When the first timer is due, the timer and its job take the mapping out of the list, and no other.\<close>

theorem due_mapping_is_removed:
  assumes "gate_inv t" "gd_pool (gm t) = []" "length (pmlist (gm t)) < 9999" "eventQ (gm t) = e # es" "ev_time e \<le> curtime"
  shows "\<exists>m t'. deref (ev_mapping e) (gm t) = Some m \<and> igd_steps [Igd_timer curtime, Igd_job] (Igd_loop t) = Some (Igd_loop t')
           \<and> gate_inv t' \<and> port_table (gm t') = table_del (port_key m) (port_table (gm t))"
proof -
  have "igd_inv (gm t)" using assms(1) by (simp add: gate_inv_def)
  then obtain m where m: "deref (ev_mapping e) (gm t) = Some m" using expire_refines [OF _ assms(4,3)] by blast
  obtain t' where "igd_steps [Igd_timer curtime, Igd_job] (Igd_loop t) = Some (Igd_loop t')" "gate_rest t t'"
      "port_table (gm t') = table_tick curtime (gm t) (port_table (gm t))"
    using timer_turn [OF assms(1-3)] by blast
  then show ?thesis using m assms(4,5) by (simp add: table_tick_def gate_rest_def)
qed

theorem due_mapping_is_removed_witness:
  "\<exists>t'. igd_steps [Igd_timer 2000000, Igd_job] (Igd_loop demo_due) = Some (Igd_loop t') \<and> port_table (gm t') = []"
  using due_mapping_is_removed [of demo_due demo_event "[]" 2000000]
  by (auto simp: demo_event_def demo_map_def deref_def port_table_def table_del_def)

text \<open>C39: The timer hands an event over before the job takes the mutex. When all mappings are deleted in between, the event cannot be
  cancelled any more, and the job uses a mapping that was freed.\<close>

theorem late_job_uses_freed_mapping:
  assumes "gate_inv t" "gd_pool (gm t) = []" "eventQ (gm t) = e # es" "ev_time e \<le> curtime"
  shows "igd_steps [Igd_timer curtime, Igd_usr1, Igd_job] (Igd_loop t) = None"
proof -
  let ?s = "gm t\<lparr>eventQ := es, gd_pool := [e]\<rparr>" and ?t = "t\<lparr>gm := gm t\<lparr>eventQ := es, gd_pool := [e]\<rparr>\<rparr>"
  have "timer_due curtime (gm t) = ?s" using assms by (simp add: timer_due_def)
  moreover have "gate_inv ?t"
    using assms(1,3) by (auto simp: gate_inv_def igd_inv_def list_inv_def event_inv_def rules_def)
  then obtain t' where t': "DeleteAllPortMappings ?t = Some t'" "gate_rest ?t t'" "pmlist (gm t') = []" using DeleteAll_empties by blast
  have "gd_pool (gm t') = [e]" using t'(2) by (simp add: gate_rest_def same_rest_def)
  then have "pool_job (gm t') = None" using t'(3) by (simp add: pool_job_def ExpireMapping_def deref_def)
  ultimately show ?thesis using t'(1) by simp
qed

theorem late_job_uses_freed_mapping_witness:
  "igd_steps [Igd_timer 2000000, Igd_usr1, Igd_job] (Igd_loop demo_due) = None"
  using late_job_uses_freed_mapping [of demo_due demo_event "[]" 2000000] by (simp add: demo_event_def)

section \<open>The answers\<close>

lemma generic_text_length:
  "length (generic_text m) = 284 + (length (m_RemoteHost m) + length (m_ExternalPort m) + length (m_PortMappingProtocol m)
     + length (m_InternalPort m) + length (m_InternalClient m) + length (show_int (m_PortMappingEnabled m))
     + length (m_PortMappingDescription m) + length (show_int (m_PortMappingLeaseDuration m)))"
  by (simp add: generic_text_def entry_text_def)

text \<open>C40: The answer with the fields of a mapping is printed into 500 characters: it is returned when the texts of the mapping have
  fewer than 80 characters in all, and from 80 characters on, which the fields can hold, it is written past the end.\<close>

theorem generic_entry_fits_iff:
  assumes "rq_item rq ''NewPortMappingIndex'' = Some i" "pmlist_FindByIndex (atol i) (gm t) = Some m"
    and "ActionName rq = ''GetGenericPortMappingEntry''"
  shows "GetGenericPortMappingEntry rq env t =
           (if length (m_RemoteHost m) + length (m_ExternalPort m) + length (m_PortMappingProtocol m) + length (m_InternalPort m)
              + length (m_InternalClient m) + length (show_int (m_PortMappingEnabled m)) + length (m_PortMappingDescription m)
              + length (show_int (m_PortMappingLeaseDuration m)) < 80
            then Some (answered env (response ''u'' (ActionName rq) (generic_text m)), t) else None)"
  using assms by (simp add: GetGenericPortMappingEntry_def sprintf_def generic_text_length)

text \<open>A mapping that a control point can have: a remote host, a long description and a lease of an hour.\<close>

definition long_map :: portMap where
  "long_map = demo_map\<lparr>m_RemoteHost := ''203.0.113.200'', m_PortMappingDescription := ''Remote desktop of the office machine, one hour'',
     m_PortMappingLeaseDuration := 3600\<rparr>"

theorem generic_entry_fits_iff_witness:
  "GetGenericPortMappingEntry (demo_rq ''GetGenericPortMappingEntry'') demo_igd_env (demo_due\<lparr>gm := gm demo_due\<lparr>pmlist := [long_map]\<rparr>\<rparr>) = None"
proof -
  have a: "atol ''0'' = 0" by (simp add: atol_def split_sign_def isspace_def digits_def is_digit_def digit_of_def num_val_def)
  have d: "show_int 3600 = ''3600''" "show_int 1 = ''1''" by (simp_all add: show_int_def dec.simps digit_eq)
  show ?thesis
    using generic_entry_fits_iff [of "demo_rq ''GetGenericPortMappingEntry''" "''0''"
        "demo_due\<lparr>gm := gm demo_due\<lparr>pmlist := [long_map]\<rparr>\<rparr>" long_map demo_igd_env]
    by (simp add: a pmlist_FindByIndex_def long_map_def demo_map_def d)
qed

end
