(* ===== verification/Spec2Isabelle.thy ===== *)
theory Spec2Isabelle
  imports Lltd_Properties Dhcp_Properties Dhcp_Main Dhcp_Handshake Igmp_Properties Igd_Properties
begin

text \<open>
  Verification of the network daemons of the Vizio XWR100 router firmware.

  The repository is a firmware tree: a boot loader, a Linux kernel and a user land, most of them vendored, and the
  daemons that make the box a router under \<open>src/GTK/user/apps\<close>. The vendor's own applications (settings, web server,
  firewall scripts) are shipped as object files. This development models daemons that are shipped as source and that
  answer to packets from the network. The target is a 32-bit big-endian MIPS processor, so \<open>htonl\<close> and
  \<open>ntohl\<close> are the identity, \<open>unsigned long\<close> has 32 bits and \<open>size_t\<close> is unsigned; all of these are words in the model.

  \<^bold>\<open>Conventions.\<close> The global variables of a daemon are one record. A C function is an Isabelle function from the state to
  its result and the new state. What the operating system answers (clock, sockets, files, settings, the results of
  \<open>select\<close>) is an input: a field of the state that is a function from the number of the call to the answer, or the
  input of a step. What the daemon does outside (frames and messages sent, shell commands) is appended to a list in
  the state. The value \<^term>\<open>None\<close> is a run that the C program does not survive or does not finish: a failed assertion, a
  read or write outside a buffer or table, a value that was never set, an endless loop. A theorem that a result is
  \<^term>\<open>Some x\<close> therefore says that the code is safe and terminates. Pointers into an array are indices, pointers into a
  message are offsets.

  \<^bold>\<open>Shared theories.\<close> \<open>Prelude\<close>: words, byte buffers, runs of a component, and the locale \<open>total_component\<close>, the contract
  of a daemon with an invariant, interpreted for each daemon. \<open>Net_Text\<close>, \<open>Libc_Text\<close>: what the C library prints and
  reads (\<open>inet_ntoa\<close> is injective and \<open>inet_aton\<close> is its inverse; \<open>strtoul\<close>, \<open>strtok\<close>, \<open>fgets\<close>).

  \<^bold>\<open>The LLTD responder\<close> (\<open>ms-lltd\<close>) answers the link layer topology discovery of a workstation.
  \<^item> \<open>Lltd_Event\<close>: \<open>event.c\<close>, \<open>util.h\<close>, the sorted list of timers and the I/O slots.
  \<^item> \<open>Lltd_Seeslist\<close>: \<open>seeslist.c\<close>, the circular buffer of observed probes, refined to a queue.
  \<^item> \<open>Lltd_Tlv\<close>: \<open>tlv.c\<close>, \<open>tlvdef.h\<close>, the attributes of the station; round trips of the attribute list and of an icon.
  \<^item> \<open>Lltd_Globals\<close>, \<open>Lltd_Band\<close>: the global state (\<open>globals.h\<close>, \<open>protocol.h\<close>), and the load control \<open>band.c\<close>.
  \<^item> \<open>Lltd_Packetio_Tx\<close>, \<open>Lltd_Packetio_Rx\<close>: \<open>packetio.c\<close>, the frames sent and the validation of frames received.
  \<^item> \<open>Lltd_Mapping\<close>, \<open>Lltd_Enumeration\<close>, \<open>Lltd_Session\<close>: the state machines smT, smE and smS of \<open>mapping.c\<close>,
    \<open>enumeration.c\<close> and \<open>sessionmgr.c\<close>; \<open>Lltd_State\<close>: their dispatch in \<open>state.c\<close>.
  \<^item> \<open>Lltd_Properties\<close>: properties of the whole responder; its invariant and the theorem that it survives every sequence
    of frames and timeouts are in \<open>Lltd_Packetio_Rx\<close>.

  \<^bold>\<open>The DHCP server\<close> (\<open>udhcpd-0.9.8\<close>, with the changes of the vendor in \<open>gemtek_added_SRC\<close>) gives addresses to the hosts of
  the LAN.
  \<^item> \<open>Dhcp_Options\<close>: \<open>options.c\<close>, options of a message and of the configuration; a message is its 548 bytes.
  \<^item> \<open>Dhcp_Packet\<close>: \<open>packet.c\<close>, reading datagrams, the IP and UDP headers and their checksums.
  \<^item> \<open>Dhcp_Arp\<close>: \<open>arpping.c\<close>, the test whether an address is in use.
  \<^item> \<open>Dhcp_Leases\<close>: \<open>leases.c\<close>, the lease table, with its invariant (no address and no client twice) and its refinement to
    a map from addresses to client and expiry. \<open>Dhcp_Alloc\<close>: the contract of the table as the locale \<open>lease_store\<close>, and
    the search for a free address.
  \<^item> \<open>Dhcp_Server\<close>: \<open>serverpacket.c\<close> and the message handling of \<open>dhcpd.c\<close>; \<open>Dhcp_Server_Props\<close> (form of every reply),
    \<open>Dhcp_Server_Inv\<close> (every handler returns and keeps the invariant) and \<open>Dhcp_Properties\<close> (what clients see, and three
    flaws) are the proofs.
  \<^item> \<open>Dhcp_Config\<close>, \<open>Dhcp_Files\<close>: \<open>files.c\<close>, the configuration file and the lease file, with the round trip of the leases.
  \<^item> \<open>Dhcp_Main\<close>: \<open>main\<close> of \<open>dhcpd.c\<close> and \<open>socket.c\<close>, start, time-outs, signals, and the change of the network.

  \<^bold>\<open>The DHCP client\<close> (\<open>udhcpc-0.9.8\<close>) gets the address of the router on the WAN side.
  \<^item> \<open>Dhcpc_Packet\<close>: \<open>clientpacket.c\<close> and the parts of \<open>packet.c\<close> and \<open>options.c\<close> that differ from the server's: what
    the messages of the client contain, a packet that was sent is read back, and a frame that overruns the stack.
  \<^item> \<open>Dhcpc_Main\<close>: \<open>dhcpc.c\<close> with its \<open>socket.c\<close>, the command line, the state machine, its time-outs and signals.
  \<^item> \<open>Dhcpc_Inv\<close>: the invariant of the client; it survives every sequence of turns. \<open>Dhcpc_Lease\<close>: a client that gets
    no more answers gives its address up before the lease is over, after at most 26 time-outs.
  \<^item> \<open>Dhcp_Handshake\<close>: a network of the client and the server, and the four steps in which the client gets an address.

  \<^bold>\<open>The IGMP proxy\<close> (\<open>igmp\<close>) joins on the WAN side the multicast groups that have members on the LAN side.
  \<^item> \<open>Igmp_Groups\<close>: the lists of \<open>igmprt.c\<close> (members and sources of a group, groups, interfaces) and the membership database of
    \<open>proxy.c\<close>. \<open>Igmp_Router\<close>: reports, leaves, queries and timers (\<open>igmprt.c\<close>, \<open>igmpv2.c\<close>), reception, and \<open>main\<close>.
  \<^item> \<open>Igmp_Spec\<close>: the operations in closed form. \<open>Igmp_Inv\<close>: the invariant, and the groups of an interface as a map from
    addresses to members and time. \<open>Igmp_Run\<close>, \<open>Igmp_Start\<close>: every operation and the start keep the invariant.
  \<^item> \<open>Igmp_Turns\<close>: the abstract table as the locale \<open>group_table\<close>, the reachable states, and the turns of the proxy as steps of
    the abstract table. \<open>Igmp_Properties\<close>: what the proxy guarantees with one downstream interface, and four flaws.

  \<^bold>\<open>The UPnP gateway\<close> (\<open>linuxigd-0.95\<close>) forwards ports of the router to clients that ask for it.
  \<^item> \<open>Igd_List\<close>: the list of port mappings and the \<open>iptables\<close> programs that are run for each (\<open>pmlist.c\<close>), and the timers that end
    a mapping (\<open>gatedevice.c\<close>, and the queue of \<open>TimerThread.c\<close> in the UPnP library). A mapping is known by the number of its
    block, so that a pointer to a freed mapping is visible. \<open>Igd_Device\<close>: the actions with the texts of their answers, dispatch,
    subscriptions, signals; the threads take the mutex in turn, and a turn is a step.
  \<^item> \<open>Igd_Inv\<close>: the firewall as the multiset of rules that the programs leave, the invariant (a port is mapped once, every timer
    points to a mapping that knows it, the rules are those of the mappings), and what cancelling and deleting do to it.
  \<^item> \<open>Igd_Spec\<close>: the list as an abstract table without memory and timers, with the laws of lookup as the locale \<open>keyed_table\<close>, and the
    operations of the list as those of the table.
    \<open>Igd_Run\<close>: every action, timer and signal keeps the invariant and is a step of the table. \<open>Igd_Properties\<close>: the properties.

  \<^bold>\<open>Bounds.\<close> Loops over tables and buffers are structural or have a termination proof. The loop of \<open>find_address\<close> is a
  partial function, because it does not end when the range ends with 255.255.255.255; for every other range it is proved
  to end. The wait in \<open>arpping\<close> consumes a list of events, and is proved to end when two seconds have passed in it. No
  other bound or fuel is used.

  \<^bold>\<open>Hypotheses.\<close> Messages to the server have well-formed options (\<open>msg_ok\<close>); what happens otherwise is shown by the two
  theorems on \<open>get_option\<close> in \<open>Dhcp_Options\<close>. The configuration is one that \<open>read_config\<close> gives, with a range below
  255.255.255.255, ARP tests that end and a log file that can be opened (\<open>config_ok\<close>). Messages to the client have
  well-formed options and strings that end inside the message (\<open>readable\<close>, \<open>client_turn_ok\<close>), and its arguments fit
  into a message (\<open>args_fit\<close>, \<open>client_ok\<close>). The proxy is started as \<open>igmp_start_ok\<close> says: names that fit, interfaces with numbers
  below 32, allocations that succeed, and freed blocks that can still be read, without which the first leave fails.
  The gateway gets requests whose items fit the fields of a mapping, with a description of at most 14 characters (\<open>request_fits\<close>;
  \<open>generic_entry_fits_iff\<close> says when a longer one overflows), allocations succeed (\<open>igd_ready\<close>), a freed block can still be written
  (the job that ends a mapping does so), and a job of the timer runs before the next request (\<open>turn_fits\<close>;
  \<open>late_job_uses_freed_mapping\<close> shows what happens otherwise). The number of turns is below ten thousand, as the code says that
  at most 9999 mappings can be counted.

  \<^bold>\<open>Not modelled.\<close> Of the five daemons: the operating system layers (\<open>osl-linux.c\<close>, process management, pid files), the QoS
  diagnostics of the responder (\<open>qospktio.c\<close>, a parameter of \<open>Lltd_Packetio_Rx\<close>), floating point (a parameter of
  \<open>Lltd_Band\<close>), the command line tools, and, of the reload on SIGUSR2, the effect on a table that comes from a different
  network mask, and the environment that \<open>script.c\<close> passes to the script of the client (a run of the script is recorded
  with its name and message), and the queries that the proxy could schedule (nothing calls them), and of the gateway
  the configuration file (regular expressions of the C library), the deprecated query of a state variable, and the calls that
  start the UPnP library. The DNS forwarder and the time client are not modelled. Kernel, boot loader, wireless drivers and the other vendored programs are outside the development.
\<close>

end
